(* ===== verification/Js_Base.thy ===== *)
theory Js_Base
  imports Complex_Main "HOL-Library.Char_ord"
begin

text \<open>
  The JavaScript base the components share: strings, decimal numerals and the regular
  expression classes the sources use.

  A JavaScript string is a sequence of UTF-16 code units. The model's \<^typ>\<open>string\<close> is a list
  of \<^typ>\<open>char\<close>, so it holds the code units below 256; every literal, separator and character
  class of the modelled sources lies in that range. Code points above it are outside the model.
\<close>

named_theorems js_string \<open>facts about JavaScript string helpers\<close>

text \<open>White space as \<open>String.prototype.trim\<close> and the class \<open>\s\<close> see it (below 256).\<close>

definition js_ws :: "char \<Rightarrow> bool" where
  "js_ws c = (let n = (of_char c :: nat) in n = 32 \<or> (9 \<le> n \<and> n \<le> 13) \<or> n = 160)"

definition js_trim :: "string \<Rightarrow> string" where
  "js_trim s = rev (dropWhile js_ws (rev (dropWhile js_ws s)))"

definition is_digit :: "char \<Rightarrow> bool" where
  "is_digit c = (let n = (of_char c :: nat) in 48 \<le> n \<and> n \<le> 57)"

definition is_lower :: "char \<Rightarrow> bool" where
  "is_lower c = (let n = (of_char c :: nat) in 97 \<le> n \<and> n \<le> 122)"

definition is_upper :: "char \<Rightarrow> bool" where
  "is_upper c = (let n = (of_char c :: nat) in 65 \<le> n \<and> n \<le> 90)"

definition is_alpha :: "char \<Rightarrow> bool" where
  "is_alpha c = (is_lower c \<or> is_upper c)"

text \<open>
  \<open>toLowerCase\<close> below 256: ASCII letters and the Latin-1 capitals (0xD7 is the multiplication
  sign). \<open>toUpperCase\<close> below 256: 0xDF becomes two letters; 0xB5 and 0xFF, whose upper case
  lies above 255, are kept.
\<close>

definition js_lower_char :: "char \<Rightarrow> char" where
  "js_lower_char c = (let n = (of_char c :: nat) in
     if (65 \<le> n \<and> n \<le> 90) \<or> (192 \<le> n \<and> n \<le> 222 \<and> n \<noteq> 215) then char_of (n + 32) else c)"

definition js_lower :: "string \<Rightarrow> string" where
  "js_lower s = map js_lower_char s"

definition js_upper_char :: "char \<Rightarrow> string" where
  "js_upper_char c = (let n = (of_char c :: nat) in
     if (97 \<le> n \<and> n \<le> 122) \<or> (224 \<le> n \<and> n \<le> 254 \<and> n \<noteq> 247) then [char_of (n - 32)]
     else if n = 223 then ''SS'' else [c])"

definition js_upper :: "string \<Rightarrow> string" where
  "js_upper s = concat (map js_upper_char s)"

definition starts_with :: "string \<Rightarrow> string \<Rightarrow> bool" where
  "starts_with p s = (take (length p) s = p)"

definition ends_with :: "string \<Rightarrow> string \<Rightarrow> bool" where
  "ends_with p s = starts_with (rev p) (rev s)"

text \<open>\<open>s.split(c)\<close> for a one-character separator, and \<open>Array.prototype.join\<close>.\<close>

fun split_char :: "char \<Rightarrow> string \<Rightarrow> string list" where
  "split_char c [] = [[]]"
| "split_char c (x # xs) =
     (if x = c then [] # split_char c xs
      else (case split_char c xs of [] \<Rightarrow> [[x]] | y # ys \<Rightarrow> (x # y) # ys))"

fun js_join :: "string \<Rightarrow> string list \<Rightarrow> string" where
  "js_join sep [] = []"
| "js_join sep [x] = x"
| "js_join sep (x # y # ys) = x @ sep @ js_join sep (y # ys)"

text \<open>\<open>s.split(/\s+/u)\<close>: a maximal run of white space is one separator.\<close>

function split_ws :: "string \<Rightarrow> string list" where
  "split_ws [] = [[]]"
| "split_ws (x # xs) =
     (if js_ws x then [] # split_ws (dropWhile js_ws xs)
      else (case split_ws xs of [] \<Rightarrow> [[x]] | y # ys \<Rightarrow> (x # y) # ys))"
  by pat_completeness auto
termination
  by (relation "measure length") (auto simp: le_imp_less_Suc length_dropWhile_le)

text \<open>Decimal numerals: \<open>String(n)\<close> for integers, and \<open>Number(s)\<close> on a string of digits.\<close>

definition digit_char :: "nat \<Rightarrow> char" where
  "digit_char d = char_of (48 + d)"

definition digit_val :: "char \<Rightarrow> nat" where
  "digit_val c = of_char c - 48"

fun show_nat :: "nat \<Rightarrow> string" where
  "show_nat n = (if n < 10 then [digit_char n] else show_nat (n div 10) @ [digit_char (n mod 10)])"

declare show_nat.simps [simp del]

definition show_int :: "int \<Rightarrow> string" where
  "show_int i = (if i < 0 then CHR ''-'' # show_nat (nat (- i)) else show_nat (nat i))"

definition digits_val :: "string \<Rightarrow> nat" where
  "digits_val s = foldl (\<lambda>acc c. 10 * acc + digit_val c) 0 s"

text \<open>The regular expression \<open>/^\d+$/u\<close>.\<close>

definition all_digits :: "string \<Rightarrow> bool" where
  "all_digits s = (s \<noteq> [] \<and> list_all is_digit s)"

text \<open>
  \<open>Math.trunc\<close> (numbers with a fractional part are exact rationals in the model), and
  \<open>Math.ceil(a / b)\<close> for integers and a positive divisor.
\<close>

definition js_trunc :: "rat \<Rightarrow> int" where
  "js_trunc x = (if 0 \<le> x then \<lfloor>x\<rfloor> else \<lceil>x\<rceil>)"

definition ceil_div :: "int \<Rightarrow> int \<Rightarrow> int" where
  "ceil_div a b = - ((- a) div b)"

section \<open>Facts\<close>

lemma of_char_nat_less [simp]: "(of_char c :: nat) < 256"
  by (metis of_char_of char_of_eq_iff nat_of_char_less_256)

lemma js_lower_idem_char: "js_lower_char (js_lower_char c) = js_lower_char c"
proof -
  have "(of_char c :: nat) < 256" by simp
  then show ?thesis
    by (auto simp: js_lower_char_def Let_def)
qed

lemma js_lower_idem [js_string, simp]: "js_lower (js_lower s) = js_lower s"
  by (simp add: js_lower_def js_lower_idem_char)

lemma length_js_lower [js_string, simp]: "length (js_lower s) = length s"
  by (simp add: js_lower_def)

lemma js_trim_hd: "js_trim s = c # t \<Longrightarrow> \<not> js_ws c"
proof -
  assume t: "js_trim s = c # t"
  let ?d = "dropWhile js_ws s"
  have d: "?d = js_trim s @ rev (takeWhile js_ws (rev ?d))"
    by (metis js_trim_def rev_append rev_rev_ident takeWhile_dropWhile_id)
  then have "?d = c # t @ rev (takeWhile js_ws (rev ?d))" using t by simp
  then show ?thesis by (metis hd_dropWhile list.distinct(1) list.sel(1))
qed

lemma js_trim_last: "js_trim s \<noteq> [] \<Longrightarrow> \<not> js_ws (last (js_trim s))"
  by (metis hd_dropWhile js_trim_def last_rev rev_is_Nil_conv)

lemma dropWhile_hd_neg: "(xs \<noteq> [] \<Longrightarrow> \<not> P (hd xs)) \<Longrightarrow> dropWhile P xs = xs"
  by (cases xs) auto

lemma js_trim_id: "(s \<noteq> [] \<Longrightarrow> \<not> js_ws (hd s)) \<Longrightarrow> (s \<noteq> [] \<Longrightarrow> \<not> js_ws (last s)) \<Longrightarrow> js_trim s = s"
  by (cases "s = []") (auto simp: js_trim_def dropWhile_hd_neg hd_rev)

lemma js_trim_idem [js_string, simp]: "js_trim (js_trim s) = js_trim s"
proof (rule js_trim_id)
  show "\<not> js_ws (hd (js_trim s))" if "js_trim s \<noteq> []"
    using that js_trim_hd [of s] by (cases "js_trim s") auto
qed (rule js_trim_last)

lemma js_trim_Nil_iff [js_string]: "js_trim s = [] \<longleftrightarrow> list_all js_ws s"
  by (auto simp: js_trim_def list_all_iff dropWhile_eq_Nil_conv dest: set_dropWhileD)
     (metis dropWhile_eq_Nil_conv set_dropWhileD takeWhile_dropWhile_id Un_iff set_append set_takeWhileD)

lemma split_char_not_Nil [js_string, simp]: "split_char c s \<noteq> []"
  by (cases s) (auto split: list.splits)

lemma split_char_no_sep: "c \<notin> set s \<Longrightarrow> split_char c s = [s]"
  by (induction s) auto

lemma split_char_append_sep:
  "c \<notin> set x \<Longrightarrow> split_char c (x @ c # ys) = x # split_char c ys"
  by (induction x) auto

lemma split_join [js_string]:
  "xs \<noteq> [] \<Longrightarrow> (\<And>x. x \<in> set xs \<Longrightarrow> c \<notin> set x) \<Longrightarrow> split_char c (js_join [c] xs) = xs"
  by (induction "[c]" xs rule: js_join.induct) (auto simp: split_char_no_sep split_char_append_sep)

lemma join_split [js_string]: "js_join [c] (split_char c s) = s"
proof (induction s)
  case (Cons a s)
  obtain y ys where s: "split_char c s = y # ys" by (cases "split_char c s") auto
  then show ?case using Cons by (cases ys) auto
qed simp

lemma split_char_pieces: "x \<in> set (split_char c s) \<Longrightarrow> c \<notin> set x"
  by (induction s arbitrary: x) (auto split: list.splits if_splits)

lemma split_ws_no_ws: "list_all (\<lambda>c. \<not> js_ws c) s \<Longrightarrow> split_ws s = [s]"
  by (induction s) auto

lemma split_ws_word:
  "list_all (\<lambda>c. \<not> js_ws c) w \<Longrightarrow> js_ws x \<Longrightarrow> split_ws (w @ x # s) = w # split_ws (dropWhile js_ws s)"
  by (induction w) auto

lemma split_ws_join [js_string]:
  "ws \<noteq> [] \<Longrightarrow> (\<And>w. w \<in> set ws \<Longrightarrow> w \<noteq> [] \<and> list_all (\<lambda>c. \<not> js_ws c) w) \<Longrightarrow>
     split_ws (js_join '' '' ws) = ws"
proof (induction "'' ''" ws rule: js_join.induct)
  case (3 x y ys)
  have hd: "\<not> js_ws (hd (js_join '' '' (y # ys)))" "js_join '' '' (y # ys) \<noteq> []"
    using 3(3) [of y] by (cases ys; cases y; auto)+
  have "js_ws CHR '' ''" by (simp add: js_ws_def)
  then have "split_ws (js_join '' '' (x # y # ys)) = x # split_ws (js_join '' '' (y # ys))"
    using 3(3) [of x] hd by (simp add: split_ws_word dropWhile_hd_neg)
  then show ?case using 3 by simp
qed (auto simp: split_ws_no_ws)

subsection \<open>Numerals\<close>

lemma digit_char_props:
  assumes "d < 10"
  shows "is_digit (digit_char d)" and "digit_val (digit_char d) = d"
  using assms by (auto simp: is_digit_def digit_val_def digit_char_def Let_def)

lemma show_nat_digits [js_string, simp]: "list_all is_digit (show_nat n)"
  by (induction n rule: show_nat.induct) (subst show_nat.simps, auto simp: digit_char_props)

lemma show_nat_not_Nil [js_string, simp]: "show_nat n \<noteq> []"
  by (subst show_nat.simps) simp

lemma all_digits_show_nat [js_string, simp]: "all_digits (show_nat n)"
  by (simp add: all_digits_def)

lemma digits_val_snoc: "digits_val (s @ [c]) = 10 * digits_val s + digit_val c"
  by (simp add: digits_val_def)

lemma digits_val_show [js_string, simp]: "digits_val (show_nat n) = n"
proof (induction n rule: show_nat.induct)
  case (1 n)
  show ?case
  proof (cases "n < 10")
    case True
    then show ?thesis
      by (subst show_nat.simps) (simp add: digits_val_def digit_char_props)
  next
    case False
    then show ?thesis
      using 1 by (subst show_nat.simps) (simp add: digits_val_snoc digit_char_props)
  qed
qed

lemma show_nat_inject [simp]: "show_nat m = show_nat n \<longleftrightarrow> m = n"
  by (metis digits_val_show)

lemma show_nat_mem_digit: "c \<in> set (show_nat n) \<Longrightarrow> is_digit c"
  using show_nat_digits [of n] by (auto simp: list_all_iff)

lemma show_nat_no_char [js_string]: "\<not> is_digit c \<Longrightarrow> c \<notin> set (show_nat n)"
  by (auto dest: show_nat_mem_digit)

lemma digit_not_ws: "is_digit c \<Longrightarrow> \<not> js_ws c"
  by (auto simp: is_digit_def js_ws_def Let_def)

lemma not_digit_chars [simp]:
  "\<not> is_digit CHR '',''" "\<not> is_digit CHR ''-''" "\<not> is_digit CHR ''/''" "\<not> is_digit CHR '':''"
  "\<not> is_digit CHR ''.''" "\<not> is_digit CHR ''*''" "\<not> is_digit CHR '' ''"
  by (simp_all add: is_digit_def)

lemma ceil_div_mult_ge: "0 < b \<Longrightarrow> a \<le> ceil_div a b * b"
proof -
  assume "0 < b"
  then have "(- a) div b * b \<le> - a"
    by (metis minus_mod_eq_div_mult diff_le_eq le_add_same_cancel1 pos_mod_sign)
  then show ?thesis by (simp add: ceil_div_def)
qed

lemma ceil_div_pos: "0 < b \<Longrightarrow> 0 < a \<Longrightarrow> 0 < ceil_div a b"
  by (simp add: ceil_div_def pos_imp_zdiv_neg_iff)

end
