(* ===== verification/Js_Sort.thy ===== *)
theory Js_Sort
  imports Js_Base "HOL-Library.Multiset"
begin

text \<open>
  \<open>Array.prototype.sort(compare)\<close>: ECMAScript asks for a stable sort whose result is fixed when
  the comparator is consistent. \<open>js_sort\<close> is the stable insertion sort; the locales
  \<open>comparator\<close> and \<open>strict_comparator\<close> say what a consistent comparator is and what a sorted
  array then satisfies. They are interpreted here on the numeric comparator \<open>(a, b) => a - b\<close>
  and on code-unit order, and by the cron theories on the comparators of their source.
\<close>

fun js_insert :: "('a \<Rightarrow> 'a \<Rightarrow> int) \<Rightarrow> 'a \<Rightarrow> 'a list \<Rightarrow> 'a list" where
  "js_insert cmp x [] = [x]"
| "js_insert cmp x (y # ys) = (if cmp x y \<le> 0 then x # y # ys else y # js_insert cmp x ys)"

definition js_sort :: "('a \<Rightarrow> 'a \<Rightarrow> int) \<Rightarrow> 'a list \<Rightarrow> 'a list" where
  "js_sort cmp xs = foldr (js_insert cmp) xs []"

definition num_diff :: "int \<Rightarrow> int \<Rightarrow> int" where
  "num_diff a b = a - b"

text \<open>The order of UTF-16 code units (the order \<open><\<close> has on JavaScript strings).\<close>

fun code_unit_compare :: "string \<Rightarrow> string \<Rightarrow> int" where
  "code_unit_compare [] [] = 0"
| "code_unit_compare [] (y # ys) = - 1"
| "code_unit_compare (x # xs) [] = 1"
| "code_unit_compare (x # xs) (y # ys) =
     (if (of_char x :: nat) < of_char y then - 1
      else if (of_char y :: nat) < of_char x then 1
      else code_unit_compare xs ys)"

lemma mset_js_insert [simp]: "mset (js_insert cmp x ys) = add_mset x (mset ys)"
  by (induction ys) auto

lemma mset_js_sort [simp]: "mset (js_sort cmp xs) = mset xs"
  by (induction xs) (auto simp: js_sort_def)

lemma set_js_sort [simp]: "set (js_sort cmp xs) = set xs"
  by (metis mset_eq_setD mset_js_sort)

lemma length_js_sort [simp]: "length (js_sort cmp xs) = length xs"
  by (metis mset_js_sort size_mset)

lemma distinct_js_sort [simp]: "distinct (js_sort cmp xs) = distinct xs"
  by (metis mset_js_sort mset_eq_imp_distinct_iff)

section \<open>Consistent comparators\<close>

locale comparator =
  fixes cmp :: "'a \<Rightarrow> 'a \<Rightarrow> int"
  assumes antisym: "cmp y x < 0 \<longleftrightarrow> 0 < cmp x y"
    and trans: "cmp x y \<le> 0 \<Longrightarrow> cmp y z \<le> 0 \<Longrightarrow> cmp x z \<le> 0"
begin

lemma total: "cmp x y \<le> 0 \<or> cmp y x \<le> 0"
  using antisym [of x y] by linarith

lemma not_le_flip: "\<not> cmp x y \<le> 0 \<Longrightarrow> cmp y x \<le> 0"
  using total by blast

lemma js_insert_sorted:
  "sorted_wrt (\<lambda>x y. cmp x y \<le> 0) ys \<Longrightarrow> sorted_wrt (\<lambda>x y. cmp x y \<le> 0) (js_insert cmp x ys)"
proof (induction ys)
  case (Cons y ys)
  have set: "set (js_insert cmp x ys) = insert x (set ys)"
    by (metis mset_js_insert set_mset_add_mset_insert set_mset_mset)
  show ?case using Cons set not_le_flip [of x y] by (auto intro: trans)
qed simp

lemma js_sort_sorted: "sorted_wrt (\<lambda>x y. cmp x y \<le> 0) (js_sort cmp xs)"
  by (induction xs) (simp_all add: js_sort_def js_insert_sorted)

lemma js_sort_id: "sorted_wrt (\<lambda>x y. cmp x y \<le> 0) xs \<Longrightarrow> js_sort cmp xs = xs"
proof (induction xs)
  case (Cons x xs)
  then have "js_sort cmp (x # xs) = js_insert cmp x xs" by (simp add: js_sort_def)
  also have "\<dots> = x # xs" using Cons.prems by (cases xs) auto
  finally show ?case .
qed (simp add: js_sort_def)

lemma js_sort_idem: "js_sort cmp (js_sort cmp xs) = js_sort cmp xs"
  by (rule js_sort_id) (rule js_sort_sorted)

end

text \<open>Comparators built from comparators: on a key, and one refining another (\<open>a || b\<close> on numbers).\<close>

definition or_else :: "int \<Rightarrow> int \<Rightarrow> int" where
  "or_else a b = (if a \<noteq> 0 then a else b)"

lemma comparator_key: "comparator cmp \<Longrightarrow> comparator (\<lambda>a b. cmp (f a) (f b))"
  unfolding comparator_def by blast

lemma comparator_diff: "comparator (\<lambda>a b. f a - f b)"
  by unfold_locales auto

lemma comparator_ties:
  assumes "comparator cmp" "cmp x y \<le> 0" "cmp y z \<le> 0" "cmp x z = 0"
  shows "cmp x y = 0 \<and> cmp y z = 0"
proof -
  have anti: "\<And>a b. cmp b a < 0 \<longleftrightarrow> 0 < cmp a b"
    and trans: "\<And>a b c. cmp a b \<le> 0 \<Longrightarrow> cmp b c \<le> 0 \<Longrightarrow> cmp a c \<le> 0"
    using assms(1) unfolding comparator_def by blast+
  have "cmp z x \<le> 0" using anti [of x z] anti [of z x] assms(4) by linarith
  then have "cmp z y \<le> 0" "cmp y x \<le> 0" using trans assms(2,3) by blast+
  then show ?thesis using anti [of x y] anti [of y x] anti [of y z] anti [of z y] assms(2,3) by linarith
qed

lemma comparator_or_else:
  assumes "comparator c1" "comparator c2"
  shows "comparator (\<lambda>a b. or_else (c1 a b) (c2 a b))"
proof
  fix x y z
  have a1: "\<And>a b. c1 b a < 0 \<longleftrightarrow> 0 < c1 a b" and a2: "\<And>a b. c2 b a < 0 \<longleftrightarrow> 0 < c2 a b"
    using assms unfolding comparator_def by blast+
  have z1: "c1 a b = 0 \<longleftrightarrow> c1 b a = 0" for a b using a1 [of a b] a1 [of b a] by linarith
  show "or_else (c1 y x) (c2 y x) < 0 \<longleftrightarrow> 0 < or_else (c1 x y) (c2 x y)"
    using a1 [of y x] a2 [of y x] z1 [of x y] a1 [of x y] by (simp add: or_else_def)
  assume xy: "or_else (c1 x y) (c2 x y) \<le> 0" and yz: "or_else (c1 y z) (c2 y z) \<le> 0"
  have l1: "c1 x y \<le> 0" "c1 y z \<le> 0" using xy yz by (auto simp: or_else_def split: if_splits)
  have t1: "c1 x z \<le> 0" using comparator.trans [OF assms(1) l1] .
  show "or_else (c1 x z) (c2 x z) \<le> 0"
  proof (cases "c1 x z = 0")
    case True
    then have "c1 x y = 0" "c1 y z = 0" using comparator_ties [OF assms(1) l1] by auto
    then have "c2 x z \<le> 0" using xy yz comparator.trans [OF assms(2)] by (simp add: or_else_def)
    then show ?thesis using True by (simp add: or_else_def)
  qed (use t1 in \<open>simp add: or_else_def\<close>)
qed

text \<open>A comparator that answers 0 on equal values only: sorting is then a canonical form.\<close>

locale strict_comparator = comparator cmp for cmp :: "'a \<Rightarrow> 'a \<Rightarrow> int" +
  assumes zero_eq: "cmp x y = 0 \<Longrightarrow> x = y"
begin

lemma sorted_unique:
  "sorted_wrt (\<lambda>x y. cmp x y \<le> 0) xs \<Longrightarrow> sorted_wrt (\<lambda>x y. cmp x y \<le> 0) ys \<Longrightarrow>
     mset xs = mset ys \<Longrightarrow> xs = ys"
proof (induction xs arbitrary: ys)
  case (Cons x xs)
  then obtain y ys' where ys: "ys = y # ys'" by (cases ys) auto
  have "x \<in> set ys" "y \<in> set (x # xs)"
    using Cons.prems(3) ys by (metis list.set_intros(1) mset_eq_setD)+
  then have "x = y \<or> (cmp y x \<le> 0 \<and> cmp x y \<le> 0)"
    using Cons.prems(1,2) ys by auto
  then have "x = y" using antisym [of x y] antisym [of y x] zero_eq [of x y] by fastforce
  then show ?case using Cons ys by auto
qed simp

lemma js_sort_canonical: "mset xs = mset ys \<Longrightarrow> js_sort cmp xs = js_sort cmp ys"
  by (rule sorted_unique) (simp_all add: js_sort_sorted)

lemma js_sort_set_canonical:
  "distinct xs \<Longrightarrow> distinct ys \<Longrightarrow> set xs = set ys \<Longrightarrow> js_sort cmp xs = js_sort cmp ys"
  by (rule js_sort_canonical) (simp add: set_eq_iff_mset_eq_distinct)

lemma sorted_distinct_strict:
  "sorted_wrt (\<lambda>x y. cmp x y \<le> 0) xs \<Longrightarrow> distinct xs \<Longrightarrow> sorted_wrt (\<lambda>x y. cmp x y < 0) xs"
proof (induction xs)
  case (Cons x xs)
  have "cmp x y < 0" if "y \<in> set xs" for y
    using Cons.prems that zero_eq [of x y] by (cases "cmp x y = 0") auto
  then show ?case using Cons by auto
qed simp

lemma js_sort_strictly_sorted:
  "distinct xs \<Longrightarrow> sorted_wrt (\<lambda>x y. cmp x y < 0) (js_sort cmp xs)"
  by (rule sorted_distinct_strict) (simp_all add: js_sort_sorted)

end

interpretation num: strict_comparator num_diff
  by unfold_locales (auto simp: num_diff_def)

lemma code_unit_compare_flip: "code_unit_compare y x = - code_unit_compare x y"
  by (induction x y rule: code_unit_compare.induct) auto

lemma code_unit_compare_zero: "code_unit_compare x y = 0 \<Longrightarrow> x = y"
  by (induction x y rule: code_unit_compare.induct) (auto split: if_splits)

lemma code_unit_compare_trans:
  "code_unit_compare x y \<le> 0 \<Longrightarrow> code_unit_compare y z \<le> 0 \<Longrightarrow> code_unit_compare x z \<le> 0"
proof (induction x z arbitrary: y rule: code_unit_compare.induct)
  case (4 a as b bs)
  then show ?case by (cases y) (auto split: if_splits)
next
  case (3 x xs)
  then show ?case by (cases y) auto
qed auto

interpretation cu: strict_comparator code_unit_compare
proof (unfold_locales, goal_cases)
  case (1 y x)
  show ?case using code_unit_compare_flip [of y x] by linarith
next
  case 2
  then show ?case by (rule code_unit_compare_trans)
next
  case 3
  then show ?case by (rule code_unit_compare_zero)
qed

lemma js_sort_num_sort: "js_sort num_diff xs = sort xs"
proof (rule num.sorted_unique)
  show "sorted_wrt (\<lambda>x y. num_diff x y \<le> 0) (sort xs)"
    using sorted_sort [of xs] by (simp add: num_diff_def)
qed (simp_all add: num.js_sort_sorted)

end
