(* ===== verification/Js_Map.thy ===== *)
theory Js_Map
  imports Js_Base "HOL-Library.AList"
begin

text \<open>
  JavaScript's \<open>Map\<close> and \<open>Set\<close> keep insertion order: \<open>set\<close> on a present key updates in place,
  on a new key appends; \<open>delete\<close> removes; iteration starts at the oldest entry. An association
  list with distinct keys is exactly that object, \<^const>\<open>AList.update\<close> and \<^const>\<open>AList.delete\<close>
  are its two writes. The locale \<open>ordered_map\<close> states what the caches and rate limiters rely on;
  it is interpreted on the association lists at the end of the theory.
\<close>

type_synonym ('k, 'v) jsmap = "('k \<times> 'v) list"

abbreviation jm_get :: "('k, 'v) jsmap \<Rightarrow> 'k \<Rightarrow> 'v option" where
  "jm_get m k \<equiv> map_of m k"

abbreviation jm_set :: "'k \<Rightarrow> 'v \<Rightarrow> ('k, 'v) jsmap \<Rightarrow> ('k, 'v) jsmap" where
  "jm_set k v m \<equiv> AList.update k v m"

abbreviation jm_delete :: "'k \<Rightarrow> ('k, 'v) jsmap \<Rightarrow> ('k, 'v) jsmap" where
  "jm_delete k m \<equiv> AList.delete k m"

abbreviation jm_keys :: "('k, 'v) jsmap \<Rightarrow> 'k list" where
  "jm_keys m \<equiv> map fst m"

definition jm_wf :: "('k, 'v) jsmap \<Rightarrow> bool" where
  "jm_wf m = distinct (map fst m)"

definition jm_has :: "('k, 'v) jsmap \<Rightarrow> 'k \<Rightarrow> bool" where
  "jm_has m k = (k \<in> set (map fst m))"

text \<open>
  The loop \<open>while (m.size > limit) m.delete(m.keys().next().value)\<close>, which several modules
  write out.
\<close>

function evict_oldest :: "nat \<Rightarrow> ('k, 'v) jsmap \<Rightarrow> ('k, 'v) jsmap" where
  "evict_oldest limit m =
     (if length m > limit
      then (case m of [] \<Rightarrow> m | (oldest, _) # _ \<Rightarrow> evict_oldest limit (jm_delete oldest m))
      else m)"
  by pat_completeness auto
termination
proof (relation "measure (\<lambda>(l, m). length m)", goal_cases)
  case (2 limit m p rest k v)
  then show ?case by (auto simp: AList.delete_eq le_imp_less_Suc)
qed simp

declare evict_oldest.simps [simp del]

text \<open>\<open>new Set(values)\<close> spread back into an array: first occurrences, in order.\<close>

definition set_add :: "'a \<Rightarrow> 'a list \<Rightarrow> 'a list" where
  "set_add x s = (if x \<in> set s then s else s @ [x])"

definition js_set :: "'a list \<Rightarrow> 'a list" where
  "js_set xs = foldl (\<lambda>s x. set_add x s) [] xs"

lemma set_set_add [simp]: "set (set_add x s) = insert x (set s)"
  by (auto simp: set_add_def)

lemma distinct_set_add [simp]: "distinct (set_add x s) = distinct s"
  by (auto simp: set_add_def)

lemma js_set_fold:
  "set (foldl (\<lambda>s x. set_add x s) s0 xs) = set s0 \<union> set xs"
  "distinct (foldl (\<lambda>s x. set_add x s) s0 xs) = distinct s0"
  by (induction xs arbitrary: s0) auto

lemma set_js_set [simp]: "set (js_set xs) = set xs"
  by (simp add: js_set_def js_set_fold)

lemma distinct_js_set [simp]: "distinct (js_set xs)"
  by (simp add: js_set_def js_set_fold)

lemma js_set_snoc: "js_set (xs @ [x]) = set_add x (js_set xs)"
  by (simp add: js_set_def)

lemma js_set_distinct: "distinct xs \<Longrightarrow> js_set xs = xs"
  by (induction xs rule: rev_induct) (auto simp: js_set_snoc set_add_def, simp add: js_set_def)

section \<open>The interface\<close>

locale ordered_map =
  fixes lookup :: "'m \<Rightarrow> 'k \<Rightarrow> 'v option"
    and put :: "'k \<Rightarrow> 'v \<Rightarrow> 'm \<Rightarrow> 'm"
    and del :: "'k \<Rightarrow> 'm \<Rightarrow> 'm"
    and keys :: "'m \<Rightarrow> 'k list"
    and wf :: "'m \<Rightarrow> bool"
  assumes keys_distinct: "wf m \<Longrightarrow> distinct (keys m)"
    and keys_lookup: "wf m \<Longrightarrow> k \<in> set (keys m) \<longleftrightarrow> lookup m k \<noteq> None"
    and wf_put: "wf m \<Longrightarrow> wf (put k v m)"
    and wf_del: "wf m \<Longrightarrow> wf (del k m)"
    and lookup_put: "wf m \<Longrightarrow> lookup (put k v m) j = (if j = k then Some v else lookup m j)"
    and lookup_del: "wf m \<Longrightarrow> lookup (del k m) j = (if j = k then None else lookup m j)"
    and keys_put: "wf m \<Longrightarrow> keys (put k v m) = (if k \<in> set (keys m) then keys m else keys m @ [k])"
    and keys_del: "wf m \<Longrightarrow> keys (del k m) = filter (\<lambda>j. j \<noteq> k) (keys m)"
begin

text \<open>The least-recently-used touch \<open>m.delete(k); m.set(k, v)\<close> of the caches.\<close>

lemma wf_touch: "wf m \<Longrightarrow> wf (put k v (del k m))"
  by (simp add: wf_put wf_del)

lemma lookup_touch: "wf m \<Longrightarrow> lookup (put k v (del k m)) j = (if j = k then Some v else lookup m j)"
  by (simp add: lookup_put lookup_del wf_del)

lemma keys_touch: "wf m \<Longrightarrow> keys (put k v (del k m)) = filter (\<lambda>j. j \<noteq> k) (keys m) @ [k]"
  by (simp add: keys_put keys_del wf_del)

lemma last_keys_touch: "wf m \<Longrightarrow> last (keys (put k v (del k m))) = k"
  by (simp add: keys_touch)

lemma set_keys_touch: "wf m \<Longrightarrow> set (keys (put k v (del k m))) = insert k (set (keys m))"
  by (auto simp: keys_touch)

lemma length_keys_touch:
  "wf m \<Longrightarrow> length (keys (put k v (del k m))) \<le> Suc (length (keys m))"
  by (simp add: keys_touch)

lemma length_keys_touch_present:
  assumes "wf m" and "k \<in> set (keys m)"
  shows "length (keys (put k v (del k m))) = length (keys m)"
proof -
  have "distinct (keys m)" using assms(1) by (rule keys_distinct)
  then have "length (filter (\<lambda>j. j \<noteq> k) (keys m)) = card (set (keys m) - {k})"
    by (metis distinct_card distinct_filter set_minus_filter_out)
  also have "\<dots> = card (set (keys m)) - 1" using assms(2) by simp
  also have "\<dots> = length (keys m) - 1" using \<open>distinct (keys m)\<close> by (simp add: distinct_card)
  finally have "length (filter (\<lambda>j. j \<noteq> k) (keys m)) = length (keys m) - 1" .
  moreover have "length (keys m) > 0" using assms(2) by (cases "keys m") auto
  ultimately show ?thesis using assms(1) by (simp add: keys_touch)
qed

end

lemma jm_lookup_delete: "map_of (jm_delete k m) j = (if j = k then None else map_of m j)"
  by (simp add: AList.delete_conv')

lemma jm_lookup_update: "map_of (jm_set k v m) j = (if j = k then Some v else map_of m j)"
  by (simp add: AList.update_conv')

interpretation jm: ordered_map map_of AList.update AList.delete "map fst" jm_wf
proof (unfold_locales, goal_cases)
  case (2 m k)
  then show ?case by (simp add: map_of_eq_None_iff)
next
  case (7 m k v)
  then show ?case by (auto simp: update_keys)
next
  case (8 m k)
  then show ?case by (auto simp: AList.delete_keys removeAll_filter_not_eq intro: filter_cong)
qed (auto simp: jm_wf_def AList.distinct_update AList.distinct_delete jm_lookup_delete jm_lookup_update)

lemma jm_delete_absent: "k \<notin> set (map fst m) \<Longrightarrow> jm_delete k m = m"
  by (simp add: AList.delete_idem)

lemma jm_set_fresh: "k \<notin> set (map fst m) \<Longrightarrow> jm_set k v m = m @ [(k, v)]"
  by (induction m) auto

lemma jm_touch_snoc: "jm_set k v (jm_delete k m) = jm_delete k m @ [(k, v)]"
proof -
  have "k \<notin> set (map fst l) \<Longrightarrow> jm_set k v l = l @ [(k, v)]" for l
    by (induction l) auto
  moreover have "k \<notin> set (map fst (jm_delete k m))" by (simp add: AList.delete_keys)
  ultimately show ?thesis by blast
qed

lemma set_delete_subset: "set (jm_delete k m) \<subseteq> set m"
  by (auto simp: AList.delete_eq)

lemma evict_oldest_drop:
  "jm_wf m \<Longrightarrow> evict_oldest limit m = drop (length m - limit) m"
proof (induction limit m rule: evict_oldest.induct)
  case (1 limit m)
  show ?case
  proof (cases "length m > limit")
    case True
    then obtain k v rest where m: "m = (k, v) # rest" by (cases m) auto
    with "1.prems" have d: "jm_delete k m = rest" and wf: "jm_wf rest"
      by (auto simp: jm_wf_def AList.delete_idem)
    have "evict_oldest limit rest = drop (length rest - limit) rest"
      using "1.IH" [OF True m refl] wf d by simp
    with True m d show ?thesis
      by (subst evict_oldest.simps) (simp add: Suc_diff_le)
  qed (subst evict_oldest.simps, simp)
qed

lemma length_evict_oldest: "jm_wf m \<Longrightarrow> length (evict_oldest limit m) \<le> limit"
  by (simp add: evict_oldest_drop)

lemma jm_wf_evict_oldest: "jm_wf m \<Longrightarrow> jm_wf (evict_oldest limit m)"
  by (simp add: evict_oldest_drop jm_wf_def drop_map [symmetric])

lemma evict_oldest_noop: "length m \<le> limit \<Longrightarrow> evict_oldest limit m = m"
  by (subst evict_oldest.simps) simp

lemma set_evict_oldest: "jm_wf m \<Longrightarrow> set (evict_oldest limit m) \<subseteq> set m"
  by (simp add: evict_oldest_drop set_drop_subset)

lemma evict_oldest_last:
  "jm_wf m \<Longrightarrow> 0 < limit \<Longrightarrow> m \<noteq> [] \<Longrightarrow> last (evict_oldest limit m) = last m \<and> evict_oldest limit m \<noteq> []"
  by (cases m) (auto simp: evict_oldest_drop last_drop)

lemma evict_keeps_touched:
  assumes "jm_wf m" and "0 < limit"
  shows "map_of (evict_oldest limit (jm_set k v (jm_delete k m))) k = Some v"
proof -
  let ?d = "jm_delete k m"
  let ?n = "length (?d @ [(k, v)]) - limit"
  have "evict_oldest limit (?d @ [(k, v)]) = drop ?n ?d @ [(k, v)]"
    using assms jm.wf_touch [OF assms(1), of k v] by (simp add: evict_oldest_drop jm_touch_snoc)
  moreover have "k \<notin> fst ` set (drop ?n ?d)"
    using set_drop_subset [of ?n ?d] by (auto simp: AList.delete_eq)
  then have "map_of (drop ?n ?d) k = None" by (simp add: map_of_eq_None_iff)
  ultimately show ?thesis
    by (simp add: jm_touch_snoc map_add_def)
qed

end
