(* ===== verification/Lru_Cache.thy ===== *)
theory Lru_Cache
  imports Js_Map
begin

text \<open>
  \<^verbatim>\<open>src/bun/lru-map.ts\<close>: least-recently-used caches on top of an insertion-ordered \<open>Map\<close>. The
  value type admits \<open>undefined\<close>, which the model writes as \<^const>\<open>None\<close>. Each operation returns
  the new map; \<open>lruMapEntriesNewestFirst\<close> is the abstract view, the recency list.
\<close>

definition readLruMapValue ::
  "('k, 'v option) jsmap \<Rightarrow> 'k \<Rightarrow> 'v option \<times> ('k, 'v option) jsmap" where
  "readLruMapValue cache key =
     (if \<not> jm_has cache key then (None, cache)
      else (case jm_get cache key of
              Some (Some v) \<Rightarrow> (Some v, jm_set key (Some v) (jm_delete key cache))
            | _ \<Rightarrow> (None, cache)))"

definition writeLruMapValue ::
  "('k, 'v option) jsmap \<Rightarrow> 'k \<Rightarrow> 'v option \<Rightarrow> ('k, 'v option) jsmap" where
  "writeLruMapValue cache key v =
     (let cache' = (if jm_has cache key then jm_delete key cache else cache)
      in jm_set key v cache')"

definition pruneLruMapToMaxEntries :: "('k, 'v option) jsmap \<Rightarrow> rat \<Rightarrow> ('k, 'v option) jsmap" where
  "pruneLruMapToMaxEntries cache maxEntries =
     (let limit = max 0 (js_trunc maxEntries) in evict_oldest (nat limit) cache)"

definition lruMapEntriesNewestFirst ::
  "('k, 'v option) jsmap \<Rightarrow> ('k \<times> 'v option) list" where
  "lruMapEntriesNewestFirst cache = rev cache"

lemma jm_delete_filter: "jm_delete k m = filter (\<lambda>e. fst e \<noteq> k) m"
  by (auto simp: AList.delete_eq intro: filter_cong)

lemma writeLru_touch: "writeLruMapValue cache k v = jm_delete k cache @ [(k, v)]"
proof -
  have "\<not> jm_has cache k \<Longrightarrow> jm_delete k cache = cache"
    by (simp add: jm_has_def AList.delete_idem)
  then show ?thesis
    by (metis jm_touch_snoc writeLruMapValue_def)
qed

lemma readLru_hit:
  "jm_get cache k = Some (Some v) \<Longrightarrow>
     readLruMapValue cache k = (Some v, jm_delete k cache @ [(k, Some v)])"
  by (force simp: readLruMapValue_def jm_has_def jm_touch_snoc dest: map_of_SomeD)

lemma readLru_miss:
  "jm_get cache k = None \<or> jm_get cache k = Some None \<Longrightarrow> readLruMapValue cache k = (None, cache)"
  by (auto simp: readLruMapValue_def split: option.splits)

lemma wf_writeLru: "jm_wf cache \<Longrightarrow> jm_wf (writeLruMapValue cache k v)"
  by (simp add: writeLruMapValue_def jm.wf_put jm.wf_del)

lemma wf_readLru: "jm_wf cache \<Longrightarrow> jm_wf (snd (readLruMapValue cache k))"
  by (simp add: readLruMapValue_def jm.wf_put jm.wf_del split: option.splits)

text \<open>The operations on the recency list, as one would specify an LRU cache.\<close>

definition recency_touch :: "'k \<Rightarrow> 'v \<Rightarrow> ('k \<times> 'v) list \<Rightarrow> ('k \<times> 'v) list" where
  "recency_touch k v l = (k, v) # filter (\<lambda>e. fst e \<noteq> k) l"

lemma rev_lookup: "jm_wf cache \<Longrightarrow> map_of (rev cache) k = map_of cache k"
  by (metis jm_wf_def map_of_inject_set rev_map distinct_rev set_rev)

lemma newest_write:
  "lruMapEntriesNewestFirst (writeLruMapValue cache k v) =
     recency_touch k v (lruMapEntriesNewestFirst cache)"
  by (simp add: writeLru_touch lruMapEntriesNewestFirst_def recency_touch_def
      jm_delete_filter rev_filter)

lemma newest_read:
  "jm_wf cache \<Longrightarrow>
     lruMapEntriesNewestFirst (snd (readLruMapValue cache k)) =
       (case map_of (lruMapEntriesNewestFirst cache) k of
          Some (Some u) \<Rightarrow> recency_touch k (Some u) (lruMapEntriesNewestFirst cache)
        | _ \<Rightarrow> lruMapEntriesNewestFirst cache)"
  by (auto simp: lruMapEntriesNewestFirst_def rev_lookup recency_touch_def jm_delete_filter
      rev_filter readLru_hit readLru_miss split: option.splits)

lemma read_value:
  "jm_wf cache \<Longrightarrow>
     fst (readLruMapValue cache k) =
       (case map_of (lruMapEntriesNewestFirst cache) k of None \<Rightarrow> None | Some v \<Rightarrow> v)"
  using readLru_hit [of cache k] readLru_miss [of cache k]
  by (cases "map_of cache k"; cases "the (map_of cache k)")
     (auto simp: lruMapEntriesNewestFirst_def rev_lookup)

lemma newest_prune:
  "jm_wf cache \<Longrightarrow>
     lruMapEntriesNewestFirst (pruneLruMapToMaxEntries cache n) =
       take (nat (max 0 (js_trunc n))) (lruMapEntriesNewestFirst cache)"
  by (simp add: pruneLruMapToMaxEntries_def Let_def evict_oldest_drop
      lruMapEntriesNewestFirst_def take_rev)

text \<open>
  The LRU helpers refine a recency list: a write and a successful read move the key to the
  front and leave the order of the others, a miss changes nothing, a read returns the stored
  value, and pruning keeps the \<open>limit\<close> most recent entries.
\<close>

theorem lru_refines_recency_list:
  assumes "jm_wf cache"
  shows "lruMapEntriesNewestFirst (writeLruMapValue cache k v) =
           recency_touch k v (lruMapEntriesNewestFirst cache)
       \<and> lruMapEntriesNewestFirst (snd (readLruMapValue cache k)) =
           (case map_of (lruMapEntriesNewestFirst cache) k of
              Some (Some u) \<Rightarrow> recency_touch k (Some u) (lruMapEntriesNewestFirst cache)
            | _ \<Rightarrow> lruMapEntriesNewestFirst cache)
       \<and> fst (readLruMapValue cache k) =
           (case map_of (lruMapEntriesNewestFirst cache) k of None \<Rightarrow> None | Some u \<Rightarrow> u)
       \<and> lruMapEntriesNewestFirst (pruneLruMapToMaxEntries cache n) =
           take (nat (max 0 (js_trunc n))) (lruMapEntriesNewestFirst cache)"
  by (intro conjI newest_write newest_read [OF assms] read_value [OF assms] newest_prune [OF assms])

lemma lru_refines_recency_list_witness:
  "lruMapEntriesNewestFirst (snd (readLruMapValue [(1 :: int, Some ''a''), (2, Some ''b'')] 1)) =
     [(1, Some ''a''), (2, Some ''b'')]"
proof -
  have "jm_wf [(1 :: int, Some ''a''), (2, Some ''b'')]" by (simp add: jm_wf_def)
  from lru_refines_recency_list [OF this, of 1 "Some ''c''" 1] show ?thesis
    by (simp add: lruMapEntriesNewestFirst_def recency_touch_def)
qed

end
