(* ===== verification/Parse_Budget.thy ===== *)
theory Parse_Budget
  imports Js_Base
begin

text \<open>
  \<^verbatim>\<open>src/bun/rpc-websocket-abuse-control.ts\<close>: the per-connection budget that is charged before an
  RPC message is parsed. The \<open>WeakMap\<close> from connections to buckets is a partial function; tokens
  are fractional, so they are exact rationals (the code's doubles, without rounding). A message
  length that is not finite is \<^const>\<open>None\<close>.
\<close>

record budget_options =
  burstTokens :: int
  refillTokensPerSecond :: int
  bytesPerToken :: int

record partial_budget_options =
  opt_burstTokens :: "rat option"
  opt_refillTokensPerSecond :: "rat option"
  opt_bytesPerToken :: "rat option"

record budget_bucket =
  btokens :: rat
  updatedAtMs :: int

datatype budget_result =
    BudgetAllowed (remainingTokens: rat)
  | BudgetDenied (retryAfter: int) (remainingTokens: rat)

definition DEFAULT_OPTIONS :: budget_options where
  "DEFAULT_OPTIONS = \<lparr> burstTokens = 320, refillTokensPerSecond = 80, bytesPerToken = 256 * 1024 \<rparr>"

definition normalizeOptions :: "partial_budget_options \<Rightarrow> budget_options" where
  "normalizeOptions options =
     \<lparr> burstTokens = max 1 (case opt_burstTokens options of
         None \<Rightarrow> burstTokens DEFAULT_OPTIONS | Some x \<Rightarrow> \<lfloor>x\<rfloor>),
       refillTokensPerSecond = max 1 (case opt_refillTokensPerSecond options of
         None \<Rightarrow> refillTokensPerSecond DEFAULT_OPTIONS | Some x \<Rightarrow> \<lfloor>x\<rfloor>),
       bytesPerToken = max 1 (case opt_bytesPerToken options of
         None \<Rightarrow> bytesPerToken DEFAULT_OPTIONS | Some x \<Rightarrow> \<lfloor>x\<rfloor>) \<rparr>"

definition MAX_SAFE_INTEGER :: int where
  "MAX_SAFE_INTEGER = 9007199254740991"

definition messageCostTokens :: "rat option \<Rightarrow> int \<Rightarrow> int" where
  "messageCostTokens messageByteLength bpt =
     (let safeByteLength = (case messageByteLength of
            Some n \<Rightarrow> max 0 n | None \<Rightarrow> of_int MAX_SAFE_INTEGER)
      in max 1 \<lceil>safeByteLength / of_int bpt\<rceil>)"

definition consumePreParseBudget ::
  "budget_options \<Rightarrow> 'c \<Rightarrow> rat option \<Rightarrow> int \<Rightarrow> ('c \<rightharpoonup> budget_bucket) \<Rightarrow>
     budget_result \<times> ('c \<rightharpoonup> budget_bucket)" where
  "consumePreParseBudget opts connection messageByteLength nowMs buckets =
     (let existing = buckets connection;
          elapsedSeconds = (case existing of
            None \<Rightarrow> 0 | Some b \<Rightarrow> max 0 (of_int (nowMs - updatedAtMs b) / 1000 :: rat));
          available = min (of_int (burstTokens opts))
            ((case existing of None \<Rightarrow> of_int (burstTokens opts) | Some b \<Rightarrow> btokens b)
              + elapsedSeconds * of_int (refillTokensPerSecond opts));
          cost = messageCostTokens messageByteLength (bytesPerToken opts)
      in if available < of_int cost
         then (BudgetDenied
                 (max 1 \<lceil>(of_int cost - available) / of_int (refillTokensPerSecond opts)\<rceil>) available,
               buckets(connection \<mapsto> \<lparr> btokens = available, updatedAtMs = nowMs \<rparr>))
         else (let remaining = available - of_int cost in
           (BudgetAllowed remaining,
            buckets(connection \<mapsto> \<lparr> btokens = remaining, updatedAtMs = nowMs \<rparr>))))"

definition budget_options_ok :: "budget_options \<Rightarrow> bool" where
  "budget_options_ok opts =
     (1 \<le> burstTokens opts \<and> 1 \<le> refillTokensPerSecond opts \<and> 1 \<le> bytesPerToken opts)"

lemma normalizeOptions_ok: "budget_options_ok (normalizeOptions options)"
  by (simp add: budget_options_ok_def normalizeOptions_def)

definition budget_inv :: "budget_options \<Rightarrow> ('c \<rightharpoonup> budget_bucket) \<Rightarrow> bool" where
  "budget_inv opts m =
     (\<forall>c b. m c = Some b \<longrightarrow> 0 \<le> btokens b \<and> btokens b \<le> of_int (burstTokens opts))"

text \<open>The tokens available to a message, and the two outcomes in terms of them.\<close>

definition available_tokens ::
  "budget_options \<Rightarrow> 'c \<Rightarrow> int \<Rightarrow> ('c \<rightharpoonup> budget_bucket) \<Rightarrow> rat" where
  "available_tokens opts c t m =
     (case m c of
        None \<Rightarrow> of_int (burstTokens opts)
      | Some b \<Rightarrow> min (of_int (burstTokens opts))
          (btokens b + max 0 (of_int (t - updatedAtMs b) / 1000) * of_int (refillTokensPerSecond opts)))"

lemma consume_eq:
  "consumePreParseBudget opts c n t m =
     (let a = available_tokens opts c t m; cost = messageCostTokens n (bytesPerToken opts) in
      if a < of_int cost
      then (BudgetDenied (max 1 \<lceil>(of_int cost - a) / of_int (refillTokensPerSecond opts)\<rceil>) a,
            m(c \<mapsto> \<lparr> btokens = a, updatedAtMs = t \<rparr>))
      else (BudgetAllowed (a - of_int cost),
            m(c \<mapsto> \<lparr> btokens = a - of_int cost, updatedAtMs = t \<rparr>)))"
  by (simp add: consumePreParseBudget_def available_tokens_def Let_def split: option.split)

lemma messageCost_ge_1: "1 \<le> messageCostTokens n bpt"
  by (simp add: messageCostTokens_def Let_def)

lemma available_range:
  assumes "budget_options_ok opts" and "budget_inv opts m"
  shows "0 \<le> available_tokens opts c t m \<and> available_tokens opts c t m \<le> of_int (burstTokens opts)"
proof (cases "m c")
  case None
  then show ?thesis using assms(1) by (simp add: available_tokens_def budget_options_ok_def)
next
  case (Some b)
  have "0 \<le> btokens b" using assms(2) Some by (simp add: budget_inv_def)
  moreover have "0 \<le> max 0 (of_int (t - updatedAtMs b) / 1000) * (of_int (refillTokensPerSecond opts) :: rat)"
    using assms(1) by (simp add: budget_options_ok_def)
  ultimately show ?thesis
    using assms(1) Some by (simp add: available_tokens_def budget_options_ok_def)
qed

lemma consume_inv:
  assumes "budget_options_ok opts" and "budget_inv opts m"
  shows "budget_inv opts (snd (consumePreParseBudget opts c n t m))"
  using available_range [OF assms, of c t] assms(2) messageCost_ge_1 [of n "bytesPerToken opts"]
  by (auto simp: consume_eq Let_def budget_inv_def intro: order_trans)

text \<open>The summed cost of the messages of a connection that are let through.\<close>

fun allowed_cost ::
  "budget_options \<Rightarrow> 'c \<Rightarrow> (rat option \<times> int) list \<Rightarrow> ('c \<rightharpoonup> budget_bucket) \<Rightarrow> int" where
  "allowed_cost opts c [] m = 0"
| "allowed_cost opts c ((n, t) # msgs) m =
     (case consumePreParseBudget opts c n t m of
        (BudgetAllowed _, m') \<Rightarrow> messageCostTokens n (bytesPerToken opts) + allowed_cost opts c msgs m'
      | (BudgetDenied _ _, m') \<Rightarrow> allowed_cost opts c msgs m')"

lemma available_le:
  assumes "m c = Some b" and "updatedAtMs b \<le> t"
  shows "available_tokens opts c t m
           \<le> btokens b + of_int (t - updatedAtMs b) / 1000 * of_int (refillTokensPerSecond opts)"
  using assms by (simp add: available_tokens_def max_def)

lemma allowed_cost_credit:
  assumes "budget_options_ok opts" and "budget_inv opts m" and "m c = Some b"
    and "sorted (updatedAtMs b # map snd msgs)" and "\<forall>(n, t) \<in> set msgs. t \<le> tend" and "updatedAtMs b \<le> tend"
  shows "of_int (allowed_cost opts c msgs m)
           \<le> btokens b + of_int (tend - updatedAtMs b) / 1000 * of_int (refillTokensPerSecond opts)"
  using assms
proof (induction msgs arbitrary: m b)
  case Nil
  have "0 \<le> btokens b" using Nil.prems(2,3) by (simp add: budget_inv_def)
  moreover have "0 \<le> of_int (tend - updatedAtMs b) / 1000 * (of_int (refillTokensPerSecond opts) :: rat)"
    using Nil.prems(1,6) by (simp add: budget_options_ok_def)
  ultimately show ?case by simp
next
  case (Cons msg msgs)
  obtain n t where msg: "msg = (n, t)" by (cases msg)
  let ?a = "available_tokens opts c t m"
  let ?cost = "messageCostTokens n (bytesPerToken opts)"
  let ?R = "of_int (refillTokensPerSecond opts) :: rat"
  have t: "updatedAtMs b \<le> t" "t \<le> tend" and srt: "sorted (t # map snd msgs)"
    and times: "\<forall>(n, t) \<in> set msgs. t \<le> tend"
    using Cons.prems(4,5) msg by auto
  have a: "?a \<le> btokens b + of_int (t - updatedAtMs b) / 1000 * ?R"
    using Cons.prems(3) t(1) by (rule available_le)
  have split: "of_int (t - updatedAtMs b) / 1000 * ?R + of_int (tend - t) / 1000 * ?R
                 = of_int (tend - updatedAtMs b) / 1000 * ?R"
    by (simp add: field_simps)
  obtain r m' where hit: "consumePreParseBudget opts c n t m = (r, m')"
    by (cases "consumePreParseBudget opts c n t m")
  have inv': "budget_inv opts m'" using consume_inv [OF Cons.prems(1,2), of c n t] hit by simp
  show ?case
  proof (cases "?a < of_int ?cost")
    case True
    then have m': "m' c = Some \<lparr> btokens = ?a, updatedAtMs = t \<rparr>" and r: "\<exists>x y. r = BudgetDenied x y"
      using hit by (auto simp: consume_eq Let_def)
    from Cons.IH [OF Cons.prems(1) inv' m'] srt times t a split msg hit r show ?thesis
      by fastforce
  next
    case False
    then have m': "m' c = Some \<lparr> btokens = ?a - of_int ?cost, updatedAtMs = t \<rparr>"
      and r: "r = BudgetAllowed (?a - of_int ?cost)"
      using hit by (auto simp: consume_eq Let_def)
    from Cons.IH [OF Cons.prems(1) inv' m'] srt times t a split msg hit r show ?thesis
      by fastforce
  qed
qed

text \<open>
  The pre-parse budget bounds the work a connection can cause: with a clock that does not run
  backwards, the tokens charged to the messages let through between the first message at \<open>t0\<close>
  and \<open>tend\<close> never exceed the burst plus the refill over that time.
\<close>

theorem parse_budget_rate_bound:
  assumes "budget_inv (normalizeOptions options) m" and "m c = None"
    and "sorted (t0 # map snd msgs)" and "\<forall>(n, t) \<in> set msgs. t \<le> tend" and "t0 \<le> tend"
  shows "of_int (allowed_cost (normalizeOptions options) c ((n0, t0) # msgs) m)
           \<le> (of_int (burstTokens (normalizeOptions options))
              + of_int (tend - t0) / 1000 * of_int (refillTokensPerSecond (normalizeOptions options)) :: rat)"
proof -
  let ?o = "normalizeOptions options"
  let ?cost = "messageCostTokens n0 (bytesPerToken ?o)"
  have a: "available_tokens ?o c t0 m = of_int (burstTokens ?o)"
    using assms(2) by (simp add: available_tokens_def)
  obtain r m' where hit: "consumePreParseBudget ?o c n0 t0 m = (r, m')"
    by (cases "consumePreParseBudget ?o c n0 t0 m")
  have inv': "budget_inv ?o m'" using consume_inv [OF normalizeOptions_ok assms(1), of c n0 t0] hit by simp
  show ?thesis
  proof (cases "(of_int (burstTokens ?o) :: rat) < of_int ?cost")
    case True
    then have m': "m' c = Some \<lparr> btokens = of_int (burstTokens ?o), updatedAtMs = t0 \<rparr>"
      and r: "\<exists>x y. r = BudgetDenied x y"
      using hit a by (auto simp: consume_eq Let_def)
    from allowed_cost_credit [OF normalizeOptions_ok inv' m', of msgs tend] assms hit r show ?thesis
      by auto
  next
    case False
    then have m': "m' c = Some \<lparr> btokens = of_int (burstTokens ?o) - of_int ?cost, updatedAtMs = t0 \<rparr>"
      and r: "\<exists>x. r = BudgetAllowed x"
      using hit a by (auto simp: consume_eq Let_def)
    from allowed_cost_credit [OF normalizeOptions_ok inv' m', of msgs tend] assms hit r show ?thesis
      by auto
  qed
qed

lemma parse_budget_rate_bound_witness:
  "of_int (allowed_cost (normalizeOptions \<lparr> opt_burstTokens = Some 2, opt_refillTokensPerSecond = Some 1,
       opt_bytesPerToken = Some 10 \<rparr>) (7 :: nat) [(Some 5, 0), (Some 20, 500), (None, 900), (Some 15, 2000)] Map.empty)
     \<le> (2 + 2000 / 1000 * 1 :: rat)"
proof -
  let ?p = "\<lparr> opt_burstTokens = Some 2, opt_refillTokensPerSecond = Some 1, opt_bytesPerToken = Some 10 \<rparr>"
  have inv: "budget_inv (normalizeOptions ?p) (Map.empty :: nat \<rightharpoonup> budget_bucket)"
    by (simp add: budget_inv_def)
  have "of_int (allowed_cost (normalizeOptions ?p) (7 :: nat)
          [(Some 5, 0), (Some 20, 500), (None, 900), (Some 15, 2000)] Map.empty)
        \<le> (of_int (burstTokens (normalizeOptions ?p))
           + of_int (2000 - 0) / 1000 * of_int (refillTokensPerSecond (normalizeOptions ?p)) :: rat)"
    by (rule parse_budget_rate_bound [OF inv]) simp_all
  then show ?thesis by (simp add: normalizeOptions_def)
qed

text \<open>
  A refused message that fits the burst at all is accepted when the sender waits
  \<open>retryAfterSeconds\<close> and retries it; one whose cost exceeds the burst is refused at every time.
\<close>

theorem parse_budget_retry:
  assumes "budget_inv (normalizeOptions options) m"
    and "consumePreParseBudget (normalizeOptions options) c n t m = (BudgetDenied r a, m')"
    and "t + 1000 * r \<le> t'"
  shows "(\<exists>left. fst (consumePreParseBudget (normalizeOptions options) c n t' m') = BudgetAllowed left)
           \<longleftrightarrow> messageCostTokens n (bytesPerToken (normalizeOptions options))
                 \<le> burstTokens (normalizeOptions options)"
proof -
  let ?o = "normalizeOptions options"
  let ?cost = "messageCostTokens n (bytesPerToken ?o)"
  let ?R = "of_int (refillTokensPerSecond ?o) :: rat"
  have R: "0 < ?R" using normalizeOptions_ok [of options] by (simp add: budget_options_ok_def)
  have a: "a < of_int ?cost" and r: "r = max 1 \<lceil>(of_int ?cost - a) / ?R\<rceil>"
    and m': "m' c = Some \<lparr> btokens = a, updatedAtMs = t \<rparr>"
    using assms(2) by (auto simp: consume_eq Let_def split: if_splits)
  have "(of_int ?cost - a) / ?R \<le> of_int \<lceil>(of_int ?cost - a) / ?R\<rceil>" by (rule le_of_int_ceiling)
  also have "\<dots> \<le> of_int r" using r by simp
  finally have "of_int ?cost - a \<le> of_int r * ?R" using R by (simp add: pos_divide_le_eq)
  moreover have "(of_int (1000 * r) :: rat) \<le> of_int (t' - t)"
    using assms(3) by (subst of_int_le_iff) linarith
  then have "of_int r \<le> (of_int (t' - t) / 1000 :: rat)" by simp
  then have "of_int r * ?R \<le> of_int (t' - t) / 1000 * ?R"
    using less_imp_le [OF R] by (rule mult_right_mono)
  ultimately have enough: "of_int ?cost \<le> a + of_int (t' - t) / 1000 * ?R" by linarith
  have "1 \<le> r" using r by simp
  then have "0 \<le> t' - t" using assms(3) by linarith
  then have "available_tokens ?o c t' m' =
          min (of_int (burstTokens ?o)) (a + of_int (t' - t) / 1000 * ?R)"
    using m' by (simp add: available_tokens_def max_def)
  then show ?thesis
    using enough by (auto simp: consume_eq Let_def)
qed

lemma parse_budget_retry_witness:
  "(\<exists>left. fst (consumePreParseBudget (normalizeOptions \<lparr> opt_burstTokens = Some 2,
       opt_refillTokensPerSecond = Some 1, opt_bytesPerToken = Some 10 \<rparr>) (7 :: nat) (Some 20) 2000
         [7 \<mapsto> \<lparr> btokens = 0, updatedAtMs = 0 \<rparr>]) = BudgetAllowed left)"
proof -
  let ?p = "\<lparr> opt_burstTokens = Some 2, opt_refillTokensPerSecond = Some 1, opt_bytesPerToken = Some 10 \<rparr>"
  let ?m = "[7 \<mapsto> \<lparr> btokens = 0, updatedAtMs = 0 \<rparr>] :: nat \<rightharpoonup> budget_bucket"
  have inv: "budget_inv (normalizeOptions ?p) ?m" by (simp add: budget_inv_def normalizeOptions_def)
  have den: "consumePreParseBudget (normalizeOptions ?p) 7 (Some 20) 0 ?m = (BudgetDenied 2 0, ?m)"
    by (simp add: consume_eq available_tokens_def messageCostTokens_def normalizeOptions_def Let_def)
  show ?thesis
    using parse_budget_retry [OF inv den, of 2000]
    by (simp add: messageCostTokens_def normalizeOptions_def)
qed

end
