(* ===== verification/Status_Coalescer.thy ===== *)
theory Status_Coalescer
  imports Js_Map
begin

text \<open>
  \<^verbatim>\<open>src/bun/thread-status-coalescer.ts\<close>: at most one pending status per thread id, sent when the
  window timer of the first of them fires. The state is the \<open>pending\<close> map, the ids whose timer
  is armed, and the payloads handed to \<open>send\<close> so far. The payload type is a parameter, \<open>tid\<close>
  reads its \<open>id\<close>. The environment (callers and the timer queue) chooses the next event, so the
  runs are a step relation.
\<close>

record 'thread coalescer =
  pending :: "(int, 'thread) jsmap"
  timers :: "int list"
  sent :: "'thread list"

definition new_coalescer :: "'thread coalescer" where
  "new_coalescer = \<lparr> pending = [], timers = [], sent = [] \<rparr>"

definition enqueue :: "('thread \<Rightarrow> int) \<Rightarrow> 'thread \<Rightarrow> 'thread coalescer \<Rightarrow> 'thread coalescer" where
  "enqueue tid thread s =
     (case jm_get (pending s) (tid thread) of
        Some existing \<Rightarrow> s\<lparr> pending := jm_set (tid thread) thread (pending s) \<rparr>
      | None \<Rightarrow> s\<lparr> timers := timers s @ [tid thread],
                  pending := jm_set (tid thread) thread (pending s) \<rparr>)"

definition flush :: "int \<Rightarrow> 'thread coalescer \<Rightarrow> 'thread coalescer" where
  "flush threadId s =
     (case jm_get (pending s) threadId of
        None \<Rightarrow> s
      | Some p \<Rightarrow> s\<lparr> pending := jm_delete threadId (pending s),
                    timers := filter (\<lambda>i. i \<noteq> threadId) (timers s),
                    sent := sent s @ [p] \<rparr>)"

definition flushAll :: "'thread coalescer \<Rightarrow> 'thread coalescer" where
  "flushAll s = foldl (\<lambda>s threadId. flush threadId s) s (jm_keys (pending s))"

definition pendingCount :: "'thread coalescer \<Rightarrow> nat" where
  "pendingCount s = length (pending s)"

text \<open>The timer callback set up by \<open>enqueue\<close>: the timer is spent, then \<open>flush\<close> runs.\<close>

definition timer_fires :: "int \<Rightarrow> 'thread coalescer \<Rightarrow> 'thread coalescer" where
  "timer_fires threadId s = flush threadId (s\<lparr> timers := filter (\<lambda>i. i \<noteq> threadId) (timers s) \<rparr>)"

text \<open>
  Reachable states, with the list of all enqueued payloads as a history variable.
\<close>

inductive coalescer_run :: "('thread \<Rightarrow> int) \<Rightarrow> 'thread list \<Rightarrow> 'thread coalescer \<Rightarrow> bool"
  for tid :: "'thread \<Rightarrow> int" where
  start: "coalescer_run tid [] new_coalescer"
| enqueued: "coalescer_run tid h s \<Longrightarrow> coalescer_run tid (h @ [th]) (enqueue tid th s)"
| timer: "coalescer_run tid h s \<Longrightarrow> i \<in> set (timers s) \<Longrightarrow> coalescer_run tid h (timer_fires i s)"
| flushed: "coalescer_run tid h s \<Longrightarrow> coalescer_run tid h (flush i s)"
| flushed_all: "coalescer_run tid h s \<Longrightarrow> coalescer_run tid h (flushAll s)"

definition of_id :: "('thread \<Rightarrow> int) \<Rightarrow> int \<Rightarrow> 'thread list \<Rightarrow> 'thread list" where
  "of_id tid i ths = filter (\<lambda>th. tid th = i) ths"

text \<open>
  The invariant: the timers are exactly those of the pending ids; a pending payload is the last
  one enqueued for its id; an id with nothing pending has its last payload sent; and no more
  is sent (or pending) for an id than was enqueued.
\<close>

fun id_ok :: "'thread option \<Rightarrow> 'thread list \<Rightarrow> 'thread list \<Rightarrow> bool" where
  "id_ok (Some p) h s = (h \<noteq> [] \<and> last h = p \<and> length s < length h)"
| "id_ok None h s = ((h = [] \<longleftrightarrow> s = []) \<and> (h \<noteq> [] \<longrightarrow> last s = last h) \<and> length s \<le> length h)"

definition coalescer_inv :: "('thread \<Rightarrow> int) \<Rightarrow> 'thread list \<Rightarrow> 'thread coalescer \<Rightarrow> bool" where
  "coalescer_inv tid h s =
     (jm_wf (pending s) \<and> timers s = jm_keys (pending s) \<and>
      (\<forall>i. id_ok (jm_get (pending s) i) (of_id tid i h) (of_id tid i (sent s))))"

lemma of_id_snoc: "of_id tid i (h @ [th]) = (if tid th = i then of_id tid i h @ [th] else of_id tid i h)"
  by (simp add: of_id_def)

lemma of_id_last: "of_id tid i h \<noteq> [] \<Longrightarrow> tid (last (of_id tid i h)) = i"
  using last_in_set [of "of_id tid i h"] by (auto simp: of_id_def)

lemma coalescer_inv_start: "coalescer_inv tid [] new_coalescer"
  by (simp add: coalescer_inv_def new_coalescer_def of_id_def jm_wf_def)

lemma coalescer_inv_enqueue:
  assumes inv: "coalescer_inv tid h s"
  shows "coalescer_inv tid (h @ [th]) (enqueue tid th s)"
proof -
  let ?i = "tid th"
  have wf: "jm_wf (pending s)" using inv by (simp add: coalescer_inv_def)
  have p: "pending (enqueue tid th s) = jm_set ?i th (pending s)"
    and snt: "sent (enqueue tid th s) = sent s"
    by (auto simp: enqueue_def split: option.split)
  have keys: "jm_keys (jm_set ?i th (pending s)) =
      (if jm_get (pending s) ?i = None then jm_keys (pending s) @ [?i] else jm_keys (pending s))"
    using jm.keys_put [OF wf, of ?i th] jm.keys_lookup [OF wf, of ?i] by simp
  then have t: "timers (enqueue tid th s) = jm_keys (pending (enqueue tid th s))"
    using inv p by (auto simp: enqueue_def coalescer_inv_def split: option.split)
  have "id_ok (jm_get (jm_set ?i th (pending s)) i) (of_id tid i (h @ [th])) (of_id tid i (sent s))" for i
  proof -
    have old: "id_ok (jm_get (pending s) i) (of_id tid i h) (of_id tid i (sent s))"
      using inv by (simp add: coalescer_inv_def)
    show ?thesis
    proof (cases "i = ?i")
      case True
      have "length (of_id tid i (sent s)) \<le> length (of_id tid i h)"
        using old by (cases "jm_get (pending s) i") auto
      then show ?thesis using True by (simp add: jm.lookup_put [OF wf] of_id_snoc)
    next
      case False
      then show ?thesis using old by (simp add: jm.lookup_put [OF wf] of_id_snoc)
    qed
  qed
  then show ?thesis
    using jm.wf_put [OF wf] t p snt by (simp add: coalescer_inv_def)
qed

lemma coalescer_inv_flush:
  assumes inv: "coalescer_inv tid h s"
  shows "coalescer_inv tid h (flush j s)"
proof (cases "jm_get (pending s) j")
  case None
  then show ?thesis using inv by (simp add: flush_def)
next
  case (Some p)
  have wf: "jm_wf (pending s)" using inv by (simp add: coalescer_inv_def)
  have ids: "id_ok (jm_get (pending s) i) (of_id tid i h) (of_id tid i (sent s))" for i
    using inv by (simp add: coalescer_inv_def)
  have j: "of_id tid j h \<noteq> []" "last (of_id tid j h) = p"
    "length (of_id tid j (sent s)) < length (of_id tid j h)"
    using ids [of j] Some by auto
  then have tp: "tid p = j" using of_id_last by metis
  have "id_ok (jm_get (jm_delete j (pending s)) i) (of_id tid i h) (of_id tid i (sent s @ [p]))" for i
  proof (cases "i = j")
    case True
    then show ?thesis using j tp by (simp add: jm.lookup_del [OF wf] of_id_snoc)
  next
    case False
    then show ?thesis using ids [of i] tp by (simp add: jm.lookup_del [OF wf] of_id_snoc)
  qed
  moreover have "timers s = jm_keys (pending s)" using inv by (simp add: coalescer_inv_def)
  ultimately show ?thesis
    using jm.wf_del [OF wf] jm.keys_del [OF wf] Some
    by (simp add: flush_def coalescer_inv_def)
qed

lemma coalescer_inv_timer: "coalescer_inv tid h s \<Longrightarrow> i \<in> set (timers s) \<Longrightarrow> coalescer_inv tid h (timer_fires i s)"
proof -
  assume inv: "coalescer_inv tid h s" and i: "i \<in> set (timers s)"
  have wf: "jm_wf (pending s)" using inv by (simp add: coalescer_inv_def)
  have "jm_get (pending s) i \<noteq> None"
    using i inv jm.keys_lookup [OF wf, of i] by (simp add: coalescer_inv_def)
  then have "timer_fires i s = flush i s" by (auto simp: timer_fires_def flush_def)
  then show ?thesis using coalescer_inv_flush [OF inv] by simp
qed

lemma coalescer_inv_flushes:
  "coalescer_inv tid h s \<Longrightarrow> coalescer_inv tid h (foldl (\<lambda>s i. flush i s) s is)"
  by (induction "is" arbitrary: s) (simp_all add: coalescer_inv_flush)

lemma coalescer_run_inv: "coalescer_run tid h s \<Longrightarrow> coalescer_inv tid h s"
  by (induction rule: coalescer_run.induct)
    (simp_all add: coalescer_inv_start coalescer_inv_enqueue coalescer_inv_timer coalescer_inv_flush
      flushAll_def coalescer_inv_flushes)

lemma pending_flushes:
  "pending (foldl (\<lambda>s i. flush i s) s is) = filter (\<lambda>e. fst e \<notin> set is) (pending s)"
proof (induction "is" arbitrary: s)
  case (Cons i "is")
  have "pending (flush i s) = filter (\<lambda>e. fst e \<noteq> i) (pending s)"
    by (auto simp: flush_def AList.delete_eq map_of_eq_None_iff filter_id_conv split: option.split
        intro: filter_cong sym [OF filter_True])
  then show ?case using Cons by (auto intro: filter_cong)
qed simp

lemma flushAll_empties: "pending (flushAll s) = []"
  by (simp add: flushAll_def pending_flushes filter_empty_conv)

text \<open>
  The coalescer's safety: in every reachable state the armed timers are exactly those of the
  pending threads, a pending payload is the latest one enqueued for its thread, and for a thread
  with nothing pending the last payload sent is the latest one enqueued: coalescing never ends on
  a stale status.
\<close>

theorem coalescer_latest_wins:
  assumes "coalescer_run tid h s"
  shows "timers s = jm_keys (pending s) \<and> distinct (timers s) \<and> pendingCount s = length (timers s) \<and>
    (of_id tid i h \<noteq> [] \<longrightarrow>
       (case jm_get (pending s) i of
          Some p \<Rightarrow> p = last (of_id tid i h)
        | None \<Rightarrow> of_id tid i (sent s) \<noteq> [] \<and> last (of_id tid i (sent s)) = last (of_id tid i h)))"
proof -
  have inv: "coalescer_inv tid h s" by (rule coalescer_run_inv [OF assms])
  then have "id_ok (jm_get (pending s) i) (of_id tid i h) (of_id tid i (sent s))"
    and "timers s = jm_keys (pending s)" and "jm_wf (pending s)"
    by (auto simp: coalescer_inv_def)
  then show ?thesis
    by (cases "jm_get (pending s) i") (auto simp: jm_wf_def pendingCount_def)
qed

text \<open>
  \<open>flushAll\<close> delivers: afterwards nothing is pending, no timer is armed, every thread ever
  enqueued has had its latest status sent, and no thread was sent more often than enqueued.
\<close>

theorem coalescer_flushAll_delivers:
  assumes "coalescer_run tid h s"
  shows "pendingCount (flushAll s) = 0 \<and> timers (flushAll s) = [] \<and>
    (of_id tid i h \<noteq> [] \<longrightarrow>
       of_id tid i (sent (flushAll s)) \<noteq> [] \<and>
       last (of_id tid i (sent (flushAll s))) = last (of_id tid i h)) \<and>
    length (of_id tid i (sent (flushAll s))) \<le> length (of_id tid i h)"
proof -
  have "coalescer_inv tid h (flushAll s)"
    by (intro coalescer_run_inv coalescer_run.flushed_all assms)
  then have "timers (flushAll s) = []"
    and "id_ok None (of_id tid i h) (of_id tid i (sent (flushAll s)))"
    by (simp_all add: coalescer_inv_def flushAll_empties)
  then show ?thesis by (auto simp: flushAll_empties pendingCount_def)
qed

lemma coalescer_example:
  "coalescer_run fst [(1, ''queued''), (2, ''queued''), (1, ''done'')]
     (enqueue fst (1, ''done'') (enqueue fst (2, ''queued'') (enqueue fst (1, ''queued'') new_coalescer)))"
  using coalescer_run.enqueued [OF coalescer_run.enqueued [OF coalescer_run.enqueued [OF coalescer_run.start]],
      of fst "(1, ''queued'')" "(2, ''queued'')" "(1, ''done'')"]
  by simp

lemma coalescer_latest_wins_witness:
  "jm_get (pending (enqueue fst (1, ''done'') (enqueue fst (2, ''queued'') (enqueue fst (1, ''queued'') new_coalescer)))) 1
     = Some (1 :: int, ''done'')"
  using coalescer_latest_wins [OF coalescer_example, of 1]
  by (simp add: of_id_def enqueue_def new_coalescer_def)

lemma coalescer_flushAll_delivers_witness:
  "last (of_id fst 1 (sent (flushAll (enqueue fst (1, ''done'') (enqueue fst (2, ''queued'')
      (enqueue fst (1, ''queued'') new_coalescer)))))) = (1 :: int, ''done'')"
  using coalescer_flushAll_delivers [OF coalescer_example, of 1] by (simp add: of_id_def)

end
