(* ===== verification/Auth_Rate_Limit.thy ===== *)
theory Auth_Rate_Limit
  imports Js_Base
begin

text \<open>
  \<^verbatim>\<open>src/bun/auth/rate-limit.ts\<close>: the persistent rate limit of the HTTP auth routes. The state is the
  table \<open>auth_route_rate_limits\<close> (a partial function from the primary key to its row) and the
  module variable \<open>lastAuthRouteRateLimitPruneAtMs\<close>. The failures column is the parsed JSON text:
  malformed, not an array, or an array whose entries are numbers or not. SHA-256 of
  \<^verbatim>\<open>node:crypto\<close> is the parameter \<open>H\<close>, and \<open>Date.now()\<close> the parameter \<open>clock\<close>. SQLite's own
  failures (busy, disk) are outside the model; a thrown error is \<^const>\<open>Inl\<close>.
\<close>

datatype rate_limited_path =
    AuthLogin | AuthRecoveryLogin | AuthResetPassword | AuthResetPin | AuthSetup | AuthStepUp | AuthWsTicket

fun path_string :: "rate_limited_path \<Rightarrow> string" where
  "path_string AuthLogin = ''/auth/login''"
| "path_string AuthRecoveryLogin = ''/auth/recovery-login''"
| "path_string AuthResetPassword = ''/auth/reset-password''"
| "path_string AuthResetPin = ''/auth/reset-pin''"
| "path_string AuthSetup = ''/auth/setup''"
| "path_string AuthStepUp = ''/auth/step-up''"
| "path_string AuthWsTicket = ''/auth/ws-ticket''"

record auth_context =
  ctx_nowMs :: "int option"
  pathname :: rate_limited_path
  peerKey :: string
  subjectKey :: "string option"

record auth_config =
  lockoutMs :: int
  peerFailureLimit :: nat
  subjectFailureLimit :: nat
  windowMs :: int

record auth_bucket =
  failuresMs :: "int list"
  lockedUntilMs :: "int option"

datatype failures_json = Malformed string | NotArray | Entries "int option list"

record rate_limit_row =
  failuresJson :: failures_json
  lockedUntilCol :: "int option"
  updatedAtMs :: int

type_synonym auth_table = "string \<rightharpoonup> rate_limit_row"

record auth_state =
  table :: auth_table
  lastPruneAtMs :: int

text \<open>The limits, one entry per route as the source has them.\<close>

fun AUTH_ROUTE_RATE_LIMITS :: "rate_limited_path \<Rightarrow> auth_config" where
  "AUTH_ROUTE_RATE_LIMITS AuthLogin =
     \<lparr> lockoutMs = 10 * 60 * 1000, peerFailureLimit = 12, subjectFailureLimit = 6, windowMs = 10 * 60 * 1000 \<rparr>"
| "AUTH_ROUTE_RATE_LIMITS AuthRecoveryLogin =
     \<lparr> lockoutMs = 10 * 60 * 1000, peerFailureLimit = 12, subjectFailureLimit = 6, windowMs = 10 * 60 * 1000 \<rparr>"
| "AUTH_ROUTE_RATE_LIMITS AuthSetup =
     \<lparr> lockoutMs = 10 * 60 * 1000, peerFailureLimit = 12, subjectFailureLimit = 6, windowMs = 10 * 60 * 1000 \<rparr>"
| "AUTH_ROUTE_RATE_LIMITS AuthResetPassword =
     \<lparr> lockoutMs = 10 * 60 * 1000, peerFailureLimit = 12, subjectFailureLimit = 6, windowMs = 10 * 60 * 1000 \<rparr>"
| "AUTH_ROUTE_RATE_LIMITS AuthResetPin =
     \<lparr> lockoutMs = 10 * 60 * 1000, peerFailureLimit = 12, subjectFailureLimit = 6, windowMs = 10 * 60 * 1000 \<rparr>"
| "AUTH_ROUTE_RATE_LIMITS AuthStepUp =
     \<lparr> lockoutMs = 10 * 60 * 1000, peerFailureLimit = 12, subjectFailureLimit = 6, windowMs = 10 * 60 * 1000 \<rparr>"
| "AUTH_ROUTE_RATE_LIMITS AuthWsTicket =
     \<lparr> lockoutMs = 10 * 60 * 1000, peerFailureLimit = 12, subjectFailureLimit = 6, windowMs = 10 * 60 * 1000 \<rparr>"

definition auth_paths :: "rate_limited_path list" where
  "auth_paths = [AuthLogin, AuthRecoveryLogin, AuthSetup, AuthResetPassword, AuthResetPin, AuthStepUp, AuthWsTicket]"

definition MAX_BUCKET_AGE_MS :: int where
  "MAX_BUCKET_AGE_MS =
     foldl max 0 (concat (map (\<lambda>p. [lockoutMs (AUTH_ROUTE_RATE_LIMITS p), windowMs (AUTH_ROUTE_RATE_LIMITS p)]) auth_paths))"

definition PRUNE_INTERVAL_MS :: int where
  "PRUNE_INTERVAL_MS = MAX_BUCKET_AGE_MS"

section \<open>The table\<close>

definition readBucketState :: "auth_table \<Rightarrow> string \<Rightarrow> string + auth_bucket option" where
  "readBucketState db key =
     (case db key of
        None \<Rightarrow> Inr None
      | Some row \<Rightarrow>
          (case failuresJson row of
             Malformed msg \<Rightarrow> Inl (''Failed to load auth route rate-limit bucket '' @ key @ '': '' @ msg)
           | NotArray \<Rightarrow> Inr (Some \<lparr> failuresMs = [], lockedUntilMs = lockedUntilCol row \<rparr>)
           | Entries es \<Rightarrow> Inr (Some \<lparr> failuresMs = List.map_filter id es, lockedUntilMs = lockedUntilCol row \<rparr>)))"

definition deleteBucketState :: "string \<Rightarrow> auth_table \<Rightarrow> auth_table" where
  "deleteBucketState key db = db(key := None)"

definition writeBucketState :: "string \<Rightarrow> auth_bucket \<Rightarrow> int \<Rightarrow> auth_table \<Rightarrow> auth_table" where
  "writeBucketState key state updatedAt db =
     db(key \<mapsto> \<lparr> failuresJson = Entries (map Some (failuresMs state)),
                 lockedUntilCol = lockedUntilMs state, updatedAtMs = updatedAt \<rparr>)"

definition pruneExpiredAuthRouteRateLimitBuckets :: "int \<Rightarrow> auth_table \<Rightarrow> auth_table" where
  "pruneExpiredAuthRouteRateLimitBuckets nowMs db =
     (let cutoffMs = nowMs - MAX_BUCKET_AGE_MS in
      (\<lambda>key. case db key of
         None \<Rightarrow> None
       | Some row \<Rightarrow>
           (if updatedAtMs row \<le> cutoffMs \<and>
               (case lockedUntilCol row of None \<Rightarrow> True | Some l \<Rightarrow> l \<le> nowMs)
            then None else Some row)))"

definition maybePruneExpired :: "int \<Rightarrow> auth_state \<Rightarrow> auth_state" where
  "maybePruneExpired nowMs st =
     (if lastPruneAtMs st \<noteq> 0 \<and> nowMs - lastPruneAtMs st < PRUNE_INTERVAL_MS then st
      else st\<lparr> table := pruneExpiredAuthRouteRateLimitBuckets nowMs (table st), lastPruneAtMs := nowMs \<rparr>)"

definition rawPeerKey :: "auth_context \<Rightarrow> string" where
  "rawPeerKey context = path_string (pathname context) @ '':peer:'' @ peerKey context"

definition rawSubjectKey :: "auth_context \<Rightarrow> string" where
  "rawSubjectKey context = path_string (pathname context) @ '':subject:'' @
     (case subjectKey context of None \<Rightarrow> [] | Some k \<Rightarrow> k)"

definition authRouteRateLimitBucketKey :: "(string \<Rightarrow> string) \<Rightarrow> auth_context \<Rightarrow> bool \<Rightarrow> string" where
  "authRouteRateLimitBucketKey H context peer =
     H (if peer then rawPeerKey context else rawSubjectKey context)"

definition normalizeBucketState ::
  "string \<Rightarrow> int \<Rightarrow> int \<Rightarrow> auth_table \<Rightarrow> string + (auth_bucket \<times> auth_table)" where
  "normalizeBucketState key nowMs window db =
     (case readBucketState db key of
        Inl e \<Rightarrow> Inl e
      | Inr None \<Rightarrow> Inr (\<lparr> failuresMs = [], lockedUntilMs = None \<rparr>, db)
      | Inr (Some current) \<Rightarrow>
          (let cutoffMs = nowMs - window;
               failures = filter (\<lambda>f. f > cutoffMs) (failuresMs current);
               locked = (case lockedUntilMs current of
                 Some l \<Rightarrow> (if l > nowMs then Some l else None) | None \<Rightarrow> None);
               normalized = \<lparr> failuresMs = failures, lockedUntilMs = locked \<rparr> in
           if failures = [] \<and> locked = None then Inr (normalized, deleteBucketState key db)
           else Inr (normalized, writeBucketState key normalized nowMs db)))"

definition persistBucketState :: "string \<Rightarrow> auth_bucket \<Rightarrow> int \<Rightarrow> auth_table \<Rightarrow> auth_table" where
  "persistBucketState key state nowMs db =
     (if failuresMs state = [] \<and> lockedUntilMs state = None then deleteBucketState key db
      else writeBucketState key state nowMs db)"

definition readRetryAfterSeconds :: "int \<Rightarrow> int \<Rightarrow> int" where
  "readRetryAfterSeconds locked nowMs = max 1 (ceil_div (locked - nowMs) 1000)"

text \<open>A subject scope exists for a subject key that is present and not the empty string.\<close>

definition has_subject :: "auth_context \<Rightarrow> bool" where
  "has_subject context = (case subjectKey context of None \<Rightarrow> False | Some k \<Rightarrow> k \<noteq> [])"

definition rateLimitScopes :: "(string \<Rightarrow> string) \<Rightarrow> auth_context \<Rightarrow> auth_config \<Rightarrow> (string \<times> nat) list" where
  "rateLimitScopes H context config =
     (authRouteRateLimitBucketKey H context True, peerFailureLimit config) #
     (if has_subject context
      then [(authRouteRateLimitBucketKey H context False, subjectFailureLimit config)] else [])"

definition context_now :: "int \<Rightarrow> auth_context \<Rightarrow> int" where
  "context_now clock context = (case ctx_nowMs context of Some t \<Rightarrow> t | None \<Rightarrow> clock)"

section \<open>The operations\<close>

text \<open>The loop of the status over the scopes: the longest lock found.\<close>

fun longestLock ::
  "int \<Rightarrow> int \<Rightarrow> (string \<times> nat) list \<Rightarrow> int option \<Rightarrow> auth_table \<Rightarrow> string + (int option \<times> auth_table)" where
  "longestLock nowMs window [] longest db = Inr (longest, db)"
| "longestLock nowMs window ((key, _) # scopes) longest db =
     (case normalizeBucketState key nowMs window db of
        Inl e \<Rightarrow> Inl e
      | Inr (state, db') \<Rightarrow>
          longestLock nowMs window scopes
            (case lockedUntilMs state of
               None \<Rightarrow> longest
             | Some l \<Rightarrow> (case longest of None \<Rightarrow> Some l | Some m \<Rightarrow> if l > m then Some l else longest)) db')"

definition readStatusInternal ::
  "(string \<Rightarrow> string) \<Rightarrow> int \<Rightarrow> auth_context \<Rightarrow> auth_state \<Rightarrow> (string + int option) \<times> auth_state" where
  "readStatusInternal H clock context st =
     (let config = AUTH_ROUTE_RATE_LIMITS (pathname context);
          nowMs = context_now clock context;
          st1 = maybePruneExpired nowMs st in
      case longestLock nowMs (windowMs config) (rateLimitScopes H context config) None (table st1) of
        Inl e \<Rightarrow> (Inl e, st1)
      | Inr (longest, db) \<Rightarrow>
          (Inr (map_option (\<lambda>l. readRetryAfterSeconds l nowMs) longest), st1\<lparr> table := db \<rparr>))"

text \<open>
  \<open>BEGIN IMMEDIATE\<close> .. \<open>COMMIT\<close>, or \<open>ROLLBACK\<close> of the table on an error. The module variable is not
  part of the transaction.
\<close>

definition runTransaction ::
  "(auth_state \<Rightarrow> (string + 'a) \<times> auth_state) \<Rightarrow> auth_state \<Rightarrow> (string + 'a) \<times> auth_state" where
  "runTransaction callback st =
     (case callback st of
        (Inl e, st') \<Rightarrow> (Inl e, st'\<lparr> table := table st \<rparr>)
      | (Inr a, st') \<Rightarrow> (Inr a, st'))"

definition readAuthRouteRateLimitStatus ::
  "(string \<Rightarrow> string) \<Rightarrow> int \<Rightarrow> auth_context \<Rightarrow> auth_state \<Rightarrow> (string + int option) \<times> auth_state" where
  "readAuthRouteRateLimitStatus H clock context st = runTransaction (readStatusInternal H clock context) st"

text \<open>The failure loop: a locked scope is skipped, another records the failure and may lock.\<close>

fun noteFailureScopes ::
  "int \<Rightarrow> auth_config \<Rightarrow> (string \<times> nat) list \<Rightarrow> auth_table \<Rightarrow> string + auth_table" where
  "noteFailureScopes nowMs config [] db = Inr db"
| "noteFailureScopes nowMs config ((key, maxFailures) # scopes) db =
     (case normalizeBucketState key nowMs (windowMs config) db of
        Inl e \<Rightarrow> Inl e
      | Inr (state, db') \<Rightarrow>
          (case lockedUntilMs state of
             Some _ \<Rightarrow> noteFailureScopes nowMs config scopes db'
           | None \<Rightarrow>
               (let pushed = failuresMs state @ [nowMs];
                    state' = (if length pushed \<ge> maxFailures
                      then state\<lparr> failuresMs := [], lockedUntilMs := Some (nowMs + lockoutMs config) \<rparr>
                      else state\<lparr> failuresMs := pushed \<rparr>) in
                noteFailureScopes nowMs config scopes (persistBucketState key state' nowMs db'))))"

definition noteAuthRouteFailure ::
  "(string \<Rightarrow> string) \<Rightarrow> int \<Rightarrow> auth_context \<Rightarrow> auth_state \<Rightarrow> (string + int option) \<times> auth_state" where
  "noteAuthRouteFailure H clock context st =
     runTransaction (\<lambda>st0.
       let config = AUTH_ROUTE_RATE_LIMITS (pathname context);
           nowMs = context_now clock context in
       case noteFailureScopes nowMs config (rateLimitScopes H context config) (table st0) of
         Inl e \<Rightarrow> (Inl e, st0)
       | Inr db \<Rightarrow> readStatusInternal H clock (context\<lparr> ctx_nowMs := Some nowMs \<rparr>) (st0\<lparr> table := db \<rparr>)) st"

definition noteAuthRouteSuccess ::
  "(string \<Rightarrow> string) \<Rightarrow> int \<Rightarrow> auth_context \<Rightarrow> auth_state \<Rightarrow> (string + unit) \<times> auth_state" where
  "noteAuthRouteSuccess H clock context st =
     runTransaction (\<lambda>st0.
       let config = AUTH_ROUTE_RATE_LIMITS (pathname context);
           nowMs = context_now clock context;
           st1 = maybePruneExpired nowMs st0 in
       if \<not> has_subject context then (Inr (), st1)
       else let key = authRouteRateLimitBucketKey H context False in
         (case normalizeBucketState key nowMs (windowMs config) (table st1) of
            Inl e \<Rightarrow> (Inl e, st1)
          | Inr (_, db) \<Rightarrow> (Inr (), st1\<lparr> table := deleteBucketState key db \<rparr>))) st"

definition noteAuthRouteAttemptSuccess ::
  "(string \<Rightarrow> string) \<Rightarrow> int \<Rightarrow> auth_context \<Rightarrow> auth_state \<Rightarrow> (string + unit) \<times> auth_state" where
  "noteAuthRouteAttemptSuccess H clock context st = noteAuthRouteSuccess H clock context st"

definition resetAuthRouteRateLimitState :: "auth_state" where
  "resetAuthRouteRateLimitState = \<lparr> table = Map.empty, lastPruneAtMs = 0 \<rparr>"

definition countAuthRouteRateLimitBuckets :: "auth_state \<Rightarrow> nat" where
  "countAuthRouteRateLimitBuckets st = card (dom (table st))"

section \<open>What a key's row means\<close>

text \<open>
  A row stores stale data until the next read normalises it. \<open>bucket_view\<close> is its meaning at a
  time, \<open>age\<close> how a meaning evolves without operations. The table is fine at time \<open>t\<close> when the
  rows are the ones the module writes, with no failure later than the row's own update.
\<close>

named_theorems auth_simps

lemma auth_limits [auth_simps]:
  "windowMs (AUTH_ROUTE_RATE_LIMITS p) = 600000" "lockoutMs (AUTH_ROUTE_RATE_LIMITS p) = 600000"
  "peerFailureLimit (AUTH_ROUTE_RATE_LIMITS p) = 12" "subjectFailureLimit (AUTH_ROUTE_RATE_LIMITS p) = 6"
  by (cases p; simp)+

lemma auth_ages [auth_simps]: "MAX_BUCKET_AGE_MS = 600000" "PRUNE_INTERVAL_MS = 600000"
  by (simp_all add: MAX_BUCKET_AGE_MS_def PRUNE_INTERVAL_MS_def auth_paths_def)

fun live_lock :: "int \<Rightarrow> int option \<Rightarrow> int option" where
  "live_lock now None = None"
| "live_lock now (Some l) = (if l > now then Some l else None)"

definition age :: "int \<Rightarrow> auth_bucket \<Rightarrow> auth_bucket" where
  "age now b = \<lparr> failuresMs = filter (\<lambda>f. f > now - 600000) (failuresMs b),
                  lockedUntilMs = live_lock now (lockedUntilMs b) \<rparr>"

definition empty_bucket :: auth_bucket where
  "empty_bucket = \<lparr> failuresMs = [], lockedUntilMs = None \<rparr>"

fun row_bucket :: "rate_limit_row option \<Rightarrow> auth_bucket" where
  "row_bucket None = empty_bucket"
| "row_bucket (Some row) = \<lparr> failuresMs = (case failuresJson row of Entries es \<Rightarrow> List.map_filter id es | _ \<Rightarrow> []),
                             lockedUntilMs = lockedUntilCol row \<rparr>"

definition bucket_view :: "int \<Rightarrow> auth_table \<Rightarrow> string \<Rightarrow> auth_bucket" where
  "bucket_view now db key = age now (row_bucket (db key))"

fun row_ok :: "int \<Rightarrow> rate_limit_row option \<Rightarrow> bool" where
  "row_ok t None = True"
| "row_ok t (Some row) =
     (updatedAtMs row \<le> t \<and>
      failuresJson row = Entries (map Some (failuresMs (row_bucket (Some row)))) \<and>
      (\<forall>f \<in> set (failuresMs (row_bucket (Some row))). f \<le> updatedAtMs row))"

definition table_ok :: "int \<Rightarrow> auth_table \<Rightarrow> bool" where
  "table_ok t db = (\<forall>key. row_ok t (db key))"

lemma bucket_eta [simp]: "\<lparr> failuresMs = failuresMs b, lockedUntilMs = lockedUntilMs b \<rparr> = (b :: auth_bucket)"
  by (cases b) simp

lemma map_filter_id_Some [simp]: "List.map_filter id (map Some xs) = xs"
  by (induction xs) (simp_all add: List.map_filter_simps)

lemma live_lock_age [simp]: "now \<le> t \<Longrightarrow> live_lock t (live_lock now l) = live_lock t l"
  by (cases l) auto

lemma age_age [auth_simps]: "now \<le> t \<Longrightarrow> age t (age now b) = age t b"
  by (auto simp: age_def intro!: filter_cong)

lemma age_empty [simp]: "age now empty_bucket = empty_bucket"
  by (simp add: age_def empty_bucket_def)

lemma bucket_view_age: "now \<le> t \<Longrightarrow> bucket_view t db key = age t (bucket_view now db key)"
  by (simp add: bucket_view_def age_age)

lemma table_ok_mono: "table_ok t db \<Longrightarrow> t \<le> t' \<Longrightarrow> table_ok t' db"
proof -
  have "row_ok t r \<Longrightarrow> t \<le> t' \<Longrightarrow> row_ok t' r" for r by (cases r) auto
  then show "table_ok t db \<Longrightarrow> t \<le> t' \<Longrightarrow> table_ok t' db" by (simp add: table_ok_def)
qed

lemma table_ok_empty: "table_ok t Map.empty"
  by (simp add: table_ok_def)

lemma table_ok_delete [intro]: "table_ok t db \<Longrightarrow> table_ok t (deleteBucketState key db)"
  by (simp add: table_ok_def deleteBucketState_def)

lemma table_ok_write [intro]:
  "table_ok t db \<Longrightarrow> u \<le> t \<Longrightarrow> (\<And>f. f \<in> set (failuresMs b) \<Longrightarrow> f \<le> u) \<Longrightarrow>
   table_ok t (writeBucketState key b u db)"
  by (simp add: table_ok_def writeBucketState_def)

lemma view_delete [auth_simps]:
  "bucket_view t (deleteBucketState key db) k = (if k = key then empty_bucket else bucket_view t db k)"
  by (simp add: bucket_view_def deleteBucketState_def)

lemma view_write [auth_simps]:
  "bucket_view t (writeBucketState key b u db) k = (if k = key then age t b else bucket_view t db k)"
  by (simp add: bucket_view_def writeBucketState_def)

lemma empty_bucket_eq: "(failuresMs b = [] \<and> lockedUntilMs b = None) = (b = empty_bucket)"
  by (cases b) (simp add: empty_bucket_def)

lemma view_persist [auth_simps]:
  "bucket_view t (persistBucketState key b u db) k = (if k = key then age t b else bucket_view t db k)"
  by (simp add: persistBucketState_def empty_bucket_eq view_delete view_write)

lemma table_ok_persist [intro]:
  "table_ok t db \<Longrightarrow> u \<le> t \<Longrightarrow> (\<And>f. f \<in> set (failuresMs b) \<Longrightarrow> f \<le> u) \<Longrightarrow>
   table_ok t (persistBucketState key b u db)"
  by (auto simp: persistBucketState_def)

lemma readBucketState_ok:
  "table_ok t db \<Longrightarrow> readBucketState db key = Inr (map_option (\<lambda>row. row_bucket (Some row)) (db key))"
proof (cases "db key")
  case (Some row)
  assume "table_ok t db"
  then have "row_ok t (db key)" by (simp add: table_ok_def)
  then show ?thesis using Some by (auto simp: readBucketState_def split: failures_json.splits)
qed (simp add: readBucketState_def)

lemma view_failures_le:
  assumes "table_ok t db" and "f \<in> set (failuresMs (bucket_view now db key))"
  shows "f \<le> t"
proof (cases "db key")
  case (Some row)
  have "row_ok t (db key)" using assms(1) by (simp add: table_ok_def)
  then show ?thesis using assms(2) Some by (fastforce simp: bucket_view_def age_def)
qed (use assms in \<open>simp add: bucket_view_def empty_bucket_def age_def\<close>)

text \<open>Normalising never fails on such a table, returns the meaning and keeps every later one.\<close>

lemma normalize_ok:
  assumes "table_ok t db" and "t \<le> now"
  shows "\<exists>db'. normalizeBucketState key now 600000 db = Inr (bucket_view now db key, db') \<and>
     table_ok now db' \<and> (\<forall>u \<ge> now. \<forall>k. bucket_view u db' k = bucket_view u db k)"
proof (cases "db key")
  case None
  then have "normalizeBucketState key now 600000 db = Inr (bucket_view now db key, db)"
    by (simp add: normalizeBucketState_def readBucketState_def bucket_view_def empty_bucket_def age_def)
  then show ?thesis using table_ok_mono [OF assms] by simp
next
  case (Some row)
  let ?b = "bucket_view now db key"
  have "(case lockedUntilMs (row_bucket (Some row)) of Some l \<Rightarrow> if l > now then Some l else None | None \<Rightarrow> None)
      = lockedUntilMs ?b"
    using Some by (auto simp: bucket_view_def age_def split: option.splits)
  moreover have "filter (\<lambda>f. f > now - 600000) (failuresMs (row_bucket (Some row))) = failuresMs ?b"
    using Some by (simp add: bucket_view_def age_def)
  ultimately have n: "normalizeBucketState key now 600000 db =
      Inr (?b, persistBucketState key ?b now db)"
    using Some
    by (simp add: normalizeBucketState_def readBucketState_ok [OF assms(1)] persistBucketState_def Let_def
        del: row_bucket.simps)
  have "table_ok now (persistBucketState key ?b now db)"
  proof (rule table_ok_persist [OF table_ok_mono [OF assms]])
    show "f \<in> set (failuresMs ?b) \<Longrightarrow> f \<le> now" for f
      using view_failures_le [OF assms(1), of f now key] assms(2) by simp
  qed simp
  moreover have "bucket_view u (persistBucketState key ?b now db) k = bucket_view u db k" if "now \<le> u" for u k
    unfolding view_persist by (simp add: bucket_view_age [OF that])
  ultimately show ?thesis using n by (intro exI [of _ "persistBucketState key ?b now db"]) simp
qed

text \<open>Pruning is invisible: no failure or lock that still counts, now or later, is dropped.\<close>

lemma prune_view:
  assumes "table_ok t db" and "now \<le> u"
  shows "bucket_view u (pruneExpiredAuthRouteRateLimitBuckets now db) k = bucket_view u db k"
proof (cases "db k")
  case (Some row)
  let ?fs = "failuresMs (row_bucket (Some row))"
  have row: "row_ok t (db k)" using assms(1) by (simp add: table_ok_def)
  show ?thesis
  proof (cases "updatedAtMs row \<le> now - 600000 \<and> live_lock now (lockedUntilCol row) = None")
    case True
    then have "filter (\<lambda>f. f > u - 600000) ?fs = []"
      using row Some assms(2) by (fastforce simp: filter_empty_conv)
    moreover have "live_lock u (lockedUntilCol row) = None"
      using True assms(2) by (cases "lockedUntilCol row") (auto split: if_splits)
    ultimately show ?thesis using Some True
      by (auto simp: pruneExpiredAuthRouteRateLimitBuckets_def bucket_view_def age_def Let_def auth_simps
          empty_bucket_def split: option.splits)
  next
    case False
    then show ?thesis using Some
      by (auto simp: pruneExpiredAuthRouteRateLimitBuckets_def bucket_view_def Let_def auth_simps
          split: option.splits if_splits)
  qed
qed (simp add: pruneExpiredAuthRouteRateLimitBuckets_def bucket_view_def Let_def)

lemma prune_ok: "table_ok t db \<Longrightarrow> table_ok t (pruneExpiredAuthRouteRateLimitBuckets now db)"
  unfolding table_ok_def pruneExpiredAuthRouteRateLimitBuckets_def Let_def
  by (auto split: option.splits simp del: row_ok.simps(2); metis)

lemma maybePrune_ok:
  assumes "table_ok t (table st)"
  shows "table_ok t (table (maybePruneExpired now st)) \<and>
    (\<forall>u \<ge> now. \<forall>k. bucket_view u (table (maybePruneExpired now st)) k = bucket_view u (table st) k)"
  using assms by (simp add: maybePruneExpired_def prune_ok prune_view)

section \<open>What the operations do to the meaning\<close>

fun later_lock :: "int option \<Rightarrow> int option \<Rightarrow> int option" where
  "later_lock m None = m"
| "later_lock None (Some l) = Some l"
| "later_lock (Some m) (Some l) = Some (max m l)"

definition scope_lock :: "int \<Rightarrow> (string \<times> nat) list \<Rightarrow> int option \<Rightarrow> auth_table \<Rightarrow> int option" where
  "scope_lock now scopes m db = foldl later_lock m (map (\<lambda>s. lockedUntilMs (bucket_view now db (fst s))) scopes)"

definition fail_step :: "int \<Rightarrow> nat \<Rightarrow> auth_bucket \<Rightarrow> auth_bucket" where
  "fail_step now m b =
     (if lockedUntilMs b \<noteq> None then b
      else if m \<le> Suc (length (failuresMs b)) then \<lparr> failuresMs = [], lockedUntilMs = Some (now + 600000) \<rparr>
      else b\<lparr> failuresMs := failuresMs b @ [now] \<rparr>)"

fun scope_step :: "int \<Rightarrow> nat option \<Rightarrow> auth_bucket \<Rightarrow> auth_bucket" where
  "scope_step now None b = b"
| "scope_step now (Some m) b = fail_step now m b"

lemma longestLock_ok:
  assumes "table_ok t db" and "t \<le> now"
  shows "\<exists>db'. longestLock now 600000 scopes m db = Inr (scope_lock now scopes m db, db') \<and>
    table_ok now db' \<and> (\<forall>u \<ge> now. \<forall>k. bucket_view u db' k = bucket_view u db k)"
  using assms
proof (induction scopes arbitrary: m db t)
  case Nil
  then show ?case using table_ok_mono by (auto simp: scope_lock_def)
next
  case (Cons s scopes)
  obtain key n where s: "s = (key, n)" by (cases s)
  obtain db1 where n: "normalizeBucketState key now 600000 db = Inr (bucket_view now db key, db1)"
    and ok: "table_ok now db1" and v1: "\<forall>u \<ge> now. \<forall>k. bucket_view u db1 k = bucket_view u db k"
    using normalize_ok [OF Cons.prems, of key] by blast
  let ?m = "later_lock m (lockedUntilMs (bucket_view now db key))"
  obtain db2 where l: "longestLock now 600000 scopes ?m db1 = Inr (scope_lock now scopes ?m db1, db2)"
    and ok2: "table_ok now db2" and v2: "\<forall>u \<ge> now. \<forall>k. bucket_view u db2 k = bucket_view u db1 k"
    using Cons.IH [OF ok, of ?m] by blast
  have "(case lockedUntilMs (bucket_view now db key) of None \<Rightarrow> m
      | Some l \<Rightarrow> (case m of None \<Rightarrow> Some l | Some m' \<Rightarrow> if l > m' then Some l else m)) = ?m"
    by (cases m; cases "lockedUntilMs (bucket_view now db key)") auto
  then have "longestLock now 600000 (s # scopes) m db = Inr (scope_lock now scopes ?m db1, db2)"
    using l n s by simp
  moreover have "scope_lock now scopes ?m db1 = scope_lock now (s # scopes) m db"
    using v1 by (simp add: scope_lock_def s)
  ultimately show ?case using ok2 v1 v2 by (intro exI [of _ db2]) simp
qed

lemma scope_lock_None:
  "scope_lock now scopes m db = None \<longleftrightarrow>
     m = None \<and> (\<forall>s \<in> set scopes. lockedUntilMs (bucket_view now db (fst s)) = None)"
proof -
  have "foldl later_lock m ls = None \<longleftrightarrow> m = None \<and> (\<forall>l \<in> set ls. l = None)" for ls
  proof (induction ls arbitrary: m)
    case (Cons l ls)
    then show ?case by (cases m; cases l) auto
  qed simp
  then show ?thesis by (auto simp: scope_lock_def)
qed

lemma scope_lock_Some:
  assumes "scope_lock now scopes None db = Some l"
  shows "(\<exists>s \<in> set scopes. lockedUntilMs (bucket_view now db (fst s)) = Some l) \<and>
    (\<forall>s \<in> set scopes. \<forall>l'. lockedUntilMs (bucket_view now db (fst s)) = Some l' \<longrightarrow> l' \<le> l)"
proof -
  have "foldl later_lock m ls = Some l \<Longrightarrow>
    Some l \<in> insert m (set ls) \<and> (\<forall>l'. Some l' \<in> insert m (set ls) \<longrightarrow> l' \<le> l)" for ls m
  proof (induction ls arbitrary: m)
    case (Cons a ls)
    then have ih: "Some l \<in> insert (later_lock m a) (set ls) \<and>
        (\<forall>l'. Some l' \<in> insert (later_lock m a) (set ls) \<longrightarrow> l' \<le> l)" by simp
    then show ?case by (cases m; cases a) (auto simp: max_def split: if_splits)
  qed auto
  from this [OF assms [unfolded scope_lock_def]] show ?thesis by (force simp: eq_commute [of "Some _"])
qed

lemma view_lock_future: "lockedUntilMs (bucket_view now db k) = Some l \<Longrightarrow> now < l"
  by (cases "lockedUntilMs (row_bucket (db k))") (auto simp: bucket_view_def age_def split: if_splits)

lemma noteFailureScopes_ok:
  assumes "table_ok t db" and "t \<le> now" and "distinct (map fst scopes)"
    and "windowMs config = 600000" and "lockoutMs config = 600000"
  shows "\<exists>db'. noteFailureScopes now config scopes db = Inr db' \<and> table_ok now db' \<and>
    (\<forall>u \<ge> now. \<forall>k. bucket_view u db' k = age u (scope_step now (map_of scopes k) (bucket_view now db k)))"
  using assms(1-3)
proof (induction scopes arbitrary: db t)
  case Nil
  then show ?case using table_ok_mono [of t db now] by (auto simp: bucket_view_age [symmetric])
next
  case (Cons s scopes)
  obtain key n where s: "s = (key, n)" by (cases s)
  let ?b = "bucket_view now db key"
  obtain db1 where nrm: "normalizeBucketState key now 600000 db = Inr (?b, db1)"
    and ok: "table_ok now db1" and v1: "\<And>u k. u \<ge> now \<Longrightarrow> bucket_view u db1 k = bucket_view u db k"
    using normalize_ok [OF Cons.prems(1,2), of key] by blast
  define db2 where "db2 = (if lockedUntilMs ?b \<noteq> None then db1
     else persistBucketState key (fail_step now n ?b) now db1)"
  have step: "noteFailureScopes now config (s # scopes) db = noteFailureScopes now config scopes db2"
    using nrm assms(4,5) by (cases ?b; auto simp: s db2_def fail_step_def Let_def split: option.splits)
  have "f \<le> now" if "f \<in> set (failuresMs (fail_step now n ?b))" for f
    using that view_failures_le [OF Cons.prems(1), of f now key] Cons.prems(2)
    by (auto simp: fail_step_def split: if_splits)
  then have ok2: "table_ok now db2"
    unfolding db2_def using ok by auto
  have v2: "bucket_view u db2 k = (if k = key then age u (fail_step now n ?b) else bucket_view u db k)"
    if u: "now \<le> u" for u k
    using bucket_view_age [OF u, of db key]
    by (auto simp: db2_def view_persist v1 [OF u] fail_step_def)
  obtain db' where r: "noteFailureScopes now config scopes db2 = Inr db'" and ok': "table_ok now db'"
    and v': "\<forall>u \<ge> now. \<forall>k. bucket_view u db' k = age u (scope_step now (map_of scopes k) (bucket_view now db2 k))"
    using Cons.IH [OF ok2] Cons.prems(3) by auto
  have "bucket_view u db' k = age u (scope_step now (map_of (s # scopes) k) (bucket_view now db k))"
    if u: "now \<le> u" for u k
  proof (cases "k = key")
    case True
    then have "map_of scopes k = None" using Cons.prems(3) by (simp add: s map_of_eq_None_iff)
    then show ?thesis using True v' u v2 [of now key] by (simp add: s age_age)
  next
    case False
    then show ?thesis using v' u v2 [of now k] by (simp add: s)
  qed
  then show ?case using r ok' step by auto
qed

text \<open>The raw keys are injective: a path contains no colon.\<close>

lemma path_string_inject [simp]: "path_string p = path_string q \<longleftrightarrow> p = q"
  by (cases p; cases q) simp_all

lemma path_string_no_colon: "CHR '':'' \<notin> set (path_string p)"
  by (cases p) simp_all

lemma key_split:
  "path_string p @ CHR '':'' # a = path_string q @ CHR '':'' # b \<Longrightarrow> p = q \<and> a = b"
proof -
  assume e: "path_string p @ CHR '':'' # a = path_string q @ CHR '':'' # b"
  have t: "takeWhile (\<lambda>c. c \<noteq> CHR '':'') (path_string r @ CHR '':'' # x) = path_string r" for r x
    using path_string_no_colon [of r] by (subst takeWhile_append2) auto
  have "path_string p = path_string q" using t [of p a] t [of q b] e by simp
  then show ?thesis using e by simp
qed

lemma rawPeerKey_inject:
  "rawPeerKey c = rawPeerKey d \<longleftrightarrow> pathname c = pathname d \<and> peerKey c = peerKey d"
  by (auto simp: rawPeerKey_def dest: key_split)

lemma rawPeer_not_rawSubject [simp]: "rawPeerKey c \<noteq> rawSubjectKey d" "rawSubjectKey d \<noteq> rawPeerKey c"
  by (auto simp: rawPeerKey_def rawSubjectKey_def dest: key_split)

section \<open>The operations on a fine table\<close>

definition ctx_scopes :: "(string \<Rightarrow> string) \<Rightarrow> auth_context \<Rightarrow> (string \<times> nat) list" where
  "ctx_scopes H context = rateLimitScopes H context (AUTH_ROUTE_RATE_LIMITS (pathname context))"

definition status_of :: "(string \<Rightarrow> string) \<Rightarrow> int \<Rightarrow> auth_context \<Rightarrow> auth_table \<Rightarrow> int option" where
  "status_of H now context db =
     map_option (\<lambda>l. readRetryAfterSeconds l now) (scope_lock now (ctx_scopes H context) None db)"

lemma ctx_scopes_unfold:
  "ctx_scopes H c = (H (rawPeerKey c), 12) # (if has_subject c then [(H (rawSubjectKey c), 6)] else [])"
  by (simp add: ctx_scopes_def rateLimitScopes_def authRouteRateLimitBucketKey_def auth_limits)

lemma ctx_now_update [simp]:
  "ctx_scopes H (c\<lparr> ctx_nowMs := x \<rparr>) = ctx_scopes H c"
  "context_now clock (c\<lparr> ctx_nowMs := Some t \<rparr>) = t"
  "has_subject (c\<lparr> ctx_nowMs := x \<rparr>) = has_subject c"
  by (simp_all add: ctx_scopes_unfold rawPeerKey_def rawSubjectKey_def has_subject_def context_now_def)

lemma distinct_ctx_scopes:
  "H (rawPeerKey c) \<noteq> H (rawSubjectKey c) \<Longrightarrow> distinct (map fst (ctx_scopes H c))"
  by (simp add: ctx_scopes_unfold)

lemma readStatusInternal_ok:
  assumes "table_ok t (table st)" and "t \<le> context_now clock c"
  shows "\<exists>st'. readStatusInternal H clock c st = (Inr (status_of H (context_now clock c) c (table st)), st') \<and>
    table_ok (context_now clock c) (table st') \<and>
    (\<forall>u \<ge> context_now clock c. \<forall>k. bucket_view u (table st') k = bucket_view u (table st) k)"
proof -
  let ?now = "context_now clock c"
  let ?st1 = "maybePruneExpired ?now st"
  have p: "table_ok t (table ?st1)"
    and v: "\<forall>u \<ge> ?now. \<forall>k. bucket_view u (table ?st1) k = bucket_view u (table st) k"
    using maybePrune_ok [OF assms(1), of ?now] by auto
  obtain db where l: "longestLock ?now 600000 (ctx_scopes H c) None (table ?st1) =
      Inr (scope_lock ?now (ctx_scopes H c) None (table ?st1), db)"
    and ok: "table_ok ?now db" and v': "\<forall>u \<ge> ?now. \<forall>k. bucket_view u db k = bucket_view u (table ?st1) k"
    using longestLock_ok [OF p assms(2), of "ctx_scopes H c" None] by blast
  have "scope_lock ?now (ctx_scopes H c) None (table ?st1) = scope_lock ?now (ctx_scopes H c) None (table st)"
    using v by (simp add: scope_lock_def)
  then show ?thesis using l ok v v'
    by (simp add: readStatusInternal_def Let_def ctx_scopes_def [symmetric] auth_limits status_of_def)
qed

lemma readStatus_ok:
  assumes "table_ok t (table st)" and "t \<le> context_now clock c"
  shows "\<exists>st'. readAuthRouteRateLimitStatus H clock c st = (Inr (status_of H (context_now clock c) c (table st)), st') \<and>
    table_ok (context_now clock c) (table st') \<and>
    (\<forall>u \<ge> context_now clock c. \<forall>k. bucket_view u (table st') k = bucket_view u (table st) k)"
  using readStatusInternal_ok [OF assms, of H]
  by (auto simp: readAuthRouteRateLimitStatus_def runTransaction_def)

lemma noteFailure_ok:
  assumes "table_ok t (table st)" and "t \<le> context_now clock c"
    and "H (rawPeerKey c) \<noteq> H (rawSubjectKey c)"
  shows "\<exists>r st'. noteAuthRouteFailure H clock c st = (Inr r, st') \<and>
    table_ok (context_now clock c) (table st') \<and>
    r = status_of H (context_now clock c) c (table st') \<and>
    (\<forall>u \<ge> context_now clock c. \<forall>k. bucket_view u (table st') k =
       age u (scope_step (context_now clock c) (map_of (ctx_scopes H c) k)
         (bucket_view (context_now clock c) (table st) k)))"
proof -
  let ?now = "context_now clock c"
  let ?cfg = "AUTH_ROUTE_RATE_LIMITS (pathname c)"
  obtain db where f: "noteFailureScopes ?now ?cfg (ctx_scopes H c) (table st) = Inr db" and ok: "table_ok ?now db"
    and v: "\<forall>u \<ge> ?now. \<forall>k. bucket_view u db k =
      age u (scope_step ?now (map_of (ctx_scopes H c) k) (bucket_view ?now (table st) k))"
    using noteFailureScopes_ok [OF assms(1,2) distinct_ctx_scopes [OF assms(3)], of ?cfg]
    by (auto simp: auth_limits)
  let ?c = "c\<lparr> ctx_nowMs := Some ?now \<rparr>"
  have "table_ok ?now (table (st\<lparr> table := db \<rparr>))" and "?now \<le> context_now clock ?c" using ok by simp_all
  from readStatusInternal_ok [OF this, of H] obtain st' where
    r: "readStatusInternal H clock ?c (st\<lparr> table := db \<rparr>) = (Inr (status_of H ?now ?c db), st')"
    and ok': "table_ok ?now (table st')"
    and v': "\<forall>u \<ge> ?now. \<forall>k. bucket_view u (table st') k = bucket_view u db k"
    by auto
  have "status_of H ?now ?c db = status_of H ?now c (table st')"
    using v' by (simp add: status_of_def scope_lock_def)
  then have "noteAuthRouteFailure H clock c st = (Inr (status_of H ?now c (table st')), st')"
    using f r by (simp add: noteAuthRouteFailure_def runTransaction_def Let_def ctx_scopes_def)
  then show ?thesis using ok' v v' by auto
qed

lemma noteSuccess_ok:
  assumes "table_ok t (table st)" and "t \<le> context_now clock c"
  shows "\<exists>st'. noteAuthRouteSuccess H clock c st = (Inr (), st') \<and> table_ok (context_now clock c) (table st') \<and>
    (\<forall>u \<ge> context_now clock c. \<forall>k. bucket_view u (table st') k =
       (if has_subject c \<and> k = H (rawSubjectKey c) then empty_bucket else bucket_view u (table st) k))"
proof -
  let ?now = "context_now clock c"
  let ?st1 = "maybePruneExpired ?now st"
  let ?key = "authRouteRateLimitBucketKey H c False"
  have p: "table_ok t (table ?st1)"
    and v: "\<And>u k. u \<ge> ?now \<Longrightarrow> bucket_view u (table ?st1) k = bucket_view u (table st) k"
    using maybePrune_ok [OF assms(1), of ?now] by auto
  obtain db where n: "normalizeBucketState ?key ?now 600000 (table ?st1) = Inr (bucket_view ?now (table ?st1) ?key, db)"
    and ok: "table_ok ?now db" and v': "\<And>u k. u \<ge> ?now \<Longrightarrow> bucket_view u db k = bucket_view u (table ?st1) k"
    using normalize_ok [OF p assms(2), of ?key] by blast
  show ?thesis
  proof (cases "has_subject c")
    case True
    then have "noteAuthRouteSuccess H clock c st = (Inr (), ?st1\<lparr> table := deleteBucketState ?key db \<rparr>)"
      using n by (simp add: noteAuthRouteSuccess_def runTransaction_def Let_def auth_limits)
    then show ?thesis using True ok v v'
      by (auto simp: view_delete authRouteRateLimitBucketKey_def)
  next
    case False
    then have "noteAuthRouteSuccess H clock c st = (Inr (), ?st1)"
      by (simp add: noteAuthRouteSuccess_def runTransaction_def Let_def)
    then show ?thesis using False v table_ok_mono [OF p assms(2)] by simp
  qed
qed

section \<open>Properties\<close>

text \<open>
  Asking for the status of a route is harmless and truthful: pruning and normalising never
  change what any key means now or later; the answer is a refusal exactly when one of the scopes
  is locked, and the wait it names is positive and covers every lock.
\<close>

theorem auth_status_exact:
  assumes "table_ok t (table st)" and "t \<le> context_now clock c"
  shows "\<exists>r st'. readAuthRouteRateLimitStatus H clock c st = (Inr r, st') \<and>
    table_ok (context_now clock c) (table st') \<and>
    (\<forall>u \<ge> context_now clock c. \<forall>k. bucket_view u (table st') k = bucket_view u (table st) k) \<and>
    (r = None \<longleftrightarrow> (\<forall>s \<in> set (ctx_scopes H c).
       lockedUntilMs (bucket_view (context_now clock c) (table st) (fst s)) = None)) \<and>
    (\<forall>secs. r = Some secs \<longrightarrow> 1 \<le> secs \<and> (\<forall>s \<in> set (ctx_scopes H c). \<forall>l.
       lockedUntilMs (bucket_view (context_now clock c) (table st) (fst s)) = Some l \<longrightarrow>
       l \<le> context_now clock c + 1000 * secs))"
proof -
  let ?now = "context_now clock c"
  let ?l = "scope_lock ?now (ctx_scopes H c) None (table st)"
  have "(status_of H ?now c (table st) = None) = (?l = None)" by (simp add: status_of_def)
  then have none: "(status_of H ?now c (table st) = None) =
      (\<forall>s \<in> set (ctx_scopes H c). lockedUntilMs (bucket_view ?now (table st) (fst s)) = None)"
    by (simp add: scope_lock_None)
  have some: "1 \<le> secs \<and> (\<forall>s \<in> set (ctx_scopes H c). \<forall>l.
       lockedUntilMs (bucket_view ?now (table st) (fst s)) = Some l \<longrightarrow> l \<le> ?now + 1000 * secs)"
    if secs0: "status_of H ?now c (table st) = Some secs" for secs
  proof -
    obtain m where m: "?l = Some m" and secs: "secs = readRetryAfterSeconds m ?now"
      using secs0 by (auto simp: status_of_def)
    have "m - ?now \<le> ceil_div (m - ?now) 1000 * 1000" by (rule ceil_div_mult_ge) simp
    then have "m \<le> ?now + 1000 * secs" by (simp add: secs readRetryAfterSeconds_def)
    then show ?thesis using scope_lock_Some [OF m] by (fastforce simp: secs readRetryAfterSeconds_def)
  qed
  show ?thesis using readStatus_ok [OF assms, of H] none some by fastforce
qed

text \<open>
  C14. A failure refines the abstract bucket machine: an unlocked peer or subject bucket gains the
  failure, or locks for ten minutes and forgets its failures when that reaches the limit (12 for
  the peer, 6 for the subject); a locked one is not extended; no other key changes; and the
  answer is the status after the failure.
\<close>

theorem auth_failure_refines:
  assumes "table_ok t (table st)" and "t \<le> context_now clock c"
    and "H (rawPeerKey c) \<noteq> H (rawSubjectKey c)"
  shows "\<exists>r st'. noteAuthRouteFailure H clock c st = (Inr r, st') \<and>
    table_ok (context_now clock c) (table st') \<and>
    r = status_of H (context_now clock c) c (table st') \<and>
    (\<forall>u \<ge> context_now clock c. \<forall>k. bucket_view u (table st') k = age u (
       if k = H (rawPeerKey c)
       then fail_step (context_now clock c) 12 (bucket_view (context_now clock c) (table st) k)
       else if has_subject c \<and> k = H (rawSubjectKey c)
       then fail_step (context_now clock c) 6 (bucket_view (context_now clock c) (table st) k)
       else bucket_view (context_now clock c) (table st) k))"
proof -
  have "scope_step now (map_of (ctx_scopes H c) k) b =
     (if k = H (rawPeerKey c) then fail_step now 12 b
      else if has_subject c \<and> k = H (rawSubjectKey c) then fail_step now 6 b else b)" for now k b
    by (simp add: ctx_scopes_unfold)
  then show ?thesis using noteFailure_ok [OF assms] by simp
qed

text \<open>
  A success forgets exactly the subject's bucket: the peer's bucket, which guards against
  brute force from one address over many names, and every other key keep their meaning.
\<close>

theorem auth_success_clears_subject_only:
  assumes "table_ok t (table st)" and "t \<le> context_now clock c" and "u \<ge> context_now clock c"
    and "H (rawPeerKey c) \<noteq> H (rawSubjectKey c)"
  shows "\<exists>st'. noteAuthRouteAttemptSuccess H clock c st = (Inr (), st') \<and>
    bucket_view u (table st') (H (rawPeerKey c)) = bucket_view u (table st) (H (rawPeerKey c)) \<and>
    (has_subject c \<longrightarrow> bucket_view u (table st') (H (rawSubjectKey c)) = empty_bucket) \<and>
    (\<forall>k. k \<noteq> H (rawSubjectKey c) \<longrightarrow> bucket_view u (table st') k = bucket_view u (table st) k)"
  using noteSuccess_ok [OF assms(1,2), of H] assms(3,4)
  by (auto simp: noteAuthRouteAttemptSuccess_def)

section \<open>Witnesses\<close>

definition demo_context :: auth_context where
  "demo_context = \<lparr> ctx_nowMs = Some 1000, pathname = AuthLogin, peerKey = ''IPv4:10.0.0.1'',
                    subjectKey = Some ''username:ada'' \<rparr>"

lemma demo_context_now [simp]: "context_now clock demo_context = 1000"
  by (simp add: demo_context_def context_now_def)

definition demo_hash :: "string \<Rightarrow> string" where
  "demo_hash k = ''sha256:'' @ k"

lemma demo_start:
  "table_ok 0 (table resetAuthRouteRateLimitState)" "(0::int) \<le> context_now 0 demo_context"
  "demo_hash (rawPeerKey demo_context) \<noteq> demo_hash (rawSubjectKey demo_context)"
  by (simp_all add: resetAuthRouteRateLimitState_def table_ok_empty demo_hash_def)

theorem auth_status_exact_witness:
  "\<exists>r st'. readAuthRouteRateLimitStatus demo_hash 0 demo_context resetAuthRouteRateLimitState = (Inr r, st') \<and>
    r = None"
proof -
  have "lockedUntilMs (bucket_view u Map.empty k) = None" for u k
    by (simp add: bucket_view_def empty_bucket_def age_def)
  then show ?thesis
    using auth_status_exact [OF demo_start(1,2), of demo_hash]
    by (auto simp: resetAuthRouteRateLimitState_def)
qed

theorem auth_failure_refines_witness:
  "\<exists>r st'. noteAuthRouteFailure demo_hash 0 demo_context resetAuthRouteRateLimitState = (Inr r, st') \<and>
     failuresMs (bucket_view 1000 (table st') (demo_hash (rawPeerKey demo_context))) = [1000]"
proof -
  let ?k = "demo_hash (rawPeerKey demo_context)"
  obtain r st' where
    "noteAuthRouteFailure demo_hash 0 demo_context resetAuthRouteRateLimitState = (Inr r, st')"
    and "bucket_view 1000 (table st') ?k =
      age 1000 (fail_step 1000 12 (bucket_view 1000 (table resetAuthRouteRateLimitState) ?k))"
    using auth_failure_refines [OF demo_start] by auto
  then show ?thesis
    by (simp add: resetAuthRouteRateLimitState_def bucket_view_def fail_step_def empty_bucket_def age_def)
qed

theorem auth_success_clears_subject_only_witness:
  "\<exists>st'. noteAuthRouteAttemptSuccess demo_hash 0 demo_context resetAuthRouteRateLimitState = (Inr (), st') \<and>
     bucket_view 2000 (table st') (demo_hash (rawSubjectKey demo_context)) = empty_bucket"
proof -
  have "(2000::int) \<ge> context_now 0 demo_context" "has_subject demo_context"
    by (simp_all, simp add: demo_context_def has_subject_def)
  then show ?thesis
    using auth_success_clears_subject_only [OF demo_start(1,2) _ demo_start(3), of 2000] by blast
qed

end
