(* ===== verification/Rate_Limiters.thy ===== *)
theory Rate_Limiters
  imports Js_Map
begin

text \<open>
  \<^verbatim>\<open>src/bun/token-bucket-rate-limit.ts\<close> and \<^verbatim>\<open>src/bun/fixed-window-rate-limit.ts\<close>: the two bounded
  in-memory limiters. Each limiter is its normalised limits and its \<open>buckets\<close> map; \<open>hit\<close> returns
  the decision and the new map. Timestamps are integer milliseconds. The locale
  \<open>rate_limiter\<close> is the contract both give their callers; both are interpretations of it.
\<close>

datatype rate_result = Allowed | Denied (retryAfterSeconds: int)

section \<open>The contract\<close>

text \<open>A run of hits: the log of allowed hits, oldest first, and the final state.\<close>

fun run_hits ::
  "('k \<Rightarrow> int \<Rightarrow> 's \<Rightarrow> rate_result \<times> 's) \<Rightarrow> ('k \<times> int) list \<Rightarrow> 's \<Rightarrow> ('k \<times> int) list \<times> 's" where
  "run_hits hit [] s = ([], s)"
| "run_hits hit ((k, t) # hs) s =
     (case hit k t s of
        (Allowed, s') \<Rightarrow> (case run_hits hit hs s' of (l, s'') \<Rightarrow> ((k, t) # l, s''))
      | (Denied _, s') \<Rightarrow> run_hits hit hs s')"

locale rate_limiter =
  fixes hit :: "'k \<Rightarrow> int \<Rightarrow> 's \<Rightarrow> rate_result \<times> 's"
    and tracked :: "'s \<Rightarrow> nat"
    and inv :: "'s \<Rightarrow> bool"
    and cap :: nat
  assumes hit_inv: "inv s \<Longrightarrow> inv (snd (hit k t s))"
    and tracked_cap: "inv s \<Longrightarrow> tracked s \<le> cap"
    and retry_positive: "inv s \<Longrightarrow> fst (hit k t s) = Denied r \<Longrightarrow> 1 \<le> r"
begin

lemma run_inv: "inv s \<Longrightarrow> inv (snd (run_hits hit hs s))"
proof (induction hs arbitrary: s)
  case (Cons h hs)
  obtain k t where kt: "h = (k, t)" by (cases h)
  obtain r s' where h: "hit k t s = (r, s')" by (cases "hit k t s")
  have "inv s'" using hit_inv [OF Cons.prems, of k t] h by simp
  then show ?case using Cons.IH [of s'] kt h by (cases r) (auto split: prod.splits)
qed simp

lemma run_tracked: "inv s \<Longrightarrow> tracked (snd (run_hits hit hs s)) \<le> cap"
  by (rule tracked_cap) (rule run_inv)

end

section \<open>Token bucket\<close>

record token_bucket =
  lastRefillMs :: int
  tokens :: int

record token_limits =
  capacity :: int
  maxBuckets :: int
  refillIntervalMs :: int
  refillTokens :: int

text \<open>The options as \<open>createTokenBucketRateLimiter\<close> normalises them.\<close>

definition tokenBucketLimits :: "rat \<Rightarrow> rat \<Rightarrow> rat \<Rightarrow> rat \<Rightarrow> token_limits" where
  "tokenBucketLimits cap maxb interval refill =
     \<lparr> capacity = max 1 \<lfloor>cap\<rfloor>, maxBuckets = max 1 \<lfloor>maxb\<rfloor>,
       refillIntervalMs = max 1 \<lfloor>interval\<rfloor>, refillTokens = max 1 \<lfloor>refill\<rfloor> \<rparr>"

definition token_refill :: "token_limits \<Rightarrow> token_bucket \<Rightarrow> int \<Rightarrow> token_bucket" where
  "token_refill L bucket nowMs =
     (if nowMs \<le> lastRefillMs bucket then bucket
      else let elapsedIntervals = (nowMs - lastRefillMs bucket) div refillIntervalMs L in
        if elapsedIntervals \<le> 0 then bucket
        else bucket\<lparr> tokens := min (capacity L) (tokens bucket + elapsedIntervals * refillTokens L),
                     lastRefillMs := lastRefillMs bucket + elapsedIntervals * refillIntervalMs L \<rparr>)"

definition token_pruneIfNeeded ::
  "token_limits \<Rightarrow> (string, token_bucket) jsmap \<Rightarrow> (string, token_bucket) jsmap" where
  "token_pruneIfNeeded L buckets =
     (if int (length buckets) \<le> maxBuckets L then buckets
      else evict_oldest (nat (maxBuckets L)) buckets)"

definition token_hit ::
  "token_limits \<Rightarrow> string \<Rightarrow> int \<Rightarrow> (string, token_bucket) jsmap \<Rightarrow>
     rate_result \<times> (string, token_bucket) jsmap" where
  "token_hit L key nowMs buckets =
     (let bucket = token_refill L
            (case jm_get buckets key of
               None \<Rightarrow> \<lparr> lastRefillMs = nowMs, tokens = capacity L \<rparr>
             | Some b \<Rightarrow> b) nowMs in
      if tokens bucket \<le> 0 then
        let retryAfterMs = max 1 (lastRefillMs bucket + refillIntervalMs L - nowMs) in
        (Denied (ceil_div retryAfterMs 1000),
         token_pruneIfNeeded L (jm_set key bucket (jm_delete key buckets)))
      else
        (let bucket' = bucket\<lparr> tokens := tokens bucket - 1 \<rparr> in
         (Allowed, token_pruneIfNeeded L (jm_set key bucket' (jm_delete key buckets)))))"

definition token_size :: "(string, token_bucket) jsmap \<Rightarrow> nat" where
  "token_size buckets = length buckets"

definition token_limits_ok :: "token_limits \<Rightarrow> bool" where
  "token_limits_ok L =
     (1 \<le> capacity L \<and> 1 \<le> maxBuckets L \<and> 1 \<le> refillIntervalMs L \<and> 1 \<le> refillTokens L)"

lemma tokenBucketLimits_ok: "token_limits_ok (tokenBucketLimits a b c d)"
  by (simp add: token_limits_ok_def tokenBucketLimits_def)

definition bucket_ok :: "token_limits \<Rightarrow> token_bucket \<Rightarrow> bool" where
  "bucket_ok L b = (0 \<le> tokens b \<and> tokens b \<le> capacity L)"

definition token_inv :: "token_limits \<Rightarrow> (string, token_bucket) jsmap \<Rightarrow> bool" where
  "token_inv L buckets =
     (token_limits_ok L \<and> jm_wf buckets \<and> int (length buckets) \<le> maxBuckets L \<and>
      (\<forall>(k, b) \<in> set buckets. bucket_ok L b))"

lemma token_refill_ok:
  "token_limits_ok L \<Longrightarrow> bucket_ok L b \<Longrightarrow> bucket_ok L (token_refill L b nowMs)"
proof -
  assume ok: "token_limits_ok L" "bucket_ok L b"
  let ?e = "(nowMs - lastRefillMs b) div refillIntervalMs L"
  have "0 \<le> ?e * refillTokens L" if "0 < ?e"
    using that ok by (simp add: token_limits_ok_def)
  then show ?thesis
    using ok by (simp add: token_refill_def bucket_ok_def token_limits_ok_def Let_def)
qed

lemma token_pruneIfNeeded_evict:
  "1 \<le> maxBuckets L \<Longrightarrow> token_pruneIfNeeded L m = evict_oldest (nat (maxBuckets L)) m"
  by (simp add: token_pruneIfNeeded_def evict_oldest_noop nat_le_iff le_nat_iff)

text \<open>One hit, with the touched bucket named.\<close>

definition token_current ::
  "token_limits \<Rightarrow> string \<Rightarrow> int \<Rightarrow> (string, token_bucket) jsmap \<Rightarrow> token_bucket" where
  "token_current L key nowMs buckets =
     token_refill L (case jm_get buckets key of
        None \<Rightarrow> \<lparr> lastRefillMs = nowMs, tokens = capacity L \<rparr> | Some b \<Rightarrow> b) nowMs"

definition token_spend :: "token_bucket \<Rightarrow> token_bucket" where
  "token_spend b = (if tokens b \<le> 0 then b else b\<lparr> tokens := tokens b - 1 \<rparr>)"

lemma token_hit_eq:
  assumes "1 \<le> maxBuckets L"
  shows "token_hit L key nowMs buckets =
     (let b = token_current L key nowMs buckets in
      (if tokens b \<le> 0
       then Denied (ceil_div (max 1 (lastRefillMs b + refillIntervalMs L - nowMs)) 1000)
       else Allowed,
       evict_oldest (nat (maxBuckets L)) (jm_set key (token_spend b) (jm_delete key buckets))))"
  by (simp add: token_hit_def token_current_def [symmetric] token_spend_def Let_def
      token_pruneIfNeeded_evict [OF assms])

lemma token_current_ok:
  assumes "token_inv L m"
  shows "bucket_ok L (token_current L k t m)"
  unfolding token_current_def
  using assms
  by (intro token_refill_ok)
     (force simp: token_inv_def bucket_ok_def token_limits_ok_def dest: map_of_SomeD split: option.split)+

lemma token_spend_ok: "bucket_ok L b \<Longrightarrow> bucket_ok L (token_spend b)"
  by (auto simp: bucket_ok_def token_spend_def)

lemma token_hit_inv:
  assumes "token_inv L m"
  shows "token_inv L (snd (token_hit L k t m))"
proof -
  let ?b = "token_spend (token_current L k t m)"
  let ?m = "jm_set k ?b (jm_delete k m)"
  have ok: "token_limits_ok L" and wf: "jm_wf m" using assms by (auto simp: token_inv_def)
  have wf': "jm_wf ?m" using wf by (rule jm.wf_touch)
  have "\<forall>(j, b) \<in> set ?m. bucket_ok L b"
    using assms token_spend_ok [OF token_current_ok [OF assms]] set_delete_subset [of k m]
    unfolding jm_touch_snoc by (auto simp: token_inv_def)
  then have "\<forall>(j, b) \<in> set (evict_oldest (nat (maxBuckets L)) ?m). bucket_ok L b"
    using set_evict_oldest [OF wf'] by blast
  moreover have "1 \<le> maxBuckets L" using ok by (simp add: token_limits_ok_def)
  ultimately show ?thesis
    using ok length_evict_oldest [OF wf', of "nat (maxBuckets L)"] jm_wf_evict_oldest [OF wf']
    by (simp add: token_hit_eq Let_def token_inv_def)
qed

lemma token_denied_retry:
  "token_limits_ok L \<Longrightarrow> fst (token_hit L k t m) = Denied r \<Longrightarrow> 1 \<le> r"
  using ceil_div_pos [of 1000]
  by (auto simp: token_hit_eq token_limits_ok_def Let_def split: if_splits) (simp add: ceil_div_pos int_one_le_iff_zero_less)

lemma token_inv_empty: "token_limits_ok L \<Longrightarrow> token_inv L []"
  by (simp add: token_inv_def jm_wf_def token_limits_ok_def)

interpretation token: rate_limiter "token_hit L" token_size "token_inv L" "nat (maxBuckets L)"
  for L
proof (unfold_locales, goal_cases)
  case (1 m k t)
  then show ?case by (rule token_hit_inv)
next
  case (2 m)
  then show ?case by (simp add: token_inv_def token_size_def le_nat_iff)
next
  case (3 m k t r)
  then show ?case by (auto simp: token_inv_def intro: token_denied_retry)
qed

definition allowed_for :: "'k \<Rightarrow> ('k \<times> int) list \<Rightarrow> nat" where
  "allowed_for k hits = length (filter (\<lambda>e. fst e = k) hits)"

lemma length_le_card_keys: "jm_wf m \<Longrightarrow> length m = card (set (map fst m))"
  by (metis distinct_card jm_wf_def length_map)

text \<open>While there is room for every key, a hit changes its own bucket only.\<close>

lemma token_hit_room:
  assumes "token_inv L m" and room: "int (card (insert j (set (map fst m)))) \<le> maxBuckets L"
  shows "snd (token_hit L j t m) = jm_set j (token_spend (token_current L j t m)) (jm_delete j m)"
proof -
  let ?m = "jm_set j (token_spend (token_current L j t m)) (jm_delete j m)"
  have wf: "jm_wf m" and ok: "1 \<le> maxBuckets L"
    using assms(1) by (auto simp: token_inv_def token_limits_ok_def)
  have "length ?m = card (insert j (set (map fst m)))"
    using jm.wf_touch [OF wf] jm.set_keys_touch [OF wf] by (metis length_le_card_keys)
  then have "evict_oldest (nat (maxBuckets L)) ?m = ?m"
    using room ok by (intro evict_oldest_noop) (simp add: le_nat_iff)
  then show ?thesis by (simp add: token_hit_eq [OF ok] Let_def)
qed

lemma fst_token_hit:
  assumes "token_inv L m"
  shows "fst (token_hit L j t m) = Allowed \<longleftrightarrow> 0 < tokens (token_current L j t m)"
  using assms by (auto simp: token_hit_eq token_inv_def token_limits_ok_def Let_def)

text \<open>
  Refilling spends the elapsed intervals exactly once: the credit still available before
  \<open>tend\<close> never grows.
\<close>

definition credit :: "token_limits \<Rightarrow> int \<Rightarrow> token_bucket \<Rightarrow> int" where
  "credit L tend b = tokens b + refillTokens L * max 0 ((tend - lastRefillMs b) div refillIntervalMs L)"

lemma credit_refill:
  assumes ok: "token_limits_ok L" and "t \<le> tend"
  shows "credit L tend (token_refill L b t) \<le> credit L tend b"
proof -
  let ?e = "(t - lastRefillMs b) div refillIntervalMs L"
  let ?d = "(tend - lastRefillMs b) div refillIntervalMs L"
  have i: "0 < refillIntervalMs L" and r: "0 < refillTokens L"
    using ok by (auto simp: token_limits_ok_def)
  show ?thesis
  proof (cases "t \<le> lastRefillMs b \<or> ?e \<le> 0")
    case True
    then show ?thesis by (auto simp: token_refill_def Let_def)
  next
    case False
    have le: "?e \<le> ?d" using assms(2) i by (simp add: zdiv_mono1)
    have "(tend - (lastRefillMs b + ?e * refillIntervalMs L)) div refillIntervalMs L = ?d - ?e"
      using i div_mult_self1 [of "refillIntervalMs L" "tend - lastRefillMs b" "- ?e"]
      by (simp add: diff_diff_eq)
    moreover have "refillTokens L * ?e + refillTokens L * (?d - ?e) = refillTokens L * ?d"
      by (simp add: algebra_simps)
    ultimately show ?thesis
      using False le by (simp add: token_refill_def credit_def Let_def mult.commute min_le_iff_disj)
  qed
qed

lemma credit_spend:
  "credit L tend (token_spend b) = credit L tend b - (if 0 < tokens b then 1 else 0)"
  by (simp add: token_spend_def credit_def)

lemma credit_nonneg: "token_limits_ok L \<Longrightarrow> bucket_ok L b \<Longrightarrow> 0 \<le> credit L tend b"
  by (simp add: credit_def bucket_ok_def token_limits_ok_def)

lemma token_run_credit:
  assumes "token_inv L m" and "jm_get m k = Some b" and "\<forall>(j, t) \<in> set hs. t \<le> tend"
    and "int (card (set (map fst m) \<union> fst ` set hs)) \<le> maxBuckets L"
  shows "int (allowed_for k (fst (run_hits (token_hit L) hs m))) \<le> credit L tend b"
  using assms
proof (induction hs arbitrary: m b)
  case Nil
  have "(k, b) \<in> set m" using Nil.prems(2) by (rule map_of_SomeD)
  then show ?case
    using Nil.prems(1) credit_nonneg [of L b tend] by (auto simp: allowed_for_def token_inv_def)
next
  case (Cons h hs)
  obtain j t where h: "h = (j, t)" by (cases h)
  let ?c = "token_current L j t m"
  let ?m = "jm_set j (token_spend ?c) (jm_delete j m)"
  have "card (insert j (set (map fst m))) \<le> card (set (map fst m) \<union> fst ` set (h # hs))"
    using h by (intro card_mono) auto
  then have m': "snd (token_hit L j t m) = ?m"
    using token_hit_room [OF Cons.prems(1), of j t] Cons.prems(4) by simp
  have wf: "jm_wf m" using Cons.prems(1) by (simp add: token_inv_def)
  have inv': "token_inv L ?m" using token_hit_inv [OF Cons.prems(1), of j t] m' by simp
  have keys: "set (map fst ?m) = insert j (set (map fst m))" by (rule jm.set_keys_touch [OF wf])
  have room: "int (card (set (map fst ?m) \<union> fst ` set hs)) \<le> maxBuckets L"
    using Cons.prems(4) h unfolding keys by simp
  have times: "\<forall>(j, t) \<in> set hs. t \<le> tend" and "t \<le> tend" using Cons.prems(3) h by auto
  define b' where "b' = (if j = k then token_spend ?c else b)"
  have look: "jm_get ?m k = Some b'"
    using Cons.prems(2) by (auto simp: b'_def jm.lookup_touch [OF wf])
  have IH: "int (allowed_for k (fst (run_hits (token_hit L) hs ?m))) \<le> credit L tend b'"
    by (rule Cons.IH [OF inv' look times room])
  have ok: "token_limits_ok L" using Cons.prems(1) by (simp add: token_inv_def)
  have cr: "credit L tend ?c \<le> credit L tend b" if "j = k"
    using credit_refill [OF ok \<open>t \<le> tend\<close>, of b] that Cons.prems(2) by (simp add: token_current_def)
  show ?case
  proof (cases "fst (token_hit L j t m)")
    case Allowed
    then have "token_hit L j t m = (Allowed, ?m)" and "0 < tokens ?c"
      using m' fst_token_hit [OF Cons.prems(1)] by (auto simp: prod_eq_iff)
    then show ?thesis
      using IH cr h by (auto simp: b'_def credit_spend allowed_for_def split: prod.splits if_splits)
  next
    case (Denied r)
    then have "token_hit L j t m = (Denied r, ?m)" and "\<not> 0 < tokens ?c"
      using m' fst_token_hit [OF Cons.prems(1), of j t] by (auto simp: prod_eq_iff)
    then show ?thesis
      using IH cr h by (auto simp: b'_def credit_spend split: if_splits)
  qed
qed

text \<open>
  C39. The token bucket's rate bound: from the first hit of a key at \<open>t0\<close> up to \<open>tend\<close>, whatever
  the interleaving with other keys (as long as there is room for them all), at most
  \<open>capacity + refillTokens * floor((tend - t0) / refillIntervalMs)\<close> of its hits are allowed.
\<close>

theorem token_bucket_rate_bound:
  assumes "token_inv L m" and "k \<notin> set (map fst m)"
    and "\<forall>(j, t) \<in> set hs. t \<le> tend" and "t0 \<le> tend"
    and "int (card (set (map fst m) \<union> insert k (fst ` set hs))) \<le> maxBuckets L"
  shows "int (allowed_for k (fst (run_hits (token_hit L) ((k, t0) # hs) m)))
           \<le> capacity L + refillTokens L * ((tend - t0) div refillIntervalMs L)"
proof -
  let ?b = "\<lparr> lastRefillMs = t0, tokens = capacity L \<rparr>"
  have ok: "token_limits_ok L" using assms(1) by (simp add: token_inv_def)
  have wf: "jm_wf m" using assms(1) by (simp add: token_inv_def)
  have "jm_get m k = None" using assms(2) by (simp add: map_of_eq_None_iff)
  then have cur: "token_current L k t0 m = ?b"
    by (simp add: token_current_def token_refill_def)
  have room0: "int (card (insert k (set (map fst m)))) \<le> maxBuckets L"
    using assms(5) card_mono [of "set (map fst m) \<union> insert k (fst ` set hs)" "insert k (set (map fst m))"]
    by fastforce
  let ?m = "jm_set k (token_spend ?b) (jm_delete k m)"
  have hit: "token_hit L k t0 m = (Allowed, ?m)"
    using fst_token_hit [OF assms(1), of k t0] token_hit_room [OF assms(1) room0, of t0] cur ok
    by (simp add: prod_eq_iff token_limits_ok_def)
  have keys: "set (map fst ?m) = insert k (set (map fst m))" by (rule jm.set_keys_touch [OF wf])
  have "int (allowed_for k (fst (run_hits (token_hit L) hs ?m))) \<le> credit L tend (token_spend ?b)"
  proof (rule token_run_credit)
    show "token_inv L ?m" using token_hit_inv [OF assms(1), of k t0] hit by simp
    show "jm_get ?m k = Some (token_spend ?b)" by (simp add: jm.lookup_touch [OF wf])
    show "int (card (set (map fst ?m) \<union> fst ` set hs)) \<le> maxBuckets L"
      using assms(5) unfolding keys by simp
  qed (rule assms(3))
  moreover have "0 \<le> (tend - t0) div refillIntervalMs L"
    using ok assms(4) by (simp add: token_limits_ok_def pos_imp_zdiv_nonneg_iff)
  ultimately show ?thesis
    using hit ok by (auto simp: allowed_for_def credit_def token_spend_def token_limits_ok_def split: prod.splits)
qed

lemma token_bucket_rate_bound_witness:
  "int (allowed_for ''a'' (fst (run_hits (token_hit (tokenBucketLimits 2 4 10 1))
      [(''a'', 0), (''b'', 1), (''a'', 5), (''a'', 7), (''a'', 10)] []))) \<le> 2 + 1 * (10 div 10)"
proof -
  let ?L = "tokenBucketLimits 2 4 10 1"
  have inv: "token_inv ?L []" by (rule token_inv_empty) (rule tokenBucketLimits_ok)
  have card: "card (insert ''a'' (fst ` set [(''b'', 1 :: int), (''a'', 5), (''a'', 7), (''a'', 10)])) = 2"
    by (simp add: card_insert_if)
  show ?thesis
    using token_bucket_rate_bound [OF inv, of "''a''" "[(''b'', 1), (''a'', 5), (''a'', 7), (''a'', 10)]" 10 0]
      card by (simp add: tokenBucketLimits_def)
qed

text \<open>
  A denial of the token bucket tells the truth: the caller that waits \<open>retryAfterSeconds\<close>
  is let through, even if the wall clock stood before the last refill when it was denied.
\<close>

theorem token_retry_after_honoured:
  assumes "token_inv L m" and "token_hit L k t m = (Denied r, m')" and "t + 1000 * r \<le> t'"
  shows "fst (token_hit L k t' m') = Allowed"
proof -
  let ?c = "token_current L k t m"
  have ok: "token_limits_ok L" and wf: "jm_wf m" using assms(1) by (auto simp: token_inv_def)
  then have pos: "1 \<le> maxBuckets L" "0 < refillIntervalMs L" "0 < refillTokens L" "0 < capacity L"
    by (auto simp: token_limits_ok_def)
  have none: "tokens ?c \<le> 0"
    and r: "r = ceil_div (max 1 (lastRefillMs ?c + refillIntervalMs L - t)) 1000"
    and m': "m' = evict_oldest (nat (maxBuckets L)) (jm_set k (token_spend ?c) (jm_delete k m))"
    using assms(2) token_hit_eq [OF pos(1), of k t m] by (auto simp: Let_def split: if_splits)
  have "max 1 (lastRefillMs ?c + refillIntervalMs L - t) \<le> r * 1000"
    unfolding r by (rule ceil_div_mult_ge) simp
  then have due: "lastRefillMs ?c + refillIntervalMs L \<le> t'" using assms(3) by linarith
  have "jm_get m' k = Some ?c"
    using evict_keeps_touched [OF wf, of "nat (maxBuckets L)" k "token_spend ?c"] m' none pos
    by (simp add: token_spend_def)
  then have cur: "token_current L k t' m' = token_refill L ?c t'" by (simp add: token_current_def)
  have "1 \<le> (t' - lastRefillMs ?c) div refillIntervalMs L"
    using due pos by (simp add: pos_imp_zdiv_pos_iff int_one_le_iff_zero_less)
  moreover from this have "1 \<le> (t' - lastRefillMs ?c) div refillIntervalMs L * refillTokens L"
    using pos by (metis int_one_le_iff_zero_less mult_pos_pos zero_less_mult_iff)
  moreover have "0 \<le> tokens ?c" using token_current_ok [OF assms(1)] by (simp add: bucket_ok_def)
  moreover have "lastRefillMs ?c < t'" using due pos by linarith
  ultimately have "0 < tokens (token_current L k t' m')"
    using pos unfolding cur by (simp add: token_refill_def Let_def)
  moreover have "token_inv L m'" using token_hit_inv [OF assms(1), of k t] assms(2) by simp
  ultimately show ?thesis by (simp add: fst_token_hit)
qed

lemma token_retry_after_honoured_witness:
  "fst (token_hit (tokenBucketLimits 1 1 1000 1) ''a'' 1001 [(''a'', \<lparr> lastRefillMs = 0, tokens = 0 \<rparr>)])
     = Allowed"
proof -
  let ?L = "tokenBucketLimits 1 1 1000 1"
  let ?m = "[(''a'', \<lparr> lastRefillMs = 0, tokens = 0 \<rparr>)]"
  have "token_inv ?L ?m"
    by (simp add: token_inv_def jm_wf_def tokenBucketLimits_def token_limits_ok_def bucket_ok_def)
  moreover have "token_hit ?L ''a'' 1 ?m = (Denied 1, ?m)"
    by (simp add: token_hit_def token_refill_def tokenBucketLimits_def ceil_div_def
        token_pruneIfNeeded_def AList.delete_eq)
  ultimately show ?thesis by (rule token_retry_after_honoured) simp
qed

section \<open>Sliding log of accepted requests (the fixed-window limiter)\<close>

record window_limits =
  maxBuckets :: int
  maxRequests :: int
  windowMs :: int

definition fixedWindowLimits :: "rat \<Rightarrow> rat \<Rightarrow> rat \<Rightarrow> window_limits" where
  "fixedWindowLimits maxb reqs window =
     \<lparr> maxBuckets = max 1 \<lfloor>maxb\<rfloor>, maxRequests = max 1 \<lfloor>reqs\<rfloor>, windowMs = max 1 \<lfloor>window\<rfloor> \<rparr>"

text \<open>The index loop of \<open>prune\<close>: the first timestamp later than the cutoff.\<close>

fun firstRecentIndex :: "int \<Rightarrow> int list \<Rightarrow> nat" where
  "firstRecentIndex cutoffMs [] = 0"
| "firstRecentIndex cutoffMs (t # ts) = (if t \<le> cutoffMs then Suc (firstRecentIndex cutoffMs ts) else 0)"

text \<open>
  The pass over the map deletes an entry whose timestamps are all old and otherwise drops its
  old prefix (\<open>copyWithin\<close> and the shorter \<open>length\<close>), in place; then the oldest keys go until the
  cap holds.
\<close>

fun window_pruneEntries :: "int \<Rightarrow> (string, int list) jsmap \<Rightarrow> (string, int list) jsmap" where
  "window_pruneEntries cutoffMs [] = []"
| "window_pruneEntries cutoffMs ((key, timestamps) # rest) =
     (let i = firstRecentIndex cutoffMs timestamps in
      if i \<ge> length timestamps then window_pruneEntries cutoffMs rest
      else if i > 0 then (key, drop i timestamps) # window_pruneEntries cutoffMs rest
      else (key, timestamps) # window_pruneEntries cutoffMs rest)"

definition window_prune :: "window_limits \<Rightarrow> int \<Rightarrow> (string, int list) jsmap \<Rightarrow> (string, int list) jsmap" where
  "window_prune L nowMs buckets =
     evict_oldest (nat (window_limits.maxBuckets L)) (window_pruneEntries (nowMs - windowMs L) buckets)"

definition window_hit ::
  "window_limits \<Rightarrow> string \<Rightarrow> int \<Rightarrow> (string, int list) jsmap \<Rightarrow>
     rate_result \<times> (string, int list) jsmap" where
  "window_hit L key nowMs buckets =
     (let buckets1 = window_prune L nowMs buckets;
          recent = (case jm_get buckets1 key of None \<Rightarrow> [] | Some ts \<Rightarrow> ts) in
      if int (length recent) \<ge> maxRequests L then
        let oldest = (case recent of [] \<Rightarrow> nowMs | t # _ \<Rightarrow> t) in
        (Denied (max 1 (ceil_div (oldest + windowMs L - nowMs) 1000)), buckets1)
      else
        (Allowed, window_prune L nowMs (jm_set key (recent @ [nowMs]) (jm_delete key buckets1))))"

definition window_size :: "(string, int list) jsmap \<Rightarrow> nat" where
  "window_size buckets = length buckets"

definition window_limits_ok :: "window_limits \<Rightarrow> bool" where
  "window_limits_ok L = (1 \<le> window_limits.maxBuckets L \<and> 1 \<le> maxRequests L \<and> 1 \<le> windowMs L)"

lemma fixedWindowLimits_ok: "window_limits_ok (fixedWindowLimits a b c)"
  by (simp add: window_limits_ok_def fixedWindowLimits_def)

definition window_inv :: "window_limits \<Rightarrow> (string, int list) jsmap \<Rightarrow> bool" where
  "window_inv L buckets =
     (window_limits_ok L \<and> jm_wf buckets \<and> int (length buckets) \<le> window_limits.maxBuckets L \<and>
      (\<forall>(k, ts) \<in> set buckets. ts \<noteq> [] \<and> int (length ts) \<le> maxRequests L))"

lemma drop_firstRecentIndex: "drop (firstRecentIndex c ts) ts = dropWhile (\<lambda>t. t \<le> c) ts"
  by (induction ts) auto

lemma firstRecentIndex_all: "length ts \<le> firstRecentIndex c ts \<longleftrightarrow> dropWhile (\<lambda>t. t \<le> c) ts = []"
  by (induction ts) auto

text \<open>One entry after pruning, as a lookup.\<close>

definition keep_recent :: "int \<Rightarrow> int list \<Rightarrow> int list option" where
  "keep_recent c ts = (let r = dropWhile (\<lambda>t. t \<le> c) ts in if r = [] then None else Some r)"

lemma window_pruneEntries_Cons:
  "window_pruneEntries c ((k, ts) # m) =
     (case keep_recent c ts of None \<Rightarrow> window_pruneEntries c m | Some r \<Rightarrow> (k, r) # window_pruneEntries c m)"
  using firstRecentIndex_all [of ts c] drop_firstRecentIndex [of c ts]
  by (auto simp: keep_recent_def Let_def)

declare window_pruneEntries.simps(2) [simp del]
declare window_pruneEntries_Cons [simp]

lemma keys_pruneEntries: "set (map fst (window_pruneEntries c m)) \<subseteq> set (map fst m)"
proof (induction m)
  case (Cons e m)
  then show ?case by (cases e; cases "keep_recent c (snd e)") (simp_all, blast+)
qed simp

lemma length_pruneEntries: "length (window_pruneEntries c m) \<le> length m"
  by (induction m) (auto split: option.splits)

lemma pruneEntries_fresh:
  "j \<notin> set (map fst m) \<Longrightarrow> j \<notin> set (map fst (window_pruneEntries c m))"
  using keys_pruneEntries [of c m] by blast

lemma wf_pruneEntries: "jm_wf m \<Longrightarrow> jm_wf (window_pruneEntries c m)"
proof (induction m)
  case (Cons e m)
  obtain j ts where e: "e = (j, ts)" by (cases e)
  have "j \<notin> set (map fst (window_pruneEntries c m))"
    using Cons.prems pruneEntries_fresh [of j m c] e by (simp add: jm_wf_def)
  then show ?case using Cons e by (cases "keep_recent c ts") (simp_all add: jm_wf_def)
qed (simp add: jm_wf_def)

lemma get_pruneEntries:
  "jm_wf m \<Longrightarrow> jm_get (window_pruneEntries c m) k = Option.bind (jm_get m k) (keep_recent c)"
proof (induction m)
  case (Cons e m)
  obtain j ts where e: "e = (j, ts)" by (cases e)
  have "j \<notin> set (map fst (window_pruneEntries c m))"
    using Cons.prems pruneEntries_fresh [of j m c] e by (simp add: jm_wf_def)
  then have "jm_get (window_pruneEntries c m) j = None" by (simp add: map_of_eq_None_iff)
  moreover have "jm_get (window_pruneEntries c m) k = Option.bind (jm_get m k) (keep_recent c)"
    using Cons by (simp add: jm_wf_def)
  ultimately show ?case using e by (cases "keep_recent c ts"; cases "k = j") simp_all
qed simp

lemma set_pruneEntries:
  "(k, r) \<in> set (window_pruneEntries c m) \<Longrightarrow> \<exists>ts. (k, ts) \<in> set m \<and> keep_recent c ts = Some r"
proof (induction m)
  case (Cons e m)
  then show ?case by (cases e; cases "keep_recent c (snd e)") (simp_all, (metis+))
qed simp

lemma keep_recent_props:
  "keep_recent c ts = Some r \<Longrightarrow> r \<noteq> [] \<and> length r \<le> length ts"
  by (auto simp: keep_recent_def Let_def length_dropWhile_le split: if_splits)

lemma window_prune_inv:
  assumes "window_limits_ok L" and "jm_wf m"
    and "\<forall>(k, ts) \<in> set m. ts \<noteq> [] \<and> int (length ts) \<le> maxRequests L"
  shows "window_inv L (window_prune L nowMs m)"
proof -
  let ?p = "window_pruneEntries (nowMs - windowMs L) m"
  let ?n = "nat (window_limits.maxBuckets L)"
  have wf: "jm_wf ?p" using assms(2) by (rule wf_pruneEntries)
  have "r \<noteq> [] \<and> int (length r) \<le> maxRequests L" if "(k, r) \<in> set ?p" for k r
    using set_pruneEntries [OF that] keep_recent_props assms(3) by fastforce
  then have "\<forall>(k, ts) \<in> set (evict_oldest ?n ?p). ts \<noteq> [] \<and> int (length ts) \<le> maxRequests L"
    using set_evict_oldest [OF wf, of ?n] by blast
  moreover have "int (length (evict_oldest ?n ?p)) \<le> window_limits.maxBuckets L"
    using length_evict_oldest [OF wf, of ?n] assms(1) by (simp add: window_limits_ok_def le_nat_iff)
  ultimately show ?thesis
    using assms(1) jm_wf_evict_oldest [OF wf] by (simp add: window_inv_def window_prune_def)
qed

lemma window_prune_inv': "window_inv L m \<Longrightarrow> window_inv L (window_prune L nowMs m)"
  by (rule window_prune_inv) (auto simp: window_inv_def)

definition window_recent :: "window_limits \<Rightarrow> string \<Rightarrow> int \<Rightarrow> (string, int list) jsmap \<Rightarrow> int list" where
  "window_recent L k t m = (case jm_get (window_prune L t m) k of None \<Rightarrow> [] | Some ts \<Rightarrow> ts)"

lemma window_hit_eq:
  "window_hit L k t m =
     (if maxRequests L \<le> int (length (window_recent L k t m))
      then (Denied (max 1 (ceil_div ((case window_recent L k t m of [] \<Rightarrow> t | u # _ \<Rightarrow> u) + windowMs L - t) 1000)),
            window_prune L t m)
      else (Allowed, window_prune L t (jm_set k (window_recent L k t m @ [t])
                                         (jm_delete k (window_prune L t m)))))"
  by (simp add: window_hit_def window_recent_def Let_def)

lemma window_hit_inv:
  assumes "window_inv L m"
  shows "window_inv L (snd (window_hit L k t m))"
proof (cases "maxRequests L \<le> int (length (window_recent L k t m))")
  case True
  then show ?thesis using window_prune_inv' [OF assms] by (simp add: window_hit_eq)
next
  case False
  let ?p = "window_prune L t m"
  let ?ts = "window_recent L k t m @ [t]"
  have p: "window_inv L ?p" by (rule window_prune_inv' [OF assms])
  then have wf: "jm_wf ?p" by (simp add: window_inv_def)
  have "\<forall>(j, ts) \<in> set (jm_set k ?ts (jm_delete k ?p)). ts \<noteq> [] \<and> int (length ts) \<le> maxRequests L"
    using p False set_delete_subset [of k ?p] unfolding jm_touch_snoc by (auto simp: window_inv_def)
  then have "window_inv L (window_prune L t (jm_set k ?ts (jm_delete k ?p)))"
    using p jm.wf_touch [OF wf] by (intro window_prune_inv) (auto simp: window_inv_def)
  then show ?thesis using False by (simp add: window_hit_eq)
qed

interpretation window: rate_limiter "window_hit L" window_size "window_inv L"
  "nat (window_limits.maxBuckets L)" for L
proof (unfold_locales, goal_cases)
  case (1 m k t)
  then show ?case by (rule window_hit_inv)
next
  case (2 m)
  then show ?case by (simp add: window_inv_def window_size_def le_nat_iff)
next
  case (3 m k t r)
  then show ?case by (auto simp: window_hit_eq split: if_splits)
qed

lemma window_inv_empty: "window_limits_ok L \<Longrightarrow> window_inv L []"
  by (simp add: window_inv_def jm_wf_def window_limits_ok_def)

text \<open>
  Bounded memory: from empty, no run of hits, over however many keys and with whatever
  clock, makes either limiter track more keys than its \<open>maxBuckets\<close>, and no bucket leaves its
  range.
\<close>

theorem rate_limiters_bounded:
  "token_size (snd (run_hits (token_hit (tokenBucketLimits a b c d)) hs []))
     \<le> nat (max 1 \<lfloor>b\<rfloor>)
   \<and> token_inv (tokenBucketLimits a b c d) (snd (run_hits (token_hit (tokenBucketLimits a b c d)) hs []))
   \<and> window_size (snd (run_hits (window_hit (fixedWindowLimits b p w)) hs []))
     \<le> nat (max 1 \<lfloor>b\<rfloor>)
   \<and> window_inv (fixedWindowLimits b p w) (snd (run_hits (window_hit (fixedWindowLimits b p w)) hs []))"
proof -
  have "token_limits.maxBuckets (tokenBucketLimits a b c d) = max 1 \<lfloor>b\<rfloor>"
    and "window_limits.maxBuckets (fixedWindowLimits b p w) = max 1 \<lfloor>b\<rfloor>"
    by (simp_all add: tokenBucketLimits_def fixedWindowLimits_def)
  then show ?thesis
    using token.run_tracked [OF token_inv_empty [OF tokenBucketLimits_ok]]
      token.run_inv [OF token_inv_empty [OF tokenBucketLimits_ok]]
      window.run_tracked [OF window_inv_empty [OF fixedWindowLimits_ok]]
      window.run_inv [OF window_inv_empty [OF fixedWindowLimits_ok]]
    by metis
qed

subsection \<open>The sliding-window guarantee\<close>

definition stored :: "(string, int list) jsmap \<Rightarrow> string \<Rightarrow> int list" where
  "stored m k = (case jm_get m k of None \<Rightarrow> [] | Some ts \<Rightarrow> ts)"

definition after :: "int \<Rightarrow> int list \<Rightarrow> int list" where
  "after c ts = filter (\<lambda>a. c < a) ts"

lemma dropWhile_after: "sorted ts \<Longrightarrow> dropWhile (\<lambda>t. t \<le> c) ts = after c ts"
proof (induction ts)
  case (Cons a ts)
  then have "c < a \<Longrightarrow> filter (\<lambda>x. c < x) ts = ts" by (intro filter_True) auto
  then show ?case using Cons by (simp add: after_def)
qed (simp add: after_def)

lemma after_after: "c \<le> d \<Longrightarrow> after d (after c ts) = after d ts"
  by (auto simp: after_def intro: filter_cong)

lemma sorted_after: "sorted ts \<Longrightarrow> sorted (after c ts)"
  by (simp add: after_def sorted_wrt_filter)

lemma stored_pruneEntries:
  "jm_wf m \<Longrightarrow> stored (window_pruneEntries c m) k = dropWhile (\<lambda>t. t \<le> c) (stored m k)"
proof (cases "jm_get m k")
  case (Some ts)
  assume "jm_wf m"
  then show ?thesis
    using Some by (cases "dropWhile (\<lambda>t. t \<le> c) ts = []")
      (simp_all add: stored_def get_pruneEntries keep_recent_def Let_def del: dropWhile_eq_Nil_conv)
qed (simp add: stored_def get_pruneEntries)

lemma window_prune_room:
  assumes "jm_wf m" and "int (card (set (map fst m))) \<le> window_limits.maxBuckets L"
  shows "window_prune L t m = window_pruneEntries (t - windowMs L) m"
proof -
  have "length (window_pruneEntries (t - windowMs L) m) \<le> card (set (map fst m))"
    using length_pruneEntries [of "t - windowMs L" m] length_le_card_keys [OF assms(1)] by simp
  then show ?thesis
    using assms(2) by (simp add: window_prune_def evict_oldest_noop le_nat_iff)
qed

text \<open>A hit while there is room for every key: both prunings only drop old timestamps.\<close>

lemma window_hit_room:
  fixes t :: int
  assumes inv: "window_inv L m"
    and room: "int (card (insert j (set (map fst m)))) \<le> window_limits.maxBuckets L"
  defines "c \<equiv> t - windowMs L"
  defines "p \<equiv> window_pruneEntries c m"
  defines "ts \<equiv> dropWhile (\<lambda>u. u \<le> c) (stored m j)"
  defines "q \<equiv> jm_set j (ts @ [t]) (jm_delete j p)"
  shows "window_recent L j t m = ts"
    and "snd (window_hit L j t m) =
           (if fst (window_hit L j t m) = Allowed then window_pruneEntries c q else p)"
    and "jm_wf p" and "set (map fst q) \<subseteq> insert j (set (map fst m))"
proof -
  have wf: "jm_wf m" using inv by (simp add: window_inv_def)
  show wfp: "jm_wf p" unfolding p_def by (rule wf_pruneEntries [OF wf])
  have "card (set (map fst m)) \<le> card (insert j (set (map fst m)))" by (rule card_mono) auto
  then have prune: "window_prune L t m = p"
    using room unfolding p_def c_def by (intro window_prune_room [OF wf]) linarith
  then show recent: "window_recent L j t m = ts"
    using stored_pruneEntries [OF wf, of c j]
    by (simp add: window_recent_def stored_def p_def ts_def)
  show keysq: "set (map fst q) \<subseteq> insert j (set (map fst m))"
    using jm.set_keys_touch [OF wfp] keys_pruneEntries [of c m] unfolding q_def p_def by blast
  then have "card (set (map fst q)) \<le> card (insert j (set (map fst m)))" by (intro card_mono) auto
  moreover have "jm_wf q" unfolding q_def by (rule jm.wf_touch [OF wfp])
  ultimately have "window_prune L t q = window_pruneEntries c q"
    using room unfolding c_def by (intro window_prune_room) linarith+
  then show "snd (window_hit L j t m) =
           (if fst (window_hit L j t m) = Allowed then window_pruneEntries c q else p)"
    unfolding window_hit_eq recent prune q_def by (simp split: if_split)
qed

lemma window_hit_keys:
  assumes "window_inv L m"
    and "int (card (insert j (set (map fst m)))) \<le> window_limits.maxBuckets L"
  shows "set (map fst (snd (window_hit L j t m))) \<subseteq> insert j (set (map fst m))"
  using window_hit_room(2,4) [OF assms, of t] keys_pruneEntries [of "t - windowMs L"]
  by (metis (no_types, lifting) order_trans subset_insertI)

lemma window_hit_stored:
  fixes t :: int and k :: string
  assumes "window_inv L m"
    and "int (card (insert j (set (map fst m)))) \<le> window_limits.maxBuckets L"
  defines "c \<equiv> t - windowMs L"
  defines "old \<equiv> dropWhile (\<lambda>u. u \<le> c) (stored m k)"
  shows "stored (snd (window_hit L j t m)) k =
           (if j = k \<and> fst (window_hit L j t m) = Allowed
            then dropWhile (\<lambda>u. u \<le> c) (old @ [t]) else old)"
proof -
  let ?p = "window_pruneEntries c m"
  let ?q = "jm_set j (dropWhile (\<lambda>u. u \<le> c) (stored m j) @ [t]) (jm_delete j ?p)"
  note room = window_hit_room [OF assms(1,2), of t, folded c_def]
  have wf: "jm_wf m" using assms(1) by (simp add: window_inv_def)
  have p: "stored ?p k = old" unfolding old_def by (rule stored_pruneEntries [OF wf])
  have q: "stored ?q k = (if j = k then old @ [t] else old)"
    using p unfolding old_def by (simp add: stored_def jm.lookup_touch [OF room(3)])
  have "dropWhile (\<lambda>u. u \<le> c) old = old" unfolding old_def by (rule dropWhile_idem)
  moreover have "stored (window_pruneEntries c ?q) k = dropWhile (\<lambda>u. u \<le> c) (stored ?q k)"
    by (rule stored_pruneEntries) (rule jm.wf_touch [OF room(3)])
  ultimately show ?thesis
    using p q unfolding room(2) by (cases "j = k") simp_all
qed

text \<open>
  The history of a key: the times at which it was let through. \<open>window_hist\<close> relates it to what
  the limiter still stores, and \<open>in_window\<close> counts it in a window.
\<close>

definition in_window :: "int \<Rightarrow> int \<Rightarrow> int list \<Rightarrow> nat" where
  "in_window w t ts = length (filter (\<lambda>a. t - w < a \<and> a \<le> t) ts)"

definition window_hist :: "window_limits \<Rightarrow> int \<Rightarrow> int list \<Rightarrow> int list \<Rightarrow> bool" where
  "window_hist L now A S =
     (sorted S \<and> sorted A \<and> (\<forall>a \<in> set A. a \<le> now) \<and>
      after (now - windowMs L) S = after (now - windowMs L) A \<and>
      (\<forall>t. int (in_window (windowMs L) t A) \<le> maxRequests L))"

lemma window_hist_prune:
  assumes "window_hist L now A S" and "now \<le> t"
  shows "dropWhile (\<lambda>u. u \<le> t - windowMs L) S = after (t - windowMs L) A"
proof -
  have le: "now - windowMs L \<le> t - windowMs L" using assms(2) by simp
  have "dropWhile (\<lambda>u. u \<le> t - windowMs L) S = after (t - windowMs L) S"
    using assms(1) by (simp add: window_hist_def dropWhile_after)
  also have "\<dots> = after (t - windowMs L) A"
    using assms(1) after_after [OF le, of S] after_after [OF le, of A] by (simp add: window_hist_def)
  finally show ?thesis .
qed

lemma window_hist_keep:
  assumes "window_hist L now A S" and "now \<le> t"
  shows "window_hist L t A (after (t - windowMs L) A)"
  using assms by (auto simp: window_hist_def sorted_after after_after)

lemma in_window_snoc_le:
  assumes "\<forall>a \<in> set A. a \<le> t"
  shows "in_window w u (A @ [t]) \<le> (if t \<le> u then Suc (length (after (t - w) A)) else in_window w u A)"
proof (cases "t \<le> u")
  case True
  have "length (filter (\<lambda>a. u - w < a \<and> a \<le> u) A) \<le> length (filter (\<lambda>a. t - w < a) A)"
    using True by (induction A) auto
  then show ?thesis using True by (simp add: in_window_def after_def)
qed (simp add: in_window_def)

lemma window_hist_push:
  assumes h: "window_hist L now A S" and "now \<le> t" and "0 < windowMs L"
    and room: "int (length (after (t - windowMs L) A)) < maxRequests L"
  shows "window_hist L t (A @ [t]) (after (t - windowMs L) A @ [t])"
proof -
  have le: "\<forall>a \<in> set A. a \<le> t" using assms(1,2) by (auto simp: window_hist_def)
  have bound: "int (in_window (windowMs L) u (A @ [t])) \<le> maxRequests L" for u
  proof (cases "t \<le> u")
    case True
    then show ?thesis using in_window_snoc_le [OF le, of "windowMs L" u] room by simp
  next
    case False
    have "int (in_window (windowMs L) u A) \<le> maxRequests L" using h by (simp add: window_hist_def)
    then show ?thesis using False in_window_snoc_le [OF le, of "windowMs L" u] by simp
  qed
  have "after (t - windowMs L) (after (t - windowMs L) A @ [t]) = after (t - windowMs L) (A @ [t])"
    by (simp add: after_def)
  moreover have "sorted (A @ [t])" and "sorted (after (t - windowMs L) A @ [t])"
    using h le by (auto simp: window_hist_def sorted_append sorted_after) (auto simp: after_def)
  ultimately show ?thesis using le bound by (simp add: window_hist_def)
qed

lemma window_run_hist:
  assumes "window_inv L m" and "window_hist L now A (stored m k)"
    and "sorted (now # map snd hs)"
    and "int (card (set (map fst m) \<union> fst ` set hs)) \<le> window_limits.maxBuckets L"
  shows "int (in_window (windowMs L) u
          (A @ map snd (filter (\<lambda>e. fst e = k) (fst (run_hits (window_hit L) hs m))))) \<le> maxRequests L"
  using assms
proof (induction hs arbitrary: m A now)
  case Nil
  then show ?case by (simp add: window_hist_def)
next
  case (Cons h hs)
  obtain j t where h: "h = (j, t)" by (cases h)
  have le: "now \<le> t" and srt: "sorted (t # map snd hs)" using Cons.prems(3) h by auto
  have "card (insert j (set (map fst m))) \<le> card (set (map fst m) \<union> fst ` set (h # hs))"
    using h by (intro card_mono) auto
  then have room: "int (card (insert j (set (map fst m)))) \<le> window_limits.maxBuckets L"
    using Cons.prems(4) by linarith
  obtain res m' where hit: "window_hit L j t m = (res, m')" by (cases "window_hit L j t m")
  have inv': "window_inv L m'" using window_hit_inv [OF Cons.prems(1), of j t] hit by simp
  have "set (map fst m') \<subseteq> insert j (set (map fst m))"
    using window_hit_keys [OF Cons.prems(1) room, of t] hit by simp
  then have "card (set (map fst m') \<union> fst ` set hs) \<le> card (set (map fst m) \<union> fst ` set (h # hs))"
    using h by (intro card_mono) auto
  then have room': "int (card (set (map fst m') \<union> fst ` set hs)) \<le> window_limits.maxBuckets L"
    using Cons.prems(4) by linarith
  have w: "0 < windowMs L" using Cons.prems(1) by (simp add: window_inv_def window_limits_ok_def)
  let ?r = "after (t - windowMs L) A"
  have old: "dropWhile (\<lambda>u. u \<le> t - windowMs L) (stored m k) = ?r"
    by (rule window_hist_prune [OF Cons.prems(2) le])
  note st = window_hit_stored [OF Cons.prems(1) room, of t k, unfolded old hit fst_conv snd_conv]
  show ?case
  proof (cases "j = k \<and> res = Allowed")
    case True
    have "window_recent L k t m = ?r"
      using window_hit_room(1) [OF Cons.prems(1) room, of t] old True by simp
    then have "int (length ?r) < maxRequests L"
      using hit True by (auto simp: window_hit_eq split: if_splits)
    then have push: "window_hist L t (A @ [t]) (?r @ [t])"
      by (rule window_hist_push [OF Cons.prems(2) le w])
    have "dropWhile (\<lambda>u. u \<le> t - windowMs L) (?r @ [t]) = ?r @ [t]"
      using w by (intro dropWhile_hd_neg) (auto simp: after_def hd_append dest: hd_in_set)
    then have "window_hist L t (A @ [t]) (stored m' k)" using push st True by simp
    from Cons.IH [OF inv' this srt room'] show ?thesis
      using h hit True by (auto split: prod.splits)
  next
    case False
    then have "stored m' k = ?r" using st by auto
    then have "window_hist L t A (stored m' k)"
      using window_hist_keep [OF Cons.prems(2) le] by simp
    from Cons.IH [OF inv' this srt room'] show ?thesis
      using h hit False by (cases res) (auto split: prod.splits)
  qed
qed

text \<open>
  The fixed-window limiter's guarantee, in its strong sliding form: with a clock that does not
  run backwards and room for every key, any window of \<open>windowMs\<close> milliseconds, wherever it
  starts, contains at most \<open>maxRequests\<close> allowed hits of one key.
\<close>

theorem fixed_window_sliding_bound:
  assumes "sorted (map snd hs)"
    and "int (card (fst ` set hs)) \<le> max 1 \<lfloor>b\<rfloor>"
  shows "int (in_window (max 1 \<lfloor>w\<rfloor>) u
          (map snd (filter (\<lambda>e. fst e = k) (fst (run_hits (window_hit (fixedWindowLimits b n w)) hs [])))))
            \<le> max 1 \<lfloor>n\<rfloor>"
proof (cases hs)
  case Nil
  then show ?thesis by (simp add: in_window_def)
next
  case (Cons h hs')
  let ?L = "fixedWindowLimits b n w"
  have "window_hist ?L (snd h) [] (stored [] k)"
    by (simp add: window_hist_def stored_def in_window_def fixedWindowLimits_def)
  from window_run_hist [OF window_inv_empty [OF fixedWindowLimits_ok] this, of hs u] show ?thesis
    using assms Cons by (simp add: fixedWindowLimits_def)
qed

lemma fixed_window_sliding_bound_witness:
  "int (in_window 10 10 (map snd (filter (\<lambda>e. fst e = ''a'')
      (fst (run_hits (window_hit (fixedWindowLimits 2 2 10)) [(''a'', 1), (''a'', 2), (''b'', 3), (''a'', 4)] [])))))
     \<le> 2"
proof -
  have "int (card (fst ` set [(''a'', 1 :: int), (''a'', 2), (''b'', 3), (''a'', 4)])) \<le> max 1 \<lfloor>2 :: rat\<rfloor>"
    by (simp add: card_insert_if)
  from fixed_window_sliding_bound [OF _ this, of 10 10 "''a''" 2] show ?thesis by simp
qed

end
