(* ===== verification/Auth_Attempt.thy ===== *)
theory Auth_Attempt
  imports Auth_Rate_Limit Rate_Limiters
begin

text \<open>
  \<^verbatim>\<open>src/bun/index.ts\<close>, the guard around every authentication route: the keys of the rate limit,
  which errors count as a failed attempt, and \<^verbatim>\<open>runRateLimitedAuthAttempt\<close>. The guarded operation is
  asynchronous: what it ends with is the parameter \<open>outcome\<close>, and the clock is read at the status
  check (\<open>clock0\<close>) and again when the outcome is noted (\<open>clock1\<close>).
\<close>

datatype attempt_error =
    AuthServiceError (errorCode: string) (errorMessage: string) (errorStatus: int)
      (errorDetails: "(string \<times> string) list")
  | OtherError string

definition formatRetryAfterMessage :: "int \<Rightarrow> string" where
  "formatRetryAfterMessage retryAfter =
     ''Too many failed authentication attempts. Try again in '' @ show_int retryAfter @ '' seconds.''"

definition createAuthRateLimitError :: "int \<Rightarrow> attempt_error" where
  "createAuthRateLimitError retryAfter =
     AuthServiceError ''rate_limited'' (formatRetryAfterMessage retryAfter) 429
       [(''retryAfterSeconds'', show_int retryAfter)]"

fun shouldCountForAuthRateLimit :: "attempt_error \<Rightarrow> bool" where
  "shouldCountForAuthRateLimit (AuthServiceError code _ _ _) =
     (code = ''auth_locked'' \<or> code = ''invalid_credentials'')"
| "shouldCountForAuthRateLimit (OtherError _) = False"

definition authRateLimitSubjectKeyForUsername :: "string \<Rightarrow> string" where
  "authRateLimitSubjectKeyForUsername username = ''username:'' @ js_lower (js_trim username)"

definition authRateLimitSubjectKeyForSession :: "string \<Rightarrow> string" where
  "authRateLimitSubjectKeyForSession sessionId = ''session:'' @ sessionId"

text \<open>The address is what \<open>requestIP\<close> reports: the family and the address, or nothing.\<close>

definition resolveAuthRoutePeerKey :: "(string \<times> string) option \<Rightarrow> string" where
  "resolveAuthRoutePeerKey requestIP =
     (case requestIP of
        None \<Rightarrow> ''unknown''
      | Some (family, address) \<Rightarrow>
          (if js_trim address \<noteq> [] then family @ '':'' @ js_trim address else ''unknown''))"

definition runRateLimitedAuthAttempt ::
  "(string \<Rightarrow> string) \<Rightarrow> int \<Rightarrow> int \<Rightarrow> auth_context \<Rightarrow> attempt_error + 'a \<Rightarrow> auth_state \<Rightarrow>
   (attempt_error + 'a) \<times> auth_state" where
  "runRateLimitedAuthAttempt H clock0 clock1 context outcome st =
     (case readAuthRouteRateLimitStatus H clock0 context st of
        (Inl e, st1) \<Rightarrow> (Inl (OtherError e), st1)
      | (Inr (Some retryAfter), st1) \<Rightarrow> (Inl (createAuthRateLimitError retryAfter), st1)
      | (Inr None, st1) \<Rightarrow>
          (case outcome of
             Inr result \<Rightarrow>
               (case noteAuthRouteAttemptSuccess H clock1 context st1 of
                  (Inl e, st2) \<Rightarrow> (Inl (OtherError e), st2)
                | (Inr _, st2) \<Rightarrow> (Inr result, st2))
           | Inl error \<Rightarrow>
               (if shouldCountForAuthRateLimit error
                then (case noteAuthRouteFailure H clock1 context st1 of
                        (Inl e, st2) \<Rightarrow> (Inl (OtherError e), st2)
                      | (Inr (Some retryAfter), st2) \<Rightarrow> (Inl (createAuthRateLimitError retryAfter), st2)
                      | (Inr None, st2) \<Rightarrow> (Inl error, st2))
                else (Inl error, st1))))"

section \<open>Runs of attempts\<close>

text \<open>
  An attempt with its two clock readings. \<open>admitted\<close> says that the operation was run;
  \<open>failed_times\<close> lists when the failures of one peer and path were noted in a run.
\<close>

record attempt =
  at_start :: int
  at_end :: int
  at_context :: auth_context
  at_outcome :: "attempt_error + unit"

definition run_attempt :: "(string \<Rightarrow> string) \<Rightarrow> attempt \<Rightarrow> auth_state \<Rightarrow> (attempt_error + unit) \<times> auth_state" where
  "run_attempt H a st = runRateLimitedAuthAttempt H (at_start a) (at_end a) (at_context a) (at_outcome a) st"

definition admitted :: "(string \<Rightarrow> string) \<Rightarrow> attempt \<Rightarrow> auth_state \<Rightarrow> bool" where
  "admitted H a st = (fst (readAuthRouteRateLimitStatus H (at_start a) (at_context a) st) = Inr None)"

fun counts :: "attempt_error + unit \<Rightarrow> bool" where
  "counts (Inl e) = shouldCountForAuthRateLimit e"
| "counts (Inr _) = False"

fun failed_times :: "(string \<Rightarrow> string) \<Rightarrow> string \<Rightarrow> attempt list \<Rightarrow> auth_state \<Rightarrow> int list" where
  "failed_times H k [] st = []"
| "failed_times H k (a # as) st =
     (if admitted H a st \<and> counts (at_outcome a) \<and> rawPeerKey (at_context a) = k then [at_end a] else []) @
     failed_times H k as (snd (run_attempt H a st))"

fun in_order :: "int \<Rightarrow> attempt list \<Rightarrow> bool" where
  "in_order t [] = True"
| "in_order t (a # as) =
     (t \<le> at_start a \<and> at_start a \<le> at_end a \<and> ctx_nowMs (at_context a) = None \<and> in_order (at_end a) as)"

definition raw_keys :: "attempt list \<Rightarrow> string set" where
  "raw_keys as = (\<Union>a \<in> set as. {rawPeerKey (at_context a), rawSubjectKey (at_context a)})"

section \<open>One attempt\<close>

lemma context_now_clock [simp]: "ctx_nowMs c = None \<Longrightarrow> context_now clock c = clock"
  by (simp add: context_now_def)

lemma lock_expires: "lockedUntilMs (bucket_view now db k) = None \<Longrightarrow> now \<le> t \<Longrightarrow>
  lockedUntilMs (bucket_view t db k) = None"
  by (simp add: bucket_view_age [of now t] age_def)

text \<open>
  What an attempt does to the bucket of a raw peer key \<open>k\<close>: nothing, unless it is an admitted,
  counted failure of that peer on that path; then the bucket was not locked and takes the failure.
\<close>

lemma run_attempt_peer:
  assumes ok: "table_ok t (table st)" and le: "t \<le> at_start a" "at_start a \<le> at_end a"
    and now: "ctx_nowMs (at_context a) = None"
    and inj: "inj_on H (insert k (raw_keys [a]))" and k: "k = rawPeerKey d"
  shows "table_ok (at_end a) (table (snd (run_attempt H a st))) \<and>
    (if admitted H a st \<and> counts (at_outcome a) \<and> rawPeerKey (at_context a) = k
     then lockedUntilMs (bucket_view (at_end a) (table st) (H k)) = None \<and>
       bucket_view (at_end a) (table (snd (run_attempt H a st))) (H k) =
         age (at_end a) (fail_step (at_end a) 12 (bucket_view (at_end a) (table st) (H k)))
     else bucket_view (at_end a) (table (snd (run_attempt H a st))) (H k) =
       bucket_view (at_end a) (table st) (H k))"
proof -
  let ?c = "at_context a"
  let ?out = "at_outcome a"
  have ks: "H (rawPeerKey ?c) \<noteq> H (rawSubjectKey ?c)" "H k \<noteq> H (rawSubjectKey ?c)"
    "H k = H (rawPeerKey ?c) \<longleftrightarrow> k = rawPeerKey ?c"
    using inj_onD [OF inj, of "rawPeerKey ?c" "rawSubjectKey ?c"] inj_onD [OF inj, of k "rawSubjectKey ?c"]
      inj_onD [OF inj, of k "rawPeerKey ?c"] k
    by (auto simp: raw_keys_def)
  have n0: "context_now (at_start a) ?c = at_start a" and n1: "context_now (at_end a) ?c = at_end a"
    using now by simp_all
  have le1: "t \<le> at_end a" using le by simp
  obtain r st1 where s: "readAuthRouteRateLimitStatus H (at_start a) ?c st = (Inr r, st1)"
    and r: "r = status_of H (at_start a) ?c (table st)"
    and ok1: "table_ok (at_start a) (table st1)"
    and v1: "\<And>u k. u \<ge> at_start a \<Longrightarrow> bucket_view u (table st1) k = bucket_view u (table st) k"
    using readStatus_ok [of t st "at_start a" ?c H] ok le(1) unfolding n0 by metis
  have adm: "admitted H a st \<longleftrightarrow> r = None" by (simp add: admitted_def s)
  show ?thesis
  proof (cases "r = None")
    case False
    then have "snd (run_attempt H a st) = st1"
      using s by (auto simp: run_attempt_def runRateLimitedAuthAttempt_def)
    then show ?thesis using False adm v1 [OF le(2)] table_ok_mono [OF ok1 le(2)] by simp blast
  next
    case True
    show ?thesis
    proof (cases "\<exists>e. ?out = Inl e \<and> shouldCountForAuthRateLimit e")
      case True
      then obtain e where e: "?out = Inl e" "shouldCountForAuthRateLimit e" by blast
      have le2: "at_start a \<le> context_now (at_end a) ?c" using le by (simp add: n1)
      from noteFailure_ok [OF ok1 le2, of H] ks(1) obtain r2 st2 where
        f: "noteAuthRouteFailure H (at_end a) ?c st1 = (Inr r2, st2)" and ok2: "table_ok (at_end a) (table st2)"
        and v2: "bucket_view (at_end a) (table st2) (H k) =
          age (at_end a) (scope_step (at_end a) (map_of (ctx_scopes H ?c) (H k)) (bucket_view (at_end a) (table st1) (H k)))"
        unfolding n1 by auto
      have st2: "snd (run_attempt H a st) = st2"
        using s \<open>r = None\<close> e f
        by (auto simp: run_attempt_def runRateLimitedAuthAttempt_def split: option.splits)
      have v12: "bucket_view (at_end a) (table st1) (H k) = bucket_view (at_end a) (table st) (H k)"
        using v1 le by simp
      show ?thesis
      proof (cases "rawPeerKey ?c = k")
        case True
        have "scope_lock (at_start a) (ctx_scopes H ?c) None (table st) = None"
          using \<open>r = None\<close> r by (simp add: status_of_def)
        then have "lockedUntilMs (bucket_view (at_start a) (table st) (H k)) = None"
          using True by (simp add: scope_lock_None ctx_scopes_unfold)
        from lock_expires [OF this le(2)] show ?thesis
          using True v2 v12 adm \<open>r = None\<close> e st2 ok2 by (simp add: ctx_scopes_unfold)
      next
        case False
        then have "map_of (ctx_scopes H ?c) (H k) = None" using ks by (auto simp: ctx_scopes_unfold)
        then show ?thesis using False v2 v12 st2 ok2 by (simp add: bucket_view_age [symmetric])
      qed
    next
      case no: False
      then have nc: "\<not> counts ?out" by (cases ?out) auto
      show ?thesis
      proof (cases ?out)
        case (Inl e)
        then have "snd (run_attempt H a st) = st1"
          using s \<open>r = None\<close> no by (simp add: run_attempt_def runRateLimitedAuthAttempt_def)
        then show ?thesis using nc v1 le(2) table_ok_mono [OF ok1 le(2)] by simp
      next
        case (Inr x)
        have le2: "at_start a \<le> context_now (at_end a) ?c" using le by (simp add: n1)
        obtain st2 where f: "noteAuthRouteSuccess H (at_end a) ?c st1 = (Inr (), st2)"
          and ok2: "table_ok (at_end a) (table st2)"
          and v2: "bucket_view (at_end a) (table st2) (H k) =
            (if has_subject ?c \<and> H k = H (rawSubjectKey ?c) then empty_bucket else bucket_view (at_end a) (table st1) (H k))"
          using noteSuccess_ok [OF ok1 le2, of H] unfolding n1 by blast
        have "snd (run_attempt H a st) = st2"
          using s \<open>r = None\<close> f Inr
          by (simp add: run_attempt_def runRateLimitedAuthAttempt_def noteAuthRouteAttemptSuccess_def)
        then show ?thesis using nc v1 le(2) v2 ks(2) ok2 by simp
      qed
    qed
  qed
qed

section \<open>The history of a peer\<close>

text \<open>The bucket \<open>b\<close> at time \<open>now\<close> against the times \<open>A\<close> of all failures noted for its peer.\<close>

definition peer_hist :: "int \<Rightarrow> int list \<Rightarrow> auth_bucket \<Rightarrow> bool" where
  "peer_hist now A b =
     ((\<forall>a \<in> set A. a \<le> now) \<and> length (failuresMs b) < 12 \<and>
      (lockedUntilMs b = None \<longrightarrow> failuresMs b = after (now - 600000) A) \<and>
      (\<forall>l. lockedUntilMs b = Some l \<longrightarrow> failuresMs b = [] \<and> (\<forall>a \<in> set A. a \<le> l - 600000)) \<and>
      (\<forall>u. in_window 600000 u A \<le> 12))"

lemma peer_hist_start: "peer_hist now [] empty_bucket"
  by (simp add: peer_hist_def empty_bucket_def after_def in_window_def)

lemma peer_hist_age:
  assumes h: "peer_hist now A b" and le: "now \<le> t"
  shows "peer_hist t A (age t b)"
proof -
  have len: "length (failuresMs (age t b)) \<le> length (failuresMs b)" by (simp add: age_def)
  have "failuresMs (age t b) = after (t - 600000) A" if "lockedUntilMs (age t b) = None"
  proof (cases "lockedUntilMs b")
    case None
    then have "failuresMs b = after (now - 600000) A" using h by (simp add: peer_hist_def)
    then show ?thesis using after_after [of "now - 600000" "t - 600000" A] le
      by (simp add: age_def after_def)
  next
    case (Some l)
    then have "l \<le> t" using that by (simp add: age_def split: if_splits)
    then have "after (t - 600000) A = []"
      using h Some by (fastforce simp: peer_hist_def after_def filter_empty_conv)
    then show ?thesis using h Some by (simp add: peer_hist_def age_def)
  qed
  moreover have "failuresMs (age t b) = [] \<and> (\<forall>a \<in> set A. a \<le> l - 600000)"
    if "lockedUntilMs (age t b) = Some l" for l
    using h that by (cases "lockedUntilMs b") (auto simp: peer_hist_def age_def split: if_splits)
  ultimately show ?thesis using h le len by (fastforce simp: peer_hist_def)
qed

lemma peer_hist_fail:
  assumes h: "peer_hist t A b" and "lockedUntilMs b = None"
  shows "peer_hist t (A @ [t]) (fail_step t 12 b)"
proof -
  have le: "\<forall>a \<in> set A. a \<le> t" and fs: "failuresMs b = after (t - 600000) A"
    and len: "length (failuresMs b) < 12" and win: "\<And>u. in_window 600000 u A \<le> 12"
    using h assms(2) unfolding peer_hist_def by blast+
  have "in_window 600000 u (A @ [t]) \<le> 12" for u
    using in_window_snoc_le [OF le, of 600000 u] fs len win [of u] by (simp split: if_splits)
  then show ?thesis using le fs len assms(2) by (auto simp: peer_hist_def fail_step_def after_def)
qed

lemma failed_times_bound:
  assumes "table_ok t (table st)" and "in_order t as"
    and "inj_on H (insert k (raw_keys as))" and "k = rawPeerKey d"
    and "peer_hist t A (bucket_view t (table st) (H k))"
  shows "in_window 600000 u (A @ failed_times H k as st) \<le> 12"
  using assms
proof (induction as arbitrary: t st A)
  case Nil
  then show ?case by (simp add: peer_hist_def)
next
  case (Cons a as)
  let ?e = "at_end a"
  let ?st = "snd (run_attempt H a st)"
  have le: "t \<le> at_start a" "at_start a \<le> ?e" and now: "ctx_nowMs (at_context a) = None"
    and rest: "in_order ?e as"
    using Cons.prems(2) by simp_all
  have inj1: "inj_on H (insert k (raw_keys [a]))" and inj2: "inj_on H (insert k (raw_keys as))"
    using Cons.prems(3) by (auto simp: raw_keys_def elim: inj_on_subset)
  note one = run_attempt_peer [OF Cons.prems(1) le now inj1 Cons.prems(4)]
  let ?A = "A @ (if admitted H a st \<and> counts (at_outcome a) \<and> rawPeerKey (at_context a) = k then [?e] else [])"
  have "t \<le> ?e" using le by simp
  from peer_hist_age [OF Cons.prems(5) this]
  have h: "peer_hist ?e A (bucket_view ?e (table st) (H k))"
    using \<open>t \<le> ?e\<close> by (simp add: bucket_view_age [symmetric])
  have "peer_hist ?e ?A (bucket_view ?e (table ?st) (H k))"
  proof (cases "admitted H a st \<and> counts (at_outcome a) \<and> rawPeerKey (at_context a) = k")
    case True
    then have "lockedUntilMs (bucket_view ?e (table st) (H k)) = None"
      and v: "bucket_view ?e (table ?st) (H k) = age ?e (fail_step ?e 12 (bucket_view ?e (table st) (H k)))"
      using one by simp_all
    from peer_hist_age [OF peer_hist_fail [OF h this(1)], of ?e] show ?thesis using True v by simp
  next
    case False
    then show ?thesis using one h by (simp only: if_False append_Nil2)
  qed
  from Cons.IH [OF _ rest inj2 Cons.prems(4) this] one show ?case by simp
qed

section \<open>Properties\<close>

text \<open>
  C8. The brute-force bound: over any run of attempts, one after the other, from any addresses, on
  any routes, for any user names and with any successes in between, at most 12 attempts of one
  address on one route fail with a wrong credential in any ten minutes. (SHA-256 must not
  collide on the keys in use; the clock must not run backwards.)
\<close>

theorem auth_brute_force_bound:
  assumes "in_order t as" and "inj_on H (insert (rawPeerKey c) (raw_keys as))"
  shows "in_window 600000 u (failed_times H (rawPeerKey c) as resetAuthRouteRateLimitState) \<le> 12"
proof -
  have "table_ok t (table resetAuthRouteRateLimitState)"
    and "peer_hist t [] (bucket_view t (table resetAuthRouteRateLimitState) (H (rawPeerKey c)))"
    by (simp_all add: resetAuthRouteRateLimitState_def table_ok_empty bucket_view_def peer_hist_start)
  from failed_times_bound [OF this(1) assms refl this(2)] show ?thesis by simp
qed

text \<open>Status checks one after the other, with nothing noted in between.\<close>

fun check_all :: "(string \<Rightarrow> string) \<Rightarrow> int \<Rightarrow> auth_context list \<Rightarrow> auth_state \<Rightarrow> bool list" where
  "check_all H clock [] st = []"
| "check_all H clock (c # cs) st =
     (case readAuthRouteRateLimitStatus H clock c st of
        (r, st') \<Rightarrow> (r = Inr None) # check_all H clock cs st')"

lemma check_all_admits:
  assumes "table_ok t (table st)" and "t \<le> clock" and "ctx_nowMs c = None"
    and "status_of H clock c (table st) = None"
  shows "check_all H clock (replicate n c) st = replicate n True"
  using assms
proof (induction n arbitrary: st t)
  case (Suc n)
  have now: "context_now clock c = clock" using Suc.prems(3) by simp
  obtain st' where s: "readAuthRouteRateLimitStatus H clock c st = (Inr None, st')"
    and ok: "table_ok clock (table st')"
    and v: "\<forall>u \<ge> clock. \<forall>k. bucket_view u (table st') k = bucket_view u (table st) k"
    using readStatus_ok [of t st clock c H] Suc.prems unfolding now by auto
  have "status_of H clock c (table st') = status_of H clock c (table st)"
    using v by (simp add: status_of_def scope_lock_def)
  with Suc.IH [OF ok] s Suc.prems(3,4) show ?case by simp
qed simp

text \<open>
  The status check reserves nothing: any number of attempts that are checked before the first
  of them ends are all admitted. The limit bounds the failures noted, not the attempts in flight.
\<close>

theorem auth_check_reserves_nothing:
  assumes "ctx_nowMs c = None"
  shows "check_all H clock (replicate n c) resetAuthRouteRateLimitState = replicate n True"
proof -
  have "table_ok clock (table resetAuthRouteRateLimitState)"
    by (simp add: resetAuthRouteRateLimitState_def table_ok_empty)
  moreover have "status_of H clock c (table resetAuthRouteRateLimitState) = None"
    by (simp add: status_of_def scope_lock_None resetAuthRouteRateLimitState_def bucket_view_def
        empty_bucket_def age_def)
  ultimately show ?thesis using assms by (intro check_all_admits [of clock]) simp_all
qed

section \<open>Witnesses\<close>

definition demo_attempt :: "int \<Rightarrow> attempt" where
  "demo_attempt t = \<lparr> at_start = t, at_end = t + 5,
     at_context = \<lparr> ctx_nowMs = None, pathname = AuthLogin,
       peerKey = resolveAuthRoutePeerKey (Some (''IPv4'', ''10.0.0.1'')),
       subjectKey = Some (authRateLimitSubjectKeyForUsername ''Ada'') \<rparr>,
     at_outcome = Inl (AuthServiceError ''invalid_credentials'' ''Invalid credentials.'' 401 []) \<rparr>"

theorem auth_brute_force_bound_witness:
  "in_window 600000 600100 (failed_times demo_hash (rawPeerKey (at_context (demo_attempt 0)))
     [demo_attempt 100, demo_attempt 200] resetAuthRouteRateLimitState) \<le> 12"
proof (rule auth_brute_force_bound)
  show "in_order 0 [demo_attempt 100, demo_attempt 200]" by (simp add: demo_attempt_def)
  show "inj_on demo_hash (insert (rawPeerKey (at_context (demo_attempt 0)))
     (raw_keys [demo_attempt 100, demo_attempt 200]))"
    by (simp add: inj_on_def demo_hash_def)
qed

theorem auth_check_reserves_nothing_witness:
  "check_all demo_hash 100 (replicate 1000 (at_context (demo_attempt 0))) resetAuthRouteRateLimitState =
     replicate 1000 True"
  by (rule auth_check_reserves_nothing) (simp add: demo_attempt_def)

end
