(* ===== verification/Glob_Match.thy ===== *)
theory Glob_Match
  imports Js_Base
begin

text \<open>
  \<^verbatim>\<open>src/bun/plugin/glob-match.ts\<close>: the glob helpers of the plugin policies. \<open>globSegmentMatches\<close> is
  the index loop with one remembered star, \<open>globSegmentsMatch\<close> the memoised matcher over path
  segments, its memo passed along. The reference matchers are the textbook recursions.
\<close>

definition containsGlobPattern :: "string \<Rightarrow> bool" where
  "containsGlobPattern v = list_ex (\<lambda>c. c = CHR ''*'' \<or> c = CHR ''?'' \<or> c = CHR ''['') v"

text \<open>\<open>s[i]\<close>, which is \<open>undefined\<close> out of range.\<close>

definition js_at :: "'a list \<Rightarrow> nat \<Rightarrow> 'a option" where
  "js_at s i = (if i < length s then Some (s ! i) else None)"

lemma js_at_Some [simp]: "js_at s i = Some c \<longleftrightarrow> i < length s \<and> s ! i = c"
  by (simp add: js_at_def)

text \<open>The main loop: \<^const>\<open>None\<close> is the exit \<open>return false\<close>; \<open>star\<close> is \<open>starIndex\<close>, \<^const>\<open>None\<close> for -1.\<close>

function glob_loop :: "string \<Rightarrow> string \<Rightarrow> nat \<Rightarrow> nat \<Rightarrow> nat option \<Rightarrow> nat \<Rightarrow> nat option" where
  "glob_loop p s px si star mi =
     (if si < length s
      then (if js_at p px = Some CHR ''?'' \<or> js_at p px = Some (s ! si)
            then glob_loop p s (px + 1) (si + 1) star mi
            else if js_at p px = Some CHR ''*''
            then glob_loop p s (px + 1) si (Some px) si
            else (case star of
                    Some st \<Rightarrow> glob_loop p s (st + 1) (mi + 1) star (mi + 1)
                  | None \<Rightarrow> None))
      else Some px)"
  by pat_completeness auto
termination
  by (relation "measures [\<lambda>(p, s, px, si, star, mi). if mi \<le> si then 0 else 1,
        \<lambda>(p, s, px, si, star, mi). length s - mi,
        \<lambda>(p, s, px, si, star, mi). (length s - si) + (length p - px)]") auto

declare glob_loop.simps [simp del]

function skip_stars :: "string \<Rightarrow> nat \<Rightarrow> nat" where
  "skip_stars p px = (if js_at p px = Some CHR ''*'' then skip_stars p (px + 1) else px)"
  by pat_completeness auto
termination by (relation "measure (\<lambda>(p, px). length p - px)") auto

declare skip_stars.simps [simp del]

definition globSegmentMatches :: "string \<Rightarrow> string \<Rightarrow> bool" where
  "globSegmentMatches p s =
     (case glob_loop p s 0 0 None 0 of None \<Rightarrow> False | Some px \<Rightarrow> skip_stars p px = length p)"

text \<open>The matcher over segments, with the memo of \<open>patternIndex:candidateIndex\<close> strings.\<close>

definition memo_key :: "nat \<Rightarrow> nat \<Rightarrow> string" where
  "memo_key i j = show_nat i @ '':'' @ show_nat j"

function matchAt ::
  "string list \<Rightarrow> string list \<Rightarrow> nat \<Rightarrow> nat \<Rightarrow> (string \<rightharpoonup> bool) \<Rightarrow> bool \<times> (string \<rightharpoonup> bool)" where
  "matchAt ps cs px ci memo =
     (case memo (memo_key px ci) of
        Some cached \<Rightarrow> (cached, memo)
      | None \<Rightarrow>
          (let (result, memo') =
             (if px \<ge> length ps then (ci \<ge> length cs, memo)
              else if ps ! px = ''**'' then
                (case matchAt ps cs (px + 1) ci memo of
                   (r, memo1) \<Rightarrow>
                     (if r then (True, memo1)
                      else if ci < length cs then matchAt ps cs px (ci + 1) memo1
                      else (False, memo1)))
              else if ci < length cs \<and> globSegmentMatches (ps ! px) (cs ! ci)
              then matchAt ps cs (px + 1) (ci + 1) memo
              else (False, memo))
           in (result, memo'(memo_key px ci \<mapsto> result))))"
  by pat_completeness auto
termination by (relation "measure (\<lambda>(ps, cs, px, ci, memo). (length ps - px) + (length cs - ci))") auto

declare matchAt.simps [simp del]

definition globSegmentsMatch :: "string list \<Rightarrow> string list \<Rightarrow> bool" where
  "globSegmentsMatch ps cs = fst (matchAt ps cs 0 0 Map.empty)"

section \<open>The reference matchers\<close>

fun wild :: "string \<Rightarrow> string \<Rightarrow> bool" where
  "wild [] s = (s = [])"
| "wild (a # p) [] = (a = CHR ''*'' \<and> wild p [])"
| "wild (a # p) (c # s) =
     (if a = CHR ''*'' then wild p (c # s) \<or> wild (a # p) s
      else (a = CHR ''?'' \<or> a = c) \<and> wild p s)"

fun wild_segments :: "string list \<Rightarrow> string list \<Rightarrow> bool" where
  "wild_segments [] cs = (cs = [])"
| "wild_segments (p # ps) [] = (p = ''**'' \<and> wild_segments ps [])"
| "wild_segments (p # ps) (c # cs) =
     (if p = ''**'' then wild_segments ps (c # cs) \<or> wild_segments (p # ps) cs
      else globSegmentMatches p c \<and> wild_segments ps cs)"

lemma wild_Nil: "wild p [] = (\<forall>c \<in> set p. c = CHR ''*'')"
  by (induction p) auto

lemma wild_star: "wild (CHR ''*'' # p) s \<longleftrightarrow> (\<exists>k \<le> length s. wild p (drop k s))"
proof (induction s)
  case (Cons c s)
  have "(\<exists>k \<le> length (c # s). wild p (drop k (c # s))) \<longleftrightarrow>
      wild p (c # s) \<or> (\<exists>k \<le> length s. wild p (drop k s))"
    by (metis (no_types) Suc_le_mono bot_nat_0.extremum drop0 drop_Suc_Cons length_Cons not0_implies_Suc)
  then show ?case using Cons by simp
qed simp

lemma wild_drop:
  "CHR ''*'' \<notin> set u \<Longrightarrow> wild (u @ q) t \<Longrightarrow> length u \<le> length t \<and> wild q (drop (length u) t)"
proof (induction u arbitrary: t)
  case (Cons a u)
  then show ?case by (cases t) (auto split: if_splits)
qed simp

lemma wild_literal: "CHR ''*'' \<notin> set p \<Longrightarrow> CHR ''?'' \<notin> set p \<Longrightarrow> wild p s = (p = s)"
  by (induction p s rule: wild.induct) auto

lemma skip_stars_end:
  "px \<le> length p \<Longrightarrow> (skip_stars p px = length p) = wild (drop px p) []"
proof (induction p px rule: skip_stars.induct)
  case (1 p px)
  show ?case
  proof (cases "px < length p")
    case True
    then have d: "drop px p = p ! px # drop (Suc px) p" by (rule Cons_nth_drop_Suc [symmetric])
    show ?thesis using 1 True by (subst skip_stars.simps) (auto simp: d)
  next
    case False
    then show ?thesis using 1 by (subst skip_stars.simps) simp
  qed
qed

section \<open>The star loop is the reference matcher\<close>

text \<open>
  The loop's invariant: since the remembered star the pattern held no star, and the candidate
  advanced by the same distance as the pattern.
\<close>

fun star_inv :: "string \<Rightarrow> string \<Rightarrow> nat \<Rightarrow> nat \<Rightarrow> nat option \<Rightarrow> nat \<Rightarrow> bool" where
  "star_inv p s px si None mi = (px \<le> length p \<and> si \<le> length s)"
| "star_inv p s px si (Some st) mi =
     (px \<le> length p \<and> si \<le> length s \<and> st < px \<and> mi \<le> si \<and> px - (st + 1) = si - mi \<and>
      CHR ''*'' \<notin> set (take (px - (st + 1)) (drop (st + 1) p)))"

fun retry_match :: "string \<Rightarrow> string \<Rightarrow> nat option \<Rightarrow> nat \<Rightarrow> bool" where
  "retry_match p s None mi = False"
| "retry_match p s (Some st) mi = (\<exists>k > mi. k \<le> length s \<and> wild (drop (st + 1) p) (drop k s))"

lemma retry_drop:
  assumes "star_inv p s px si (Some st) mi" and "mi < k" "k \<le> length s"
    and "wild (drop (st + 1) p) (drop k s)"
  shows "k + (si - mi) \<le> length s \<and> wild (drop px p) (drop (k + (si - mi)) s)"
proof -
  let ?u = "take (px - (st + 1)) (drop (st + 1) p)"
  have "px \<le> length p" "st < px" "px - (st + 1) = si - mi" using assms(1) by simp_all
  then have len: "length ?u = si - mi" by simp
  have "drop (st + 1) p = ?u @ drop px p"
    using assms(1) by (metis append_take_drop_id drop_drop le_add_diff_inverse2 add.commute
        star_inv.simps(2) Suc_eq_plus1 Suc_leI)
  with assms(4) have "wild (?u @ drop px p) (drop k s)" by simp
  from wild_drop [OF _ this] assms(1) len show ?thesis using assms(3) by (auto simp: add.commute)
qed

lemma star_inv_advance:
  assumes "star_inv p s px si star mi" and "px < length p" "si < length s" and "p ! px \<noteq> CHR ''*''"
  shows "star_inv p s (px + 1) (si + 1) star mi"
proof (cases star)
  case (Some st)
  have "take (Suc px - (st + 1)) (drop (st + 1) p) =
      take (px - (st + 1)) (drop (st + 1) p) @ [p ! px]"
  proof -
    have "st < px" using assms(1) Some by simp
    then have "Suc px - (st + 1) = Suc (px - (st + 1))" and "px - (st + 1) < length (drop (st + 1) p)"
      and "drop (st + 1) p ! (px - (st + 1)) = p ! px" using assms(2) by simp_all
    then show ?thesis by (metis take_Suc_conv_app_nth)
  qed
  then show ?thesis using assms Some by (auto simp: Suc_diff_le)
qed (use assms in auto)

lemma glob_loop_unfold:
  assumes "si < length s"
  shows "js_at p px = Some CHR ''?'' \<or> js_at p px = Some (s ! si) \<Longrightarrow>
      glob_loop p s px si star mi = glob_loop p s (px + 1) (si + 1) star mi"
    and "\<not> (js_at p px = Some CHR ''?'' \<or> js_at p px = Some (s ! si)) \<Longrightarrow> js_at p px = Some CHR ''*'' \<Longrightarrow>
      glob_loop p s px si star mi = glob_loop p s (px + 1) si (Some px) si"
    and "\<not> (js_at p px = Some CHR ''?'' \<or> js_at p px = Some (s ! si)) \<Longrightarrow> js_at p px \<noteq> Some CHR ''*'' \<Longrightarrow>
      glob_loop p s px si (Some st) mi = glob_loop p s (st + 1) (mi + 1) (Some st) (mi + 1)"
    and "\<not> (js_at p px = Some CHR ''?'' \<or> js_at p px = Some (s ! si)) \<Longrightarrow> js_at p px \<noteq> Some CHR ''*'' \<Longrightarrow>
      glob_loop p s px si None mi = None"
proof (goal_cases)
  case 1
  then show ?case using assms by (subst glob_loop.simps) (simp only: if_True)
next
  case 2
  then show ?case using assms by (subst glob_loop.simps) (simp only: if_True if_False refl)
next
  case 3
  then show ?case using assms by (subst glob_loop.simps) (simp only: if_True if_False option.case)
next
  case 4
  then show ?case using assms by (subst glob_loop.simps) (simp only: if_True if_False option.case)
qed

lemma retry_absorbed:
  assumes inv: "star_inv p s px si star mi" and retry: "retry_match p s star mi"
    and at_star: "js_at p px = Some CHR ''*''"
  shows "wild (drop px p) (drop si s)"
proof -
  obtain st k where st: "star = Some st" and k: "mi < k" "k \<le> length s"
    "wild (drop (st + 1) p) (drop k s)" using retry by (cases star) auto
  from retry_drop [OF inv [unfolded st] k]
  have w: "k + (si - mi) \<le> length s" "wild (drop px p) (drop (k + (si - mi)) s)" by auto
  have dp: "drop px p = CHR ''*'' # drop (px + 1) p"
    using at_star by (auto simp: Cons_nth_drop_Suc [symmetric])
  have "mi \<le> si" using inv st by simp
  then have j: "si \<le> k + (si - mi)" using k by simp
  from w(2) obtain m where m: "m \<le> length (drop (k + (si - mi)) s)"
    "wild (drop (px + 1) p) (drop m (drop (k + (si - mi)) s))" unfolding dp wild_star by blast
  let ?m = "m + (k + (si - mi)) - si"
  have "?m \<le> length (drop si s)" using m(1) w(1) j by simp
  moreover have "drop ?m (drop si s) = drop m (drop (k + (si - mi)) s)" using j by simp
  ultimately show ?thesis unfolding dp wild_star using m(2) by metis
qed

lemma star_match:
  assumes dp: "drop px p = CHR ''*'' # drop (px + 1) p" and si: "si < length s"
  shows "wild (drop px p) (drop si s) \<longleftrightarrow>
          wild (drop (px + 1) p) (drop si s) \<or> retry_match p s (Some px) si"
proof -
  have "(\<exists>m \<le> length (drop si s). wild (drop (px + 1) p) (drop m (drop si s))) \<longleftrightarrow>
      (\<exists>k \<ge> si. k \<le> length s \<and> wild (drop (px + 1) p) (drop k s))" (is "?l = ?r")
  proof
    assume ?l
    then obtain m where "m \<le> length (drop si s)" "wild (drop (px + 1) p) (drop m (drop si s))" by blast
    then show ?r using si by (intro exI [of _ "m + si"]) (simp add: add.commute)
  next
    assume ?r
    then obtain k where "k \<ge> si" "k \<le> length s" "wild (drop (px + 1) p) (drop k s)" by blast
    then show ?l by (intro exI [of _ "k - si"]) simp
  qed
  then show ?thesis unfolding dp wild_star using si by (auto simp: le_less)
qed

lemma retry_step:
  assumes "mi + 1 \<le> length s"
  shows "retry_match p s (Some st) mi \<longleftrightarrow>
    wild (drop (st + 1) p) (drop (mi + 1) s) \<or> retry_match p s (Some st) (mi + 1)"
proof -
  have "mi < k \<longleftrightarrow> k = mi + 1 \<or> mi + 1 < k" for k by auto
  then show ?thesis using assms by auto
qed

lemma glob_loop_correct:
  assumes "star_inv p s px si star mi" and "CHR ''*'' \<notin> set p \<inter> set s"
  shows "(case glob_loop p s px si star mi of None \<Rightarrow> False | Some px' \<Rightarrow> skip_stars p px' = length p) =
    (wild (drop px p) (drop si s) \<or> retry_match p s star mi)"
  using assms
proof (induction p s px si star mi rule: glob_loop.induct)
  case (1 p s px si star mi)
  note inv = "1.prems"(1)
  have le: "px \<le> length p" "si \<le> length s" using inv by (cases star; simp)+
  show ?case
  proof (cases "si < length s")
    case False
    then have si: "si = length s" using le by simp
    have "\<not> retry_match p s star mi"
    proof
      assume "retry_match p s star mi"
      then obtain st k where st: "star = Some st" and k: "mi < k" "k \<le> length s"
        "wild (drop (st + 1) p) (drop k s)" by (cases star) auto
      have "mi \<le> si" using inv st by simp
      moreover have "k + (si - mi) \<le> length s" using retry_drop [OF inv [unfolded st] k] by blast
      ultimately show False using k(1) si by linarith
    qed
    then show ?thesis using False si le by (subst glob_loop.simps) (simp add: skip_stars_end)
  next
    case si: True
    have ds: "drop si s = s ! si # drop (si + 1) s" using si by (simp add: Cons_nth_drop_Suc)
    consider (adv) "js_at p px = Some CHR ''?'' \<or> js_at p px = Some (s ! si)"
      | (star) "\<not> (js_at p px = Some CHR ''?'' \<or> js_at p px = Some (s ! si))" "js_at p px = Some CHR ''*''"
      | (retreat) "\<not> (js_at p px = Some CHR ''?'' \<or> js_at p px = Some (s ! si))" "js_at p px \<noteq> Some CHR ''*''"
      by blast
    then show ?thesis
    proof cases
      case adv
      then have px: "px < length p" by auto
      then have dp: "drop px p = p ! px # drop (px + 1) p" by (simp add: Cons_nth_drop_Suc)
      have ns: "p ! px \<noteq> CHR ''*''"
      proof
        assume star: "p ! px = CHR ''*''"
        then have "s ! si = CHR ''*''" using adv by auto
        then show False using star nth_mem [OF px] nth_mem [OF si] "1.prems"(2) by auto
      qed
      have "wild (drop px p) (drop si s) = wild (drop (px + 1) p) (drop (si + 1) s)"
        using adv ns by (auto simp: dp ds)
      with "1.IH"(1) [OF si adv star_inv_advance [OF inv px si ns] "1.prems"(2)]
      show ?thesis unfolding glob_loop_unfold(1) [OF si adv] by simp
    next
      case star
      then have dp: "drop px p = CHR ''*'' # drop (px + 1) p" and px: "px < length p"
        by (auto simp: Cons_nth_drop_Suc [symmetric])
      have "star_inv p s (px + 1) si (Some px) si" using px si by simp
      note ih = "1.IH"(2) [OF si star this "1.prems"(2)]
      show ?thesis
        using ih star_match [OF dp si] retry_absorbed [OF inv _ star(2)]
        unfolding glob_loop_unfold(2) [OF si star] by blast
    next
      case retreat
      have nw: "\<not> wild (drop px p) (drop si s)"
      proof (cases "px < length p")
        case True
        then have "drop px p = p ! px # drop (px + 1) p" by (simp add: Cons_nth_drop_Suc)
        then show ?thesis using retreat True by (simp add: ds js_at_def)
      qed (simp add: ds)
      show ?thesis
      proof (cases star)
        case None
        then show ?thesis using glob_loop_unfold(4) [OF si retreat] nw by simp
      next
        case (Some st)
        have "mi \<le> si" "st < length p" using inv Some by auto
        then have "star_inv p s (st + 1) (mi + 1) (Some st) (mi + 1)" using si by simp
        note ih = "1.IH"(3) [OF si retreat Some this [folded Some] "1.prems"(2)]
        have "mi + 1 \<le> length s" using \<open>mi \<le> si\<close> si by simp
        from retry_step [OF this, of p st] show ?thesis
          using ih nw unfolding Some glob_loop_unfold(3) [OF si retreat] by blast
      qed
    qed
  qed
qed

lemma globSegmentMatches_wild:
  "CHR ''*'' \<notin> set p \<inter> set s \<Longrightarrow> globSegmentMatches p s = wild p s"
  unfolding globSegmentMatches_def by (subst glob_loop_correct) auto

section \<open>What it accepts is always a match\<close>

text \<open>
  Without any proviso: the remainder still to be matched, and every restart after the remembered
  star, would complete a match of the whole.
\<close>

definition sound_inv :: "string \<Rightarrow> string \<Rightarrow> nat \<Rightarrow> nat \<Rightarrow> nat option \<Rightarrow> nat \<Rightarrow> bool" where
  "sound_inv p s px si star mi =
     (px \<le> length p \<and> si \<le> length s \<and> (wild (drop px p) (drop si s) \<longrightarrow> wild p s) \<and>
      (\<forall>st. star = Some st \<longrightarrow> st < length p \<and> mi \<le> si \<and>
         (\<forall>k \<ge> mi. wild (drop (st + 1) p) (drop k s) \<longrightarrow> wild p s)))"

lemma sound_advance:
  assumes "sound_inv p s px si star mi" and "si < length s"
    and adv: "js_at p px = Some CHR ''?'' \<or> js_at p px = Some (s ! si)"
  shows "sound_inv p s (px + 1) (si + 1) star mi"
proof -
  have px: "px < length p" using adv by auto
  have dp: "drop px p = p ! px # drop (px + 1) p" using px by (simp add: Cons_nth_drop_Suc)
  have ds: "drop si s = s ! si # drop (si + 1) s" using assms(2) by (simp add: Cons_nth_drop_Suc)
  have "wild (drop px p) (drop si s)" if w: "wild (drop (px + 1) p) (drop (si + 1) s)"
  proof (cases "p ! px = CHR ''*''")
    case True
    have "wild (CHR ''*'' # drop (px + 1) p) (drop si s)"
      unfolding wild_star using w assms(2) by (intro exI [of _ 1]) simp
    then show ?thesis using True dp by simp
  next
    case False
    then show ?thesis using w adv px by (auto simp: dp ds)
  qed
  then show ?thesis using assms(1,2) px unfolding sound_inv_def by auto
qed

lemma sound_star:
  assumes "sound_inv p s px si star mi" and "si < length s" and at_star: "js_at p px = Some CHR ''*''"
  shows "sound_inv p s (px + 1) si (Some px) si"
proof -
  have px: "px < length p" using at_star by auto
  then have dp: "drop px p = CHR ''*'' # drop (px + 1) p"
    using at_star by (auto simp: Cons_nth_drop_Suc [symmetric])
  have "wild p s" if k: "si \<le> k" "wild (drop (px + 1) p) (drop k s)" for k
  proof -
    have "wild (drop (px + 1) p) (drop (min (k - si) (length (drop si s))) (drop si s))"
      using k by (auto simp: min_def)
    then have "wild (drop px p) (drop si s)" unfolding dp wild_star using min.cobounded2 by blast
    then show ?thesis using assms(1) by (simp add: sound_inv_def)
  qed
  then show ?thesis using px assms(2) by (auto simp: sound_inv_def)
qed

lemma glob_loop_sound:
  "sound_inv p s px si star mi \<Longrightarrow> glob_loop p s px si star mi = Some px' \<Longrightarrow>
   skip_stars p px' = length p \<Longrightarrow> wild p s"
proof (induction p s px si star mi rule: glob_loop.induct)
  case (1 p s px si star mi)
  show ?case
  proof (cases "si < length s")
    case False
    then have "px' = px" using "1.prems"(2) by (subst (asm) glob_loop.simps) simp
    then show ?thesis using "1.prems" False by (auto simp: sound_inv_def skip_stars_end)
  next
    case si: True
    show ?thesis
    proof (cases "js_at p px = Some CHR ''?'' \<or> js_at p px = Some (s ! si)")
      case True
      from "1.IH"(1) [OF si True sound_advance [OF "1.prems"(1) si True]] "1.prems"(2,3) show ?thesis
        unfolding glob_loop_unfold(1) [OF si True] by blast
    next
      case nadv: False
      show ?thesis
      proof (cases "js_at p px = Some CHR ''*''")
        case True
        from "1.IH"(2) [OF si nadv True sound_star [OF "1.prems"(1) si True]] "1.prems"(2,3) show ?thesis
          unfolding glob_loop_unfold(2) [OF si nadv True] by blast
      next
        case nstar: False
        show ?thesis
        proof (cases star)
          case None
          then show ?thesis using "1.prems"(2) glob_loop_unfold(4) [OF si nadv nstar] by simp
        next
          case (Some st)
          have "sound_inv p s (st + 1) (mi + 1) (Some st) (mi + 1)"
          proof -
            have st: "st < length p" "mi \<le> si"
              and k: "\<And>k. mi \<le> k \<Longrightarrow> wild (drop (st + 1) p) (drop k s) \<Longrightarrow> wild p s"
              using "1.prems"(1) Some unfolding sound_inv_def by blast+
            have "wild (drop (st + 1) p) (drop (mi + 1) s) \<longrightarrow> wild p s" using k [of "mi + 1"] by simp
            moreover have "\<forall>j \<ge> mi + 1. wild (drop (st + 1) p) (drop j s) \<longrightarrow> wild p s"
              by (intro allI impI, rule k) simp_all
            ultimately show ?thesis unfolding sound_inv_def using st si by simp
          qed
          from "1.IH"(3) [OF si nadv nstar Some this [folded Some]] "1.prems"(2,3) show ?thesis
            unfolding Some glob_loop_unfold(3) [OF si nadv nstar] by blast
        qed
      qed
    qed
  qed
qed

lemma globSegmentMatches_sound: "globSegmentMatches p s \<Longrightarrow> wild p s"
proof -
  assume "globSegmentMatches p s"
  then obtain px where "glob_loop p s 0 0 None 0 = Some px" "skip_stars p px = length p"
    by (auto simp: globSegmentMatches_def split: option.splits)
  moreover have "sound_inv p s 0 0 None 0" by (simp add: sound_inv_def)
  ultimately show "wild p s" by (rule glob_loop_sound [rotated])
qed

section \<open>The memo is sound\<close>

definition memo_ok :: "string list \<Rightarrow> string list \<Rightarrow> (string \<rightharpoonup> bool) \<Rightarrow> bool" where
  "memo_ok ps cs memo =
     (\<forall>i j b. memo (memo_key i j) = Some b \<longrightarrow> b = wild_segments (drop i ps) (drop j cs))"

lemma memo_key_inject: "memo_key i j = memo_key k l \<longleftrightarrow> i = k \<and> j = l"
proof
  assume e: "memo_key i j = memo_key k l"
  have t: "takeWhile (\<lambda>c. c \<noteq> CHR '':'') (memo_key a b) = show_nat a" for a b
    using show_nat_no_char [of "CHR '':''" a] unfolding memo_key_def
    by (subst takeWhile_append2) (auto simp: not_digit_chars)
  have "show_nat i = show_nat k" using t [of i j] t [of k l] e by simp
  then show "i = k \<and> j = l" using e by (simp add: memo_key_def show_nat_inject)
qed simp

lemma memo_ok_upd:
  "memo_ok ps cs memo \<Longrightarrow> b = wild_segments (drop i ps) (drop j cs) \<Longrightarrow> memo_ok ps cs (memo(memo_key i j \<mapsto> b))"
  by (auto simp: memo_ok_def memo_key_inject)

lemma matchAt_sound:
  "memo_ok ps cs memo \<Longrightarrow>
   fst (matchAt ps cs px ci memo) = wild_segments (drop px ps) (drop ci cs) \<and>
   memo_ok ps cs (snd (matchAt ps cs px ci memo))"
proof (induction ps cs px ci memo rule: matchAt.induct)
  case (1 ps cs px ci memo)
  let ?w = "wild_segments (drop px ps) (drop ci cs)"
  show ?case
  proof (cases "memo (memo_key px ci)")
    case (Some b)
    then show ?thesis using 1 by (subst (1 2) matchAt.simps) (auto simp: memo_ok_def)
  next
    case None
    define R where "R = (if px \<ge> length ps then (ci \<ge> length cs, memo)
              else if ps ! px = ''**'' then
                (case matchAt ps cs (px + 1) ci memo of
                   (r, memo1) \<Rightarrow>
                     (if r then (True, memo1)
                      else if ci < length cs then matchAt ps cs px (ci + 1) memo1
                      else (False, memo1)))
              else if ci < length cs \<and> globSegmentMatches (ps ! px) (cs ! ci)
              then matchAt ps cs (px + 1) (ci + 1) memo
              else (False, memo))"
    have e: "matchAt ps cs px ci memo = (fst R, (snd R)(memo_key px ci \<mapsto> fst R))"
      using None by (subst matchAt.simps) (simp add: R_def case_prod_beta Let_def)
    have dc: "ci < length cs \<Longrightarrow> drop ci cs = cs ! ci # drop (ci + 1) cs"
      by (simp add: Cons_nth_drop_Suc)
    have "fst R = ?w \<and> memo_ok ps cs (snd R)"
    proof (cases "px < length ps")
      case False
      then show ?thesis using "1.prems" by (auto simp: R_def)
    next
      case True
      then have dp: "drop px ps = ps ! px # drop (px + 1) ps" by (simp add: Cons_nth_drop_Suc)
      have np: "\<not> length ps \<le> px" using True by simp
      show ?thesis
      proof (cases "ps ! px = ''**''")
        case star: True
        obtain r memo1 where m: "matchAt ps cs (px + 1) ci memo = (r, memo1)" by fastforce
        have h1: "r = wild_segments (drop (px + 1) ps) (drop ci cs)" "memo_ok ps cs memo1"
          using "1.IH"(1) [OF None np star "1.prems"] m by auto
        have h2: "fst (matchAt ps cs px (ci + 1) memo1) = wild_segments (drop px ps) (drop (ci + 1) cs)
            \<and> memo_ok ps cs (snd (matchAt ps cs px (ci + 1) memo1))" if "\<not> r" "ci < length cs"
          by (rule "1.IH"(2) [OF None np star m [symmetric] that h1(2)])
        show ?thesis
        proof (cases "ci < length cs")
          case c: True
          show ?thesis using h1 h2 [OF _ c] np star m c by (auto simp: R_def dp dc [OF c])
        next
          case False
          then have "drop ci cs = []" by simp
          then show ?thesis using h1 np star m False by (auto simp: R_def dp)
        qed
      next
        case nostar: False
        show ?thesis
        proof (cases "ci < length cs \<and> globSegmentMatches (ps ! px) (cs ! ci)")
          case c: True
          then show ?thesis using "1.IH"(3) [OF None np nostar c "1.prems"] np nostar
            by (simp add: R_def dp dc)
        next
          case False
          then show ?thesis using "1.prems" np nostar dc
            by (cases "ci < length cs") (auto simp: R_def dp)
        qed
      qed
    qed
    then have a: "fst R = ?w" and b: "memo_ok ps cs (snd R)" by auto
    show ?thesis unfolding e fst_conv snd_conv using a memo_ok_upd [OF b a] by (rule conjI)
  qed
qed

section \<open>Properties\<close>

text \<open>
  The one-star backtracking loop decides exactly the textbook wildcard relation, whenever no
  literal asterisk in the candidate can meet an asterisk of the pattern.
\<close>

theorem glob_segment_is_wildcard_match:
  assumes "CHR ''*'' \<notin> set p \<or> CHR ''*'' \<notin> set s"
  shows "globSegmentMatches p s = wild p s"
  using assms by (intro globSegmentMatches_wild) blast

text \<open>
  The loop never accepts too much: whatever the two strings hold, an accepted segment is in
  the wildcard relation.
\<close>

theorem glob_segment_never_overmatches:
  assumes "globSegmentMatches p s"
  shows "wild p s"
  using assms by (rule globSegmentMatches_sound)

text \<open>
  Completeness does need the proviso: an asterisk of the candidate consumes the pattern's
  star as if it were a literal, so the pattern \<open>*\<close>, which matches everything, rejects the
  segment \<open>*a\<close>.
\<close>

theorem glob_star_rejects_literal_star:
  "\<not> globSegmentMatches ''*'' ''*a'' \<and> wild ''*'' ''*a''"
proof -
  have "glob_loop ''*'' ''*a'' (Suc 0) (Suc 0) None 0 = None"
    by (subst glob_loop.simps) (simp add: js_at_def)
  moreover have "glob_loop ''*'' ''*a'' 0 0 None 0 = glob_loop ''*'' ''*a'' (Suc 0) (Suc 0) None 0"
    by (subst glob_loop.simps) (simp add: js_at_def)
  ultimately have "glob_loop ''*'' ''*a'' 0 0 None 0 = None" by simp
  then show ?thesis by (simp add: globSegmentMatches_def)
qed

text \<open>
  The memoised matcher over segments is the plain recursion, in which \<open>**\<close> takes zero or more
  segments: memoising changes the cost and nothing else.
\<close>

theorem globSegmentsMatch_is_recursion: "globSegmentsMatch ps cs = wild_segments ps cs"
  using matchAt_sound [of ps cs Map.empty 0 0] by (simp add: globSegmentsMatch_def memo_ok_def)

text \<open>
  A pattern that \<open>containsGlobPattern\<close> calls plain is compared literally.
\<close>

theorem glob_plain_is_equality:
  assumes "\<not> containsGlobPattern p"
  shows "globSegmentMatches p s = (p = s)"
proof -
  have "CHR ''*'' \<notin> set p" and "CHR ''?'' \<notin> set p"
    using assms by (auto simp: containsGlobPattern_def list_ex_iff)
  then show ?thesis by (simp add: globSegmentMatches_wild wild_literal)
qed

theorem glob_segment_is_wildcard_match_witness: "globSegmentMatches ''*.t?'' ''index.ts'' = wild ''*.t?'' ''index.ts''"
  by (rule glob_segment_is_wildcard_match) simp

theorem glob_plain_is_equality_witness: "\<not> globSegmentMatches ''src'' ''srcs''"
proof -
  have "\<not> containsGlobPattern ''src''" by (simp add: containsGlobPattern_def)
  from glob_plain_is_equality [OF this, of "''srcs''"] show ?thesis by simp
qed

theorem glob_segment_never_overmatches_witness: "wild ''*.ts'' ''a.ts''"
proof (rule glob_segment_never_overmatches)
  show "globSegmentMatches ''*.ts'' ''a.ts''" by (simp add: globSegmentMatches_wild)
qed

end
