(* ===== verification/Js_Url.thy ===== *)
theory Js_Url
  imports Js_Base
begin

text \<open>
  The platform's \<open>URL\<close> object, as far as the sources read it. The parser \<open>new URL(text)\<close> is not
  modelled: it is a parameter \<open>parse\<close> of the definitions that use it, \<^const>\<open>None\<close> where the
  constructor throws. \<open>url.host\<close> is the host name with the port, when there is one that is not
  the protocol's default.
\<close>

record js_url =
  url_protocol :: string
  url_username :: string
  url_password :: string
  url_hostname :: string
  url_port :: string
  url_pathname :: string
  url_href :: string

type_synonym url_parser = "string \<Rightarrow> js_url option"

definition url_host :: "js_url \<Rightarrow> string" where
  "url_host u = url_hostname u @ (if url_port u = [] then [] else CHR '':'' # url_port u)"

definition has_credentials :: "js_url \<Rightarrow> bool" where
  "has_credentials u = (url_username u \<noteq> [] \<or> url_password u \<noteq> [])"

end
