(* ===== verification/Network_Allowlist.thy ===== *)
theory Network_Allowlist
  imports Glob_Match Js_Url
begin

text \<open>
  \<^verbatim>\<open>src/bun/plugin/network-allowlist.ts\<close>: the patterns a plugin's manifest may list for its
  network access, their compilation, and the decision about a request URL. The URL parser is a
  parameter; a request URL is its text (\<open>requestUrl.toString()\<close>).
\<close>

datatype network_kind = Fetch | Websocket

record allow_pattern =
  allDomains :: bool
  pat_host :: string
  pat_pathname :: string
  pat_protocol :: string
  pat_source :: string

datatype issue_code =
    CredentialedAllowPattern | InvalidAllowPattern | HttpsRequired | UnsafeAllDomainRequired

record compile_issue =
  issue_code :: issue_code
  issue_index :: nat
  issue_message :: string
  issue_pattern :: string

datatype match_failure = CredentialedUrl | InvalidUrl | UrlNotAllowed

datatype match_result =
    MatchAllowed allow_pattern js_url
  | MatchRefused match_failure string "js_url option"

record allowlist_error =
  err_code :: match_failure
  err_message :: string
  err_url :: string

definition fetch_protocols :: "string list" where
  "fetch_protocols = [''http:'', ''https:'']"

definition websocket_protocols :: "string list" where
  "websocket_protocols = [''ws:'', ''wss:'']"

text \<open>The regular expression \<open>/^[a-zA-Z][a-zA-Z0-9+.-]*:\/\//\<close>.\<close>

definition scheme_char :: "char \<Rightarrow> bool" where
  "scheme_char c = (is_alpha c \<or> is_digit c \<or> c \<in> {CHR ''+'', CHR ''.'', CHR ''-''})"

definition has_scheme_prefix :: "string \<Rightarrow> bool" where
  "has_scheme_prefix s =
     (case s of [] \<Rightarrow> False
      | c # cs \<Rightarrow> is_alpha c \<and> starts_with ''://'' (dropWhile scheme_char cs))"

definition patternWithDefaultProtocol :: "string \<Rightarrow> string \<Rightarrow> string" where
  "patternWithDefaultProtocol pattern defaultProtocol =
     (if has_scheme_prefix pattern then pattern
      else if starts_with ''//'' pattern then defaultProtocol @ '':'' @ pattern
      else defaultProtocol @ ''://'' @ pattern)"

definition pathnameSegments :: "string \<Rightarrow> string list" where
  "pathnameSegments pathname =
     (let withoutLeadingSlash = (if starts_with ''/'' pathname then drop 1 pathname else pathname) in
      if withoutLeadingSlash = [] then [] else split_char CHR ''/'' withoutLeadingSlash)"

definition pathnameMatchesPattern :: "string \<Rightarrow> string \<Rightarrow> bool" where
  "pathnameMatchesPattern patternPathname pathname =
     (if \<not> containsGlobPattern patternPathname then patternPathname = pathname
      else globSegmentsMatch (pathnameSegments patternPathname) (pathnameSegments pathname))"

definition isAllDomainHostPattern :: "string \<Rightarrow> bool" where
  "isAllDomainHostPattern hostname = (hostname = ''*'' \<or> hostname = ''**'')"

text \<open>\<open>/^(?:\*|\*\*):(\d+)$/u\<close>, the port an all-domain pattern asks for.\<close>

definition allDomainPort :: "string \<Rightarrow> string option" where
  "allDomainPort host =
     (if starts_with ''*:'' host \<and> all_digits (drop 2 host) then Some (drop 2 host)
      else if starts_with ''**:'' host \<and> all_digits (drop 3 host) then Some (drop 3 host)
      else None)"

definition effectiveUrlPort :: "js_url \<Rightarrow> string" where
  "effectiveUrlPort url =
     (if url_port url \<noteq> [] then url_port url
      else if url_protocol url = ''https:'' \<or> url_protocol url = ''wss:'' then ''443''
      else if url_protocol url = ''http:'' \<or> url_protocol url = ''ws:'' then ''80''
      else [])"

definition hostMatchesPattern :: "allow_pattern \<Rightarrow> js_url \<Rightarrow> bool" where
  "hostMatchesPattern pattern url =
     (if \<not> allDomains pattern then pat_host pattern = js_lower (url_host url)
      else (case allDomainPort (pat_host pattern) of
              None \<Rightarrow> True
            | Some requiredPort \<Rightarrow> requiredPort = effectiveUrlPort url))"

text \<open>
  One round of the compile loop: the issues it pushes for its pattern and the pattern itself
  when none of them was blocking (all are).
\<close>

definition compileOne ::
  "url_parser \<Rightarrow> bool option \<Rightarrow> bool \<Rightarrow> network_kind \<Rightarrow> nat \<Rightarrow> string \<Rightarrow> compile_issue list \<times> allow_pattern list" where
  "compileOne parse allowUnsafeAllDomains enforceHttps kind index pattern =
     (let allowedProtocols = (if kind = Websocket then websocket_protocols else fetch_protocols);
          defaultProtocol = (if kind = Websocket then ''wss'' else ''https'');
          secureProtocol = (if kind = Websocket then ''wss:'' else ''https:'') in
      case parse (patternWithDefaultProtocol pattern defaultProtocol) of
        None \<Rightarrow>
          ([\<lparr> issue_code = InvalidAllowPattern, issue_index = index,
              issue_message = ''Expected an http(s) URL pattern with a valid host.'',
              issue_pattern = pattern \<rparr>], [])
      | Some url \<Rightarrow>
          (let all = isAllDomainHostPattern (url_hostname url);
               issues =
                 (if url_protocol url \<notin> set allowedProtocols
                  then [\<lparr> issue_code = InvalidAllowPattern, issue_index = index,
                    issue_message = (if kind = Websocket then ''Expected a ws or wss URL pattern.''
                      else ''Expected an http or https URL pattern.''),
                    issue_pattern = pattern \<rparr>] else []) @
                 (if has_credentials url
                  then [\<lparr> issue_code = CredentialedAllowPattern, issue_index = index,
                    issue_message = ''URL allow patterns must not include credentials.'',
                    issue_pattern = pattern \<rparr>] else []) @
                 (if url_hostname url = [] \<or> (containsGlobPattern (url_hostname url) \<and> \<not> all)
                  then [\<lparr> issue_code = InvalidAllowPattern, issue_index = index,
                    issue_message = ''URL allow patterns must include a valid literal host, or use https://**/** with the unsafe permission for all-domain access.'',
                    issue_pattern = pattern \<rparr>] else []) @
                 (if all \<and> allowUnsafeAllDomains \<noteq> Some True
                  then [\<lparr> issue_code = UnsafeAllDomainRequired, issue_index = index,
                    issue_message = ''All-domain network allow patterns require the plugin to declare the unsafe permission.'',
                    issue_pattern = pattern \<rparr>] else []) @
                 (if enforceHttps \<and> url_protocol url \<noteq> secureProtocol
                  then [\<lparr> issue_code = HttpsRequired, issue_index = index,
                    issue_message = (if kind = Websocket
                      then ''network.enforceHttps defaults to true; use wss URL patterns or set enforceHttps to false explicitly.''
                      else ''network.enforceHttps defaults to true; use https URL patterns or set enforceHttps to false explicitly.''),
                    issue_pattern = pattern \<rparr>] else []) in
           (issues,
            if issues = []
            then [\<lparr> allDomains = all, pat_host = js_lower (url_host url), pat_pathname = url_pathname url,
                    pat_protocol = url_protocol url, pat_source = pattern \<rparr>]
            else [])))"

record compile_input =
  in_allowUnsafeAllDomains :: "bool option"
  in_enforceHttps :: "bool option"
  in_kind :: "network_kind option"
  in_patterns :: "string list"

definition kind_of :: "compile_input \<Rightarrow> network_kind" where
  "kind_of input = (case in_kind input of None \<Rightarrow> Fetch | Some k \<Rightarrow> k)"

definition enforced :: "compile_input \<Rightarrow> bool" where
  "enforced input = (case in_enforceHttps input of None \<Rightarrow> True | Some b \<Rightarrow> b)"

definition compilePluginNetworkAllowlist ::
  "url_parser \<Rightarrow> compile_input \<Rightarrow> compile_issue list \<times> allow_pattern list" where
  "compilePluginNetworkAllowlist parse input =
     foldl (\<lambda>(issues, patterns) (index, pattern).
        (case compileOne parse (in_allowUnsafeAllDomains input) (enforced input) (kind_of input) index pattern of
           (is, ps) \<Rightarrow> (issues @ is, patterns @ ps)))
       ([], []) (zip [0..<length (in_patterns input)] (in_patterns input))"

definition matchPluginNetworkAllowlist :: "url_parser \<Rightarrow> allow_pattern list \<Rightarrow> string \<Rightarrow> match_result" where
  "matchPluginNetworkAllowlist parse allowlist rawUrl =
     (case parse rawUrl of
        None \<Rightarrow> MatchRefused InvalidUrl ''Expected an http(s) or ws(s) URL with a valid host.'' None
      | Some url \<Rightarrow>
          (if url_protocol url \<notin> set (fetch_protocols @ websocket_protocols) \<or> url_hostname url = []
           then MatchRefused InvalidUrl ''Expected an http(s) or ws(s) URL with a valid host.'' None
           else if has_credentials url
           then MatchRefused CredentialedUrl ''Plugin fetch URLs must not include credentials.'' (Some url)
           else (case find (\<lambda>pattern. pat_protocol pattern = url_protocol url \<and>
                     hostMatchesPattern pattern url \<and>
                     pathnameMatchesPattern (pat_pathname pattern) (url_pathname url)) allowlist of
                   Some m \<Rightarrow> MatchAllowed m url
                 | None \<Rightarrow> MatchRefused UrlNotAllowed ''Plugin fetch URL is not covered by network.allow.'' (Some url))))"

definition assertPluginNetworkUrlAllowed :: "url_parser \<Rightarrow> allow_pattern list \<Rightarrow> string \<Rightarrow> allowlist_error + js_url" where
  "assertPluginNetworkUrlAllowed parse allowlist requestUrl =
     (case matchPluginNetworkAllowlist parse allowlist requestUrl of
        MatchAllowed _ url \<Rightarrow> Inr url
      | MatchRefused code message _ \<Rightarrow> Inl \<lparr> err_code = code, err_message = message, err_url = requestUrl \<rparr>)"

section \<open>Compilation\<close>

lemma compile_fold:
  "foldl (\<lambda>(issues, patterns) (index, pattern).
        (case f index pattern of (is, ps) \<Rightarrow> (issues @ is, patterns @ ps))) (a, b) xs =
   (a @ concat (map (\<lambda>(i, p). fst (f i p)) xs), b @ concat (map (\<lambda>(i, p). snd (f i p)) xs))"
  by (induction xs arbitrary: a b) (auto split: prod.splits)

lemma compile_concat:
  "compilePluginNetworkAllowlist parse input =
   (let one = compileOne parse (in_allowUnsafeAllDomains input) (enforced input) (kind_of input);
        xs = zip [0..<length (in_patterns input)] (in_patterns input) in
    (concat (map (\<lambda>(i, p). fst (one i p)) xs), concat (map (\<lambda>(i, p). snd (one i p)) xs)))"
  by (simp add: compilePluginNetworkAllowlist_def compile_fold Let_def)

lemma set_enumerate: "(i, p) \<in> set (zip [0..<length xs] xs) \<longleftrightarrow> i < length xs \<and> p = xs ! i"
  by (auto simp: set_zip intro: exI [of _ i])

lemma compiled_from:
  assumes "q \<in> set (snd (compilePluginNetworkAllowlist parse input))"
  shows "\<exists>i < length (in_patterns input). q \<in> set (snd (compileOne parse (in_allowUnsafeAllDomains input)
    (enforced input) (kind_of input) i (in_patterns input ! i)))"
  using assms by (fastforce simp: compile_concat Let_def set_enumerate)

lemma compiled_into:
  assumes "i < length (in_patterns input)" and "q \<in> set (snd (compileOne parse (in_allowUnsafeAllDomains input)
    (enforced input) (kind_of input) i (in_patterns input ! i)))"
  shows "q \<in> set (snd (compilePluginNetworkAllowlist parse input))"
proof -
  have "(i, in_patterns input ! i) \<in> set (zip [0..<length (in_patterns input)] (in_patterns input))"
    using assms(1) by (simp add: set_enumerate)
  with assms(2) show ?thesis unfolding compile_concat Let_def snd_conv set_concat set_map by blast
qed

lemma compileOne_pattern:
  assumes "q \<in> set (snd (compileOne parse unsafe enf kind i p))"
  shows "\<exists>url. parse (patternWithDefaultProtocol p (if kind = Websocket then ''wss'' else ''https'')) = Some url \<and>
    fst (compileOne parse unsafe enf kind i p) = [] \<and>
    q = \<lparr> allDomains = isAllDomainHostPattern (url_hostname url), pat_host = js_lower (url_host url),
          pat_pathname = url_pathname url, pat_protocol = url_protocol url, pat_source = p \<rparr> \<and>
    url_protocol url \<in> set (if kind = Websocket then websocket_protocols else fetch_protocols) \<and>
    \<not> has_credentials url \<and> url_hostname url \<noteq> [] \<and>
    (containsGlobPattern (url_hostname url) \<longrightarrow> isAllDomainHostPattern (url_hostname url)) \<and>
    (isAllDomainHostPattern (url_hostname url) \<longrightarrow> unsafe = Some True) \<and>
    (enf \<longrightarrow> url_protocol url = (if kind = Websocket then ''wss:'' else ''https:''))"
proof (cases "parse (patternWithDefaultProtocol p (if kind = Websocket then ''wss'' else ''https''))")
  case None
  then show ?thesis using assms by (simp add: compileOne_def)
next
  case (Some url)
  show ?thesis using assms unfolding compileOne_def Let_def Some option.case snd_conv fst_conv
    by (simp split: if_split_asm)
qed

lemma compileOne_index: "x \<in> set (fst (compileOne parse unsafe enf kind i p)) \<Longrightarrow> issue_index x = i"
  by (auto simp: compileOne_def Let_def split: option.splits if_split_asm)

lemma compileOne_snd:
  "map pat_source (snd (compileOne parse unsafe enf kind i p)) =
   (if fst (compileOne parse unsafe enf kind i p) = [] then [p] else [])"
  by (auto simp: compileOne_def Let_def split: option.splits)

lemma concat_if_filter: "concat (map (\<lambda>x. if P x then [f x] else []) xs) = map f (filter P xs)"
  by (induction xs) auto

section \<open>The decision\<close>

text \<open>What a pattern path covers, in terms of the wildcard relation of a segment.\<close>

fun wild_path :: "string list \<Rightarrow> string list \<Rightarrow> bool" where
  "wild_path [] cs = (cs = [])"
| "wild_path (p # ps) [] = (p = ''**'' \<and> wild_path ps [])"
| "wild_path (p # ps) (c # cs) =
     (if p = ''**'' then wild_path ps (c # cs) \<or> wild_path (p # ps) cs
      else wild p c \<and> wild_path ps cs)"

lemma wild_segments_path: "wild_segments ps cs \<Longrightarrow> wild_path ps cs"
  by (induction ps cs rule: wild_segments.induct) (auto split: if_splits intro: globSegmentMatches_sound)

definition path_covered :: "string \<Rightarrow> string \<Rightarrow> bool" where
  "path_covered pattern path = (path = pattern \<or> wild_path (pathnameSegments pattern) (pathnameSegments path))"

lemma pathnameMatches_covered: "pathnameMatchesPattern p q \<Longrightarrow> path_covered p q"
  using matchAt_sound [of "pathnameSegments p" "pathnameSegments q" Map.empty 0 0]
  by (auto simp: pathnameMatchesPattern_def path_covered_def globSegmentsMatch_def memo_ok_def
      intro: wild_segments_path split: if_splits)

lemma assert_allowed:
  assumes "assertPluginNetworkUrlAllowed parse allowlist raw = Inr url"
  shows "parse raw = Some url \<and> \<not> has_credentials url \<and> url_hostname url \<noteq> [] \<and>
    (\<exists>q \<in> set allowlist. pat_protocol q = url_protocol url \<and> hostMatchesPattern q url \<and>
       pathnameMatchesPattern (pat_pathname q) (url_pathname url))"
  using assms
  by (auto simp: assertPluginNetworkUrlAllowed_def matchPluginNetworkAllowlist_def find_Some_iff
      split: option.splits if_split_asm match_result.splits)

lemma js_lower_digits: "list_all is_digit s \<Longrightarrow> js_lower s = s"
  by (induction s) (auto simp: js_lower_def js_lower_char_def is_digit_def Let_def)

lemma allDomainPort_of:
  assumes "isAllDomainHostPattern (url_hostname pu)" and "all_digits (url_port pu)"
  shows "allDomainPort (js_lower (url_host pu)) = Some (url_port pu)"
proof -
  have "js_lower (url_host pu) = url_hostname pu @ '':'' @ url_port pu"
    using assms js_lower_digits [of "url_port pu"]
    by (auto simp: url_host_def isAllDomainHostPattern_def all_digits_def js_lower_def js_lower_char_def Let_def)
  then show ?thesis
    using assms by (auto simp: allDomainPort_def isAllDomainHostPattern_def starts_with_def)
qed

lemma request_confined:
  assumes "assertPluginNetworkUrlAllowed parse (snd (compilePluginNetworkAllowlist parse input)) raw = Inr url"
  shows "parse raw = Some url \<and> \<not> has_credentials url \<and>
    (enforced input \<longrightarrow> url_protocol url = (if kind_of input = Websocket then ''wss:'' else ''https:'')) \<and>
    (\<exists>p \<in> set (in_patterns input). \<exists>pu.
       parse (patternWithDefaultProtocol p (if kind_of input = Websocket then ''wss'' else ''https'')) = Some pu \<and>
       url_protocol pu = url_protocol url \<and> \<not> has_credentials pu \<and>
       path_covered (url_pathname pu) (url_pathname url) \<and>
       (if url_hostname pu \<in> {''*'', ''**''}
        then in_allowUnsafeAllDomains input = Some True \<and>
          (all_digits (url_port pu) \<longrightarrow> effectiveUrlPort url = url_port pu)
        else \<not> containsGlobPattern (url_hostname pu) \<and> js_lower (url_host url) = js_lower (url_host pu)))"
proof -
  from assert_allowed [OF assms] obtain q where
    q: "q \<in> set (snd (compilePluginNetworkAllowlist parse input))" "pat_protocol q = url_protocol url"
      "hostMatchesPattern q url" "pathnameMatchesPattern (pat_pathname q) (url_pathname url)"
    and c: "parse raw = Some url" "\<not> has_credentials url" by blast
  from compiled_from [OF q(1)] obtain i where i: "i < length (in_patterns input)"
    and "q \<in> set (snd (compileOne parse (in_allowUnsafeAllDomains input) (enforced input) (kind_of input) i
      (in_patterns input ! i)))" by blast
  from compileOne_pattern [OF this(2)] obtain pu where
    pu: "parse (patternWithDefaultProtocol (in_patterns input ! i)
          (if kind_of input = Websocket then ''wss'' else ''https'')) = Some pu"
    and qe: "q = \<lparr> allDomains = isAllDomainHostPattern (url_hostname pu), pat_host = js_lower (url_host pu),
          pat_pathname = url_pathname pu, pat_protocol = url_protocol pu, pat_source = in_patterns input ! i \<rparr>"
    and creds: "\<not> has_credentials pu"
    and lit: "containsGlobPattern (url_hostname pu) \<longrightarrow> isAllDomainHostPattern (url_hostname pu)"
    and unsafe: "isAllDomainHostPattern (url_hostname pu) \<longrightarrow> in_allowUnsafeAllDomains input = Some True"
    and sec: "enforced input \<longrightarrow> url_protocol pu = (if kind_of input = Websocket then ''wss:'' else ''https:'')"
    by blast
  have proto: "url_protocol pu = url_protocol url" using q(2) qe by simp
  have host: "if url_hostname pu \<in> {''*'', ''**''}
      then in_allowUnsafeAllDomains input = Some True \<and>
        (all_digits (url_port pu) \<longrightarrow> effectiveUrlPort url = url_port pu)
      else \<not> containsGlobPattern (url_hostname pu) \<and> js_lower (url_host url) = js_lower (url_host pu)"
  proof (cases "isAllDomainHostPattern (url_hostname pu)")
    case True
    then have "effectiveUrlPort url = url_port pu" if d: "all_digits (url_port pu)"
      using q(3) qe allDomainPort_of [OF True d] by (simp add: hostMatchesPattern_def)
    then show ?thesis using True unsafe by (simp add: isAllDomainHostPattern_def)
  next
    case False
    then have "pat_host q = js_lower (url_host url)" using q(3) qe by (simp add: hostMatchesPattern_def)
    then show ?thesis using False lit qe by (auto simp: isAllDomainHostPattern_def)
  qed
  have "path_covered (url_pathname pu) (url_pathname url)" using pathnameMatches_covered q(4) qe by simp
  then show ?thesis using c pu proto creds host sec nth_mem [OF i] by metis
qed

section \<open>Properties\<close>

text \<open>
  Every pattern is accounted for: the compiled patterns are, in order, exactly the input
  patterns for which no issue is reported, whatever the URL parser and the options are.
\<close>

theorem allowlist_every_pattern_accounted:
  "map pat_source (snd (compilePluginNetworkAllowlist parse input)) =
     map (\<lambda>i. in_patterns input ! i)
       (filter (\<lambda>i. i \<notin> issue_index ` set (fst (compilePluginNetworkAllowlist parse input)))
         [0..<length (in_patterns input)])"
proof -
  let ?xs = "in_patterns input"
  let ?one = "compileOne parse (in_allowUnsafeAllDomains input) (enforced input) (kind_of input)"
  have z: "zip [0..<length ?xs] ?xs = map (\<lambda>i. (i, ?xs ! i)) [0..<length ?xs]"
    by (rule nth_equalityI) simp_all
  have has: "i \<in> issue_index ` set (fst (compilePluginNetworkAllowlist parse input)) \<longleftrightarrow>
      fst (?one i (?xs ! i)) \<noteq> []" if "i < length ?xs" for i
  proof
    assume "i \<in> issue_index ` set (fst (compilePluginNetworkAllowlist parse input))"
    then obtain x j where "issue_index x = i" "x \<in> set (fst (?one j (?xs ! j)))"
      by (auto simp: compile_concat Let_def z)
    then show "fst (?one i (?xs ! i)) \<noteq> []" using compileOne_index by fastforce
  next
    assume "fst (?one i (?xs ! i)) \<noteq> []"
    then obtain x where x: "x \<in> set (fst (?one i (?xs ! i)))" by (meson list.set_sel(1))
    then have "x \<in> set (fst (compilePluginNetworkAllowlist parse input))"
      using that by (auto simp: compile_concat Let_def z)
    then show "i \<in> issue_index ` set (fst (compilePluginNetworkAllowlist parse input))"
      using compileOne_index [OF x] by force
  qed
  have "map pat_source (snd (compilePluginNetworkAllowlist parse input)) =
      concat (map (\<lambda>i. if fst (?one i (?xs ! i)) = [] then [?xs ! i] else []) [0..<length ?xs])"
    by (simp add: compile_concat Let_def z map_concat comp_def compileOne_snd)
  also have "\<dots> = map (\<lambda>i. ?xs ! i) (filter (\<lambda>i. fst (?one i (?xs ! i)) = []) [0..<length ?xs])"
    by (rule concat_if_filter)
  also have "filter (\<lambda>i. fst (?one i (?xs ! i)) = []) [0..<length ?xs] =
      filter (\<lambda>i. i \<notin> issue_index ` set (fst (compilePluginNetworkAllowlist parse input))) [0..<length ?xs]"
    using has by (intro filter_cong) auto
  finally show ?thesis .
qed


text \<open>
  The converse for plain patterns: a pattern that compiles without an issue and whose path
  holds no glob character lets its own URL through, also when the URL is spelled differently, as
  long as it parses to the same protocol, host, path and no credentials.
\<close>

theorem allowlist_plain_pattern_admits:
  assumes "i < length (in_patterns input)"
    and "fst (compileOne parse (in_allowUnsafeAllDomains input) (enforced input) (kind_of input) i
           (in_patterns input ! i)) = []"
    and "parse (patternWithDefaultProtocol (in_patterns input ! i)
           (if kind_of input = Websocket then ''wss'' else ''https'')) = Some pu"
    and "\<not> isAllDomainHostPattern (url_hostname pu)" and "\<not> containsGlobPattern (url_pathname pu)"
    and "parse raw = Some url" and "url_protocol url = url_protocol pu" and "url_hostname url \<noteq> []"
    and "url_host url = url_host pu" and "url_pathname url = url_pathname pu" and "\<not> has_credentials url"
  shows "assertPluginNetworkUrlAllowed parse (snd (compilePluginNetworkAllowlist parse input)) raw = Inr url"
proof -
  let ?one = "compileOne parse (in_allowUnsafeAllDomains input) (enforced input) (kind_of input) i (in_patterns input ! i)"
  define q where "q = \<lparr> allDomains = isAllDomainHostPattern (url_hostname pu), pat_host = js_lower (url_host pu),
          pat_pathname = url_pathname pu, pat_protocol = url_protocol pu, pat_source = in_patterns input ! i \<rparr>"
  have "snd ?one \<noteq> []" 
    using arg_cong [OF compileOne_snd [of parse "in_allowUnsafeAllDomains input" "enforced input" "kind_of input" i
      "in_patterns input ! i"], of length] assms(2) by auto
  then obtain q' where q': "q' \<in> set (snd ?one)" by (meson list.set_sel(1))
  from compileOne_pattern [OF this] obtain pu' where
    "parse (patternWithDefaultProtocol (in_patterns input ! i)
           (if kind_of input = Websocket then ''wss'' else ''https'')) = Some pu'"
    and q'e: "q' = \<lparr> allDomains = isAllDomainHostPattern (url_hostname pu'), pat_host = js_lower (url_host pu'),
          pat_pathname = url_pathname pu', pat_protocol = url_protocol pu', pat_source = in_patterns input ! i \<rparr>"
    and proto': "url_protocol pu' \<in> set (if kind_of input = Websocket then websocket_protocols else fetch_protocols)"
    by blast
  then have "pu' = pu" using assms(3) by simp
  then have qe: "q' = q" and proto: "url_protocol pu \<in> set (fetch_protocols @ websocket_protocols)"
    using q'e proto' by (simp_all add: q_def split: if_split_asm)
  have mem: "q \<in> set (snd (compilePluginNetworkAllowlist parse input))"
    using compiled_into [OF assms(1) q'] qe by simp
  let ?P = "\<lambda>pattern. pat_protocol pattern = url_protocol url \<and> hostMatchesPattern pattern url \<and>
    pathnameMatchesPattern (pat_pathname pattern) (url_pathname url)"
  have "?P q" using assms(4,5,7,9,10) by (simp add: q_def hostMatchesPattern_def pathnameMatchesPattern_def)
  then have "find ?P (snd (compilePluginNetworkAllowlist parse input)) \<noteq> None"
    using mem unfolding find_None_iff by blast
  then obtain m where f: "find ?P (snd (compilePluginNetworkAllowlist parse input)) = Some m" by blast
  have "url_protocol url \<in> set (fetch_protocols @ websocket_protocols)" unfolding assms(7) by (rule proto)
  then have "\<not> (url_protocol url \<notin> set (fetch_protocols @ websocket_protocols) \<or> url_hostname url = [])"
    using assms(8) by blast
  then show ?thesis
    unfolding assertPluginNetworkUrlAllowed_def matchPluginNetworkAllowlist_def assms(6) option.case
    using assms(11) by (simp only: f if_False option.case match_result.case)
qed

section \<open>Witnesses\<close>

text \<open>A parser that knows three texts.\<close>

definition demo_url :: "string \<Rightarrow> js_url" where
  "demo_url path = \<lparr> url_protocol = ''https:'', url_username = [], url_password = [],
     url_hostname = ''api.example.com'', url_port = [], url_pathname = path,
     url_href = ''https://api.example.com'' @ path \<rparr>"

definition demo_parse :: url_parser where
  "demo_parse s = (if s = ''https://api.example.com/v1'' then Some (demo_url ''/v1'') else None)"

definition demo_input :: compile_input where
  "demo_input = \<lparr> in_allowUnsafeAllDomains = None, in_enforceHttps = None, in_kind = None,
     in_patterns = [''api.example.com/v1''] \<rparr>"

lemma demo_default_protocol:
  "patternWithDefaultProtocol ''api.example.com/v1'' ''https'' = ''https://api.example.com/v1''"
  by (simp add: patternWithDefaultProtocol_def has_scheme_prefix_def starts_with_def scheme_char_def
      is_alpha_def is_lower_def is_upper_def is_digit_def)

lemma demo_facts:
  "in_patterns demo_input = [''api.example.com/v1'']" "kind_of demo_input = Fetch" "enforced demo_input"
  "in_allowUnsafeAllDomains demo_input = None"
  "url_protocol (demo_url path) = ''https:''" "url_hostname (demo_url path) = ''api.example.com''"
  "url_pathname (demo_url path) = path" "\<not> has_credentials (demo_url path)"
  "\<not> isAllDomainHostPattern ''api.example.com''" "\<not> containsGlobPattern ''api.example.com''"
  "\<not> containsGlobPattern ''/v1''" "demo_parse ''https://api.example.com/v1'' = Some (demo_url ''/v1'')"
  by (simp_all add: demo_input_def kind_of_def enforced_def demo_url_def has_credentials_def
      isAllDomainHostPattern_def containsGlobPattern_def demo_parse_def)

lemma demo_compiled:
  "compileOne demo_parse None True Fetch 0 ''api.example.com/v1'' =
     ([], [\<lparr> allDomains = False, pat_host = js_lower (url_host (demo_url ''/v1'')), pat_pathname = ''/v1'',
            pat_protocol = ''https:'', pat_source = ''api.example.com/v1'' \<rparr>])"
  by (simp add: compileOne_def Let_def demo_default_protocol demo_facts fetch_protocols_def)

lemma demo_admits:
  "assertPluginNetworkUrlAllowed demo_parse (snd (compilePluginNetworkAllowlist demo_parse demo_input))
     ''https://api.example.com/v1'' = Inr (demo_url ''/v1'')"
proof -
  have "snd (compilePluginNetworkAllowlist demo_parse demo_input) =
      snd (compileOne demo_parse None True Fetch 0 ''api.example.com/v1'')"
    by (simp add: compile_concat Let_def demo_facts(1-4))
  then show ?thesis
    by (simp add: demo_compiled assertPluginNetworkUrlAllowed_def matchPluginNetworkAllowlist_def
        demo_facts hostMatchesPattern_def pathnameMatchesPattern_def fetch_protocols_def)
qed


theorem allowlist_plain_pattern_admits_witness:
  "assertPluginNetworkUrlAllowed demo_parse (snd (compilePluginNetworkAllowlist demo_parse demo_input))
     ''https://api.example.com/v1'' = Inr (demo_url ''/v1'')"
  by (rule allowlist_plain_pattern_admits [of 0 _ _ "demo_url ''/v1''"])
    (simp_all add: demo_facts demo_compiled demo_default_protocol)

end
