(* ===== verification/Ip_Address.thy ===== *)
theory Ip_Address
  imports Js_Base "HOL-Library.Word"
begin

unbundle bit_operations_syntax

text \<open>
  \<^verbatim>\<open>src/bun/outbound-url-security.ts\<close>, first part: the textual IPv4 and IPv6 parsers and the
  blocked ranges. Octets and hextets are natural numbers, combined with the bit operations of
  the source (all operands stay far below 2^31, where JavaScript's 32-bit operators are these).
\<close>

text \<open>
  \<open>Number.parseInt(s, 10)\<close>: leading white space, a sign, then the longest run of digits;
  \<^const>\<open>None\<close> is \<open>NaN\<close>. \<open>String(n)\<close> is exact below 2^53, and larger results are rejected anyway
  for exceeding 255. The minus sign of \<open>-0\<close> is lost by \<open>String\<close>, as here.
\<close>

definition parse_int :: "string \<Rightarrow> int option" where
  "parse_int s =
     (let t = dropWhile js_ws s;
          neg = (t \<noteq> [] \<and> hd t = CHR ''-'');
          u = (if t \<noteq> [] \<and> (hd t = CHR ''-'' \<or> hd t = CHR ''+'') then tl t else t);
          ds = takeWhile is_digit u in
      if ds = [] then None else Some ((if neg then -1 else 1) * int (digits_val ds)))"

definition parseIpv4Address :: "string \<Rightarrow> nat list option" where
  "parseIpv4Address hostname =
     (let parts = split_char CHR ''.'' hostname in
      if length parts \<noteq> 4 then None
      else (let parsed = map parse_int parts in
        if list_ex (\<lambda>(part, original). case part of
             None \<Rightarrow> True
           | Some n \<Rightarrow> show_int n \<noteq> original \<or> n < 0 \<or> n > 255) (zip parsed parts)
        then None
        else Some (map (\<lambda>part. nat (the part)) parsed)))"

text \<open>The tests on the first two octets.\<close>

definition blocked_octets :: "nat \<Rightarrow> nat \<Rightarrow> bool" where
  "blocked_octets first second =
     (first = 0 \<or> first = 10 \<or> first = 127 \<or> (first = 169 \<and> second = 254) \<or>
      (first = 172 \<and> second \<ge> 16 \<and> second \<le> 31) \<or> (first = 192 \<and> second = 168) \<or>
      (first = 100 \<and> second \<ge> 64 \<and> second \<le> 127) \<or> (first = 198 \<and> (second = 18 \<or> second = 19)) \<or>
      first \<ge> 224)"

definition isBlockedIpv4 :: "string \<Rightarrow> bool" where
  "isBlockedIpv4 hostname =
     (case parseIpv4Address hostname of
        None \<Rightarrow> True
      | Some parts \<Rightarrow> blocked_octets (parts ! 0) (parts ! 1))"

text \<open>The regular expression \<open>/^\d+\.\d+\.\d+\.\d+$/u\<close>.\<close>

definition dotted_digits :: "string \<Rightarrow> bool" where
  "dotted_digits s = (length (split_char CHR ''.'' s) = 4 \<and> list_all all_digits (split_char CHR ''.'' s))"

definition splitIpv6Ipv4Suffix :: "string \<Rightarrow> (string \<times> string) option" where
  "splitIpv6Ipv4Suffix hostname =
     (if CHR '':'' \<notin> set hostname then None
      else (let ipv4 = rev (takeWhile (\<lambda>c. c \<noteq> CHR '':'') (rev hostname)) in
        if \<not> dotted_digits ipv4 then None
        else Some (ipv4, take (length hostname - length ipv4) hostname)))"

text \<open>\<open>n.toString(16)\<close> and \<open>Number.parseInt(part, 16)\<close> on hexadecimal digits.\<close>

definition is_hex :: "char \<Rightarrow> bool" where
  "is_hex c = (let n = (of_char c :: nat) in (48 \<le> n \<and> n \<le> 57) \<or> (97 \<le> n \<and> n \<le> 102))"

definition hex_char :: "nat \<Rightarrow> char" where
  "hex_char d = char_of (if d < 10 then 48 + d else 87 + d)"

definition hex_val :: "char \<Rightarrow> nat" where
  "hex_val c = (let n = (of_char c :: nat) in if n \<le> 57 then n - 48 else n - 87)"

fun show_hex :: "nat \<Rightarrow> string" where
  "show_hex n = (if n < 16 then [hex_char n] else show_hex (n div 16) @ [hex_char (n mod 16)])"

declare show_hex.simps [simp del]

definition hex_digits_val :: "string \<Rightarrow> nat" where
  "hex_digits_val s = foldl (\<lambda>acc c. 16 * acc + hex_val c) 0 s"

text \<open>\<open>s.split(''::'')\<close>, the leftmost non-overlapping occurrences.\<close>

fun split_double_colon :: "string \<Rightarrow> string list" where
  "split_double_colon [] = [[]]"
| "split_double_colon [a] = [[a]]"
| "split_double_colon (a # b # s) =
     (if a = CHR '':'' \<and> b = CHR '':'' then [] # split_double_colon s
      else (case split_double_colon (b # s) of [] \<Rightarrow> [[a]] | y # ys \<Rightarrow> (a # y) # ys))"

definition parseSide :: "string \<Rightarrow> nat list option" where
  "parseSide side =
     (if side = [] then Some []
      else (let parts = split_char CHR '':'' side in
        if list_ex (\<lambda>part. \<not> (part \<noteq> [] \<and> length part \<le> 4 \<and> list_all is_hex part)) parts then None
        else Some (map hex_digits_val parts)))"

text \<open>
  The parser in its two halves: the embedded IPv4 suffix becomes two hexadecimal groups, then the
  sides of the \<open>::\<close> are read and the missing groups filled with zeros.
\<close>

definition withoutIpv4 :: "string \<Rightarrow> string option" where
  "withoutIpv4 normalized =
     (case splitIpv6Ipv4Suffix normalized of
        None \<Rightarrow> Some normalized
      | Some (ipv4, prefix) \<Rightarrow>
          (case parseIpv4Address ipv4 of
             None \<Rightarrow> None
           | Some q \<Rightarrow> Some (prefix @ show_hex (push_bit 8 (q ! 0) OR q ! 1) @ '':'' @
                             show_hex (push_bit 8 (q ! 2) OR q ! 3))))"

definition readHextets :: "string \<Rightarrow> nat list option" where
  "readHextets without =
     (let doubleColonParts = split_double_colon without in
      if length doubleColonParts > 2 then None
      else (case (parseSide (doubleColonParts ! 0),
                  parseSide (if length doubleColonParts = 2 then doubleColonParts ! 1 else [])) of
              (Some left, Some right) \<Rightarrow>
                (let missing = 8 - int (length left) - int (length right) in
                 if length doubleColonParts = 1 then (if missing = 0 then Some left else None)
                 else if missing < 1 then None
                 else Some (left @ replicate (nat missing) 0 @ right))
            | _ \<Rightarrow> None))"

definition parseIpv6Hextets :: "string \<Rightarrow> nat list option" where
  "parseIpv6Hextets hostname =
     (case withoutIpv4 (js_lower hostname) of None \<Rightarrow> None | Some without \<Rightarrow> readHextets without)"

definition hextet :: "nat list \<Rightarrow> nat \<Rightarrow> nat" where
  "hextet hs i = (if i < length hs then hs ! i else 0)"

definition ipv4FromHextets :: "nat list \<Rightarrow> string" where
  "ipv4FromHextets hextets =
     js_join ''.'' (map show_nat
       [drop_bit 8 (hextet hextets 6), hextet hextets 6 AND 0xff,
        drop_bit 8 (hextet hextets 7), hextet hextets 7 AND 0xff])"

definition all_zero :: "nat list \<Rightarrow> bool" where
  "all_zero hs = list_all (\<lambda>part. part = 0) hs"

definition isBlockedIpv6 :: "string \<Rightarrow> bool" where
  "isBlockedIpv6 hostname =
     (case parseIpv6Hextets hostname of
        None \<Rightarrow> True
      | Some hextets \<Rightarrow>
          (if length hextets \<noteq> 8 then True
           else (let first = hextets ! 0 in
             all_zero hextets \<or>
             (all_zero (take 7 hextets) \<and> hextets ! 7 = 1) \<or>
             first AND 0xffc0 = 0xfe80 \<or>
             first AND 0xfe00 = 0xfc00 \<or>
             first AND 0xff00 = 0xff00 \<or>
             first = 0x2002 \<or>
             (first = 0x2001 \<and> hextets ! 1 \<le> 0x01ff) \<or>
             (first = 0x2001 \<and> hextets ! 1 = 0x0db8) \<or>
             (first = 0x64 \<and> hextets ! 1 = 0xff9b) \<or>
             (all_zero (take 6 hextets) \<and> isBlockedIpv4 (ipv4FromHextets hextets)) \<or>
             (all_zero (take 5 hextets) \<and> hextets ! 5 = 0xffff \<and> isBlockedIpv4 (ipv4FromHextets hextets)))))"

section \<open>Decimal addresses\<close>

definition dotted :: "nat list \<Rightarrow> string" where
  "dotted xs = js_join ''.'' (map show_nat xs)"

lemma takeWhile_all: "list_all P xs \<Longrightarrow> takeWhile P xs = xs"
  by (induction xs) auto

lemma parse_int_show [simp]: "parse_int (show_nat n) = Some (int n)"
proof -
  obtain c t where s: "show_nat n = c # t" using show_nat_not_Nil [of n] by (cases "show_nat n") auto
  then have c: "is_digit c" and all: "list_all is_digit (c # t)" using show_nat_digits [of n] by simp_all
  have nc: "c \<noteq> CHR ''-''" "c \<noteq> CHR ''+''" using c by (auto simp: is_digit_def)
  have "dropWhile js_ws (c # t) = c # t" using digit_not_ws [OF c] by simp
  moreover have "takeWhile is_digit (c # t) = c # t" using all by (rule takeWhile_all)
  moreover have "digits_val (c # t) = n" using digits_val_show [of n] s by simp
  ultimately show ?thesis unfolding s parse_int_def Let_def using nc by simp
qed

lemma show_nat_no_dot: "CHR ''.'' \<notin> set (show_nat n)"
  by (rule show_nat_no_char) simp

lemma split_dotted: "xs \<noteq> [] \<Longrightarrow> split_char CHR ''.'' (dotted xs) = map show_nat xs"
  unfolding dotted_def by (rule split_join) (auto simp: show_nat_no_dot)

lemma show_int_nat: "show_int (int n) = show_nat n"
  by (simp add: show_int_def)

lemma parse_ipv4_dotted:
  assumes "length xs = 4" and "\<forall>x \<in> set xs. x \<le> 255"
  shows "parseIpv4Address (dotted xs) = Some xs"
proof -
  have ne: "xs \<noteq> []" using assms(1) by auto
  have m: "map parse_int (map show_nat xs) = map (\<lambda>n. Some (int n)) xs" by simp
  have "\<not> list_ex (\<lambda>(part, original). case part of
             None \<Rightarrow> True
           | Some n \<Rightarrow> show_int n \<noteq> original \<or> n < 0 \<or> n > 255) (zip (map (\<lambda>n. Some (int n)) xs) (map show_nat xs))"
    using assms(2) by (fastforce simp: list_ex_iff zip_map_map zip_same_conv_map show_int_nat)
  then show ?thesis
    using assms(1) unfolding parseIpv4Address_def Let_def split_dotted [OF ne] m by (simp add: comp_def)
qed

lemma parse_ipv4_Some:
  assumes "parseIpv4Address s = Some xs"
  shows "length xs = 4 \<and> (\<forall>x \<in> set xs. x \<le> 255) \<and> s = dotted xs"
proof -
  let ?parts = "split_char CHR ''.'' s"
  let ?bad = "\<lambda>(part, original). case part of
             None \<Rightarrow> True
           | Some n \<Rightarrow> show_int n \<noteq> original \<or> n < 0 \<or> n > 255"
  have len: "length ?parts = 4" and ok: "\<not> list_ex ?bad (zip (map parse_int ?parts) ?parts)"
    and xs: "xs = map (\<lambda>part. nat (the part)) (map parse_int ?parts)"
    using assms by (auto simp: parseIpv4Address_def Let_def simp del: map_map split: if_split_asm)
  have one: "show_nat (nat (the (parse_int p))) = p \<and> nat (the (parse_int p)) \<le> 255" if p: "p \<in> set ?parts" for p
  proof -
    have "(parse_int p, p) \<in> set (zip (map parse_int ?parts) ?parts)"
      using p by (auto simp: zip_map1 zip_same_conv_map)
    with ok have "\<not> ?bad (parse_int p, p)" unfolding list_ex_iff by blast
    then obtain n where "parse_int p = Some n" "show_int n = p" "0 \<le> n" "n \<le> 255"
      by (auto split: option.splits)
    then show ?thesis by (auto simp: show_int_def)
  qed
  have "map show_nat xs = ?parts" using one by (auto simp: xs comp_def intro: map_idI)
  then have "s = dotted xs" using join_split [of "CHR ''.''" s] by (simp add: dotted_def)
  then show ?thesis using one len by (auto simp: xs)
qed

lemma parse_ipv4_iff:
  "parseIpv4Address s = Some xs \<longleftrightarrow> length xs = 4 \<and> (\<forall>x \<in> set xs. x \<le> 255) \<and> s = dotted xs"
  using parse_ipv4_Some parse_ipv4_dotted by blast

section \<open>Bits\<close>

lemma small_no_high_bit: "(b::nat) < 2 ^ k \<Longrightarrow> k \<le> n \<Longrightarrow> \<not> bit b n"
proof -
  assume "b < 2 ^ k" and "k \<le> n"
  then have "b < 2 ^ n" by (meson less_le_trans one_le_numeral power_increasing)
  then show ?thesis by (simp add: bit_iff_odd)
qed

lemma join_octets: "(b::nat) < 256 \<Longrightarrow> push_bit 8 a OR b = 256 * a + b"
proof -
  assume "b < 256"
  then have "\<not> bit b n" if "8 \<le> n" for n using small_no_high_bit [of b 8 n] that by simp
  then have "push_bit 8 a AND b = 0" by (intro bit_eqI) (auto simp: bit_simps)
  then have "push_bit 8 a OR b = push_bit 8 a + b" by (simp add: disjunctive_add_eq_or)
  then show ?thesis by (simp add: push_bit_eq_mult)
qed

lemma split_octets:
  assumes "(b::nat) < 256"
  shows "drop_bit 8 (256 * a + b) = a" and "(256 * a + b) AND 0xff = b"
proof -
  have "drop_bit 8 (256 * a + b) = (256 * a + b) div 256" unfolding drop_bit_eq_div by simp
  then show "drop_bit 8 (256 * a + b) = a" using assms by simp
  have "(256 * a + b) AND mask 8 = (256 * a + b) mod 256"
    unfolding take_bit_eq_mask [symmetric] take_bit_eq_mod by simp
  then have "(256 * a + b) AND mask 8 = b" using assms by simp
  then show "(256 * a + b) AND 0xff = b" by (simp add: mask_eq_exp_minus_1)
qed

lemma and_high_mask:
  assumes "(x::nat) < 2 ^ (k + m)"
  shows "x AND push_bit k (mask m) = x div 2 ^ k * 2 ^ k"
proof -
  have "x AND push_bit k (mask m) = push_bit k (drop_bit k x AND mask m)"
    by (rule bit_eqI) (auto simp: bit_simps)
  also have "drop_bit k x AND mask m = take_bit m (drop_bit k x)" by (simp add: take_bit_eq_mask)
  also have "\<dots> = x div 2 ^ k"
    using assms by (simp add: take_bit_eq_mod drop_bit_eq_div less_mult_imp_div_less power_add mult.commute)
  finally show ?thesis by (simp add: push_bit_eq_mult)
qed

lemma div_eq_range: "0 < m \<Longrightarrow> (x::nat) div m * m = q * m \<longleftrightarrow> q * m \<le> x \<and> x < (q + 1) * m"
proof -
  assume "0 < m"
  then have "x div m * m = q * m \<longleftrightarrow> x div m = q" by simp
  also have "\<dots> \<longleftrightarrow> q * m \<le> x \<and> x < (q + 1) * m"
  proof
    assume "x div m = q"
    then show "q * m \<le> x \<and> x < (q + 1) * m"
      using div_times_less_eq_dividend [of x m] dividend_less_div_times [OF \<open>0 < m\<close>, of x] by (simp add: add.commute)
  next
    assume "q * m \<le> x \<and> x < (q + 1) * m"
    then show "x div m = q" by (intro div_nat_eqI) (simp_all add: mult.commute)
  qed
  finally show ?thesis .
qed

lemma prefix_mask:
  assumes "(x::nat) < 2 ^ (k + m)"
  shows "x AND (2 ^ m - 1) * 2 ^ k = q * 2 ^ k \<longleftrightarrow> q * 2 ^ k \<le> x \<and> x < (q + 1) * 2 ^ k"
proof -
  have "(2 ^ m - 1) * 2 ^ k = push_bit k (mask m :: nat)"
    unfolding push_bit_eq_mult mask_eq_exp_minus_1 by simp
  then have "x AND (2 ^ m - 1) * 2 ^ k = x div 2 ^ k * 2 ^ k" using and_high_mask [OF assms] by simp
  then show ?thesis using div_eq_range [of "2 ^ k" x q] by simp
qed

lemma prefix_masks:
  assumes "(x::nat) < 65536"
  shows "x AND 0xffc0 = 0xfe80 \<longleftrightarrow> 0xfe80 \<le> x \<and> x \<le> 0xfebf"
    and "x AND 0xfe00 = 0xfc00 \<longleftrightarrow> 0xfc00 \<le> x \<and> x \<le> 0xfdff"
    and "x AND 0xff00 = 0xff00 \<longleftrightarrow> 0xff00 \<le> x"
  using prefix_mask [of x 6 10 1018] prefix_mask [of x 9 7 126] prefix_mask [of x 8 8 255] assms by auto

section \<open>Hexadecimal groups\<close>

lemma hex_char_props:
  assumes "d < 16"
  shows "is_hex (hex_char d)" and "hex_val (hex_char d) = d"
  using assms by (auto simp: is_hex_def hex_val_def hex_char_def Let_def)

lemma show_hex_all [simp]: "list_all is_hex (show_hex n)"
  by (induction n rule: show_hex.induct) (subst show_hex.simps, auto simp: hex_char_props)

lemma show_hex_not_Nil [simp]: "show_hex n \<noteq> []"
  by (subst show_hex.simps) simp

lemma hex_val_show [simp]: "hex_digits_val (show_hex n) = n"
proof (induction n rule: show_hex.induct)
  case (1 n)
  have snoc: "hex_digits_val (s @ [c]) = 16 * hex_digits_val s + hex_val c" for s c
    by (simp add: hex_digits_val_def)
  show ?case
  proof (cases "n < 16")
    case True
    then show ?thesis by (subst show_hex.simps) (simp add: hex_digits_val_def hex_char_props)
  next
    case False
    then show ?thesis using 1 by (subst show_hex.simps) (simp add: snoc hex_char_props)
  qed
qed

lemma length_show_hex: "n < 16 ^ Suc k \<Longrightarrow> length (show_hex n) \<le> Suc k"
proof (induction k arbitrary: n)
  case 0
  then show ?case by (subst show_hex.simps) simp
next
  case (Suc k)
  then have "n div 16 < 16 ^ Suc k" by (simp add: div_less_iff_less_mult)
  from Suc.IH [OF this] show ?case by (subst show_hex.simps) simp
qed

lemma not_hex_chars [simp]: "\<not> is_hex CHR '':''" "\<not> is_hex CHR ''.''"
  by (simp_all add: is_hex_def)

lemma js_lower_hex: "is_hex c \<Longrightarrow> js_lower_char c = c"
  by (auto simp: is_hex_def js_lower_char_def Let_def)

lemma js_lower_hex_list: "list_all is_hex s \<Longrightarrow> js_lower s = s"
  by (induction s) (simp_all add: js_lower_def js_lower_hex)

lemma is_digit_hex: "is_digit c \<Longrightarrow> is_hex c"
  by (simp add: is_digit_def is_hex_def Let_def)

lemma js_lower_append [js_string]: "js_lower (s @ t) = js_lower s @ js_lower t"
  by (simp add: js_lower_def)

lemma js_lower_join:
  "js_lower sep = sep \<Longrightarrow> (\<And>x. x \<in> set xs \<Longrightarrow> js_lower x = x) \<Longrightarrow> js_lower (js_join sep xs) = js_join sep xs"
proof (induction sep xs rule: js_join.induct)
  case (1 sep)
  then show ?case by (simp add: js_lower_def)
qed (simp_all add: js_lower_append)

definition hex_group :: "string \<Rightarrow> bool" where
  "hex_group h = (h \<noteq> [] \<and> length h \<le> 4 \<and> list_all is_hex h)"

lemma hex_group_show [simp]: "n < 65536 \<Longrightarrow> hex_group (show_hex n)"
  using length_show_hex [of n 3] by (simp add: hex_group_def)

lemma hex_group_no_colon: "hex_group h \<Longrightarrow> CHR '':'' \<notin> set h"
  by (auto simp: hex_group_def list_all_iff)

lemma parseSide_groups:
  assumes "hs \<noteq> []" and "\<forall>h \<in> set hs. hex_group h"
  shows "parseSide (js_join '':'' hs) = Some (map hex_digits_val hs)"
proof -
  have s: "split_char CHR '':'' (js_join '':'' hs) = hs"
    using assms by (intro split_join) (auto dest: hex_group_no_colon)
  have "hd hs \<noteq> []" using assms by (cases hs) (auto simp: hex_group_def)
  then have "js_join '':'' hs \<noteq> []" using assms(1) by (cases hs rule: list.exhaust; cases "tl hs") auto
  then show ?thesis using assms(2) by (auto simp: parseSide_def s list_ex_iff hex_group_def)
qed

lemma split_dc_word:
  "CHR '':'' \<notin> set w \<Longrightarrow> split_double_colon w = [w]"
proof (induction w rule: split_double_colon.induct)
  case (3 a b s)
  then show ?case by auto
qed simp_all

lemma split_double_colon_not_Nil [simp]: "split_double_colon s \<noteq> []"
  by (induction s rule: split_double_colon.induct) (auto split: list.splits)

lemma split_dc_append:
  "CHR '':'' \<notin> set w \<Longrightarrow> w \<noteq> [] \<Longrightarrow> c \<noteq> CHR '':'' \<Longrightarrow>
   split_double_colon (w @ CHR '':'' # c # r) =
     (w @ CHR '':'' # hd (split_double_colon (c # r))) # tl (split_double_colon (c # r))"
proof (induction w)
  case (Cons a w)
  show ?case
  proof (cases w)
    case Nil
    obtain y ys where "split_double_colon (c # r) = y # ys"
      using split_double_colon_not_Nil [of "c # r"] by (cases "split_double_colon (c # r)") blast+
    then show ?thesis using Cons.prems Nil by simp
  next
    case (Cons b v)
    then show ?thesis using Cons.IH Cons.prems by auto
  qed
qed simp

lemma split_dc_groups:
  "hs \<noteq> [] \<Longrightarrow> (\<And>h. h \<in> set hs \<Longrightarrow> hex_group h) \<Longrightarrow>
   split_double_colon (js_join '':'' hs) = [js_join '':'' hs]"
proof (induction "'':''" hs rule: js_join.induct)
  case (2 x)
  then show ?case by (simp add: split_dc_word hex_group_no_colon)
next
  case (3 x y ys)
  have "hex_group x" "hex_group y" using "3.prems"(2) by auto
  then have x: "CHR '':'' \<notin> set x" "x \<noteq> []" and y: "CHR '':'' \<notin> set y" "y \<noteq> []"
    by (auto simp: hex_group_def dest: hex_group_no_colon) (auto simp: list_all_iff)
  obtain c r where j: "js_join '':'' (y # ys) = c # r" and c: "c \<noteq> CHR '':''"
    using y by (cases ys; cases y) auto
  have "split_double_colon (js_join '':'' (y # ys)) = [js_join '':'' (y # ys)]"
    using 3 by simp
  then show ?case using split_dc_append [OF x c, of r] by (simp add: j)
qed simp

section \<open>IPv6 texts\<close>

definition ipv6_full :: "nat list \<Rightarrow> string" where
  "ipv6_full xs = js_join '':'' (map show_hex xs)"

lemma set_js_join: "set (js_join sep xs) \<subseteq> set sep \<union> \<Union> (set ` set xs)"
  by (induction sep xs rule: js_join.induct) auto

lemma js_lower_colon [simp]: "js_lower '':'' = '':''" "js_lower ''.'' = ''.''"
  by (simp_all add: js_lower_def js_lower_char_def)

lemma show_nat_hex: "list_all is_hex (show_nat n)"
  using show_nat_digits [of n] is_digit_hex by (auto simp: list_all_iff)

lemma js_lower_dotted [simp]: "js_lower (dotted xs) = dotted xs"
  unfolding dotted_def by (rule js_lower_join) (auto simp: js_lower_hex_list show_nat_hex)

lemma dotted_no_colon: "CHR '':'' \<notin> set (dotted xs)"
  using set_js_join [of "''.''" "map show_nat xs"] show_nat_no_char [of "CHR '':''"]
  by (auto simp: dotted_def not_digit_chars)

lemma js_lower_full [simp]: "js_lower (ipv6_full xs) = ipv6_full xs"
  unfolding ipv6_full_def by (rule js_lower_join) (auto simp: js_lower_hex_list)

lemma no_dot_no_suffix: "CHR ''.'' \<notin> set s \<Longrightarrow> splitIpv6Ipv4Suffix s = None"
proof -
  assume s: "CHR ''.'' \<notin> set s"
  have "set (takeWhile (\<lambda>c. c \<noteq> CHR '':'') (rev s)) \<subseteq> set s" using set_takeWhileD by fastforce
  then have "CHR ''.'' \<notin> set (rev (takeWhile (\<lambda>c. c \<noteq> CHR '':'') (rev s)))" using s by auto
  then show ?thesis by (simp add: splitIpv6Ipv4Suffix_def Let_def dotted_digits_def split_char_no_sep)
qed

lemma parseSide_Nil: "parseSide [] = Some []"
  by (simp add: parseSide_def)

lemma readHextets_single:
  "split_double_colon w = [w] \<Longrightarrow> parseSide w = Some l \<Longrightarrow> length l = 8 \<Longrightarrow> readHextets w = Some l"
  by (simp add: readHextets_def parseSide_Nil)

lemma readHextets_compressed:
  "split_double_colon w = [x, y] \<Longrightarrow> parseSide x = Some l \<Longrightarrow> parseSide y = Some r \<Longrightarrow>
   length l + length r \<le> 7 \<Longrightarrow>
   readHextets w = Some (l @ replicate (8 - length l - length r) 0 @ r)"
proof -
  assume a: "split_double_colon w = [x, y]" "parseSide x = Some l" "parseSide y = Some r" "length l + length r \<le> 7"
  have "nat (8 - int (length l) - int (length r)) = 8 - length l - length r" by linarith
  then show ?thesis using a by (simp add: readHextets_def)
qed

lemma parse_ipv6_full:
  assumes "length xs = 8" and "\<forall>x \<in> set xs. x < 65536"
  shows "parseIpv6Hextets (ipv6_full xs) = Some xs"
proof -
  have ne: "map show_hex xs \<noteq> []" using assms(1) by auto
  have g: "\<forall>h \<in> set (map show_hex xs). hex_group h" using assms(2) by simp
  have "CHR ''.'' \<notin> set (show_hex n)" for n using show_hex_all [of n] by (auto simp: list_all_iff)
  then have nd: "CHR ''.'' \<notin> set (ipv6_full xs)"
    using set_js_join [of "'':''" "map show_hex xs"] by (auto simp: ipv6_full_def)
  have sd: "split_double_colon (ipv6_full xs) = [ipv6_full xs]"
    unfolding ipv6_full_def using g by (intro split_dc_groups [OF ne]) blast
  have ps: "parseSide (ipv6_full xs) = Some xs"
    unfolding ipv6_full_def using parseSide_groups [OF ne g] by (simp add: comp_def)
  show ?thesis
    using readHextets_single [OF sd ps assms(1)]
    by (simp add: parseIpv6Hextets_def withoutIpv4_def no_dot_no_suffix [OF nd])
qed

lemma suffix_of_dotted:
  assumes "length xs = 4" and "last pre = CHR '':''" and "pre \<noteq> []"
  shows "splitIpv6Ipv4Suffix (pre @ dotted xs) = Some (dotted xs, pre)"
proof -
  obtain p where pre: "pre = p @ [CHR '':'']" using assms(2,3) by (metis append_butlast_last_id)
  have "takeWhile (\<lambda>c. c \<noteq> CHR '':'') (rev (pre @ dotted xs)) = rev (dotted xs)"
    using dotted_no_colon [of xs] by (simp add: pre) (subst takeWhile_append2, auto)
  moreover have "dotted_digits (dotted xs)"
    using assms(1) split_dotted [of xs] by (cases xs) (auto simp: dotted_digits_def list_all_iff)
  ultimately show ?thesis by (simp add: splitIpv6Ipv4Suffix_def pre)
qed

lemma parse_ipv6_embedded:
  assumes o: "a < 256" "b < 256" "c < 256" "d < 256"
    and pre: "zs = [] \<or> zs = [0xffff]"
  shows "parseIpv6Hextets ((if zs = [] then ''::'' else ''::ffff:'') @ dotted [a, b, c, d]) =
    Some (replicate (6 - length zs) 0 @ zs @ [256 * a + b, 256 * c + d])"
proof -
  let ?pre = "if zs = [] then ''::'' else ''::ffff:''"
  let ?A = "256 * a + b" and ?B = "256 * c + d"
  have low: "js_lower ?pre = ?pre" by (simp add: js_lower_def js_lower_char_def)
  have suf: "splitIpv6Ipv4Suffix (?pre @ dotted [a, b, c, d]) = Some (dotted [a, b, c, d], ?pre)"
    by (rule suffix_of_dotted) simp_all
  have q: "parseIpv4Address (dotted [a, b, c, d]) = Some [a, b, c, d]"
    using o by (intro parse_ipv4_dotted) auto
  have or: "push_bit 8 a OR b = ?A" "push_bit 8 c OR d = ?B" using o by (simp_all add: join_octets)
  have lt: "?A < 65536" "?B < 65536" using o by auto
  let ?hs = "(if zs = [] then [] else [''ffff'']) @ [show_hex ?A, show_hex ?B]"
  have ff: "hex_group ''ffff''" "hex_digits_val ''ffff'' = 0xffff"
    by (simp_all add: hex_group_def is_hex_def hex_digits_val_def hex_val_def)
  have g: "\<forall>h \<in> set ?hs. hex_group h" using lt ff by auto
  have ne: "?hs \<noteq> []" by simp
  have w: "?pre @ show_hex ?A @ '':'' @ show_hex ?B = CHR '':'' # CHR '':'' # js_join '':'' ?hs" by simp
  have sd: "split_double_colon (CHR '':'' # CHR '':'' # js_join '':'' ?hs) = [[], js_join '':'' ?hs]"
    using split_dc_groups [OF ne] g by simp
  have ps: "parseSide (js_join '':'' ?hs) = Some (zs @ [?A, ?B])"
    unfolding parseSide_groups [OF ne g] using pre ff by auto
  have "withoutIpv4 (js_lower (?pre @ dotted [a, b, c, d])) = Some (?pre @ show_hex ?A @ '':'' @ show_hex ?B)"
    unfolding withoutIpv4_def js_lower_append low js_lower_dotted suf option.case prod.case q
    by (simp add: or)
  moreover have "readHextets (CHR '':'' # CHR '':'' # js_join '':'' ?hs) =
      Some (replicate (6 - length zs) 0 @ zs @ [?A, ?B])"
    using readHextets_compressed [OF sd parseSide_Nil ps] pre by auto
  ultimately show ?thesis unfolding parseIpv6Hextets_def w [symmetric] by simp
qed

section \<open>The blocked ranges\<close>

text \<open>Address blocks, as a base address and a prefix length.\<close>

definition ipv4_number :: "nat \<Rightarrow> nat \<Rightarrow> nat \<Rightarrow> nat \<Rightarrow> nat" where
  "ipv4_number a b c d = a * 2 ^ 24 + b * 2 ^ 16 + c * 2 ^ 8 + d"

definition in_block :: "nat \<Rightarrow> nat \<times> nat \<Rightarrow> bool" where
  "in_block n block = (n div 2 ^ (32 - snd block) = fst block div 2 ^ (32 - snd block))"

definition blocked_blocks :: "(nat \<times> nat) list" where
  "blocked_blocks =
     [(ipv4_number 0 0 0 0, 8), (ipv4_number 10 0 0 0, 8), (ipv4_number 127 0 0 0, 8),
      (ipv4_number 169 254 0 0, 16), (ipv4_number 172 16 0 0, 12), (ipv4_number 192 168 0 0, 16),
      (ipv4_number 100 64 0 0, 10), (ipv4_number 198 18 0 0, 15), (ipv4_number 224 0 0 0, 3)]"

lemma ipv4_number_div:
  assumes "a < 256" "b < 256" "c < 256" "d < 256"
  shows "ipv4_number a b c d div 2 ^ 24 = a" "ipv4_number a b c d div 2 ^ 16 = 256 * a + b"
    "ipv4_number a b c d div 2 ^ 20 = 16 * a + b div 16" "ipv4_number a b c d div 2 ^ 22 = 4 * a + b div 64"
    "ipv4_number a b c d div 2 ^ 17 = 128 * a + b div 2" "ipv4_number a b c d div 2 ^ 29 = a div 32"
proof -
  let ?n = "ipv4_number a b c d"
  show n24: "?n div 2 ^ 24 = a" using assms unfolding ipv4_number_def by simp
  have "?n = d + 256 * c + 65536 * (256 * a + b)" by (simp add: ipv4_number_def)
  then show n16: "?n div 2 ^ 16 = 256 * a + b" using assms by simp
  have "?n div 2 ^ (16 + k) = (256 * a + b) div 2 ^ k" for k
    unfolding power_add div_mult2_eq n16 ..
  note sh = this [of 4] this [of 6] this [of 1, unfolded power_one_right]
  have "?n div 2 ^ 20 = (b + 16 * a * 16) div 16" using sh(1) by (simp add: algebra_simps)
  then show "?n div 2 ^ 20 = 16 * a + b div 16" by (simp add: div_mult_self1)
  have "?n div 2 ^ 22 = (b + 4 * a * 64) div 64" using sh(2) by (simp add: algebra_simps)
  then show "?n div 2 ^ 22 = 4 * a + b div 64" by (simp add: div_mult_self1)
  have "?n div 2 ^ 17 = (b + 128 * a * 2) div 2" using sh(3) by (simp add: algebra_simps)
  then show "?n div 2 ^ 17 = 128 * a + b div 2" by (simp add: div_mult_self1)
  have "?n div 2 ^ (24 + 5) = a div 2 ^ 5" unfolding power_add div_mult2_eq n24 ..
  then show "?n div 2 ^ 29 = a div 32" by simp
qed

lemma radix_eq: "(b::nat) < k \<Longrightarrow> r < k \<Longrightarrow> k * a + b = k * q + r \<longleftrightarrow> a = q \<and> b = r"
proof
  assume "b < k" "r < k" "k * a + b = k * q + r"
  then have "(b + k * a) div k = (r + k * q) div k" "(b + k * a) mod k = (r + k * q) mod k"
    by (simp_all add: add.commute)
  then show "a = q \<and> b = r" using \<open>b < k\<close> \<open>r < k\<close> by simp
qed simp

lemma div_eq_iff: "0 < m \<Longrightarrow> (x::nat) div m = q \<longleftrightarrow> q * m \<le> x \<and> x < (q + 1) * m"
  using div_eq_range [of m x q] by simp

lemma blocked_octets_blocks:
  assumes o: "a < 256" "b < 256" "c < 256" "d < 256"
  shows "blocked_octets a b = list_ex (in_block (ipv4_number a b c d)) blocked_blocks"
proof -
  note dv = ipv4_number_div [OF o]
  have c1: "ipv4_number x y 0 0 div 2 ^ 24 = x" "ipv4_number x y 0 0 div 2 ^ 16 = 256 * x + y"
    "ipv4_number x y 0 0 div 2 ^ 20 = 16 * x + y div 16" "ipv4_number x y 0 0 div 2 ^ 22 = 4 * x + y div 64"
    "ipv4_number x y 0 0 div 2 ^ 17 = 128 * x + y div 2" "ipv4_number x y 0 0 div 2 ^ 29 = x div 32"
    if "x < 256" "y < 256" for x y
    using ipv4_number_div [OF that, of 0 0] by simp_all
  have "list_ex (in_block (ipv4_number a b c d)) blocked_blocks \<longleftrightarrow>
      a = 0 \<or> a = 10 \<or> a = 127 \<or> 256 * a + b = 256 * 169 + 254 \<or> 16 * a + b div 16 = 16 * 172 + 1 \<or>
      256 * a + b = 256 * 192 + 168 \<or> 4 * a + b div 64 = 4 * 100 + 1 \<or> 128 * a + b div 2 = 128 * 198 + 9 \<or>
      a div 32 = 7"
    by (simp add: blocked_blocks_def in_block_def dv c1 del: power_numeral)
  moreover have "256 * a + b = 256 * 169 + 254 \<longleftrightarrow> a = 169 \<and> b = 254"
    "256 * a + b = 256 * 192 + 168 \<longleftrightarrow> a = 192 \<and> b = 168"
    using radix_eq [of b 256 254 a 169] radix_eq [of b 256 168 a 192] o(2) by simp_all
  moreover have "16 * a + b div 16 = 16 * 172 + 1 \<longleftrightarrow> a = 172 \<and> b \<ge> 16 \<and> b \<le> 31"
    using radix_eq [of "b div 16" 16 1 a 172] o(2) div_eq_iff [of 16 b 1] by auto
  moreover have "4 * a + b div 64 = 4 * 100 + 1 \<longleftrightarrow> a = 100 \<and> b \<ge> 64 \<and> b \<le> 127"
    using radix_eq [of "b div 64" 4 1 a 100] o(2) div_eq_iff [of 64 b 1] by auto
  moreover have "128 * a + b div 2 = 128 * 198 + 9 \<longleftrightarrow> a = 198 \<and> (b = 18 \<or> b = 19)"
    using radix_eq [of "b div 2" 128 9 a 198] o(2) div_eq_iff [of 2 b 9] by auto
  moreover have "a div 32 = 7 \<longleftrightarrow> a \<ge> 224" using div_eq_iff [of 32 a 7] o(1) by auto
  ultimately show ?thesis by (simp only: blocked_octets_def)
qed

lemma blocked_shape:
  "(A \<or> B \<or> C \<or> D \<or> E \<or> F \<or> (G \<and> H) \<or> (G \<and> I) \<or> J \<or> (K \<and> Z) \<or> (L \<and> Z)) =
   (A \<or> B \<or> C \<or> D \<or> E \<or> F \<or> (G \<and> (H \<or> I)) \<or> J \<or> ((K \<or> L) \<and> Z))"
  by blast

lemma list8: "length xs = 8 \<Longrightarrow> \<exists>a b c d e f g h. xs = [a, b, c, d, e, f, g, h]"
  by (simp add: numeral_eq_Suc length_Suc_conv) blast

section \<open>Properties\<close>

text \<open>
  The IPv4 parser accepts exactly the canonical dotted decimal texts and returns their octets:
  no leading zeros, signs, blanks, exponents, hexadecimal or short forms slip through.
\<close>

theorem ipv4_parse_canonical:
  "parseIpv4Address s = Some xs \<longleftrightarrow> length xs = 4 \<and> list_all (\<lambda>x. x \<le> 255) xs \<and> s = dotted xs"
  using parse_ipv4_iff by (simp add: list_all_iff)

text \<open>
  The blocked IPv4 addresses are exactly the members of nine address blocks: this-network,
  the private networks, loopback, link-local, carrier-grade NAT, benchmarking and everything from
  multicast upwards.
\<close>

theorem ipv4_blocked_blocks:
  assumes "a < 256" "b < 256" "c < 256" "d < 256"
  shows "isBlockedIpv4 (dotted [a, b, c, d]) = list_ex (in_block (ipv4_number a b c d)) blocked_blocks"
proof -
  have "parseIpv4Address (dotted [a, b, c, d]) = Some [a, b, c, d]"
    using assms by (intro parse_ipv4_dotted) auto
  then show ?thesis using blocked_octets_blocks [OF assms] by (simp add: isBlockedIpv4_def)
qed

lemma hextets_ipv4:
  assumes "a < 256" "b < 256" "c < 256" "d < 256" and "length pre = 6"
  shows "ipv4FromHextets (pre @ [256 * a + b, 256 * c + d]) = dotted [a, b, c, d]"
  using assms split_octets [of b a] split_octets [of d c]
  by (simp add: ipv4FromHextets_def hextet_def nth_append dotted_def)

lemma replicate_zeros: "replicate 5 (0::nat) = [0, 0, 0, 0, 0]" "replicate 6 (0::nat) = [0, 0, 0, 0, 0, 0]"
  by (simp_all add: numeral_eq_Suc)

lemma zero_masks: "(0::nat) AND 0xffc0 \<noteq> 0xfe80" "(0::nat) AND 0xfe00 \<noteq> 0xfc00" "(0::nat) AND 0xff00 \<noteq> 0xff00"
  by simp_all

text \<open>
  C28. No IPv6 spelling hides an IPv4 address: the mapped form \<open>::ffff:a.b.c.d\<close> and the compatible
  form \<open>::a.b.c.d\<close> are blocked exactly when \<open>a.b.c.d\<close> is.
\<close>

theorem ipv6_embedded_ipv4:
  assumes "a < 256" "b < 256" "c < 256" "d < 256"
  shows "isBlockedIpv6 (''::ffff:'' @ dotted [a, b, c, d]) = isBlockedIpv4 (dotted [a, b, c, d]) \<and>
    isBlockedIpv6 (''::'' @ dotted [a, b, c, d]) = isBlockedIpv4 (dotted [a, b, c, d])"
proof -
  have p4: "parseIpv4Address (dotted [a, b, c, d]) = Some [a, b, c, d]"
    using assms by (intro parse_ipv4_dotted) auto
  have m: "parseIpv6Hextets (''::ffff:'' @ dotted [a, b, c, d]) =
      Some ([0, 0, 0, 0, 0, 0xffff] @ [256 * a + b, 256 * c + d])"
    using parse_ipv6_embedded [OF assms, of "[0xffff]"] by (simp add: replicate_zeros)
  have k: "parseIpv6Hextets (''::'' @ dotted [a, b, c, d]) =
      Some ([0, 0, 0, 0, 0, 0] @ [256 * a + b, 256 * c + d])"
    using parse_ipv6_embedded [OF assms, of "[]"] by (simp add: replicate_zeros)
  have hm: "ipv4FromHextets ([0, 0, 0, 0, 0, 0xffff] @ [256 * a + b, 256 * c + d]) = dotted [a, b, c, d]"
    and hk: "ipv4FromHextets ([0, 0, 0, 0, 0, 0] @ [256 * a + b, 256 * c + d]) = dotted [a, b, c, d]"
    by (rule hextets_ipv4 [OF assms], simp)+
  have z: "isBlockedIpv4 (dotted [a, b, c, d])" if "a = 0"
    using that p4 by (simp add: isBlockedIpv4_def blocked_octets_def)
  have "isBlockedIpv6 (''::ffff:'' @ dotted [a, b, c, d]) = isBlockedIpv4 (dotted [a, b, c, d])"
    unfolding isBlockedIpv6_def m option.case Let_def hm using zero_masks by (simp add: all_zero_def)
  moreover have "isBlockedIpv6 (''::'' @ dotted [a, b, c, d]) = isBlockedIpv4 (dotted [a, b, c, d])"
    unfolding isBlockedIpv6_def k option.case Let_def hk using zero_masks z by (auto simp: all_zero_def)
  ultimately show ?thesis by simp
qed

text \<open>
  Written out in eight groups, a blocked IPv6 address is one of: unspecified, loopback,
  link-local \<open>fe80::/10\<close>, unique-local \<open>fc00::/7\<close>, multicast \<open>ff00::/8\<close>, 6to4, the protocol and
  documentation blocks of 2001, the NAT64 prefix, or one with a blocked IPv4 address embedded.
\<close>

theorem ipv6_blocked_ranges:
  assumes "length xs = 8" and "\<forall>x \<in> set xs. x < 65536"
  shows "isBlockedIpv6 (ipv6_full xs) \<longleftrightarrow>
    xs = [0, 0, 0, 0, 0, 0, 0, 0] \<or> xs = [0, 0, 0, 0, 0, 0, 0, 1] \<or>
    (0xfe80 \<le> xs ! 0 \<and> xs ! 0 \<le> 0xfebf) \<or> (0xfc00 \<le> xs ! 0 \<and> xs ! 0 \<le> 0xfdff) \<or> 0xff00 \<le> xs ! 0 \<or>
    xs ! 0 = 0x2002 \<or> (xs ! 0 = 0x2001 \<and> (xs ! 1 \<le> 0x1ff \<or> xs ! 1 = 0xdb8)) \<or>
    (xs ! 0 = 0x64 \<and> xs ! 1 = 0xff9b) \<or>
    ((take 6 xs = [0, 0, 0, 0, 0, 0] \<or> take 6 xs = [0, 0, 0, 0, 0, 0xffff]) \<and>
      isBlockedIpv4 (ipv4FromHextets xs))"
proof -
  obtain a b c d e f g h where xs: "xs = [a, b, c, d, e, f, g, h]"
    using list8 [OF assms(1)] by blast
  have "xs ! 0 < 65536" using assms nth_mem [of 0 xs] by auto
  note m = prefix_masks [OF this]
  have z: "all_zero xs \<longleftrightarrow> xs = [0, 0, 0, 0, 0, 0, 0, 0]"
    "all_zero (take 7 xs) \<and> xs ! 7 = 1 \<longleftrightarrow> xs = [0, 0, 0, 0, 0, 0, 0, 1]"
    "all_zero (take 6 xs) \<longleftrightarrow> take 6 xs = [0, 0, 0, 0, 0, 0]"
    "all_zero (take 5 xs) \<and> xs ! 5 = 0xffff \<and> P \<longleftrightarrow> take 6 xs = [0, 0, 0, 0, 0, 0xffff] \<and> P" for P
    by (simp_all add: xs all_zero_def)
  have l: "(if length xs \<noteq> 8 then True else Q) = Q" for Q using assms(1) by simp
  show ?thesis
    unfolding isBlockedIpv6_def parse_ipv6_full [OF assms] option.case Let_def l z m by (rule blocked_shape)
qed

section \<open>Witnesses\<close>

theorem ipv4_blocked_blocks_witness:
  "isBlockedIpv4 (dotted [169, 254, 169, 254]) = list_ex (in_block (ipv4_number 169 254 169 254)) blocked_blocks"
  by (rule ipv4_blocked_blocks) simp_all

theorem ipv6_embedded_ipv4_witness: "isBlockedIpv6 (''::ffff:'' @ dotted [127, 0, 0, 1])"
proof -
  have "parseIpv4Address (dotted [127, 0, 0, 1]) = Some [127, 0, 0, 1]" by (rule parse_ipv4_dotted) simp_all
  then have "isBlockedIpv4 (dotted [127, 0, 0, 1])" by (simp add: isBlockedIpv4_def blocked_octets_def)
  then show ?thesis using ipv6_embedded_ipv4 [of 127 0 0 1] by simp
qed

theorem ipv6_blocked_ranges_witness: "isBlockedIpv6 (ipv6_full [0xfe80, 0, 0, 0, 0, 0, 0, 1])"
  by (subst ipv6_blocked_ranges) simp_all

end
