(* ===== verification/Outbound_Url.thy ===== *)
theory Outbound_Url
  imports Ip_Address Js_Url
begin

text \<open>
  \<^verbatim>\<open>src/bun/outbound-url-security.ts\<close>, second part: the decision about an address, the validation
  of an outbound URL, redirects, and the fetch that pins the validated address. Parameters:
  \<open>isIP\<close> of \<^verbatim>\<open>node:net\<close> (0, 4 or 6), the URL parser, the resolver (\<^const>\<open>None\<close> when it throws) and
  the sending of one request. A thrown error is \<^const>\<open>Inl\<close> with its message.
\<close>

definition BLOCKED_PRIVATE_NETWORK_METADATA_HOSTS :: "string list" where
  "BLOCKED_PRIVATE_NETWORK_METADATA_HOSTS = [''metadata'', ''metadata.google.internal'']"

definition normalizeIpHost :: "string \<Rightarrow> string" where
  "normalizeIpHost hostname =
     (if starts_with ''['' hostname \<and> ends_with '']'' hostname then butlast (tl hostname) else hostname)"

definition isOutboundIpAddress :: "(string \<Rightarrow> nat) \<Rightarrow> string \<Rightarrow> bool" where
  "isOutboundIpAddress isIP address = (isIP (normalizeIpHost (js_lower address)) \<noteq> 0)"

definition isBlockedOutboundAddress :: "(string \<Rightarrow> nat) \<Rightarrow> string \<Rightarrow> bool" where
  "isBlockedOutboundAddress isIP address =
     (let ipHost = normalizeIpHost (js_lower address); ipVersion = isIP ipHost in
      ipVersion = 0 \<or> (ipVersion = 4 \<and> isBlockedIpv4 ipHost) \<or> (ipVersion = 6 \<and> isBlockedIpv6 ipHost))"

lemma colon_js_lower: "CHR '':'' \<in> set (js_lower s) \<Longrightarrow> CHR '':'' \<in> set s"
proof -
  assume "CHR '':'' \<in> set (js_lower s)"
  then obtain x where x: "x \<in> set s" "js_lower_char x = CHR '':''" by (auto simp: js_lower_def)
  then have "of_char (js_lower_char x) = (58 :: nat)" by simp
  moreover have "(of_char x :: nat) < 256" by simp
  ultimately have "of_char x = (58 :: nat)"
    by (auto simp: js_lower_char_def Let_def split: if_splits)
  also have "(58 :: nat) = of_char CHR '':''" by simp
  finally have "x = CHR '':''" by (simp only: of_char_eq_iff)
  then show ?thesis using x(1) by simp
qed

text \<open>
  The recursion is on the text of the embedded IPv4 address, which holds no colon, while a text
  that parses to eight groups does: it ends after one step, whatever \<open>isIP\<close> answers.
\<close>

lemma parse_ipv6_colon: "parseIpv6Hextets s = Some hs \<Longrightarrow> length hs = 8 \<Longrightarrow> CHR '':'' \<in> set s"
proof (rule ccontr)
  assume p: "parseIpv6Hextets s = Some hs" "length hs = 8" and c: "CHR '':'' \<notin> set s"
  have c': "CHR '':'' \<notin> set (js_lower s)" using c colon_js_lower by blast
  have w: "withoutIpv4 (js_lower s) = Some (js_lower s)"
    using c' by (simp add: withoutIpv4_def splitIpv6Ipv4Suffix_def)
  have "readHextets (js_lower s) = Some hs" using p(1) w by (simp add: parseIpv6Hextets_def)
  then have "parseSide (js_lower s) = Some hs"
    using split_dc_word [OF c'] by (auto simp: readHextets_def parseSide_Nil split: option.splits if_splits)
  then have "length hs \<le> 1"
    using split_char_no_sep [OF c'] by (auto simp: parseSide_def split: if_splits)
  then show False using p(2) by simp
qed

lemma normalizeIpHost_subset: "set (normalizeIpHost s) \<subseteq> set s"
proof (cases s)
  case (Cons a t)
  then show ?thesis using in_set_butlastD [of _ t] by (auto simp: normalizeIpHost_def)
qed (simp add: normalizeIpHost_def)

lemma ipv4FromHextets_no_colon: "CHR '':'' \<notin> set (ipv4FromHextets hs)"
  using dotted_no_colon unfolding ipv4FromHextets_def dotted_def by blast

function isBlockedPrivateNetworkMetadataAddress :: "(string \<Rightarrow> nat) \<Rightarrow> string \<Rightarrow> bool" where
  "isBlockedPrivateNetworkMetadataAddress isIP address =
     (let ipHost = normalizeIpHost (js_lower address); ipVersion = isIP ipHost in
      if ipVersion = 4
      then ipHost = ''100.100.100.200'' \<or> ipHost = ''169.254.169.254'' \<or> ipHost = ''169.254.170.2''
      else if ipVersion \<noteq> 6 then True
      else (case parseIpv6Hextets ipHost of
              None \<Rightarrow> True
            | Some hextets \<Rightarrow>
                (if length hextets \<noteq> 8 then True
                 else if all_zero (take 5 hextets) \<and> hextets ! 5 = 0xffff
                 then isBlockedPrivateNetworkMetadataAddress isIP (ipv4FromHextets hextets)
                 else hextets ! 0 = 0xfd00 \<and> hextets ! 1 = 0x0ec2 \<and>
                      all_zero (take 5 (drop 2 hextets)) \<and> hextets ! 7 = 0x0254)))"
  by pat_completeness auto
termination
proof (relation "measure (\<lambda>(isIP, address). if CHR '':'' \<in> set address then 1 else 0)", goal_cases)
  case 1
  show ?case by (rule wf_measure)
next
  case (2 isIP address ipHost ipVersion hextets)
  have "CHR '':'' \<in> set ipHost" using parse_ipv6_colon 2 by blast
  then have "CHR '':'' \<in> set address"
    using normalizeIpHost_subset [of "js_lower address"] colon_js_lower 2(1) by blast
  then show ?case using ipv4FromHextets_no_colon by simp
qed

declare isBlockedPrivateNetworkMetadataAddress.simps [simp del]

section \<open>Validation\<close>

record url_options =
  label :: "string option"
  resolveHostname :: "(string \<Rightarrow> string list option) option"

record validation_options =
  base_options :: url_options
  blockedAddressError :: string
  blockedHostnameError :: string
  blockedResolvedAddressError :: string
  isBlockedAddress :: "string \<Rightarrow> bool"
  isBlockedHostname :: "(string \<Rightarrow> bool) option"
  rejectLocalhostName :: bool

definition errorPrefix :: "string option \<Rightarrow> string" where
  "errorPrefix lab =
     (case lab of
        None \<Rightarrow> ''Outbound URL''
      | Some l \<Rightarrow> (if js_trim l \<noteq> [] then js_trim l else ''Outbound URL''))"

text \<open>The second half of the validation: the literal, or the resolved addresses.\<close>

definition checkOutboundHost ::
  "(string \<Rightarrow> nat) \<Rightarrow> (string \<Rightarrow> string list option) \<Rightarrow> validation_options \<Rightarrow> string \<Rightarrow> string \<Rightarrow> string + string" where
  "checkOutboundHost isIP defaultResolveHostname options prefix hostname =
     (let ipHost = normalizeIpHost hostname in
      if isIP ipHost \<noteq> 0
      then (if isBlockedAddress options ipHost then Inl (prefix @ '' '' @ blockedAddressError options)
            else Inr ipHost)
      else (let resolve = (case resolveHostname (base_options options) of
              None \<Rightarrow> defaultResolveHostname | Some r \<Rightarrow> r) in
        case resolve hostname of
          None \<Rightarrow> Inl (prefix @ '' host could not be resolved.'')
        | Some addresses \<Rightarrow>
            (if addresses = [] then Inl (prefix @ '' host could not be resolved.'')
             else if list_ex (\<lambda>a. \<not> isOutboundIpAddress isIP a) addresses
             then Inl (prefix @ '' host resolved to a non-IP address.'')
             else if list_ex (isBlockedAddress options) addresses
             then Inl (prefix @ '' host resolved to '' @ blockedResolvedAddressError options)
             else if hd addresses = [] then Inl (prefix @ '' host could not be resolved.'')
             else Inr (hd addresses))))"

definition validateOutboundHttpUrl ::
  "(string \<Rightarrow> nat) \<Rightarrow> url_parser \<Rightarrow> (string \<Rightarrow> string list option) \<Rightarrow> string \<Rightarrow> validation_options \<Rightarrow>
   string + string \<times> js_url" where
  "validateOutboundHttpUrl isIP parse defaultResolveHostname rawUrl options =
     (let prefix = errorPrefix (label (base_options options)) in
      case parse rawUrl of
        None \<Rightarrow> Inl (prefix @ '' is invalid.'')
      | Some url \<Rightarrow>
          (if url_protocol url \<noteq> ''https:'' \<and> url_protocol url \<noteq> ''http:''
           then Inl (prefix @ '' must use http or https.'')
           else if has_credentials url then Inl (prefix @ '' must not include credentials.'')
           else (let hostname = js_lower (url_hostname url) in
             if hostname = [] then Inl (prefix @ '' host is not allowed.'')
             else if rejectLocalhostName options \<and> (hostname = ''localhost'' \<or> ends_with ''.localhost'' hostname)
             then Inl (prefix @ '' host is not allowed.'')
             else if (case isBlockedHostname options of None \<Rightarrow> False | Some b \<Rightarrow> b hostname)
             then Inl (prefix @ '' '' @ blockedHostnameError options)
             else (case checkOutboundHost isIP defaultResolveHostname options prefix hostname of
                     Inl e \<Rightarrow> Inl e
                   | Inr resolvedAddress \<Rightarrow> Inr (resolvedAddress, url)))))"

definition safe_options :: "(string \<Rightarrow> nat) \<Rightarrow> url_options \<Rightarrow> validation_options" where
  "safe_options isIP options =
     \<lparr> base_options = options,
       blockedAddressError = ''host is not allowed.'', blockedHostnameError = ''host is not allowed.'',
       blockedResolvedAddressError = ''a blocked address.'',
       isBlockedAddress = isBlockedOutboundAddress isIP, isBlockedHostname = None,
       rejectLocalhostName = True \<rparr>"

definition private_options :: "(string \<Rightarrow> nat) \<Rightarrow> url_options \<Rightarrow> validation_options" where
  "private_options isIP options =
     \<lparr> base_options = options,
       blockedAddressError = ''unsafe private-network mode cannot access cloud metadata hosts.'',
       blockedHostnameError = ''unsafe private-network mode cannot access cloud metadata hosts.'',
       blockedResolvedAddressError = ''a cloud metadata address.'',
       isBlockedAddress = isBlockedPrivateNetworkMetadataAddress isIP,
       isBlockedHostname = Some (\<lambda>hostname. hostname \<in> set BLOCKED_PRIVATE_NETWORK_METADATA_HOSTS),
       rejectLocalhostName = False \<rparr>"

definition validateSafeOutboundHttpUrl where
  "validateSafeOutboundHttpUrl isIP parse dns rawUrl options =
     validateOutboundHttpUrl isIP parse dns rawUrl (safe_options isIP options)"

definition validatePrivateNetworkOutboundHttpUrl where
  "validatePrivateNetworkOutboundHttpUrl isIP parse dns rawUrl options =
     validateOutboundHttpUrl isIP parse dns rawUrl (private_options isIP options)"

definition assertSafeOutboundHttpUrl where
  "assertSafeOutboundHttpUrl isIP parse dns rawUrl options =
     map_sum id snd (validateSafeOutboundHttpUrl isIP parse dns rawUrl options)"

definition assertPrivateNetworkOutboundHttpUrl where
  "assertPrivateNetworkOutboundHttpUrl isIP parse dns rawUrl options =
     map_sum id snd (validatePrivateNetworkOutboundHttpUrl isIP parse dns rawUrl options)"

text \<open>\<open>new URL(location, currentUrl)\<close> is the parameter \<open>parse_relative\<close>.\<close>

definition parseRedirectUrl ::
  "(string \<Rightarrow> js_url \<Rightarrow> js_url option) \<Rightarrow> js_url \<Rightarrow> string option \<Rightarrow> url_options \<Rightarrow> string + js_url" where
  "parseRedirectUrl parse_relative currentUrl locationHeader options =
     (let prefix = errorPrefix (label options) in
      case locationHeader of
        None \<Rightarrow> Inl (prefix @ '' redirect location is missing.'')
      | Some loc \<Rightarrow>
          (if js_trim loc = [] then Inl (prefix @ '' redirect location is missing.'')
           else (case parse_relative loc currentUrl of
                   None \<Rightarrow> Inl (prefix @ '' redirect location is invalid.'')
                 | Some url \<Rightarrow> Inr url)))"

definition resolveSafeRedirectUrl where
  "resolveSafeRedirectUrl isIP parse parse_relative dns currentUrl locationHeader options =
     (case parseRedirectUrl parse_relative currentUrl locationHeader options of
        Inl e \<Rightarrow> Inl e
      | Inr url \<Rightarrow> assertSafeOutboundHttpUrl isIP parse dns (url_href url) options)"

definition resolvePrivateNetworkRedirectUrl where
  "resolvePrivateNetworkRedirectUrl isIP parse parse_relative dns currentUrl locationHeader options =
     (case parseRedirectUrl parse_relative currentUrl locationHeader options of
        Inl e \<Rightarrow> Inl e
      | Inr url \<Rightarrow> assertPrivateNetworkOutboundHttpUrl isIP parse dns (url_href url) options)"

definition isHttpRedirectStatus :: "int \<Rightarrow> bool" where
  "isHttpRedirectStatus status =
     (status = 301 \<or> status = 302 \<or> status = 303 \<or> status = 307 \<or> status = 308)"

text \<open>What the pinned lookup calls back with: every address it offers, with its family.\<close>

definition pinResolvedOutboundLookupAddress :: "(string \<Rightarrow> nat) \<Rightarrow> string \<Rightarrow> string \<Rightarrow> (string \<times> nat) list" where
  "pinResolvedOutboundLookupAddress isIP resolvedAddress hostname =
     [(resolvedAddress, if isIP resolvedAddress \<noteq> 0 then isIP resolvedAddress else 4)]"

text \<open>
  The fetch. \<open>send\<close> issues the request to the URL with the lookup it is given and answers with an
  error or a status and the rest of the response; the second component logs what was sent.
\<close>

record fetch_init =
  abort_reason :: "string option option"
  body_supported :: bool
  redirect_manual :: bool

definition validatedOutboundHttpFetch ::
  "(string \<Rightarrow> nat) \<Rightarrow> (string \<Rightarrow> url_options \<Rightarrow> string + string \<times> js_url) \<Rightarrow>
   (js_url \<Rightarrow> (string \<Rightarrow> (string \<times> nat) list) \<Rightarrow> string + int \<times> 'r) \<Rightarrow> url_options \<Rightarrow> js_url \<Rightarrow> fetch_init \<Rightarrow>
   (string + int \<times> 'r) \<times> (js_url \<times> (string \<Rightarrow> (string \<times> nat) list)) list" where
  "validatedOutboundHttpFetch isIP validateUrl send options url init =
     (case validateUrl (url_href url) options of
        Inl e \<Rightarrow> (Inl e, [])
      | Inr (resolvedAddress, _) \<Rightarrow>
          (case abort_reason init of
             Some None \<Rightarrow> (Inl (errorPrefix (label options) @ '' request was aborted.''), [])
           | Some (Some reason) \<Rightarrow> (Inl reason, [])
           | None \<Rightarrow>
               (if \<not> body_supported init
                then (Inl (errorPrefix (label options) @ '' request body type is not supported.''),
                  [(url, pinResolvedOutboundLookupAddress isIP resolvedAddress)])
                else (let pinned = pinResolvedOutboundLookupAddress isIP resolvedAddress;
                          response = send url pinned in
                  (case response of
                     Inl e \<Rightarrow> Inl e
                   | Inr (status, rest) \<Rightarrow>
                       (if redirect_manual init \<or> \<not> isHttpRedirectStatus status then Inr (status, rest)
                        else Inl (errorPrefix (label options) @ '' unexpected redirect.'')),
                   [(url, pinned)])))))"

definition safeOutboundHttpFetch where
  "safeOutboundHttpFetch isIP parse dns =
     validatedOutboundHttpFetch isIP (validateSafeOutboundHttpUrl isIP parse dns)"

definition privateNetworkOutboundHttpFetch where
  "privateNetworkOutboundHttpFetch isIP parse dns =
     validatedOutboundHttpFetch isIP (validatePrivateNetworkOutboundHttpUrl isIP parse dns)"

section \<open>What a validated URL satisfies\<close>

definition resolver_of :: "(string \<Rightarrow> string list option) \<Rightarrow> url_options \<Rightarrow> string \<Rightarrow> string list option" where
  "resolver_of dns options = (case resolveHostname options of None \<Rightarrow> dns | Some r \<Rightarrow> r)"

text \<open>The address a host is pinned to: its own literal, or the first of only acceptable answers.\<close>

definition pinned_to ::
  "(string \<Rightarrow> nat) \<Rightarrow> (string \<Rightarrow> string list option) \<Rightarrow> (string \<Rightarrow> bool) \<Rightarrow> string \<Rightarrow> string \<Rightarrow> bool" where
  "pinned_to isIP resolve blocked hostname address =
     (if isIP (normalizeIpHost hostname) \<noteq> 0
      then address = normalizeIpHost hostname \<and> \<not> blocked address
      else (\<exists>answers. resolve hostname = Some answers \<and> answers \<noteq> [] \<and> address = hd answers \<and> address \<noteq> [] \<and>
              list_all (\<lambda>a. isOutboundIpAddress isIP a \<and> \<not> blocked a) answers))"

definition acceptable_url :: "js_url \<Rightarrow> bool" where
  "acceptable_url url =
     (url_protocol url \<in> {''https:'', ''http:''} \<and> \<not> has_credentials url \<and> url_hostname url \<noteq> [])"

lemma js_lower_Nil [simp]: "js_lower s = [] \<longleftrightarrow> s = []"
  by (simp add: js_lower_def)

lemma check_host_iff:
  "checkOutboundHost isIP dns options prefix hostname = Inr address \<longleftrightarrow>
     pinned_to isIP (resolver_of dns (base_options options)) (isBlockedAddress options) hostname address"
proof (cases "isIP (normalizeIpHost hostname) \<noteq> 0")
  case True
  then show ?thesis by (auto simp: checkOutboundHost_def pinned_to_def Let_def)
next
  case noip: False
  have r: "(case resolveHostname (base_options options) of None \<Rightarrow> dns | Some r \<Rightarrow> r) =
      resolver_of dns (base_options options)" by (simp add: resolver_of_def)
  show ?thesis
  proof (cases "resolver_of dns (base_options options) hostname")
    case None
    then show ?thesis using noip by (simp add: checkOutboundHost_def r pinned_to_def Let_def)
  next
    case (Some answers)
    have "list_all (\<lambda>a. isOutboundIpAddress isIP a \<and> \<not> isBlockedAddress options a) answers \<longleftrightarrow>
        \<not> list_ex (\<lambda>a. \<not> isOutboundIpAddress isIP a) answers \<and> \<not> list_ex (isBlockedAddress options) answers"
      by (auto simp: list_all_iff list_ex_iff)
    then show ?thesis using noip Some by (auto simp: checkOutboundHost_def r pinned_to_def Let_def)
  qed
qed

lemma validate_iff:
  "validateOutboundHttpUrl isIP parse dns raw options = Inr (address, url) \<longleftrightarrow>
     parse raw = Some url \<and> acceptable_url url \<and>
     \<not> (rejectLocalhostName options \<and>
        (js_lower (url_hostname url) = ''localhost'' \<or> ends_with ''.localhost'' (js_lower (url_hostname url)))) \<and>
     \<not> (case isBlockedHostname options of None \<Rightarrow> False | Some b \<Rightarrow> b (js_lower (url_hostname url))) \<and>
     pinned_to isIP (resolver_of dns (base_options options)) (isBlockedAddress options)
       (js_lower (url_hostname url)) address"
proof (cases "parse raw")
  case None
  then show ?thesis by (simp add: validateOutboundHttpUrl_def Let_def)
next
  case (Some u)
  have "(case check of Inl e \<Rightarrow> Inl e | Inr a \<Rightarrow> Inr (a, u)) = Inr (address, url) \<longleftrightarrow>
      u = url \<and> check = Inr address" for check :: "string + string"
    by (auto split: sum.splits)
  then show ?thesis
    unfolding validateOutboundHttpUrl_def Let_def Some option.case acceptable_url_def js_lower_Nil
    by (auto simp: check_host_iff split: if_split_asm)
qed

lemma pinned_not_blocked: "pinned_to isIP resolve blocked h a \<Longrightarrow> \<not> blocked a"
  by (cases "isIP (normalizeIpHost h) \<noteq> 0") (auto simp: pinned_to_def list_all_iff)

lemma safe_fields [simp]:
  "base_options (safe_options isIP options) = options" "rejectLocalhostName (safe_options isIP options)"
  "isBlockedHostname (safe_options isIP options) = None"
  "isBlockedAddress (safe_options isIP options) = isBlockedOutboundAddress isIP"
  "base_options (private_options isIP options) = options" "\<not> rejectLocalhostName (private_options isIP options)"
  "isBlockedHostname (private_options isIP options) =
     Some (\<lambda>hostname. hostname \<in> set BLOCKED_PRIVATE_NETWORK_METADATA_HOSTS)"
  "isBlockedAddress (private_options isIP options) = isBlockedPrivateNetworkMetadataAddress isIP"
  by (simp_all add: safe_options_def private_options_def)

section \<open>Properties\<close>

text \<open>
  C1. The SSRF guard, exactly: a URL is validated and pinned to an address if and only if it
  parses as http or https without credentials, its host is not a localhost name, and the host is
  an unblocked IP literal (pinned to itself) or a name all of whose DNS answers are unblocked IP
  addresses (pinned to the first).
\<close>

theorem outbound_validation_exact:
  "validateSafeOutboundHttpUrl isIP parse dns raw options = Inr (address, url) \<longleftrightarrow>
     parse raw = Some url \<and> acceptable_url url \<and>
     js_lower (url_hostname url) \<noteq> ''localhost'' \<and> \<not> ends_with ''.localhost'' (js_lower (url_hostname url)) \<and>
     pinned_to isIP (resolver_of dns options) (isBlockedOutboundAddress isIP)
       (js_lower (url_hostname url)) address"
  by (auto simp: validateSafeOutboundHttpUrl_def validate_iff)

text \<open>
  C26. The fetch keeps what the validation found: every request it sends, whatever the resolver,
  the server and the options are, goes to a URL that parsed as acceptable, and its lookup, for any
  host name it is asked about, offers one address only, which is not blocked.
\<close>

theorem outbound_fetch_pins_unblocked:
  assumes "safeOutboundHttpFetch isIP parse dns send options url init = (result, sent)"
    and "(u, look) \<in> set sent"
  shows "u = url \<and> (\<exists>address v. parse (url_href url) = Some v \<and> acceptable_url v \<and>
    \<not> isBlockedOutboundAddress isIP address \<and> (\<forall>h. map fst (look h) = [address]))"
proof -
  obtain address v where v: "validateSafeOutboundHttpUrl isIP parse dns (url_href url) options = Inr (address, v)"
    and u: "u = url" "look = pinResolvedOutboundLookupAddress isIP address"
    using assms
    by (auto simp: safeOutboundHttpFetch_def validatedOutboundHttpFetch_def Let_def
        split: sum.splits option.splits if_splits)
  from v have "parse (url_href url) = Some v" "acceptable_url v"
    and "pinned_to isIP (resolver_of dns options) (isBlockedOutboundAddress isIP) (js_lower (url_hostname v)) address"
    by (auto simp: validateSafeOutboundHttpUrl_def validate_iff)
  then show ?thesis using u by (auto simp: pinResolvedOutboundLookupAddress_def dest: pinned_not_blocked)
qed

text \<open>
  A redirect is never a way around the guard: a resolved redirect target satisfies the same
  conditions as a first URL, and the fetch itself hands back a redirect response only to a caller
  that asked for manual handling.
\<close>

theorem outbound_redirect_revalidated:
  assumes "resolveSafeRedirectUrl isIP parse parse_relative dns current location options = Inr url"
  shows "acceptable_url url \<and> (\<exists>address target. map_option (\<lambda>l. parse_relative l current) location = Some (Some target) \<and>
    parse (url_href target) = Some url \<and> \<not> isBlockedOutboundAddress isIP address \<and>
    pinned_to isIP (resolver_of dns options) (isBlockedOutboundAddress isIP) (js_lower (url_hostname url)) address)"
proof -
  obtain l target where t: "location = Some l" "parse_relative l current = Some target"
    and a: "assertSafeOutboundHttpUrl isIP parse dns (url_href target) options = Inr url"
    using assms by (auto simp: resolveSafeRedirectUrl_def parseRedirectUrl_def Let_def
        split: sum.splits option.splits if_splits)
  obtain address where "validateSafeOutboundHttpUrl isIP parse dns (url_href target) options = Inr (address, url)"
    using a by (cases "validateSafeOutboundHttpUrl isIP parse dns (url_href target) options")
      (auto simp: assertSafeOutboundHttpUrl_def)
  then show ?thesis using t pinned_not_blocked
    by (fastforce simp: validateSafeOutboundHttpUrl_def validate_iff)
qed

lemma js_lower_mapped: "js_lower (''::ffff:'' @ dotted xs) = ''::ffff:'' @ dotted xs"
  unfolding js_lower_append js_lower_dotted by (simp add: js_lower_def js_lower_char_def)

lemma normalize_dotted: "normalizeIpHost (dotted xs) = dotted xs"
proof -
  have "\<not> is_digit CHR ''[''" by (simp add: is_digit_def)
  then have "CHR ''['' \<notin> set (dotted xs)"
    using set_js_join [of "''.''" "map show_nat xs"] show_nat_no_char [of "CHR ''[''"]
    by (auto simp: dotted_def)
  then show ?thesis by (cases "dotted xs") (auto simp: normalizeIpHost_def starts_with_def)
qed

lemma normalize_mapped: "normalizeIpHost (''::ffff:'' @ s) = ''::ffff:'' @ s"
  by (simp add: normalizeIpHost_def starts_with_def)

lemma dotted_inject:
  assumes "length xs = 4" "\<forall>x \<in> set xs. x \<le> 255" "length ys = 4" "\<forall>x \<in> set ys. x \<le> 255"
  shows "dotted xs = dotted ys \<longleftrightarrow> xs = ys"
  using parse_ipv4_dotted [OF assms(1,2)] parse_ipv4_dotted [OF assms(3,4)] by (metis option.inject)

lemma char_of_eqI: "of_char c = (n :: nat) \<Longrightarrow> char_of n = c"
  by auto

lemma digit_texts:
  "char_of (48 :: nat) = CHR ''0''" "char_of (49 :: nat) = CHR ''1''" "char_of (50 :: nat) = CHR ''2''"
  "char_of (52 :: nat) = CHR ''4''" "char_of (53 :: nat) = CHR ''5''" "char_of (54 :: nat) = CHR ''6''"
  "char_of (55 :: nat) = CHR ''7''" "char_of (57 :: nat) = CHR ''9''"
  by (rule char_of_eqI, simp)+

lemma metadata_texts:
  "''100.100.100.200'' = dotted [100, 100, 100, 200]" "''169.254.169.254'' = dotted [169, 254, 169, 254]"
  "''169.254.170.2'' = dotted [169, 254, 170, 2]"
  by (simp_all add: dotted_def show_nat.simps digit_char_def digit_texts)

lemma metadata_ipv4:
  assumes "a < 256" "b < 256" "c < 256" "d < 256" and "isIP (dotted [a, b, c, d]) = 4"
  shows "isBlockedPrivateNetworkMetadataAddress isIP (dotted [a, b, c, d]) \<longleftrightarrow>
    [a, b, c, d] \<in> {[100, 100, 100, 200], [169, 254, 169, 254], [169, 254, 170, 2]}"
proof -
  have i: "dotted [a, b, c, d] = dotted [w, x, y, z] \<longleftrightarrow> [a, b, c, d] = [w, x, y, z]"
    if "w < 256" "x < 256" "y < 256" "z < 256" for w x y z
    using assms(1-4) that by (intro dotted_inject) auto
  show ?thesis
    using assms(5)
    by (subst isBlockedPrivateNetworkMetadataAddress.simps)
      (simp add: Let_def normalize_dotted metadata_texts i)
qed

lemma metadata_mapped:
  assumes "a < 256" "b < 256" "c < 256" "d < 256" and "isIP (''::ffff:'' @ dotted [a, b, c, d]) = 6"
  shows "isBlockedPrivateNetworkMetadataAddress isIP (''::ffff:'' @ dotted [a, b, c, d]) =
    isBlockedPrivateNetworkMetadataAddress isIP (dotted [a, b, c, d])"
proof -
  let ?hs = "[0, 0, 0, 0, 0, 0xffff] @ [256 * a + b, 256 * c + d]"
  have m: "parseIpv6Hextets (''::ffff:'' @ dotted [a, b, c, d]) = Some ?hs"
    using parse_ipv6_embedded [OF assms(1-4), of "[0xffff]"] by (simp add: replicate_zeros)
  have h: "ipv4FromHextets ?hs = dotted [a, b, c, d]" by (rule hextets_ipv4 [OF assms(1-4)]) simp
  have z: "length ?hs = 8" "all_zero (take 5 ?hs) \<and> ?hs ! 5 = 0xffff" by (simp_all add: all_zero_def)
  have "isBlockedPrivateNetworkMetadataAddress isIP (''::ffff:'' @ dotted [a, b, c, d]) =
      isBlockedPrivateNetworkMetadataAddress isIP (ipv4FromHextets ?hs)"
    by (subst isBlockedPrivateNetworkMetadataAddress.simps)
      (simp only: Let_def js_lower_mapped normalize_mapped assms(5) m z option.case if_True if_False
        simp_thms numeral_eq_iff num.simps)
  then show ?thesis unfolding h .
qed

text \<open>
  The private-network mode, on addresses: an IPv4 literal is refused exactly when it is one of
  the three metadata addresses, and a mapped IPv6 literal exactly when its IPv4 address is.
\<close>

theorem metadata_addresses_blocked:
  assumes "a < 256" "b < 256" "c < 256" "d < 256"
    and "isIP (dotted [a, b, c, d]) = 4" and "isIP (''::ffff:'' @ dotted [a, b, c, d]) = 6"
  shows "(isBlockedPrivateNetworkMetadataAddress isIP (dotted [a, b, c, d]) \<longleftrightarrow>
       [a, b, c, d] \<in> {[100, 100, 100, 200], [169, 254, 169, 254], [169, 254, 170, 2]}) \<and>
     isBlockedPrivateNetworkMetadataAddress isIP (''::ffff:'' @ dotted [a, b, c, d]) =
       isBlockedPrivateNetworkMetadataAddress isIP (dotted [a, b, c, d])"
  using metadata_ipv4 [of a b c d isIP] metadata_mapped [of a b c d isIP] assms by blast

lemma nat64_parse: "parseIpv6Hextets ''64:ff9b::a9fe:a9fe'' = Some [0x64, 0xff9b, 0, 0, 0, 0, 0xa9fe, 0xa9fe]"
proof -
  have l: "js_lower ''64:ff9b::a9fe:a9fe'' = ''64:ff9b::a9fe:a9fe''"
    by (simp add: js_lower_def js_lower_char_def)
  have w: "withoutIpv4 ''64:ff9b::a9fe:a9fe'' = Some ''64:ff9b::a9fe:a9fe''"
    by (subst withoutIpv4_def, subst no_dot_no_suffix) simp_all
  have s: "split_double_colon ''64:ff9b::a9fe:a9fe'' = [''64:ff9b'', ''a9fe:a9fe'']" by simp
  have "parseSide ''64:ff9b'' = Some [0x64, 0xff9b]" "parseSide ''a9fe:a9fe'' = Some [0xa9fe, 0xa9fe]"
    by (simp_all add: parseSide_def is_hex_def hex_digits_val_def hex_val_def)
  moreover have "replicate 4 (0::nat) = [0, 0, 0, 0]" by (simp add: numeral_eq_Suc)
  ultimately show ?thesis
    using readHextets_compressed [OF s] by (simp add: parseIpv6Hextets_def l w del: split_double_colon.simps)
qed

text \<open>
  The metadata check knows the mapped spelling only: the NAT64 spelling of the metadata address
  169.254.169.254 passes it, although the safe mode treats that prefix as a disguise.
\<close>

theorem metadata_nat64_passes:
  assumes "isIP ''64:ff9b::a9fe:a9fe'' = 6"
  shows "\<not> isBlockedPrivateNetworkMetadataAddress isIP ''64:ff9b::a9fe:a9fe'' \<and>
    isBlockedOutboundAddress isIP ''64:ff9b::a9fe:a9fe''"
proof -
  have l: "normalizeIpHost (js_lower ''64:ff9b::a9fe:a9fe'') = ''64:ff9b::a9fe:a9fe''"
    by (simp add: js_lower_def js_lower_char_def normalizeIpHost_def starts_with_def)
  have "\<not> isBlockedPrivateNetworkMetadataAddress isIP ''64:ff9b::a9fe:a9fe''"
    unfolding isBlockedPrivateNetworkMetadataAddress.simps [of isIP "''64:ff9b::a9fe:a9fe''"]
    by (simp only: Let_def l assms nat64_parse) (simp add: all_zero_def)
  moreover have "isBlockedOutboundAddress isIP ''64:ff9b::a9fe:a9fe''"
    unfolding isBlockedOutboundAddress_def Let_def l isBlockedIpv6_def nat64_parse using assms by simp
  ultimately show ?thesis by simp
qed

section \<open>Witnesses\<close>

definition demo_isIP :: "string \<Rightarrow> nat" where
  "demo_isIP s = (if s = dotted [8, 8, 8, 8] \<or> s = dotted [169, 254, 169, 254] then 4 else 6)"

definition outbound_demo_url :: js_url where
  "outbound_demo_url = \<lparr> url_protocol = ''https:'', url_username = [], url_password = [],
     url_hostname = dotted [8, 8, 8, 8], url_port = [], url_pathname = ''/'', url_href = ''https://8.8.8.8/'' \<rparr>"

definition outbound_demo_parse :: url_parser where
  "outbound_demo_parse s = (if s = ''https://8.8.8.8/'' then Some outbound_demo_url else None)"

definition demo_options :: url_options where
  "demo_options = \<lparr> label = None, resolveHostname = None \<rparr>"

lemma demo_pinned:
  "pinned_to demo_isIP resolve (isBlockedOutboundAddress demo_isIP) (dotted [8, 8, 8, 8]) (dotted [8, 8, 8, 8])"
proof -
  have "parseIpv4Address (dotted [8, 8, 8, 8]) = Some [8, 8, 8, 8]" by (rule parse_ipv4_dotted) simp_all
  then have "\<not> isBlockedIpv4 (dotted [8, 8, 8, 8])" by (simp add: isBlockedIpv4_def blocked_octets_def)
  then show ?thesis
    by (simp add: pinned_to_def normalize_dotted demo_isIP_def isBlockedOutboundAddress_def Let_def)
qed

lemma demo_validates:
  "validateSafeOutboundHttpUrl demo_isIP outbound_demo_parse (\<lambda>_. None) ''https://8.8.8.8/'' demo_options =
     Inr (dotted [8, 8, 8, 8], outbound_demo_url)"
proof -
  have "CHR ''l'' \<notin> set (dotted [8, 8, 8, 8])"
    by (simp add: dotted_def show_nat.simps digit_char_def char_of_eqI [of "CHR ''8''" 56])
  then have "dotted [8, 8, 8, 8] \<noteq> ''localhost''" "\<not> ends_with ''.localhost'' (dotted [8, 8, 8, 8])"
    by (auto simp: ends_with_def starts_with_def)
      (metis in_set_takeD list.set_intros(1) list.set_intros(2) set_rev)
  moreover have "dotted [8, 8, 8, 8] \<noteq> []" by (simp add: dotted_def)
  ultimately show ?thesis using demo_pinned
    by (auto simp: validateSafeOutboundHttpUrl_def validate_iff outbound_demo_parse_def outbound_demo_url_def
        acceptable_url_def has_credentials_def demo_options_def)
qed

definition demo_send :: "js_url \<Rightarrow> (string \<Rightarrow> (string \<times> nat) list) \<Rightarrow> string + int \<times> unit" where
  "demo_send u look = Inr (200, ())"

definition demo_init :: fetch_init where
  "demo_init = \<lparr> abort_reason = None, body_supported = True, redirect_manual = False \<rparr>"

theorem outbound_fetch_pins_unblocked_witness:
  "\<exists>address v. outbound_demo_parse (url_href outbound_demo_url) = Some v \<and> acceptable_url v \<and>
     \<not> isBlockedOutboundAddress demo_isIP address"
proof -
  have h: "url_href outbound_demo_url = ''https://8.8.8.8/''" by (simp add: outbound_demo_url_def)
  have "safeOutboundHttpFetch demo_isIP outbound_demo_parse (\<lambda>_. None) demo_send demo_options outbound_demo_url demo_init =
      (Inr (200, ()), [(outbound_demo_url, pinResolvedOutboundLookupAddress demo_isIP (dotted [8, 8, 8, 8]))])"
    by (simp add: safeOutboundHttpFetch_def validatedOutboundHttpFetch_def h demo_validates demo_init_def
        demo_send_def isHttpRedirectStatus_def)
  from outbound_fetch_pins_unblocked [OF this] show ?thesis by auto
qed

theorem outbound_redirect_revalidated_witness: "acceptable_url outbound_demo_url"
proof -
  have h: "url_href outbound_demo_url = ''https://8.8.8.8/''" by (simp add: outbound_demo_url_def)
  have "resolveSafeRedirectUrl demo_isIP outbound_demo_parse (\<lambda>_ _. Some outbound_demo_url) (\<lambda>_. None)
      outbound_demo_url (Some ''/next'') demo_options = Inr outbound_demo_url"
    by (simp add: resolveSafeRedirectUrl_def parseRedirectUrl_def assertSafeOutboundHttpUrl_def h demo_validates
        js_trim_def js_ws_def)
  from outbound_redirect_revalidated [OF this] show ?thesis by blast
qed

theorem metadata_addresses_blocked_witness:
  "isBlockedPrivateNetworkMetadataAddress demo_isIP (''::ffff:'' @ dotted [169, 254, 169, 254])"
proof -
  have "CHR '':'' \<in> set (''::ffff:'' @ dotted [169, 254, 169, 254])" by simp
  then have "demo_isIP (''::ffff:'' @ dotted [169, 254, 169, 254]) = 6"
    using dotted_no_colon unfolding demo_isIP_def by metis
  then show ?thesis
    using metadata_addresses_blocked [of 169 254 169 254 demo_isIP] by (simp add: demo_isIP_def)
qed

theorem metadata_nat64_passes_witness:
  "\<not> isBlockedPrivateNetworkMetadataAddress demo_isIP ''64:ff9b::a9fe:a9fe''"
proof -
  have "CHR '':'' \<in> set ''64:ff9b::a9fe:a9fe''" by simp
  then have "demo_isIP ''64:ff9b::a9fe:a9fe'' = 6" using dotted_no_colon unfolding demo_isIP_def by metis
  then show ?thesis using metadata_nat64_passes [of demo_isIP] by blast
qed

end
