(* ===== verification/Sql_Split.thy ===== *)
theory Sql_Split
  imports Js_Base
begin

text \<open>
  \<^verbatim>\<open>src/bun/sql-statement-split.ts\<close>: the splitter behind the single-statement guards of the SQLite
  tools. The state holds the six flags, the parts of the current statement and the statements
  found; one step reads a character with its successor and says whether it consumed both.
\<close>

record sql_state =
  inSingleQuote :: bool
  inDoubleQuote :: bool
  inBacktickQuote :: bool
  inBracketIdentifier :: bool
  inLineComment :: bool
  inBlockComment :: bool
  currentParts :: "string list"
  statements :: "string list"

definition sql_start :: sql_state where
  "sql_start = \<lparr> inSingleQuote = False, inDoubleQuote = False, inBacktickQuote = False,
     inBracketIdentifier = False, inLineComment = False, inBlockComment = False,
     currentParts = [], statements = [] \<rparr>"

definition append_part :: "string \<Rightarrow> sql_state \<Rightarrow> sql_state" where
  "append_part v st = st\<lparr> currentParts := currentParts st @ [v] \<rparr>"

definition flushCurrentStatement :: "sql_state \<Rightarrow> sql_state" where
  "flushCurrentStatement st =
     (let trimmed = js_trim (concat (currentParts st)) in
      st\<lparr> statements := (if trimmed \<noteq> [] then statements st @ [trimmed] else statements st),
          currentParts := [] \<rparr>)"

text \<open>
  The two regular expressions on the lower-cased text of the statement so far. \<open>prev\<close> is the
  character before the position, for the word boundary.
\<close>

definition word_char :: "char \<Rightarrow> bool" where
  "word_char c = (is_alpha c \<or> is_digit c \<or> c = CHR ''_'')"

fun boundary :: "char option \<Rightarrow> bool" where
  "boundary None = True"
| "boundary (Some c) = (\<not> word_char c)"

definition first_char :: "string \<Rightarrow> char option" where
  "first_char s = (case s of [] \<Rightarrow> None | c # _ \<Rightarrow> Some c)"

definition strip_prefix :: "string \<Rightarrow> string \<Rightarrow> string option" where
  "strip_prefix p s = (if starts_with p s then Some (drop (length p) s) else None)"

definition strip_ws1 :: "string \<Rightarrow> string option" where
  "strip_ws1 s = (case s of [] \<Rightarrow> None | c # cs \<Rightarrow> if js_ws c then Some (dropWhile js_ws cs) else None)"

definition trigger_here :: "string option \<Rightarrow> bool" where
  "trigger_here s =
     (case s of None \<Rightarrow> False
      | Some t \<Rightarrow> (case strip_prefix ''trigger'' t of None \<Rightarrow> False | Some r \<Rightarrow> boundary (first_char r)))"

definition create_trigger_here :: "char option \<Rightarrow> string \<Rightarrow> bool" where
  "create_trigger_here prev s =
     (boundary prev \<and>
      (case strip_prefix ''create'' s of
         None \<Rightarrow> False
       | Some r \<Rightarrow>
           (case strip_ws1 r of
              None \<Rightarrow> False
            | Some t \<Rightarrow>
                trigger_here (Some t) \<or>
                (case strip_prefix ''temp'' t of
                   None \<Rightarrow> False
                 | Some u \<Rightarrow>
                     trigger_here (strip_ws1 u) \<or>
                     (case strip_prefix ''orary'' u of
                        None \<Rightarrow> False
                      | Some v \<Rightarrow> trigger_here (strip_ws1 v))))))"

text \<open>\<open>/\bcreate\s+(?:temp(?:orary)?\s+)?trigger\b/\<close>, searched at every position.\<close>

fun has_create_trigger :: "char option \<Rightarrow> string \<Rightarrow> bool" where
  "has_create_trigger prev [] = create_trigger_here prev []"
| "has_create_trigger prev (c # cs) =
     (create_trigger_here prev (c # cs) \<or> has_create_trigger (Some c) cs)"

text \<open>\<open>/\bend\s*$/\<close>.\<close>

definition ends_with_end :: "string \<Rightarrow> bool" where
  "ends_with_end s =
     (let r = dropWhile js_ws (rev s) in
      starts_with ''dne'' r \<and> boundary (first_char (drop 3 r)))"

definition sql_char :: "char \<Rightarrow> char option \<Rightarrow> sql_state \<Rightarrow> sql_state \<times> bool" where
  "sql_char c next st =
     (let st1 = append_part [c] st;
          both = (\<lambda>n. append_part [n] st1) in
      if inLineComment st
      then (if c = CHR 0x0A then st1\<lparr> inLineComment := False \<rparr> else st1, False)
      else if inBlockComment st
      then (if c = CHR ''*'' \<and> next = Some CHR ''/''
            then ((both CHR ''/'')\<lparr> inBlockComment := False \<rparr>, True) else (st1, False))
      else if inSingleQuote st
      then (if c = CHR 0x27 \<and> next = Some CHR 0x27 then (both CHR 0x27, True)
            else (if c = CHR 0x27 then st1\<lparr> inSingleQuote := False \<rparr> else st1, False))
      else if inDoubleQuote st
      then (if c = CHR 0x22 \<and> next = Some CHR 0x22 then (both CHR 0x22, True)
            else (if c = CHR 0x22 then st1\<lparr> inDoubleQuote := False \<rparr> else st1, False))
      else if inBacktickQuote st
      then (if c = CHR 0x60 then st1\<lparr> inBacktickQuote := False \<rparr> else st1, False)
      else if inBracketIdentifier st
      then (if c = CHR '']'' then st1\<lparr> inBracketIdentifier := False \<rparr> else st1, False)
      else if c = CHR ''-'' \<and> next = Some CHR ''-'' then ((both CHR ''-'')\<lparr> inLineComment := True \<rparr>, True)
      else if c = CHR ''/'' \<and> next = Some CHR ''*'' then ((both CHR ''*'')\<lparr> inBlockComment := True \<rparr>, True)
      else if c = CHR 0x27 then (st1\<lparr> inSingleQuote := True \<rparr>, False)
      else if c = CHR 0x22 then (st1\<lparr> inDoubleQuote := True \<rparr>, False)
      else if c = CHR 0x60 then (st1\<lparr> inBacktickQuote := True \<rparr>, False)
      else if c = CHR ''['' then (st1\<lparr> inBracketIdentifier := True \<rparr>, False)
      else if c = CHR '';''
      then (let lower = js_lower (concat (currentParts st)) in
        if has_create_trigger None lower \<and> \<not> ends_with_end lower then (st1, False)
        else (flushCurrentStatement st, False))
      else (st1, False))"

function sql_loop :: "string \<Rightarrow> sql_state \<Rightarrow> sql_state" where
  "sql_loop [] st = st"
| "sql_loop (c # rest) st =
     (case sql_char c (first_char rest) st of
        (st', skip) \<Rightarrow> sql_loop (if skip then tl rest else rest) st')"
  by pat_completeness auto
termination by (relation "measure (\<lambda>(s, st). length s)") auto

definition splitTopLevelSqlStatements :: "string \<Rightarrow> string list" where
  "splitTopLevelSqlStatements query = statements (flushCurrentStatement (sql_loop query sql_start))"

section \<open>Nothing is lost\<close>

text \<open>
  The invariant of the loop: the text read so far is the raw statements joined by the semicolons
  that were dropped, the current one last.
\<close>

definition raw_inv :: "string \<Rightarrow> string list \<Rightarrow> sql_state \<Rightarrow> bool" where
  "raw_inv done raw st =
     (js_join '';'' (raw @ [concat (currentParts st)]) = done \<and>
      statements st = filter (\<lambda>s. s \<noteq> []) (map js_trim raw))"

lemma js_join_snoc: "xs \<noteq> [] \<Longrightarrow> js_join sep (xs @ [x]) = js_join sep xs @ sep @ x"
proof (induction sep xs rule: js_join.induct)
  case (3 sep x y ys)
  then show ?case by simp
qed simp_all

lemma js_join_snoc2: "js_join sep (xs @ [x, y]) = js_join sep (xs @ [x]) @ sep @ y"
  using js_join_snoc [of "xs @ [x]" sep y] by simp

lemma js_join_last_append: "js_join sep (xs @ [x @ y]) = js_join sep (xs @ [x]) @ y"
  by (cases xs) (simp_all add: js_join_snoc del: append_Cons add: append_Cons [symmetric])

lemma raw_append: "raw_inv done raw st \<Longrightarrow> raw_inv (done @ v) raw (append_part v st)"
  by (simp add: raw_inv_def append_part_def js_join_last_append)

lemma raw_flags:
  "raw_inv done raw (st\<lparr> inSingleQuote := b \<rparr>) = raw_inv done raw st"
  "raw_inv done raw (st\<lparr> inDoubleQuote := b \<rparr>) = raw_inv done raw st"
  "raw_inv done raw (st\<lparr> inBacktickQuote := b \<rparr>) = raw_inv done raw st"
  "raw_inv done raw (st\<lparr> inBracketIdentifier := b \<rparr>) = raw_inv done raw st"
  "raw_inv done raw (st\<lparr> inLineComment := b \<rparr>) = raw_inv done raw st"
  "raw_inv done raw (st\<lparr> inBlockComment := b \<rparr>) = raw_inv done raw st"
  by (simp_all add: raw_inv_def)

lemma raw_flush:
  "raw_inv done raw st \<Longrightarrow> raw_inv (done @ '';'') (raw @ [concat (currentParts st)]) (flushCurrentStatement st)"
  by (auto simp: raw_inv_def flushCurrentStatement_def Let_def js_join_snoc2)

text \<open>One step: what was read is appended, or the current statement is closed at its semicolon.\<close>

lemma sql_char_raw:
  assumes "raw_inv done raw st" and "sql_char c next st = (st', skip)"
  shows "(skip \<longrightarrow> next \<noteq> None) \<and>
    (\<exists>raw'. raw_inv (done @ c # (if skip then [the next] else [])) raw' st')"
proof -
  have one: "raw_inv (done @ [c]) raw (append_part [c] st)" by (rule raw_append [OF assms(1)])
  have two: "raw_inv (done @ [c, n]) raw (append_part [n] (append_part [c] st))" for n
    using raw_append [OF one, of "[n]"] by simp
  have semi: "raw_inv (done @ '';'') (raw @ [concat (currentParts st)]) (flushCurrentStatement st)"
    by (rule raw_flush [OF assms(1)])
  show ?thesis
    using assms(2) one two [of "CHR ''/''"] two [of "CHR ''-''"] two [of "CHR ''*''"] two [of "CHR 0x27"]
      two [of "CHR 0x22"] semi
    unfolding sql_char_def Let_def
    by (auto simp: raw_flags split: if_split_asm)
qed

lemma sql_loop_raw: "raw_inv done raw st \<Longrightarrow> \<exists>raw'. raw_inv (done @ s) raw' (sql_loop s st)"
proof (induction s st arbitrary: "done" raw rule: sql_loop.induct)
  case (1 st)
  then show ?case by auto
next
  case (2 c rest st)
  obtain st' skip where s: "sql_char c (first_char rest) st = (st', skip)" by fastforce
  from sql_char_raw [OF "2.prems" s] obtain raw' where sk: "skip \<longrightarrow> first_char rest \<noteq> None"
    and r: "raw_inv (done @ c # (if skip then [the (first_char rest)] else [])) raw' st'" by blast
  have e: "(done @ c # (if skip then [the (first_char rest)] else [])) @ (if skip then tl rest else rest) =
      done @ c # rest"
    using sk by (cases rest) (auto simp: first_char_def)
  from "2.IH" [OF s [symmetric] r] show ?case using s unfolding e by simp
qed

section \<open>Statements made of regions\<close>

text \<open>
  A statement as SQL reads it: plain text and protected regions, in which semicolons mean
  nothing. Plain text neither opens a region nor ends a statement: a single minus sign or slash is plain, also
  at the end of the text if what follows does not make it a comment.
\<close>

definition plain_char :: "char \<Rightarrow> char option \<Rightarrow> bool" where
  "plain_char c next = (c \<notin> {CHR 0x27, CHR 0x22, CHR 0x60, CHR ''['', CHR '';''} \<and>
     \<not> (c = CHR ''-'' \<and> next = Some CHR ''-'') \<and> \<not> (c = CHR ''/'' \<and> next = Some CHR ''*''))"

fun plain_text :: "string \<Rightarrow> char option \<Rightarrow> bool" where
  "plain_text [] next = True"
| "plain_text (c # s) next = (plain_char c (if s = [] then next else first_char s) \<and> plain_text s next)"

text \<open>Inside quotes a quote is written twice.\<close>

fun doubled :: "char \<Rightarrow> string \<Rightarrow> string" where
  "doubled q [] = []"
| "doubled q (c # s) = (if c = q then q # q # doubled q s else c # doubled q s)"

datatype sql_region =
    Plain string | SingleQuoted string | DoubleQuoted string | Backticked string | Bracketed string
  | LineComment string | BlockComment string

fun region_text :: "sql_region \<Rightarrow> string" where
  "region_text (Plain s) = s"
| "region_text (SingleQuoted s) = CHR 0x27 # doubled CHR 0x27 s @ [CHR 0x27]"
| "region_text (DoubleQuoted s) = CHR 0x22 # doubled CHR 0x22 s @ [CHR 0x22]"
| "region_text (Backticked s) = CHR 0x60 # s @ [CHR 0x60]"
| "region_text (Bracketed s) = CHR ''['' # s @ [CHR '']'']"
| "region_text (LineComment s) = ''--'' @ s @ [CHR 0x0A]"
| "region_text (BlockComment s) = ''/*'' @ s @ ''*/''"

fun no_close :: "string \<Rightarrow> bool" where
  "no_close [] = True"
| "no_close (c # s) = (\<not> (c = CHR ''*'' \<and> first_char s = Some CHR ''/'') \<and> no_close s)"

text \<open>A region followed by \<open>next\<close>: a closing quote is not followed by another.\<close>

fun region_ok :: "sql_region \<Rightarrow> char option \<Rightarrow> bool" where
  "region_ok (Plain s) next = plain_text s next"
| "region_ok (SingleQuoted s) next = (next \<noteq> Some CHR 0x27)"
| "region_ok (DoubleQuoted s) next = (next \<noteq> Some CHR 0x22)"
| "region_ok (Backticked s) next = (CHR 0x60 \<notin> set s)"
| "region_ok (Bracketed s) next = (CHR '']'' \<notin> set s)"
| "region_ok (LineComment s) next = (CHR 0x0A \<notin> set s)"
| "region_ok (BlockComment s) next = no_close s"

definition statement_text :: "sql_region list \<Rightarrow> string" where
  "statement_text rs = concat (map region_text rs)"

fun regions_ok :: "sql_region list \<Rightarrow> bool" where
  "regions_ok [] = True"
| "regions_ok (r # rs) = (region_ok r (first_char (statement_text rs @ '';'')) \<and> regions_ok rs)"

text \<open>A statement that the trigger rule does not hold open.\<close>

definition closes :: "string \<Rightarrow> bool" where
  "closes s = (\<not> has_create_trigger None (js_lower s) \<or> ends_with_end (js_lower s))"

text \<open>The states between regions, and inside each kind of region.\<close>

definition flags :: "sql_state \<Rightarrow> bool list" where
  "flags st = [inSingleQuote st, inDoubleQuote st, inBacktickQuote st, inBracketIdentifier st,
     inLineComment st, inBlockComment st]"

definition no_mode :: "sql_state \<Rightarrow> bool" where
  "no_mode st = (flags st = [False, False, False, False, False, False])"

text \<open>From \<open>st\<close>, reading \<open>s\<close> before \<open>rest\<close> leads to a state with flags \<open>fl\<close> that holds \<open>s\<close> in addition.\<close>

definition reads :: "sql_state \<Rightarrow> string \<Rightarrow> string \<Rightarrow> bool list \<Rightarrow> bool" where
  "reads st s rest fl =
     (\<exists>st'. sql_loop (s @ rest) st = sql_loop rest st' \<and> flags st' = fl \<and>
        concat (currentParts st') = concat (currentParts st) @ s \<and> statements st' = statements st)"

lemma reads_Nil: "flags st = fl \<Longrightarrow> reads st [] rest fl"
  by (auto simp: reads_def)

lemma reads_one:
  assumes "sql_char c (first_char (s @ rest)) st = (st1, False)"
    and "concat (currentParts st1) = concat (currentParts st) @ [c]" and "statements st1 = statements st"
    and "reads st1 s rest fl"
  shows "reads st (c # s) rest fl"
  using assms by (auto simp: reads_def)

lemma reads_two:
  assumes "sql_char c (Some d) st = (st1, True)"
    and "concat (currentParts st1) = concat (currentParts st) @ [c, d]" and "statements st1 = statements st"
    and "reads st1 s rest fl"
  shows "reads st (c # d # s) rest fl"
  using assms by (auto simp: reads_def first_char_def)

lemma step_parts [simp]:
  "concat (currentParts (append_part v st)) = concat (currentParts st) @ v"
  "statements (append_part v st) = statements st"
  "flags (append_part v st) = flags st"
  by (simp_all add: append_part_def flags_def)

abbreviation plain_flags :: "bool list" where
  "plain_flags \<equiv> [False, False, False, False, False, False]"

lemma reads_plain:
  "flags st = plain_flags \<Longrightarrow> plain_text s (first_char rest) \<Longrightarrow> reads st s rest plain_flags"
proof (induction s arbitrary: st)
  case (Cons c s)
  have "first_char (s @ rest) = (if s = [] then first_char rest else first_char s)"
    by (cases s) (simp_all add: first_char_def)
  then have "sql_char c (first_char (s @ rest)) st = (append_part [c] st, False)"
    using Cons.prems by (auto simp: sql_char_def flags_def plain_char_def Let_def)
  then show ?case by (rule reads_one) (use Cons in simp_all)
qed (simp add: reads_Nil)

text \<open>A region that is closed by one character \<open>q\<close>, the same proof for five of them.\<close>

lemma reads_until:
  assumes close: "\<And>st. flags st = fl \<Longrightarrow> \<exists>st1. sql_char q (first_char rest) st = (st1, False) \<and>
      flags st1 = plain_flags \<and> concat (currentParts st1) = concat (currentParts st) @ [q] \<and>
      statements st1 = statements st"
    and keep: "\<And>st c nx. flags st = fl \<Longrightarrow> c \<noteq> q \<Longrightarrow> sql_char c nx st = (append_part [c] st, False)"
  shows "flags st = fl \<Longrightarrow> q \<notin> set s \<Longrightarrow> reads st (s @ [q]) rest plain_flags"
proof (induction s arbitrary: st)
  case Nil
  from close [OF Nil(1)] obtain st1 where st1: "sql_char q (first_char ([] @ rest)) st = (st1, False)"
    "concat (currentParts st1) = concat (currentParts st) @ [q]" "statements st1 = statements st"
    "flags st1 = plain_flags" by auto
  have "reads st [q] rest plain_flags" by (rule reads_one [OF st1(1-3)]) (rule reads_Nil [OF st1(4)])
  then show ?case by simp
next
  case (Cons c s)
  then have "sql_char c (first_char ((s @ [q]) @ rest)) st = (append_part [c] st, False)"
    by (intro keep) auto
  then have "reads st (c # (s @ [q])) rest plain_flags" by (rule reads_one) (use Cons in simp_all)
  then show ?case by simp
qed

text \<open>Between quotes, a doubled quote is read as one character of the text.\<close>

lemma reads_doubled:
  assumes twice: "\<And>st. flags st = fl \<Longrightarrow> sql_char q (Some q) st = (append_part [q] (append_part [q] st), True)"
    and close: "\<And>st. flags st = fl \<Longrightarrow> \<exists>st1. sql_char q (first_char rest) st = (st1, False) \<and>
      flags st1 = plain_flags \<and> concat (currentParts st1) = concat (currentParts st) @ [q] \<and>
      statements st1 = statements st"
    and keep: "\<And>st c nx. flags st = fl \<Longrightarrow> c \<noteq> q \<Longrightarrow> sql_char c nx st = (append_part [c] st, False)"
  shows "flags st = fl \<Longrightarrow> reads st (doubled q s @ [q]) rest plain_flags"
proof (induction s arbitrary: st)
  case Nil
  from reads_until [OF close keep Nil, of "[]"] show ?case by simp
next
  case (Cons c s)
  show ?case
  proof (cases "c = q")
    case True
    have "reads st (q # q # (doubled q s @ [q])) rest plain_flags"
      by (rule reads_two [OF twice [OF Cons.prems]]) (use Cons in simp_all)
    then show ?thesis using True by simp
  next
    case False
    then have "sql_char c (first_char ((doubled q s @ [q]) @ rest)) st = (append_part [c] st, False)"
      using keep Cons.prems by blast
    then have "reads st (c # (doubled q s @ [q])) rest plain_flags" by (rule reads_one) (use Cons in simp_all)
    then show ?thesis using False by simp
  qed
qed

lemma reads_single:
  "flags st = [True, False, False, False, False, False] \<Longrightarrow>
   first_char rest \<noteq> Some CHR 0x27 \<Longrightarrow> reads st (doubled CHR 0x27 s @ [CHR 0x27]) rest plain_flags"
  by (rule reads_doubled [where fl = "[True, False, False, False, False, False]"])
    (simp_all add: sql_char_def flags_def append_part_def Let_def)

lemma reads_double:
  "flags st = [False, True, False, False, False, False] \<Longrightarrow>
   first_char rest \<noteq> Some CHR 0x22 \<Longrightarrow> reads st (doubled CHR 0x22 s @ [CHR 0x22]) rest plain_flags"
  by (rule reads_doubled [where fl = "[False, True, False, False, False, False]"])
    (simp_all add: sql_char_def flags_def append_part_def Let_def)

lemma reads_backtick:
  "flags st = [False, False, True, False, False, False] \<Longrightarrow> CHR 0x60 \<notin> set s \<Longrightarrow>
   reads st (s @ [CHR 0x60]) rest plain_flags"
  by (rule reads_until [where fl = "[False, False, True, False, False, False]"])
    (simp_all add: sql_char_def flags_def append_part_def Let_def)

lemma reads_bracket:
  "flags st = [False, False, False, True, False, False] \<Longrightarrow> CHR '']'' \<notin> set s \<Longrightarrow>
   reads st (s @ [CHR '']'']) rest plain_flags"
  by (rule reads_until [where fl = "[False, False, False, True, False, False]"])
    (simp_all add: sql_char_def flags_def append_part_def Let_def)

lemma reads_line_comment:
  "flags st = [False, False, False, False, True, False] \<Longrightarrow> CHR 0x0A \<notin> set s \<Longrightarrow>
   reads st (s @ [CHR 0x0A]) rest plain_flags"
  by (rule reads_until [where fl = "[False, False, False, False, True, False]"])
    (simp_all add: sql_char_def flags_def append_part_def Let_def)

lemma reads_block_comment:
  "flags st = [False, False, False, False, False, True] \<Longrightarrow> no_close s \<Longrightarrow>
   reads st (s @ ''*/'') rest plain_flags"
proof (induction s arbitrary: st)
  case Nil
  then have "sql_char CHR ''*'' (Some CHR ''/'') st =
      ((append_part ''/'' (append_part ''*'' st))\<lparr> inBlockComment := False \<rparr>, True)"
    by (simp add: sql_char_def flags_def Let_def)
  then have "reads st ''*/'' rest plain_flags"
    by (rule reads_two) (use Nil in \<open>simp_all add: reads_Nil append_part_def flags_def\<close>)
  then show ?case by simp
next
  case (Cons c s)
  have "first_char ((s @ ''*/'') @ rest) = (if s = [] then Some CHR ''*'' else first_char s)"
    by (cases s) (simp_all add: first_char_def)
  then have "\<not> (c = CHR ''*'' \<and> first_char ((s @ ''*/'') @ rest) = Some CHR ''/'')"
    using Cons.prems(2) by auto
  then have "sql_char c (first_char ((s @ ''*/'') @ rest)) st = (append_part [c] st, False)"
    using Cons.prems(1) by (auto simp: sql_char_def flags_def Let_def)
  then have "reads st (c # (s @ ''*/'')) rest plain_flags" by (rule reads_one) (use Cons in simp_all)
  then show ?case by simp
qed

lemma reads_region:
  assumes "flags st = plain_flags" and "region_ok r (first_char rest)"
  shows "reads st (region_text r) rest plain_flags"
proof (cases r)
  case (Plain s)
  then show ?thesis using assms by (simp add: reads_plain)
next
  case (SingleQuoted s)
  have "sql_char CHR 0x27 (first_char ((doubled CHR 0x27 s @ [CHR 0x27]) @ rest)) st =
      ((append_part [CHR 0x27] st)\<lparr> inSingleQuote := True \<rparr>, False)"
    using assms(1) by (simp add: sql_char_def flags_def Let_def)
  then have "reads st (CHR 0x27 # (doubled CHR 0x27 s @ [CHR 0x27])) rest plain_flags"
    by (rule reads_one) (use assms SingleQuoted in
      \<open>simp, simp add: append_part_def, intro reads_single, simp_all add: flags_def append_part_def\<close>)
  then show ?thesis using SingleQuoted by simp
next
  case (DoubleQuoted s)
  have "sql_char CHR 0x22 (first_char ((doubled CHR 0x22 s @ [CHR 0x22]) @ rest)) st =
      ((append_part [CHR 0x22] st)\<lparr> inDoubleQuote := True \<rparr>, False)"
    using assms(1) by (simp add: sql_char_def flags_def Let_def)
  then have "reads st (CHR 0x22 # (doubled CHR 0x22 s @ [CHR 0x22])) rest plain_flags"
    by (rule reads_one) (use assms DoubleQuoted in
      \<open>simp, simp add: append_part_def, intro reads_double, simp_all add: flags_def append_part_def\<close>)
  then show ?thesis using DoubleQuoted by simp
next
  case (Backticked s)
  have "sql_char CHR 0x60 (first_char ((s @ [CHR 0x60]) @ rest)) st =
      ((append_part [CHR 0x60] st)\<lparr> inBacktickQuote := True \<rparr>, False)"
    using assms(1) by (simp add: sql_char_def flags_def Let_def)
  then have "reads st (CHR 0x60 # (s @ [CHR 0x60])) rest plain_flags"
    by (rule reads_one) (use assms Backticked in
      \<open>simp, simp add: append_part_def, intro reads_backtick, simp_all add: flags_def append_part_def\<close>)
  then show ?thesis using Backticked by simp
next
  case (Bracketed s)
  have "sql_char CHR ''['' (first_char ((s @ [CHR '']'']) @ rest)) st =
      ((append_part [CHR ''['']  st)\<lparr> inBracketIdentifier := True \<rparr>, False)"
    using assms(1) by (simp add: sql_char_def flags_def Let_def)
  then have "reads st (CHR ''['' # (s @ [CHR '']''])) rest plain_flags"
    by (rule reads_one) (use assms Bracketed in
      \<open>simp, simp add: append_part_def, intro reads_bracket, simp_all add: flags_def append_part_def\<close>)
  then show ?thesis using Bracketed by simp
next
  case (LineComment s)
  have "sql_char CHR ''-'' (Some CHR ''-'') st =
      ((append_part ''-'' (append_part ''-'' st))\<lparr> inLineComment := True \<rparr>, True)"
    using assms(1) by (simp add: sql_char_def flags_def Let_def)
  then have "reads st (CHR ''-'' # CHR ''-'' # (s @ [CHR 0x0A])) rest plain_flags"
    by (rule reads_two) (use assms LineComment in
      \<open>simp add: append_part_def, simp add: append_part_def, intro reads_line_comment,
       simp_all add: flags_def append_part_def\<close>)
  then show ?thesis using LineComment by simp
next
  case (BlockComment s)
  have "sql_char CHR ''/'' (Some CHR ''*'') st =
      ((append_part ''*'' (append_part ''/'' st))\<lparr> inBlockComment := True \<rparr>, True)"
    using assms(1) by (simp add: sql_char_def flags_def Let_def)
  then have "reads st (CHR ''/'' # CHR ''*'' # (s @ ''*/'')) rest plain_flags"
    by (rule reads_two) (use assms BlockComment in
      \<open>simp add: append_part_def, simp add: append_part_def, intro reads_block_comment,
       simp_all add: flags_def append_part_def\<close>)
  then show ?thesis using BlockComment by simp
qed

lemma plain_text_end: "plain_text s (Some CHR '';'') \<Longrightarrow> plain_text s None"
  by (induction s) (auto simp: plain_char_def split: if_splits)

lemma reads_statement:
  "flags st = plain_flags \<Longrightarrow> regions_ok rs \<Longrightarrow> first_char rest = None \<or> first_char rest = Some CHR '';'' \<Longrightarrow>
   reads st (statement_text rs) rest plain_flags"
proof (induction rs arbitrary: st)
  case Nil
  then show ?case by (simp add: statement_text_def reads_Nil)
next
  case (Cons r rs)
  have "region_ok r (first_char (statement_text rs @ rest))"
  proof (cases "statement_text rs")
    case Nil
    then show ?thesis using Cons.prems by (cases r) (auto simp: first_char_def plain_text_end)
  qed (use Cons.prems in \<open>simp add: first_char_def\<close>)
  from reads_region [OF Cons.prems(1) this] obtain st1 where
    s1: "sql_loop (region_text r @ statement_text rs @ rest) st = sql_loop (statement_text rs @ rest) st1"
      "flags st1 = plain_flags" "concat (currentParts st1) = concat (currentParts st) @ region_text r"
      "statements st1 = statements st"
    by (auto simp: reads_def)
  have "reads st1 (statement_text rs) rest plain_flags" using Cons s1(2) by simp
  then show ?case using s1 by (auto simp: reads_def statement_text_def)
qed

lemma flush_facts:
  "statements (flushCurrentStatement st) = statements st @ filter (\<lambda>s. s \<noteq> []) [js_trim (concat (currentParts st))]"
  "currentParts (flushCurrentStatement st) = []"
  "flags (flushCurrentStatement st) = flags st"
  by (simp_all add: flushCurrentStatement_def Let_def flags_def)

lemma sql_char_semi:
  "flags st = plain_flags \<Longrightarrow> closes (concat (currentParts st)) \<Longrightarrow>
   sql_char CHR '';'' next st = (flushCurrentStatement st, False)"
  by (auto simp: sql_char_def flags_def closes_def Let_def)

lemma split_statements:
  assumes "xs \<noteq> []" and "\<forall>rs \<in> set xs. regions_ok rs \<and> closes (statement_text rs)"
    and "flags st = plain_flags" and "concat (currentParts st) = []"
  shows "statements (flushCurrentStatement (sql_loop (js_join '';'' (map statement_text xs)) st)) =
    statements st @ filter (\<lambda>s. s \<noteq> []) (map (\<lambda>rs. js_trim (statement_text rs)) xs)"
  using assms
proof (induction xs arbitrary: st)
  case (Cons rs xs)
  show ?case
  proof (cases xs)
    case Nil
    have "reads st (statement_text rs) [] plain_flags"
      using Cons.prems by (intro reads_statement) (simp_all add: first_char_def)
    then show ?thesis using Nil Cons.prems(4)
      by (auto simp: reads_def flush_facts simp del: concat_eq_Nil_conv)
  next
    case c: (Cons ys yss)
    let ?rest = "js_join '';'' (map statement_text xs)"
    have "reads st (statement_text rs) (CHR '';'' # ?rest) plain_flags"
      using Cons.prems by (intro reads_statement) (simp_all add: first_char_def)
    then obtain st1 where s1: "sql_loop (statement_text rs @ CHR '';'' # ?rest) st = sql_loop (CHR '';'' # ?rest) st1"
      "flags st1 = plain_flags" "concat (currentParts st1) = statement_text rs" "statements st1 = statements st"
      using Cons.prems(4) by (auto simp: reads_def simp del: concat_eq_Nil_conv)
    have semi: "sql_loop (CHR '';'' # ?rest) st1 = sql_loop ?rest (flushCurrentStatement st1)"
      using sql_char_semi [of st1] s1 Cons.prems(2) by simp
    have "statements (flushCurrentStatement (sql_loop ?rest (flushCurrentStatement st1))) =
        statements (flushCurrentStatement st1) @ filter (\<lambda>s. s \<noteq> []) (map (\<lambda>rs. js_trim (statement_text rs)) xs)"
      using Cons.prems c s1(2) by (intro Cons.IH) (simp_all add: flush_facts)
    moreover have "js_join '';'' (map statement_text (rs # xs)) = statement_text rs @ CHR '';'' # ?rest"
      using c by simp
    ultimately show ?thesis using s1 semi by (simp add: flush_facts)
  qed
qed simp

section \<open>Properties\<close>

text \<open>
  The splitter loses and invents nothing: the query is some raw statements joined by
  semicolons, and the result is those statements, trimmed, without the blank ones, in order.
\<close>

theorem sql_split_lossless:
  "\<exists>raw. js_join '';'' raw = query \<and>
     splitTopLevelSqlStatements query = filter (\<lambda>s. s \<noteq> []) (map js_trim raw)"
proof -
  have "raw_inv [] [] sql_start" by (simp add: raw_inv_def sql_start_def)
  from sql_loop_raw [OF this, of query] obtain raw where r: "raw_inv query raw (sql_loop query sql_start)"
    by auto
  let ?st = "sql_loop query sql_start"
  have "splitTopLevelSqlStatements query = filter (\<lambda>s. s \<noteq> []) (map js_trim (raw @ [concat (currentParts ?st)]))"
    using r by (simp add: splitTopLevelSqlStatements_def flush_facts raw_inv_def)
  moreover have "js_join '';'' (raw @ [concat (currentParts ?st)]) = query" using r by (simp add: raw_inv_def)
  ultimately show ?thesis by blast
qed

text \<open>
  C31. The splitter finds exactly the statements: for a query made of statements whose semicolons
  all lie inside closed string literals, quoted or bracketed identifiers or comments, the result is
  those statements, as long as none of them leaves the trigger rule open, by containing
  \<open>create trigger\<close> anywhere in its text without ending in \<open>end\<close>. Minus signs, slashes and doubled quotes
  may occur anywhere.
\<close>

theorem sql_split_statements:
  assumes "xs \<noteq> []" and "\<forall>rs \<in> set xs. regions_ok rs \<and> closes (statement_text rs)"
  shows "splitTopLevelSqlStatements (js_join '';'' (map statement_text xs)) =
    filter (\<lambda>s. s \<noteq> []) (map (\<lambda>rs. js_trim (statement_text rs)) xs)"
  using split_statements [OF assms, of sql_start]
  by (simp add: splitTopLevelSqlStatements_def sql_start_def flags_def)

text \<open>
  The trigger rule reads the raw text, not the statement: a string literal that mentions a
  trigger switches the splitter off, and a second statement hides behind the first.
\<close>

theorem sql_split_trigger_in_literal:
  "splitTopLevelSqlStatements (''select '' @ CHR 0x27 # ''create trigger '' @ CHR 0x27 # ''; drop table x'') =
     [''select '' @ CHR 0x27 # ''create trigger '' @ CHR 0x27 # ''; drop table x'']"
  by code_simp

text \<open>\<^verbatim>\<open>select 4-2/1, 'a;''b'; commit\<close>\<close>

theorem sql_split_statements_witness:
  "splitTopLevelSqlStatements (js_join '';'' (map statement_text [[Plain ''select 4-2/1, '', SingleQuoted (''a;'' @ CHR 0x27 # ''b'')], [Plain '' commit '']])) =
     filter (\<lambda>s. s \<noteq> []) (map (\<lambda>rs. js_trim (statement_text rs)) [[Plain ''select 4-2/1, '', SingleQuoted (''a;'' @ CHR 0x27 # ''b'')], [Plain '' commit '']])"
  by (rule sql_split_statements)
    (simp_all add: statement_text_def plain_char_def first_char_def closes_def js_lower_def js_lower_char_def
      create_trigger_here_def strip_prefix_def starts_with_def)

end
