(* ===== verification/Sql_Ident.thy ===== *)
theory Sql_Ident
  imports Js_Base
begin

text \<open>
  \<^verbatim>\<open>src/bun/sql-first-identifier.ts\<close>: the comment-aware token helpers of the SQLite guards, on
  indices into the query as in the source. The reference is the list of the query's tokens.
\<close>

definition sql_at :: "string \<Rightarrow> nat \<Rightarrow> char option" where
  "sql_at s i = (if i < length s then Some (s ! i) else None)"

definition isSqlIdentifierStart :: "char option \<Rightarrow> bool" where
  "isSqlIdentifierStart c = (case c of None \<Rightarrow> False | Some d \<Rightarrow> is_alpha d \<or> d = CHR ''_'')"

definition isSqlIdentifierPart :: "char option \<Rightarrow> bool" where
  "isSqlIdentifierPart c =
     (case c of None \<Rightarrow> False
      | Some d \<Rightarrow> is_digit d \<or> is_alpha d \<or> d = CHR ''_'' \<or> d = CHR ''$'')"

text \<open>\<open>s.indexOf(sub, from)\<close>.\<close>

definition index_of :: "string \<Rightarrow> string \<Rightarrow> nat \<Rightarrow> nat option" where
  "index_of sub s from = find (\<lambda>i. starts_with sub (drop i s)) [from..<Suc (length s)]"

lemma index_of_bounds: "index_of sub s from = Some i \<Longrightarrow> from \<le> i \<and> i + length sub \<le> length s"
proof -
  assume "index_of sub s from = Some i"
  then have "from \<le> i" "i \<le> length s" "starts_with sub (drop i s)"
    by (auto simp: index_of_def find_Some_iff simp del: upt_Suc)
  moreover have "length sub \<le> length (drop i s)"
    using calculation(3) unfolding starts_with_def by (metis length_take min.cobounded1)
  ultimately show ?thesis by auto
qed

text \<open>One round of the loop over white space and comments: where it goes on, or \<^const>\<open>None\<close> to stop.\<close>

definition skip_once :: "string \<Rightarrow> nat \<Rightarrow> nat option" where
  "skip_once sql index =
     (case sql_at sql index of
        None \<Rightarrow> None
      | Some c \<Rightarrow>
          (if js_ws c then Some (index + 1)
           else if c = CHR ''-'' \<and> sql_at sql (index + 1) = Some CHR ''-''
           then (case index_of [CHR 0x0A] sql (index + 2) of
                   None \<Rightarrow> Some (length sql) | Some newline \<Rightarrow> Some (newline + 1))
           else if c = CHR ''/'' \<and> sql_at sql (index + 1) = Some CHR ''*''
           then (case index_of ''*/'' sql (index + 2) of
                   None \<Rightarrow> Some (length sql) | Some e \<Rightarrow> Some (e + 2))
           else None))"

lemma sql_at_Some [simp]: "sql_at s i = Some c \<longleftrightarrow> i < length s \<and> s ! i = c"
  by (simp add: sql_at_def)

lemma skip_once_bounds: "skip_once sql i = Some j \<Longrightarrow> i < j \<and> j \<le> length sql"
  by (auto simp: skip_once_def dest: index_of_bounds split: option.splits if_splits)

function skipSqlWhitespaceAndComments :: "string \<Rightarrow> nat \<Rightarrow> nat" where
  "skipSqlWhitespaceAndComments sql index =
     (case skip_once sql index of
        None \<Rightarrow> index
      | Some index' \<Rightarrow> skipSqlWhitespaceAndComments sql index')"
  by pat_completeness auto
termination
  by (relation "measure (\<lambda>(sql, index). length sql - index)") (auto dest: skip_once_bounds)

declare skipSqlWhitespaceAndComments.simps [simp del]

function identifier_end :: "string \<Rightarrow> nat \<Rightarrow> nat" where
  "identifier_end sql index =
     (if index < length sql \<and> isSqlIdentifierPart (sql_at sql index) then identifier_end sql (index + 1) else index)"
  by pat_completeness auto
termination by (relation "measure (\<lambda>(sql, index). length sql - index)") auto

declare identifier_end.simps [simp del]

definition readSqlIdentifier :: "string \<Rightarrow> nat \<Rightarrow> (nat \<times> string) option" where
  "readSqlIdentifier sql startIndex =
     (if \<not> isSqlIdentifierStart (sql_at sql startIndex) then None
      else (let index = identifier_end sql (startIndex + 1) in
        Some (index, take (index - startIndex) (drop startIndex sql))))"

definition getSqlIdentifierAt :: "string \<Rightarrow> nat \<Rightarrow> (nat \<times> string) option" where
  "getSqlIdentifierAt sql startIndex =
     readSqlIdentifier sql (skipSqlWhitespaceAndComments sql startIndex)"

definition getFirstSqlIdentifier :: "string \<Rightarrow> (nat \<times> string) option" where
  "getFirstSqlIdentifier sql = getSqlIdentifierAt sql 0"

text \<open>The body of the quoted token: \<open>closing\<close> is the closing character.\<close>

function quoted_end :: "string \<Rightarrow> char \<Rightarrow> nat \<Rightarrow> nat" where
  "quoted_end sql closing index =
     (if index < length sql
      then (if sql ! index = closing
            then (if closing \<noteq> CHR '']'' \<and> closing \<noteq> CHR 0x60 \<and> sql_at sql (index + 1) = Some closing
                  then quoted_end sql closing (index + 2)
                  else index + 1)
            else quoted_end sql closing (index + 1))
      else index)"
  by pat_completeness auto
termination by (relation "measure (\<lambda>(sql, closing, index). length sql - index)") auto

declare quoted_end.simps [simp del]

definition skipSqlQuotedToken :: "string \<Rightarrow> nat \<Rightarrow> nat" where
  "skipSqlQuotedToken sql startIndex =
     (let quote = sql ! startIndex in
      quoted_end sql (if quote = CHR ''['' then CHR '']'' else quote) (startIndex + 1))"

definition is_quote :: "char option \<Rightarrow> bool" where
  "is_quote c = (c = Some CHR 0x27 \<or> c = Some CHR 0x22 \<or> c = Some CHR 0x60 \<or> c = Some CHR ''['')"

section \<open>Progress\<close>

lemma skip_bounds:
  "i \<le> skipSqlWhitespaceAndComments sql i \<and>
   (i \<le> length sql \<longrightarrow> skipSqlWhitespaceAndComments sql i \<le> length sql)"
proof (induction sql i rule: skipSqlWhitespaceAndComments.induct)
  case (1 sql i)
  show ?case
  proof (cases "skip_once sql i")
    case None
    then show ?thesis by (simp add: skipSqlWhitespaceAndComments.simps)
  next
    case (Some j)
    with 1 [OF Some] skip_once_bounds [OF Some] show ?thesis
      by (subst (1 2) skipSqlWhitespaceAndComments.simps) simp
  qed
qed

lemma skip_idem: "skip_once sql (skipSqlWhitespaceAndComments sql i) = None"
proof (induction sql i rule: skipSqlWhitespaceAndComments.induct)
  case (1 sql i)
  then show ?case
    by (subst skipSqlWhitespaceAndComments.simps) (simp split: option.splits)
qed

lemma skip_stable: "skip_once sql i = None \<Longrightarrow> skipSqlWhitespaceAndComments sql i = i"
  by (simp add: skipSqlWhitespaceAndComments.simps)

lemma identifier_end_bounds:
  "i \<le> identifier_end sql i \<and> (i \<le> length sql \<longrightarrow> identifier_end sql i \<le> length sql)"
proof (induction sql i rule: identifier_end.induct)
  case (1 sql i)
  then show ?case by (subst (1 2) identifier_end.simps) auto
qed

lemma quoted_end_bounds:
  "i \<le> quoted_end sql c i \<and> (i \<le> length sql \<longrightarrow> quoted_end sql c i \<le> length sql)"
proof (induction sql c i rule: quoted_end.induct)
  case (1 sql c i)
  then show ?case by (subst (1 2) quoted_end.simps) auto
qed

lemma readSqlIdentifier_bounds:
  "readSqlIdentifier sql i = Some (j, v) \<Longrightarrow> i < j \<and> j \<le> length sql"
  using identifier_end_bounds [of "i + 1" sql]
  by (auto simp: readSqlIdentifier_def isSqlIdentifierStart_def Let_def split: if_splits option.splits)

lemma skipSqlQuotedToken_bounds:
  "i < length sql \<Longrightarrow> i < skipSqlQuotedToken sql i \<and> skipSqlQuotedToken sql i \<le> length sql"
  using quoted_end_bounds [of "i + 1" sql] by (auto simp: skipSqlQuotedToken_def Let_def Suc_le_eq)

function findSqlIdentifier :: "string \<Rightarrow> nat \<Rightarrow> string \<Rightarrow> nat option" where
  "findSqlIdentifier sql index0 expected =
     (if index0 < length sql
      then (let index = skipSqlWhitespaceAndComments sql index0 in
        if is_quote (sql_at sql index)
        then findSqlIdentifier sql (skipSqlQuotedToken sql index) expected
        else (case readSqlIdentifier sql index of
                Some (nextIndex, v) \<Rightarrow>
                  (if js_lower v = expected then Some nextIndex
                   else findSqlIdentifier sql nextIndex expected)
              | None \<Rightarrow> findSqlIdentifier sql (index + 1) expected))
      else None)"
  by pat_completeness auto
termination
proof (relation "measure (\<lambda>(sql, index, e). length sql - index)", goal_cases)
  case (2 sql index0 expected index)
  then have "index < length sql" by (auto simp: is_quote_def)
  then show ?case using 2 skipSqlQuotedToken_bounds [of index sql] skip_bounds [of index0 sql] by auto
next
  case (3 sql index0 expected index)
  then show ?case using skip_bounds [of index0 sql] by auto
next
  case (4 sql index0 expected index p nextIndex v)
  then show ?case using readSqlIdentifier_bounds [of sql index nextIndex v] skip_bounds [of index0 sql] by auto
qed simp

declare findSqlIdentifier.simps [simp del]

lemma findSqlIdentifier_bounds:
  "findSqlIdentifier sql i e = Some j \<Longrightarrow> i < j \<and> j \<le> length sql"
proof (induction sql i e rule: findSqlIdentifier.induct)
  case (1 sql i e)
  let ?k = "skipSqlWhitespaceAndComments sql i"
  have i: "i < length sql" using "1.prems" by (subst (asm) findSqlIdentifier.simps) (simp split: if_splits)
  have k: "i \<le> ?k" "?k \<le> length sql" using skip_bounds [of i sql] i by auto
  show ?case
  proof (cases "is_quote (sql_at sql ?k)")
    case True
    then have "?k < length sql" by (auto simp: is_quote_def)
    then have "?k < skipSqlQuotedToken sql ?k" using skipSqlQuotedToken_bounds by blast
    moreover have "findSqlIdentifier sql (skipSqlQuotedToken sql ?k) e = Some j"
      using "1.prems" i True by (subst (asm) findSqlIdentifier.simps) simp
    ultimately show ?thesis using "1.IH"(1) [OF i refl True] k by auto
  next
    case False
    show ?thesis
    proof (cases "readSqlIdentifier sql ?k")
      case None
      have "findSqlIdentifier sql (?k + 1) e = Some j"
        using "1.prems" i False None by (subst (asm) findSqlIdentifier.simps) simp
      then show ?thesis using "1.IH"(2) [OF i refl False None] k by auto
    next
      case (Some p)
      obtain n v where p: "p = (n, v)" by (cases p)
      have n: "?k < n" "n \<le> length sql" using readSqlIdentifier_bounds Some p by auto
      show ?thesis
      proof (cases "js_lower v = e")
        case True
        then show ?thesis
          using "1.prems" i False Some p n k by (subst (asm) findSqlIdentifier.simps) simp
      next
        case ne: False
        have "findSqlIdentifier sql n e = Some j"
          using "1.prems" i False Some p ne by (subst (asm) findSqlIdentifier.simps) simp
        then show ?thesis using "1.IH"(3) [OF i refl False Some p [symmetric] ne] n k by auto
      qed
    qed
  qed
qed

text \<open>The search loop, which goes on from the last match.\<close>

function callSearch :: "string \<Rightarrow> string \<Rightarrow> nat \<Rightarrow> bool" where
  "callSearch sql functionName searchIndex =
     (case findSqlIdentifier sql searchIndex functionName of
        None \<Rightarrow> False
      | Some matchEnd \<Rightarrow>
          (if sql_at sql (skipSqlWhitespaceAndComments sql matchEnd) = Some CHR ''('' then True
           else callSearch sql functionName matchEnd))"
  by pat_completeness auto
termination
  by (relation "measure (\<lambda>(sql, f, i). length sql - i)") (auto dest: findSqlIdentifier_bounds)

declare callSearch.simps [simp del]

definition containsSqlFunctionCall :: "string \<Rightarrow> string \<Rightarrow> bool" where
  "containsSqlFunctionCall sql functionName = callSearch sql functionName 0"

section \<open>Searching a token stream\<close>

text \<open>
  What a search of SQL text rests on: a lexer that yields the token behind a position and the
  position behind that token. The searches of the code are given by their unfolding equations;
  the lemmas say what they mean on the token sequence.
\<close>

datatype sql_token = QuotedToken | IdentifierToken string | OtherToken char

fun matches :: "string \<Rightarrow> sql_token \<Rightarrow> bool" where
  "matches e (IdentifierToken v) = (js_lower v = e)"
| "matches e _ = False"

definition calls :: "string \<Rightarrow> sql_token list \<Rightarrow> bool" where
  "calls f ts = (\<exists>u t w. ts = u @ t # OtherToken CHR ''('' # w \<and> matches f t)"

lemma calls_iff:
  "calls f ts \<longleftrightarrow> (\<exists>u v w. ts = u @ IdentifierToken v # OtherToken CHR ''('' # w \<and> js_lower v = f)"
proof
  assume "calls f ts"
  then obtain u t w where ts: "ts = u @ t # OtherToken CHR ''('' # w" and t: "matches f t"
    by (auto simp: calls_def)
  obtain v where "t = IdentifierToken v" "js_lower v = f" using t by (cases t) auto
  then show "\<exists>u v w. ts = u @ IdentifierToken v # OtherToken CHR ''('' # w \<and> js_lower v = f"
    using ts by (intro exI [of _ u] exI [of _ v] exI [of _ w]) simp
next
  assume "\<exists>u v w. ts = u @ IdentifierToken v # OtherToken CHR ''('' # w \<and> js_lower v = f"
  then obtain u v w where ts: "ts = u @ IdentifierToken v # OtherToken CHR ''('' # w" and v: "js_lower v = f"
    by (elim exE conjE)
  have "matches f (IdentifierToken v)" using v by simp
  with ts show "calls f ts" unfolding calls_def by (intro exI conjI)
qed

lemma calls_Cons:
  "calls f (t # ts) \<longleftrightarrow> (matches f t \<and> (\<exists>w. ts = OtherToken CHR ''('' # w)) \<or> calls f ts"
proof
  assume "calls f (t # ts)"
  then obtain u x w where "t # ts = u @ x # OtherToken CHR ''('' # w" "matches f x"
    by (auto simp: calls_def)
  then show "(matches f t \<and> (\<exists>w. ts = OtherToken CHR ''('' # w)) \<or> calls f ts"
    by (cases u) (auto simp: calls_def)
next
  assume "(matches f t \<and> (\<exists>w. ts = OtherToken CHR ''('' # w)) \<or> calls f ts"
  then show "calls f (t # ts)"
  proof
    assume "matches f t \<and> (\<exists>w. ts = OtherToken CHR ''('' # w)"
    then show ?thesis unfolding calls_def by (metis append_Nil)
  next
    assume "calls f ts"
    then show ?thesis unfolding calls_def by (metis append_Cons)
  qed
qed

lemma calls_Nil [simp]: "\<not> calls f []"
  by (simp add: calls_def)

lemma calls_skip: "\<forall>t \<in> set pre. \<not> matches f t \<Longrightarrow> calls f (pre @ ts) = calls f ts"
  by (induction pre) (auto simp: calls_Cons)

locale token_search =
  fixes token :: "string \<Rightarrow> nat \<Rightarrow> (nat \<times> sql_token) option"
    and tokens :: "string \<Rightarrow> nat \<Rightarrow> sql_token list"
    and search :: "string \<Rightarrow> nat \<Rightarrow> string \<Rightarrow> nat option"
    and call_search :: "string \<Rightarrow> string \<Rightarrow> nat \<Rightarrow> bool"
  assumes token_progress: "token sql i = Some (n, t) \<Longrightarrow> i < n \<and> n \<le> length sql"
    and tokens_eq: "tokens sql i = (case token sql i of None \<Rightarrow> [] | Some (n, t) \<Rightarrow> t # tokens sql n)"
    and search_eq: "search sql i e =
      (case token sql i of None \<Rightarrow> None | Some (n, t) \<Rightarrow> if matches e t then Some n else search sql n e)"
    and call_eq: "call_search sql f i =
      (case search sql i f of None \<Rightarrow> False
       | Some j \<Rightarrow> (\<exists>n. token sql j = Some (n, OtherToken CHR ''('')) \<or> call_search sql f j)"
begin

lemma position_induct:
  assumes "\<And>i. (\<And>n t. token sql i = Some (n, t) \<Longrightarrow> P n) \<Longrightarrow> P i"
  shows "P i"
proof (induction "length sql - i" arbitrary: i rule: less_induct)
  case (less i)
  show ?case
  proof (rule assms)
    fix n t
    assume "token sql i = Some (n, t)"
    from token_progress [OF this] have "length sql - n < length sql - i" by linarith
    then show "P n" by (rule less)
  qed
qed

lemma search_tokens:
  "(case search sql i e of
      None \<Rightarrow> \<forall>t \<in> set (tokens sql i). \<not> matches e t
    | Some j \<Rightarrow> i < j \<and> (\<exists>pre t. tokens sql i = pre @ t # tokens sql j \<and> matches e t \<and>
        (\<forall>t \<in> set pre. \<not> matches e t)))"
proof (induction i rule: position_induct [where sql = sql])
  case (1 i)
  show ?case
  proof (cases "token sql i")
    case None
    then show ?thesis by (simp add: search_eq [of _ i] tokens_eq [of _ i])
  next
    case (Some p)
    obtain n t where p: "token sql i = Some (n, t)" using Some by (cases p) auto
    have n: "i < n" using token_progress [OF p] by simp
    show ?thesis
    proof (cases "matches e t")
      case True
      have "tokens sql i = [] @ t # tokens sql n" by (simp add: tokens_eq [of _ i] p)
      then show ?thesis using True n p unfolding search_eq [of _ i] by fastforce
    next
      case False
      note ts = tokens_eq [of sql i, unfolded p option.case prod.case]
      note se = search_eq [of sql i e, unfolded p option.case prod.case]
      show ?thesis
      proof (cases "search sql n e")
        case None
        then show ?thesis using 1 [OF p] False by (simp add: ts se)
      next
        case (Some j)
        then obtain pre u where "n < j" "tokens sql n = pre @ u # tokens sql j" "matches e u"
          "\<forall>t \<in> set pre. \<not> matches e t" using 1 [OF p] by auto
        then show ?thesis using n False Some unfolding ts se
          by (auto intro!: exI [of _ "t # pre"])
      qed
    qed
  qed
qed

lemma search_some_iff: "search sql i e \<noteq> None \<longleftrightarrow> (\<exists>t \<in> set (tokens sql i). matches e t)"
  using search_tokens [of sql i e] by (auto split: option.splits)

lemma opens_iff:
  "(\<exists>n. token sql j = Some (n, OtherToken CHR ''('')) \<longleftrightarrow> (\<exists>w. tokens sql j = OtherToken CHR ''('' # w)"
  by (subst tokens_eq) (auto split: option.splits)

lemma call_search_tokens: "call_search sql f i = calls f (tokens sql i)"
proof (induction "length (tokens sql i)" arbitrary: i rule: less_induct)
  case less
  show ?case
  proof (cases "search sql i f")
    case None
    then have "\<forall>t \<in> set (tokens sql i). \<not> matches f t" using search_tokens [of sql i f] by simp
    then have "\<not> calls f (tokens sql i)" by (auto simp: calls_def)
    then show ?thesis using None by (subst call_eq) simp
  next
    case (Some j)
    then obtain pre t where pre: "tokens sql i = pre @ t # tokens sql j" "matches f t"
      "\<forall>t \<in> set pre. \<not> matches f t" using search_tokens [of sql i f] by auto
    then have "call_search sql f j = calls f (tokens sql j)" by (intro less) simp
    then show ?thesis using Some pre
      by (subst call_eq) (simp add: calls_skip calls_Cons opens_iff)
  qed
qed

end

section \<open>Tokens\<close>

definition sql_token_at :: "string \<Rightarrow> nat \<Rightarrow> (nat \<times> sql_token) option" where
  "sql_token_at sql i =
     (let k = skipSqlWhitespaceAndComments sql i in
      if k < length sql
      then Some (if is_quote (Some (sql ! k)) then (skipSqlQuotedToken sql k, QuotedToken)
            else (case readSqlIdentifier sql k of
                    Some (n, v) \<Rightarrow> (n, IdentifierToken v)
                  | None \<Rightarrow> (k + 1, OtherToken (sql ! k))))
      else None)"

lemma sql_token_progress: "sql_token_at sql i = Some (n, t) \<Longrightarrow> i < n \<and> n \<le> length sql"
  using skip_bounds [of i sql] skipSqlQuotedToken_bounds [of "skipSqlWhitespaceAndComments sql i" sql]
  by (auto simp: sql_token_at_def Let_def dest: readSqlIdentifier_bounds split: if_splits option.splits)

function sql_tokens :: "string \<Rightarrow> nat \<Rightarrow> sql_token list" where
  "sql_tokens sql index =
     (case sql_token_at sql index of None \<Rightarrow> [] | Some (n, t) \<Rightarrow> t # sql_tokens sql n)"
  by pat_completeness auto
termination
  by (relation "measure (\<lambda>(sql, index). length sql - index)") (auto dest: sql_token_progress)

declare sql_tokens.simps [simp del]

lemma skip_past_end: "length sql \<le> i \<Longrightarrow> skipSqlWhitespaceAndComments sql i = i"
  by (rule skip_stable) (simp add: skip_once_def sql_at_def)

lemma read_past_end: "length sql \<le> i \<Longrightarrow> readSqlIdentifier sql i = None"
  by (simp add: readSqlIdentifier_def sql_at_def isSqlIdentifierStart_def)

lemma find_past_end: "length sql \<le> i \<Longrightarrow> findSqlIdentifier sql i e = None"
  by (subst findSqlIdentifier.simps) simp

lemma findSqlIdentifier_token:
  "findSqlIdentifier sql i e =
   (case sql_token_at sql i of None \<Rightarrow> None
    | Some (n, t) \<Rightarrow> if matches e t then Some n else findSqlIdentifier sql n e)"
proof (cases "skipSqlWhitespaceAndComments sql i < length sql")
  case True
  then have "i < length sql" using skip_bounds [of i sql] by linarith
  then show ?thesis using True
    by (subst findSqlIdentifier.simps)
       (simp add: sql_token_at_def Let_def sql_at_def split: option.splits)
next
  case False
  then have "sql_at sql (skipSqlWhitespaceAndComments sql i) = None" by (simp add: sql_at_def)
  then show ?thesis using False
    by (subst findSqlIdentifier.simps)
       (simp add: sql_token_at_def Let_def is_quote_def read_past_end find_past_end)
qed

lemma quote_not_start: "is_quote c \<Longrightarrow> \<not> isSqlIdentifierStart c"
  by (auto simp: is_quote_def isSqlIdentifierStart_def is_alpha_def is_lower_def is_upper_def)

lemma readSqlIdentifier_eq_None: "readSqlIdentifier sql i = None \<longleftrightarrow> \<not> isSqlIdentifierStart (sql_at sql i)"
  by (simp add: readSqlIdentifier_def Let_def)

lemma opening_token:
  "sql_at sql (skipSqlWhitespaceAndComments sql j) = Some CHR ''('' \<longleftrightarrow>
   (\<exists>n. sql_token_at sql j = Some (n, OtherToken CHR ''(''))"
proof (cases "skipSqlWhitespaceAndComments sql j < length sql")
  case True
  have "\<not> is_quote (Some CHR ''('')" "\<not> isSqlIdentifierStart (Some CHR ''('')"
    by (simp_all add: is_quote_def isSqlIdentifierStart_def is_alpha_def is_lower_def is_upper_def)
  then show ?thesis using True
    using readSqlIdentifier_eq_None [of sql "skipSqlWhitespaceAndComments sql j"]
    by (auto simp: sql_token_at_def Let_def sql_at_def split: option.splits)
qed (simp add: sql_token_at_def sql_at_def Let_def)

interpretation sql_search: token_search sql_token_at sql_tokens findSqlIdentifier callSearch
proof
  show "callSearch sql f i =
    (case findSqlIdentifier sql i f of None \<Rightarrow> False
     | Some j \<Rightarrow> (\<exists>n. sql_token_at sql j = Some (n, OtherToken CHR ''('')) \<or> callSearch sql f j)" for sql f i
    unfolding callSearch.simps [of sql f i] opening_token
    by (cases "findSqlIdentifier sql i f") (simp_all only: option.case if_bool_eq_disj simp_thms, blast)
qed (rule sql_token_progress sql_tokens.simps findSqlIdentifier_token; assumption?)+

text \<open>The first tokens are what the two readers of the statement's head return.\<close>

lemma first_identifier_token:
  "getSqlIdentifierAt sql i = Some (n, v) \<longleftrightarrow> sql_token_at sql i = Some (n, IdentifierToken v)"
proof (cases "skipSqlWhitespaceAndComments sql i < length sql")
  case True
  then show ?thesis using quote_not_start [of "Some (sql ! skipSqlWhitespaceAndComments sql i)"]
    by (auto simp: getSqlIdentifierAt_def sql_token_at_def Let_def sql_at_def
        readSqlIdentifier_eq_None [THEN iffD2] split: option.splits)
qed (simp add: getSqlIdentifierAt_def sql_token_at_def Let_def read_past_end)

text \<open>
  The function-call check is a search of the statement's token sequence: it answers yes exactly
  when, comments and white space dropped and quoted tokens taken whole, some identifier token whose
  lower-case text is the given name is followed by an opening parenthesis. The incremental search,
  which restarts behind each match, misses no such pair.
\<close>

theorem sql_function_call_is_token_pair:
  "containsSqlFunctionCall sql f \<longleftrightarrow>
   (\<exists>u v w. sql_tokens sql 0 = u @ IdentifierToken v # OtherToken CHR ''('' # w \<and> js_lower v = f)"
  by (simp add: containsSqlFunctionCall_def sql_search.call_search_tokens calls_iff)

end
