(* ===== verification/Sqlite_Guard.thy ===== *)
theory Sqlite_Guard
  imports Sql_Split Sql_Ident
begin

text \<open>
  The statement guards of the two SQLite front ends: the project tool
  (src/src/bun/pi/sqlite-tools.ts) and the plugin host (src/src/bun/plugin/sqlite.ts). Both split
  the text, insist on one statement and then look for what could leave the database. The plugin
  file repeats the lexer of sql-first-identifier.ts (its lines 488-573) and adds a reader of quoted
  identifiers. Thrown errors are left injections: the message, for a plugin with its code.
\<close>

section \<open>The project tool\<close>

definition requireSingleSqlStatement :: "string \<Rightarrow> string + string" where
  "requireSingleSqlStatement query =
     (let statements = splitTopLevelSqlStatements query in
      if length statements = 0 then Inl ''Query is required.''
      else if 1 < length statements then Inl ''Exactly one SQLite statement is required per tool call.''
      else Inr (hd statements))"

definition allowedReadOnlyPragmas :: "string list" where
  "allowedReadOnlyPragmas =
     [''database_list'', ''foreign_key_list'', ''index_info'', ''index_list'', ''index_xinfo'',
      ''table_info'', ''table_xinfo'']"

definition lower_value :: "(nat \<times> string) option \<Rightarrow> string" where
  "lower_value identifier = (case identifier of None \<Rightarrow> [] | Some (next, v) \<Rightarrow> js_lower v)"

definition assertSqlitePragmaAllowed :: "string \<Rightarrow> string + unit" where
  "assertSqlitePragmaAllowed statementText =
     (case getFirstSqlIdentifier statementText of
        None \<Rightarrow> Inr ()
      | Some (nextIndex, v) \<Rightarrow>
          (if js_lower v \<noteq> ''pragma'' then Inr ()
           else if sql_at statementText (skipSqlWhitespaceAndComments statementText nextIndex) = Some CHR ''=''
           then Inl ''Writable PRAGMA statements are not allowed by the sqlite tool.''
           else if containsSqlFunctionCall statementText ''journal_mode''
           then Inl ''Writable PRAGMA statements are not allowed by the sqlite tool.''
           else if lower_value (getSqlIdentifierAt statementText nextIndex) \<notin> set allowedReadOnlyPragmas
           then Inl ''Only read-only schema PRAGMA statements are allowed by the sqlite tool.''
           else Inr ()))"

definition assertSqliteStatementAllowed :: "string \<Rightarrow> string + unit" where
  "assertSqliteStatementAllowed statementText =
     (let firstIdentifier = getFirstSqlIdentifier statementText;
          firstKeyword = lower_value firstIdentifier in
      if firstKeyword = ''attach'' then Inl ''ATTACH is not allowed by the sqlite tool.''
      else if firstKeyword = ''detach'' then Inl ''DETACH is not allowed by the sqlite tool.''
      else if firstKeyword = ''vacuum'' \<and>
        (case firstIdentifier of None \<Rightarrow> False
         | Some (nextIndex, v) \<Rightarrow> findSqlIdentifier statementText nextIndex ''into'' \<noteq> None)
      then Inl ''VACUUM INTO is not allowed by the sqlite tool.''
      else if containsSqlFunctionCall statementText ''load_extension''
      then Inl ''load_extension() is not allowed by the sqlite tool.''
      else assertSqlitePragmaAllowed statementText)"

text \<open>The two checks of the tool's \<open>execute\<close>, before it opens the database.\<close>

definition sqlite_tool_statement :: "string \<Rightarrow> string + string" where
  "sqlite_tool_statement query =
     (case requireSingleSqlStatement query of
        Inl e \<Rightarrow> Inl e
      | Inr statementText \<Rightarrow>
          (case assertSqliteStatementAllowed statementText of
             Inl e \<Rightarrow> Inl e
           | Inr u \<Rightarrow> Inr statementText))"

section \<open>The plugin host\<close>

type_synonym sqlite_error = "string \<times> string"

text \<open>\<open>replaceAll\<close> of the doubled closing quote by the single one.\<close>

fun undouble :: "char \<Rightarrow> string \<Rightarrow> string" where
  "undouble q (a # b # s) = (if a = q \<and> b = q then q # undouble q s else a # undouble q (b # s))"
| "undouble q s = s"

definition readSqlQuotedIdentifier :: "string \<Rightarrow> nat \<Rightarrow> (nat \<times> string) option" where
  "readSqlQuotedIdentifier sql startIndex =
     (case sql_at sql startIndex of
        None \<Rightarrow> None
      | Some quote \<Rightarrow>
          (if quote \<noteq> CHR 0x22 \<and> quote \<noteq> CHR 0x60 \<and> quote \<noteq> CHR ''['' then None
           else (let closing = (if quote = CHR ''['' then CHR '']'' else quote);
                     nextIndex = skipSqlQuotedToken sql startIndex in
             if length sql < nextIndex \<or> sql_at sql (nextIndex - 1) \<noteq> Some closing then None
             else (let quotedValue = take (nextIndex - 1 - (startIndex + 1)) (drop (startIndex + 1) sql) in
               Some (nextIndex, if closing = CHR '']'' then quotedValue else undouble closing quotedValue)))))"

lemma readSqlQuotedIdentifier_bounds:
  "readSqlQuotedIdentifier sql i = Some (j, v) \<Longrightarrow> i < j \<and> j \<le> length sql"
  using skipSqlQuotedToken_bounds [of i sql]
  by (auto simp: readSqlQuotedIdentifier_def sql_at_def Let_def split: if_splits option.splits)

function plugin_findSqlIdentifier :: "string \<Rightarrow> nat \<Rightarrow> string \<Rightarrow> nat option" where
  "plugin_findSqlIdentifier sql index0 expected =
     (if index0 < length sql
      then (let index = skipSqlWhitespaceAndComments sql index0 in
        if sql_at sql index = Some CHR 0x27
        then plugin_findSqlIdentifier sql (skipSqlQuotedToken sql index) expected
        else (case readSqlQuotedIdentifier sql index of
                Some (nextIndex, v) \<Rightarrow>
                  (if js_lower v = expected then Some nextIndex
                   else plugin_findSqlIdentifier sql nextIndex expected)
              | None \<Rightarrow>
                 (case readSqlIdentifier sql index of
                    Some (nextIndex, v) \<Rightarrow>
                      (if js_lower v = expected then Some nextIndex
                       else plugin_findSqlIdentifier sql nextIndex expected)
                  | None \<Rightarrow> plugin_findSqlIdentifier sql (index + 1) expected)))
      else None)"
  by pat_completeness auto
termination
proof (relation "measure (\<lambda>(sql, index, e). length sql - index)", goal_cases)
  case (2 sql index0 expected index)
  then have "index < length sql" by (auto simp: sql_at_def split: if_splits)
  then show ?case using 2 skipSqlQuotedToken_bounds [of index sql] skip_bounds [of index0 sql] by auto
next
  case (3 sql index0 expected index)
  then show ?case using skip_bounds [of index0 sql] by auto
next
  case (4 sql index0 expected index)
  then show ?case using skip_bounds [of index0 sql] readSqlIdentifier_bounds [of sql index] by auto
next
  case (5 sql index0 expected index p nextIndex v)
  then show ?case using readSqlQuotedIdentifier_bounds [of sql index nextIndex v] skip_bounds [of index0 sql] by auto
qed simp

declare plugin_findSqlIdentifier.simps [simp del]

text \<open>The tokens of the plugin's lexer: an identifier token may have been written in quotes.\<close>

definition plugin_token_at :: "string \<Rightarrow> nat \<Rightarrow> (nat \<times> sql_token) option" where
  "plugin_token_at sql i =
     (let k = skipSqlWhitespaceAndComments sql i in
      if k < length sql
      then Some (if sql ! k = CHR 0x27 then (skipSqlQuotedToken sql k, QuotedToken)
            else (case readSqlQuotedIdentifier sql k of
                    Some (n, v) \<Rightarrow> (n, IdentifierToken v)
                  | None \<Rightarrow> (case readSqlIdentifier sql k of
                      Some (n, v) \<Rightarrow> (n, IdentifierToken v)
                    | None \<Rightarrow> (k + 1, OtherToken (sql ! k)))))
      else None)"

lemma plugin_token_progress: "plugin_token_at sql i = Some (n, t) \<Longrightarrow> i < n \<and> n \<le> length sql"
  using skip_bounds [of i sql] skipSqlQuotedToken_bounds [of "skipSqlWhitespaceAndComments sql i" sql]
  by (auto simp: plugin_token_at_def Let_def dest: readSqlIdentifier_bounds readSqlQuotedIdentifier_bounds
      split: if_splits option.splits)

function plugin_tokens :: "string \<Rightarrow> nat \<Rightarrow> sql_token list" where
  "plugin_tokens sql index =
     (case plugin_token_at sql index of None \<Rightarrow> [] | Some (n, t) \<Rightarrow> t # plugin_tokens sql n)"
  by pat_completeness auto
termination
  by (relation "measure (\<lambda>(sql, index). length sql - index)") (auto dest: plugin_token_progress)

declare plugin_tokens.simps [simp del]

lemma quoted_past_end: "length sql \<le> i \<Longrightarrow> readSqlQuotedIdentifier sql i = None"
  by (simp add: readSqlQuotedIdentifier_def sql_at_def)

lemma plugin_find_past_end: "length sql \<le> i \<Longrightarrow> plugin_findSqlIdentifier sql i e = None"
  by (subst plugin_findSqlIdentifier.simps) simp

lemma plugin_find_token:
  "plugin_findSqlIdentifier sql i e =
   (case plugin_token_at sql i of None \<Rightarrow> None
    | Some (n, t) \<Rightarrow> if matches e t then Some n else plugin_findSqlIdentifier sql n e)"
proof (cases "skipSqlWhitespaceAndComments sql i < length sql")
  case True
  then have "i < length sql" using skip_bounds [of i sql] by linarith
  then show ?thesis using True
    by (subst plugin_findSqlIdentifier.simps)
       (simp add: plugin_token_at_def Let_def sql_at_def split: option.splits)
next
  case False
  then have "sql_at sql (skipSqlWhitespaceAndComments sql i) = None" by (simp add: sql_at_def)
  then show ?thesis using False
    by (subst plugin_findSqlIdentifier.simps)
       (simp add: plugin_token_at_def Let_def read_past_end quoted_past_end plugin_find_past_end)
qed

lemma plugin_find_bounds: "plugin_findSqlIdentifier sql i e = Some j \<Longrightarrow> i < j \<and> j \<le> length sql"
proof (induction "length sql - i" arbitrary: i rule: less_induct)
  case (less i)
  note eq = less.prems [unfolded plugin_find_token [of sql i e]]
  then obtain n t where t: "plugin_token_at sql i = Some (n, t)"
    and m: "(if matches e t then Some n else plugin_findSqlIdentifier sql n e) = Some j"
    by (auto split: option.splits)
  have n: "i < n" "n \<le> length sql" using plugin_token_progress [OF t] by auto
  show ?case
  proof (cases "matches e t")
    case False
    then have "plugin_findSqlIdentifier sql n e = Some j" using m by simp
    moreover have "length sql - n < length sql - i" using n by linarith
    ultimately show ?thesis using less.hyps n by fastforce
  qed (use m n in simp)
qed

function plugin_callSearch :: "string \<Rightarrow> string \<Rightarrow> nat \<Rightarrow> bool" where
  "plugin_callSearch sql functionName searchIndex =
     (case plugin_findSqlIdentifier sql searchIndex functionName of
        None \<Rightarrow> False
      | Some matchEnd \<Rightarrow>
          (if sql_at sql (skipSqlWhitespaceAndComments sql matchEnd) = Some CHR ''('' then True
           else plugin_callSearch sql functionName matchEnd))"
  by pat_completeness auto
termination
  by (relation "measure (\<lambda>(sql, f, i). length sql - i)") (auto dest: plugin_find_bounds)

declare plugin_callSearch.simps [simp del]

definition plugin_containsSqlFunctionCall :: "string \<Rightarrow> string \<Rightarrow> bool" where
  "plugin_containsSqlFunctionCall sql functionName = plugin_callSearch sql functionName 0"

lemma plugin_opening_token:
  "sql_at sql (skipSqlWhitespaceAndComments sql j) = Some CHR ''('' \<longleftrightarrow>
   (\<exists>n. plugin_token_at sql j = Some (n, OtherToken CHR ''(''))"
proof (cases "skipSqlWhitespaceAndComments sql j < length sql")
  case True
  have "\<not> isSqlIdentifierStart (Some CHR ''('')"
    by (simp add: isSqlIdentifierStart_def is_alpha_def is_lower_def is_upper_def)
  moreover have "sql ! k = CHR ''('' \<Longrightarrow> readSqlQuotedIdentifier sql k = None" for k
    by (simp add: readSqlQuotedIdentifier_def sql_at_def)
  ultimately show ?thesis using True readSqlIdentifier_eq_None [of sql "skipSqlWhitespaceAndComments sql j"]
    by (auto simp: plugin_token_at_def Let_def sql_at_def split: option.splits)
qed (simp add: plugin_token_at_def sql_at_def Let_def)

interpretation plugin_search:
  token_search plugin_token_at plugin_tokens plugin_findSqlIdentifier plugin_callSearch
proof
  show "plugin_callSearch sql f i =
    (case plugin_findSqlIdentifier sql i f of None \<Rightarrow> False
     | Some j \<Rightarrow> (\<exists>n. plugin_token_at sql j = Some (n, OtherToken CHR ''('')) \<or> plugin_callSearch sql f j)"
    for sql f i
    unfolding plugin_callSearch.simps [of sql f i] plugin_opening_token
    by (cases "plugin_findSqlIdentifier sql i f") (simp_all only: option.case if_bool_eq_disj simp_thms, blast)
qed (rule plugin_token_progress plugin_tokens.simps plugin_find_token; assumption?)+

definition disallowed :: "string \<Rightarrow> sqlite_error + 'a" where
  "disallowed message = Inl (''disallowed_plugin_sqlite_statement'', message)"

definition requireSingleStatement :: "string \<Rightarrow> sqlite_error + string" where
  "requireSingleStatement statement =
     (let statements = splitTopLevelSqlStatements statement in
      if length statements = 0
      then Inl (''invalid_plugin_sqlite_statement'', ''Plugin SQLite statement is required.'')
      else if 1 < length statements
      then Inl (''invalid_plugin_sqlite_statement'', ''Plugin SQLite accepts exactly one statement per operation.'')
      else Inr (hd statements))"

definition plugin_assertSqliteStatementAllowed :: "string \<Rightarrow> sqlite_error + unit" where
  "plugin_assertSqliteStatementAllowed statementText =
     (let firstIdentifier = getFirstSqlIdentifier statementText;
          firstKeyword = lower_value firstIdentifier in
      if firstKeyword = ''attach'' then disallowed ''ATTACH is not allowed in plugin SQLite.''
      else if firstKeyword = ''detach'' then disallowed ''DETACH is not allowed in plugin SQLite.''
      else if firstKeyword = ''begin'' \<or> firstKeyword = ''commit'' \<or> firstKeyword = ''rollback'' \<or>
        firstKeyword = ''savepoint'' \<or> firstKeyword = ''release''
      then disallowed ''Transaction-control statements are not allowed in plugin SQLite.''
      else if firstKeyword = ''vacuum'' \<and>
        (case firstIdentifier of None \<Rightarrow> False
         | Some (nextIndex, v) \<Rightarrow> plugin_findSqlIdentifier statementText nextIndex ''into'' \<noteq> None)
      then disallowed ''VACUUM INTO is not allowed in plugin SQLite.''
      else if plugin_containsSqlFunctionCall statementText ''load_extension''
      then disallowed ''load_extension() is not allowed in plugin SQLite.''
      else if firstKeyword = ''pragma''
      then disallowed ''PRAGMA is not allowed in plugin SQLite run statements.''
      else Inr ())"

definition READ_QUERY_DISALLOWED_IDENTIFIERS :: "string list" where
  "READ_QUERY_DISALLOWED_IDENTIFIERS =
     [''alter'', ''attach'', ''begin'', ''commit'', ''create'', ''delete'', ''detach'', ''drop'',
      ''insert'', ''pragma'', ''reindex'', ''release'', ''replace'', ''rollback'', ''savepoint'',
      ''update'', ''vacuum'']"

function containsSqlIdentifierFromSet :: "string \<Rightarrow> nat \<Rightarrow> string list \<Rightarrow> bool" where
  "containsSqlIdentifierFromSet sql index0 identifiers =
     (if index0 < length sql
      then (let index = skipSqlWhitespaceAndComments sql index0 in
        if is_quote (sql_at sql index)
        then containsSqlIdentifierFromSet sql (skipSqlQuotedToken sql index) identifiers
        else (case readSqlIdentifier sql index of
                Some (nextIndex, v) \<Rightarrow>
                  (if js_lower v \<in> set identifiers then True
                   else containsSqlIdentifierFromSet sql nextIndex identifiers)
              | None \<Rightarrow> containsSqlIdentifierFromSet sql (index + 1) identifiers))
      else False)"
  by pat_completeness auto
termination
proof (relation "measure (\<lambda>(sql, index, ids). length sql - index)", goal_cases)
  case (2 sql index0 ids index)
  then have "index < length sql" by (auto simp: is_quote_def)
  then show ?case using 2 skipSqlQuotedToken_bounds [of index sql] skip_bounds [of index0 sql] by auto
next
  case (3 sql index0 ids index)
  then show ?case using skip_bounds [of index0 sql] by auto
next
  case (4 sql index0 ids index p nextIndex v)
  then show ?case using readSqlIdentifier_bounds [of sql index nextIndex v] skip_bounds [of index0 sql] by auto
qed simp

declare containsSqlIdentifierFromSet.simps [simp del]

datatype sqlite_operation = SqliteAll | SqliteGet | SqliteRun

definition operation_name :: "sqlite_operation \<Rightarrow> string" where
  "operation_name op =
     (case op of SqliteAll \<Rightarrow> ''sqlite.all'' | SqliteGet \<Rightarrow> ''sqlite.get'' | SqliteRun \<Rightarrow> ''sqlite.run'')"

definition assertReadStatement :: "string \<Rightarrow> sqlite_operation \<Rightarrow> sqlite_error + unit" where
  "assertReadStatement statementText op =
     (let firstKeyword = lower_value (getFirstSqlIdentifier statementText) in
      if firstKeyword \<noteq> ''select'' \<and> firstKeyword \<noteq> ''with''
      then disallowed (operation_name op @ '' only supports SELECT statements.'')
      else if containsSqlIdentifierFromSet statementText 0 READ_QUERY_DISALLOWED_IDENTIFIERS
      then disallowed (operation_name op @ '' only supports read-only SELECT statements.'')
      else Inr ())"

text \<open>
  The checks of \<open>executePluginSqliteOperation\<close> between the request and the statement's
  preparation; permissions, bindings, the path and the connection are outside.
\<close>

definition plugin_sqlite_statement :: "sqlite_operation \<Rightarrow> string \<Rightarrow> sqlite_error + string" where
  "plugin_sqlite_statement op statement =
     (case requireSingleStatement statement of
        Inl e \<Rightarrow> Inl e
      | Inr statementText \<Rightarrow>
          (case plugin_assertSqliteStatementAllowed statementText of
             Inl e \<Rightarrow> Inl e
           | Inr u \<Rightarrow>
               (if op = SqliteRun then Inr statementText
                else (case assertReadStatement statementText op of
                        Inl e \<Rightarrow> Inl e
                      | Inr u \<Rightarrow> Inr statementText))))"

section \<open>What the guards admit, on tokens\<close>

definition first_word :: "sql_token list \<Rightarrow> string" where
  "first_word ts = (case ts of IdentifierToken v # rest \<Rightarrow> js_lower v | _ \<Rightarrow> [])"

definition has_word :: "string \<Rightarrow> sql_token list \<Rightarrow> bool" where
  "has_word e ts = (\<exists>t \<in> set ts. matches e t)"

definition tool_admits :: "sql_token list \<Rightarrow> bool" where
  "tool_admits ts \<longleftrightarrow>
     first_word ts \<notin> {''attach'', ''detach''} \<and>
     \<not> (first_word ts = ''vacuum'' \<and> has_word ''into'' (tl ts)) \<and>
     \<not> calls ''load_extension'' ts \<and>
     (first_word ts = ''pragma'' \<longrightarrow>
        first_word (tl ts) \<in> set allowedReadOnlyPragmas \<and> \<not> calls ''journal_mode'' ts)"

definition plugin_admits :: "sqlite_operation \<Rightarrow> sql_token list \<Rightarrow> sql_token list \<Rightarrow> bool" where
  "plugin_admits op ts pts \<longleftrightarrow>
     first_word ts \<notin> {''attach'', ''detach'', ''begin'', ''commit'', ''rollback'', ''savepoint'', ''release'', ''pragma''} \<and>
     \<not> (first_word ts = ''vacuum'' \<and> has_word ''into'' (tl pts)) \<and>
     \<not> calls ''load_extension'' pts \<and>
     (op \<noteq> SqliteRun \<longrightarrow>
        first_word ts \<in> {''select'', ''with''} \<and>
        (\<forall>e \<in> set READ_QUERY_DISALLOWED_IDENTIFIERS. \<not> has_word e ts))"

lemma lower_value_token: "lower_value (getSqlIdentifierAt sql i) = first_word (sql_tokens sql i)"
proof (cases "getSqlIdentifierAt sql i")
  case None
  then have "\<nexists>n v. sql_token_at sql i = Some (n, IdentifierToken v)"
    using first_identifier_token [of sql i] by auto
  then show ?thesis using None
    by (subst sql_tokens.simps) (auto simp: lower_value_def first_word_def split: option.splits sql_token.splits)
next
  case (Some p)
  then obtain n v where "sql_token_at sql i = Some (n, IdentifierToken v)" "p = (n, v)"
    using first_identifier_token [of sql i] by (cases p) auto
  then show ?thesis using Some by (subst sql_tokens.simps) (simp add: lower_value_def first_word_def)
qed

lemma lower_value_first: "lower_value (getFirstSqlIdentifier sql) = first_word (sql_tokens sql 0)"
  by (simp add: getFirstSqlIdentifier_def lower_value_token)

lemma first_identifier_rest:
  "getFirstSqlIdentifier sql = Some (n, v) \<Longrightarrow> sql_tokens sql n = tl (sql_tokens sql 0)"
  unfolding getFirstSqlIdentifier_def first_identifier_token by (subst (2) sql_tokens.simps) simp

lemma find_has_word: "findSqlIdentifier sql i e \<noteq> None \<longleftrightarrow> has_word e (sql_tokens sql i)"
  unfolding has_word_def by (rule sql_search.search_some_iff)

lemma plugin_find_has_word: "plugin_findSqlIdentifier sql i e \<noteq> None \<longleftrightarrow> has_word e (plugin_tokens sql i)"
  unfolding has_word_def by (rule plugin_search.search_some_iff)

text \<open>An identifier at the head is the same token for both lexers.\<close>

lemma plugin_first_token:
  assumes "getFirstSqlIdentifier sql = Some (n, v)"
  shows "plugin_token_at sql 0 = Some (n, IdentifierToken v)"
proof -
  let ?k = "skipSqlWhitespaceAndComments sql 0"
  have read: "readSqlIdentifier sql ?k = Some (n, v)"
    using assms by (simp add: getFirstSqlIdentifier_def getSqlIdentifierAt_def)
  then have start: "isSqlIdentifierStart (sql_at sql ?k)" and k: "?k < length sql"
    using readSqlIdentifier_eq_None [of sql ?k] readSqlIdentifier_bounds [OF read] by auto
  have nq: "\<not> is_quote (sql_at sql ?k)" using quote_not_start start by blast
  then have "readSqlQuotedIdentifier sql ?k = None" "sql ! ?k \<noteq> CHR 0x27"
    using k by (auto simp: readSqlQuotedIdentifier_def is_quote_def sql_at_def)
  then show ?thesis using read k by (simp add: plugin_token_at_def Let_def)
qed

lemma plugin_first_rest:
  "getFirstSqlIdentifier sql = Some (n, v) \<Longrightarrow> plugin_tokens sql n = tl (plugin_tokens sql 0)"
  by (frule plugin_first_token) (subst (2) plugin_tokens.simps, simp)

lemma contains_set_token:
  "containsSqlIdentifierFromSet sql i ids =
   (case sql_token_at sql i of None \<Rightarrow> False
    | Some (n, t) \<Rightarrow> (\<exists>e \<in> set ids. matches e t) \<or> containsSqlIdentifierFromSet sql n ids)"
proof (cases "skipSqlWhitespaceAndComments sql i < length sql")
  case True
  then have "i < length sql" using skip_bounds [of i sql] by linarith
  then show ?thesis using True
    by (subst containsSqlIdentifierFromSet.simps)
       (auto simp: sql_token_at_def Let_def sql_at_def split: option.splits)
next
  case False
  then have "sql_at sql (skipSqlWhitespaceAndComments sql i) = None" by (simp add: sql_at_def)
  moreover have "\<not> containsSqlIdentifierFromSet sql j ids" if "length sql \<le> j" for j
    using that by (subst containsSqlIdentifierFromSet.simps) simp
  ultimately show ?thesis using False
    by (subst containsSqlIdentifierFromSet.simps)
       (simp add: sql_token_at_def Let_def is_quote_def read_past_end)
qed

lemma contains_set_tokens:
  "containsSqlIdentifierFromSet sql i ids \<longleftrightarrow> (\<exists>e \<in> set ids. has_word e (sql_tokens sql i))"
proof (induction i rule: sql_search.position_induct [where sql = sql])
  case (1 i)
  show ?case
  proof (cases "sql_token_at sql i")
    case None
    then show ?thesis
      unfolding contains_set_token [of sql i] sql_tokens.simps [of sql i] by (simp add: has_word_def)
  next
    case (Some p)
    then obtain n t where p: "sql_token_at sql i = Some (n, t)" by (cases p) auto
    from 1 [OF p] show ?thesis
      unfolding contains_set_token [of sql i] sql_tokens.simps [of sql i] p by (auto simp: has_word_def)
  qed
qed

section \<open>Properties\<close>

lemma head_of_one: "(let xs = ys in if length xs = 0 then Inl a else if 1 < length xs then Inl b else Inr (hd xs)) =
    Inr s \<longleftrightarrow> ys = [s]"
  by (cases ys rule: list.exhaust; cases "tl ys") auto

lemma first_word_of_first:
  "getFirstSqlIdentifier sql = None \<Longrightarrow> first_word (sql_tokens sql 0) = []"
  using lower_value_first [of sql] by (simp add: lower_value_def)

lemma vacuum_check:
  "first_word (sql_tokens sql 0) = ''vacuum'' \<and>
   (case getFirstSqlIdentifier sql of None \<Rightarrow> False | Some (n, v) \<Rightarrow> findSqlIdentifier sql n e \<noteq> None) \<longleftrightarrow>
   first_word (sql_tokens sql 0) = ''vacuum'' \<and> has_word e (tl (sql_tokens sql 0))"
  using find_has_word [of sql _ e] first_identifier_rest [of sql] first_word_of_first [of sql]
  by (cases "getFirstSqlIdentifier sql") (simp_all del: not_None_eq add: case_prod_beta, metis prod.collapse)

lemma plugin_vacuum_check:
  "first_word (sql_tokens sql 0) = ''vacuum'' \<and>
   (case getFirstSqlIdentifier sql of None \<Rightarrow> False | Some (n, v) \<Rightarrow> plugin_findSqlIdentifier sql n e \<noteq> None) \<longleftrightarrow>
   first_word (sql_tokens sql 0) = ''vacuum'' \<and> has_word e (tl (plugin_tokens sql 0))"
  using plugin_find_has_word [of sql _ e] plugin_first_rest [of sql] first_word_of_first [of sql]
  by (cases "getFirstSqlIdentifier sql") (simp_all del: not_None_eq add: case_prod_beta, metis prod.collapse)

lemma containsSqlFunctionCall_calls: "containsSqlFunctionCall sql f = calls f (sql_tokens sql 0)"
  by (simp add: containsSqlFunctionCall_def sql_search.call_search_tokens)

lemma plugin_contains_calls: "plugin_containsSqlFunctionCall sql f = calls f (plugin_tokens sql 0)"
  by (simp add: plugin_containsSqlFunctionCall_def plugin_search.call_search_tokens)

lemma assigned_not_word:
  assumes "sql_at sql (skipSqlWhitespaceAndComments sql n) = Some CHR ''=''"
  shows "first_word (sql_tokens sql n) = []"
proof -
  have "getSqlIdentifierAt sql n = None"
    unfolding getSqlIdentifierAt_def readSqlIdentifier_eq_None assms
    by (simp add: isSqlIdentifierStart_def is_alpha_def is_lower_def is_upper_def)
  then show ?thesis using lower_value_token [of sql n] by (simp add: lower_value_def)
qed

lemma no_empty_pragma [simp]: "[] \<notin> set allowedReadOnlyPragmas"
  by (simp add: allowedReadOnlyPragmas_def)

lemma assertSqlitePragmaAllowed_ok:
  "assertSqlitePragmaAllowed sql = Inr () \<longleftrightarrow>
   (first_word (sql_tokens sql 0) = ''pragma'' \<longrightarrow>
      first_word (tl (sql_tokens sql 0)) \<in> set allowedReadOnlyPragmas \<and>
      \<not> calls ''journal_mode'' (sql_tokens sql 0))"
proof (cases "getFirstSqlIdentifier sql")
  case None
  then show ?thesis by (simp add: assertSqlitePragmaAllowed_def first_word_of_first)
next
  case (Some p)
  obtain n v where p: "getFirstSqlIdentifier sql = Some (n, v)" using Some by (cases p) auto
  have w: "js_lower v = first_word (sql_tokens sql 0)"
    using lower_value_first [of sql] p by (simp add: lower_value_def)
  have rest: "lower_value (getSqlIdentifierAt sql n) = first_word (tl (sql_tokens sql 0))"
    by (simp add: lower_value_token first_identifier_rest [OF p])
  have eq: "sql_at sql (skipSqlWhitespaceAndComments sql n) = Some CHR ''='' \<Longrightarrow>
      first_word (tl (sql_tokens sql 0)) \<notin> set allowedReadOnlyPragmas"
    using assigned_not_word [of sql n] first_identifier_rest [OF p] by simp
  show ?thesis
    unfolding assertSqlitePragmaAllowed_def p option.case prod.case w rest containsSqlFunctionCall_calls
    using eq by auto
qed

lemma assertSqliteStatementAllowed_ok:
  "assertSqliteStatementAllowed sql = Inr () \<longleftrightarrow> tool_admits (sql_tokens sql 0)"
  unfolding assertSqliteStatementAllowed_def Let_def lower_value_first vacuum_check
    containsSqlFunctionCall_calls tool_admits_def
  using assertSqlitePragmaAllowed_ok [of sql] by (simp only: split: if_split) auto

lemma plugin_assert_ok:
  "plugin_assertSqliteStatementAllowed sql = Inr () \<and> (op \<noteq> SqliteRun \<longrightarrow> assertReadStatement sql op = Inr ()) \<longleftrightarrow>
   plugin_admits op (sql_tokens sql 0) (plugin_tokens sql 0)"
  unfolding plugin_assertSqliteStatementAllowed_def assertReadStatement_def Let_def lower_value_first
    plugin_vacuum_check plugin_contains_calls contains_set_tokens plugin_admits_def disallowed_def
  by (simp only: split: if_split) auto

text \<open>
  C37. The project tool runs exactly the single statements whose tokens are harmless: the query
  splits into one statement, which does not start with ATTACH or DETACH, is no VACUUM with an INTO
  behind it, calls no load_extension, and if it is a PRAGMA then its name is one of the seven
  read-only schema pragmas and journal_mode is not called; that statement is what is returned.
\<close>

theorem sqlite_tool_statement_exact:
  "sqlite_tool_statement q = Inr s \<longleftrightarrow>
   splitTopLevelSqlStatements q = [s] \<and> tool_admits (sql_tokens s 0)"
proof -
  have "sqlite_tool_statement q = Inr s \<longleftrightarrow>
      requireSingleSqlStatement q = Inr s \<and> assertSqliteStatementAllowed s = Inr ()"
    by (auto simp: sqlite_tool_statement_def split: sum.splits)
  then show ?thesis
    unfolding assertSqliteStatementAllowed_ok requireSingleSqlStatement_def head_of_one .
qed

text \<open>
  C38. A plugin's statement reaches the database exactly when it is the only one, starts with none
  of the transaction, ATTACH, DETACH and PRAGMA keywords, is no VACUUM INTO, calls no
  load_extension however the name is quoted, and, for the two reading operations, starts with
  SELECT or WITH and contains none of the seventeen writing keywords outside quotes.
\<close>

theorem plugin_statement_exact:
  "plugin_sqlite_statement op q = Inr s \<longleftrightarrow>
   splitTopLevelSqlStatements q = [s] \<and> plugin_admits op (sql_tokens s 0) (plugin_tokens s 0)"
proof -
  have "plugin_sqlite_statement op q = Inr s \<longleftrightarrow>
      requireSingleStatement q = Inr s \<and> plugin_assertSqliteStatementAllowed s = Inr () \<and>
      (op \<noteq> SqliteRun \<longrightarrow> assertReadStatement s op = Inr ())"
    by (auto simp: plugin_sqlite_statement_def split: sum.splits if_splits)
  then show ?thesis
    unfolding plugin_assert_ok requireSingleStatement_def head_of_one .
qed

text \<open>
  The project tool takes a quoted identifier for a literal: the call of load_extension whose
  name is in double quotes, which SQLite executes as the function, passes the tool's guard, while
  the plugin guard refuses the same text.
\<close>

theorem sqlite_tool_quoted_call_passes:
  "sqlite_tool_statement (''select '' @ CHR 0x22 # ''load_extension'' @ CHR 0x22 # ''(1)'') =
     Inr (''select '' @ CHR 0x22 # ''load_extension'' @ CHR 0x22 # ''(1)'') \<and>
   plugin_sqlite_statement SqliteRun (''select '' @ CHR 0x22 # ''load_extension'' @ CHR 0x22 # ''(1)'') =
     disallowed ''load_extension() is not allowed in plugin SQLite.''"
  by code_simp

text \<open>END, SQLite's other word for COMMIT, passes the plugin's transaction-control check.\<close>

theorem plugin_guard_passes_end:
  "plugin_sqlite_statement SqliteRun ''END'' = Inr ''END'' \<and>
   plugin_sqlite_statement SqliteRun ''COMMIT'' =
     disallowed ''Transaction-control statements are not allowed in plugin SQLite.''"
  by code_simp

end
