(* ===== verification/Cron_Parse.thy ===== *)
theory Cron_Parse
  imports Js_Map Js_Sort
begin

text \<open>
  Five-field cron expressions (src/src/shared/cron-utc.ts): the parser, the canonical formatter and
  their round trip. A thrown error is a left injection; the constructors carry what the message is
  built from. Field values are unbounded integers, as the code's integral numbers are in the
  ranges it uses; a numeral too large for a double is refused by the model as out of range, by the
  code as invalid.
\<close>

section \<open>Data\<close>

datatype cron_field_name = MinuteField | HourField | DayOfMonthField | MonthField | DayOfWeekField

record parsed_field =
  field_name :: cron_field_name
  field_raw :: string
  field_min :: int
  field_max :: int
  field_values :: "int list"
  field_wildcard :: bool

record parsed_cron =
  cron_raw :: string
  cron_minute :: parsed_field
  cron_hour :: parsed_field
  cron_dayOfMonth :: parsed_field
  cron_month :: parsed_field
  cron_dayOfWeek :: parsed_field

datatype cron_error =
    FieldCount nat string
  | EmptyField cron_field_name
  | EmptyListItem cron_field_name string
  | TooManySlashes cron_field_name string
  | InvalidRange cron_field_name string
  | RangeReversed cron_field_name string
  | InvalidStep cron_field_name string
  | StepNotPositive cron_field_name string
  | InvalidValue cron_field_name string
  | OutsideRange cron_field_name int int int
  | OffsetNotInteger
  | OffsetOutsideRange
  | DomAndDowRestricted
  | MonthRestrictedDow
  | LeapYearDependent int int
  | InvalidPair string

type_synonym 'a cron_result = "cron_error + 'a"

definition js_range :: "int \<Rightarrow> int \<Rightarrow> int list" where
  "js_range lo hi = [lo..hi]"

definition FULL_MINUTES :: "int list" where "FULL_MINUTES = js_range 0 59"
definition FULL_HOURS :: "int list" where "FULL_HOURS = js_range 0 23"
definition FULL_DOM :: "int list" where "FULL_DOM = js_range 1 31"
definition FULL_MONTHS :: "int list" where "FULL_MONTHS = js_range 1 12"
definition FULL_DOW :: "int list" where "FULL_DOW = js_range 0 6"

definition MONTH_ALIASES :: "(string \<times> int) list" where
  "MONTH_ALIASES = [(''JAN'', 1), (''FEB'', 2), (''MAR'', 3), (''APR'', 4), (''MAY'', 5), (''JUN'', 6),
     (''JUL'', 7), (''AUG'', 8), (''SEP'', 9), (''OCT'', 10), (''NOV'', 11), (''DEC'', 12)]"

definition DOW_ALIASES :: "(string \<times> int) list" where
  "DOW_ALIASES = [(''SUN'', 0), (''MON'', 1), (''TUE'', 2), (''WED'', 3), (''THU'', 4), (''FRI'', 5), (''SAT'', 6)]"

definition uniqueSorted :: "int list \<Rightarrow> int list" where
  "uniqueSorted xs = js_sort num_diff (js_set xs)"

definition normalizeDayOfWeek :: "int \<Rightarrow> int" where
  "normalizeDayOfWeek v = (if v = 7 then 0 else v)"

section \<open>Parsing\<close>

definition parseStep :: "cron_field_name \<Rightarrow> string \<Rightarrow> string \<Rightarrow> nat cron_result" where
  "parseStep name token stepRaw =
     (if \<not> all_digits stepRaw then Inl (InvalidStep name token)
      else if digits_val stepRaw = 0 then Inl (StepNotPositive name token)
      else Inr (digits_val stepRaw))"

definition parseRawValue ::
    "cron_field_name \<Rightarrow> string \<Rightarrow> int \<Rightarrow> int \<Rightarrow> (string \<times> int) list \<Rightarrow> int cron_result" where
  "parseRawValue name raw lo hi aliases =
     (case (case map_of aliases (js_upper raw) of
              Some v \<Rightarrow> Some v
            | None \<Rightarrow> if all_digits raw then Some (int (digits_val raw)) else None) of
        None \<Rightarrow> Inl (InvalidValue name raw)
      | Some v \<Rightarrow> if v < lo \<or> hi < v then Inl (OutsideRange name v lo hi) else Inr v)"

definition parseValue ::
    "cron_field_name \<Rightarrow> string \<Rightarrow> int \<Rightarrow> int \<Rightarrow> (string \<times> int) list \<Rightarrow> (int \<Rightarrow> int) \<Rightarrow> int cron_result" where
  "parseValue name raw lo hi aliases normal =
     (case parseRawValue name raw lo hi aliases of Inl e \<Rightarrow> Inl e | Inr v \<Rightarrow> Inr (normal v))"

definition expandBase ::
    "cron_field_name \<Rightarrow> string \<Rightarrow> int \<Rightarrow> int \<Rightarrow> (string \<times> int) list \<Rightarrow> (int \<Rightarrow> int) \<Rightarrow> int list cron_result" where
  "expandBase name base lo hi aliases normal =
     (if base = ''*'' then Inr (uniqueSorted (map normal (js_range lo hi)))
      else (case split_char CHR ''-'' base of
        [single] \<Rightarrow>
          (case parseValue name single lo hi aliases normal of Inl e \<Rightarrow> Inl e | Inr v \<Rightarrow> Inr [v])
      | [rangeStart, rangeEnd] \<Rightarrow>
          (if rangeStart = [] \<or> rangeEnd = [] then Inl (InvalidRange name base)
           else (case parseRawValue name rangeStart lo hi aliases of
                   Inl e \<Rightarrow> Inl e
                 | Inr rawStart \<Rightarrow>
                     (case parseRawValue name rangeEnd lo hi aliases of
                        Inl e \<Rightarrow> Inl e
                      | Inr rawEnd \<Rightarrow>
                          (if rawEnd < rawStart then Inl (RangeReversed name base)
                           else Inr (uniqueSorted (map normal (js_range rawStart rawEnd)))))))
      | _ \<Rightarrow> Inl (InvalidRange name base)))"

text \<open>The elements at the indices 0, step, 2 * step and so on.\<close>

function every :: "nat \<Rightarrow> 'a list \<Rightarrow> 'a list" where
  "every step [] = []"
| "every step (x # xs) = x # every step (drop (step - 1) xs)"
  by pat_completeness auto
termination by (relation "measure (\<lambda>(step, xs). length xs)") auto

definition parseToken ::
    "cron_field_name \<Rightarrow> string \<Rightarrow> string \<Rightarrow> int \<Rightarrow> int \<Rightarrow> (string \<times> int) list \<Rightarrow> (int \<Rightarrow> int) \<Rightarrow>
     int list cron_result" where
  "parseToken name raw token lo hi aliases normal =
     (if token = [] then Inl (EmptyListItem name raw)
      else (let parts = split_char CHR ''/'' token in
        if 2 < length parts then Inl (TooManySlashes name token)
        else (case (if length parts = 1 then Inr 1 else parseStep name token (parts ! 1)) of
                Inl e \<Rightarrow> Inl e
              | Inr step \<Rightarrow>
                  (case expandBase name (parts ! 0) lo hi aliases normal of
                     Inl e \<Rightarrow> Inl e
                   | Inr baseValues \<Rightarrow> Inr (every step baseValues)))))"

fun parseTokens ::
    "cron_field_name \<Rightarrow> string \<Rightarrow> int \<Rightarrow> int \<Rightarrow> (string \<times> int) list \<Rightarrow> (int \<Rightarrow> int) \<Rightarrow>
     string list \<Rightarrow> int list \<Rightarrow> int list cron_result" where
  "parseTokens name raw lo hi aliases normal [] vs = Inr vs"
| "parseTokens name raw lo hi aliases normal (token # tokens) vs =
     (case parseToken name raw token lo hi aliases normal of
        Inl e \<Rightarrow> Inl e
      | Inr new \<Rightarrow>
          parseTokens name raw lo hi aliases normal tokens (foldl (\<lambda>s x. set_add x s) vs new))"

definition parseField ::
    "cron_field_name \<Rightarrow> string \<Rightarrow> int \<Rightarrow> int \<Rightarrow> (string \<times> int) list \<Rightarrow> (int \<Rightarrow> int) \<Rightarrow>
     parsed_field cron_result" where
  "parseField name raw lo hi aliases normal =
     (if js_trim raw = [] then Inl (EmptyField name)
      else (case parseTokens name raw lo hi aliases normal (split_char CHR '','' raw) [] of
              Inl e \<Rightarrow> Inl e
            | Inr vs \<Rightarrow>
                (let sorted = js_sort num_diff vs;
                     full = (if name = DayOfWeekField then FULL_DOW else js_range lo hi) in
                 Inr \<lparr> field_name = name, field_raw = raw, field_min = lo, field_max = hi,
                       field_values = sorted, field_wildcard = (sorted = full) \<rparr>)))"

text \<open>The five calls of \<open>parseField\<close>, in the code's order.\<close>

definition parseMinute :: "string \<Rightarrow> parsed_field cron_result" where
  "parseMinute raw = parseField MinuteField raw 0 59 [] (\<lambda>v. v)"
definition parseHour :: "string \<Rightarrow> parsed_field cron_result" where
  "parseHour raw = parseField HourField raw 0 23 [] (\<lambda>v. v)"
definition parseDayOfMonth :: "string \<Rightarrow> parsed_field cron_result" where
  "parseDayOfMonth raw = parseField DayOfMonthField raw 1 31 [] (\<lambda>v. v)"
definition parseMonth :: "string \<Rightarrow> parsed_field cron_result" where
  "parseMonth raw = parseField MonthField raw 1 12 MONTH_ALIASES (\<lambda>v. v)"
definition parseDayOfWeek :: "string \<Rightarrow> parsed_field cron_result" where
  "parseDayOfWeek raw = parseField DayOfWeekField raw 0 7 DOW_ALIASES normalizeDayOfWeek"

definition parseCron :: "string \<Rightarrow> parsed_cron cron_result" where
  "parseCron expression =
     (case split_ws (js_trim expression) of
        [minuteRaw, hourRaw, dayRaw, monthRaw, weekdayRaw] \<Rightarrow>
          (case parseMinute minuteRaw of Inl e \<Rightarrow> Inl e | Inr mi \<Rightarrow>
          (case parseHour hourRaw of Inl e \<Rightarrow> Inl e | Inr h \<Rightarrow>
          (case parseDayOfMonth dayRaw of Inl e \<Rightarrow> Inl e | Inr d \<Rightarrow>
          (case parseMonth monthRaw of Inl e \<Rightarrow> Inl e | Inr mo \<Rightarrow>
          (case parseDayOfWeek weekdayRaw of Inl e \<Rightarrow> Inl e | Inr w \<Rightarrow>
             Inr \<lparr> cron_raw = expression, cron_minute = mi, cron_hour = h, cron_dayOfMonth = d,
                   cron_month = mo, cron_dayOfWeek = w \<rparr>)))))
      | parts \<Rightarrow> Inl (FieldCount (length parts) expression))"

section \<open>Formatting\<close>

definition format_run :: "int \<Rightarrow> int \<Rightarrow> string" where
  "format_run start prev =
     (if start = prev then show_int start else show_int start @ ''-'' @ show_int prev)"

fun format_runs :: "int \<Rightarrow> int \<Rightarrow> int list \<Rightarrow> string list" where
  "format_runs start prev [] = [format_run start prev]"
| "format_runs start prev (current # rest) =
     (if current = prev + 1 then format_runs start current rest
      else format_run start prev # format_runs current current rest)"

definition formatValues :: "int list \<Rightarrow> int list \<Rightarrow> string" where
  "formatValues vs full =
     (let sorted = uniqueSorted vs in
      if sorted = full then ''*''
      else (case sorted of
              [] \<Rightarrow> []
            | start # rest \<Rightarrow> js_join '','' (format_runs start start rest)))"

definition formatCron :: "parsed_cron \<Rightarrow> string" where
  "formatCron cron = js_join '' ''
     [formatValues (field_values (cron_minute cron)) FULL_MINUTES,
      formatValues (field_values (cron_hour cron)) FULL_HOURS,
      formatValues (field_values (cron_dayOfMonth cron)) FULL_DOM,
      formatValues (field_values (cron_month cron)) FULL_MONTHS,
      formatValues (field_values (cron_dayOfWeek cron)) FULL_DOW]"

definition normalizeCron :: "string \<Rightarrow> string cron_result" where
  "normalizeCron expression =
     (case parseCron expression of Inl e \<Rightarrow> Inl e | Inr cron \<Rightarrow> Inr (formatCron cron))"

section \<open>Sorted value lists\<close>

named_theorems cron_simps \<open>facts about the value lists of cron fields\<close>

lemma js_sort_distinct_set: "distinct xs \<Longrightarrow> js_sort num_diff xs = sorted_list_of_set (set xs)"
  by (simp add: js_sort_num_sort sorted_list_of_set_sort_remdups distinct_remdups_id)

lemma uniqueSorted_set [cron_simps]: "uniqueSorted xs = sorted_list_of_set (set xs)"
  by (simp add: uniqueSorted_def js_sort_distinct_set)

lemma range_sorted [cron_simps]: "sorted_list_of_set {lo..hi} = js_range lo hi"
  by (simp add: js_range_def)

lemma set_js_range [simp]: "set (js_range lo hi) = {lo..hi}"
  by (simp add: js_range_def)

lemma sorted_list_id: "sorted_wrt (<) xs \<Longrightarrow> sorted_list_of_set (set xs) = (xs :: int list)"
  by (simp add: sorted_distinct_set_unique strict_sorted_iff)

lemma every_one: "every (Suc 0) xs = xs"
  by (induction xs) auto

lemma set_every: "set (every step xs) \<subseteq> set xs"
  by (induction step xs rule: every.induct) (auto dest: in_set_dropD)

section \<open>Well-formed fields\<close>

definition full_of :: "cron_field_name \<Rightarrow> int list" where
  "full_of name = (case name of MinuteField \<Rightarrow> FULL_MINUTES | HourField \<Rightarrow> FULL_HOURS
     | DayOfMonthField \<Rightarrow> FULL_DOM | MonthField \<Rightarrow> FULL_MONTHS | DayOfWeekField \<Rightarrow> FULL_DOW)"

definition field_ok :: "cron_field_name \<Rightarrow> parsed_field \<Rightarrow> bool" where
  "field_ok name f \<longleftrightarrow>
     field_name f = name \<and> field_values f \<noteq> [] \<and> sorted_wrt (<) (field_values f) \<and>
     set (field_values f) \<subseteq> set (full_of name) \<and>
     field_wildcard f = (field_values f = full_of name)"

definition cron_ok :: "parsed_cron \<Rightarrow> bool" where
  "cron_ok c \<longleftrightarrow> field_ok MinuteField (cron_minute c) \<and> field_ok HourField (cron_hour c) \<and>
     field_ok DayOfMonthField (cron_dayOfMonth c) \<and> field_ok MonthField (cron_month c) \<and>
     field_ok DayOfWeekField (cron_dayOfWeek c)"

lemmas full_defs = FULL_MINUTES_def FULL_HOURS_def FULL_DOM_def FULL_MONTHS_def FULL_DOW_def

lemma parseRawValue_range:
  "parseRawValue name raw lo hi aliases = Inr v \<Longrightarrow> lo \<le> v \<and> v \<le> hi"
  by (auto simp: parseRawValue_def split: option.splits if_splits)

lemma expandBase_values:
  "expandBase name base lo hi aliases normal = Inr vs \<Longrightarrow>
     set vs \<subseteq> normal ` {lo..hi} \<and> (lo \<le> hi \<longrightarrow> vs \<noteq> [])"
  by (fastforce simp: expandBase_def parseValue_def uniqueSorted_set dest!: parseRawValue_range
      split: if_splits list.splits sum.splits)

lemma parseToken_values:
  assumes "parseToken name raw token lo hi aliases normal = Inr vs" and "lo \<le> hi"
  shows "set vs \<subseteq> normal ` {lo..hi} \<and> vs \<noteq> []"
proof -
  from assms obtain step b where "vs = every step b" "expandBase name (split_char CHR ''/'' token ! 0) lo hi aliases normal = Inr b"
    by (auto simp: parseToken_def Let_def split: if_splits sum.splits)
  moreover from this(2) have "set b \<subseteq> normal ` {lo..hi}" "b \<noteq> []" using expandBase_values assms(2) by blast+
  ultimately show ?thesis using set_every [of step b] by (cases b) auto
qed

lemma parseTokens_values:
  assumes "parseTokens name raw lo hi aliases normal tokens vs = Inr ws" and "lo \<le> hi"
    and "distinct vs" and "set vs \<subseteq> normal ` {lo..hi}"
  shows "distinct ws \<and> set ws \<subseteq> normal ` {lo..hi} \<and> set vs \<subseteq> set ws \<and> (tokens \<noteq> [] \<longrightarrow> ws \<noteq> [])"
  using assms
proof (induction name raw lo hi aliases normal tokens vs rule: parseTokens.induct)
  case (2 name raw lo hi aliases normal token tokens vs)
  then obtain new where new: "parseToken name raw token lo hi aliases normal = Inr new"
    by (auto split: sum.splits)
  let ?vs = "foldl (\<lambda>s x. set_add x s) vs new"
  have "set new \<subseteq> normal ` {lo..hi}" "new \<noteq> []" using parseToken_values [OF new] 2 by auto
  then have vs: "distinct ?vs" "set ?vs \<subseteq> normal ` {lo..hi}" "set vs \<subseteq> set ?vs" "set ?vs \<noteq> {}"
    using 2 by (auto simp: js_set_fold)
  from "2.IH" [OF new _ "2.prems"(2) vs(1,2)] "2.prems"(1) new
  have "distinct ws \<and> set ws \<subseteq> normal ` {lo..hi} \<and> set ?vs \<subseteq> set ws" by simp
  then show ?case using vs by auto
qed simp

lemma parseField_ok:
  assumes "parseField name raw lo hi aliases normal = Inr f" and "lo \<le> hi"
    and "normal ` {lo..hi} \<subseteq> set (full_of name)" and "name \<noteq> DayOfWeekField \<Longrightarrow> full_of name = js_range lo hi"
  shows "field_ok name f"
proof -
  from assms(1) obtain vs where vs: "parseTokens name raw lo hi aliases normal (split_char CHR '','' raw) [] = Inr vs"
    and f: "field_name f = name" "field_values f = js_sort num_diff vs"
      "field_wildcard f = (js_sort num_diff vs = (if name = DayOfWeekField then FULL_DOW else js_range lo hi))"
    by (auto simp: parseField_def Let_def split: if_splits sum.splits)
  have d: "distinct vs" "set vs \<subseteq> normal ` {lo..hi}" "vs \<noteq> []"
    using parseTokens_values [OF vs assms(2)] by auto
  then have j: "js_sort num_diff vs = sorted_list_of_set (set vs)" by (simp add: js_sort_distinct_set)
  have full: "(if name = DayOfWeekField then FULL_DOW else js_range lo hi) = full_of name"
    using assms(4) by (simp add: full_of_def)
  have sub: "set vs \<subseteq> set (full_of name)" using d(2) assms(3) by blast
  show ?thesis using f(1,2) f(3) [unfolded full] d(3) sub
    by (simp add: field_ok_def j sorted_list_of_set_eq_Nil_iff)
qed

lemma parse_fields_ok:
  "parseMinute s = Inr f \<Longrightarrow> field_ok MinuteField f"
  "parseHour s = Inr f \<Longrightarrow> field_ok HourField f"
  "parseDayOfMonth s = Inr f \<Longrightarrow> field_ok DayOfMonthField f"
  "parseMonth s = Inr f \<Longrightarrow> field_ok MonthField f"
  "parseDayOfWeek s = Inr f \<Longrightarrow> field_ok DayOfWeekField f"
  unfolding parseMinute_def parseHour_def parseDayOfMonth_def parseMonth_def parseDayOfWeek_def
  by (erule parseField_ok; auto simp: full_of_def full_defs normalizeDayOfWeek_def)+

lemma parseCron_cases:
  assumes "parseCron s = Inr c"
  obtains a b d m w mi h dd mo ww where
    "split_ws (js_trim s) = [a, b, d, m, w]" "parseMinute a = Inr mi" "parseHour b = Inr h"
    "parseDayOfMonth d = Inr dd" "parseMonth m = Inr mo" "parseDayOfWeek w = Inr ww"
    "c = \<lparr> cron_raw = s, cron_minute = mi, cron_hour = h, cron_dayOfMonth = dd, cron_month = mo, cron_dayOfWeek = ww \<rparr>"
  using assms by (auto simp: parseCron_def split: list.splits sum.splits)

lemma parseCron_ok: "parseCron s = Inr c \<Longrightarrow> cron_ok c"
  by (erule parseCron_cases) (simp add: cron_ok_def parse_fields_ok)

section \<open>Parsing what was formatted\<close>

fun value_runs :: "int \<Rightarrow> int \<Rightarrow> int list \<Rightarrow> (int \<times> int) list" where
  "value_runs start prev [] = [(start, prev)]"
| "value_runs start prev (current # rest) =
     (if current = prev + 1 then value_runs start current rest
      else (start, prev) # value_runs current current rest)"

lemma format_runs_value_runs: "format_runs s p cs = map (\<lambda>r. format_run (fst r) (snd r)) (value_runs s p cs)"
  by (induction s p cs rule: value_runs.induct) auto

lemma value_runs_cover:
  assumes "s \<le> p" and "sorted_wrt (<) (p # cs)"
  shows "(\<Union>(a, b) \<in> set (value_runs s p cs). {a..b}) = {s..p} \<union> set cs \<and>
    (\<forall>(a, b) \<in> set (value_runs s p cs). a \<le> b)"
  using assms
proof (induction s p cs rule: value_runs.induct)
  case (2 s p c cs)
  have sorted: "sorted_wrt (<) (c # cs)" "p < c" using 2 by auto
  show ?case
  proof (cases "c = p + 1")
    case True
    have "s \<le> c" using sorted "2.prems" by simp
    from "2.IH"(1) [OF True this sorted(1)] show ?thesis using True "2.prems"(1) by (auto split: prod.splits)
  next
    case False
    from "2.IH"(2) [OF False order_refl sorted(1)] show ?thesis using False "2.prems"(1) by auto
  qed
qed simp

lemma value_runs_not_Nil: "value_runs s p cs \<noteq> []"
  by (induction s p cs rule: value_runs.induct) auto

definition aliases_ok :: "(string \<times> int) list \<Rightarrow> bool" where
  "aliases_ok aliases = list_all (\<lambda>(k, v). \<not> all_digits k) aliases"

lemma digit_upper: "is_digit c \<Longrightarrow> js_upper_char c = [c]"
  by (auto simp: is_digit_def js_upper_char_def Let_def)

lemma js_upper_digits: "list_all is_digit s \<Longrightarrow> js_upper s = s"
  by (induction s) (auto simp: js_upper_def digit_upper)

lemma alias_of_numeral: "aliases_ok aliases \<Longrightarrow> map_of aliases (show_nat n) = None"
  by (induction aliases) (auto simp: aliases_ok_def)

lemma parseRawValue_show:
  assumes "aliases_ok aliases" and "0 \<le> v" and "lo \<le> v" and "v \<le> hi"
  shows "parseRawValue name (show_int v) lo hi aliases = Inr v"
  using assms by (simp add: parseRawValue_def show_int_def js_upper_digits alias_of_numeral)

lemma show_int_chars:
  assumes "0 \<le> v"
  shows "show_int v \<noteq> []" "\<not> is_digit c \<Longrightarrow> c \<notin> set (show_int v)"
  using assms by (simp_all add: show_int_def show_nat_no_char)

lemma format_run_chars:
  assumes "0 \<le> a" and "0 \<le> b"
  shows "format_run a b \<noteq> []" "\<not> is_digit c \<Longrightarrow> c \<noteq> CHR ''-'' \<Longrightarrow> c \<notin> set (format_run a b)"
  using assms by (auto simp: format_run_def show_int_chars)

lemma parseToken_run:
  assumes "aliases_ok aliases" and "0 \<le> a" and "lo \<le> a" and "a \<le> b" and "b \<le> hi"
  shows "\<exists>vs. parseToken name raw (format_run a b) lo hi aliases normal = Inr vs \<and> set vs = normal ` {a..b}"
proof -
  have ab: "0 \<le> b" "lo \<le> b" "a \<le> hi" using assms by auto
  have star: "format_run a b \<noteq> ''*''" using format_run_chars(2) [OF assms(2) ab(1), of "CHR ''*''"] by auto
  have slash: "split_char CHR ''/'' (format_run a b) = [format_run a b]"
    using format_run_chars(2) [OF assms(2) ab(1)] by (intro split_char_no_sep) simp
  have dash: "split_char CHR ''-'' (show_int v) = [show_int v]" if "0 \<le> v" for v
    using show_int_chars(2) [OF that] by (intro split_char_no_sep) simp
  have "\<exists>vs. expandBase name (format_run a b) lo hi aliases normal = Inr vs \<and> set vs = normal ` {a..b}"
  proof (cases "a = b")
    case True
    then have "format_run a b = show_int a" by (simp add: format_run_def)
    then show ?thesis using star True assms ab
      by (simp add: expandBase_def dash parseValue_def parseRawValue_show)
  next
    case False
    then have r: "format_run a b = show_int a @ CHR ''-'' # show_int b" by (simp add: format_run_def)
    have "split_char CHR ''-'' (format_run a b) = [show_int a, show_int b]"
      unfolding r using show_int_chars(2) [OF assms(2)] dash [OF ab(1)]
      by (subst split_char_append_sep) simp_all
    then show ?thesis using star assms ab
      by (simp add: expandBase_def show_int_chars parseRawValue_show uniqueSorted_set)
  qed
  then show ?thesis using format_run_chars(1) [OF assms(2) ab(1)]
    by (auto simp: parseToken_def slash every_one)
qed

lemma parseTokens_all:
  assumes "\<And>r. r \<in> set rs \<Longrightarrow> \<exists>vs. parseToken name raw (tok r) lo hi aliases normal = Inr vs \<and> set vs = S r"
    and "distinct vs"
  shows "\<exists>ws. parseTokens name raw lo hi aliases normal (map tok rs) vs = Inr ws \<and>
    set ws = set vs \<union> (\<Union>r \<in> set rs. S r) \<and> distinct ws"
  using assms
proof (induction rs arbitrary: vs)
  case (Cons r rs)
  obtain new where new: "parseToken name raw (tok r) lo hi aliases normal = Inr new" "set new = S r"
    using Cons.prems(1) [of r] by auto
  let ?vs = "foldl (\<lambda>s x. set_add x s) vs new"
  have "\<exists>ws. parseTokens name raw lo hi aliases normal (map tok rs) ?vs = Inr ws \<and>
    set ws = set ?vs \<union> (\<Union>r \<in> set rs. S r) \<and> distinct ws"
    using Cons.prems by (intro Cons.IH) (auto simp: js_set_fold)
  then show ?case using new by (auto simp: js_set_fold)
qed simp

lemma parseToken_star:
  assumes "lo \<le> hi"
  shows "\<exists>vs. parseToken name raw ''*'' lo hi aliases normal = Inr vs \<and> set vs = normal ` {lo..hi}"
  using assms by (auto simp: every_one parseToken_def expandBase_def uniqueSorted_set)

text \<open>A list of values, formatted, parses to those values.\<close>

lemma parseField_of_tokens:
  assumes raw: "raw = js_join '','' (map tok rs)"
    and rs: "rs \<noteq> []" "\<And>r. r \<in> set rs \<Longrightarrow> CHR '','' \<notin> set (tok r)" "js_trim raw \<noteq> []"
    and parse: "\<And>r. r \<in> set rs \<Longrightarrow>
      \<exists>vs. parseToken name raw (tok r) lo hi aliases normal = Inr vs \<and> set vs = S r"
  shows "\<exists>f. parseField name raw lo hi aliases normal = Inr f \<and>
    field_values f = sorted_list_of_set (\<Union>r \<in> set rs. S r)"
proof -
  have split: "split_char CHR '','' raw = map tok rs" using rs unfolding raw by (intro split_join) auto
  obtain ws where "parseTokens name raw lo hi aliases normal (map tok rs) [] = Inr ws"
    "set ws = (\<Union>r \<in> set rs. S r)" "distinct ws"
    using parseTokens_all [of rs name raw tok lo hi aliases normal S "[]"] parse by auto
  then show ?thesis using rs(3) by (auto simp: parseField_def split js_sort_distinct_set)
qed

lemma join_run_chars:
  assumes "ts \<noteq> []" and "\<And>t. t \<in> set ts \<Longrightarrow> t \<noteq> [] \<and> (\<forall>c \<in> set t. \<not> js_ws c)"
  shows "js_join '','' ts \<noteq> [] \<and> (\<forall>c \<in> set (js_join '','' ts). \<not> js_ws c)"
  using assms
proof (induction "'',''" ts rule: js_join.induct)
  case (3 x y ys)
  have "\<not> js_ws CHR '',''" by (simp add: js_ws_def)
  then show ?case using 3 by auto
qed auto

lemma trim_no_ws: "\<forall>c \<in> set s. \<not> js_ws c \<Longrightarrow> js_trim s = s"
  by (rule js_trim_id) auto

lemma format_run_no_ws: "0 \<le> a \<Longrightarrow> 0 \<le> b \<Longrightarrow> c \<in> set (format_run a b) \<Longrightarrow> \<not> js_ws c"
  using format_run_chars(2) [of a b c] digit_not_ws [of c] by (cases "c = CHR ''-''") (auto simp: js_ws_def)

lemma formatValues_shape:
  assumes "vs \<noteq> []" and "set vs \<subseteq> {0..}"
  shows "formatValues vs full \<noteq> [] \<and> (\<forall>c \<in> set (formatValues vs full). \<not> js_ws c)"
proof -
  let ?s = "uniqueSorted vs"
  have set: "set ?s = set vs" by (simp add: uniqueSorted_set)
  then obtain a as where s: "?s = a # as" using assms(1) by (cases ?s) auto
  have sorted: "sorted_wrt (<) (a # as)" using s by (metis uniqueSorted_set strict_sorted_list_of_set)
  have "(\<Union>(x, y) \<in> set (value_runs a a as). {x..y}) = set vs"
    "\<forall>(x, y) \<in> set (value_runs a a as). x \<le> y"
    using value_runs_cover [OF order_refl sorted] set s by auto
  then have pos: "0 \<le> x \<and> 0 \<le> y" if "(x, y) \<in> set (value_runs a a as)" for x y
    using that assms(2) by fastforce
  have ne: "format_runs a a as \<noteq> []" by (simp add: format_runs_value_runs value_runs_not_Nil)
  have "js_join '','' (format_runs a a as) \<noteq> [] \<and> (\<forall>c \<in> set (js_join '','' (format_runs a a as)). \<not> js_ws c)"
  proof (rule join_run_chars [OF ne])
    fix t assume "t \<in> set (format_runs a a as)"
    then obtain x y where t: "t = format_run x y" "(x, y) \<in> set (value_runs a a as)"
      by (auto simp: format_runs_value_runs)
    show "t \<noteq> [] \<and> (\<forall>c \<in> set t. \<not> js_ws c)"
      using pos [OF t(2)] format_run_chars(1) [of x y] format_run_no_ws [of x y] unfolding t(1) by blast
  qed
  moreover have "\<not> js_ws CHR ''*''" by (simp add: js_ws_def)
  ultimately show ?thesis by (simp add: formatValues_def Let_def s)
qed

lemma parseField_format:
  assumes "vs \<noteq> []" and "set vs \<subseteq> {lo..hi}" and "0 \<le> lo" and al: "aliases_ok aliases"
    and full: "sorted_list_of_set (normal ` {lo..hi}) = full" and id: "\<And>v. v \<in> set vs \<Longrightarrow> normal v = v"
  shows "\<exists>f. parseField name (formatValues vs full) lo hi aliases normal = Inr f \<and>
    field_values f = uniqueSorted vs"
proof (cases "uniqueSorted vs = full")
  case True
  have "lo \<le> hi" using assms(1,2) by (cases vs) auto
  from parseToken_star [OF this] True full
    parseField_of_tokens [of "''*''" "\<lambda>r. ''*''" "[()]" name lo hi aliases normal "\<lambda>r. normal ` {lo..hi}"]
  show ?thesis by (simp add: formatValues_def Let_def js_trim_def js_ws_def)
next
  case False
  let ?s = "uniqueSorted vs"
  have set: "set ?s = set vs" by (simp add: uniqueSorted_set)
  then obtain a as where s: "?s = a # as" using assms(1) by (cases ?s) auto
  have sorted: "sorted_wrt (<) (a # as)" using s by (metis uniqueSorted_set strict_sorted_list_of_set)
  let ?rs = "value_runs a a as"
  have cover: "(\<Union>r \<in> set ?rs. {fst r..snd r}) = set vs" "\<And>r. r \<in> set ?rs \<Longrightarrow> fst r \<le> snd r"
    using value_runs_cover [OF order_refl sorted] set s by (auto simp: case_prod_beta)
  have bounds: "lo \<le> fst r \<and> snd r \<le> hi \<and> 0 \<le> fst r \<and> 0 \<le> snd r" if "r \<in> set ?rs" for r
  proof -
    have "fst r \<in> {fst r..snd r}" "snd r \<in> {fst r..snd r}" using cover(2) [OF that] by auto
    then have "fst r \<in> set vs" "snd r \<in> set vs" using cover(1) that by blast+
    then show ?thesis using assms(2,3) by auto
  qed
  let ?tok = "\<lambda>r. format_run (fst r) (snd r)"
  have fv: "formatValues vs full = js_join '','' (map ?tok ?rs)"
    using False by (simp add: formatValues_def Let_def s format_runs_value_runs)
  have "set vs \<subseteq> {0..}" using assms(2,3) by auto
  note shape = formatValues_shape [OF assms(1) this, of full]
  have "\<exists>f. parseField name (js_join '','' (map ?tok ?rs)) lo hi aliases normal = Inr f \<and>
    field_values f = sorted_list_of_set (\<Union>r \<in> set ?rs. normal ` {fst r..snd r})"
  proof (rule parseField_of_tokens [OF refl])
    show "CHR '','' \<notin> set (?tok r)" if "r \<in> set ?rs" for r
      using bounds [OF that] by (intro format_run_chars(2)) auto
    show "js_trim (js_join '','' (map ?tok ?rs)) \<noteq> []" using shape trim_no_ws unfolding fv by metis
    show "\<exists>ws. parseToken name (js_join '','' (map ?tok ?rs)) (?tok r) lo hi aliases normal = Inr ws \<and>
      set ws = normal ` {fst r..snd r}" if "r \<in> set ?rs" for r
      using bounds [OF that] cover(2) [OF that] by (intro parseToken_run [OF al]) auto
  qed (simp add: value_runs_not_Nil)
  moreover have "(\<Union>r \<in> set ?rs. normal ` {fst r..snd r}) = normal ` set vs"
    using cover(1) by (simp add: image_UN [symmetric])
  moreover have "normal ` set vs = set vs" using id by force
  ultimately show ?thesis by (simp add: fv uniqueSorted_set)
qed

section \<open>Whole expressions\<close>

definition five_fields :: "int list \<Rightarrow> int list \<Rightarrow> int list \<Rightarrow> int list \<Rightarrow> int list \<Rightarrow> string" where
  "five_fields mi h d mo w = js_join '' ''
     [formatValues mi FULL_MINUTES, formatValues h FULL_HOURS, formatValues d FULL_DOM,
      formatValues mo FULL_MONTHS, formatValues w FULL_DOW]"

definition field_list :: "cron_field_name \<Rightarrow> int list \<Rightarrow> bool" where
  "field_list name vs \<longleftrightarrow> vs \<noteq> [] \<and> set vs \<subseteq> set (full_of name)"

lemma parse_formatted_fields:
  "field_list MinuteField vs \<Longrightarrow> \<exists>f. parseMinute (formatValues vs FULL_MINUTES) = Inr f \<and> field_values f = uniqueSorted vs"
  "field_list HourField vs \<Longrightarrow> \<exists>f. parseHour (formatValues vs FULL_HOURS) = Inr f \<and> field_values f = uniqueSorted vs"
  "field_list DayOfMonthField vs \<Longrightarrow> \<exists>f. parseDayOfMonth (formatValues vs FULL_DOM) = Inr f \<and> field_values f = uniqueSorted vs"
  "field_list MonthField vs \<Longrightarrow> \<exists>f. parseMonth (formatValues vs FULL_MONTHS) = Inr f \<and> field_values f = uniqueSorted vs"
  unfolding field_list_def full_of_def parseMinute_def parseHour_def parseDayOfMonth_def parseMonth_def
  by (rule parseField_format; simp add: full_defs cron_simps aliases_ok_def MONTH_ALIASES_def all_digits_def
      is_digit_def js_range_def)+

lemma dow_image: "normalizeDayOfWeek ` {0..7} = {0..6}"
proof -
  have "{0..7} = insert 7 {0..6::int}" by auto
  then show ?thesis by (auto simp: normalizeDayOfWeek_def image_iff)
qed

lemma parse_formatted_dow:
  assumes "field_list DayOfWeekField vs"
  shows "\<exists>f. parseDayOfWeek (formatValues vs FULL_DOW) = Inr f \<and> field_values f = uniqueSorted vs"
  unfolding parseDayOfWeek_def
proof (rule parseField_format)
  show "sorted_list_of_set (normalizeDayOfWeek ` {0..7}) = FULL_DOW"
    by (simp add: dow_image FULL_DOW_def js_range_def)
qed (use assms in \<open>auto simp: field_list_def full_of_def FULL_DOW_def normalizeDayOfWeek_def aliases_ok_def
      DOW_ALIASES_def all_digits_def is_digit_def\<close>)

lemma join_space_ends:
  assumes "ts \<noteq> []" and "\<And>t. t \<in> set ts \<Longrightarrow> t \<noteq> [] \<and> (\<forall>c \<in> set t. \<not> js_ws c)"
  shows "js_join '' '' ts \<noteq> [] \<and> \<not> js_ws (hd (js_join '' '' ts)) \<and> \<not> js_ws (last (js_join '' '' ts))"
  using assms
proof (induction "'' ''" ts rule: js_join.induct)
  case (3 x y ys)
  have "x \<noteq> []" "\<not> js_ws (hd x)" using "3.prems"(2) [of x] hd_in_set [of x] by auto
  then show ?case using 3 by auto
qed auto

lemma parse_five_fields:
  assumes "field_list MinuteField mi" "field_list HourField h" "field_list DayOfMonthField d"
    "field_list MonthField mo" "field_list DayOfWeekField w"
  shows "\<exists>c. parseCron (five_fields mi h d mo w) = Inr c \<and>
    field_values (cron_minute c) = uniqueSorted mi \<and> field_values (cron_hour c) = uniqueSorted h \<and>
    field_values (cron_dayOfMonth c) = uniqueSorted d \<and> field_values (cron_month c) = uniqueSorted mo \<and>
    field_values (cron_dayOfWeek c) = uniqueSorted w"
proof -
  let ?fs = "[formatValues mi FULL_MINUTES, formatValues h FULL_HOURS, formatValues d FULL_DOM,
      formatValues mo FULL_MONTHS, formatValues w FULL_DOW]"
  have nonneg: "set (full_of name) \<subseteq> {0..}" for name
    by (cases name) (auto simp: full_of_def full_defs)
  then have shape: "t \<noteq> [] \<and> (\<forall>c \<in> set t. \<not> js_ws c)" if "t \<in> set ?fs" for t
    using that assms formatValues_shape unfolding field_list_def by (smt (verit) list.set_cases set_ConsD subset_trans empty_iff list.set(1))
  have "js_trim (js_join '' '' ?fs) = js_join '' '' ?fs"
    using join_space_ends [of ?fs, OF _ shape] by (intro js_trim_id) auto
  moreover have "split_ws (js_join '' '' ?fs) = ?fs"
    using shape by (intro split_ws_join) (auto simp: list_all_iff)
  ultimately have "split_ws (js_trim (five_fields mi h d mo w)) = ?fs" by (simp only: five_fields_def)
  then show ?thesis
    using parse_formatted_fields(1) [OF assms(1)] parse_formatted_fields(2) [OF assms(2)]
      parse_formatted_fields(3) [OF assms(3)] parse_formatted_fields(4) [OF assms(4)]
      parse_formatted_dow [OF assms(5)]
    by (auto simp: parseCron_def)
qed

lemma cron_ok_lists:
  assumes "cron_ok c"
  shows "field_list MinuteField (field_values (cron_minute c))"
    "field_list HourField (field_values (cron_hour c))"
    "field_list DayOfMonthField (field_values (cron_dayOfMonth c))"
    "field_list MonthField (field_values (cron_month c))"
    "field_list DayOfWeekField (field_values (cron_dayOfWeek c))"
  using assms by (simp_all add: cron_ok_def field_ok_def field_list_def)

lemma formatCron_five: "formatCron c = five_fields (field_values (cron_minute c)) (field_values (cron_hour c))
    (field_values (cron_dayOfMonth c)) (field_values (cron_month c)) (field_values (cron_dayOfWeek c))"
  by (simp add: formatCron_def five_fields_def)

lemma field_unique: "field_ok name f \<Longrightarrow> uniqueSorted (field_values f) = field_values f"
  by (simp add: field_ok_def uniqueSorted_set sorted_list_id)

section \<open>Properties\<close>

text \<open>
  Every parsed expression is well typed: each of the five fields holds a non-empty, strictly
  increasing list of values of that field's range (days of the week already folded to 0-6), and is
  marked as a wildcard exactly when the list is the whole range.
\<close>

theorem cron_parse_typed:
  assumes "parseCron s = Inr c"
  shows "field_ok MinuteField (cron_minute c) \<and> field_ok HourField (cron_hour c) \<and>
    field_ok DayOfMonthField (cron_dayOfMonth c) \<and> field_ok MonthField (cron_month c) \<and>
    field_ok DayOfWeekField (cron_dayOfWeek c)"
  using parseCron_ok [OF assms] by (simp add: cron_ok_def)

lemma sample_cron_parses: "\<exists>c. parseCron ''*/15 9-17 1,15 jan MON-FRI'' = Inr c"
proof -
  have "\<not> isl (parseCron ''*/15 9-17 1,15 jan MON-FRI'')" by code_simp
  then show ?thesis by (cases "parseCron ''*/15 9-17 1,15 jan MON-FRI''") auto
qed

theorem cron_parse_typed_witness:
  "\<exists>c. parseCron ''*/15 9-17 1,15 jan MON-FRI'' = Inr c \<and>
    field_ok MinuteField (cron_minute c) \<and> field_ok HourField (cron_hour c) \<and>
    field_ok DayOfMonthField (cron_dayOfMonth c) \<and> field_ok MonthField (cron_month c) \<and>
    field_ok DayOfWeekField (cron_dayOfWeek c)"
  using sample_cron_parses cron_parse_typed by blast

text \<open>
  Formatting loses nothing: what the formatter prints for a parsed expression parses again,
  to the same five value lists, and normalising is idempotent.
\<close>

theorem cron_format_roundtrip:
  assumes "parseCron s = Inr c"
  shows "\<exists>c'. parseCron (formatCron c) = Inr c' \<and>
    map (\<lambda>f. field_values (f c')) [cron_minute, cron_hour, cron_dayOfMonth, cron_month, cron_dayOfWeek] =
    map (\<lambda>f. field_values (f c)) [cron_minute, cron_hour, cron_dayOfMonth, cron_month, cron_dayOfWeek] \<and>
    normalizeCron s = Inr (formatCron c) \<and> normalizeCron (formatCron c) = normalizeCron s"
proof -
  have ok: "cron_ok c" using parseCron_ok [OF assms] .
  note lists = cron_ok_lists [OF ok]
  obtain c' where c': "parseCron (formatCron c) = Inr c'"
    "field_values (cron_minute c') = field_values (cron_minute c)"
    "field_values (cron_hour c') = field_values (cron_hour c)"
    "field_values (cron_dayOfMonth c') = field_values (cron_dayOfMonth c)"
    "field_values (cron_month c') = field_values (cron_month c)"
    "field_values (cron_dayOfWeek c') = field_values (cron_dayOfWeek c)"
    using parse_five_fields [OF lists] ok unfolding formatCron_five
    by (auto simp: cron_ok_def field_unique)
  then show ?thesis using assms by (simp add: normalizeCron_def formatCron_def)
qed

theorem cron_format_roundtrip_witness:
  "\<exists>c c'. parseCron ''*/15 9-17 1,15 jan MON-FRI'' = Inr c \<and> parseCron (formatCron c) = Inr c' \<and>
    normalizeCron (formatCron c) = normalizeCron ''*/15 9-17 1,15 jan MON-FRI''"
  using sample_cron_parses cron_format_roundtrip by blast

text \<open>
  The step of a day-of-week range is taken after the range was folded and sorted: 5-7/2, every
  second day from Friday to Sunday, selects Sunday and Saturday instead of Friday and Sunday.
\<close>

theorem cron_dow_step_after_folding:
  "map_sum (\<lambda>e. e) (\<lambda>f. field_values f) (parseDayOfWeek ''5-7/2'') = Inr [0, 6]"
  by code_simp

end
