(* ===== verification/Cron_Utc.thy ===== *)
theory Cron_Utc
  imports Cron_Parse
begin

text \<open>
  Conversion of a cron expression at a fixed offset into UTC expressions
  (src/src/shared/cron-utc.ts, lines 145-229 and 414-707): the time shift, the date arithmetic with
  the proleptic Gregorian calendar of \<open>Date.UTC\<close>, the regrouping into expressions and their order.
  An offset is a JavaScript number: None stands for NaN and the infinities. The collation
  \<open>localeCompare\<close> is a parameter.
\<close>

section \<open>Arithmetic and dates\<close>

text \<open>JavaScript's remainder has the sign of its first argument.\<close>

definition js_rem :: "int \<Rightarrow> int \<Rightarrow> int" where
  "js_rem a b = sgn a * (\<bar>a\<bar> mod \<bar>b\<bar>)"

definition js_mod :: "int \<Rightarrow> int \<Rightarrow> int" where
  "js_mod v divisor = js_rem (js_rem v divisor + divisor) divisor"

definition floorDiv :: "int \<Rightarrow> int \<Rightarrow> int" where
  "floorDiv v divisor = v div divisor"

definition shiftLocalTimeToUtc :: "int \<Rightarrow> int \<Rightarrow> int \<Rightarrow> int \<times> int \<times> int" where
  "shiftLocalTimeToUtc h mi offsetMinutes =
     (let localTotal = h * 60 + mi;
          utcTotal = localTotal - offsetMinutes;
          dayDelta = floorDiv utcTotal 1440;
          normalized = js_mod utcTotal 1440 in
      (floorDiv normalized 60, js_rem normalized 60, dayDelta))"

definition is_leap :: "int \<Rightarrow> bool" where
  "is_leap y = ((y mod 4 = 0 \<and> y mod 100 \<noteq> 0) \<or> y mod 400 = 0)"

definition month_days :: "bool \<Rightarrow> int \<Rightarrow> int" where
  "month_days leap m =
     (if m = 2 then (if leap then 29 else 28) else if m \<in> {4, 6, 9, 11} then 30 else 31)"

text \<open>\<open>Date.UTC(y, m - 1, d)\<close> read back, for a month in 1..12 and any day number.\<close>

function utc_date :: "int \<Rightarrow> int \<Rightarrow> int \<Rightarrow> int \<times> int \<times> int" where
  "utc_date y m d =
     (if d < 1 then
        (let y' = (if m = 1 then y - 1 else y); m' = (if m = 1 then 12 else m - 1) in
         utc_date y' m' (d + month_days (is_leap y') m'))
      else if month_days (is_leap y) m < d then
        utc_date (if m = 12 then y + 1 else y) (if m = 12 then 1 else m + 1) (d - month_days (is_leap y) m)
      else (y, m, d))"
  by pat_completeness auto
termination
  by (relation "measure (\<lambda>(y, m, d). nat (if d < 1 then 101 - d else d))")
     (auto simp: month_days_def split: if_splits)

declare utc_date.simps [simp del]

definition isValidDate :: "int \<Rightarrow> int \<Rightarrow> int \<Rightarrow> bool" where
  "isValidDate y m d = (utc_date y m d = (y, m, d))"

definition allPossibleValidDaysForMonth :: "int \<Rightarrow> int list" where
  "allPossibleValidDaysForMonth m =
     (if m = 2 then js_range 1 29 else if m \<in> {4, 6, 9, 11} then js_range 1 30 else js_range 1 31)"

section \<open>Keys\<close>

definition join_numbers :: "int list \<Rightarrow> string" where
  "join_numbers xs = js_join '','' (map show_int xs)"

definition pairKey :: "int \<Rightarrow> int \<Rightarrow> string" where
  "pairKey m d = show_int m @ ''/'' @ show_int d"

text \<open>\<open>Number\<close> on the digit texts that \<open>pairKey\<close> writes.\<close>

definition parsePairKey :: "string \<Rightarrow> (int \<times> int) cron_result" where
  "parsePairKey pair =
     (case split_char CHR ''/'' pair of
        m # d # rest \<Rightarrow> Inr (int (digits_val m), int (digits_val d))
      | _ \<Rightarrow> Inl (InvalidPair pair))"

record date_spec =
  spec_dom :: "int list"
  spec_month :: "int list"
  spec_dow :: "int list"

definition dateSpecKey :: "date_spec \<Rightarrow> string" where
  "dateSpecKey spec =
     join_numbers (spec_dom spec) @ ''|'' @ join_numbers (spec_month spec) @ ''|'' @ join_numbers (spec_dow spec)"

section \<open>Comparators\<close>

fun compareNumberArrays :: "int list \<Rightarrow> int list \<Rightarrow> int" where
  "compareNumberArrays (a # as) (b # bs) = (if a - b \<noteq> 0 then a - b else compareNumberArrays as bs)"
| "compareNumberArrays [] bs = - int (length bs)"
| "compareNumberArrays (a # as) [] = int (length (a # as))"

definition compareDateSpecs :: "date_spec \<Rightarrow> date_spec \<Rightarrow> int" where
  "compareDateSpecs a b =
     or_else (compareNumberArrays (spec_month a) (spec_month b))
       (or_else (compareNumberArrays (spec_dom a) (spec_dom b))
         (compareNumberArrays (spec_dow a) (spec_dow b)))"

definition head_or_zero :: "int list \<Rightarrow> int" where
  "head_or_zero xs = (case xs of [] \<Rightarrow> 0 | x # _ \<Rightarrow> x)"

text \<open>\<open>compareCronStrings\<close> on two texts that parse.\<close>

definition compareParsedCrons ::
    "(string \<Rightarrow> string \<Rightarrow> int) \<Rightarrow> string \<times> parsed_cron \<Rightarrow> string \<times> parsed_cron \<Rightarrow> int" where
  "compareParsedCrons localeCompare a b =
     (let pa = snd a; pb = snd b in
      or_else (head_or_zero (field_values (cron_hour pa)) - head_or_zero (field_values (cron_hour pb)))
      (or_else (head_or_zero (field_values (cron_minute pa)) - head_or_zero (field_values (cron_minute pb)))
      (or_else (compareNumberArrays (field_values (cron_month pa)) (field_values (cron_month pb)))
      (or_else (compareNumberArrays (field_values (cron_dayOfMonth pa)) (field_values (cron_dayOfMonth pb)))
      (or_else (compareNumberArrays (field_values (cron_dayOfWeek pa)) (field_values (cron_dayOfWeek pb)))
        (localeCompare (fst a) (fst b)))))))"

fun parse_all :: "string list \<Rightarrow> (string \<times> parsed_cron) list cron_result" where
  "parse_all [] = Inr []"
| "parse_all (s # ss) =
     (case parseCron s of Inl e \<Rightarrow> Inl e | Inr c \<Rightarrow>
        (case parse_all ss of Inl e \<Rightarrow> Inl e | Inr cs \<Rightarrow> Inr ((s, c) # cs)))"

text \<open>
  \<open>[...output].sort(compareCronStrings)\<close>: the comparator parses its arguments and throws where
  that fails; with fewer than two elements it is never called.
\<close>

definition sortCronStrings :: "(string \<Rightarrow> string \<Rightarrow> int) \<Rightarrow> string list \<Rightarrow> string list cron_result" where
  "sortCronStrings localeCompare output =
     (if length output < 2 then Inr output
      else (case parse_all output of
              Inl e \<Rightarrow> Inl e
            | Inr parsed \<Rightarrow> Inr (map fst (js_sort (compareParsedCrons localeCompare) parsed))))"

section \<open>Regrouping\<close>

text \<open>
  The pattern of all four tables: read the bucket of a key, create it when it is absent, change it
  in place.
\<close>

definition upsert :: "'k \<Rightarrow> 'b \<Rightarrow> ('b \<Rightarrow> 'b) \<Rightarrow> ('k, 'b) jsmap \<Rightarrow> ('k, 'b) jsmap" where
  "upsert k new f m = jm_set k (f (case jm_get m k of None \<Rightarrow> new | Some b \<Rightarrow> b)) m"

fun daysByMonth :: "string list \<Rightarrow> (int, int list) jsmap \<Rightarrow> (int, int list) jsmap cron_result" where
  "daysByMonth [] m = Inr m"
| "daysByMonth (pair # pairs) m =
     (case parsePairKey pair of
        Inl e \<Rightarrow> Inl e
      | Inr (mo, d) \<Rightarrow> daysByMonth pairs (upsert mo [] (set_add d) m))"

definition month_dom :: "int \<Rightarrow> int list \<Rightarrow> int list" where
  "month_dom mo days =
     (let sorted = js_sort num_diff days in
      if sorted = allPossibleValidDaysForMonth mo then FULL_DOM else sorted)"

text \<open>
  The two inner groupings of the code have one shape: items with an equal value list share a
  bucket, keyed by the list's text, that collects their first components in order.
\<close>

definition group_items :: "('x \<times> 'y \<Rightarrow> int list) \<Rightarrow> ('x \<times> 'y) list \<Rightarrow> (string, int list \<times> 'x list) jsmap" where
  "group_items val items = foldl (\<lambda>groups item.
     upsert (join_numbers (val item)) (val item, []) (map_prod (\<lambda>v. v) (\<lambda>xs. xs @ [fst item])) groups) [] items"

definition monthsByDomSet :: "(int, int list) jsmap \<Rightarrow> (string, int list \<times> int list) jsmap" where
  "monthsByDomSet m = group_items (\<lambda>(mo, days). month_dom mo days) m"

definition groupMonthDayPairs :: "string list \<Rightarrow> date_spec list cron_result" where
  "groupMonthDayPairs pairs =
     (case daysByMonth pairs [] of
        Inl e \<Rightarrow> Inl e
      | Inr m \<Rightarrow> Inr (js_sort compareDateSpecs
          (map (\<lambda>(k, (ds, months)). \<lparr> spec_dom = ds, spec_month = js_sort num_diff months, spec_dow = FULL_DOW \<rparr>)
            (monthsByDomSet m))))"

definition compare_times :: "int list \<times> int list \<Rightarrow> int list \<times> int list \<Rightarrow> int" where
  "compare_times a b = or_else (head_or_zero (fst a) - head_or_zero (fst b)) (head_or_zero (snd a) - head_or_zero (snd b))"

definition hoursByMinuteSet :: "(int, int list) jsmap \<Rightarrow> (string, int list \<times> int list) jsmap" where
  "hoursByMinuteSet pairs = group_items (\<lambda>(h, minutes). js_sort num_diff minutes) pairs"

text \<open>The pairs are (hours, minutes).\<close>

definition compactTimePairs :: "(int, int list) jsmap \<Rightarrow> (int list \<times> int list) list" where
  "compactTimePairs pairs =
     js_sort compare_times (map (\<lambda>(k, (minutes, hours)). (js_sort num_diff hours, minutes)) (hoursByMinuteSet pairs))"

section \<open>Dates\<close>

definition shiftDayOfWeekSet :: "int list \<Rightarrow> int \<Rightarrow> int list" where
  "shiftDayOfWeekSet vs dayDelta = uniqueSorted (map (\<lambda>v. js_mod (v + dayDelta) 7) vs)"

definition target_of :: "int \<Rightarrow> int \<Rightarrow> int \<Rightarrow> int \<Rightarrow> string" where
  "target_of year dayDelta mo d =
     (case utc_date year mo (d + dayDelta) of (y, m, d') \<Rightarrow> pairKey m d')"

definition targetMonthDayPairsForYear :: "int \<Rightarrow> int list \<Rightarrow> int list \<Rightarrow> int \<Rightarrow> string list" where
  "targetMonthDayPairsForYear year months daysOfMonth dayDelta =
     js_set (concat (map (\<lambda>mo. map (target_of year dayDelta mo) (filter (isValidDate year mo) daysOfMonth)) months))"

fun check_representable :: "string list \<Rightarrow> string list \<Rightarrow> string list \<Rightarrow> unit cron_result" where
  "check_representable commonTargets leapTargets [] = Inr ()"
| "check_representable commonTargets leapTargets (pair # pairs) =
     (case parsePairKey pair of
        Inl e \<Rightarrow> Inl e
      | Inr (mo, d) \<Rightarrow>
          (if isValidDate 2021 mo d \<and> (pair \<in> set commonTargets) \<noteq> (pair \<in> set leapTargets)
           then Inl (LeapYearDependent mo d)
           else check_representable commonTargets leapTargets pairs))"

definition convertMonthDayPairs :: "int list \<Rightarrow> int list \<Rightarrow> int \<Rightarrow> bool \<Rightarrow> date_spec list cron_result" where
  "convertMonthDayPairs months daysOfMonth dayDelta strict =
     (let commonTargets = targetMonthDayPairsForYear 2021 months daysOfMonth dayDelta;
          leapTargets = targetMonthDayPairsForYear 2020 months daysOfMonth dayDelta;
          union = js_set (commonTargets @ leapTargets) in
      case (if strict then check_representable commonTargets leapTargets union else Inr ()) of
        Inl e \<Rightarrow> Inl e
      | Inr u \<Rightarrow> groupMonthDayPairs union)"

definition convertDateSpec :: "parsed_cron \<Rightarrow> int \<Rightarrow> bool \<Rightarrow> date_spec list cron_result" where
  "convertDateSpec cron dayDelta strict =
     (let ds = field_values (cron_dayOfMonth cron);
          months = field_values (cron_month cron);
          dows = field_values (cron_dayOfWeek cron);
          domWildcard = field_wildcard (cron_dayOfMonth cron);
          monthWildcard = field_wildcard (cron_month cron);
          dowWildcard = field_wildcard (cron_dayOfWeek cron) in
      if dayDelta = 0 then Inr [\<lparr> spec_dom = ds, spec_month = months, spec_dow = dows \<rparr>]
      else if \<not> domWildcard \<and> \<not> dowWildcard then
        (if strict then Inl DomAndDowRestricted
         else Inr [\<lparr> spec_dom = ds, spec_month = months, spec_dow = shiftDayOfWeekSet dows dayDelta \<rparr>])
      else if \<not> dowWildcard then
        (if \<not> monthWildcard \<and> strict then Inl MonthRestrictedDow
         else Inr [\<lparr> spec_dom = FULL_DOM, spec_month = FULL_MONTHS, spec_dow = shiftDayOfWeekSet dows dayDelta \<rparr>])
      else convertMonthDayPairs months ds dayDelta strict)"

section \<open>The conversion\<close>

type_synonym spec_table = "(string, date_spec \<times> (int, int list) jsmap) jsmap"

definition add_time :: "int \<Rightarrow> int \<Rightarrow> date_spec \<Rightarrow> spec_table \<Rightarrow> spec_table" where
  "add_time h mi spec m =
     upsert (dateSpecKey spec) (spec, []) (map_prod (\<lambda>s. s) (upsert h [] (set_add mi))) m"

fun add_times :: "parsed_cron \<Rightarrow> int \<Rightarrow> bool \<Rightarrow> (int \<times> int) list \<Rightarrow> spec_table \<Rightarrow> spec_table cron_result" where
  "add_times cron offsetMinutes strict [] m = Inr m"
| "add_times cron offsetMinutes strict ((localHour, localMinute) # slots) m =
     (case shiftLocalTimeToUtc localHour localMinute offsetMinutes of (h, mi, dayDelta) \<Rightarrow>
       (case convertDateSpec cron dayDelta strict of
          Inl e \<Rightarrow> Inl e
        | Inr specs \<Rightarrow>
            add_times cron offsetMinutes strict slots (foldl (\<lambda>m spec. add_time h mi spec m) m specs)))"

definition bucket_lines :: "date_spec \<times> (int, int list) jsmap \<Rightarrow> string list" where
  "bucket_lines bucket =
     map (\<lambda>(hours, minutes). five_fields minutes hours (spec_dom (fst bucket)) (spec_month (fst bucket)) (spec_dow (fst bucket)))
       (compactTimePairs (snd bucket))"

definition cronToUtc ::
    "(string \<Rightarrow> string \<Rightarrow> int) \<Rightarrow> string \<Rightarrow> rat option \<Rightarrow> bool option \<Rightarrow> string list cron_result" where
  "cronToUtc localeCompare expression offset strictOption =
     (case offset of
        None \<Rightarrow> Inl OffsetNotInteger
      | Some q \<Rightarrow>
          (if rat_of_int \<lfloor>q\<rfloor> \<noteq> q then Inl OffsetNotInteger
           else (let offsetMinutes = \<lfloor>q\<rfloor> in
             if offsetMinutes \<le> - 1440 \<or> 1440 \<le> offsetMinutes then Inl OffsetOutsideRange
             else (let strict = (case strictOption of None \<Rightarrow> True | Some b \<Rightarrow> b) in
               case parseCron expression of
                 Inl e \<Rightarrow> Inl e
               | Inr cron \<Rightarrow>
                   (case add_times cron offsetMinutes strict
                       [(h, mi). h \<leftarrow> field_values (cron_hour cron), mi \<leftarrow> field_values (cron_minute cron)] [] of
                      Inl e \<Rightarrow> Inl e
                    | Inr pairsByDateSpec \<Rightarrow>
                        sortCronStrings localeCompare
                          (js_set (concat (map (\<lambda>(k, b). bucket_lines b) pairsByDateSpec))))))))"

section \<open>Facts about the shift\<close>

lemma js_rem_nonneg: "0 \<le> a \<Longrightarrow> 0 < b \<Longrightarrow> js_rem a b = a mod b"
  by (cases "a = 0") (auto simp: js_rem_def)

lemma js_mod_eq:
  assumes "0 < b"
  shows "js_mod v b = v mod b"
proof -
  have "js_rem v b + b \<ge> 0"
  proof (cases "0 \<le> v")
    case False
    then have "js_rem v b = - ((- v) mod b)" using assms by (simp add: js_rem_def)
    moreover have "(- v) mod b < b" using assms by (rule pos_mod_bound)
    ultimately show ?thesis by linarith
  qed (use assms in \<open>simp add: js_rem_nonneg\<close>)
  moreover have "(js_rem v b + b) mod b = v mod b"
  proof (cases "0 \<le> v")
    case False
    then have "js_rem v b = - ((- v) mod b)" using assms by (simp add: js_rem_def)
    then show ?thesis by (simp add: mod_minus_eq)
  qed (use assms in \<open>simp add: js_rem_nonneg\<close>)
  ultimately show ?thesis using assms unfolding js_mod_def by (simp add: js_rem_nonneg)
qed

lemma shift_eq:
  "shiftLocalTimeToUtc h mi off =
   (let t = h * 60 + mi - off in (t mod 1440 div 60, t mod 1440 mod 60, t div 1440))"
  by (simp add: shiftLocalTimeToUtc_def Let_def floorDiv_def js_mod_eq js_rem_nonneg)

text \<open>The shift, of a time of day: a time of day, at most one day away, from which it comes alone.\<close>

lemma shift_range:
  assumes "0 \<le> h" "h < 24" "0 \<le> mi" "mi < 60" "- 1440 < off" "off < 1440"
    and "shiftLocalTimeToUtc h mi off = (h', mi', \<delta>)"
  shows "0 \<le> h' \<and> h' < 24 \<and> 0 \<le> mi' \<and> mi' < 60 \<and> \<delta> \<in> {- 1, 0, 1} \<and>
    h * 60 + mi - off = \<delta> * 1440 + h' * 60 + mi'"
proof -
  let ?t = "h * 60 + mi - off"
  have e: "h' = ?t mod 1440 div 60" "mi' = ?t mod 1440 mod 60" "\<delta> = ?t div 1440"
    using assms(7) by (auto simp: shift_eq Let_def)
  have r: "- 1440 < ?t" "?t < 2880" using assms by linarith+
  have "- 1 \<le> ?t div 1440" "?t div 1440 \<le> 1" using r by linarith+
  then have d: "\<delta> \<in> {- 1, 0, 1}" unfolding e(3) by auto
  have m: "0 \<le> ?t mod 1440" "?t mod 1440 < 1440" by simp_all
  have hm: "0 \<le> h'" "h' < 24" "0 \<le> mi'" "mi' < 60" unfolding e using m by linarith+
  have eq1: "?t = \<delta> * 1440 + ?t mod 1440" unfolding e(3) by (simp add: div_mult_mod_eq)
  have eq2: "?t mod 1440 = h' * 60 + mi'" unfolding e(1,2) by (simp only: div_mult_mod_eq)
  have "?t = \<delta> * 1440 + h' * 60 + mi'" using eq1 eq2 by linarith
  then show ?thesis using d hm by blast
qed

lemma shift_unique:
  assumes "0 \<le> h1" "h1 < 24" "0 \<le> m1" "m1 < 60" "0 \<le> h2" "h2 < 24" "0 \<le> m2" "m2 < 60"
    and off: "- 1440 < off" "off < 1440"
    and s1: "shiftLocalTimeToUtc h1 m1 off = (h', mi', \<delta>1)" and s2: "shiftLocalTimeToUtc h2 m2 off = (h', mi', \<delta>2)"
  shows "h1 = h2 \<and> m1 = m2 \<and> \<delta>1 = \<delta>2"
proof -
  have e1: "h1 * 60 + m1 - off = \<delta>1 * 1440 + h' * 60 + mi'" using shift_range [OF assms(1-4) off s1] by blast
  have e2: "h2 * 60 + m2 - off = \<delta>2 * 1440 + h' * 60 + mi'" using shift_range [OF assms(5-8) off s2] by blast
  have d: "(h1 * 60 + m1) - (h2 * 60 + m2) = (\<delta>1 - \<delta>2) * 1440" using e1 e2 by (simp add: algebra_simps)
  moreover have "\<bar>(h1 * 60 + m1) - (h2 * 60 + m2)\<bar> < 1440" using assms(1-8) by linarith
  moreover have "\<delta>1 \<in> {- 1, 0, 1}" "\<delta>2 \<in> {- 1, 0, 1}"
    using shift_range [OF assms(1-4) off s1] shift_range [OF assms(5-8) off s2] by blast+
  ultimately have "\<delta>1 = \<delta>2" by auto
  then have "h1 * 60 + m1 = h2 * 60 + m2" using d by simp
  then have "(h1 * 60 + m1) div 60 = (h2 * 60 + m2) div 60" by (rule arg_cong)
  then have "h1 = h2" using assms(1-8) by simp
  then show ?thesis using \<open>\<delta>1 = \<delta>2\<close> d by simp
qed

section \<open>Facts about dates\<close>

definition valid_md :: "bool \<Rightarrow> int \<Rightarrow> int \<Rightarrow> bool" where
  "valid_md leap m d \<longleftrightarrow> 1 \<le> m \<and> m \<le> 12 \<and> 1 \<le> d \<and> d \<le> month_days leap m"

text \<open>The month and day of the next or previous date, which depends on the year's length only.\<close>

definition md_shift :: "bool \<Rightarrow> int \<Rightarrow> int \<Rightarrow> int \<Rightarrow> int \<times> int" where
  "md_shift leap \<delta> m d =
     (if \<delta> = 1 then
        (if d = month_days leap m then (if m = 12 then (1, 1) else (m + 1, 1)) else (m, d + 1))
      else
        (if d = 1 then (if m = 1 then (12, 31) else (m - 1, month_days leap (m - 1))) else (m, d - 1)))"

lemma month_days_range: "28 \<le> month_days leap m \<and> month_days leap m \<le> 31"
  by (simp add: month_days_def)

lemma month_days_ends [simp]: "month_days leap 1 = 31" "month_days leap 12 = 31"
  by (simp_all add: month_days_def)

lemma utc_date_valid: "valid_md (is_leap y) m d \<Longrightarrow> utc_date y m d = (y, m, d)"
  by (subst utc_date.simps) (simp add: valid_md_def)

lemma utc_date_shift:
  assumes "valid_md (is_leap y) m d" and "\<delta> \<in> {- 1, 1}"
  shows "snd (utc_date y m (d + \<delta>)) = md_shift (is_leap y) \<delta> m d"
proof (cases "\<delta> = 1")
  case True
  show ?thesis
  proof (cases "d = month_days (is_leap y) m")
    case True
    then have "utc_date y m (d + 1) = utc_date (if m = 12 then y + 1 else y) (if m = 12 then 1 else m + 1) 1"
      using assms(1) by (subst utc_date.simps) (simp add: valid_md_def)
    moreover have "valid_md leap (if m = 12 then 1 else m + 1) 1" for leap
      using assms(1) month_days_range [of leap "if m = 12 then 1 else m + 1"] by (auto simp: valid_md_def)
    ultimately show ?thesis using \<open>\<delta> = 1\<close> True by (simp add: utc_date_valid md_shift_def)
  next
    case False
    then have "valid_md (is_leap y) m (d + 1)" using assms(1) by (simp add: valid_md_def)
    then show ?thesis using \<open>\<delta> = 1\<close> False by (simp add: utc_date_valid md_shift_def)
  qed
next
  case False
  then have \<delta>: "\<delta> = - 1" using assms(2) by simp
  show ?thesis
  proof (cases "d = 1")
    case True
    let ?y = "if m = 1 then y - 1 else y" and ?m = "if m = 1 then 12 else m - 1"
    have "utc_date y m 0 = utc_date ?y ?m (month_days (is_leap ?y) ?m)"
      using assms(1) by (subst utc_date.simps) (simp add: valid_md_def Let_def)
    moreover have "valid_md (is_leap ?y) ?m (month_days (is_leap ?y) ?m)"
      using assms(1) month_days_range [of "is_leap ?y" ?m] by (auto simp: valid_md_def)
    ultimately show ?thesis using \<delta> True by (simp add: utc_date_valid md_shift_def)
  next
    case False
    then have "valid_md (is_leap y) m (d - 1)" using assms(1) by (simp add: valid_md_def)
    then show ?thesis using \<delta> False by (simp add: utc_date_valid md_shift_def)
  qed
qed

lemma isValidDate_iff:
  assumes "1 \<le> m" "m \<le> 12" "1 \<le> d" "d \<le> 31"
  shows "isValidDate y m d \<longleftrightarrow> valid_md (is_leap y) m d"
proof (cases "d \<le> month_days (is_leap y) m")
  case True
  then have "valid_md (is_leap y) m d" using assms by (simp add: valid_md_def)
  then show ?thesis by (simp add: isValidDate_def utc_date_valid)
next
  case False
  let ?y = "if m = 12 then y + 1 else y" and ?m = "if m = 12 then 1 else m + 1"
  let ?d = "d - month_days (is_leap y) m"
  have "utc_date y m d = utc_date ?y ?m ?d" using False assms by (subst utc_date.simps) simp
  moreover have "valid_md (is_leap ?y) ?m ?d"
    using False assms month_days_range [of "is_leap y" m] month_days_range [of "is_leap ?y" ?m]
    unfolding valid_md_def by (auto split: if_splits)
  ultimately have "utc_date y m d = (?y, ?m, ?d)" by (simp only: utc_date_valid)
  then have "\<not> isValidDate y m d" by (simp add: isValidDate_def)
  then show ?thesis using False by (simp add: valid_md_def)
qed

lemma md_shift_valid: "valid_md leap m d \<Longrightarrow> \<delta> \<in> {- 1, 1} \<Longrightarrow> md_shift leap \<delta> m d = (m', d') \<Longrightarrow> valid_md leap m' d'"
  using month_days_range [of leap "m + 1"] month_days_range [of leap "m - 1"] month_days_range [of leap m]
  by (auto simp: valid_md_def md_shift_def split: if_splits)

lemma md_shift_back:
  assumes "valid_md leap m d" and "\<delta> \<in> {- 1, 1}"
  shows "(case md_shift leap \<delta> m d of (m', d') \<Rightarrow> md_shift leap (- \<delta>) m' d') = (m, d)"
proof -
  have v: "1 \<le> m" "m \<le> 12" "1 \<le> d" "d \<le> month_days leap m" using assms(1) by (auto simp: valid_md_def)
  have md: "month_days leap m \<noteq> 1" for leap m using month_days_range [of leap m] by linarith
  show ?thesis
  proof (cases "\<delta> = 1")
    case True
    then show ?thesis using v by (cases "d = month_days leap m"; cases "m = 12") (simp_all add: md_shift_def)
  next
    case False
    then have "\<delta> = - 1" using assms(2) by simp
    then show ?thesis using v md by (cases "d = 1"; cases "m = 1") (simp_all add: md_shift_def)
  qed
qed

lemma md_shift_inj:
  assumes "valid_md leap m1 d1" "valid_md leap m2 d2" "\<delta> \<in> {- 1, 1}" "md_shift leap \<delta> m1 d1 = md_shift leap \<delta> m2 d2"
  shows "m1 = m2 \<and> d1 = d2"
  using md_shift_back [OF assms(1,3)] md_shift_back [OF assms(2,3)] unfolding assms(4)
  by (metis Pair_inject)

section \<open>Facts about keys and tables\<close>

definition nonneg_list :: "int list \<Rightarrow> bool" where
  "nonneg_list xs \<longleftrightarrow> xs \<noteq> [] \<and> set xs \<subseteq> {0..}"

lemma show_int_inject: "0 \<le> a \<Longrightarrow> 0 \<le> b \<Longrightarrow> show_int a = show_int b \<longleftrightarrow> a = b"
  by (simp add: show_int_def eq_nat_nat_iff)

lemma pairKey_parse: "0 \<le> m \<Longrightarrow> 0 \<le> d \<Longrightarrow> parsePairKey (pairKey m d) = Inr (m, d)"
  using show_int_chars(2) [of m "CHR ''/''"] show_int_chars(2) [of d "CHR ''/''"]
  by (simp add: parsePairKey_def pairKey_def split_char_append_sep split_char_no_sep) (simp add: show_int_def)

lemma pairKey_inject:
  "0 \<le> m \<Longrightarrow> 0 \<le> d \<Longrightarrow> 0 \<le> m' \<Longrightarrow> 0 \<le> d' \<Longrightarrow> pairKey m d = pairKey m' d' \<longleftrightarrow> m = m' \<and> d = d'"
  by (metis pairKey_parse Inr_inject Pair_inject)

lemma join_numbers_split: "nonneg_list xs \<Longrightarrow> split_char CHR '','' (join_numbers xs) = map show_int xs"
  unfolding join_numbers_def nonneg_list_def
proof (intro split_join)
  assume xs: "xs \<noteq> [] \<and> set xs \<subseteq> {0..}"
  show "map show_int xs \<noteq> []" using xs by simp
  fix t
  assume "t \<in> set (map show_int xs)"
  then obtain x where "x \<in> set xs" "t = show_int x" by auto
  moreover have "0 \<le> x" using xs \<open>x \<in> set xs\<close> by auto
  ultimately show "CHR '','' \<notin> set t" using show_int_chars(2) [of x] by simp
qed

lemma join_numbers_inject:
  assumes "nonneg_list xs" "nonneg_list ys" "join_numbers xs = join_numbers ys"
  shows "xs = ys"
proof -
  have "map show_int xs = map show_int ys" using assms join_numbers_split by metis
  moreover have "inj_on show_int (set xs \<union> set ys)"
  proof (rule inj_onI)
    fix x y
    assume "x \<in> set xs \<union> set ys" "y \<in> set xs \<union> set ys" and eq: "show_int x = show_int y"
    then have "0 \<le> x" "0 \<le> y" using assms by (auto simp: nonneg_list_def)
    then show "x = y" using eq show_int_inject by blast
  qed
  ultimately show ?thesis by (simp add: inj_on_map_eq_map)
qed

lemma js_join_chars: "c \<in> set (js_join sep ts) \<Longrightarrow> c \<in> set sep \<or> (\<exists>t \<in> set ts. c \<in> set t)"
  by (induction sep ts rule: js_join.induct) auto

lemma join_numbers_no_bar: "nonneg_list xs \<Longrightarrow> CHR ''|'' \<notin> set (join_numbers xs)"
proof
  assume xs: "nonneg_list xs" and "CHR ''|'' \<in> set (join_numbers xs)"
  then obtain x where "x \<in> set xs" "CHR ''|'' \<in> set (show_int x)"
    by (auto simp: join_numbers_def dest!: js_join_chars)
  moreover have "0 \<le> x" using xs \<open>x \<in> set xs\<close> by (auto simp: nonneg_list_def)
  ultimately show False using show_int_chars(2) [of x "CHR ''|''"] by (simp add: is_digit_def)
qed

definition spec_ok :: "date_spec \<Rightarrow> bool" where
  "spec_ok s \<longleftrightarrow> field_list DayOfMonthField (spec_dom s) \<and> field_list MonthField (spec_month s) \<and>
     field_list DayOfWeekField (spec_dow s)"

lemma full_of_nonneg: "set (full_of name) \<subseteq> {0..}"
  by (cases name) (auto simp: full_of_def full_defs)

lemma field_list_nonneg: "field_list name xs \<Longrightarrow> nonneg_list xs"
  using full_of_nonneg [of name] by (auto simp: field_list_def nonneg_list_def)

lemma dateSpecKey_inject:
  assumes "spec_ok s" "spec_ok t" "dateSpecKey s = dateSpecKey t"
  shows "s = t"
proof -
  have n: "nonneg_list (spec_dom s)" "nonneg_list (spec_month s)" "nonneg_list (spec_dow s)"
    "nonneg_list (spec_dom t)" "nonneg_list (spec_month t)" "nonneg_list (spec_dow t)"
    using assms(1,2) unfolding spec_ok_def by (auto dest: field_list_nonneg)
  have "split_char CHR ''|'' (dateSpecKey u) = [join_numbers (spec_dom u), join_numbers (spec_month u), join_numbers (spec_dow u)]"
    if "nonneg_list (spec_dom u)" "nonneg_list (spec_month u)" "nonneg_list (spec_dow u)" for u
    using that by (simp add: dateSpecKey_def join_numbers_no_bar split_char_append_sep split_char_no_sep)
  then have "join_numbers (spec_dom s) = join_numbers (spec_dom t)"
    "join_numbers (spec_month s) = join_numbers (spec_month t)" "join_numbers (spec_dow s) = join_numbers (spec_dow t)"
    using n assms(3) by (metis list.inject)+
  then show ?thesis using n join_numbers_inject by (intro date_spec.equality) auto
qed

lemma jm_wf_upsert: "jm_wf m \<Longrightarrow> jm_wf (upsert k new f m)"
  unfolding upsert_def by (rule jm.wf_put)

lemma upsert_lookup:
  "map_of (upsert k new f m) j = (if j = k then Some (f (case map_of m k of None \<Rightarrow> new | Some b \<Rightarrow> b)) else map_of m j)"
  by (simp add: upsert_def jm_lookup_update)

lemma wf_entry: "jm_wf m \<Longrightarrow> (k, v) \<in> set m \<longleftrightarrow> map_of m k = Some v"
  by (simp add: jm_wf_def)

definition table_has :: "('k, 'a list) jsmap \<Rightarrow> 'k \<Rightarrow> 'a \<Rightarrow> bool" where
  "table_has m k x \<longleftrightarrow> (\<exists>xs. map_of m k = Some xs \<and> x \<in> set xs)"

definition table_ok :: "('k, 'a list) jsmap \<Rightarrow> bool" where
  "table_ok m \<longleftrightarrow> jm_wf m \<and> (\<forall>k xs. map_of m k = Some xs \<longrightarrow> xs \<noteq> [] \<and> distinct xs)"

lemma table_Nil [simp]: "table_ok []" "\<not> table_has [] k x"
  by (simp_all add: table_ok_def table_has_def jm_wf_def)

lemma table_upsert:
  assumes "table_ok m"
  shows "table_ok (upsert k [] (set_add x) m)"
    and "table_has (upsert k [] (set_add x) m) k' x' \<longleftrightarrow> (k' = k \<and> x' = x) \<or> table_has m k' x'"
  using assms by (auto simp: table_ok_def table_has_def jm_wf_upsert upsert_lookup set_add_def split: option.splits)

lemma table_entry: "table_ok m \<Longrightarrow> map_of m k = Some xs \<Longrightarrow> xs \<noteq> [] \<and> distinct xs"
  unfolding table_ok_def by blast

lemma table_wf: "table_ok m \<Longrightarrow> jm_wf m"
  by (simp add: table_ok_def)

lemma group_items_lookup:
  "jm_wf (group_items val items) \<and>
   map_of (group_items val items) k =
     (let same = filter (\<lambda>i. join_numbers (val i) = k) items in
      if same = [] then None else Some (val (hd same), map fst same))"
proof (induction items arbitrary: k rule: rev_induct)
  case (snoc i items)
  have "group_items val (items @ [i]) =
    upsert (join_numbers (val i)) (val i, []) (map_prod (\<lambda>v. v) (\<lambda>xs. xs @ [fst i])) (group_items val items)"
    by (simp add: group_items_def)
  then show ?case using snoc by (simp add: jm_wf_upsert upsert_lookup Let_def)
qed (simp add: group_items_def jm_wf_def)

text \<open>What the buckets hold: the pairs of a value of the list and a collected component.\<close>

lemma group_items_content:
  assumes "\<And>i. i \<in> set items \<Longrightarrow> nonneg_list (val i)"
  shows "(\<exists>k. (k, (v, xs)) \<in> set (group_items val items)) \<longleftrightarrow>
    xs \<noteq> [] \<and> xs = map fst (filter (\<lambda>i. val i = v) items)"
proof -
  let ?g = "group_items val items"
  let ?same = "\<lambda>k. filter (\<lambda>i. join_numbers (val i) = k) items"
  have wf: "jm_wf ?g" using group_items_lookup by blast
  have same: "?same (join_numbers (val j)) = filter (\<lambda>i. val i = val j) items" if "j \<in> set items" for j
  proof (rule filter_cong [OF refl])
    fix i
    assume "i \<in> set items"
    then show "(join_numbers (val i) = join_numbers (val j)) = (val i = val j)"
      using join_numbers_inject [OF assms [of i] assms [OF that]] by auto
  qed
  note look = group_items_lookup [of val items, THEN conjunct2, unfolded Let_def]
  show ?thesis unfolding wf_entry [OF wf]
  proof
    assume "\<exists>k. map_of ?g k = Some (v, xs)"
    then obtain k where k: "map_of ?g k = Some (v, xs)" by (elim exE)
    have ne: "?same k \<noteq> []" using k unfolding look [of k] by (cases "?same k = []") simp_all
    then have v: "v = val (hd (?same k))" and xs: "xs = map fst (?same k)"
      using k unfolding look [of k] by simp_all
    have "hd (?same k) \<in> set (?same k)" using ne by (rule hd_in_set)
    then have j: "hd (?same k) \<in> set items" "k = join_numbers (val (hd (?same k)))"
      unfolding set_filter by simp_all
    have "?same k = filter (\<lambda>i. val i = v) items" unfolding v using same [OF j(1)] j(2) by simp
    then show "xs \<noteq> [] \<and> xs = map fst (filter (\<lambda>i. val i = v) items)" using ne xs by simp
  next
    assume r: "xs \<noteq> [] \<and> xs = map fst (filter (\<lambda>i. val i = v) items)"
    let ?f = "filter (\<lambda>i. val i = v) items"
    have ne: "?f \<noteq> []" using r by auto
    have "hd ?f \<in> set ?f" using ne by (rule hd_in_set)
    then have j: "hd ?f \<in> set items" "val (hd ?f) = v" unfolding set_filter by simp_all
    have s: "?same (join_numbers v) = ?f" using same [OF j(1)] unfolding j(2) .
    have "map_of ?g (join_numbers v) = Some (v, xs)"
      unfolding look [of "join_numbers v"] s using ne j(2) r by simp
    then show "\<exists>k. map_of ?g k = Some (v, xs)" by (rule exI)
  qed
qed

section \<open>The regroupings lose nothing\<close>

lemma group_items_has:
  assumes "\<And>i. i \<in> set items \<Longrightarrow> nonneg_list (val i)"
  shows "(\<exists>k v xs. (k, (v, xs)) \<in> set (group_items val items) \<and> x \<in> set xs \<and> y \<in> set v) \<longleftrightarrow>
    (\<exists>i \<in> set items. fst i = x \<and> y \<in> set (val i))"
proof
  assume "\<exists>k v xs. (k, (v, xs)) \<in> set (group_items val items) \<and> x \<in> set xs \<and> y \<in> set v"
  then obtain k v xs where g: "(k, (v, xs)) \<in> set (group_items val items)" and x: "x \<in> set xs" and y: "y \<in> set v"
    by (elim exE conjE)
  then have "xs = map fst (filter (\<lambda>i. val i = v) items)" using group_items_content [of items val v xs] assms by blast
  with x y show "\<exists>i \<in> set items. fst i = x \<and> y \<in> set (val i)" by auto
next
  assume "\<exists>i \<in> set items. fst i = x \<and> y \<in> set (val i)"
  then obtain i where i: "i \<in> set items" "fst i = x" "y \<in> set (val i)" by (elim bexE conjE)
  let ?xs = "map fst (filter (\<lambda>j. val j = val i) items)"
  have "x \<in> set ?xs" using i by auto
  moreover from this have "?xs \<noteq> []" by (intro notI) simp
  then have "\<exists>k. (k, (val i, ?xs)) \<in> set (group_items val items)"
    using group_items_content [of items val "val i" ?xs] assms by simp
  ultimately show "\<exists>k v xs. (k, (v, xs)) \<in> set (group_items val items) \<and> x \<in> set xs \<and> y \<in> set v"
    using i(3) by (elim exE) (intro exI conjI)
qed

lemma bex_entries:
  "(\<exists>t \<in> f ` set g. P t) \<longleftrightarrow> (\<exists>k v xs. (k, (v, xs)) \<in> set g \<and> P (f (k, (v, xs))))"
  by auto

lemma bex_first:
  "(\<exists>i \<in> set m. fst i = x \<and> y \<in> set (val i)) \<longleftrightarrow> (\<exists>z. (x, z) \<in> set m \<and> y \<in> set (val (x, z)))"
  by force

lemma filter_witness: "xs \<noteq> [] \<Longrightarrow> xs = map fst (filter P m) \<Longrightarrow> \<exists>i. i \<in> set m \<and> P i"
  by (induction m) (auto split: if_splits)

lemma daysByMonth_pairs:
  assumes "\<forall>(a, b) \<in> set ps. 0 \<le> a \<and> 0 \<le> b" and "table_ok m"
  shows "\<exists>m'. daysByMonth (map (\<lambda>(a, b). pairKey a b) ps) m = Inr m' \<and> table_ok m' \<and>
    (\<forall>k x. table_has m' k x \<longleftrightarrow> (k, x) \<in> set ps \<or> table_has m k x)"
  using assms
proof (induction ps arbitrary: m)
  case (Cons p ps)
  obtain a b where p: "p = (a, b)" by (cases p)
  let ?m = "upsert a [] (set_add b) m"
  have "\<exists>m'. daysByMonth (map (\<lambda>(a, b). pairKey a b) ps) ?m = Inr m' \<and> table_ok m' \<and>
    (\<forall>k x. table_has m' k x \<longleftrightarrow> (k, x) \<in> set ps \<or> table_has ?m k x)"
    using Cons.prems table_upsert(1) by (intro Cons.IH) auto
  moreover have "0 \<le> a" "0 \<le> b" using Cons.prems p by auto
  ultimately show ?case using p table_upsert(2) [OF Cons.prems(2), of a b] by (auto simp: pairKey_parse)
qed simp

lemma set_all_possible: "set (allPossibleValidDaysForMonth mo) = {1..month_days True mo}"
  by (simp add: allPossibleValidDaysForMonth_def month_days_def)

lemma month_dom_set:
  assumes "distinct days" and "set days \<subseteq> {1..month_days True mo}"
  shows "set (month_dom mo days) \<subseteq> {1..31}"
    and "d \<in> {1..month_days True mo} \<Longrightarrow> d \<in> set (month_dom mo days) \<longleftrightarrow> d \<in> set days"
proof -
  let ?s = "js_sort num_diff days"
  have set: "set ?s = set days" by simp
  have r: "month_days True mo \<le> 31" using month_days_range by blast
  show "set (month_dom mo days) \<subseteq> {1..31}"
    using assms(2) r by (auto simp: month_dom_def Let_def FULL_DOM_def)
  show "d \<in> set (month_dom mo days) \<longleftrightarrow> d \<in> set days" if "d \<in> {1..month_days True mo}"
  proof (cases "?s = allPossibleValidDaysForMonth mo")
    case True
    then have "set days = {1..month_days True mo}" using set set_all_possible by metis
    then show ?thesis using True that r by (simp add: month_dom_def FULL_DOM_def)
  qed (simp add: month_dom_def)
qed

lemma month_dom_not_Nil: "days \<noteq> [] \<Longrightarrow> month_dom mo days \<noteq> []"
  using set_js_sort [of num_diff days] by (auto simp: month_dom_def Let_def FULL_DOM_def js_range_def simp del: set_js_sort)

lemma groupMonthDayPairs_correct:
  assumes ps: "\<forall>(mo, d) \<in> set ps. valid_md True mo d"
  shows "\<exists>specs. groupMonthDayPairs (map (\<lambda>(a, b). pairKey a b) ps) = Inr specs \<and>
    (\<forall>s \<in> set specs. spec_ok s \<and> spec_dow s = FULL_DOW) \<and>
    (\<forall>mo d. valid_md True mo d \<longrightarrow>
      ((\<exists>s \<in> set specs. mo \<in> set (spec_month s) \<and> d \<in> set (spec_dom s)) \<longleftrightarrow> (mo, d) \<in> set ps))"
proof -
  obtain m where m: "daysByMonth (map (\<lambda>(a, b). pairKey a b) ps) [] = Inr m" "table_ok m"
    and has: "\<And>k x. table_has m k x \<longleftrightarrow> (k, x) \<in> set ps"
    using daysByMonth_pairs [of ps "[]"] ps by (fastforce simp: valid_md_def)
  define val where "val = (\<lambda>(mo, days). month_dom mo days)"
  have wf: "jm_wf m" using m(2) by (simp add: table_ok_def)
  have entry: "mo \<in> {1..12} \<and> days \<noteq> [] \<and> distinct days \<and> set days \<subseteq> {1..month_days True mo}"
    if "(mo, days) \<in> set m" for mo days
  proof -
    have l: "map_of m mo = Some days" using that unfolding wf_entry [OF wf] .
    have n: "days \<noteq> []" "distinct days" using table_entry [OF m(2) l] by simp_all
    have v: "valid_md True mo d" if "d \<in> set days" for d
    proof -
      have "(mo, d) \<in> set ps" using has [of mo d] l that by (simp add: table_has_def)
      then show ?thesis using ps by blast
    qed
    have "1 \<le> mo" "mo \<le> 12" using v [OF hd_in_set [OF n(1)]] by (simp_all add: valid_md_def)
    moreover have "set days \<subseteq> {1..month_days True mo}" using v by (auto simp: valid_md_def)
    ultimately show ?thesis using n by simp
  qed
  have nonneg: "nonneg_list (val i) \<and> set (val i) \<subseteq> {1..31}" if "i \<in> set m" for i
  proof -
    obtain mo days where i: "i = (mo, days)" by (cases i)
    from entry [of mo days] that i have e: "days \<noteq> []" "distinct days" "set days \<subseteq> {1..month_days True mo}" by auto
    have "set (month_dom mo days) \<subseteq> {1..31}" "month_dom mo days \<noteq> []"
      using month_dom_set(1) [OF e(2,3)] month_dom_not_Nil [OF e(1)] by auto
    then show ?thesis by (auto simp: nonneg_list_def val_def i)
  qed
  note nonneg' = nonneg [THEN conjunct1]
  let ?g = "group_items val m"
  have g_content: "xs \<noteq> [] \<and> xs = map fst (filter (\<lambda>i. val i = v) m)" if "(k, (v, xs)) \<in> set ?g" for k v xs
    by (rule iffD1 [OF group_items_content [OF nonneg'] exI]) (assumption, rule that)
  let ?spec = "\<lambda>(k, (ds, months)). \<lparr> spec_dom = ds, spec_month = js_sort num_diff months, spec_dow = FULL_DOW \<rparr>"
  let ?specs = "js_sort compareDateSpecs (map ?spec ?g)"
  have g: "groupMonthDayPairs (map (\<lambda>(a, b). pairKey a b) ps) = Inr ?specs"
    by (simp add: groupMonthDayPairs_def m(1) monthsByDomSet_def val_def)
  have ok: "spec_ok s \<and> spec_dow s = FULL_DOW" if "s \<in> set ?specs" for s
  proof -
    from that obtain k ds months where s: "(k, (ds, months)) \<in> set ?g"
      "s = \<lparr> spec_dom = ds, spec_month = js_sort num_diff months, spec_dow = FULL_DOW \<rparr>" by auto
    then have months: "months \<noteq> []" "months = map fst (filter (\<lambda>i. val i = ds) m)"
      using g_content [OF s(1)] by blast+
    from filter_witness [OF this] obtain i where i: "i \<in> set m" "val i = ds" by (elim exE conjE)
    have "set months \<subseteq> {1..12}" using months(2) entry by auto
    moreover have "ds \<noteq> []" "set ds \<subseteq> {1..31}" using nonneg [OF i(1)] i(2) by (auto simp: nonneg_list_def)
    moreover have "js_sort num_diff months \<noteq> []" using months(1) set_js_sort [of num_diff months] by (metis set_empty)
    ultimately show ?thesis unfolding s(2)
      by (simp add: spec_ok_def field_list_def full_of_def full_defs) (simp add: js_range_def)
  qed
  have iff: "(\<exists>s \<in> set ?specs. mo \<in> set (spec_month s) \<and> d \<in> set (spec_dom s)) \<longleftrightarrow> (mo, d) \<in> set ps"
    if v: "valid_md True mo d" for mo d
  proof -
    have "(\<exists>s \<in> set ?specs. mo \<in> set (spec_month s) \<and> d \<in> set (spec_dom s)) \<longleftrightarrow>
        (\<exists>k v xs. (k, (v, xs)) \<in> set ?g \<and> mo \<in> set xs \<and> d \<in> set v)"
      unfolding set_js_sort set_map bex_entries by (simp only: split_conv date_spec.simps set_js_sort)
    also have "\<dots> \<longleftrightarrow> (\<exists>i \<in> set m. fst i = mo \<and> d \<in> set (val i))"
      by (rule group_items_has) (rule nonneg')
    also have "\<dots> \<longleftrightarrow> (\<exists>days. (mo, days) \<in> set m \<and> d \<in> set (month_dom mo days))"
      unfolding bex_first val_def split_conv ..
    also have "\<dots> \<longleftrightarrow> (\<exists>days. (mo, days) \<in> set m \<and> d \<in> set days)"
    proof (rule ex_cong1, rule conj_cong [OF refl])
      fix days
      assume "(mo, days) \<in> set m"
      from entry [OF this] show "d \<in> set (month_dom mo days) \<longleftrightarrow> d \<in> set days"
        using v by (intro month_dom_set(2)) (auto simp: valid_md_def)
    qed
    also have "\<dots> \<longleftrightarrow> (mo, d) \<in> set ps" using has [of mo d] unfolding wf_entry [OF wf] table_has_def .
    finally show ?thesis .
  qed
  show ?thesis by (intro exI [of _ ?specs] conjI g ballI ok allI impI iff)
qed

lemma compactTimePairs_correct:
  assumes "table_ok m" and "\<And>h mi. table_has m h mi \<Longrightarrow> 0 \<le> mi"
  shows "((\<exists>(hs, ms) \<in> set (compactTimePairs m). h \<in> set hs \<and> mi \<in> set ms) \<longleftrightarrow> table_has m h mi) \<and>
    (\<forall>(hs, ms) \<in> set (compactTimePairs m). hs \<noteq> [] \<and> ms \<noteq> [])"
proof -
  define val where "val = (\<lambda>(h :: int, minutes). js_sort num_diff minutes)"
  have wf: "jm_wf m" using assms(1) by (simp add: table_ok_def)
  have nonneg: "nonneg_list (val i)" if "i \<in> set m" for i
  proof -
    obtain h' ms where i: "i = (h', ms)" by (cases i)
    have l: "map_of m h' = Some ms" using that unfolding i wf_entry [OF wf] .
    have "ms \<noteq> []" using table_entry [OF assms(1) l] by simp
    then have "js_sort num_diff ms \<noteq> []" using set_js_sort [of num_diff ms] by (metis set_empty)
    moreover have "set ms \<subseteq> {0..}" using assms(2) [of h'] l by (auto simp: table_has_def)
    ultimately show ?thesis by (simp add: nonneg_list_def val_def i)
  qed
  let ?g = "group_items val m"
  have g_content: "xs \<noteq> [] \<and> xs = map fst (filter (\<lambda>i. val i = v) m)" if "(k, (v, xs)) \<in> set ?g" for k v xs
    by (rule iffD1 [OF group_items_content [OF nonneg] exI]) (assumption, rule that)
  have set: "set (compactTimePairs m) = (\<lambda>(k, (minutes, hours)). (js_sort num_diff hours, minutes)) ` set ?g"
    by (simp add: compactTimePairs_def hoursByMinuteSet_def val_def)
  have "(\<exists>(hs, ms) \<in> set (compactTimePairs m). h \<in> set hs \<and> mi \<in> set ms) \<longleftrightarrow>
      (\<exists>k v xs. (k, (v, xs)) \<in> set ?g \<and> h \<in> set xs \<and> mi \<in> set v)"
    unfolding set bex_entries by (simp only: split_conv set_js_sort)
  also have "\<dots> \<longleftrightarrow> (\<exists>i \<in> set m. fst i = h \<and> mi \<in> set (val i))"
    by (rule group_items_has) (rule nonneg)
  also have "\<dots> \<longleftrightarrow> table_has m h mi"
    unfolding bex_first val_def split_conv wf_entry [OF wf] table_has_def set_js_sort ..
  finally have iff: "(\<exists>(hs, ms) \<in> set (compactTimePairs m). h \<in> set hs \<and> mi \<in> set ms) \<longleftrightarrow> table_has m h mi" .
  have "hs \<noteq> [] \<and> ms \<noteq> []" if mem: "(hs, ms) \<in> set (compactTimePairs m)" for hs ms
  proof -
    obtain p where p: "p \<in> set ?g" "(hs, ms) = (case p of (k, (minutes, hours)) \<Rightarrow> (js_sort num_diff hours, minutes))"
      using mem unfolding set image_iff by (rule bexE)
    obtain k minutes hours where "p = (k, (minutes, hours))" by (rule prod_cases3)
    then have g: "(k, (ms, hours)) \<in> set ?g" "hs = js_sort num_diff hours" using p by simp_all
    then have r: "hours \<noteq> []" "hours = map fst (filter (\<lambda>i. val i = ms) m)"
      using g_content [OF g(1)] by blast+
    from filter_witness [OF this] obtain i where "i \<in> set m" "val i = ms" by (elim exE conjE)
    then have "ms \<noteq> []" using nonneg [of i] by (auto simp: nonneg_list_def)
    moreover have "hs \<noteq> []" using g(2) r(1) set_js_sort [of num_diff hours] by (metis set_empty)
    ultimately show ?thesis by blast
  qed
  then have "\<forall>(hs, ms) \<in> set (compactTimePairs m). hs \<noteq> [] \<and> ms \<noteq> []" by auto
  with iff show ?thesis by (rule conjI)
qed

section \<open>The shifted dates\<close>

definition targets :: "bool \<Rightarrow> int list \<Rightarrow> int list \<Rightarrow> int \<Rightarrow> (int \<times> int) set" where
  "targets leap months days \<delta> =
     {md_shift leap \<delta> mo d | mo d. mo \<in> set months \<and> d \<in> set days \<and> valid_md leap mo d}"

lemma targets_valid: "\<delta> \<in> {- 1, 1} \<Longrightarrow> (m, d) \<in> targets leap months days \<delta> \<Longrightarrow> valid_md leap m d"
  unfolding targets_def by (auto intro: md_shift_valid dest: sym)

lemma valid_md_leap: "valid_md leap m d \<Longrightarrow> valid_md True m d"
  by (auto simp: valid_md_def month_days_def split: if_splits)

lemma valid_md_nonneg: "valid_md leap m d \<Longrightarrow> 0 \<le> m \<and> 0 \<le> d"
  by (simp add: valid_md_def)

lemma targets_shift:
  assumes "\<delta> \<in> {- 1, 1}" "valid_md leap mo d"
  shows "md_shift leap \<delta> mo d \<in> targets leap months days \<delta> \<longleftrightarrow> mo \<in> set months \<and> d \<in> set days"
proof
  assume "md_shift leap \<delta> mo d \<in> targets leap months days \<delta>"
  then obtain mo' d' where t: "md_shift leap \<delta> mo d = md_shift leap \<delta> mo' d'" "mo' \<in> set months" "d' \<in> set days"
    "valid_md leap mo' d'" unfolding targets_def by blast
  then show "mo \<in> set months \<and> d \<in> set days" using md_shift_inj [OF assms(2) t(4) assms(1) t(1)] by simp
next
  assume "mo \<in> set months \<and> d \<in> set days"
  then show "md_shift leap \<delta> mo d \<in> targets leap months days \<delta>" using assms(2) unfolding targets_def by blast
qed

lemma targetMonthDayPairs_set:
  assumes "set months \<subseteq> {1..12}" "set days \<subseteq> {1..31}" "\<delta> \<in> {- 1, 1}"
  shows "set (targetMonthDayPairsForYear year months days \<delta>) =
    (\<lambda>(m, d). pairKey m d) ` targets (is_leap year) months days \<delta>"
proof -
  have valid: "isValidDate year mo d \<longleftrightarrow> valid_md (is_leap year) mo d" if "mo \<in> set months" "d \<in> set days" for mo d
    using that assms(1,2) by (intro isValidDate_iff) auto
  have target: "target_of year \<delta> mo d = (\<lambda>(m, d). pairKey m d) (md_shift (is_leap year) \<delta> mo d)"
    if "valid_md (is_leap year) mo d" for mo d
    using utc_date_shift [OF that assms(3)] by (auto simp: target_of_def split: prod.splits)
  have "set (targetMonthDayPairsForYear year months days \<delta>) =
      {target_of year \<delta> mo d | mo d. mo \<in> set months \<and> d \<in> set days \<and> isValidDate year mo d}"
    unfolding targetMonthDayPairsForYear_def by auto
  also have "\<dots> = {(\<lambda>(m, d). pairKey m d) (md_shift (is_leap year) \<delta> mo d) | mo d.
      mo \<in> set months \<and> d \<in> set days \<and> valid_md (is_leap year) mo d}"
    using valid target by (intro Collect_cong) (metis (no_types, lifting))
  finally show ?thesis unfolding targets_def by blast
qed

lemma key_in_targets:
  assumes "\<delta> \<in> {- 1, 1}" "0 \<le> m" "0 \<le> d"
  shows "pairKey m d \<in> (\<lambda>(m, d). pairKey m d) ` targets leap months days \<delta> \<longleftrightarrow> (m, d) \<in> targets leap months days \<delta>"
proof
  assume "pairKey m d \<in> (\<lambda>(m, d). pairKey m d) ` targets leap months days \<delta>"
  then obtain m' d' where t: "(m', d') \<in> targets leap months days \<delta>" "pairKey m d = pairKey m' d'" by auto
  have "0 \<le> m'" "0 \<le> d'" using valid_md_nonneg [OF targets_valid [OF assms(1) t(1)]] by auto
  then show "(m, d) \<in> targets leap months days \<delta>" using t assms(2,3) by (simp add: pairKey_inject)
qed (auto intro: image_eqI)

lemma check_representable_ok:
  assumes "check_representable common leap (map (\<lambda>(a, b). pairKey a b) ps) = Inr ()"
    and "\<forall>(a, b) \<in> set ps. 0 \<le> a \<and> 0 \<le> b" and "(mo, d) \<in> set ps" and "isValidDate 2021 mo d"
  shows "pairKey mo d \<in> set common \<longleftrightarrow> pairKey mo d \<in> set leap"
  using assms
proof (induction ps)
  case (Cons p ps)
  obtain a b where p: "p = (a, b)" by (cases p)
  then have "parsePairKey (pairKey a b) = Inr (a, b)" using Cons.prems(2) by (simp add: pairKey_parse)
  then show ?case using Cons p by (auto split: if_splits)
qed simp

text \<open>In strict mode the union of the two years' targets serves every year.\<close>

lemma convertMonthDayPairs_correct:
  assumes ranges: "set months \<subseteq> {1..12}" "set days \<subseteq> {1..31}" and \<delta>: "\<delta> \<in> {- 1, 1}"
    and conv: "convertMonthDayPairs months days \<delta> True = Inr specs"
  shows "(\<forall>s \<in> set specs. spec_ok s \<and> spec_dow s = FULL_DOW) \<and>
    (\<forall>leap mo d. valid_md leap mo d \<longrightarrow>
      ((\<exists>s \<in> set specs. fst (md_shift leap \<delta> mo d) \<in> set (spec_month s) \<and> snd (md_shift leap \<delta> mo d) \<in> set (spec_dom s)) \<longleftrightarrow>
        mo \<in> set months \<and> d \<in> set days))"
proof -
  let ?key = "\<lambda>(m, d). pairKey m d"
  let ?T = "\<lambda>leap. targets leap months days \<delta>"
  define common where "common = targetMonthDayPairsForYear 2021 months days \<delta>"
  define leaps where "leaps = targetMonthDayPairsForYear 2020 months days \<delta>"
  define union where "union = js_set (common @ leaps)"
  define ps where "ps = map (\<lambda>k. projr (parsePairKey k)) union"
  have common: "set common = ?key ` ?T False" and leaps: "set leaps = ?key ` ?T True"
    using targetMonthDayPairs_set [OF ranges \<delta>] by (simp_all add: common_def leaps_def is_leap_def)
  have valid: "valid_md True m d" if "(m, d) \<in> ?T False \<union> ?T True" for m d
    using that targets_valid [OF \<delta>] valid_md_leap by blast
  have parse: "projr (parsePairKey (?key q)) = q" if "q \<in> ?T False \<union> ?T True" for q
    using valid [of "fst q" "snd q"] that valid_md_nonneg by (cases q) (simp add: pairKey_parse)
  have set_union: "set union = ?key ` (?T False \<union> ?T True)" by (simp add: union_def common leaps image_Un)
  have ps_set: "set ps = ?T False \<union> ?T True"
    unfolding ps_def set_map set_union image_image using parse by (simp cong: image_cong_simp)
  have keys: "map ?key ps = union"
    unfolding ps_def map_map comp_def using parse set_union by (intro map_idI) auto
  have ps_valid: "\<forall>(mo, d) \<in> set ps. valid_md True mo d" using ps_set valid by auto
  have c: "check_representable common leaps (map ?key ps) = Inr ()" and g: "groupMonthDayPairs (map ?key ps) = Inr specs"
    using conv by (auto simp: convertMonthDayPairs_def Let_def keys common_def [symmetric] leaps_def [symmetric]
        union_def [symmetric] split: sum.splits)
  have same: "(m, d) \<in> ?T False \<longleftrightarrow> (m, d) \<in> ?T True" if "(m, d) \<in> ?T False \<union> ?T True" "valid_md False m d" for m d
  proof -
    have r: "1 \<le> m" "m \<le> 12" "1 \<le> d" "d \<le> 31" using that(2) month_days_range [of False m] by (auto simp: valid_md_def)
    have v: "isValidDate 2021 m d" using isValidDate_iff [OF r, of 2021] that(2) by (simp add: is_leap_def)
    have "\<forall>(a, b) \<in> set ps. 0 \<le> a \<and> 0 \<le> b" using ps_valid valid_md_nonneg by blast
    from check_representable_ok [OF c this _ v] that(1) ps_set
    have "pairKey m d \<in> set common \<longleftrightarrow> pairKey m d \<in> set leaps" by blast
    then show ?thesis unfolding common leaps using key_in_targets [OF \<delta>] r by simp
  qed
  have in_union: "q \<in> ?T False \<union> ?T True \<longleftrightarrow> q \<in> ?T leap" if "valid_md leap (fst q) (snd q)" for q leap
  proof (cases leap)
    case False
    then show ?thesis using same [of "fst q" "snd q"] that by auto
  next
    case True
    have "q \<in> ?T True" if "q \<in> ?T False"
    proof -
      have "valid_md False (fst q) (snd q)" using targets_valid [OF \<delta>, of "fst q" "snd q"] that by simp
      then show ?thesis using same [of "fst q" "snd q"] that by simp
    qed
    then show ?thesis using True by auto
  qed
  obtain specs' where s: "groupMonthDayPairs (map ?key ps) = Inr specs'"
    "\<forall>s \<in> set specs'. spec_ok s \<and> spec_dow s = FULL_DOW"
    "\<And>mo d. valid_md True mo d \<Longrightarrow>
      (\<exists>s \<in> set specs'. mo \<in> set (spec_month s) \<and> d \<in> set (spec_dom s)) \<longleftrightarrow> (mo, d) \<in> set ps"
    using groupMonthDayPairs_correct [OF ps_valid] by blast
  have eq: "specs' = specs" using s(1) g by simp
  have "(\<exists>s \<in> set specs. fst (md_shift leap \<delta> mo d) \<in> set (spec_month s) \<and> snd (md_shift leap \<delta> mo d) \<in> set (spec_dom s)) \<longleftrightarrow>
      mo \<in> set months \<and> d \<in> set days" if v: "valid_md leap mo d" for leap mo d
  proof -
    let ?q = "md_shift leap \<delta> mo d"
    have vq: "valid_md leap (fst ?q) (snd ?q)" using md_shift_valid [OF v \<delta>] by simp
    have "(\<exists>s \<in> set specs. fst ?q \<in> set (spec_month s) \<and> snd ?q \<in> set (spec_dom s)) \<longleftrightarrow> ?q \<in> set ps"
      using s(3) [OF valid_md_leap [OF vq]] eq by simp
    also have "\<dots> \<longleftrightarrow> ?q \<in> ?T leap" unfolding ps_set using in_union [OF vq] .
    also have "\<dots> \<longleftrightarrow> mo \<in> set months \<and> d \<in> set days" by (rule targets_shift [OF \<delta> v])
    finally show ?thesis .
  qed
  then show ?thesis using s(2) eq by simp
qed

section \<open>Which days and minutes a schedule selects\<close>

text \<open>
  A day is a year, month, day and weekday. Standard cron joins a restricted day of month and a
  restricted day of week by "or".
\<close>

type_synonym day = "int \<times> int \<times> int \<times> int"

definition valid_day :: "day \<Rightarrow> bool" where
  "valid_day D = (case D of (y, m, d, w) \<Rightarrow> valid_md (is_leap y) m d \<and> 0 \<le> w \<and> w \<le> 6)"

definition add_days :: "day \<Rightarrow> int \<Rightarrow> day" where
  "add_days D n = (case D of (y, m, d, w) \<Rightarrow>
     (case utc_date y m (d + n) of (y', m', d') \<Rightarrow> (y', m', d', (w + n) mod 7)))"

definition day_matches :: "int list \<Rightarrow> int list \<Rightarrow> int list \<Rightarrow> day \<Rightarrow> bool" where
  "day_matches ds months dows D = (case D of (y, m, d, w) \<Rightarrow>
     m \<in> set months \<and>
     (if set ds = set FULL_DOM then w \<in> set dows
      else if set dows = set FULL_DOW then d \<in> set ds
      else d \<in> set ds \<or> w \<in> set dows))"

definition cron_day :: "parsed_cron \<Rightarrow> day \<Rightarrow> bool" where
  "cron_day c = day_matches (field_values (cron_dayOfMonth c)) (field_values (cron_month c)) (field_values (cron_dayOfWeek c))"

definition cron_fires :: "parsed_cron \<Rightarrow> day \<Rightarrow> int \<Rightarrow> int \<Rightarrow> bool" where
  "cron_fires c D h mi \<longleftrightarrow> cron_day c D \<and> h \<in> set (field_values (cron_hour c)) \<and> mi \<in> set (field_values (cron_minute c))"

definition spec_matches :: "date_spec \<Rightarrow> day \<Rightarrow> bool" where
  "spec_matches s = day_matches (spec_dom s) (spec_month s) (spec_dow s)"

lemma valid_day_ranges:
  "valid_day (y, m, d, w) \<Longrightarrow> m \<in> set FULL_MONTHS \<and> d \<in> set FULL_DOM \<and> w \<in> set FULL_DOW"
  using month_days_range [of "is_leap y" m] by (auto simp: valid_day_def valid_md_def full_defs)

lemma add_days_shift:
  assumes "valid_day (y, m, d, w)" and "\<delta> \<in> {- 1, 1}"
  obtains y' where "add_days (y, m, d, w) \<delta> = (y', fst (md_shift (is_leap y) \<delta> m d), snd (md_shift (is_leap y) \<delta> m d), (w + \<delta>) mod 7)"
proof -
  have "snd (utc_date y m (d + \<delta>)) = md_shift (is_leap y) \<delta> m d"
    using assms by (intro utc_date_shift) (auto simp: valid_day_def)
  moreover obtain y' m' d' where "utc_date y m (d + \<delta>) = (y', m', d')" by (rule prod_cases3)
  ultimately have "md_shift (is_leap y) \<delta> m d = (m', d')" "utc_date y m (d + \<delta>) = (y', m', d')" by simp_all
  then have "add_days (y, m, d, w) \<delta> =
      (y', fst (md_shift (is_leap y) \<delta> m d), snd (md_shift (is_leap y) \<delta> m d), (w + \<delta>) mod 7)"
    by (simp add: add_days_def)
  then show ?thesis by (rule that)
qed

lemma shiftDayOfWeekSet_props:
  assumes "set dows \<subseteq> {0..6}"
  shows "set (shiftDayOfWeekSet dows \<delta>) = (\<lambda>v. (v + \<delta>) mod 7) ` set dows"
    and "w \<in> {0..6} \<Longrightarrow> (w + \<delta>) mod 7 \<in> set (shiftDayOfWeekSet dows \<delta>) \<longleftrightarrow> w \<in> set dows"
proof -
  show set: "set (shiftDayOfWeekSet dows \<delta>) = (\<lambda>v. (v + \<delta>) mod 7) ` set dows"
    by (simp add: shiftDayOfWeekSet_def uniqueSorted_set js_mod_eq image_image)
  have inj: "w = v" if "(w + \<delta>) mod 7 = (v + \<delta>) mod 7" "w \<in> {0..6}" "v \<in> {0..6}" for w v :: int
  proof -
    have "w mod 7 = v mod 7" using that(1) by (simp add: mod_eq_dvd_iff)
    then show ?thesis using that(2,3) by simp
  qed
  show "(w + \<delta>) mod 7 \<in> set (shiftDayOfWeekSet dows \<delta>) \<longleftrightarrow> w \<in> set dows" if "w \<in> {0..6}"
  proof
    assume "(w + \<delta>) mod 7 \<in> set (shiftDayOfWeekSet dows \<delta>)"
    then obtain v where v: "v \<in> set dows" "(w + \<delta>) mod 7 = (v + \<delta>) mod 7" unfolding set by (elim imageE)
    then have "w = v" using inj [OF v(2) that] assms by blast
    then show "w \<in> set dows" using v(1) by simp
  next
    assume "w \<in> set dows"
    then show "(w + \<delta>) mod 7 \<in> set (shiftDayOfWeekSet dows \<delta>)" unfolding set by (rule imageI)
  qed
qed

lemma full_lists: "field_list DayOfMonthField FULL_DOM" "field_list MonthField FULL_MONTHS" "field_list DayOfWeekField FULL_DOW"
  by (simp_all add: field_list_def full_of_def full_defs) (simp_all add: js_range_def)

lemma full_sorted: "sorted_wrt (<) FULL_DOM" "sorted_wrt (<) FULL_DOW"
  by (simp_all add: full_defs js_range_def)

lemma convertDateSpec_correct:
  assumes ok: "cron_ok c" and \<delta>: "\<delta> \<in> {- 1, 0, 1}" and conv: "convertDateSpec c \<delta> True = Inr specs"
  shows "(\<forall>s \<in> set specs. spec_ok s) \<and>
    (\<forall>D. valid_day D \<longrightarrow> ((\<exists>s \<in> set specs. spec_matches s (if \<delta> = 0 then D else add_days D \<delta>)) \<longleftrightarrow> cron_day c D))"
proof -
  let ?ds = "field_values (cron_dayOfMonth c)" and ?ms = "field_values (cron_month c)" and ?ws = "field_values (cron_dayOfWeek c)"
  note lists = cron_ok_lists [OF ok]
  have wild: "field_wildcard (cron_dayOfMonth c) = (?ds = FULL_DOM)" "field_wildcard (cron_month c) = (?ms = FULL_MONTHS)"
    "field_wildcard (cron_dayOfWeek c) = (?ws = FULL_DOW)"
    using ok by (simp_all add: cron_ok_def field_ok_def full_of_def)
  have sorted: "sorted_wrt (<) ?ds" "sorted_wrt (<) ?ws" using ok by (simp_all add: cron_ok_def field_ok_def)
  have fulls: "(set ?ds = set FULL_DOM) = (?ds = FULL_DOM)" "(set ?ws = set FULL_DOW) = (?ws = FULL_DOW)"
    using sorted_list_id [OF sorted(1)] sorted_list_id [OF sorted(2)] sorted_list_id [of FULL_DOM] sorted_list_id [of FULL_DOW]
    by (metis full_sorted)+
  have ranges: "set ?ds \<subseteq> {1..31}" "set ?ms \<subseteq> {1..12}" "set ?ws \<subseteq> {0..6}" "?ws \<noteq> []"
    using lists(3,4,5) by (simp_all add: field_list_def full_of_def full_defs)
  show ?thesis
  proof (cases "\<delta> = 0")
    case True
    then have "specs = [\<lparr> spec_dom = ?ds, spec_month = ?ms, spec_dow = ?ws \<rparr>]"
      using conv by (simp add: convertDateSpec_def)
    then show ?thesis using True lists by (simp add: spec_ok_def spec_matches_def cron_day_def)
  next
    case False
    then have \<delta>1: "\<delta> \<in> {- 1, 1}" using \<delta> by simp
    show ?thesis
    proof (cases "?ws = FULL_DOW")
      case dow: True
      then have cm: "convertMonthDayPairs ?ms ?ds \<delta> True = Inr specs"
        using conv False by (simp add: convertDateSpec_def wild)
      note correct = convertMonthDayPairs_correct [OF ranges(2,1) \<delta>1 cm]
      have "(\<exists>s \<in> set specs. spec_matches s (add_days D \<delta>)) \<longleftrightarrow> cron_day c D" if v: "valid_day D" for D
      proof -
        obtain y m d w where D: "D = (y, m, d, w)" by (cases D)
        obtain y' where a: "add_days D \<delta> =
            (y', fst (md_shift (is_leap y) \<delta> m d), snd (md_shift (is_leap y) \<delta> m d), (w + \<delta>) mod 7)"
          using add_days_shift [OF v [unfolded D] \<delta>1] D by blast
        have vm: "valid_md (is_leap y) m d" using v D by (simp add: valid_day_def)
        have wf: "(w + \<delta>) mod 7 \<in> set FULL_DOW" by (simp add: FULL_DOW_def)
        have vq: "snd (md_shift (is_leap y) \<delta> m d) \<in> set FULL_DOM"
          using md_shift_valid [OF vm \<delta>1, of "fst (md_shift (is_leap y) \<delta> m d)" "snd (md_shift (is_leap y) \<delta> m d)"]
            month_days_range [of "is_leap y" "fst (md_shift (is_leap y) \<delta> m d)"]
          by (simp add: valid_md_def FULL_DOM_def)
        have "spec_matches s (add_days D \<delta>) \<longleftrightarrow>
            fst (md_shift (is_leap y) \<delta> m d) \<in> set (spec_month s) \<and> snd (md_shift (is_leap y) \<delta> m d) \<in> set (spec_dom s)"
          if "s \<in> set specs" for s
          using correct that wf vq by (auto simp: spec_matches_def day_matches_def a)
        moreover have "cron_day c D \<longleftrightarrow> m \<in> set ?ms \<and> d \<in> set ?ds"
          using valid_day_ranges [of y m d w] v dow by (auto simp: cron_day_def day_matches_def D fulls)
        ultimately show ?thesis using correct vm by auto
      qed
      then show ?thesis using correct False by simp
    next
      case dow: False
      then have dm: "?ds = FULL_DOM" "?ms = FULL_MONTHS"
        and specs: "specs = [\<lparr> spec_dom = FULL_DOM, spec_month = FULL_MONTHS, spec_dow = shiftDayOfWeekSet ?ws \<delta> \<rparr>]"
        using conv False by (auto simp: convertDateSpec_def Let_def wild split: if_splits)
      let ?sw = "shiftDayOfWeekSet ?ws \<delta>"
      have "field_list DayOfWeekField ?sw"
        using ranges(4) shiftDayOfWeekSet_props(1) [OF ranges(3), of \<delta>]
        by (auto simp: field_list_def full_of_def FULL_DOW_def)
      moreover have "(\<exists>s \<in> set specs. spec_matches s (add_days D \<delta>)) \<longleftrightarrow> cron_day c D" if v: "valid_day D" for D
      proof -
        obtain y m d w where D: "D = (y, m, d, w)" by (cases D)
        obtain y' where a: "add_days D \<delta> =
            (y', fst (md_shift (is_leap y) \<delta> m d), snd (md_shift (is_leap y) \<delta> m d), (w + \<delta>) mod 7)"
          using add_days_shift [OF v [unfolded D] \<delta>1] D by blast
        have vm: "valid_md (is_leap y) m d" using v D by (simp add: valid_day_def)
        have vq: "fst (md_shift (is_leap y) \<delta> m d) \<in> set FULL_MONTHS"
          using md_shift_valid [OF vm \<delta>1, of "fst (md_shift (is_leap y) \<delta> m d)" "snd (md_shift (is_leap y) \<delta> m d)"]
          by (simp add: valid_md_def FULL_MONTHS_def)
        have "w \<in> {0..6}" using v D by (simp add: valid_day_def)
        then have "(w + \<delta>) mod 7 \<in> set ?sw \<longleftrightarrow> w \<in> set ?ws" by (rule shiftDayOfWeekSet_props(2) [OF ranges(3)])
        then show ?thesis using vq valid_day_ranges [of y m d w] v dm fulls
          by (simp add: specs spec_matches_def day_matches_def cron_day_def a [unfolded D] D)
      qed
      ultimately show ?thesis using False full_lists by (simp add: specs spec_ok_def)
    qed
  qed
qed

section \<open>The table of the conversion\<close>

definition bucket_ok :: "string \<Rightarrow> date_spec \<times> (int, int list) jsmap \<Rightarrow> bool" where
  "bucket_ok k b \<longleftrightarrow> k = dateSpecKey (fst b) \<and> spec_ok (fst b) \<and> table_ok (snd b) \<and>
     (\<forall>h mi. table_has (snd b) h mi \<longrightarrow> h \<in> {0..23} \<and> mi \<in> {0..59})"

definition spec_table_ok :: "spec_table \<Rightarrow> bool" where
  "spec_table_ok m \<longleftrightarrow> jm_wf m \<and> (\<forall>k b. map_of m k = Some b \<longrightarrow> bucket_ok k b)"

definition scheduled :: "spec_table \<Rightarrow> date_spec \<Rightarrow> int \<Rightarrow> int \<Rightarrow> bool" where
  "scheduled m s h mi \<longleftrightarrow> (\<exists>k p. map_of m k = Some (s, p) \<and> table_has p h mi)"

lemma spec_table_Nil [simp]: "spec_table_ok []" "\<not> scheduled [] s h mi"
  by (simp_all add: spec_table_ok_def scheduled_def jm_wf_def)

lemma spec_table_entry: "spec_table_ok m \<Longrightarrow> map_of m k = Some b \<Longrightarrow> bucket_ok k b"
  unfolding spec_table_ok_def by blast

lemma bucket_new: "spec_ok s \<Longrightarrow> bucket_ok (dateSpecKey s) (s, [])"
  by (simp add: bucket_ok_def)

lemma bucket_add:
  assumes "bucket_ok k b" "h \<in> {0..23}" "mi \<in> {0..59}"
  shows "bucket_ok k (map_prod (\<lambda>s. s) (upsert h [] (set_add mi)) b)"
  using assms table_upsert [of "snd b" h mi] by (cases b) (auto simp: bucket_ok_def)

lemma add_time_lookup:
  assumes m: "spec_table_ok m" and s: "spec_ok s"
  shows "\<exists>p. (map_of m (dateSpecKey s) = Some (s, p) \<or> (map_of m (dateSpecKey s) = None \<and> p = [])) \<and> table_ok p \<and>
    map_of (add_time h mi s m) = (map_of m)(dateSpecKey s \<mapsto> (s, upsert h [] (set_add mi) p))"
proof (cases "map_of m (dateSpecKey s)")
  case None
  then show ?thesis by (intro exI [of _ "[]"]) (auto simp: add_time_def upsert_lookup)
next
  case (Some b)
  have b: "bucket_ok (dateSpecKey s) b" by (rule spec_table_entry [OF m Some])
  then have "fst b = s" using dateSpecKey_inject [of "fst b" s] s by (simp add: bucket_ok_def)
  then have eq: "b = (s, snd b)" by (cases b) simp
  have "table_ok (snd b)" using b by (simp add: bucket_ok_def)
  then show ?thesis using Some eq
    by (intro exI [of _ "snd b"]) (auto simp: add_time_def upsert_lookup map_prod_def split: prod.splits)
qed

lemma add_time_ok:
  assumes m: "spec_table_ok m" and s: "spec_ok s" and r: "h \<in> {0..23}" "mi \<in> {0..59}"
  shows "spec_table_ok (add_time h mi s m)"
proof -
  have wf: "jm_wf (add_time h mi s m)" using m by (simp add: add_time_def jm_wf_upsert spec_table_ok_def)
  have "bucket_ok k b" if k: "map_of (add_time h mi s m) k = Some b" for k b
  proof (cases "k = dateSpecKey s")
    case False
    then show ?thesis using k spec_table_entry [OF m, of k b] by (simp add: add_time_def upsert_lookup)
  next
    case True
    let ?b = "case map_of m k of None \<Rightarrow> (s, []) | Some b \<Rightarrow> b"
    have "bucket_ok k ?b" using True spec_table_entry [OF m, of k] bucket_new [OF s] by (auto split: option.split)
    then have "bucket_ok k (map_prod (\<lambda>s. s) (upsert h [] (set_add mi)) ?b)" using r by (rule bucket_add)
    then show ?thesis using k True by (simp add: add_time_def upsert_lookup)
  qed
  then show ?thesis using wf by (simp add: spec_table_ok_def)
qed

lemma add_time_scheduled:
  assumes m: "spec_table_ok m" and s: "spec_ok s"
  shows "scheduled (add_time h mi s m) s' h' mi' \<longleftrightarrow> (s' = s \<and> h' = h \<and> mi' = mi) \<or> scheduled m s' h' mi'"
proof -
  obtain p where p: "map_of m (dateSpecKey s) = Some (s, p) \<or> (map_of m (dateSpecKey s) = None \<and> p = [])" "table_ok p"
    and l: "map_of (add_time h mi s m) = (map_of m)(dateSpecKey s \<mapsto> (s, upsert h [] (set_add mi) p))"
    using add_time_lookup [OF m s] by blast
  have key: "k = dateSpecKey t" if "map_of m k = Some (t, q)" for k t q
    using spec_table_entry [OF m that] by (simp add: bucket_ok_def)
  have has: "table_has (upsert h [] (set_add mi) p) h' mi' \<longleftrightarrow> (h' = h \<and> mi' = mi) \<or> table_has p h' mi'"
    using table_upsert(2) [OF p(2)] .
  show ?thesis
  proof (cases "s' = s")
    case True
    have "scheduled (add_time h mi s m) s h' mi' \<longleftrightarrow> table_has (upsert h [] (set_add mi) p) h' mi'"
      unfolding scheduled_def l using key by (auto split: if_splits)
    moreover have "scheduled m s h' mi' \<longleftrightarrow> table_has p h' mi'"
      unfolding scheduled_def using key p(1) by fastforce
    ultimately show ?thesis using True has by simp
  next
    case False
    then have "((map_of m)(dateSpecKey s \<mapsto> (s, upsert h [] (set_add mi) p))) k = Some (s', q) \<longleftrightarrow>
        map_of m k = Some (s', q)" for k q
      using p(1) by (cases "k = dateSpecKey s") auto
    then show ?thesis using False unfolding scheduled_def l by simp
  qed
qed

lemma add_time_fold:
  assumes "spec_table_ok m" "\<forall>s \<in> set specs. spec_ok s" "h \<in> {0..23}" "mi \<in> {0..59}"
  shows "spec_table_ok (foldl (\<lambda>m spec. add_time h mi spec m) m specs) \<and>
    (\<forall>s' h' mi'. scheduled (foldl (\<lambda>m spec. add_time h mi spec m) m specs) s' h' mi' \<longleftrightarrow>
      (s' \<in> set specs \<and> h' = h \<and> mi' = mi) \<or> scheduled m s' h' mi')"
  using assms
proof (induction specs arbitrary: m)
  case (Cons s specs)
  have "spec_table_ok (add_time h mi s m)" using Cons.prems by (intro add_time_ok) auto
  from Cons.IH [OF this] show ?case
    using Cons.prems add_time_scheduled [OF Cons.prems(1), of s] by auto
qed simp

lemma add_times_scheduled:
  assumes "add_times c off True slots m = Inr m'" and "spec_table_ok m" and "cron_ok c"
    and "- 1440 < off" "off < 1440"
    and "\<forall>(h, mi) \<in> set slots. h \<in> {0..23} \<and> mi \<in> {0..59}"
  shows "spec_table_ok m' \<and>
    (\<forall>s h' mi'. scheduled m' s h' mi' \<longleftrightarrow> scheduled m s h' mi' \<or>
      (\<exists>h mi \<delta> specs. (h, mi) \<in> set slots \<and> shiftLocalTimeToUtc h mi off = (h', mi', \<delta>) \<and>
        convertDateSpec c \<delta> True = Inr specs \<and> s \<in> set specs)) \<and>
    (\<forall>h mi. (h, mi) \<in> set slots \<longrightarrow> (\<exists>specs. convertDateSpec c (snd (snd (shiftLocalTimeToUtc h mi off))) True = Inr specs))"
  using assms
proof (induction slots arbitrary: m)
  case (Cons slot slots)
  obtain lh lm where slot: "slot = (lh, lm)" by (cases slot)
  obtain h mi \<delta> where sh: "shiftLocalTimeToUtc lh lm off = (h, mi, \<delta>)" by (rule prod_cases3)
  from Cons.prems(1) slot sh obtain specs where specs: "convertDateSpec c \<delta> True = Inr specs"
    and rest: "add_times c off True slots (foldl (\<lambda>m spec. add_time h mi spec m) m specs) = Inr m'"
    by (auto split: sum.splits)
  have r: "0 \<le> h \<and> h < 24 \<and> 0 \<le> mi \<and> mi < 60 \<and> \<delta> \<in> {- 1, 0, 1}"
    using shift_range [of lh lm off h mi \<delta>] Cons.prems(4-6) slot sh by auto
  have ok: "\<forall>s \<in> set specs. spec_ok s" using convertDateSpec_correct [OF Cons.prems(3) _ specs] r by blast
  have range: "h \<in> {0..23}" "mi \<in> {0..59}" using r by auto
  note fold = add_time_fold [OF Cons.prems(2) ok range]
  have slots: "\<forall>(h, mi) \<in> set slots. h \<in> {0..23} \<and> mi \<in> {0..59}" using Cons.prems(6) by simp
  note IH = Cons.IH [OF rest conjunct1 [OF fold] Cons.prems(3-5) slots]
  have "(\<exists>h2 m2 \<delta>2 sp. (h2, m2) \<in> set (slot # slots) \<and> shiftLocalTimeToUtc h2 m2 off = (h', mi', \<delta>2) \<and>
        convertDateSpec c \<delta>2 True = Inr sp \<and> s \<in> set sp) \<longleftrightarrow>
      (s \<in> set specs \<and> h' = h \<and> mi' = mi) \<or>
      (\<exists>h2 m2 \<delta>2 sp. (h2, m2) \<in> set slots \<and> shiftLocalTimeToUtc h2 m2 off = (h', mi', \<delta>2) \<and>
        convertDateSpec c \<delta>2 True = Inr sp \<and> s \<in> set sp)" for s h' mi'
    using sh specs slot by auto
  then show ?case using IH fold slot sh specs by auto
qed simp

section \<open>The printed expressions\<close>

lemma parse_all_ok:
  "\<forall>s \<in> set xs. \<exists>c. parseCron s = Inr c \<Longrightarrow> \<exists>ps. parse_all xs = Inr ps \<and> map fst ps = xs"
  by (induction xs) auto

lemma sortCronStrings_ok:
  assumes "\<forall>s \<in> set xs. \<exists>c. parseCron s = Inr c"
  shows "\<exists>ys. sortCronStrings lc xs = Inr ys \<and> mset ys = mset xs"
proof -
  obtain ps where "parse_all xs = Inr ps" "map fst ps = xs" using parse_all_ok [OF assms] by blast
  moreover have "mset (map fst (js_sort (compareParsedCrons lc) ps)) = mset (map fst ps)"
    by (simp only: mset_map mset_js_sort)
  ultimately show ?thesis by (simp add: sortCronStrings_def)
qed

lemma compact_entries:
  assumes b: "bucket_ok k b"
  shows "((\<exists>(hs, ms) \<in> set (compactTimePairs (snd b)). h \<in> set hs \<and> mi \<in> set ms) \<longleftrightarrow> table_has (snd b) h mi) \<and>
    (\<forall>(hs, ms) \<in> set (compactTimePairs (snd b)). field_list HourField hs \<and> field_list MinuteField ms)"
proof -
  have t: "table_ok (snd b)" and r: "\<And>h mi. table_has (snd b) h mi \<Longrightarrow> h \<in> {0..23} \<and> mi \<in> {0..59}"
    using b by (auto simp: bucket_ok_def)
  have nn: "0 \<le> mi" if "table_has (snd b) h mi" for h mi using r [OF that] by simp
  have has: "(\<exists>(hs, ms) \<in> set (compactTimePairs (snd b)). h \<in> set hs \<and> mi \<in> set ms) \<longleftrightarrow> table_has (snd b) h mi" for h mi
    using compactTimePairs_correct [OF t, of h mi] nn by blast
  have nonempty: "\<forall>(hs, ms) \<in> set (compactTimePairs (snd b)). hs \<noteq> [] \<and> ms \<noteq> []"
    using compactTimePairs_correct [OF t] nn by blast
  have "field_list HourField hs \<and> field_list MinuteField ms" if mem: "(hs, ms) \<in> set (compactTimePairs (snd b))" for hs ms
  proof -
    have ne: "hs \<noteq> []" "ms \<noteq> []" using nonempty mem by auto
    have entry: "h \<in> {0..23} \<and> mi \<in> {0..59}" if "h \<in> set hs" "mi \<in> set ms" for h mi
      using has [of h mi] that mem by (intro r) blast
    have "set hs \<subseteq> {0..23}" using entry [OF _ hd_in_set [OF ne(2)]] by blast
    moreover have "set ms \<subseteq> {0..59}" using entry [OF hd_in_set [OF ne(1)]] by blast
    ultimately show ?thesis using ne by (simp add: field_list_def full_of_def full_defs)
  qed
  then have "\<forall>(hs, ms) \<in> set (compactTimePairs (snd b)). field_list HourField hs \<and> field_list MinuteField ms" by auto
  with has show ?thesis by (intro conjI)
qed

lemma bucket_line_fires:
  assumes b: "bucket_ok k b" and t: "(hs, ms) \<in> set (compactTimePairs (snd b))"
  shows "\<exists>c. parseCron (five_fields ms hs (spec_dom (fst b)) (spec_month (fst b)) (spec_dow (fst b))) = Inr c \<and>
    (\<forall>D h mi. cron_fires c D h mi \<longleftrightarrow> spec_matches (fst b) D \<and> h \<in> set hs \<and> mi \<in> set ms)"
proof -
  have l: "field_list MinuteField ms" "field_list HourField hs"
    using conjunct2 [OF compact_entries [OF b]] t by auto
  have s: "field_list DayOfMonthField (spec_dom (fst b))" "field_list MonthField (spec_month (fst b))"
    "field_list DayOfWeekField (spec_dow (fst b))" using b by (simp_all add: bucket_ok_def spec_ok_def)
  from parse_five_fields [OF l s] show ?thesis
    by (auto simp: cron_fires_def cron_day_def spec_matches_def day_matches_def uniqueSorted_set)
qed

lemma output_fires:
  assumes m: "spec_table_ok m"
  shows "(\<forall>s \<in> set (js_set (concat (map (\<lambda>(k, b). bucket_lines b) m))). \<exists>c. parseCron s = Inr c) \<and>
    ((\<exists>s \<in> set (js_set (concat (map (\<lambda>(k, b). bucket_lines b) m))). \<exists>c. parseCron s = Inr c \<and> cron_fires c D h mi) \<longleftrightarrow>
      (\<exists>spec. scheduled m spec h mi \<and> spec_matches spec D))"
proof -
  have wf: "jm_wf m" using m by (simp add: spec_table_ok_def)
  let ?out = "set (js_set (concat (map (\<lambda>(k, b). bucket_lines b) m)))"
  have out: "s \<in> ?out \<longleftrightarrow> (\<exists>k b hs ms. map_of m k = Some b \<and> (hs, ms) \<in> set (compactTimePairs (snd b)) \<and>
      s = five_fields ms hs (spec_dom (fst b)) (spec_month (fst b)) (spec_dow (fst b)))" for s
    unfolding wf_entry [OF wf, symmetric] by (force simp: bucket_lines_def)
  have parses: "\<exists>c. parseCron s = Inr c" if "s \<in> ?out" for s
  proof -
    obtain k b hs ms where e: "map_of m k = Some b" "(hs, ms) \<in> set (compactTimePairs (snd b))"
      "s = five_fields ms hs (spec_dom (fst b)) (spec_month (fst b)) (spec_dow (fst b))"
      using out [of s] \<open>s \<in> ?out\<close> by blast
    show ?thesis using bucket_line_fires [OF spec_table_entry [OF m e(1)] e(2)] unfolding e(3) by blast
  qed
  have "(\<exists>s \<in> ?out. \<exists>c. parseCron s = Inr c \<and> cron_fires c D h mi) \<longleftrightarrow>
      (\<exists>k b. map_of m k = Some b \<and> (\<exists>(hs, ms) \<in> set (compactTimePairs (snd b)).
        spec_matches (fst b) D \<and> h \<in> set hs \<and> mi \<in> set ms))"
  proof
    assume "\<exists>s \<in> ?out. \<exists>c. parseCron s = Inr c \<and> cron_fires c D h mi"
    then obtain s c where sc: "s \<in> ?out" "parseCron s = Inr c" "cron_fires c D h mi" by blast
    then obtain k b hs ms where e: "map_of m k = Some b" "(hs, ms) \<in> set (compactTimePairs (snd b))"
      "s = five_fields ms hs (spec_dom (fst b)) (spec_month (fst b)) (spec_dow (fst b))"
      using out [of s] by blast
    have "spec_matches (fst b) D \<and> h \<in> set hs \<and> mi \<in> set ms"
      using bucket_line_fires [OF spec_table_entry [OF m e(1)] e(2)] sc(2,3) unfolding e(3) by fastforce
    then show "\<exists>k b. map_of m k = Some b \<and> (\<exists>(hs, ms) \<in> set (compactTimePairs (snd b)).
        spec_matches (fst b) D \<and> h \<in> set hs \<and> mi \<in> set ms)" using e by blast
  next
    assume "\<exists>k b. map_of m k = Some b \<and> (\<exists>(hs, ms) \<in> set (compactTimePairs (snd b)).
        spec_matches (fst b) D \<and> h \<in> set hs \<and> mi \<in> set ms)"
    then obtain k b hs ms where e: "map_of m k = Some b" "(hs, ms) \<in> set (compactTimePairs (snd b))"
      "spec_matches (fst b) D" "h \<in> set hs" "mi \<in> set ms" by blast
    let ?s = "five_fields ms hs (spec_dom (fst b)) (spec_month (fst b)) (spec_dow (fst b))"
    obtain c where "parseCron ?s = Inr c" "cron_fires c D h mi"
      using bucket_line_fires [OF spec_table_entry [OF m e(1)] e(2)] e(3-5) by blast
    moreover have "?s \<in> ?out" using out [of ?s] e(1,2) by blast
    ultimately show "\<exists>s \<in> ?out. \<exists>c. parseCron s = Inr c \<and> cron_fires c D h mi" by blast
  qed
  also have "\<dots> \<longleftrightarrow> (\<exists>k b. map_of m k = Some b \<and> table_has (snd b) h mi \<and> spec_matches (fst b) D)"
  proof (intro ex_cong1 conj_cong refl)
    fix k b
    assume "map_of m k = Some b"
    from compact_entries [OF spec_table_entry [OF m this], of h mi]
    show "(\<exists>(hs, ms) \<in> set (compactTimePairs (snd b)). spec_matches (fst b) D \<and> h \<in> set hs \<and> mi \<in> set ms) \<longleftrightarrow>
        table_has (snd b) h mi \<and> spec_matches (fst b) D" by blast
  qed
  also have "\<dots> \<longleftrightarrow> (\<exists>spec. scheduled m spec h mi \<and> spec_matches spec D)"
    by (auto simp: scheduled_def)
  finally show ?thesis using parses by blast
qed

section \<open>The comparators are consistent\<close>

lemma compareNumberArrays_Nil [simp]: "compareNumberArrays bs [] = int (length bs)"
  by (cases bs) auto

lemma compareNumberArrays_flip: "compareNumberArrays b a < 0 \<longleftrightarrow> 0 < compareNumberArrays a b"
  by (induction a b rule: compareNumberArrays.induct) auto

lemma compareNumberArrays_trans:
  "compareNumberArrays a b \<le> 0 \<Longrightarrow> compareNumberArrays b c \<le> 0 \<Longrightarrow> compareNumberArrays a c \<le> 0"
proof (induction a b arbitrary: c rule: compareNumberArrays.induct)
  case (1 x xs y ys)
  then show ?case by (cases c) (auto split: if_splits)
next
  case (2 bs)
  then show ?case by (cases c) auto
next
  case (3 x xs)
  then show ?case by (cases c) auto
qed

lemma compareNumberArrays_zero: "compareNumberArrays a b = 0 \<Longrightarrow> a = b"
  by (induction a b rule: compareNumberArrays.induct) (auto split: if_splits)

interpretation arrays: strict_comparator compareNumberArrays
  by unfold_locales (fact compareNumberArrays_flip, erule compareNumberArrays_trans, assumption, rule compareNumberArrays_zero)

interpretation date_specs: comparator compareDateSpecs
  unfolding compareDateSpecs_def
  by (intro comparator_or_else comparator_key [OF arrays.comparator_axioms])

interpretation time_specs: comparator compare_times
  unfolding compare_times_def by (intro comparator_or_else comparator_diff)

lemma compareParsedCrons_comparator:
  "comparator localeCompare \<Longrightarrow> comparator (compareParsedCrons localeCompare)"
  unfolding compareParsedCrons_def Let_def
  by (intro comparator_or_else comparator_diff comparator_key [OF arrays.comparator_axioms])
     (rule comparator_key)

section \<open>Properties\<close>

lemma add_days_zero: "valid_day D \<Longrightarrow> add_days D 0 = D"
  by (cases D) (simp add: valid_day_def add_days_def utc_date_valid)

lemma cronToUtc_cases:
  assumes "cronToUtc lc expression (Some q) strict = Inr outs" and "strict \<noteq> Some False"
  obtains c m where "parseCron expression = Inr c" "rat_of_int \<lfloor>q\<rfloor> = q" "- 1440 < \<lfloor>q\<rfloor>" "\<lfloor>q\<rfloor> < 1440"
    "add_times c \<lfloor>q\<rfloor> True [(h, mi). h \<leftarrow> field_values (cron_hour c), mi \<leftarrow> field_values (cron_minute c)] [] = Inr m"
    "sortCronStrings lc (js_set (concat (map (\<lambda>(k, b). bucket_lines b) m))) = Inr outs"
proof -
  have "(case strict of None \<Rightarrow> True | Some b \<Rightarrow> b) = True" using assms(2) by (cases strict) auto
  with assms(1) show ?thesis
    by (auto simp: cronToUtc_def Let_def intro: that split: if_splits sum.splits)
qed

text \<open>
  C18. The conversion is exact: whenever the strict conversion of an expression at a fixed offset
  succeeds, then on every calendar day and at every minute the local schedule fires exactly when
  one of the printed UTC expressions, parsed again, fires at the same instant in UTC (the shifted
  time, on the same, the previous or the next day, across month ends and leap years).
\<close>

theorem cron_to_utc_exact:
  assumes "cronToUtc localeCompare expression (Some q) strict = Inr outs" and "strict \<noteq> Some False"
    and "parseCron expression = Inr c"
    and "valid_day D" and "0 \<le> h" "h < 24" "0 \<le> mi" "mi < 60"
    and "shiftLocalTimeToUtc h mi \<lfloor>q\<rfloor> = (h', mi', \<delta>)"
  shows "cron_fires c D h mi \<longleftrightarrow>
    (\<exists>s \<in> set outs. \<exists>c'. parseCron s = Inr c' \<and> cron_fires c' (add_days D \<delta>) h' mi')"
proof -
  let ?slots = "[(h, mi). h \<leftarrow> field_values (cron_hour c), mi \<leftarrow> field_values (cron_minute c)]"
  obtain m where off: "- 1440 < \<lfloor>q\<rfloor>" "\<lfloor>q\<rfloor> < 1440"
    and m: "add_times c \<lfloor>q\<rfloor> True ?slots [] = Inr m"
    and out: "sortCronStrings localeCompare (js_set (concat (map (\<lambda>(k, b). bucket_lines b) m))) = Inr outs"
    using cronToUtc_cases [OF assms(1,2)] assms(3) by (metis Inr_inject)
  have ok: "cron_ok c" using parseCron_ok [OF assms(3)] .
  have slots: "(h, mi) \<in> set ?slots \<longleftrightarrow> h \<in> set (field_values (cron_hour c)) \<and> mi \<in> set (field_values (cron_minute c))" for h mi
    by auto
  have range: "\<forall>(h, mi) \<in> set ?slots. h \<in> {0..23} \<and> mi \<in> {0..59}"
    using cron_ok_lists(1,2) [OF ok] by (auto simp: field_list_def full_of_def full_defs)
  note table = add_times_scheduled [OF m _ ok off range]
  have mok: "spec_table_ok m" using table by simp
  have set: "set outs = set (js_set (concat (map (\<lambda>(k, b). bucket_lines b) m)))"
    using sortCronStrings_ok [of "js_set (concat (map (\<lambda>(k, b). bucket_lines b) m))" localeCompare]
      conjunct1 [OF output_fires [OF mok]] out by (metis mset_eq_setD Inr_inject)
  have \<delta>: "\<delta> \<in> {- 1, 0, 1}" using shift_range [OF assms(5-8) off assms(9)] by blast
  have D: "(if \<delta> = 0 then D else add_days D \<delta>) = add_days D \<delta>" using add_days_zero [OF assms(4)] by simp
  have days: "(\<exists>s \<in> set specs. spec_matches s (add_days D \<delta>)) \<longleftrightarrow> cron_day c D"
    if "convertDateSpec c \<delta> True = Inr specs" for specs
    using convertDateSpec_correct [OF ok \<delta> that] assms(4) D by metis
  have unique: "h1 = h \<and> m1 = mi \<and> \<delta>1 = \<delta>"
    if "(h1, m1) \<in> set ?slots" "shiftLocalTimeToUtc h1 m1 \<lfloor>q\<rfloor> = (h', mi', \<delta>1)" for h1 m1 \<delta>1
  proof -
    have "h1 \<in> {0..23} \<and> m1 \<in> {0..59}" using range that(1) by blast
    then have r: "0 \<le> h1" "h1 < 24" "0 \<le> m1" "m1 < 60" by simp_all
    show ?thesis using shift_unique [OF r assms(5-8) off that(2) assms(9)] .
  qed
  have sched: "scheduled m s h' mi' \<longleftrightarrow>
      (h, mi) \<in> set ?slots \<and> (\<exists>specs. convertDateSpec c \<delta> True = Inr specs \<and> s \<in> set specs)" for s
  proof -
    have "scheduled m s h' mi' \<longleftrightarrow> (\<exists>h1 m1 \<delta>1 specs. (h1, m1) \<in> set ?slots \<and>
        shiftLocalTimeToUtc h1 m1 \<lfloor>q\<rfloor> = (h', mi', \<delta>1) \<and> convertDateSpec c \<delta>1 True = Inr specs \<and> s \<in> set specs)"
      using table by simp
    then show ?thesis using unique assms(9) by blast
  qed
  have conv: "\<exists>specs. convertDateSpec c \<delta> True = Inr specs" if "(h, mi) \<in> set ?slots"
    using table that assms(9) by (metis snd_conv spec_table_Nil(1))
  have "(\<exists>s \<in> set outs. \<exists>c'. parseCron s = Inr c' \<and> cron_fires c' (add_days D \<delta>) h' mi') \<longleftrightarrow>
      (\<exists>s. scheduled m s h' mi' \<and> spec_matches s (add_days D \<delta>))"
    using conjunct2 [OF output_fires [OF mok]] unfolding set by blast
  also have "\<dots> \<longleftrightarrow> (h, mi) \<in> set ?slots \<and> cron_day c D"
    using sched days conv by metis
  also have "\<dots> \<longleftrightarrow> cron_fires c D h mi" unfolding cron_fires_def slots by blast
  finally show ?thesis by simp
qed

lemma sample_conversion:
  "cronToUtc code_unit_compare ''30 22 * * 1-5'' (Some (- 300)) None = Inr [''30 3 * * 2-6'']"
  by code_simp

lemma sample_parses: "\<exists>c. parseCron ''30 22 * * 1-5'' = Inr c"
proof -
  have "\<not> isl (parseCron ''30 22 * * 1-5'')" by code_simp
  then show ?thesis by (cases "parseCron ''30 22 * * 1-5''") auto
qed

theorem cron_to_utc_exact_witness:
  "\<exists>c. parseCron ''30 22 * * 1-5'' = Inr c \<and>
    (cron_fires c (2024, 2, 28, 3) 22 30 \<longleftrightarrow>
      (\<exists>s \<in> set [''30 3 * * 2-6'']. \<exists>c'. parseCron s = Inr c' \<and> cron_fires c' (add_days (2024, 2, 28, 3) 1) 3 30))"
proof -
  obtain c where c: "parseCron ''30 22 * * 1-5'' = Inr c" using sample_parses by blast
  have day: "valid_day (2024, 2, 28, 3)" by code_simp
  have shift: "shiftLocalTimeToUtc 22 30 \<lfloor>- 300 :: rat\<rfloor> = (3, 30, 1)" by code_simp
  from c cron_to_utc_exact [OF sample_conversion _ c day _ _ _ _ shift] show ?thesis
    by (intro exI [of _ c] conjI) simp_all
qed

lemma five_fields_unique:
  "five_fields (uniqueSorted mi) (uniqueSorted h) (uniqueSorted d) (uniqueSorted mo) (uniqueSorted w) = five_fields mi h d mo w"
  by (simp add: five_fields_def formatValues_def uniqueSorted_set)

lemma bucket_line_normal:
  assumes b: "bucket_ok k b" and s: "s \<in> set (bucket_lines b)"
  shows "normalizeCron s = Inr s"
proof -
  obtain hs ms where t: "(hs, ms) \<in> set (compactTimePairs (snd b))"
    and eq: "s = five_fields ms hs (spec_dom (fst b)) (spec_month (fst b)) (spec_dow (fst b))"
    using s by (auto simp: bucket_lines_def)
  have l: "field_list MinuteField ms" "field_list HourField hs" using conjunct2 [OF compact_entries [OF b]] t by auto
  have d: "field_list DayOfMonthField (spec_dom (fst b))" "field_list MonthField (spec_month (fst b))"
    "field_list DayOfWeekField (spec_dow (fst b))" using b by (simp_all add: bucket_ok_def spec_ok_def)
  from parse_five_fields [OF l d] show ?thesis unfolding eq
    by (auto simp: normalizeCron_def formatCron_five five_fields_unique)
qed

lemma sortCronStrings_sorted:
  assumes "comparator lc" and "sortCronStrings lc xs = Inr ys"
  shows "sorted_wrt (\<lambda>a b. \<forall>ca cb. parseCron a = Inr ca \<longrightarrow> parseCron b = Inr cb \<longrightarrow>
    compareParsedCrons lc (a, ca) (b, cb) \<le> 0) ys"
proof (cases "length xs < 2")
  case True
  then have "ys = xs" using assms(2) by (simp add: sortCronStrings_def)
  then show ?thesis using True by (cases xs; cases "tl xs") auto
next
  case False
  then obtain ps where ps: "parse_all xs = Inr ps" and ys: "ys = map fst (js_sort (compareParsedCrons lc) ps)"
    using assms(2) by (auto simp: sortCronStrings_def split: sum.splits)
  have parsed: "\<forall>p \<in> set ps. parseCron (fst p) = Inr (snd p)" using ps
    by (induction xs arbitrary: ps) (auto split: sum.splits)
  have "sorted_wrt (\<lambda>a b. compareParsedCrons lc a b \<le> 0) (js_sort (compareParsedCrons lc) ps)"
    by (rule comparator.js_sort_sorted [OF compareParsedCrons_comparator [OF assms(1)]])
  then have "sorted_wrt (\<lambda>a b. \<forall>ca cb. parseCron (fst a) = Inr ca \<longrightarrow> parseCron (fst b) = Inr cb \<longrightarrow>
      compareParsedCrons lc (fst a, ca) (fst b, cb) \<le> 0) (js_sort (compareParsedCrons lc) ps)"
    by (rule sorted_wrt_mono_rel [rotated]) (use parsed in auto)
  then show ?thesis by (simp add: ys sorted_wrt_map)
qed

text \<open>
  What is printed is canonical: in strict mode the output of a successful conversion is a list
  of different expressions, in the comparator's order for any consistent collation, each of which
  parses and is its own normal form.
\<close>

theorem cron_to_utc_canonical:
  assumes "cronToUtc localeCompare expression (Some q) strict = Inr outs" and "strict \<noteq> Some False"
    and "comparator localeCompare"
  shows "distinct outs \<and> (\<forall>s \<in> set outs. normalizeCron s = Inr s) \<and>
    sorted_wrt (\<lambda>a b. \<forall>ca cb. parseCron a = Inr ca \<longrightarrow> parseCron b = Inr cb \<longrightarrow>
      compareParsedCrons localeCompare (a, ca) (b, cb) \<le> 0) outs"
proof -
  obtain c m where c: "parseCron expression = Inr c" and off: "- 1440 < \<lfloor>q\<rfloor>" "\<lfloor>q\<rfloor> < 1440"
    and m: "add_times c \<lfloor>q\<rfloor> True [(h, mi). h \<leftarrow> field_values (cron_hour c), mi \<leftarrow> field_values (cron_minute c)] [] = Inr m"
    and out: "sortCronStrings localeCompare (js_set (concat (map (\<lambda>(k, b). bucket_lines b) m))) = Inr outs"
    using cronToUtc_cases [OF assms(1,2)] by metis
  let ?out = "js_set (concat (map (\<lambda>(k, b). bucket_lines b) m))"
  have ok: "cron_ok c" using parseCron_ok [OF c] .
  have range: "\<forall>(h, mi) \<in> set [(h, mi). h \<leftarrow> field_values (cron_hour c), mi \<leftarrow> field_values (cron_minute c)].
      h \<in> {0..23} \<and> mi \<in> {0..59}"
    using cron_ok_lists(1,2) [OF ok] by (auto simp: field_list_def full_of_def full_defs)
  have mok: "spec_table_ok m" using add_times_scheduled [OF m _ ok off range] by simp
  have mset: "mset outs = mset ?out"
    using sortCronStrings_ok [of ?out localeCompare] conjunct1 [OF output_fires [OF mok]] out by (metis Inr_inject)
  have "distinct outs" using mset_eq_imp_distinct_iff [OF mset] by simp
  moreover have "normalizeCron s = Inr s" if "s \<in> set outs" for s
  proof -
    have "s \<in> set ?out" using that mset_eq_setD [OF mset] by simp
    then obtain k b where kb: "(k, b) \<in> set m" "s \<in> set (bucket_lines b)" by auto
    have wf: "jm_wf m" using mok by (simp add: spec_table_ok_def)
    have "map_of m k = Some b" using kb(1) unfolding wf_entry [OF wf] .
    from bucket_line_normal [OF spec_table_entry [OF mok this] kb(2)] show ?thesis .
  qed
  ultimately show ?thesis using sortCronStrings_sorted [OF assms(3) out] by blast
qed

theorem cron_to_utc_canonical_witness:
  "distinct [''30 3 * * 2-6''] \<and> normalizeCron ''30 3 * * 2-6'' = Inr ''30 3 * * 2-6''"
  using cron_to_utc_canonical [OF sample_conversion _ cu.comparator_axioms] by simp

end
