(* ===== verification/Utf8.thy ===== *)
theory Utf8
  imports Complex_Main "HOL-Library.Word"
begin

text \<open>
  JavaScript strings as sequences of 16-bit code units, and the two standard encoders the RPC codec
  uses: \<open>new TextEncoder().encode\<close> (a lone surrogate becomes U+FFFD) and
  \<open>new TextDecoder().decode\<close> with its default options (malformed bytes become U+FFFD, a leading
  byte order mark is dropped), after the Encoding standard's UTF-8 encoder and decoder.
\<close>

type_synonym js_units = "16 word list"
type_synonym bytes = "8 word list"

definition is_high :: "16 word \<Rightarrow> bool" where "is_high u = (0xD800 \<le> unat u \<and> unat u < 0xDC00)"
definition is_low :: "16 word \<Rightarrow> bool" where "is_low u = (0xDC00 \<le> unat u \<and> unat u < 0xE000)"

fun to_scalars :: "js_units \<Rightarrow> nat list" where
  "to_scalars [] = []"
| "to_scalars [u] = [if is_high u \<or> is_low u then 0xFFFD else unat u]"
| "to_scalars (u # v # us) =
     (if is_high u \<and> is_low v
      then (0x10000 + (unat u - 0xD800) * 0x400 + (unat v - 0xDC00)) # to_scalars us
      else (if is_high u \<or> is_low u then 0xFFFD else unat u) # to_scalars (v # us))"

definition byte_of :: "nat \<Rightarrow> 8 word" where "byte_of n = of_nat n"
definition unit_of :: "nat \<Rightarrow> 16 word" where "unit_of n = of_nat n"

definition from_scalar :: "nat \<Rightarrow> js_units" where
  "from_scalar n =
     (if n < 0x10000 then [unit_of n]
      else [unit_of (0xD800 + (n - 0x10000) div 0x400), unit_of (0xDC00 + (n - 0x10000) mod 0x400)])"

definition utf8_scalar :: "nat \<Rightarrow> bytes" where
  "utf8_scalar n =
     (if n < 0x80 then [byte_of n]
      else if n < 0x800 then [byte_of (0xC0 + n div 64), byte_of (0x80 + n mod 64)]
      else if n < 0x10000
      then [byte_of (0xE0 + n div 4096), byte_of (0x80 + n div 64 mod 64), byte_of (0x80 + n mod 64)]
      else [byte_of (0xF0 + n div 262144), byte_of (0x80 + n div 4096 mod 64),
            byte_of (0x80 + n div 64 mod 64), byte_of (0x80 + n mod 64)])"

definition text_encode :: "js_units \<Rightarrow> bytes" where
  "text_encode s = concat (map utf8_scalar (to_scalars s))"

text \<open>
  The decoder between two characters, and inside one: \<open>k\<close> continuation bytes are missing, \<open>cp\<close>
  is the value so far, the next byte must lie between \<open>lo\<close> and \<open>hi\<close>; a byte that does not is
  read again as the start of a character.
\<close>

function utf8_decode :: "bytes \<Rightarrow> nat list"
  and utf8_continue :: "nat \<Rightarrow> nat \<Rightarrow> nat \<Rightarrow> nat \<Rightarrow> bytes \<Rightarrow> nat list" where
  "utf8_decode [] = []"
| "utf8_decode (b # bs) =
     (let n = unat b in
      if n < 0x80 then n # utf8_decode bs
      else if 0xC2 \<le> n \<and> n \<le> 0xDF then utf8_continue 1 (n - 0xC0) 0x80 0xBF bs
      else if 0xE0 \<le> n \<and> n \<le> 0xEF then
        utf8_continue 2 (n - 0xE0) (if n = 0xE0 then 0xA0 else 0x80) (if n = 0xED then 0x9F else 0xBF) bs
      else if 0xF0 \<le> n \<and> n \<le> 0xF4 then
        utf8_continue 3 (n - 0xF0) (if n = 0xF0 then 0x90 else 0x80) (if n = 0xF4 then 0x8F else 0xBF) bs
      else 0xFFFD # utf8_decode bs)"
| "utf8_continue k cp lo hi [] = [0xFFFD]"
| "utf8_continue k cp lo hi (b # bs) =
     (let n = unat b in
      if n < lo \<or> hi < n then 0xFFFD # utf8_decode (b # bs)
      else if k \<le> 1 then (cp * 64 + (n - 0x80)) # utf8_decode bs
      else utf8_continue (k - 1) (cp * 64 + (n - 0x80)) 0x80 0xBF bs)"
  by pat_completeness auto
termination
  by (relation "measure (\<lambda>x. case x of Inl bs \<Rightarrow> 2 * length bs | Inr (k, cp, lo, hi, bs) \<Rightarrow> 2 * length bs + 1)") auto

definition strip_bom :: "nat list \<Rightarrow> nat list" where
  "strip_bom ns = (case ns of [] \<Rightarrow> [] | n # rest \<Rightarrow> if n = 0xFEFF then rest else ns)"

definition text_decode :: "bytes \<Rightarrow> js_units" where
  "text_decode bs = concat (map from_scalar (strip_bom (utf8_decode bs)))"

section \<open>Round trip\<close>

definition is_scalar :: "nat \<Rightarrow> bool" where
  "is_scalar n \<longleftrightarrow> n < 0xD800 \<or> (0xE000 \<le> n \<and> n < 0x110000)"

text \<open>Strings that UTF-8 can carry: no lone surrogate, no leading byte order mark.\<close>

fun well_paired :: "js_units \<Rightarrow> bool" where
  "well_paired [] = True"
| "well_paired [u] = (\<not> is_high u \<and> \<not> is_low u)"
| "well_paired (u # v # us) =
     (if is_high u \<and> is_low v then well_paired us else \<not> is_high u \<and> \<not> is_low u \<and> well_paired (v # us))"

definition text_ok :: "js_units \<Rightarrow> bool" where
  "text_ok s \<longleftrightarrow> well_paired s \<and> (s = [] \<or> hd s \<noteq> 0xFEFF)"

lemma byte_of_nat: "n < 256 \<Longrightarrow> unat (byte_of n) = n"
  by (simp add: byte_of_def unat_of_nat)

lemma unit_of_unat [simp]: "unit_of (unat u) = u"
  by (simp add: unit_of_def)

lemma base64_two:
  fixes n :: nat
  obtains a b c where "n = (a * 64 + b) * 64 + c" "b < 64" "c < 64" "n div 4096 = a" "n div 64 mod 64 = b" "n mod 64 = c"
proof (rule that)
  show "n = (n div 4096 * 64 + n div 64 mod 64) * 64 + n mod 64"
    using div_mult2_eq [of n 64 64] div_mult_mod_eq [of "n div 64" 64] div_mult_mod_eq [of n 64] by simp
qed auto

lemma base64_three:
  fixes n :: nat
  obtains a b c d where "n = ((a * 64 + b) * 64 + c) * 64 + d" "b < 64" "c < 64" "d < 64"
    "n div 262144 = a" "n div 4096 mod 64 = b" "n div 64 mod 64 = c" "n mod 64 = d"
proof (rule that)
  show "n = ((n div 262144 * 64 + n div 4096 mod 64) * 64 + n div 64 mod 64) * 64 + n mod 64"
    using div_mult2_eq [of n 64 64] div_mult2_eq [of n 4096 64] div_mult_mod_eq [of "n div 4096" 64]
      div_mult_mod_eq [of "n div 64" 64] div_mult_mod_eq [of n 64] by simp
qed auto

lemma utf8_decode_scalar:
  assumes "is_scalar n"
  shows "utf8_decode (utf8_scalar n @ bs) = n # utf8_decode bs"
proof -
  consider "n < 0x80" | "0x80 \<le> n" "n < 0x800" | "0x800 \<le> n" "n < 0x10000" | "0x10000 \<le> n" "n < 0x110000"
    using assms unfolding is_scalar_def by linarith
  then show ?thesis
  proof cases
    case 1
    then show ?thesis by (simp add: utf8_scalar_def byte_of_nat)
  next
    case 2
    have "2 \<le> n div 64" "n div 64 < 32" using 2 by linarith+
    then show ?thesis using 2 by (simp add: utf8_scalar_def byte_of_nat Let_def)
  next
    case 3
    obtain a b c where n: "n = (a * 64 + b) * 64 + c" "b < 64" "c < 64"
      and e: "n div 4096 = a" "n div 64 mod 64 = b" "n mod 64 = c" by (rule base64_two)
    have flat: "n = a * 4096 + b * 64 + c" using n by simp
    have r: "a < 16" using 3 e(1) by linarith
    have l: "32 \<le> b" if "a = 0" using 3 flat n(2,3) that by simp
    have s: "b < 32" if "a = 13" using assms flat n(2,3) 3 that unfolding is_scalar_def by linarith
    have u: "utf8_scalar n = [byte_of (0xE0 + a), byte_of (0x80 + b), byte_of (0x80 + c)]"
      using 3 by (simp add: utf8_scalar_def e)
    show ?thesis unfolding u using n r l s by (simp add: byte_of_nat Let_def) (use l s in \<open>auto simp: not_less\<close>)
  next
    case 4
    obtain a b c d where n: "n = ((a * 64 + b) * 64 + c) * 64 + d" "b < 64" "c < 64" "d < 64"
      and e: "n div 262144 = a" "n div 4096 mod 64 = b" "n div 64 mod 64 = c" "n mod 64 = d" by (rule base64_three)
    have flat: "n = a * 262144 + b * 4096 + c * 64 + d" using n by simp
    have r: "a < 5" using 4 e(1) by linarith
    have l: "16 \<le> b" if "a = 0" using 4 flat n(2-4) that by linarith
    have h: "b < 16" if "a = 4" using 4 flat n(2-4) that by linarith
    have u: "utf8_scalar n = [byte_of (0xF0 + a), byte_of (0x80 + b), byte_of (0x80 + c), byte_of (0x80 + d)]"
      using 4 by (simp add: utf8_scalar_def e)
    show ?thesis unfolding u using n r l h by (simp add: byte_of_nat Let_def) (use l h in \<open>auto simp: not_less\<close>)
  qed
qed

lemma utf8_decode_scalars:
  "list_all is_scalar ns \<Longrightarrow> utf8_decode (concat (map utf8_scalar ns)) = ns"
  by (induction ns) (simp_all add: utf8_decode_scalar)

lemma unit_bound: "unat (u :: 16 word) < 65536"
proof -
  have "unat u < 2 ^ LENGTH(16)" by (rule unsigned_less)
  then show ?thesis by simp
qed

lemma from_scalar_unit: "from_scalar (unat (u :: 16 word)) = [u]"
  using unit_bound [of u] by (simp add: from_scalar_def)

lemma from_scalar_pair:
  assumes "is_high u" "is_low v"
  shows "from_scalar (0x10000 + (unat u - 0xD800) * 0x400 + (unat v - 0xDC00)) = [u, v]"
proof -
  obtain x where u: "unat u = 0xD800 + x" using assms(1) le_Suc_ex unfolding is_high_def by blast
  obtain y where v: "unat v = 0xDC00 + y" using assms(2) le_Suc_ex unfolding is_low_def by blast
  have "y < 1024" using assms(2) v by (simp add: is_low_def)
  then have "from_scalar (0x10000 + x * 0x400 + y) = [unit_of (0xD800 + x), unit_of (0xDC00 + y)]"
    by (simp add: from_scalar_def)
  then show ?thesis using u v by (metis diff_add_inverse unit_of_unat)
qed

lemma to_scalars_ok:
  "well_paired s \<Longrightarrow> list_all is_scalar (to_scalars s) \<and> concat (map from_scalar (to_scalars s)) = s"
proof (induction s rule: to_scalars.induct)
  case (2 u)
  then show ?case using unit_bound [of u] by (auto simp: is_scalar_def is_high_def is_low_def from_scalar_unit)
next
  case (3 u v us)
  show ?case
  proof (cases "is_high u \<and> is_low v")
    case True
    have "is_scalar (0x10000 + (unat u - 0xD800) * 0x400 + (unat v - 0xDC00))"
      using True unfolding is_scalar_def is_high_def is_low_def by linarith
    then show ?thesis using 3 True from_scalar_pair [of u v] by simp
  next
    case False
    then have "is_scalar (unat u)"
      using "3.prems" unit_bound [of u] by (auto simp: is_scalar_def is_high_def is_low_def split: if_splits)
    then show ?thesis using 3 False by (auto simp: from_scalar_unit split: if_splits)
  qed
qed simp

lemma to_scalars_hd_bom: "well_paired s \<Longrightarrow> to_scalars s = 0xFEFF # ns \<Longrightarrow> \<exists>rest. s = 0xFEFF # rest"
proof -
  assume w: "well_paired s" and t: "to_scalars s = 0xFEFF # ns"
  have "concat (map from_scalar (to_scalars s)) = s" using to_scalars_ok [OF w] by simp
  then have "s = from_scalar 0xFEFF @ concat (map from_scalar ns)" unfolding t by simp
  then show ?thesis by (simp add: from_scalar_def unit_of_def)
qed

text \<open>What the decoder makes of what the encoder wrote.\<close>

lemma text_roundtrip:
  assumes "text_ok s"
  shows "text_decode (text_encode s) = s"
proof -
  have w: "well_paired s" and b: "s = [] \<or> hd s \<noteq> 0xFEFF" using assms by (simp_all add: text_ok_def)
  note ok = to_scalars_ok [OF w]
  have "strip_bom (to_scalars s) = to_scalars s"
    using to_scalars_hd_bom [OF w] b by (auto simp: strip_bom_def split: list.split)
  then show ?thesis using ok by (simp add: text_decode_def text_encode_def utf8_decode_scalars)
qed

text \<open>A leading byte order mark is lost.\<close>

lemma text_loses_bom:
  assumes "well_paired s"
  shows "text_decode (text_encode (0xFEFF # s)) = s"
proof -
  note ok = to_scalars_ok [OF assms]
  have high: "\<not> is_high 0xFEFF" "\<not> is_low 0xFEFF" by (simp_all add: is_high_def is_low_def)
  have t: "to_scalars (0xFEFF # s) = 0xFEFF # to_scalars s" using high by (cases s) simp_all
  have "is_scalar 0xFEFF" by (simp add: is_scalar_def)
  then show ?thesis using ok by (simp add: text_decode_def text_encode_def t utf8_decode_scalar utf8_decode_scalars strip_bom_def)
qed

end
