(* ===== verification/Rpc_Codec.thy ===== *)
theory Rpc_Codec
  imports Utf8 "HOL-Library.AList"
begin

unbundle bit_operations_syntax

text \<open>
  The binary codec of the RPC transport (src/src/shared/rpc-binary-codec.ts). A writer is the list
  of bytes written so far, a reader the list of bytes not yet read. A JavaScript number is its
  64-bit IEEE pattern; an object is the list of its own enumerable string-keyed properties in the
  order \<open>Object.entries\<close> gives. Compression is a parameter: \<open>gzip\<close> and \<open>gunzip\<close>, None where the
  platform throws. Thrown errors are left injections.
\<close>

section \<open>Values and errors\<close>

datatype rpc_value =
    RUndefined
  | RNull
  | RBool bool
  | RNumber "64 word"
  | RString js_units
  | RArray "rpc_value list"
  | RObject "(js_units \<times> rpc_value) list"

datatype codec_error =
    UnexpectedEnd
  | UnexpectedRangeEnd
  | VarintTooLarge
  | TrailingBytes
  | UnsupportedTag "8 word"
  | InvalidMagic
  | UnsupportedVersion
  | UnsupportedFlags
  | DecodedLimit
  | CompressedRefused
  | GunzipFailed
  | OutOfFuel

type_synonym 'a read = "codec_error + 'a \<times> bytes"

definition MAGIC :: nat where "MAGIC = 0x4d52"
definition VERSION :: "8 word" where "VERSION = 1"
definition FLAG_COMPRESSED :: "8 word" where "FLAG_COMPRESSED = 1"
definition COMPRESS_THRESHOLD_BYTES :: nat where "COMPRESS_THRESHOLD_BYTES = 16 * 1024"
definition TAG_NULL :: "8 word" where "TAG_NULL = 0"
definition TAG_FALSE :: "8 word" where "TAG_FALSE = 1"
definition TAG_TRUE :: "8 word" where "TAG_TRUE = 2"
definition TAG_NUMBER :: "8 word" where "TAG_NUMBER = 3"
definition TAG_STRING :: "8 word" where "TAG_STRING = 4"
definition TAG_ARRAY :: "8 word" where "TAG_ARRAY = 5"
definition TAG_OBJECT :: "8 word" where "TAG_OBJECT = 6"

lemmas tag_defs = TAG_NULL_def TAG_FALSE_def TAG_TRUE_def TAG_NUMBER_def TAG_STRING_def TAG_ARRAY_def TAG_OBJECT_def

section \<open>The writer\<close>

text \<open>\<open>writeByte\<close> keeps the low eight bits.\<close>

definition writeByte :: "32 word \<Rightarrow> bytes" where
  "writeByte v = [ucast (v AND 0xff)]"

definition writeUint16 :: "32 word \<Rightarrow> bytes" where
  "writeUint16 v = writeByte (drop_bit 8 v) @ writeByte v"

definition writeUint32 :: "32 word \<Rightarrow> bytes" where
  "writeUint32 v = writeByte (drop_bit 24 v) @ writeByte (drop_bit 16 v) @ writeByte (drop_bit 8 v) @ writeByte v"

lemma drop_seven_less: "0x80 \<le> (r :: 32 word) \<Longrightarrow> unat (drop_bit 7 r) < unat r"
proof -
  assume "0x80 \<le> r"
  then have "128 \<le> unat r" by (simp add: word_le_nat_alt)
  then show ?thesis by (simp add: drop_bit_eq_div unat_div_distrib)
qed

function writeVarUint :: "32 word \<Rightarrow> bytes" where
  "writeVarUint remaining =
     (if 0x80 \<le> remaining
      then writeByte ((remaining AND 0x7f) OR 0x80) @ writeVarUint (drop_bit 7 remaining)
      else writeByte remaining)"
  by pat_completeness auto
termination by (relation "measure unat") (auto intro: drop_seven_less)

declare writeVarUint.simps [simp del]

text \<open>\<open>setFloat64(0, value, false)\<close>: eight bytes, the most significant first.\<close>

definition float64_bytes :: "64 word \<Rightarrow> bytes" where
  "float64_bytes w = map (\<lambda>i. ucast (drop_bit (8 * i) w)) [7, 6, 5, 4, 3, 2, 1, 0]"

definition write_text :: "js_units \<Rightarrow> bytes" where
  "write_text s = (let bytes = text_encode s in writeVarUint (of_nat (length bytes)) @ bytes)"

fun writeValue :: "rpc_value \<Rightarrow> bytes" where
  "writeValue RUndefined = [TAG_NULL]"
| "writeValue RNull = [TAG_NULL]"
| "writeValue (RBool b) = [if b then TAG_TRUE else TAG_FALSE]"
| "writeValue (RNumber w) = TAG_NUMBER # float64_bytes w"
| "writeValue (RString s) = TAG_STRING # write_text s"
| "writeValue (RArray vs) =
     TAG_ARRAY # writeVarUint (of_nat (length vs)) @ concat (map writeValue vs)"
| "writeValue (RObject es) =
     (let entries = filter (\<lambda>(k, v). v \<noteq> RUndefined) es in
      TAG_OBJECT # writeVarUint (of_nat (length entries)) @
        concat (map (\<lambda>(k, v). if v = RUndefined then [] else write_text k @ writeValue v) es))"

section \<open>The reader\<close>

definition readByte :: "bytes \<Rightarrow> (8 word) read" where
  "readByte bs = (case bs of [] \<Rightarrow> Inl UnexpectedEnd | b # rest \<Rightarrow> Inr (b, rest))"

definition readUint16 :: "bytes \<Rightarrow> nat read" where
  "readUint16 bs =
     (case readByte bs of Inl e \<Rightarrow> Inl e | Inr (a, bs1) \<Rightarrow>
        (case readByte bs1 of Inl e \<Rightarrow> Inl e | Inr (b, bs2) \<Rightarrow> Inr (unat a * 256 + unat b, bs2)))"

definition readUint32 :: "bytes \<Rightarrow> (32 word) read" where
  "readUint32 bs =
     (case readByte bs of Inl e \<Rightarrow> Inl e | Inr (a, bs1) \<Rightarrow>
     (case readByte bs1 of Inl e \<Rightarrow> Inl e | Inr (b, bs2) \<Rightarrow>
     (case readByte bs2 of Inl e \<Rightarrow> Inl e | Inr (c, bs3) \<Rightarrow>
     (case readByte bs3 of Inl e \<Rightarrow> Inl e | Inr (d, bs4) \<Rightarrow>
        Inr (ucast a * 0x1000000 + push_bit 16 (ucast b) + push_bit 8 (ucast c) + ucast d, bs4)))))"

function readVarUintLoop :: "32 word \<Rightarrow> nat \<Rightarrow> bytes \<Rightarrow> (32 word) read" where
  "readVarUintLoop result shift bs =
     (if shift \<le> 28
      then (case readByte bs of
              Inl e \<Rightarrow> Inl e
            | Inr (byte, rest) \<Rightarrow>
                (let result' = result OR push_bit shift (ucast (byte AND 0x7f)) in
                 if byte AND 0x80 = 0 then Inr (result', rest)
                 else readVarUintLoop result' (shift + 7) rest))
      else Inl VarintTooLarge)"
  by pat_completeness auto
termination by (relation "measure (\<lambda>(r, s, bs). 29 - s)") auto

declare readVarUintLoop.simps [simp del]

definition readVarUint :: "bytes \<Rightarrow> (32 word) read" where
  "readVarUint bs = readVarUintLoop 0 0 bs"

definition readBytes :: "nat \<Rightarrow> bytes \<Rightarrow> bytes read" where
  "readBytes n bs = (if length bs < n then Inl UnexpectedRangeEnd else Inr (take n bs, drop n bs))"

definition assertDone :: "bytes \<Rightarrow> codec_error + unit" where
  "assertDone bs = (if bs = [] then Inr () else Inl TrailingBytes)"

text \<open>\<open>getFloat64(0, false)\<close>.\<close>

definition float64_of :: "bytes \<Rightarrow> 64 word" where
  "float64_of bs = foldl (\<lambda>w b. push_bit 8 w OR ucast b) 0 bs"

definition read_text :: "bytes \<Rightarrow> js_units read" where
  "read_text bs =
     (case readVarUint bs of Inl e \<Rightarrow> Inl e | Inr (n, bs1) \<Rightarrow>
        (case readBytes (unat n) bs1 of Inl e \<Rightarrow> Inl e | Inr (text, bs2) \<Rightarrow> Inr (text_decode text, bs2)))"

text \<open>
  \<open>value[key] = v\<close> on an ordinary object: an own property keeps its place; a new one goes behind
  the others, array indices before all other keys in numeric order; the key \<open>__proto__\<close> reaches the
  setter of \<open>Object.prototype\<close> and makes no own property.
\<close>

definition PROTO :: js_units where
  "PROTO = [0x5f, 0x5f, 0x70, 0x72, 0x6f, 0x74, 0x6f, 0x5f, 0x5f]"

definition index_value :: "js_units \<Rightarrow> nat" where
  "index_value k = foldl (\<lambda>n u. 10 * n + (unat u - 48)) 0 k"

definition is_array_index :: "js_units \<Rightarrow> bool" where
  "is_array_index k \<longleftrightarrow> k \<noteq> [] \<and> list_all (\<lambda>u. 48 \<le> unat u \<and> unat u \<le> 57) k \<and>
     (hd k = 48 \<longrightarrow> length k = 1) \<and> index_value k < 2 ^ 32 - 1"

definition assign_property :: "js_units \<Rightarrow> rpc_value \<Rightarrow> (js_units \<times> rpc_value) list \<Rightarrow> (js_units \<times> rpc_value) list" where
  "assign_property k v es =
     (if k = PROTO then es
      else if k \<in> set (map fst es) then AList.update k v es
      else if is_array_index k then
        (let before = (\<lambda>e. is_array_index (fst e) \<and> index_value (fst e) < index_value k) in
         takeWhile before es @ (k, v) # dropWhile before es)
      else es @ [(k, v)])"

text \<open>
  The recursive reader. The first argument bounds the nesting; \<open>decode_body\<close> starts with one more
  than the number of bytes, which is never used up.
\<close>

function readValue :: "nat \<Rightarrow> bytes \<Rightarrow> rpc_value read"
  and readItems :: "nat \<Rightarrow> nat \<Rightarrow> bytes \<Rightarrow> rpc_value list read"
  and readEntries :: "nat \<Rightarrow> nat \<Rightarrow> (js_units \<times> rpc_value) list \<Rightarrow> bytes \<Rightarrow> (js_units \<times> rpc_value) list read" where
  "readValue 0 bs = Inl OutOfFuel"
| "readValue (Suc fuel) bs =
     (case readByte bs of
        Inl e \<Rightarrow> Inl e
      | Inr (tag, bs1) \<Rightarrow>
          (if tag = TAG_NULL then Inr (RNull, bs1)
           else if tag = TAG_FALSE then Inr (RBool False, bs1)
           else if tag = TAG_TRUE then Inr (RBool True, bs1)
           else if tag = TAG_NUMBER then
             (case readBytes 8 bs1 of Inl e \<Rightarrow> Inl e | Inr (b, bs2) \<Rightarrow> Inr (RNumber (float64_of b), bs2))
           else if tag = TAG_STRING then
             (case read_text bs1 of Inl e \<Rightarrow> Inl e | Inr (s, bs2) \<Rightarrow> Inr (RString s, bs2))
           else if tag = TAG_ARRAY then
             (case readVarUint bs1 of Inl e \<Rightarrow> Inl e | Inr (n, bs2) \<Rightarrow>
                (case readItems fuel (unat n) bs2 of Inl e \<Rightarrow> Inl e | Inr (vs, bs3) \<Rightarrow> Inr (RArray vs, bs3)))
           else if tag = TAG_OBJECT then
             (case readVarUint bs1 of Inl e \<Rightarrow> Inl e | Inr (n, bs2) \<Rightarrow>
                (case readEntries fuel (unat n) [] bs2 of Inl e \<Rightarrow> Inl e | Inr (es, bs3) \<Rightarrow> Inr (RObject es, bs3)))
           else Inl (UnsupportedTag tag)))"
| "readItems fuel 0 bs = Inr ([], bs)"
| "readItems fuel (Suc n) bs =
     (case readValue fuel bs of Inl e \<Rightarrow> Inl e | Inr (v, bs1) \<Rightarrow>
        (case readItems fuel n bs1 of Inl e \<Rightarrow> Inl e | Inr (vs, bs2) \<Rightarrow> Inr (v # vs, bs2)))"
| "readEntries fuel 0 es bs = Inr (es, bs)"
| "readEntries fuel (Suc n) es bs =
     (case read_text bs of Inl e \<Rightarrow> Inl e | Inr (k, bs1) \<Rightarrow>
        (case readValue fuel bs1 of Inl e \<Rightarrow> Inl e | Inr (v, bs2) \<Rightarrow>
           readEntries fuel n (assign_property k v es) bs2))"
  by pat_completeness auto
termination
  by (relation "measures [\<lambda>x. case x of Inl (f, _) \<Rightarrow> 2 * f | Inr (Inl (f, _, _)) \<Rightarrow> 2 * f + 1 | Inr (Inr (f, _, _, _)) \<Rightarrow> 2 * f + 1,
        \<lambda>x. case x of Inl _ \<Rightarrow> 0 | Inr (Inl (_, n, _)) \<Rightarrow> n | Inr (Inr (_, n, _, _)) \<Rightarrow> n]") auto

section \<open>Frames\<close>

definition isRpcBinaryFrame :: "bytes \<Rightarrow> bool" where
  "isRpcBinaryFrame bs \<longleftrightarrow> 4 \<le> length bs \<and> unat (bs ! 0) * 256 + unat (bs ! 1) = MAGIC"

definition encode_frame :: "8 word \<Rightarrow> bytes \<Rightarrow> bytes" where
  "encode_frame flags body =
     writeUint16 (of_nat MAGIC) @ [VERSION] @ [flags] @ writeUint32 (of_nat (length body)) @ body"

definition encodeRpcBinaryFrame :: "(bytes \<Rightarrow> bytes) \<Rightarrow> rpc_value \<Rightarrow> bool option \<Rightarrow> bytes" where
  "encodeRpcBinaryFrame gzip v compress =
     (let body = writeValue v in
      if compress \<noteq> Some False \<and> COMPRESS_THRESHOLD_BYTES \<le> length body \<and> length (gzip body) < length body
      then encode_frame FLAG_COMPRESSED (gzip body)
      else encode_frame 0 body)"

definition over_limit :: "int option \<Rightarrow> bytes \<Rightarrow> bool" where
  "over_limit limit body = (case limit of None \<Rightarrow> False | Some n \<Rightarrow> n < int (length body))"

definition decode_body :: "bytes \<Rightarrow> codec_error + rpc_value" where
  "decode_body body =
     (case readValue (Suc (length body)) body of
        Inl e \<Rightarrow> Inl e
      | Inr (v, rest) \<Rightarrow> (case assertDone rest of Inl e \<Rightarrow> Inl e | Inr u \<Rightarrow> Inr v))"

definition decode_payload ::
    "(bytes \<Rightarrow> bytes option) \<Rightarrow> bool option \<Rightarrow> int option \<Rightarrow> 8 word \<Rightarrow> bytes \<Rightarrow> codec_error + rpc_value" where
  "decode_payload gunzip allowCompressed limit flags body =
     (if over_limit limit body then Inl DecodedLimit
      else if flags AND FLAG_COMPRESSED \<noteq> 0 then
        (if allowCompressed = Some False then Inl CompressedRefused
         else (case gunzip body of
                 None \<Rightarrow> Inl GunzipFailed
               | Some body' \<Rightarrow> if over_limit limit body' then Inl DecodedLimit else decode_body body'))
      else decode_body body)"

definition decodeRpcBinaryFrame ::
    "(bytes \<Rightarrow> bytes option) \<Rightarrow> bytes \<Rightarrow> bool option \<Rightarrow> int option \<Rightarrow> codec_error + rpc_value" where
  "decodeRpcBinaryFrame gunzip frame allowCompressed limit =
     (case readUint16 frame of Inl e \<Rightarrow> Inl e | Inr (magic, bs1) \<Rightarrow>
      if magic \<noteq> MAGIC then Inl InvalidMagic
      else (case readByte bs1 of Inl e \<Rightarrow> Inl e | Inr (version, bs2) \<Rightarrow>
      if version \<noteq> VERSION then Inl UnsupportedVersion
      else (case readByte bs2 of Inl e \<Rightarrow> Inl e | Inr (flags, bs3) \<Rightarrow>
      if flags AND NOT FLAG_COMPRESSED \<noteq> 0 then Inl UnsupportedFlags
      else (case readUint32 bs3 of Inl e \<Rightarrow> Inl e | Inr (len, bs4) \<Rightarrow>
        (case readBytes (unat len) bs4 of Inl e \<Rightarrow> Inl e | Inr (body, bs5) \<Rightarrow>
          (case assertDone bs5 of Inl e \<Rightarrow> Inl e | Inr u \<Rightarrow>
             decode_payload gunzip allowCompressed limit flags body))))))"

section \<open>The primitives read what they write\<close>

lemma and_ff: "v AND 0xff = take_bit 8 (v :: 32 word)"
  by (simp add: take_bit_eq_mask mask_eq_exp_minus_1)

lemma and_7f: "v AND 0x7f = take_bit 7 (v :: 32 word)"
  by (simp add: take_bit_eq_mask mask_eq_exp_minus_1)

lemma and_7f_byte: "b AND 0x7f = take_bit 7 (b :: 8 word)"
  by (simp add: take_bit_eq_mask mask_eq_exp_minus_1)

lemma ucast_take_byte: "ucast (take_bit 8 (v :: 32 word)) = (ucast v :: 8 word)"
  by (rule bit_eqI) (auto simp: bit_unsigned_iff bit_take_bit_iff)

lemma writeByte_ucast: "writeByte v = [ucast v]"
  by (simp add: writeByte_def and_ff ucast_take_byte)

lemma unat_ucast_byte: "unat (ucast (w :: 32 word) :: 8 word) = unat w mod 256"
  by (simp add: unsigned_ucast_eq take_bit_eq_mod)

lemma unat_byte: "unat (ucast (drop_bit k (w :: 32 word)) :: 8 word) = unat w div 2 ^ k mod 256"
  by (simp only: unat_ucast_byte unat_drop_bit_eq) (simp only: drop_bit_eq_div)

lemma base256_four:
  fixes n :: nat
  assumes "n < 4294967296"
  shows "n div 2 ^ 24 mod 256 * 16777216 + n div 2 ^ 16 mod 256 * 65536 + n div 2 ^ 8 mod 256 * 256 + n mod 256 = n"
proof -
  have q: "n div 2 ^ 8 = n div 256" "n div 2 ^ 16 = n div 256 div 256" "n div 2 ^ 24 = n div 256 div 256 div 256"
    by (simp_all add: div_mult2_eq [symmetric])
  have e: "n div 256 * 256 + n mod 256 = n" "n div 256 div 256 * 256 + n div 256 mod 256 = n div 256"
    "n div 256 div 256 div 256 * 256 + n div 256 div 256 mod 256 = n div 256 div 256"
    by (rule div_mult_mod_eq)+
  have "n div 256 div 256 div 256 < 256" using assms by linarith
  then have "n div 256 div 256 div 256 mod 256 = n div 256 div 256 div 256" by (rule mod_less)
  with e show ?thesis unfolding q by linarith
qed

lemma word_of_unat_byte: "ucast (b :: 8 word) = (of_nat (unat b) :: 32 word)"
  by simp

lemma readUint32_write: "readUint32 (writeUint32 w @ bs) = Inr (w, bs)"
proof -
  let ?n = "unat w"
  have n: "?n < 4294967296" using unsigned_less [of w] by simp
  have "ucast (ucast (drop_bit 24 w) :: 8 word) * 0x1000000 + push_bit 16 (ucast (ucast (drop_bit 16 w) :: 8 word)) +
      push_bit 8 (ucast (ucast (drop_bit 8 w) :: 8 word)) + ucast (ucast w :: 8 word) =
      (of_nat (?n div 2 ^ 24 mod 256 * 16777216 + ?n div 2 ^ 16 mod 256 * 65536 + ?n div 2 ^ 8 mod 256 * 256 + ?n mod 256) :: 32 word)"
    unfolding word_of_unat_byte unat_byte
    unfolding unat_ucast_byte push_bit_eq_mult by (simp only: of_nat_add of_nat_mult) simp
  also have "\<dots> = w" unfolding base256_four [OF n] by simp
  finally show ?thesis
    by (simp add: writeUint32_def writeByte_ucast readUint32_def readByte_def)
qed

lemma readUint16_write:
  assumes "n < 65536"
  shows "readUint16 (writeUint16 (of_nat n) @ bs) = Inr (n, bs)"
proof -
  have u: "unat (of_nat n :: 32 word) = n" using assms by (simp add: unat_of_nat)
  have "n div 256 mod 256 * 256 + n mod 256 = n" using assms by (simp add: div_less_iff_less_mult)
  moreover have "unat (ucast (drop_bit 8 (of_nat n :: 32 word)) :: 8 word) = n div 256 mod 256"
    by (subst unat_byte) (simp add: u del: unsigned_of_nat)
  moreover have "unat (ucast (of_nat n :: 32 word) :: 8 word) = n mod 256"
    by (subst unat_ucast_byte) (simp add: u del: unsigned_of_nat)
  ultimately show ?thesis
    by (simp only: writeUint16_def writeByte_ucast readUint16_def readByte_def append.simps list.case sum.case prod.case)
qed

lemma float_step:
  "push_bit 8 (drop_bit (8 * Suc i) w) OR ucast (ucast (drop_bit (8 * i) w) :: 8 word) = drop_bit (8 * i) (w :: 64 word)"
  by (rule bit_eqI) (auto simp: bit_or_iff bit_push_bit_iff bit_unsigned_iff bit_drop_bit_eq not_less add.commute dest: bit_imp_le_length)

lemma float_top: "push_bit 8 0 OR ucast (ucast (drop_bit 56 w) :: 8 word) = drop_bit 56 (w :: 64 word)"
  by (rule bit_eqI) (auto simp: bit_or_iff bit_unsigned_iff bit_drop_bit_eq dest: bit_imp_le_length)

lemma float64_roundtrip: "float64_of (float64_bytes w) = w"
  using float_step [of 6 w] float_step [of 5 w] float_step [of 4 w] float_step [of 3 w] float_step [of 2 w]
    float_step [of 1 w] float_step [of 0 w] float_top [of w]
  by (simp add: float64_of_def float64_bytes_def)

text \<open>A group of seven bits, read at its place, puts the rest of the number behind it.\<close>

lemma bit_80: "bit (0x80 :: 32 word) n \<longleftrightarrow> n = 7"
proof -
  have "(0x80 :: 32 word) = 2 ^ 7" by simp
  then show ?thesis by (simp only: bit_exp_iff) auto
qed

lemma bit_80_byte: "bit (0x80 :: 8 word) n \<longleftrightarrow> n = 7"
proof -
  have "(0x80 :: 8 word) = 2 ^ 7" by simp
  then show ?thesis by (simp only: bit_exp_iff) auto
qed

lemma varuint_byte:
  "ucast (ucast ((r AND 0x7f) OR 0x80) AND 0x7f :: 8 word) = (r AND 0x7f :: 32 word)"
  unfolding and_7f and_7f_byte
  by (rule bit_eqI) (simp only: bit_unsigned_iff bit_take_bit_iff bit_or_iff bit_80, auto)

lemma varuint_more: "(ucast ((r :: 32 word) AND 0x7f OR 0x80) AND 0x80 :: 8 word) \<noteq> 0"
proof -
  have "bit (ucast (r AND 0x7f OR 0x80) AND 0x80 :: 8 word) 7"
    by (simp add: bit_and_iff bit_unsigned_iff bit_or_iff bit_80 bit_80_byte)
  then show ?thesis by (metis bit_0_eq bot_apply bot_bool_def)
qed

lemma varuint_last:
  assumes "\<not> 0x80 \<le> (r :: 32 word)"
  shows "ucast (ucast r AND 0x7f :: 8 word) = r" "(ucast r AND 0x80 :: 8 word) = 0"
proof -
  have "unat r < 128" using assms by (simp add: word_le_nat_alt not_le)
  then have "take_bit 7 (unat r) = unat r" by (simp add: take_bit_eq_mod)
  then have t: "take_bit 7 r = r" by (simp add: word_unat_eq_iff unsigned_take_bit_eq)
  then have b: "bit r n \<Longrightarrow> n < 7" for n by (metis bit_take_bit_iff)
  show "ucast (ucast r AND 0x7f :: 8 word) = r" unfolding and_7f_byte
    by (rule bit_eqI) (auto simp: bit_unsigned_iff bit_take_bit_iff dest: b)
  show "(ucast r AND 0x80 :: 8 word) = 0"
    by (rule bit_eqI) (simp only: bit_and_iff bit_80_byte bit_unsigned_iff bit_0_eq bot_apply, use b in auto)
qed

lemma or_groups: "(acc OR push_bit s (r AND 0x7f)) OR push_bit (s + 7) (drop_bit 7 r) = acc OR push_bit s (r :: 32 word)"
  unfolding and_7f
proof (rule bit_eqI)
  fix n
  show "bit ((acc OR push_bit s (take_bit 7 r)) OR push_bit (s + 7) (drop_bit 7 r)) n \<longleftrightarrow> bit (acc OR push_bit s r) n"
  proof (cases "s \<le> n")
    case True
    then obtain k where "n = s + k" using le_Suc_ex by blast
    then show ?thesis
      by (cases "k < 7") (auto simp: bit_or_iff bit_push_bit_iff bit_take_bit_iff bit_drop_bit_eq)
  qed (simp add: bit_or_iff bit_push_bit_iff)
qed

lemma readVarUintLoop_write:
  assumes "s \<le> 28" "7 dvd s" "unat r < 2 ^ (32 - s)"
  shows "readVarUintLoop acc s (writeVarUint r @ bs) = Inr (acc OR push_bit s r, bs)"
  using assms
proof (induction r arbitrary: acc s rule: writeVarUint.induct)
  case (1 r)
  show ?case
  proof (cases "0x80 \<le> r")
    case False
    then have w: "writeVarUint r = [ucast r]" by (subst writeVarUint.simps) (simp add: writeByte_ucast)
    show ?thesis using "1.prems"(1) varuint_last [OF False]
      by (subst readVarUintLoop.simps) (simp add: w readByte_def Let_def)
  next
    case True
    let ?b = "ucast ((r AND 0x7f) OR 0x80) :: 8 word"
    have w: "writeVarUint r = ?b # writeVarUint (drop_bit 7 r)"
      using True by (subst writeVarUint.simps) (simp add: writeByte_ucast)
    have "128 \<le> unat r" using True by (simp add: word_le_nat_alt)
    then have lt: "(2::nat) ^ 7 < 2 ^ (32 - s)" using "1.prems"(3) by simp
    then have "7 < 32 - s" by (metis nat_power_less_imp_less zero_less_numeral)
    then have s: "s + 7 \<le> 28" using "1.prems"(1,2) by (auto elim!: dvdE)
    have "unat (drop_bit 7 r) = unat r div 2 ^ 7" by (simp only: unat_drop_bit_eq) (simp only: drop_bit_eq_div)
    moreover have "(2::nat) ^ (32 - s) = 2 ^ (32 - (s + 7)) * 2 ^ 7"
    proof -
      have "32 - s = 32 - (s + 7) + 7" using s by simp
      then show ?thesis by (simp only: power_add)
    qed
    ultimately have r: "unat (drop_bit 7 r) < 2 ^ (32 - (s + 7))"
      using "1.prems"(3) by (simp add: less_mult_imp_div_less)
    have "readVarUintLoop acc s (writeVarUint r @ bs) =
        readVarUintLoop (acc OR push_bit s (r AND 0x7f)) (s + 7) (writeVarUint (drop_bit 7 r) @ bs)"
      using "1.prems"(1) varuint_more [of r] varuint_byte [of r]
      by (subst readVarUintLoop.simps) (simp add: w readByte_def Let_def)
    also have "\<dots> = Inr ((acc OR push_bit s (r AND 0x7f)) OR push_bit (s + 7) (drop_bit 7 r), bs)"
      using "1.prems"(2) s by (intro "1.IH" [OF True _ _ r]) auto
    finally show ?thesis by (simp only: or_groups)
  qed
qed

lemma varuint_roundtrip: "readVarUint (writeVarUint w @ bs) = Inr (w, bs)"
  using readVarUintLoop_write [of 0 w 0 bs] unsigned_less [of w] by (simp add: readVarUint_def)

section \<open>Every byte string is decided\<close>

lemma readByte_rest: "readByte bs = Inr (b, rest) \<Longrightarrow> bs = b # rest"
  by (cases bs) (auto simp: readByte_def)

lemma readVarUintLoop_rest: "readVarUintLoop r s bs = Inr (n, rest) \<Longrightarrow> length rest < length bs"
proof (induction r s bs rule: readVarUintLoop.induct)
  case (1 r s bs)
  then show ?case
    by (subst (asm) (2) readVarUintLoop.simps)
       (fastforce simp: Let_def split: if_splits sum.splits dest!: readByte_rest)
qed

lemma readVarUint_rest: "readVarUint bs = Inr (n, rest) \<Longrightarrow> length rest < length bs"
  unfolding readVarUint_def by (rule readVarUintLoop_rest)

lemma readBytes_rest: "readBytes n bs = Inr (x, rest) \<Longrightarrow> length rest \<le> length bs \<and> bs = x @ rest \<and> length x = n"
  by (auto simp: readBytes_def split: if_splits)

lemma read_text_rest: "read_text bs = Inr (s, rest) \<Longrightarrow> length rest < length bs"
  by (auto simp: read_text_def split: sum.splits dest!: readVarUint_rest readBytes_rest)

lemma no_fuel_error:
  "readByte bs \<noteq> Inl OutOfFuel" "readVarUintLoop r s bs \<noteq> Inl OutOfFuel" "readVarUint bs \<noteq> Inl OutOfFuel"
  "readBytes n bs \<noteq> Inl OutOfFuel" "read_text bs \<noteq> Inl OutOfFuel"
proof -
  show loop: "readVarUintLoop r s bs \<noteq> Inl OutOfFuel" for r s bs
  proof (induction r s bs rule: readVarUintLoop.induct)
    case (1 r s bs)
    then show ?case
      by (subst readVarUintLoop.simps) (auto simp: Let_def readByte_def split: sum.splits list.splits)
  qed
  show "readByte bs \<noteq> Inl OutOfFuel" "readBytes n bs \<noteq> Inl OutOfFuel"
    by (auto simp: readByte_def readBytes_def split: list.splits)
  show "readVarUint bs \<noteq> Inl OutOfFuel" by (simp add: readVarUint_def loop)
  then show "read_text bs \<noteq> Inl OutOfFuel"
    by (auto simp: read_text_def readBytes_def split: sum.splits if_splits)
qed

lemma readers_consume:
  "readValue f bs = Inr (v, rest) \<Longrightarrow> length rest < length bs"
  "readItems f n bs = Inr (vs, rest) \<Longrightarrow> length rest \<le> length bs"
  "readEntries f n es bs = Inr (ws, rest) \<Longrightarrow> length rest \<le> length bs"
proof (induction f bs and f n bs and f n es bs arbitrary: v rest and vs rest and ws rest
    rule: readValue_readItems_readEntries.induct)
  case (2 fuel bs)
  then show ?case
    by (fastforce split: sum.splits if_splits dest!: readByte_rest readVarUint_rest readBytes_rest read_text_rest)
next
  case (4 fuel n bs)
  then show ?case by (fastforce split: sum.splits)
next
  case (6 fuel n es bs)
  then show ?case by (fastforce split: sum.splits dest!: read_text_rest)
qed auto

lemma enough_fuel:
  "length bs < f \<Longrightarrow> readValue f bs \<noteq> Inl OutOfFuel"
  "length bs < f \<Longrightarrow> readItems f n bs \<noteq> Inl OutOfFuel"
  "length bs < f \<Longrightarrow> readEntries f n es bs \<noteq> Inl OutOfFuel"
proof (induction f bs and f n bs and f n es bs rule: readValue_readItems_readEntries.induct)
  case (2 fuel bs)
  show ?case
  proof (cases "readByte bs")
    case (Inl e)
    then show ?thesis using no_fuel_error(1) [of bs] by simp
  next
    case (Inr p)
    obtain tag bs1 where p: "p = (tag, bs1)" by (cases p)
    have l: "length bs = Suc (length bs1)" using Inr p readByte_rest by fastforce
    have u: "length bs2 < fuel" if "readVarUint bs1 = Inr (n, bs2)" for n bs2
      using readVarUint_rest [OF that] "2.prems" l by simp
    show ?thesis using Inr p u no_fuel_error(3-5) "2.IH"
      by (auto split: sum.splits if_splits)
  qed
next
  case (4 fuel n bs)
  show ?case
  proof (cases "readValue fuel bs")
    case (Inl e)
    then show ?thesis using 4 by simp
  next
    case (Inr p)
    obtain v bs1 where p: "p = (v, bs1)" by (cases p)
    then have "length bs1 < fuel" using readers_consume(1) Inr "4.prems" by fastforce
    then have "readItems fuel n bs1 \<noteq> Inl OutOfFuel" using "4.IH"(2) Inr p by simp
    then show ?thesis using Inr p by (auto split: sum.splits)
  qed
next
  case (6 fuel n es bs)
  show ?case
  proof (cases "read_text bs")
    case (Inl e)
    then show ?thesis using no_fuel_error(5) [of bs] by simp
  next
    case (Inr p)
    obtain k bs1 where p: "p = (k, bs1)" by (cases p)
    then have l: "length bs1 < fuel" using read_text_rest Inr "6.prems" by fastforce
    then have nv: "readValue fuel bs1 \<noteq> Inl OutOfFuel" using "6.IH"(1) Inr p by simp
    show ?thesis
    proof (cases "readValue fuel bs1")
      case (Inl e)
      then show ?thesis using \<open>read_text bs = Inr p\<close> p nv by simp
    next
      case r: (Inr q)
      obtain v bs2 where q: "q = (v, bs2)" by (cases q)
      then have "length bs2 < fuel" using readers_consume(1) r l by fastforce
      then show ?thesis using "6.IH"(2) Inr p r q by simp
    qed
  qed
qed auto

section \<open>What the reader makes of what the writer wrote\<close>

definition str_ok :: "js_units \<Rightarrow> bool" where
  "str_ok s \<longleftrightarrow> text_ok s \<and> length (text_encode s) < 2 ^ 32"

text \<open>The keys in the order an object has them: array indices ascending, then the others.\<close>

definition own_order :: "js_units list \<Rightarrow> bool" where
  "own_order ks \<longleftrightarrow> distinct ks \<and> PROTO \<notin> set ks \<and>
     sorted_wrt (\<lambda>a b. is_array_index b \<longrightarrow> is_array_index a \<and> index_value a < index_value b) ks"

abbreviation defined_entries :: "(js_units \<times> rpc_value) list \<Rightarrow> (js_units \<times> rpc_value) list" where
  "defined_entries \<equiv> filter (\<lambda>(k, v). v \<noteq> RUndefined)"

fun value_ok :: "rpc_value \<Rightarrow> bool" where
  "value_ok (RString s) = str_ok s"
| "value_ok (RArray vs) = (length vs < 2 ^ 32 \<and> list_all value_ok vs)"
| "value_ok (RObject es) =
     (length es < 2 ^ 32 \<and> own_order (map fst es) \<and> list_all (\<lambda>(k, v). str_ok k \<and> value_ok v) es)"
| "value_ok _ = True"

text \<open>Undefined array elements arrive as null, undefined properties not at all.\<close>

fun received :: "rpc_value \<Rightarrow> rpc_value" where
  "received RUndefined = RNull"
| "received (RArray vs) = RArray (map received vs)"
| "received (RObject es) = RObject (map (\<lambda>(k, v). (k, received v)) (defined_entries es))"
| "received v = v"

lemma unat_length: "n < 2 ^ 32 \<Longrightarrow> unat (of_nat n :: 32 word) = n"
  by (simp add: unat_of_nat)

lemma read_text_write: "str_ok s \<Longrightarrow> read_text (write_text s @ bs) = Inr (s, bs)"
  by (simp add: read_text_def write_text_def Let_def varuint_roundtrip readBytes_def unat_length str_ok_def
      text_roundtrip del: unsigned_of_nat)

lemma assign_snoc:
  assumes "own_order (map fst es @ [k])"
  shows "assign_property k v es = es @ [(k, v)]"
proof -
  have new: "k \<notin> set (map fst es)" "k \<noteq> PROTO" using assms by (auto simp: own_order_def)
  have "\<forall>e \<in> set es. is_array_index (fst e) \<and> index_value (fst e) < index_value k" if "is_array_index k"
    using assms that by (auto simp: own_order_def sorted_wrt_append)
  then have "is_array_index k \<Longrightarrow> takeWhile (\<lambda>e. is_array_index (fst e) \<and> index_value (fst e) < index_value k) es = es"
    and "is_array_index k \<Longrightarrow> dropWhile (\<lambda>e. is_array_index (fst e) \<and> index_value (fst e) < index_value k) es = []"
    by (auto simp: takeWhile_eq_all_conv dropWhile_eq_Nil_conv)
  then show ?thesis using new by (simp add: assign_property_def Let_def)
qed

lemma own_order_prefix: "own_order (ks @ ls) \<Longrightarrow> own_order ks"
  by (auto simp: own_order_def sorted_wrt_append)

lemma own_order_filter: "own_order (map fst es) \<Longrightarrow> own_order (map fst (filter P es))"
  by (auto simp: own_order_def distinct_map_filter sorted_wrt_map sorted_wrt_filter)

lemma readItems_write:
  assumes "\<And>v bs. v \<in> set vs \<Longrightarrow> readValue f (writeValue v @ bs) = Inr (received v, bs)"
  shows "readItems f (length vs) (concat (map writeValue vs) @ bs) = Inr (map received vs, bs)"
  using assms by (induction vs) auto

lemma readEntries_write:
  assumes "\<And>k v bs. (k, v) \<in> set es \<Longrightarrow> str_ok k \<and> readValue f (writeValue v @ bs) = Inr (received v, bs)"
    and "own_order (map fst (acc @ es))"
  shows "readEntries f (length es) acc (concat (map (\<lambda>(k, v). write_text k @ writeValue v) es) @ bs) =
    Inr (acc @ map (\<lambda>(k, v). (k, received v)) es, bs)"
  using assms
proof (induction es arbitrary: acc)
  case (Cons e es)
  obtain k v where e: "e = (k, v)" by (cases e)
  have ok: "str_ok k" "\<And>bs. readValue f (writeValue v @ bs) = Inr (received v, bs)" using Cons.prems(1) [of k v] e by auto
  have "own_order (map fst acc @ [k])" using Cons.prems(2) e own_order_prefix [of "map fst acc @ [k]"] by simp
  then have "assign_property k (received v) acc = acc @ [(k, received v)]" by (rule assign_snoc)
  moreover have "readEntries f (length es) (acc @ [(k, received v)]) (concat (map (\<lambda>(k, v). write_text k @ writeValue v) es) @ bs) =
      Inr ((acc @ [(k, received v)]) @ map (\<lambda>(k, v). (k, received v)) es, bs)"
    using Cons.prems e by (intro Cons.IH) auto
  ultimately show ?case using e ok by (simp add: read_text_write)
qed simp

lemma entries_filtered:
  "concat (map (\<lambda>(k, v). if v = RUndefined then [] else write_text k @ writeValue v) es) =
   concat (map (\<lambda>(k, v). write_text k @ writeValue v) (defined_entries es))"
  by (induction es) auto

lemma length_part: "x \<in> set xs \<Longrightarrow> length (f x) \<le> length (concat (map f xs))"
  by (induction xs) auto

lemma readValue_write:
  "value_ok v \<Longrightarrow> length (writeValue v) \<le> fuel \<Longrightarrow> readValue fuel (writeValue v @ bs) = Inr (received v, bs)"
proof (induction v arbitrary: fuel bs rule: writeValue.induct)
  case (6 vs)
  then obtain f where f: "fuel = Suc f" by (cases fuel) auto
  have "readValue f (writeValue v @ bs) = Inr (received v, bs)" if "v \<in> set vs" for v bs
    using "6.prems" that f length_part [OF that, of writeValue] by (intro "6.IH") (auto simp: list_all_iff)
  then have "readItems f (length vs) (concat (map writeValue vs) @ bs) = Inr (map received vs, bs)"
    by (rule readItems_write)
  then show ?case using "6.prems"
    by (simp add: f readByte_def tag_defs varuint_roundtrip unat_length del: unsigned_of_nat)
next
  case (7 es)
  then obtain f where f: "fuel = Suc f" by (cases fuel) (auto simp: Let_def)
  let ?es = "defined_entries es"
  have w: "writeValue (RObject es) = TAG_OBJECT # writeVarUint (of_nat (length ?es)) @
      concat (map (\<lambda>(k, v). write_text k @ writeValue v) ?es)"
    by (simp add: entries_filtered)
  have len: "length ?es < 2 ^ 32" using "7.prems"(1) by (intro le_less_trans [OF length_filter_le]) simp
  have "str_ok k \<and> readValue f (writeValue v @ bs) = Inr (received v, bs)" if "(k, v) \<in> set ?es" for k v bs
  proof -
    have mem: "(k, v) \<in> set es" "v \<noteq> RUndefined" using that by auto
    have "length (writeValue v) \<le> f"
      using "7.prems"(2) length_part [OF that, of "\<lambda>(k, v). write_text k @ writeValue v"] unfolding w f by simp
    then show ?thesis using "7.IH" [OF refl mem(1) refl mem(2)] "7.prems"(1) mem by (auto simp: list_all_iff)
  qed
  moreover have "own_order (map fst ([] @ ?es))" using "7.prems"(1) by (simp add: own_order_filter)
  ultimately have "readEntries f (length ?es) [] (concat (map (\<lambda>(k, v). write_text k @ writeValue v) ?es) @ bs) =
      Inr ([] @ map (\<lambda>(k, v). (k, received v)) ?es, bs)" by (rule readEntries_write)
  then show ?case unfolding w
    by (simp add: f readByte_def tag_defs varuint_roundtrip unat_length [OF len] del: unsigned_of_nat)
next
  case (4 w)
  then obtain f where "fuel = Suc f" by (cases fuel) auto
  moreover have "length (float64_bytes w) = 8" by (simp add: float64_bytes_def)
  ultimately show ?case by (simp add: readByte_def tag_defs readBytes_def float64_roundtrip)
next
  case (5 s)
  then obtain f where "fuel = Suc f" by (cases fuel) auto
  then show ?case using 5 by (simp add: readByte_def tag_defs read_text_write)
next
  case (3 b)
  then obtain f where "fuel = Suc f" by (cases fuel) auto
  then show ?case by (simp add: readByte_def tag_defs)
next
  case 2
  then obtain f where "fuel = Suc f" by (cases fuel) auto
  then show ?case by (simp add: readByte_def tag_defs)
next
  case 1
  then obtain f where "fuel = Suc f" by (cases fuel) auto
  then show ?case by (simp add: readByte_def tag_defs)
qed

lemma decode_body_write:
  assumes "value_ok v"
  shows "decode_body (writeValue v) = Inr (received v)"
proof -
  have "readValue (Suc (length (writeValue v))) (writeValue v @ []) = Inr (received v, [])"
    using assms by (intro readValue_write) simp_all
  then show ?thesis by (simp add: decode_body_def assertDone_def)
qed

lemma decode_frame:
  assumes "length body < 2 ^ 32" and "flags = 0 \<or> flags = FLAG_COMPRESSED"
  shows "decodeRpcBinaryFrame gunzip (encode_frame flags body) allow limit = decode_payload gunzip allow limit flags body"
proof -
  have "flags AND NOT FLAG_COMPRESSED = 0" using assms(2) by (auto simp: FLAG_COMPRESSED_def)
  then show ?thesis using readUint16_write [of MAGIC]
    by (simp add: decodeRpcBinaryFrame_def encode_frame_def MAGIC_def readByte_def readUint32_write readBytes_def
        unat_length [OF assms(1)] assertDone_def del: unsigned_of_nat)
qed

section \<open>Properties\<close>

text \<open>
  C24. Encoding and decoding are inverse: a value whose strings are well-formed, whose objects list
  their keys in property order and whose sizes fit the 32-bit length fields arrives as it was sent,
  except that an undefined array element arrives as null and an undefined property not at all,
  whether or not the frame was compressed, as long as it is within the receiver's limits.
\<close>

theorem rpc_codec_roundtrip:
  assumes "value_ok v" and "length (writeValue v) < 2 ^ 32"
    and "\<And>b. gunzip (gzip b) = Some b"
    and "over_limit limit (writeValue v) = False" and "over_limit limit (gzip (writeValue v)) = False"
    and "compress = Some False \<or> allowCompressed \<noteq> Some False"
  shows "decodeRpcBinaryFrame gunzip (encodeRpcBinaryFrame gzip v compress) allowCompressed limit = Inr (received v)"
proof (cases "compress \<noteq> Some False \<and> COMPRESS_THRESHOLD_BYTES \<le> length (writeValue v) \<and>
    length (gzip (writeValue v)) < length (writeValue v)")
  case True
  then have l: "length (gzip (writeValue v)) < 2 ^ 32" using assms(2) by linarith
  have "encodeRpcBinaryFrame gzip v compress = encode_frame FLAG_COMPRESSED (gzip (writeValue v))"
    using True by (simp add: encodeRpcBinaryFrame_def Let_def)
  then show ?thesis using True assms decode_frame [OF l] decode_body_write [OF assms(1)]
    by (simp add: decode_payload_def) (simp add: FLAG_COMPRESSED_def)
next
  case False
  then have "encodeRpcBinaryFrame gzip v compress = encode_frame 0 (writeValue v)"
    by (auto simp: encodeRpcBinaryFrame_def Let_def)
  then show ?thesis using assms decode_frame [OF assms(2)] decode_body_write [OF assms(1)]
    by (simp add: decode_payload_def)
qed

theorem rpc_codec_roundtrip_witness:
  "decodeRpcBinaryFrame Some (encodeRpcBinaryFrame (\<lambda>b. b) (RArray [RUndefined, RBool True]) None) None (Some 100) =
     Inr (received (RArray [RUndefined, RBool True]))"
proof -
  have "writeVarUint 2 = [2]" by (subst writeVarUint.simps) (simp add: writeByte_def)
  then show ?thesis by (intro rpc_codec_roundtrip) (simp_all add: over_limit_def)
qed

text \<open>
  C40. Decoding always ends, without the model's recursion bound ever being reached: for every byte
  string, every decompressor and all options the decoder returns a value or one of its own errors.
\<close>

theorem rpc_decode_terminates:
  "decodeRpcBinaryFrame gunzip frame allowCompressed limit \<noteq> Inl OutOfFuel"
proof -
  have body: "decode_body b \<noteq> Inl OutOfFuel" for b
    using enough_fuel(1) [of b "Suc (length b)"] by (auto simp: decode_body_def assertDone_def split: sum.splits)
  then have payload: "decode_payload gunzip allowCompressed limit flags b \<noteq> Inl OutOfFuel" for flags b
    by (auto simp: decode_payload_def split: option.splits)
  have u16: "readUint16 b \<noteq> Inl OutOfFuel" for b
    by (auto simp: readUint16_def readByte_def split: sum.splits list.splits)
  have u32: "readUint32 b \<noteq> Inl OutOfFuel" for b
    by (auto simp: readUint32_def readByte_def split: sum.splits list.splits)
  show ?thesis using u16 u32 no_fuel_error(1,4) payload
    by (auto simp: decodeRpcBinaryFrame_def assertDone_def split: sum.splits)
qed

lemma readUint32_bytes:
  "readUint32 bs = Inr (n, rest) \<Longrightarrow>
   \<exists>a b c d. bs = [a, b, c, d] @ rest \<and> readUint32 [a, b, c, d] = Inr (n, [])"
  by (auto simp: readUint32_def readByte_def split: sum.splits list.splits)

lemma readUint16_bytes:
  "readUint16 bs = Inr (n, rest) \<Longrightarrow> \<exists>a b. bs = a # b # rest \<and> n = unat a * 256 + unat b"
  by (auto simp: readUint16_def readByte_def split: sum.splits list.splits)

text \<open>
  C29. Only whole, well-formed frames within the limit are accepted: a frame that decodes is the
  magic number, the version, a flag byte 0 or 1, a length and exactly that many bytes, those bytes
  and (if compressed) what they expand to stay within the receiver's limit, and a compressed frame
  is accepted only where compression is.
\<close>

theorem rpc_frame_accepted:
  assumes "decodeRpcBinaryFrame gunzip frame allowCompressed limit = Inr v"
  shows "\<exists>flags len body plain. frame = [0x4d, 0x52, 1, flags] @ len @ body \<and> length len = 4 \<and>
    readUint32 len = Inr (of_nat (length body), []) \<and> (flags = 0 \<or> flags = 1) \<and> \<not> over_limit limit body \<and>
    (if flags = 1 then allowCompressed \<noteq> Some False \<and> gunzip body = Some plain else plain = body) \<and>
    \<not> over_limit limit plain \<and> decode_body plain = Inr v"
proof -
  obtain b1 b2 bs1 where m: "frame = b1 # b2 # bs1" "unat b1 * 256 + unat b2 = MAGIC"
    and r1: "(case readByte bs1 of Inl e \<Rightarrow> Inl e | Inr (version, bs2) \<Rightarrow>
      if version \<noteq> VERSION then Inl UnsupportedVersion
      else (case readByte bs2 of Inl e \<Rightarrow> Inl e | Inr (flags, bs3) \<Rightarrow>
      if flags AND NOT FLAG_COMPRESSED \<noteq> 0 then Inl UnsupportedFlags
      else (case readUint32 bs3 of Inl e \<Rightarrow> Inl e | Inr (len, bs4) \<Rightarrow>
        (case readBytes (unat len) bs4 of Inl e \<Rightarrow> Inl e | Inr (body, bs5) \<Rightarrow>
          (case assertDone bs5 of Inl e \<Rightarrow> Inl e | Inr u \<Rightarrow>
             decode_payload gunzip allowCompressed limit flags body))))) = Inr v"
    using assms by (auto simp: decodeRpcBinaryFrame_def split: sum.splits if_splits dest!: readUint16_bytes)
  obtain flags bs3 where f: "bs1 = VERSION # flags # bs3" "flags AND NOT FLAG_COMPRESSED = 0"
    and r2: "(case readUint32 bs3 of Inl e \<Rightarrow> Inl e | Inr (len, bs4) \<Rightarrow>
        (case readBytes (unat len) bs4 of Inl e \<Rightarrow> Inl e | Inr (body, bs5) \<Rightarrow>
          (case assertDone bs5 of Inl e \<Rightarrow> Inl e | Inr u \<Rightarrow>
             decode_payload gunzip allowCompressed limit flags body))) = Inr v"
    using r1 by (auto split: sum.splits if_splits dest!: readByte_rest)
  obtain len bs4 body where l: "readUint32 bs3 = Inr (len, bs4)" "readBytes (unat len) bs4 = Inr (body, [])"
    and p: "decode_payload gunzip allowCompressed limit flags body = Inr v"
    using r2 by (auto simp: assertDone_def split: sum.splits if_splits)
  obtain x y z w where h: "bs3 = [x, y, z, w] @ bs4" "readUint32 [x, y, z, w] = Inr (len, [])"
    using readUint32_bytes [OF l(1)] by blast
  have b: "bs4 = body" "length body = unat len" using readBytes_rest [OF l(2)] by simp_all
  have magic: "b1 = 0x4d \<and> b2 = 0x52"
  proof -
    have "unat b1 * 256 + unat b2 = 0x4d * 256 + 0x52" using m(2) by (simp add: MAGIC_def)
    moreover have "unat b2 < 256" using unsigned_less [of b2] by simp
    ultimately have "unat b1 = 0x4d" "unat b2 = 0x52" by presburger+
    then show ?thesis by (simp add: word_unat_eq_iff)
  qed
  have flag: "flags = 0 \<or> flags = 1"
  proof -
    have "flags = (flags AND 1) OR (flags AND NOT 1)" by (rule bit_eqI) (auto simp: bit_or_iff bit_and_iff bit_not_iff)
    then have "flags = flags AND 1" using f(2) by (simp add: FLAG_COMPRESSED_def)
    then have "flags = of_bool (odd flags)" by (simp only: and_one_eq mod_2_eq_odd)
    then show ?thesis by (cases "odd flags") simp_all
  qed
  have payload: "\<not> over_limit limit body" "\<exists>plain. (if flags = 1 then allowCompressed \<noteq> Some False \<and> gunzip body = Some plain else plain = body) \<and>
      \<not> over_limit limit plain \<and> decode_body plain = Inr v"
    using p flag by (auto simp: decode_payload_def FLAG_COMPRESSED_def split: if_splits option.splits)
  have "frame = [0x4d, 0x52, 1, flags] @ [x, y, z, w] @ body" using m(1) magic f(1) h(1) b(1) by (simp add: VERSION_def)
  moreover have "readUint32 [x, y, z, w] = Inr (of_nat (length body), [])" using h(2) b(2) by simp
  moreover have "length [x, y, z, w] = 4" by simp
  ultimately show ?thesis using payload flag by blast
qed

theorem rpc_frame_accepted_witness:
  "\<exists>flags len body plain. encode_frame 0 (writeValue RNull) = [0x4d, 0x52, 1, flags] @ len @ body \<and> length len = 4 \<and>
    readUint32 len = Inr (of_nat (length body), []) \<and> (flags = 0 \<or> flags = 1) \<and> \<not> over_limit (Some 5) body \<and>
    (if flags = 1 then Some False \<noteq> Some False \<and> Some body = Some plain else plain = body) \<and>
    \<not> over_limit (Some 5) plain \<and> decode_body plain = Inr RNull"
proof (rule rpc_frame_accepted)
  show "decodeRpcBinaryFrame Some (encode_frame 0 (writeValue RNull)) (Some False) (Some 5) = Inr RNull"
    using decode_frame [of "writeValue RNull" 0 Some "Some False" "Some 5"] decode_body_write [of RNull]
    by (simp add: decode_payload_def over_limit_def)
qed

text \<open>
  A property named \<open>__proto__\<close>, which an object can own (JSON.parse makes one), does not survive.
\<close>

theorem rpc_codec_loses_proto:
  assumes "value_ok v" and "v \<noteq> RUndefined"
  shows "decode_body (writeValue (RObject [(PROTO, v)])) = Inr (RObject [])"
proof -
  have ok: "str_ok PROTO"
    by (simp add: str_ok_def text_ok_def PROTO_def is_high_def is_low_def text_encode_def utf8_scalar_def)
  let ?bs = "write_text PROTO @ writeValue v"
  let ?f = "Suc (length (writeVarUint 1 @ ?bs))"
  have r: "readValue ?f (writeValue v @ []) = Inr (received v, [])"
    using assms(1) by (intro readValue_write) simp_all
  have e: "readEntries ?f (Suc 0) [] (?bs @ []) = Inr ([], [])"
    using read_text_write [OF ok, of "writeValue v"] r by (simp add: assign_property_def)
  have w: "writeValue (RObject [(PROTO, v)]) = TAG_OBJECT # writeVarUint 1 @ ?bs" using assms(2) by simp
  have l: "Suc (length (writeValue (RObject [(PROTO, v)]))) = Suc ?f" unfolding w by simp
  show ?thesis using e varuint_roundtrip [of 1 ?bs] unfolding decode_body_def l
    by (simp only: w) (simp add: readByte_def tag_defs assertDone_def)
qed

text \<open>A string's leading byte order mark does not survive.\<close>

theorem rpc_codec_loses_bom:
  assumes "well_paired s" and "length (text_encode (0xFEFF # s)) < 2 ^ 32"
  shows "decode_body (writeValue (RString (0xFEFF # s))) = Inr (RString s)"
  using text_loses_bom [OF assms(1)]
  by (simp add: decode_body_def readByte_def tag_defs read_text_def write_text_def Let_def varuint_roundtrip
      readBytes_def unat_length [OF assms(2)] assertDone_def del: unsigned_of_nat)

end
