(* ===== verification/Thread_Access.thy ===== *)
theory Thread_Access
  imports Js_Map Js_Sort Js_Result
begin

text \<open>
  \<^verbatim>\<open>src/shared/thread-access-projection.ts\<close>: the canonical access record of a thread, read either
  from its list of permission ids or from the thirteen booleans that preceded it.

  The booleans are an object whose fields the code reads and writes by a computed key, here a
  function from the datatype of the keys. \<open>localeCompare\<close> is the parameter \<open>lc\<close>: its order is
  the host's collation, of which the theorems use only that it is a consistent comparator, where
  they use it at all.
\<close>

datatype access_key =
    AgentsAccess | CalendarAccess | CronsAccess | GitAccess | GithubAccess | MetidosAccess
  | NotificationsAccess | SqliteAccess | ThreadsAccess | UnsafeMode | WebSearchAccess
  | WebServerAccess | WeatherAccess

type_synonym access_booleans = "access_key \<Rightarrow> bool"

record thread_access =
  access_flags :: access_booleans
  access_permissions :: "string list"
  access_groups :: "string list"

text \<open>The input: every field may be missing or null.\<close>

record access_input =
  in_flags :: "access_key \<Rightarrow> bool option"
  in_permissions :: "string list option"
  in_groups :: "string list option"

definition DEFAULT_THREAD_ACCESS_PERMISSION_IDS :: "string list" where
  "DEFAULT_THREAD_ACCESS_PERMISSION_IDS = [''metidos:crons'', ''metidos:threads'', ''metidos:web-search'']"

definition LEGACY_THREAD_ACCESS_PERMISSION_IDS :: "(access_key, string) jsmap" where
  "LEGACY_THREAD_ACCESS_PERMISSION_IDS =
     [(AgentsAccess, ''metidos:agents''), (CalendarAccess, ''metidos:calendar''),
      (CronsAccess, ''metidos:crons''), (GitAccess, ''metidos:git''), (GithubAccess, ''metidos:github''),
      (NotificationsAccess, ''metidos:notifications''), (SqliteAccess, ''metidos:sqlite''),
      (ThreadsAccess, ''metidos:threads''), (UnsafeMode, ''metidos:unsafe''),
      (WebSearchAccess, ''metidos:web-search''), (WebServerAccess, ''metidos:webserver'')]"

definition DEFAULT_THREAD_ACCESS_PROJECTION :: thread_access where
  "DEFAULT_THREAD_ACCESS_PROJECTION =
     \<lparr> access_flags = (\<lambda>k. k \<in> {CronsAccess, MetidosAccess, ThreadsAccess, WebSearchAccess}),
       access_permissions = DEFAULT_THREAD_ACCESS_PERMISSION_IDS, access_groups = [] \<rparr>"

definition LEGACY_PERMISSION_ACCESS_KEYS :: "(string, access_key) jsmap" where
  "LEGACY_PERMISSION_ACCESS_KEYS =
     foldl (\<lambda>result (key, permission). jm_set permission key result) []
       LEGACY_THREAD_ACCESS_PERMISSION_IDS"

definition normalizeThreadAccessPermissionIds ::
  "(string \<Rightarrow> string \<Rightarrow> int) \<Rightarrow> string list option \<Rightarrow> string list" where
  "normalizeThreadAccessPermissionIds lc permissions =
     js_sort lc (js_set (filter (\<lambda>id. id \<noteq> []) (map js_trim
       (case permissions of None \<Rightarrow> [] | Some ps \<Rightarrow> ps))))"

definition normalizeStringList :: "(string \<Rightarrow> string \<Rightarrow> int) \<Rightarrow> string list option \<Rightarrow> string list" where
  "normalizeStringList lc vals = js_sort lc (js_set (case vals of None \<Rightarrow> [] | Some vs \<Rightarrow> vs))"

definition projectLegacyThreadAccessBooleans :: "string list \<Rightarrow> access_booleans" where
  "projectLegacyThreadAccessBooleans permissions =
     (let projection = foldl (\<lambda>projection (permission, key). projection(key := permission \<in> set permissions))
            (access_flags DEFAULT_THREAD_ACCESS_PROJECTION) LEGACY_PERMISSION_ACCESS_KEYS in
      projection(MetidosAccess := projection ThreadsAccess \<or> projection CronsAccess,
                 WeatherAccess := False))"

definition projectThreadAccessControl ::
  "(string \<Rightarrow> string \<Rightarrow> int) \<Rightarrow> access_input \<Rightarrow> thread_access" where
  "projectThreadAccessControl lc input =
     (let permissions = (case in_permissions input of
            Some ps \<Rightarrow> normalizeThreadAccessPermissionIds lc (Some ps)
          | None \<Rightarrow> DEFAULT_THREAD_ACCESS_PERMISSION_IDS) in
      \<lparr> access_flags = projectLegacyThreadAccessBooleans permissions,
        access_permissions = permissions,
        access_groups = normalizeStringList lc (in_groups input) \<rparr>)"

fun legacy_boolean :: "access_input \<Rightarrow> bool \<Rightarrow> access_booleans" where
  "legacy_boolean input defaultLegacyAccess CronsAccess =
     nullish (in_flags input CronsAccess) (nullish (in_flags input MetidosAccess) defaultLegacyAccess)"
| "legacy_boolean input defaultLegacyAccess ThreadsAccess =
     nullish (in_flags input ThreadsAccess) (nullish (in_flags input MetidosAccess) defaultLegacyAccess)"
| "legacy_boolean input defaultLegacyAccess WebSearchAccess =
     nullish (in_flags input WebSearchAccess) defaultLegacyAccess"
| "legacy_boolean input defaultLegacyAccess MetidosAccess = False"
| "legacy_boolean input defaultLegacyAccess key = nullish (in_flags input key) False"

definition projectLegacyThreadAccessControl ::
  "(string \<Rightarrow> string \<Rightarrow> int) \<Rightarrow> access_input \<Rightarrow> bool option \<Rightarrow> thread_access" where
  "projectLegacyThreadAccessControl lc input defaultLegacyAccess =
     (let initial = legacy_boolean input (nullish defaultLegacyAccess False);
          legacyBooleans = initial(MetidosAccess := initial ThreadsAccess \<or> initial CronsAccess);
          permissions = map snd (filter (\<lambda>(key, permission). legacyBooleans key)
            LEGACY_THREAD_ACCESS_PERMISSION_IDS) in
      \<lparr> access_flags = legacyBooleans,
        access_permissions = normalizeThreadAccessPermissionIds lc (Some permissions),
        access_groups = normalizeStringList lc (in_groups input) \<rparr>)"

definition projectSafeChildThreadAccessControl ::
  "(string \<Rightarrow> string \<Rightarrow> int) \<Rightarrow> access_input \<Rightarrow> thread_access" where
  "projectSafeChildThreadAccessControl lc input =
     projectThreadAccessControl lc (input\<lparr> in_permissions :=
       Some (filter (\<lambda>permission. permission \<noteq> ''metidos:unsafe'')
         (normalizeThreadAccessPermissionIds lc (in_permissions input))) \<rparr>)"

text \<open>\<^verbatim>\<open>src/mainview/app/thread-access-defaults.ts\<close>.\<close>

definition deriveSafeChildAccessDefaults ::
  "(string \<Rightarrow> string \<Rightarrow> int) \<Rightarrow> access_input \<Rightarrow> thread_access" where
  "deriveSafeChildAccessDefaults lc access = projectSafeChildThreadAccessControl lc access"

section \<open>Facts\<close>

text \<open>The set of ids a permission list stands for.\<close>

definition permission_ids :: "string list option \<Rightarrow> string set" where
  "permission_ids ps = js_trim ` set (nullish ps []) - {[]}"

text \<open>The permission behind a key; the two derived keys have none.\<close>

definition permission_of :: "access_key \<Rightarrow> string option" where
  "permission_of k = map_of LEGACY_THREAD_ACCESS_PERMISSION_IDS k"

lemma set_normalize [simp]: "set (normalizeThreadAccessPermissionIds lc ps) = permission_ids ps"
  by (auto simp: normalizeThreadAccessPermissionIds_def permission_ids_def nullish_def split: option.splits)

lemma distinct_normalize [simp]: "distinct (normalizeThreadAccessPermissionIds lc ps)"
  by (simp add: normalizeThreadAccessPermissionIds_def)

lemma permission_ids_Some: "permission_ids (Some ps) = js_trim ` set ps - {[]}"
  by (simp add: permission_ids_def nullish_def)

lemma trimmed_permission_ids: "x \<in> permission_ids ps \<Longrightarrow> js_trim x = x \<and> x \<noteq> []"
  by (auto simp: permission_ids_def)

lemma permission_ids_of_trimmed: "(\<And>x. x \<in> set xs \<Longrightarrow> js_trim x = x \<and> x \<noteq> []) \<Longrightarrow> permission_ids (Some xs) = set xs"
  by (force simp: permission_ids_Some)

text \<open>A permission list that has been normalised, from which entries may have been dropped, is
  left alone by a second normalisation.\<close>

lemma normalize_filtered_id:
  assumes "comparator lc"
  shows "normalizeThreadAccessPermissionIds lc (Some (filter P (normalizeThreadAccessPermissionIds lc ps))) =
    filter P (normalizeThreadAccessPermissionIds lc ps)" (is "?n (Some ?xs) = _")
proof -
  have "js_trim x = x \<and> x \<noteq> []" if "x \<in> set ?xs" for x using that trimmed_permission_ids by auto
  then have "filter (\<lambda>id. id \<noteq> []) (map js_trim ?xs) = ?xs"
    by (metis (mono_tags, lifting) filter_True map_idI)
  moreover have "js_set ?xs = ?xs" by (simp add: js_set_distinct)
  moreover have "sorted_wrt (\<lambda>x y. lc x y \<le> 0) (normalizeThreadAccessPermissionIds lc ps)"
    unfolding normalizeThreadAccessPermissionIds_def by (rule comparator.js_sort_sorted [OF assms])
  then have "sorted_wrt (\<lambda>x y. lc x y \<le> 0) ?xs" by (rule sorted_wrt_filter)
  ultimately show ?thesis
    using comparator.js_sort_id [OF assms] by (simp add: normalizeThreadAccessPermissionIds_def)
qed

lemma normalize_idem:
  "comparator lc \<Longrightarrow> normalizeThreadAccessPermissionIds lc (Some (normalizeThreadAccessPermissionIds lc ps)) =
     normalizeThreadAccessPermissionIds lc ps"
  using normalize_filtered_id [of lc "\<lambda>_. True" ps] by simp

lemma access_keys_by_permission:
  "LEGACY_PERMISSION_ACCESS_KEYS = map (\<lambda>(k, p). (p, k)) LEGACY_THREAD_ACCESS_PERMISSION_IDS"
  by (simp add: LEGACY_PERMISSION_ACCESS_KEYS_def LEGACY_THREAD_ACCESS_PERMISSION_IDS_def)

lemma project_booleans:
  "projectLegacyThreadAccessBooleans ps k =
     (case permission_of k of
        Some p \<Rightarrow> p \<in> set ps
      | None \<Rightarrow> k = MetidosAccess \<and> (''metidos:threads'' \<in> set ps \<or> ''metidos:crons'' \<in> set ps))"
  by (cases k) (simp_all add: projectLegacyThreadAccessBooleans_def access_keys_by_permission permission_of_def
      LEGACY_THREAD_ACCESS_PERMISSION_IDS_def Let_def)

lemma permission_of_simps [simp]:
  "permission_of AgentsAccess = Some ''metidos:agents''" "permission_of CalendarAccess = Some ''metidos:calendar''"
  "permission_of CronsAccess = Some ''metidos:crons''" "permission_of GitAccess = Some ''metidos:git''"
  "permission_of GithubAccess = Some ''metidos:github''" "permission_of MetidosAccess = None"
  "permission_of NotificationsAccess = Some ''metidos:notifications''"
  "permission_of SqliteAccess = Some ''metidos:sqlite''" "permission_of ThreadsAccess = Some ''metidos:threads''"
  "permission_of UnsafeMode = Some ''metidos:unsafe''" "permission_of WebSearchAccess = Some ''metidos:web-search''"
  "permission_of WebServerAccess = Some ''metidos:webserver''" "permission_of WeatherAccess = None"
  by (simp_all add: permission_of_def LEGACY_THREAD_ACCESS_PERMISSION_IDS_def)

lemma permission_of_entry: "permission_of k = Some p \<longleftrightarrow> (k, p) \<in> set LEGACY_THREAD_ACCESS_PERMISSION_IDS"
proof -
  have "distinct (map fst LEGACY_THREAD_ACCESS_PERMISSION_IDS)"
    by (simp add: LEGACY_THREAD_ACCESS_PERMISSION_IDS_def)
  then show ?thesis by (simp add: permission_of_def)
qed

lemma permission_of_inject: "permission_of k = Some p \<Longrightarrow> permission_of j = Some p \<Longrightarrow> k = j"
  by (cases k; cases j) auto

lemma trim_permission_of: "permission_of k = Some p \<Longrightarrow> js_trim p = p \<and> p \<noteq> []"
  by (cases k) (auto simp: js_trim_def js_ws_def)

lemma legacy_permission_ids:
  "permission_ids (Some (map snd (filter (\<lambda>(k, p). f k) LEGACY_THREAD_ACCESS_PERMISSION_IDS))) =
     {p. \<exists>k. f k \<and> permission_of k = Some p}"
proof -
  have "set (map snd (filter (\<lambda>(k, p). f k) LEGACY_THREAD_ACCESS_PERMISSION_IDS)) =
      {p. \<exists>k. f k \<and> permission_of k = Some p}"
    by (force simp: permission_of_entry)
  then show ?thesis using trim_permission_of by (subst permission_ids_of_trimmed) auto
qed

section \<open>Properties\<close>

text \<open>
  The two representations agree: the booleans read back from the permission ids that a legacy
  record is translated to are the booleans of that record, all but the weather one, which has no
  permission id; and the ids themselves survive being projected again.
\<close>

theorem thread_access_legacy_roundtrip:
  assumes "comparator lc"
  shows "let legacy = projectLegacyThreadAccessControl lc input defaultLegacyAccess;
             again = projectThreadAccessControl lc (input\<lparr> in_permissions := Some (access_permissions legacy) \<rparr>) in
    access_flags again = (access_flags legacy)(WeatherAccess := False) \<and>
    access_permissions again = access_permissions legacy \<and> access_groups again = access_groups legacy"
proof -
  let ?legacy = "projectLegacyThreadAccessControl lc input defaultLegacyAccess"
  let ?again = "projectThreadAccessControl lc (input\<lparr> in_permissions := Some (access_permissions ?legacy) \<rparr>)"
  have perms: "access_permissions ?again = access_permissions ?legacy"
    by (simp add: projectThreadAccessControl_def projectLegacyThreadAccessControl_def Let_def normalize_idem [OF assms])
  have mem: "p \<in> set (access_permissions ?legacy) \<longleftrightarrow> (\<exists>k. access_flags ?legacy k \<and> permission_of k = Some p)" for p
    by (simp add: projectLegacyThreadAccessControl_def Let_def legacy_permission_ids)
  have one: "p \<in> set (access_permissions ?legacy) \<longleftrightarrow> access_flags ?legacy k" if "permission_of k = Some p" for k p
    using that permission_of_inject mem by metis
  have met: "access_flags ?legacy MetidosAccess \<longleftrightarrow>
      access_flags ?legacy ThreadsAccess \<or> access_flags ?legacy CronsAccess"
    by (simp add: projectLegacyThreadAccessControl_def Let_def)
  have "access_flags ?again k = ((access_flags ?legacy)(WeatherAccess := False)) k" for k
  proof -
    have "access_flags ?again k = projectLegacyThreadAccessBooleans (access_permissions ?legacy) k"
      using perms by (simp add: projectThreadAccessControl_def Let_def)
    then show ?thesis using one [of k] one [of ThreadsAccess] one [of CronsAccess] met
      by (cases k) (simp_all add: project_booleans)
  qed
  moreover have "access_groups ?again = access_groups ?legacy"
    by (simp add: projectThreadAccessControl_def projectLegacyThreadAccessControl_def Let_def)
  ultimately show ?thesis using perms by (simp add: Let_def ext)
qed

text \<open>
  A child thread or cron derived from any access record holds exactly the trimmed, non-empty
  permissions of that record other than the unsafe one, each once; its unsafe mode is off however
  the id was spelled or repeated, and every other boolean is what its permission says.
\<close>

theorem thread_access_safe_child:
  "let child = deriveSafeChildAccessDefaults lc access in
     set (access_permissions child) = permission_ids (in_permissions access) - {''metidos:unsafe''} \<and>
     distinct (access_permissions child) \<and> \<not> access_flags child UnsafeMode \<and>
     (\<forall>k p. permission_of k = Some p \<longrightarrow> k \<noteq> UnsafeMode \<longrightarrow>
        access_flags child k = (p \<in> permission_ids (in_permissions access)))"
proof -
  let ?child = "deriveSafeChildAccessDefaults lc access"
  let ?ps = "filter (\<lambda>p. p \<noteq> ''metidos:unsafe'') (normalizeThreadAccessPermissionIds lc (in_permissions access))"
  have "permission_ids (Some ?ps) = set ?ps"
    by (rule permission_ids_of_trimmed) (auto dest: trimmed_permission_ids)
  then have ids: "set (access_permissions ?child) = permission_ids (in_permissions access) - {''metidos:unsafe''}"
    by (auto simp: deriveSafeChildAccessDefaults_def projectSafeChildThreadAccessControl_def
        projectThreadAccessControl_def Let_def)
  have flag: "access_flags ?child k = (p \<in> set (access_permissions ?child))" if "permission_of k = Some p" for k p
    using that by (simp add: deriveSafeChildAccessDefaults_def projectSafeChildThreadAccessControl_def
        projectThreadAccessControl_def Let_def project_booleans)
  have "distinct (access_permissions ?child)"
    by (simp add: deriveSafeChildAccessDefaults_def projectSafeChildThreadAccessControl_def
        projectThreadAccessControl_def Let_def)
  moreover have "\<not> access_flags ?child UnsafeMode" using flag [of UnsafeMode] ids by simp
  moreover have "access_flags ?child k = (p \<in> permission_ids (in_permissions access))"
    if "permission_of k = Some p" "k \<noteq> UnsafeMode" for k p
  proof -
    have "p \<noteq> ''metidos:unsafe''" using that permission_of_inject [of k p UnsafeMode] by auto
    then show ?thesis using flag [OF that(1)] ids by simp
  qed
  ultimately show ?thesis using ids by (simp add: Let_def)
qed

text \<open>
  An access record that carries only the booleans, as the main view's \<open>ThreadAccessValue\<close> may:
  none of its scopes reaches the child, although the helper is described as preserving them.
\<close>

theorem safe_child_ignores_booleans:
  assumes "in_permissions access = None"
  shows "access_permissions (deriveSafeChildAccessDefaults lc access) = []"
    and "\<not> access_flags (deriveSafeChildAccessDefaults lc access) k"
proof -
  show none: "access_permissions (deriveSafeChildAccessDefaults lc access) = []"
    using assms by (simp add: deriveSafeChildAccessDefaults_def projectSafeChildThreadAccessControl_def
        projectThreadAccessControl_def Let_def normalizeThreadAccessPermissionIds_def js_set_def js_sort_def)
  have "access_flags (deriveSafeChildAccessDefaults lc access) k =
      projectLegacyThreadAccessBooleans (access_permissions (deriveSafeChildAccessDefaults lc access)) k"
    by (simp add: deriveSafeChildAccessDefaults_def projectSafeChildThreadAccessControl_def
        projectThreadAccessControl_def Let_def)
  then show "\<not> access_flags (deriveSafeChildAccessDefaults lc access) k"
    by (simp add: none project_booleans split: option.splits)
qed

section \<open>Witnesses\<close>

definition demo_access :: access_input where
  "demo_access = \<lparr> in_flags = (\<lambda>k. if k = UnsafeMode \<or> k = WeatherAccess then Some True else None),
     in_permissions = Some [''metidos:git'', '' metidos:unsafe '', ''metidos:git''], in_groups = None \<rparr>"

theorem thread_access_legacy_roundtrip_witness:
  "access_flags (projectThreadAccessControl code_unit_compare (demo_access\<lparr> in_permissions :=
     Some (access_permissions (projectLegacyThreadAccessControl code_unit_compare demo_access (Some True))) \<rparr>)) =
   (access_flags (projectLegacyThreadAccessControl code_unit_compare demo_access (Some True)))(WeatherAccess := False)"
  using thread_access_legacy_roundtrip [OF cu.comparator_axioms, of demo_access "Some True"]
  unfolding Let_def by (rule conjunct1)

theorem thread_access_safe_child_witness:
  "set (access_permissions (deriveSafeChildAccessDefaults code_unit_compare demo_access)) = {''metidos:git''}"
proof -
  have "permission_ids (in_permissions demo_access) - {''metidos:unsafe''} = {''metidos:git''}"
    by (auto simp: demo_access_def permission_ids_Some js_trim_def js_ws_def)
  then show ?thesis
    using thread_access_safe_child [of code_unit_compare demo_access] unfolding Let_def by simp
qed

end
