(* ===== verification/Thread_Permissions.thy ===== *)
theory Thread_Permissions
  imports Thread_Access
begin

text \<open>
  \<^verbatim>\<open>src/bun/thread-permissions.ts\<close> and the identifier rules of \<^verbatim>\<open>src/bun/plugin/identity.ts\<close>: the
  registry of native and plugin-provided permissions, the normalisation of a requested permission
  array against it, and the descriptors an inventory of plugins contributes.
\<close>

section \<open>Identifiers\<close>

definition RESERVED_PLUGIN_ID_SET :: "string list" where
  "RESERVED_PLUGIN_ID_SET = [''metidos'']"

definition isReservedPluginId :: "string \<Rightarrow> bool" where
  "isReservedPluginId pluginId = (js_lower (js_trim pluginId) \<in> set RESERVED_PLUGIN_ID_SET)"

definition ident_char :: "char \<Rightarrow> bool" where
  "ident_char c = (is_lower c \<or> is_digit c \<or> c = CHR ''_'')"

text \<open>\<open>/^[a-z][a-z0-9_]{1,63}$/\<close> and \<open>/^[a-z][a-z0-9_-]{0,63}$/\<close>.\<close>

fun provider_id_ok :: "string \<Rightarrow> bool" where
  "provider_id_ok [] = False"
| "provider_id_ok (c # cs) = (is_lower c \<and> 1 \<le> length cs \<and> length cs \<le> 63 \<and> list_all ident_char cs)"

fun access_id_ok :: "string \<Rightarrow> bool" where
  "access_id_ok [] = False"
| "access_id_ok (c # cs) = (is_lower c \<and> length cs \<le> 63 \<and> list_all (\<lambda>x. ident_char x \<or> x = CHR ''-'') cs)"

section \<open>Descriptors\<close>

datatype permission_category = AgentRuntime | Browser | Coordination | Data | External | PluginCategory | Security

record permission_descriptor =
  d_id :: string
  d_providerId :: string
  d_providerDescription :: string
  d_accessId :: string
  d_label :: string
  d_description :: string
  d_category :: permission_category
  d_defaultEnabled :: bool
  d_requiresApproval :: bool
  d_unsafe :: bool
  d_order :: int

record permission_registry =
  descriptors :: "permission_descriptor list"
  byId :: "(string, permission_descriptor) jsmap"

text \<open>An input: the last six fields may be missing.\<close>

record descriptor_input =
  i_accessId :: string
  i_description :: string
  i_providerDescription :: string
  i_providerId :: string
  i_category :: "permission_category option"
  i_defaultEnabled :: "bool option"
  i_label :: "string option"
  i_order :: "int option"
  i_requiresApproval :: "bool option"
  i_unsafe :: "bool option"

record registry_error =
  re_code :: string
  re_message :: string

definition METIDOS_PERMISSION_PROVIDER_ID :: string where
  "METIDOS_PERMISSION_PROVIDER_ID = ''metidos''"

definition METIDOS_NATIVE_PROVIDER_DESCRIPTION :: string where
  "METIDOS_NATIVE_PROVIDER_DESCRIPTION = ''Metidos native tools''"

definition THREAD_PERMISSION_LIMIT :: nat where
  "THREAD_PERMISSION_LIMIT = 200"

text \<open>The fields every native input has.\<close>

definition native_input :: "string \<Rightarrow> permission_category \<Rightarrow> bool \<Rightarrow> string \<Rightarrow> descriptor_input" where
  "native_input accessId category defaultEnabled description =
     \<lparr> i_accessId = accessId, i_description = description,
       i_providerDescription = METIDOS_NATIVE_PROVIDER_DESCRIPTION,
       i_providerId = METIDOS_PERMISSION_PROVIDER_ID, i_category = Some category,
       i_defaultEnabled = Some defaultEnabled, i_label = None, i_order = None,
       i_requiresApproval = None, i_unsafe = None \<rparr>"

definition default_on :: "string \<Rightarrow> bool" where
  "default_on pid = (pid \<in> set DEFAULT_THREAD_ACCESS_PERMISSION_IDS)"

definition METIDOS_NATIVE_PERMISSION_INPUTS :: "descriptor_input list" where
  "METIDOS_NATIVE_PERMISSION_INPUTS =
     [native_input ''web-search'' External (default_on ''metidos:web-search'')
        ''Current-information web search/fetch capability.'',
      native_input ''webserver'' AgentRuntime False ''Project-scoped local web server helpers.'',
      native_input ''github'' External False ''GitHub-native tool family.'',
      native_input ''git'' Data False ''Worktree-scoped local Git helpers.'',
      native_input ''sqlite'' Data False ''Project-scoped SQLite helper.'',
      native_input ''lancedb'' Data False ''Project-scoped LanceDB vector search helper.'',
      native_input ''memory'' Data False ''Project-scoped provenance-grounded long-term memory tools.'',
      native_input ''agents'' Coordination False
        ''Pi-era coordination tools such as update_plan and delegate_task.'',
      native_input ''calendar'' Data False ''Calendar and calendar-event tools.'',
      native_input ''notifications'' External False ''User notification tools.'',
      native_input ''threads'' Coordination (default_on ''metidos:threads'')
        ''Thread listing and child thread creation tools.'',
      native_input ''crons'' Coordination (default_on ''metidos:crons'')
        ''Cron listing, creation, update, and show tools.'',
      (native_input ''unsafe'' Security False ''Unsafe execution/sandbox escalation permission.'')
        \<lparr> i_requiresApproval := Some True, i_unsafe := Some True \<rparr>]"

definition registry_fail :: "string \<Rightarrow> string \<Rightarrow> registry_error + 'a" where
  "registry_fail code message = Inl \<lparr> re_code = code, re_message = message \<rparr>"

definition assertProviderId :: "string \<Rightarrow> registry_error + unit" where
  "assertProviderId providerId =
     (if \<not> provider_id_ok providerId
      then registry_fail ''invalid_permission_provider_id''
        (''Invalid permission provider id '' @ providerId @ ''. Expected a plugin id or metidos.'')
      else Inr ())"

definition assertAccessId :: "string \<Rightarrow> registry_error + unit" where
  "assertAccessId accessId =
     (if \<not> access_id_ok accessId
      then registry_fail ''invalid_permission_access_id''
        (''Invalid permission access id '' @ accessId @
         ''. Access ids must be lowercase and cannot contain ':'.'')
      else Inr ())"

definition permissionIdFor :: "string \<Rightarrow> string \<Rightarrow> registry_error + string" where
  "permissionIdFor providerId accessId =
     try_then (assertProviderId providerId) (\<lambda>_.
     try_then (assertAccessId accessId) (\<lambda>_. Inr (providerId @ '':'' @ accessId)))"

definition createThreadPermissionDescriptor :: "descriptor_input \<Rightarrow> registry_error + permission_descriptor" where
  "createThreadPermissionDescriptor input =
     try_then (assertProviderId (i_providerId input)) (\<lambda>_.
     try_then (assertAccessId (i_accessId input)) (\<lambda>_.
     if js_trim (i_providerDescription input) = []
     then registry_fail ''invalid_permission_provider_description''
       ''Permission provider descriptions must be non-empty.''
     else if js_trim (i_description input) = []
     then registry_fail ''invalid_permission_description'' ''Permission descriptions must be non-empty.''
     else try_then (permissionIdFor (i_providerId input) (i_accessId input)) (\<lambda>id.
     if i_providerId input = METIDOS_PERMISSION_PROVIDER_ID \<and> \<not> starts_with ''metidos:'' id
     then registry_fail ''invalid_native_permission_id''
       ''Metidos-native permissions must use the metidos: prefix.''
     else Inr \<lparr> d_id = id, d_providerId = i_providerId input,
       d_providerDescription = js_trim (i_providerDescription input), d_accessId = i_accessId input,
       d_label = trimmed_or (i_label input) (i_accessId input),
       d_description = js_trim (i_description input),
       d_category = nullish (i_category input)
         (if i_providerId input = METIDOS_PERMISSION_PROVIDER_ID then AgentRuntime else PluginCategory),
       d_defaultEnabled = (i_defaultEnabled input = Some True),
       d_requiresApproval = (i_requiresApproval input = Some True),
       d_unsafe = (i_unsafe input = Some True), d_order = nullish (i_order input) 0 \<rparr>)))"

definition metidosNativePermissionDescriptors :: "registry_error + permission_descriptor list" where
  "metidosNativePermissionDescriptors =
     try_map (\<lambda>(index, input). createThreadPermissionDescriptor (input\<lparr> i_order := Some (int index) \<rparr>))
       (zip [0..<length METIDOS_NATIVE_PERMISSION_INPUTS] METIDOS_NATIVE_PERMISSION_INPUTS)"

definition sortDescriptors ::
  "(string \<Rightarrow> string \<Rightarrow> int) \<Rightarrow> permission_descriptor \<Rightarrow> permission_descriptor \<Rightarrow> int" where
  "sortDescriptors lc left right =
     (let provider =
        (if d_providerId left = METIDOS_PERMISSION_PROVIDER_ID \<and>
            d_providerId right \<noteq> METIDOS_PERMISSION_PROVIDER_ID then - 1
         else if d_providerId right = METIDOS_PERMISSION_PROVIDER_ID \<and>
            d_providerId left \<noteq> METIDOS_PERMISSION_PROVIDER_ID then 1
         else lc (d_providerId left) (d_providerId right)) in
      if provider \<noteq> 0 then provider
      else if d_order left \<noteq> d_order right then d_order left - d_order right
      else lc (d_accessId left) (d_accessId right))"

fun index_descriptors ::
  "permission_descriptor list \<Rightarrow> (string, permission_descriptor) jsmap \<Rightarrow>
     registry_error + (string, permission_descriptor) jsmap" where
  "index_descriptors [] m = Inr m"
| "index_descriptors (d # ds) m =
     (case jm_get m (d_id d) of
        Some duplicate \<Rightarrow> registry_fail ''duplicate_thread_permission_id''
          (''Duplicate thread permission id '' @ d_id d @ ''.'')
      | None \<Rightarrow> index_descriptors ds (jm_set (d_id d) d m))"

definition createThreadPermissionRegistry ::
  "(string \<Rightarrow> string \<Rightarrow> int) \<Rightarrow> descriptor_input list \<Rightarrow> registry_error + permission_registry" where
  "createThreadPermissionRegistry lc pluginDescriptors =
     (case find (\<lambda>d. isReservedPluginId (i_providerId d)) pluginDescriptors of
        Some d \<Rightarrow> registry_fail ''reserved_plugin_permission_provider_id''
          (''Plugin permission provider id '' @ i_providerId d @ '' is reserved for Metidos-native permissions.'')
      | None \<Rightarrow>
          try_then metidosNativePermissionDescriptors (\<lambda>native.
          try_then (try_map createThreadPermissionDescriptor pluginDescriptors) (\<lambda>plugin.
          let ds = js_sort (sortDescriptors lc) (native @ plugin) in
          try_then (index_descriptors ds []) (\<lambda>m. Inr \<lparr> descriptors = ds, byId = m \<rparr>))))"

section \<open>Requested permissions\<close>

text \<open>What of an \<open>unknown\<close> value the normalisation looks at.\<close>

datatype requested_item = StringItem string | OtherItem
datatype requested_value = MissingValue | ArrayValue "requested_item list" | OtherValue

fun normalize_items ::
  "permission_registry \<Rightarrow> requested_item list \<Rightarrow> string list \<Rightarrow> registry_error + string list" where
  "normalize_items registry [] normalized = Inr normalized"
| "normalize_items registry (OtherItem # items) normalized =
     registry_fail ''invalid_thread_permission'' ''Thread permission entries must be strings.''"
| "normalize_items registry (StringItem item # items) normalized =
     (let permission = js_trim item in
      if permission = [] then normalize_items registry items normalized
      else if \<not> jm_has (byId registry) permission
      then registry_fail ''unknown_thread_permission'' (''Unknown thread permission '' @ permission @ ''.'')
      else normalize_items registry items (set_add permission normalized))"

fun normalizeThreadPermissions ::
  "(string \<Rightarrow> string \<Rightarrow> int) \<Rightarrow> permission_registry \<Rightarrow> requested_value \<Rightarrow> registry_error + string list" where
  "normalizeThreadPermissions lc registry MissingValue = Inr []"
| "normalizeThreadPermissions lc registry OtherValue =
     registry_fail ''invalid_thread_permissions'' ''Thread permissions must be an array of permission strings.''"
| "normalizeThreadPermissions lc registry (ArrayValue items) =
     (if length items > THREAD_PERMISSION_LIMIT
      then registry_fail ''too_many_thread_permissions''
        (''Thread permissions are limited to '' @ show_nat THREAD_PERMISSION_LIMIT @ '' entries.'')
      else try_then (normalize_items registry items []) (\<lambda>normalized. Inr (js_sort lc normalized)))"

definition hasThreadPermission :: "string list \<Rightarrow> string \<Rightarrow> bool" where
  "hasThreadPermission permissions pid = (pid \<in> set (js_set permissions))"

definition defaultThreadPermissions :: "(string \<Rightarrow> string \<Rightarrow> int) \<Rightarrow> permission_registry \<Rightarrow> string list" where
  "defaultThreadPermissions lc registry =
     js_sort lc (map d_id (filter d_defaultEnabled (descriptors registry)))"

definition permissionDescriptorsForAgentCatalog :: "permission_registry \<Rightarrow> permission_descriptor list" where
  "permissionDescriptorsForAgentCatalog registry = descriptors registry"

section \<open>Plugin inventory\<close>

text \<open>
  The inventory entry of a plugin, as far as permissions depend on it. Nullable texts are options;
  a tool or injection is its nullable name.
\<close>

record access_group =
  g_id :: "string option"
  g_name :: "string option"
  g_description :: "string option"
  g_tools :: "string option list"
  g_injects :: "string option list option"

record inventory_plugin =
  pl_pluginId :: "string option"
  pl_name :: "string option"
  pl_description :: "string option"
  pl_group :: string
  pl_state :: string
  pl_structurallyValid :: bool
  pl_validationErrors :: "string list"
  pl_access :: "access_group list"

definition pluginIsActive :: "inventory_plugin \<Rightarrow> bool" where
  "pluginIsActive plugin =
     (pl_group plugin = ''Active'' \<and> pl_state plugin = ''active'' \<and> pl_structurallyValid plugin \<and>
      length (pl_validationErrors plugin) = 0 \<and> truthy (pl_pluginId plugin) \<and>
      \<not> isReservedPluginId (nullish (pl_pluginId plugin) []))"

definition group_empty :: "access_group \<Rightarrow> bool" where
  "group_empty g = (length (filter truthy (g_tools g)) = 0 \<and> length (filter truthy (nullish (g_injects g) [])) = 0)"

definition pluginPermissionDescriptorsFromInventory :: "inventory_plugin list \<Rightarrow> descriptor_input list" where
  "pluginPermissionDescriptorsFromInventory plugins =
     concat (map (\<lambda>plugin.
       if \<not> pluginIsActive plugin \<or> \<not> truthy (pl_pluginId plugin) then []
       else concat (map (\<lambda>g.
         if \<not> truthy (g_id g) \<or> group_empty g then []
         else (let groupId = nullish (g_id g) [] in
           [\<lparr> i_accessId = groupId,
              i_description = trimmed_or (g_description g)
                (trimmed_or (g_name g) (''Plugin access '' @ groupId @ ''.'')),
              i_providerDescription = trimmed_or (pl_description plugin) (trimmed_or (pl_name plugin) ''Plugin tools''),
              i_providerId = nullish (pl_pluginId plugin) [], i_category = Some PluginCategory,
              i_defaultEnabled = Some False, i_label = Some (trimmed_or (g_name g) groupId),
              i_order = None, i_requiresApproval = None, i_unsafe = None \<rparr>]))
         (pl_access plugin))) plugins)"

section \<open>Descriptor creation\<close>

definition descriptor_ok :: "descriptor_input \<Rightarrow> bool" where
  "descriptor_ok i = (provider_id_ok (i_providerId i) \<and> access_id_ok (i_accessId i) \<and>
     js_trim (i_providerDescription i) \<noteq> [] \<and> js_trim (i_description i) \<noteq> [])"

definition input_id :: "descriptor_input \<Rightarrow> string" where
  "input_id i = i_providerId i @ '':'' @ i_accessId i"

lemma create_ok:
  assumes "createThreadPermissionDescriptor i = Inr d"
  shows "descriptor_ok i" and "d_id d = input_id i" and "d_providerId d = i_providerId i"
    and "d_accessId d = i_accessId i" and "d_unsafe d = (i_unsafe i = Some True)"
    and "d_requiresApproval d = (i_requiresApproval i = Some True)"
    and "d_defaultEnabled d = (i_defaultEnabled i = Some True)"
  using assms by (auto simp: createThreadPermissionDescriptor_def permissionIdFor_def assertProviderId_def
      assertAccessId_def registry_fail_def descriptor_ok_def input_id_def split: if_splits)

lemma create_accepts:
  assumes "descriptor_ok i"
  shows "\<exists>d. createThreadPermissionDescriptor i = Inr d"
proof -
  have native: "\<not> (p = METIDOS_PERMISSION_PROVIDER_ID \<and> \<not> starts_with ''metidos:'' (p @ '':'' @ a))" for p a
    by (simp add: starts_with_def METIDOS_PERMISSION_PROVIDER_ID_def)
  have "assertProviderId (i_providerId i) = Inr ()" "assertAccessId (i_accessId i) = Inr ()"
    and texts: "js_trim (i_providerDescription i) \<noteq> []" "js_trim (i_description i) \<noteq> []"
    using assms by (simp_all add: assertProviderId_def assertAccessId_def descriptor_ok_def)
  then show ?thesis
    unfolding createThreadPermissionDescriptor_def permissionIdFor_def
    by (simp only: try_then.simps if_False texts native) blast
qed

lemma create_all_ids:
  "try_map createThreadPermissionDescriptor is = Inr ds \<Longrightarrow> map d_id ds = map input_id is"
  by (auto simp: try_map_Inr list_all2_conv_all_nth create_ok intro!: nth_equalityI)

text \<open>The separator occurs in neither part of an accepted id, so the id determines both.\<close>

lemma provider_no_colon: "provider_id_ok p \<Longrightarrow> CHR '':'' \<notin> set p"
  by (cases p) (auto simp: list_all_iff ident_char_def is_lower_def is_digit_def)

lemma append_colon_inject:
  "CHR '':'' \<notin> set p \<Longrightarrow> CHR '':'' \<notin> set q \<Longrightarrow> p @ '':'' @ a = q @ '':'' @ b \<longleftrightarrow> p = q \<and> a = b"
proof (induction p arbitrary: q)
  case Nil
  then show ?case by (cases q) auto
next
  case (Cons x p)
  then show ?case by (cases q) auto
qed

lemma input_id_inject:
  "descriptor_ok i \<Longrightarrow> descriptor_ok j \<Longrightarrow>
     input_id i = input_id j \<longleftrightarrow> i_providerId i = i_providerId j \<and> i_accessId i = i_accessId j"
  unfolding input_id_def descriptor_ok_def
  by (rule append_colon_inject) (auto dest: provider_no_colon)

section \<open>The native table\<close>

definition native_inputs :: "descriptor_input list" where
  "native_inputs = map (\<lambda>(index, input). input\<lparr> i_order := Some (int index) \<rparr>)
     (zip [0..<length METIDOS_NATIVE_PERMISSION_INPUTS] METIDOS_NATIVE_PERMISSION_INPUTS)"

lemma native_accesses:
  "map i_accessId native_inputs = [''web-search'', ''webserver'', ''github'', ''git'', ''sqlite'', ''lancedb'',
     ''memory'', ''agents'', ''calendar'', ''notifications'', ''threads'', ''crons'', ''unsafe'']"
  by (simp add: native_inputs_def METIDOS_NATIVE_PERMISSION_INPUTS_def native_input_def)

lemma native_inputs_ok: "list_all descriptor_ok native_inputs"
  by (simp add: native_inputs_def METIDOS_NATIVE_PERMISSION_INPUTS_def native_input_def descriptor_ok_def
      METIDOS_NATIVE_PROVIDER_DESCRIPTION_def METIDOS_PERMISSION_PROVIDER_ID_def js_trim_def js_ws_def
      ident_char_def is_lower_def is_digit_def)

lemma native_provider: "i \<in> set native_inputs \<Longrightarrow> i_providerId i = ''metidos''"
  by (auto simp: native_inputs_def METIDOS_NATIVE_PERMISSION_INPUTS_def native_input_def METIDOS_PERMISSION_PROVIDER_ID_def)

lemma native_unsafe:
  "i \<in> set native_inputs \<Longrightarrow> (i_unsafe i = Some True) = (i_accessId i = ''unsafe'') \<and>
     (i_requiresApproval i = Some True) = (i_accessId i = ''unsafe'')"
  by (auto simp: native_inputs_def METIDOS_NATIVE_PERMISSION_INPUTS_def native_input_def)

lemma natives_by_inputs: "metidosNativePermissionDescriptors = try_map createThreadPermissionDescriptor native_inputs"
  by (simp add: metidosNativePermissionDescriptors_def native_inputs_def try_map_map case_prod_unfold)

lemma natives_exist: "\<exists>native. metidosNativePermissionDescriptors = Inr native"
  using native_inputs_ok create_accepts by (simp add: natives_by_inputs try_map_accepts list_all_iff)

section \<open>The registry\<close>

lemma sortDescriptors_or_else:
  "sortDescriptors lc = (\<lambda>x y.
     or_else (or_else (num_diff (of_bool (d_providerId x \<noteq> ''metidos'')) (of_bool (d_providerId y \<noteq> ''metidos'')))
                      (lc (d_providerId x) (d_providerId y)))
       (or_else (num_diff (d_order x) (d_order y)) (lc (d_accessId x) (d_accessId y))))"
proof (intro ext, goal_cases)
  case (1 x y)
  show ?case
    by (cases "d_providerId x = ''metidos''"; cases "d_providerId y = ''metidos''")
      (simp_all add: sortDescriptors_def or_else_def num_diff_def METIDOS_PERMISSION_PROVIDER_ID_def)
qed

lemma sortDescriptors_comparator:
  assumes "comparator lc"
  shows "comparator (sortDescriptors lc)"
  unfolding sortDescriptors_or_else
  by (intro comparator_or_else comparator_key [OF num.comparator_axioms] comparator_key [OF assms])

lemma update_absent: "jm_get m k = None \<Longrightarrow> jm_set k v m = m @ [(k, v)]"
  by (induction m) (auto split: if_splits)

lemma index_descriptors_iff:
  "index_descriptors ds m = Inr m' \<longleftrightarrow> distinct (map d_id ds) \<and> (\<forall>d \<in> set ds. jm_get m (d_id d) = None) \<and>
     m' = m @ map (\<lambda>d. (d_id d, d)) ds"
proof (induction ds arbitrary: m)
  case (Cons d ds)
  show ?case
  proof (cases "jm_get m (d_id d)")
    case None
    have "jm_get (m @ [(d_id d, d)]) k = None \<longleftrightarrow> jm_get m k = None \<and> k \<noteq> d_id d" for k
      by (simp add: map_add_None)
    then have "index_descriptors (d # ds) m = Inr m' \<longleftrightarrow> distinct (map d_id ds) \<and>
        (\<forall>e \<in> set ds. jm_get m (d_id e) = None \<and> d_id e \<noteq> d_id d) \<and>
        m' = (m @ [(d_id d, d)]) @ map (\<lambda>d. (d_id d, d)) ds"
      unfolding index_descriptors.simps None option.case update_absent [OF None] Cons.IH by (simp only:)
    also have "\<dots> \<longleftrightarrow> distinct (map d_id (d # ds)) \<and> (\<forall>e \<in> set (d # ds). jm_get m (d_id e) = None) \<and>
        m' = m @ map (\<lambda>d. (d_id d, d)) (d # ds)"
      using None by (simp add: ball_conj_distrib image_iff) (metis (no_types))
    finally show ?thesis .
  qed (simp add: registry_fail_def)
qed auto

lemma index_lookup:
  assumes "index_descriptors ds [] = Inr m"
  shows "jm_get m k = Some d \<longleftrightarrow> d \<in> set ds \<and> d_id d = k"
proof -
  have "distinct (map fst (map (\<lambda>d. (d_id d, d)) ds))" and m: "m = map (\<lambda>d. (d_id d, d)) ds"
    using assms by (simp_all add: index_descriptors_iff comp_def)
  from map_of_eq_Some_iff [OF this(1)] show ?thesis unfolding m by auto
qed

lemma reserved_metidos: "isReservedPluginId ''metidos''"
  by (simp add: isReservedPluginId_def RESERVED_PLUGIN_ID_SET_def js_trim_def js_ws_def js_lower_def js_lower_char_def)

lemma registry_built:
  "createThreadPermissionRegistry lc plugins = Inr reg \<longleftrightarrow>
     (\<forall>i \<in> set plugins. \<not> isReservedPluginId (i_providerId i)) \<and>
     (\<exists>native plugin. metidosNativePermissionDescriptors = Inr native \<and>
        try_map createThreadPermissionDescriptor plugins = Inr plugin \<and>
        descriptors reg = js_sort (sortDescriptors lc) (native @ plugin) \<and>
        index_descriptors (descriptors reg) [] = Inr (byId reg))"
proof (cases "find (\<lambda>d. isReservedPluginId (i_providerId d)) plugins")
  case None
  then have ok: "\<forall>i \<in> set plugins. \<not> isReservedPluginId (i_providerId i)" by (simp add: find_None_iff)
  from natives_exist obtain native where n: "metidosNativePermissionDescriptors = Inr native" ..
  show ?thesis
  proof (cases "try_map createThreadPermissionDescriptor plugins")
    case (Inl e)
    then show ?thesis by (simp add: createThreadPermissionRegistry_def None n)
  next
    case (Inr plugin)
    show ?thesis
      by (cases "index_descriptors (js_sort (sortDescriptors lc) (native @ plugin)) []")
        (auto simp: createThreadPermissionRegistry_def None n Inr Let_def ok)
  qed
next
  case (Some d)
  then have "d \<in> set plugins" "isReservedPluginId (i_providerId d)" by (auto simp: find_Some_iff)
  moreover have "createThreadPermissionRegistry lc plugins \<noteq> Inr reg"
    by (simp add: createThreadPermissionRegistry_def Some registry_fail_def)
  ultimately show ?thesis by blast
qed

text \<open>Acceptance: every contribution is valid, and no two of them name the same permission.\<close>

definition contribution_ok :: "descriptor_input \<Rightarrow> bool" where
  "contribution_ok i = (\<not> isReservedPluginId (i_providerId i) \<and> descriptor_ok i)"

lemma native_ids_fresh:
  assumes "n \<in> set native_inputs" and "contribution_ok i"
  shows "input_id n \<noteq> input_id i"
  using assms native_provider [OF assms(1)] native_inputs_ok reserved_metidos input_id_inject [of n i]
  by (auto simp: contribution_ok_def list_all_iff)

lemma native_ids_distinct: "distinct (map input_id native_inputs)"
proof (rule distinct_map [THEN iffD2], intro conjI inj_onI)
  have d: "distinct (map i_accessId native_inputs)" by (simp add: native_accesses)
  then show "distinct native_inputs" by (simp add: distinct_map)
  fix i j assume ij: "i \<in> set native_inputs" "j \<in> set native_inputs" "input_id i = input_id j"
  then have "i_accessId i = i_accessId j" using input_id_inject native_inputs_ok by (auto simp: list_all_iff)
  then show "i = j" using d ij(1,2) unfolding distinct_map by (blast dest: inj_onD)
qed

lemma contributions_distinct:
  assumes "\<forall>i \<in> set plugins. contribution_ok i"
  shows "distinct (map input_id plugins) \<longleftrightarrow> distinct (map (\<lambda>i. (i_providerId i, i_accessId i)) plugins)"
proof -
  have "inj_on input_id (set plugins) \<longleftrightarrow> inj_on (\<lambda>i. (i_providerId i, i_accessId i)) (set plugins)"
    unfolding inj_on_def using assms input_id_inject by (simp add: contribution_ok_def)
  then show ?thesis by (simp add: distinct_map)
qed

lemma registry_accepts:
  "(\<exists>reg. createThreadPermissionRegistry lc plugins = Inr reg) \<longleftrightarrow>
     (\<forall>i \<in> set plugins. contribution_ok i) \<and> distinct (map (\<lambda>i. (i_providerId i, i_accessId i)) plugins)"
  (is "?L \<longleftrightarrow> ?R")
proof
  assume ?L
  then obtain reg :: permission_registry and native plugin where res: "\<forall>i \<in> set plugins. \<not> isReservedPluginId (i_providerId i)"
    and p: "try_map createThreadPermissionDescriptor plugins = Inr plugin"
    and ds: "descriptors reg = js_sort (sortDescriptors lc) (native @ plugin)"
      "index_descriptors (descriptors reg) [] = Inr (byId reg)"
    unfolding registry_built by blast
  have ok: "\<forall>i \<in> set plugins. contribution_ok i"
    using res p create_ok(1) by (metis contribution_ok_def try_map_accepts)
  have "distinct (map d_id (descriptors reg))" using ds(2) by (simp add: index_descriptors_iff)
  then have "distinct (map d_id (native @ plugin))"
    unfolding ds(1) by (metis mset_eq_imp_distinct_iff mset_js_sort mset_map)
  then have "distinct (map input_id plugins)" using create_all_ids [OF p] by simp
  then show ?R using ok contributions_distinct by blast
next
  assume R: ?R
  then have dist: "distinct (map input_id plugins)" using contributions_distinct by blast
  obtain native where n: "metidosNativePermissionDescriptors = Inr native" using natives_exist ..
  obtain plugin where p: "try_map createThreadPermissionDescriptor plugins = Inr plugin"
    using R create_accepts try_map_accepts [of createThreadPermissionDescriptor plugins]
    by (auto simp: contribution_ok_def)
  have ids: "map d_id native = map input_id native_inputs" "map d_id plugin = map input_id plugins"
    using create_all_ids n p by (auto simp: natives_by_inputs)
  have "distinct (map d_id (native @ plugin))"
    using R dist native_ids_distinct native_ids_fresh by (auto simp: ids)
  then have d: "distinct (map d_id (js_sort (sortDescriptors lc) (native @ plugin)))"
    by (metis mset_eq_imp_distinct_iff mset_js_sort mset_map)
  define ds where "ds = js_sort (sortDescriptors lc) (native @ plugin)"
  have "createThreadPermissionRegistry lc plugins = Inr \<lparr> descriptors = ds, byId = map (\<lambda>d. (d_id d, d)) ds \<rparr>"
    unfolding registry_built using R n p d by (auto simp: ds_def index_descriptors_iff contribution_ok_def)
  then show ?L by blast
qed

lemma registry_lookup:
  assumes "createThreadPermissionRegistry lc plugins = Inr reg"
    and "metidosNativePermissionDescriptors = Inr native"
    and "try_map createThreadPermissionDescriptor plugins = Inr added"
  shows "mset (descriptors reg) = mset (native @ added)"
    and "jm_get (byId reg) pid = Some d \<longleftrightarrow> d \<in> set (native @ added) \<and> d_id d = pid"
proof -
  obtain native' added' where p: "metidosNativePermissionDescriptors = Inr native'"
      "try_map createThreadPermissionDescriptor plugins = Inr added'"
    and q: "descriptors reg = js_sort (sortDescriptors lc) (native' @ added')"
    and ix: "index_descriptors (descriptors reg) [] = Inr (byId reg)"
    using assms(1) unfolding registry_built by blast
  have "Inr native' = (Inr native :: registry_error + permission_descriptor list)"
      "Inr added' = (Inr added :: registry_error + permission_descriptor list)"
    using trans [OF p(1) [symmetric] assms(2)] trans [OF p(2) [symmetric] assms(3)] by blast+
  then have "native' = native" "added' = added" by simp_all
  then have ds: "descriptors reg = js_sort (sortDescriptors lc) (native @ added)" using q by simp
  show "mset (descriptors reg) = mset (native @ added)" by (simp add: ds)
  show "jm_get (byId reg) pid = Some d \<longleftrightarrow> d \<in> set (native @ added) \<and> d_id d = pid"
    using index_lookup [OF ix, of pid d] by (simp add: ds)
qed

section \<open>Normalisation\<close>

text \<open>The error an entry of a requested array raises by itself, if any.\<close>

definition item_error :: "permission_registry \<Rightarrow> requested_item \<Rightarrow> registry_error option" where
  "item_error registry item = (case item of
     OtherItem \<Rightarrow> Some \<lparr> re_code = ''invalid_thread_permission'',
       re_message = ''Thread permission entries must be strings.'' \<rparr>
   | StringItem s \<Rightarrow> if js_trim s = [] \<or> jm_get (byId registry) (js_trim s) \<noteq> None then None
       else Some \<lparr> re_code = ''unknown_thread_permission'',
         re_message = ''Unknown thread permission '' @ js_trim s @ ''.'' \<rparr>)"

lemma item_error_simps [simp]:
  "item_error registry OtherItem = Some \<lparr> re_code = ''invalid_thread_permission'',
     re_message = ''Thread permission entries must be strings.'' \<rparr>"
  "js_trim s = [] \<Longrightarrow> item_error registry (StringItem s) = None"
  "jm_get (byId registry) (js_trim s) = Some d \<Longrightarrow> item_error registry (StringItem s) = None"
  "js_trim s \<noteq> [] \<Longrightarrow> jm_get (byId registry) (js_trim s) = None \<Longrightarrow>
     item_error registry (StringItem s) = Some \<lparr> re_code = ''unknown_thread_permission'',
       re_message = ''Unknown thread permission '' @ js_trim s @ ''.'' \<rparr>"
  by (simp_all add: item_error_def)

fun item_text :: "requested_item \<Rightarrow> string" where
  "item_text (StringItem s) = s"
| "item_text OtherItem = []"

lemma jm_has_get: "jm_has m k \<longleftrightarrow> jm_get m k \<noteq> None"
  by (induction m) (auto simp: jm_has_def)

lemma normalize_items_spec:
  "normalize_items registry items normalized =
     (case find (\<lambda>i. item_error registry i \<noteq> None) items of
        Some i \<Rightarrow> Inl (the (item_error registry i))
      | None \<Rightarrow> Inr (foldl (\<lambda>s x. set_add x s) normalized
          (filter (\<lambda>x. x \<noteq> []) (map (js_trim \<circ> item_text) items))))"
proof (induction items arbitrary: normalized)
  case (Cons item items)
  show ?case
  proof (cases item)
    case (StringItem s)
    then show ?thesis
      by (cases "js_trim s = []"; cases "jm_get (byId registry) (js_trim s)")
        (simp_all add: Cons jm_has_get registry_fail_def Let_def split: option.split)
  qed (simp add: registry_fail_def)
qed simp

lemma granted_known:
  assumes "normalizeThreadPermissions lc reg request = Inr granted" and "p \<in> set granted"
  shows "\<exists>d. jm_get (byId reg) p = Some d"
proof -
  obtain items where items: "request = ArrayValue items"
    using assms by (cases request) (auto simp: registry_fail_def)
  have "length items \<le> THREAD_PERMISSION_LIMIT"
    using assms(1) unfolding items by (cases "length items \<le> THREAD_PERMISSION_LIMIT") (simp_all add: registry_fail_def)
  then have n: "try_then (normalize_items reg items []) (\<lambda>xs. Inr (js_sort lc xs)) = Inr granted"
    using assms(1) unfolding items by simp
  have f: "find (\<lambda>i. item_error reg i \<noteq> None) items = None"
    using n by (cases "find (\<lambda>i. item_error reg i \<noteq> None) items") (simp_all add: normalize_items_spec)
  then have "set granted = set (filter (\<lambda>x. x \<noteq> []) (map (js_trim \<circ> item_text) items))"
    using n by (auto simp: normalize_items_spec js_set_fold)
  then obtain item where item: "item \<in> set items" "p = js_trim (item_text item)" "p \<noteq> []"
    using assms(2) by auto
  then have "item_error reg item = None" using f by (auto simp: find_None_iff)
  then show ?thesis using item by (cases item) (auto simp: item_error_def split: if_splits)
qed

section \<open>Inventory\<close>

lemma from_inventory:
  assumes "i \<in> set (pluginPermissionDescriptorsFromInventory plugins)"
  shows "\<exists>plugin \<in> set plugins. \<exists>g \<in> set (pl_access plugin). pluginIsActive plugin \<and> \<not> group_empty g \<and>
    pl_pluginId plugin = Some (i_providerId i) \<and> g_id g = Some (i_accessId i) \<and> i_unsafe i = None \<and>
    i_defaultEnabled i = Some False \<and> \<not> isReservedPluginId (i_providerId i)"
proof -
  from assms obtain plugin g where pg: "plugin \<in> set plugins" "g \<in> set (pl_access plugin)"
    and act: "pluginIsActive plugin" "truthy (pl_pluginId plugin)" and grp: "truthy (g_id g)" "\<not> group_empty g"
    and i: "i_accessId i = nullish (g_id g) []" "i_providerId i = nullish (pl_pluginId plugin) []"
      "i_unsafe i = None" "i_defaultEnabled i = Some False"
    unfolding pluginPermissionDescriptorsFromInventory_def set_concat set_map Let_def
    by (auto split: if_split_asm)
  have "pl_pluginId plugin = Some (i_providerId i)" "g_id g = Some (i_accessId i)"
    using act(2) grp(1) i(1,2) by (auto simp: truthy_def nullish_def split: option.splits)
  moreover have "\<not> isReservedPluginId (i_providerId i)" using act(1) i(2) by (simp add: pluginIsActive_def)
  ultimately show ?thesis using pg act(1) grp(2) i(3,4) by blast
qed

lemma grant_confined:
  assumes "createThreadPermissionRegistry lc (pluginPermissionDescriptorsFromInventory plugins) = Inr reg"
    and "normalizeThreadPermissions lc reg request = Inr granted" and "p \<in> set granted"
  shows "((\<exists>a \<in> set [''web-search'', ''webserver'', ''github'', ''git'', ''sqlite'', ''lancedb'', ''memory'',
          ''agents'', ''calendar'', ''notifications'', ''threads'', ''crons'', ''unsafe'']. p = ''metidos:'' @ a) \<or>
      (\<exists>plugin \<in> set plugins. \<exists>g \<in> set (pl_access plugin). pluginIsActive plugin \<and> \<not> group_empty g \<and>
         (\<exists>i a. pl_pluginId plugin = Some i \<and> g_id g = Some a \<and> i \<noteq> ''metidos'' \<and> p = i @ '':'' @ a))) \<and>
    (\<exists>d. jm_get (byId reg) p = Some d \<and> d_unsafe d = (p = ''metidos:unsafe''))"
proof -
  let ?plugins = "pluginPermissionDescriptorsFromInventory plugins"
  obtain d where d: "jm_get (byId reg) p = Some d" using granted_known [OF assms(2,3)] ..
  from assms(1) obtain native added where n: "metidosNativePermissionDescriptors = Inr native"
    and a: "try_map createThreadPermissionDescriptor ?plugins = Inr added"
    unfolding registry_built by blast
  have mem: "d \<in> set (native @ added)" "d_id d = p" using registry_lookup(2) [OF assms(1) n a] d by simp_all
  show ?thesis
  proof (cases "d \<in> set native")
    case True
    then obtain i where i: "i \<in> set native_inputs" "createThreadPermissionDescriptor i = Inr d"
      using try_map_source [OF n [unfolded natives_by_inputs] True] by blast
    then have p: "p = ''metidos:'' @ i_accessId i"
      using create_ok(2) [OF i(2)] native_provider [OF i(1)] mem(2) by (simp add: input_id_def)
    have "i_accessId i \<in> set (map i_accessId native_inputs)" using i(1) by simp
    moreover have "d_unsafe d = (p = ''metidos:unsafe'')"
      using create_ok(5) [OF i(2)] native_unsafe [OF i(1)] p by simp
    ultimately show ?thesis unfolding native_accesses using p d by blast
  next
    case False
    then have "d \<in> set added" using mem(1) by simp
    from try_map_source [OF a this] obtain i where
      i: "i \<in> set ?plugins" "createThreadPermissionDescriptor i = Inr d" by blast
    from from_inventory [OF i(1)] obtain plugin g where pg: "plugin \<in> set plugins" "g \<in> set (pl_access plugin)"
      "pluginIsActive plugin" "\<not> group_empty g" "pl_pluginId plugin = Some (i_providerId i)"
      "g_id g = Some (i_accessId i)" and u: "i_unsafe i = None" and r: "\<not> isReservedPluginId (i_providerId i)"
      by blast
    have m: "i_providerId i \<noteq> ''metidos''" using r reserved_metidos by auto
    have p: "p = i_providerId i @ '':'' @ i_accessId i"
      using create_ok(2) [OF i(2)] mem(2) by (simp add: input_id_def)
    have "p \<noteq> ''metidos'' @ '':'' @ ''unsafe''"
      using create_ok(1) [OF i(2)] m unfolding p
      by (subst append_colon_inject) (auto simp: descriptor_ok_def dest: provider_no_colon)
    then have "d_unsafe d = (p = ''metidos:unsafe'')" using create_ok(5) [OF i(2)] u by simp
    then show ?thesis using pg m p d by blast
  qed
qed

section \<open>Properties\<close>

text \<open>
  The registry accepts a set of contributions exactly when each has valid ids, non-blank
  descriptions and a provider other than the reserved one, and no two name the same permission
  (native ones need no check: they cannot clash). It then holds the native descriptors and the
  contributed ones, sorted, and its index finds a descriptor by its id and nothing else.
\<close>

theorem thread_registry_exact:
  assumes "comparator lc"
  shows "((\<exists>reg. createThreadPermissionRegistry lc plugins = Inr reg) \<longleftrightarrow>
       (\<forall>i \<in> set plugins. contribution_ok i) \<and> distinct (map (\<lambda>i. (i_providerId i, i_accessId i)) plugins)) \<and>
    (\<forall>reg. createThreadPermissionRegistry lc plugins = Inr reg \<longrightarrow>
       (\<exists>native added. metidosNativePermissionDescriptors = Inr native \<and>
          try_map createThreadPermissionDescriptor plugins = Inr added \<and>
          mset (descriptors reg) = mset (native @ added) \<and>
          sorted_wrt (\<lambda>x y. sortDescriptors lc x y \<le> 0) (descriptors reg) \<and>
          (\<forall>pid d. jm_get (byId reg) pid = Some d \<longleftrightarrow> d \<in> set (native @ added) \<and> d_id d = pid)))"
proof (intro conjI allI impI)
  fix reg assume r: "createThreadPermissionRegistry lc plugins = Inr reg"
  then obtain native added where n: "metidosNativePermissionDescriptors = Inr native"
    and a: "try_map createThreadPermissionDescriptor plugins = Inr added"
    and ds: "descriptors reg = js_sort (sortDescriptors lc) (native @ added)"
    unfolding registry_built by blast
  have "sorted_wrt (\<lambda>x y. sortDescriptors lc x y \<le> 0) (descriptors reg)"
    unfolding ds by (rule comparator.js_sort_sorted [OF sortDescriptors_comparator [OF assms]])
  then show "\<exists>native added. metidosNativePermissionDescriptors = Inr native \<and>
      try_map createThreadPermissionDescriptor plugins = Inr added \<and>
      mset (descriptors reg) = mset (native @ added) \<and>
      sorted_wrt (\<lambda>x y. sortDescriptors lc x y \<le> 0) (descriptors reg) \<and>
      (\<forall>pid d. jm_get (byId reg) pid = Some d \<longleftrightarrow> d \<in> set (native @ added) \<and> d_id d = pid)"
    using n a registry_lookup [OF r n a] by blast
qed (rule registry_accepts)

text \<open>
  A requested array of at most 200 entries is refused with the error of its first offending
  entry (not a string, or neither blank nor a known id); otherwise the result is the shared
  normalisation of its strings. Longer arrays and values of another type are refused.
\<close>

theorem thread_permissions_normalized:
  "normalizeThreadPermissions lc registry MissingValue = Inr [] \<and>
   normalizeThreadPermissions lc registry OtherValue = Inl \<lparr> re_code = ''invalid_thread_permissions'',
     re_message = ''Thread permissions must be an array of permission strings.'' \<rparr> \<and>
   normalizeThreadPermissions lc registry (ArrayValue items) =
     (if 200 < length items then Inl \<lparr> re_code = ''too_many_thread_permissions'',
        re_message = ''Thread permissions are limited to '' @ show_nat 200 @ '' entries.'' \<rparr>
      else case find (\<lambda>i. item_error registry i \<noteq> None) items of
             Some i \<Rightarrow> Inl (the (item_error registry i))
           | None \<Rightarrow> Inr (normalizeThreadAccessPermissionIds lc (Some (map item_text items))))"
  by (simp add: registry_fail_def THREAD_PERMISSION_LIMIT_def normalize_items_spec
      normalizeThreadAccessPermissionIds_def js_set_def comp_def split: option.split)

text \<open>
  C33. From the plugin inventory to the granted ids: whatever is requested, an id is granted only if
  it is one of the thirteen native permissions or names an access group, with at least one tool or
  injection, of a plugin that is active, valid and not using the reserved id. The unsafe permission
  is always the native one, and the only one marked unsafe.
\<close>

theorem thread_permission_grant_confined:
  assumes "createThreadPermissionRegistry lc (pluginPermissionDescriptorsFromInventory plugins) = Inr reg"
    and "normalizeThreadPermissions lc reg request = Inr granted" and "p \<in> set granted"
  shows "((\<exists>a \<in> set [''web-search'', ''webserver'', ''github'', ''git'', ''sqlite'', ''lancedb'', ''memory'',
          ''agents'', ''calendar'', ''notifications'', ''threads'', ''crons'', ''unsafe'']. p = ''metidos:'' @ a) \<or>
      (\<exists>plugin \<in> set plugins. \<exists>g \<in> set (pl_access plugin). pluginIsActive plugin \<and> \<not> group_empty g \<and>
         (\<exists>i a. pl_pluginId plugin = Some i \<and> g_id g = Some a \<and> i \<noteq> ''metidos'' \<and> p = i @ '':'' @ a))) \<and>
    (\<exists>d. jm_get (byId reg) p = Some d \<and> d_unsafe d = (p = ''metidos:unsafe''))"
  using assms by (rule grant_confined)

text \<open>
  Plugins never widen the defaults: with any inventory the permissions that are on by default are
  the three of the shared list.
\<close>

lemma native_default_list:
  "map input_id (filter (\<lambda>i. i_defaultEnabled i = Some True) native_inputs) =
     [''metidos:web-search'', ''metidos:threads'', ''metidos:crons'']"
  by (simp add: native_inputs_def METIDOS_NATIVE_PERMISSION_INPUTS_def native_input_def input_id_def
      default_on_def DEFAULT_THREAD_ACCESS_PERMISSION_IDS_def METIDOS_PERMISSION_PROVIDER_ID_def)

lemma native_default_ids:
  "{input_id i | i. i \<in> set native_inputs \<and> i_defaultEnabled i = Some True} = set DEFAULT_THREAD_ACCESS_PERMISSION_IDS"
proof -
  have "{input_id i | i. i \<in> set native_inputs \<and> i_defaultEnabled i = Some True} =
      set (map input_id (filter (\<lambda>i. i_defaultEnabled i = Some True) native_inputs))" by auto
  then show ?thesis unfolding native_default_list DEFAULT_THREAD_ACCESS_PERMISSION_IDS_def by auto
qed

theorem inventory_defaults_native:
  assumes "createThreadPermissionRegistry lc (pluginPermissionDescriptorsFromInventory plugins) = Inr reg"
  shows "set (defaultThreadPermissions lc reg) = set DEFAULT_THREAD_ACCESS_PERMISSION_IDS"
proof -
  let ?plugins = "pluginPermissionDescriptorsFromInventory plugins"
  from assms obtain native added where n: "metidosNativePermissionDescriptors = Inr native"
    and a: "try_map createThreadPermissionDescriptor ?plugins = Inr added"
    unfolding registry_built by blast
  have "\<not> d_defaultEnabled d" if d: "d \<in> set added" for d
  proof -
    from try_map_source [OF a d] obtain i where "i \<in> set ?plugins" "createThreadPermissionDescriptor i = Inr d" by blast
    then show ?thesis using from_inventory create_ok(7) by fastforce
  qed
  moreover have "set (descriptors reg) = set native \<union> set added"
    using mset_eq_setD [OF registry_lookup(1) [OF assms n a]] by simp
  ultimately have "set (defaultThreadPermissions lc reg) = {d_id d | d. d \<in> set native \<and> d_defaultEnabled d}"
    by (auto simp: defaultThreadPermissions_def)
  also have "\<dots> = {input_id i | i. i \<in> set native_inputs \<and> i_defaultEnabled i = Some True}"
  proof -
    have l: "list_all2 (\<lambda>i d. createThreadPermissionDescriptor i = Inr d) native_inputs native"
      using n by (simp add: natives_by_inputs try_map_Inr)
    have "\<exists>d \<in> set native. createThreadPermissionDescriptor i = Inr d" if i: "i \<in> set native_inputs" for i
    proof -
      obtain k where k: "k < length native_inputs" "i = native_inputs ! k" using i by (auto simp: in_set_conv_nth)
      then have "createThreadPermissionDescriptor i = Inr (native ! k)" "native ! k \<in> set native"
        using l by (simp_all add: list_all2_conv_all_nth)
      then show ?thesis by blast
    qed
    moreover have "\<exists>i \<in> set native_inputs. createThreadPermissionDescriptor i = Inr d" if d: "d \<in> set native" for d
      using try_map_source [OF n [unfolded natives_by_inputs] d] .
    ultimately show ?thesis using create_ok(2,7) by (intro set_eqI iffI) (simp_all, metis+)
  qed
  finally show ?thesis by (simp only: native_default_ids)
qed

section \<open>Witnesses\<close>

definition demo_plugin :: inventory_plugin where
  "demo_plugin = \<lparr> pl_pluginId = Some ''demo'', pl_name = Some ''Demo'', pl_description = None,
     pl_group = ''Active'', pl_state = ''active'', pl_structurallyValid = True, pl_validationErrors = [],
     pl_access = [\<lparr> g_id = Some ''files'', g_name = None, g_description = None, g_tools = [Some ''read''],
       g_injects = None \<rparr>] \<rparr>"

definition demo_contribution :: descriptor_input where
  "demo_contribution = \<lparr> i_accessId = ''files'', i_description = ''Plugin access files.'',
     i_providerDescription = ''Demo'', i_providerId = ''demo'', i_category = Some PluginCategory,
     i_defaultEnabled = Some False, i_label = Some ''files'', i_order = None, i_requiresApproval = None,
     i_unsafe = None \<rparr>"

lemma demo_inventory: "pluginPermissionDescriptorsFromInventory [demo_plugin] = [demo_contribution]"
  by (simp add: pluginPermissionDescriptorsFromInventory_def demo_plugin_def demo_contribution_def pluginIsActive_def
      truthy_def nullish_def isReservedPluginId_def RESERVED_PLUGIN_ID_SET_def js_trim_def js_ws_def js_lower_def
      js_lower_char_def group_empty_def trimmed_or_def Let_def)

lemma demo_contribution_ok: "contribution_ok demo_contribution"
  by (simp add: contribution_ok_def demo_contribution_def descriptor_ok_def isReservedPluginId_def
      RESERVED_PLUGIN_ID_SET_def js_trim_def js_ws_def js_lower_def js_lower_char_def is_lower_def ident_char_def)

theorem thread_registry_exact_witness:
  "\<exists>reg. createThreadPermissionRegistry code_unit_compare [demo_contribution] = Inr reg"
  using thread_registry_exact [OF cu.comparator_axioms, of "[demo_contribution]"] demo_contribution_ok by simp

theorem thread_permission_grant_confined_witness:
  "\<exists>reg granted. normalizeThreadPermissions code_unit_compare reg (ArrayValue [StringItem '' demo:files '']) = Inr granted \<and>
     ''demo:files'' \<in> set granted \<and> (\<exists>d. jm_get (byId reg) ''demo:files'' = Some d \<and> \<not> d_unsafe d)"
proof -
  obtain reg where r: "createThreadPermissionRegistry code_unit_compare (pluginPermissionDescriptorsFromInventory [demo_plugin]) = Inr reg"
    using registry_accepts [of code_unit_compare "[demo_contribution]"] demo_contribution_ok demo_inventory by auto
  then obtain native added where n: "metidosNativePermissionDescriptors = Inr native"
    and a: "try_map createThreadPermissionDescriptor [demo_contribution] = Inr added"
    unfolding registry_built demo_inventory by blast
  from a obtain d where d: "added = [d]" "createThreadPermissionDescriptor demo_contribution = Inr d"
    by (auto simp: try_map_Cons simp del: try_map.simps(2))
  have "d_id d = ''demo:files''" using create_ok(2) [OF d(2)] by (simp add: input_id_def demo_contribution_def)
  then have look: "jm_get (byId reg) ''demo:files'' = Some d"
    using registry_lookup(2) [OF r [unfolded demo_inventory] n a, of "''demo:files''" d] d(1) by simp
  have t: "js_trim '' demo:files '' = ''demo:files''" by (simp add: js_trim_def js_ws_def)
  have g: "normalizeThreadPermissions code_unit_compare reg (ArrayValue [StringItem '' demo:files '']) = Inr [''demo:files'']"
    by (simp add: t look jm_has_get THREAD_PERMISSION_LIMIT_def set_add_def js_sort_def Let_def)
  have m: "''demo:files'' \<in> set [''demo:files'']" by simp
  have "\<exists>e. jm_get (byId reg) ''demo:files'' = Some e \<and> \<not> d_unsafe e"
    using thread_permission_grant_confined [OF r g m, THEN conjunct2] by simp
  then show ?thesis using g m by blast
qed

end
