(* ===== verification/Posix_Path.thy ===== *)
theory Posix_Path
  imports Js_Base "HOL-Library.Sublist"
begin

text \<open>
  The functions of \<open>node:path\<close> the sources use, on a POSIX host: a path is a string, resolved
  against the working directory (an absolute path) unless absolute itself, and normalised segment
  by segment. A resolved path is a slash followed by its joined segments.
\<close>

definition normal_step :: "string list \<Rightarrow> string \<Rightarrow> string list" where
  "normal_step acc seg =
     (if seg = [] \<or> seg = ''.'' then acc else if seg = ''..'' then butlast acc else acc @ [seg])"

definition path_segments :: "string \<Rightarrow> string list" where
  "path_segments p = foldl normal_step [] (split_char CHR ''/'' p)"

definition path_of :: "string list \<Rightarrow> string" where
  "path_of segs = CHR ''/'' # js_join ''/'' segs"

text \<open>\<open>resolve\<close> prepends its arguments from the right until the path is absolute.\<close>

fun resolve_from :: "string list \<Rightarrow> string \<Rightarrow> string" where
  "resolve_from [] acc = acc"
| "resolve_from (p # ps) acc =
     (if p = [] then resolve_from ps acc
      else if starts_with ''/'' p then p @ ''/'' @ acc
      else resolve_from ps (p @ ''/'' @ acc))"

definition posix_resolve :: "string \<Rightarrow> string list \<Rightarrow> string" where
  "posix_resolve cwd ps = path_of (path_segments (resolve_from (rev ps @ [cwd]) []))"

fun relative_segments :: "string list \<Rightarrow> string list \<Rightarrow> string list" where
  "relative_segments [] ys = ys"
| "relative_segments (x # xs) [] = replicate (length (x # xs)) ''..''"
| "relative_segments (x # xs) (y # ys) =
     (if x = y then relative_segments xs ys else replicate (length (x # xs)) ''..'' @ y # ys)"

definition posix_relative :: "string \<Rightarrow> string \<Rightarrow> string \<Rightarrow> string" where
  "posix_relative cwd from_path to_path =
     js_join ''/'' (relative_segments (path_segments (posix_resolve cwd [from_path]))
       (path_segments (posix_resolve cwd [to_path])))"

definition posix_isAbsolute :: "string \<Rightarrow> bool" where
  "posix_isAbsolute p = starts_with ''/'' p"

definition is_slash :: "char \<Rightarrow> bool" where
  "is_slash c = (c = CHR ''/'')"

text \<open>The text before the last slash that is followed by a name.\<close>

definition posix_dirname :: "string \<Rightarrow> string" where
  "posix_dirname p =
     (let r = dropWhile (\<lambda>c. \<not> is_slash c) (dropWhile is_slash (rev p)) in
      if length r \<le> 1 then (if posix_isAbsolute p then ''/'' else ''.'')
      else if length r = 2 \<and> posix_isAbsolute p then ''//''
      else rev (tl r))"

definition posix_basename :: "string \<Rightarrow> string" where
  "posix_basename p = rev (takeWhile (\<lambda>c. \<not> is_slash c) (dropWhile is_slash (rev p)))"

section \<open>Segments\<close>

definition valid_segment :: "string \<Rightarrow> bool" where
  "valid_segment s = (s \<noteq> [] \<and> s \<noteq> ''.'' \<and> s \<noteq> ''..'' \<and> CHR ''/'' \<notin> set s)"

text \<open>A path in the form \<open>resolve\<close> returns.\<close>

definition normal_path :: "string \<Rightarrow> bool" where
  "normal_path p = (\<exists>segs. list_all valid_segment segs \<and> p = path_of segs)"

lemma normal_step_empty [simp]: "normal_step acc [] = acc"
  by (simp add: normal_step_def)

lemma split_char_append: "split_char c (x @ c # y) = split_char c x @ split_char c y"
  by (induction x) (auto split: list.splits)

lemma normal_step_valid: "list_all valid_segment acc \<Longrightarrow> CHR ''/'' \<notin> set s \<Longrightarrow> list_all valid_segment (normal_step acc s)"
  by (auto simp: normal_step_def valid_segment_def list_all_iff dest: in_set_butlastD)

lemma foldl_normal_valid:
  "list_all valid_segment acc \<Longrightarrow> (\<And>s. s \<in> set ss \<Longrightarrow> CHR ''/'' \<notin> set s) \<Longrightarrow>
     list_all valid_segment (foldl normal_step acc ss)"
  by (induction ss arbitrary: acc) (simp_all add: normal_step_valid)

lemma path_segments_valid [simp]: "list_all valid_segment (path_segments p)"
  unfolding path_segments_def by (rule foldl_normal_valid) (auto dest: split_char_pieces)

lemma foldl_normal_append: "list_all valid_segment segs \<Longrightarrow> foldl normal_step acc segs = acc @ segs"
  by (induction segs arbitrary: acc) (simp_all add: normal_step_def valid_segment_def)

lemma path_segments_append:
  "path_segments (p @ CHR ''/'' # q) = foldl normal_step (path_segments p) (split_char CHR ''/'' q)"
  by (simp add: path_segments_def split_char_append)

lemma path_segments_Nil [simp]: "path_segments [] = []"
  by (simp add: path_segments_def)

lemma split_join_segments:
  "list_all valid_segment segs \<Longrightarrow>
     split_char CHR ''/'' (js_join ''/'' segs) = (if segs = [] then [[]] else segs)"
  by (cases "segs = []") (simp_all add: split_join list_all_iff valid_segment_def)

lemma path_segments_Cons: "path_segments (CHR ''/'' # q) = path_segments q"
  using path_segments_append [of "[]" q] by (simp add: path_segments_def)

lemma path_segments_path_of [simp]: "list_all valid_segment segs \<Longrightarrow> path_segments (path_of segs) = segs"
  by (cases "segs = []")
    (simp_all add: path_of_def path_segments_Cons path_segments_def split_join_segments foldl_normal_append)

lemma normal_path_segments: "normal_path p \<Longrightarrow> path_of (path_segments p) = p"
  by (auto simp: normal_path_def)

lemma path_of_inject:
  "list_all valid_segment a \<Longrightarrow> list_all valid_segment b \<Longrightarrow> path_of a = path_of b \<longleftrightarrow> a = b"
  by (metis path_segments_path_of)

lemma normal_path_of: "list_all valid_segment segs \<Longrightarrow> normal_path (path_of segs)"
  by (auto simp: normal_path_def)

lemma normal_path_eqI: "normal_path p \<Longrightarrow> normal_path q \<Longrightarrow> path_segments p = path_segments q \<Longrightarrow> p = q"
  by (metis normal_path_segments)

lemma path_of_absolute [simp]: "starts_with ''/'' (path_of segs)"
  by (simp add: path_of_def starts_with_def)

lemma normal_path_absolute: "normal_path p \<Longrightarrow> starts_with ''/'' p \<and> p \<noteq> []"
  by (auto simp: normal_path_def path_of_def starts_with_def)

lemma normal_resolve [simp]: "normal_path (posix_resolve cwd ps)"
  unfolding posix_resolve_def by (rule normal_path_of) simp

lemma valid_not_absolute: "valid_segment s \<Longrightarrow> \<not> starts_with ''/'' s \<and> s \<noteq> []"
  by (cases s) (auto simp: valid_segment_def starts_with_def)

lemma resolve_from_segments:
  "list_all valid_segment segs \<Longrightarrow> resolve_from (segs @ ps) acc = resolve_from ps (concat (map (\<lambda>s. s @ ''/'') (rev segs)) @ acc)"
  by (induction segs arbitrary: acc) (simp_all add: valid_not_absolute)

lemma split_slash_ended:
  "list_all valid_segment segs \<Longrightarrow> split_char CHR ''/'' (concat (map (\<lambda>s. s @ ''/'') segs)) = segs @ [[]]"
  by (induction segs) (simp_all add: split_char_append split_char_no_sep valid_segment_def)

lemma segments_resolve: "path_segments (posix_resolve cwd ps) = path_segments (resolve_from (rev ps @ [cwd]) [])"
  by (simp add: posix_resolve_def)

text \<open>Resolving names below an absolute path appends them to its segments.\<close>

lemma segments_resolve_below:
  assumes "starts_with ''/'' p" and "list_all valid_segment segs"
  shows "path_segments (posix_resolve cwd (p # segs)) = path_segments p @ segs"
proof -
  have p: "p \<noteq> []" using assms(1) by (auto simp: starts_with_def)
  have r: "list_all valid_segment (rev segs)" using assms(2) by (simp add: list_all_iff)
  have "resolve_from (rev (p # segs) @ [cwd]) [] = p @ CHR ''/'' # concat (map (\<lambda>s. s @ ''/'') segs)"
    using p assms(1) by (simp add: resolve_from_segments [OF r])
  moreover have "path_segments (p @ CHR ''/'' # concat (map (\<lambda>s. s @ ''/'') segs)) =
      foldl normal_step (path_segments p) (segs @ [[]])"
    by (simp only: path_segments_append split_slash_ended [OF assms(2)])
  ultimately have "path_segments (posix_resolve cwd (p # segs)) =
      foldl normal_step (path_segments p) (segs @ [[]])"
    by (simp only: segments_resolve)
  then show ?thesis by (simp add: foldl_normal_append [OF assms(2)])
qed

lemma segments_resolve_absolute: "starts_with ''/'' p \<Longrightarrow> path_segments (posix_resolve cwd [p]) = path_segments p"
  using segments_resolve_below [of p "[]" cwd] by simp

lemma resolve_normal [simp]: "normal_path p \<Longrightarrow> posix_resolve cwd [p] = p"
  by (rule normal_path_eqI) (simp_all add: segments_resolve_absolute normal_path_absolute)

lemma resolve_below_normal:
  "normal_path p \<Longrightarrow> list_all valid_segment segs \<Longrightarrow> posix_resolve cwd (p # segs) = path_of (path_segments p @ segs)"
  by (rule normal_path_eqI) (simp_all add: normal_path_of segments_resolve_below normal_path_absolute)

section \<open>Relative paths\<close>

lemma relative_segments_prefix: "relative_segments a (a @ r) = r"
  by (induction a) auto

lemma relative_segments_not_prefix:
  "\<not> prefix a b \<Longrightarrow> \<exists>rs. relative_segments a b = ''..'' # rs"
  by (induction a b rule: relative_segments.induct) auto

lemma join_segments_Nil: "list_all valid_segment segs \<Longrightarrow> js_join ''/'' segs = [] \<longleftrightarrow> segs = []"
  by (cases segs rule: remdups_adj.cases) (auto simp: valid_segment_def)

lemma starts_with_join:
  assumes "valid_segment s"
  shows "starts_with ''..'' (js_join ''/'' (s # ss)) \<longleftrightarrow> starts_with ''..'' s"
    and "\<not> starts_with ''/'' (js_join ''/'' (s # ss))"
proof -
  obtain c cs where s: "s = c # cs" using assms by (cases s) (auto simp: valid_segment_def)
  have "cs = [] \<Longrightarrow> c \<noteq> CHR ''.''" using assms s by (auto simp: valid_segment_def)
  moreover have "c \<noteq> CHR ''/''" using assms s by (auto simp: valid_segment_def)
  ultimately show "starts_with ''..'' (js_join ''/'' (s # ss)) \<longleftrightarrow> starts_with ''..'' s"
      "\<not> starts_with ''/'' (js_join ''/'' (s # ss))"
    by (cases ss; cases cs; simp add: s starts_with_def)+
qed

lemma starts_with_join_dots: "starts_with ''..'' (js_join ''/'' (''..'' # ss))"
  by (cases ss) (simp_all add: starts_with_def)

end
