(* ===== verification/Fs_Path.thy ===== *)
theory Fs_Path
  imports Posix_Path Js_Result
begin

text \<open>
  \<^verbatim>\<open>src/bun/plugin/fs-path.ts\<close> (with the directory helpers of \<^verbatim>\<open>data.ts\<close> and \<^verbatim>\<open>inventory.ts\<close> it
  calls): the resolution of a plugin's virtual path to a real path inside its root, on a POSIX
  host. The file system is a parameter, read through \<open>lstat\<close> and \<open>realpath\<close>; it does not change
  during one resolution.
\<close>

datatype fs_error = Missing | OtherFsError string

datatype file_kind = RegularFile | DirectoryFile | SymbolicLink | OtherFile

record host_fs =
  lstat :: "string \<Rightarrow> fs_error + file_kind"
  realpath :: "string \<Rightarrow> fs_error + string"

datatype root_kind = PluginData | ProjectRoot | ThreadRoot

datatype path_access = DeleteAccess | ReadAccess | WriteAccess

datatype path_error_code =
    ForbiddenDirectory | InvalidVirtualPath | MissingProjectContext | PathOutsideRoot
  | PathUnavailable | PluginSourceDenied | RootUnavailable

record path_error =
  pe_code :: path_error_code
  pe_message :: string
  pe_virtualPath :: string

text \<open>What may be thrown: the module's own error class, a plain \<open>Error\<close>, a host error.\<close>

datatype thrown = PathError path_error | PlainError string | HostError fs_error

record resolve_input =
  in_pluginPath :: string
  in_projectRootPath :: "string option"
  in_threadRootPath :: "string option"
  in_access :: "path_access option"
  in_virtualPath :: string

record resolved_path =
  absolutePath :: string
  path_exists :: bool
  realPath :: string
  rootKind :: root_kind
  rootPath :: string
  virtualPath :: string

record parsed_path =
  p_rootKind :: root_kind
  p_rootPath :: string
  p_segments :: "string list"
  p_virtualPath :: string

definition FORBIDDEN_DIRECTORY_NAMES :: "string list" where
  "FORBIDDEN_DIRECTORY_NAMES = [''.git'', ''.ssh'']"

definition pluginFsPathError :: "path_error_code \<Rightarrow> string \<Rightarrow> string \<Rightarrow> thrown + 'a" where
  "pluginFsPathError code message vp =
     Inl (PathError \<lparr> pe_code = code, pe_message = message, pe_virtualPath = vp \<rparr>)"

definition pathIsContainedByDirectory :: "string \<Rightarrow> string \<Rightarrow> string \<Rightarrow> bool" where
  "pathIsContainedByDirectory cwd parentDirectoryPath candidatePath =
     (let relativePath = posix_relative cwd (posix_resolve cwd [parentDirectoryPath])
            (posix_resolve cwd [candidatePath]) in
      relativePath = [] \<or> (\<not> starts_with ''..'' relativePath \<and> \<not> posix_isAbsolute relativePath))"

definition pathExistsOrIsSymlink :: "host_fs \<Rightarrow> string \<Rightarrow> thrown + bool" where
  "pathExistsOrIsSymlink fs p =
     (case lstat fs p of Inr _ \<Rightarrow> Inr True | Inl Missing \<Rightarrow> Inr False | Inl e \<Rightarrow> Inl (HostError e))"

lemma resolve_from_last:
  "\<exists>X. (\<forall>acc. resolve_from ps acc = X @ acc) \<and> (X = [] \<or> (\<exists>Y. X = Y @ ''/''))"
proof (induction ps)
  case (Cons p ps)
  then obtain X where X: "\<And>acc. resolve_from ps acc = X @ acc" "X = [] \<or> (\<exists>Y. X = Y @ ''/'')" by blast
  show ?case
  proof (cases "p = []")
    case True
    then show ?thesis using X by auto
  next
    case False
    show ?thesis
    proof (cases "starts_with ''/'' p")
      case True
      then show ?thesis using False by (intro exI [of _ "p @ ''/''"]) simp
    next
      case rel: False
      then show ?thesis using False X by (intro exI [of _ "X @ p @ ''/''"]) simp
    qed
  qed
qed simp

lemma segments_resolve_parent:
  "path_segments (posix_resolve cwd [p, ''..'']) = butlast (path_segments (posix_resolve cwd [p]))"
proof -
  obtain X where X: "\<And>acc. resolve_from [p, cwd] acc = X @ acc" "X = [] \<or> (\<exists>Y. X = Y @ ''/'')"
    using resolve_from_last [of "[p, cwd]"] by blast
  have "resolve_from (rev [p, ''..''] @ [cwd]) [] = X @ ''../''"
    using X(1) [of "''../''"] by (simp add: starts_with_def)
  moreover have "resolve_from (rev [p] @ [cwd]) [] = X" using X(1) [of "[]"] by simp
  moreover have "path_segments (X @ ''../'') = butlast (path_segments X)"
  proof (cases "X = []")
    case True
    then show ?thesis by (simp add: path_segments_def normal_step_def)
  next
    case False
    then obtain Y where Y: "X = Y @ ''/''" using X(2) by blast
    have "path_segments (Y @ CHR ''/'' # ''../'') = butlast (path_segments Y)"
      unfolding path_segments_append by (simp add: normal_step_def)
    moreover have "path_segments (Y @ CHR ''/'' # []) = path_segments Y"
      unfolding path_segments_append by simp
    ultimately show ?thesis using Y by simp
  qed
  ultimately show ?thesis by (simp only: segments_resolve)
qed

text \<open>The walk up from the target to the first path that exists, at most to the root.\<close>

function nearestExistingPathWithinRoot ::
  "string \<Rightarrow> host_fs \<Rightarrow> string \<Rightarrow> string \<Rightarrow> thrown + string option" where
  "nearestExistingPathWithinRoot cwd fs rootDir currentPath =
     (case pathExistsOrIsSymlink fs currentPath of
        Inl e \<Rightarrow> Inl e
      | Inr True \<Rightarrow> Inr (Some currentPath)
      | Inr False \<Rightarrow>
          (if currentPath = rootDir then Inr None
           else let parentPath = posix_resolve cwd [currentPath, ''..''] in
             if parentPath = currentPath then Inr None
             else nearestExistingPathWithinRoot cwd fs rootDir parentPath))"
  by pat_completeness auto
termination
proof (relation "measure (\<lambda>(cwd, fs, r, p). 2 * length (path_segments (posix_resolve cwd [p])) + of_bool (\<not> normal_path p))",
    goal_cases)
  case (2 cwd fs rootDir currentPath b parentPath)
  let ?n = "length (path_segments (posix_resolve cwd [currentPath]))"
  have n: "normal_path parentPath" using 2 by simp
  have len: "length (path_segments parentPath) = ?n - 1"
    using 2 by (simp add: segments_resolve_parent)
  have "?n \<noteq> 0" if c: "normal_path currentPath"
  proof
    assume z: "?n = 0"
    then have "path_segments currentPath = []" "path_segments parentPath = []"
      using c len by simp_all
    then show False using normal_path_eqI [OF n c] 2 by simp
  qed
  then show ?case using n len by (cases "normal_path currentPath") auto
qed simp

declare nearestExistingPathWithinRoot.simps [simp del]

fun normalizedVirtualPath :: "root_kind \<Rightarrow> string list \<Rightarrow> string" where
  "normalizedVirtualPath PluginData segments = (if length segments > 0 then ''~/'' @ js_join ''/'' segments else ''~/'')"
| "normalizedVirtualPath _ segments = (if length segments > 0 then ''./'' @ js_join ''/'' segments else ''./'')"

text \<open>\<open>isPathContainedByDirectory\<close> and \<open>resolvePluginManagedDirectoryPath\<close> of \<^verbatim>\<open>inventory.ts\<close>,
  \<open>resolvePluginDataDirectoryPath\<close> of \<^verbatim>\<open>data.ts\<close>.\<close>

fun str_includes :: "string \<Rightarrow> string \<Rightarrow> bool" where
  "str_includes needle [] = (needle = [])"
| "str_includes needle (c # cs) = (starts_with needle (c # cs) \<or> str_includes needle cs)"

definition isPathContainedByDirectory :: "string \<Rightarrow> string \<Rightarrow> string \<Rightarrow> bool" where
  "isPathContainedByDirectory cwd parentDirectoryPath candidatePath =
     (let relativePath = posix_relative cwd (posix_resolve cwd [parentDirectoryPath])
            (posix_resolve cwd [candidatePath]) in
      relativePath = [] \<or> (\<not> starts_with ''..'' relativePath \<and> \<not> str_includes ''../'' relativePath))"

definition resolvePluginManagedDirectoryPath :: "string \<Rightarrow> string \<Rightarrow> string \<Rightarrow> thrown + string" where
  "resolvePluginManagedDirectoryPath cwd pluginPath directoryName =
     (let resolvedPluginPath = posix_resolve cwd [pluginPath];
          targetPath = posix_resolve cwd [resolvedPluginPath, directoryName] in
      if \<not> isPathContainedByDirectory cwd resolvedPluginPath targetPath
      then Inl (PlainError (''Plugin managed directory '' @ directoryName @ '' escaped its plugin root.''))
      else Inr targetPath)"

definition resolvePluginDataDirectoryPath :: "string \<Rightarrow> string \<Rightarrow> thrown + string" where
  "resolvePluginDataDirectoryPath cwd pluginPath = resolvePluginManagedDirectoryPath cwd pluginPath ''.data''"

fun scan_segments :: "string \<Rightarrow> string list \<Rightarrow> string list \<Rightarrow> thrown + string list" where
  "scan_segments vp [] segments = Inr segments"
| "scan_segments vp (segment # rest) segments =
     (if segment = [] \<or> segment = ''.'' then scan_segments vp rest segments
      else if segment = ''..''
      then pluginFsPathError PathOutsideRoot ''Plugin fs virtual path traversal is denied.'' vp
      else if segment \<in> set FORBIDDEN_DIRECTORY_NAMES
      then pluginFsPathError ForbiddenDirectory ''Plugin fs access to .git and .ssh is denied.'' vp
      else scan_segments vp rest (segments @ [segment]))"

definition parse_root :: "string \<Rightarrow> resolve_input \<Rightarrow> thrown + (root_kind \<times> string \<times> string)" where
  "parse_root cwd input =
     (let vp = in_virtualPath input in
      if CHR 0x00 \<in> set vp
      then pluginFsPathError InvalidVirtualPath ''Plugin fs virtual paths cannot contain NUL bytes.'' vp
      else if vp = ''~'' \<or> starts_with ''~/'' vp
      then try_then (resolvePluginDataDirectoryPath cwd (in_pluginPath input)) (\<lambda>dataPath.
        Inr (PluginData, dataPath, if vp = ''~'' then [] else drop 2 vp))
      else if vp = ''.'' \<or> starts_with ''./'' vp
      then (let contextRootPath = nullish_opt (in_threadRootPath input) (in_projectRootPath input) in
        if \<not> truthy contextRootPath
        then pluginFsPathError MissingProjectContext
          ''Plugin fs ./ paths require a current thread or project context.'' vp
        else Inr (if truthy (in_threadRootPath input) then ThreadRoot else ProjectRoot,
          nullish contextRootPath [], if vp = ''.'' then [] else drop 2 vp))
      else pluginFsPathError InvalidVirtualPath ''Plugin fs virtual paths must start with ~/ or ./.'' vp)"

definition parsePluginFsVirtualPath :: "string \<Rightarrow> resolve_input \<Rightarrow> thrown + parsed_path" where
  "parsePluginFsVirtualPath cwd input =
     try_then (parse_root cwd input) (\<lambda>(kind, rootDir, remainder).
     try_then (scan_segments (in_virtualPath input) (split_char CHR ''/'' remainder) []) (\<lambda>segments.
       Inr \<lparr> p_rootKind = kind, p_rootPath = posix_resolve cwd [rootDir], p_segments = segments,
             p_virtualPath = normalizedVirtualPath kind segments \<rparr>))"

text \<open>\<open>relativePath.split(/[\\/]+/).filter(Boolean)\<close>.\<close>

definition splitRelativePathSegments :: "string \<Rightarrow> string list" where
  "splitRelativePathSegments relativePath =
     filter (\<lambda>s. s \<noteq> []) (concat (map (split_char (CHR 0x5C)) (split_char CHR ''/'' relativePath)))"

definition relativeSegments :: "string \<Rightarrow> string \<Rightarrow> string \<Rightarrow> string list" where
  "relativeSegments cwd rootDir target = splitRelativePathSegments (posix_relative cwd rootDir target)"

definition assertNoForbiddenRealPathSegments :: "string \<Rightarrow> string \<Rightarrow> string \<Rightarrow> string \<Rightarrow> thrown + unit" where
  "assertNoForbiddenRealPathSegments cwd realRootPath target vp =
     (if list_ex (\<lambda>s. s \<in> set FORBIDDEN_DIRECTORY_NAMES) (relativeSegments cwd realRootPath target)
      then pluginFsPathError ForbiddenDirectory ''Plugin fs access to .git and .ssh is denied.'' vp
      else Inr ())"

text \<open>
  The fallback for paths with a backslash: a leaf that is not a link is joined to the real path
  of its parent.
\<close>

lemma length_dirname: "length (posix_dirname p) < length p \<or> CHR 0x5C \<notin> set (posix_dirname p) \<or> p = []"
proof -
  define r where "r = dropWhile (\<lambda>c. \<not> is_slash c) (dropWhile is_slash (rev p))"
  have "length r \<le> length (dropWhile is_slash (rev p))" by (simp add: r_def length_dropWhile_le)
  also have "\<dots> \<le> length p" using length_dropWhile_le [of is_slash "rev p"] by simp
  finally have len: "length r \<le> length p" .
  show ?thesis
  proof (cases "length r \<le> 1 \<or> (length r = 2 \<and> posix_isAbsolute p)")
    case True
    then have "posix_dirname p \<in> {''/'', ''.'', ''//''}" by (auto simp: posix_dirname_def r_def [symmetric] Let_def)
    then show ?thesis by auto
  next
    case False
    then have "posix_dirname p = rev (tl r)" by (auto simp: posix_dirname_def r_def [symmetric] Let_def)
    then have "length (posix_dirname p) < length r" using False by (cases r) auto
    then show ?thesis using len by linarith
  qed
qed

function realpathExistingPath :: "string \<Rightarrow> host_fs \<Rightarrow> string \<Rightarrow> thrown + string" where
  "realpathExistingPath cwd fs p =
     (case realpath fs p of
        Inr r \<Rightarrow> Inr r
      | Inl error \<Rightarrow>
          (if CHR 0x5C \<notin> set p then Inl (HostError error)
           else case lstat fs p of
             Inl e \<Rightarrow> Inl (HostError e)
           | Inr stat \<Rightarrow>
               (if stat = SymbolicLink then Inl (HostError error)
                else let parentPath = posix_dirname p in
                  if parentPath = p then Inl (HostError error)
                  else try_then (realpathExistingPath cwd fs parentPath) (\<lambda>parent.
                    Inr (posix_resolve cwd [parent, posix_basename p])))))"
  by pat_completeness auto
termination
proof (relation "measure (\<lambda>(cwd, fs, p). if CHR 0x5C \<in> set p then Suc (length p) else 0)", goal_cases)
  case (2 cwd fs p error stat parentPath)
  then show ?case using length_dirname [of p] by auto
qed simp

declare realpathExistingPath.simps [simp del]

definition realpathRoot :: "string \<Rightarrow> host_fs \<Rightarrow> string \<Rightarrow> string \<Rightarrow> thrown + string" where
  "realpathRoot cwd fs rootDir vp =
     (case realpathExistingPath cwd fs rootDir of
        Inr r \<Rightarrow> Inr r
      | Inl _ \<Rightarrow> pluginFsPathError RootUnavailable ''Plugin fs root is unavailable.'' vp)"

definition assertOutsidePluginSource ::
  "string \<Rightarrow> host_fs \<Rightarrow> string \<Rightarrow> string \<Rightarrow> root_kind \<Rightarrow> string \<Rightarrow> thrown + unit" where
  "assertOutsidePluginSource cwd fs pluginPath target kind vp =
     (if kind = PluginData then Inr ()
      else case realpathExistingPath cwd fs pluginPath of
        Inl _ \<Rightarrow> pluginFsPathError PluginSourceDenied ''Plugin fs access to plugin source files is denied.'' vp
      | Inr realPluginPath \<Rightarrow>
          (if pathIsContainedByDirectory cwd realPluginPath target
           then pluginFsPathError PluginSourceDenied ''Plugin fs access to plugin source files is denied.'' vp
           else Inr ()))"

definition toPluginFsVirtualPath :: "string \<Rightarrow> string \<Rightarrow> root_kind \<Rightarrow> string \<Rightarrow> string" where
  "toPluginFsVirtualPath cwd absolute kind rootDir =
     normalizedVirtualPath kind (splitRelativePathSegments
       (posix_relative cwd (posix_resolve cwd [rootDir]) (posix_resolve cwd [absolute])))"

definition resolvePluginFsVirtualPath :: "string \<Rightarrow> host_fs \<Rightarrow> resolve_input \<Rightarrow> thrown + resolved_path" where
  "resolvePluginFsVirtualPath cwd fs input =
     (let access = nullish (in_access input) ReadAccess in
      try_then (parsePluginFsVirtualPath cwd input) (\<lambda>parsed.
      let targetPath = posix_resolve cwd (p_rootPath parsed # p_segments parsed) in
      if \<not> pathIsContainedByDirectory cwd (p_rootPath parsed) targetPath
      then pluginFsPathError PathOutsideRoot ''Plugin fs virtual path escaped its allowed root.'' (in_virtualPath input)
      else try_then (realpathRoot cwd fs (p_rootPath parsed) (p_virtualPath parsed)) (\<lambda>realRootPath.
      try_then (nearestExistingPathWithinRoot cwd fs (p_rootPath parsed) targetPath) (\<lambda>nearest.
      case nearest of
        None \<Rightarrow> pluginFsPathError RootUnavailable ''Plugin fs root is unavailable.'' (p_virtualPath parsed)
      | Some nearestPath \<Rightarrow>
      (let exists = (nearestPath = targetPath) in
      if \<not> exists \<and> access \<noteq> WriteAccess
      then pluginFsPathError PathUnavailable ''Plugin fs path is unavailable.'' (p_virtualPath parsed)
      else case realpathExistingPath cwd fs nearestPath of
        Inl _ \<Rightarrow> pluginFsPathError PathOutsideRoot ''Plugin fs path could not be safely resolved.'' (p_virtualPath parsed)
      | Inr realNearestPath \<Rightarrow>
      if \<not> pathIsContainedByDirectory cwd realRootPath realNearestPath
      then pluginFsPathError PathOutsideRoot ''Plugin fs symlink escape is denied.'' (p_virtualPath parsed)
      else (let unresolvedSuffix = posix_relative cwd nearestPath targetPath;
          realTarget = (if unresolvedSuffix \<noteq> [] then posix_resolve cwd [realNearestPath, unresolvedSuffix]
            else realNearestPath) in
      if \<not> pathIsContainedByDirectory cwd realRootPath realTarget
      then pluginFsPathError PathOutsideRoot ''Plugin fs path escaped its allowed root.'' (p_virtualPath parsed)
      else try_then (assertNoForbiddenRealPathSegments cwd realRootPath realTarget (p_virtualPath parsed)) (\<lambda>_.
      try_then (assertOutsidePluginSource cwd fs (in_pluginPath input) realTarget (p_rootKind parsed)
        (p_virtualPath parsed)) (\<lambda>_.
      Inr \<lparr> absolutePath = targetPath, path_exists = exists, realPath = realTarget,
        rootKind = p_rootKind parsed, rootPath = p_rootPath parsed, virtualPath = p_virtualPath parsed \<rparr>))))))))"

definition revalidateResolvedPluginFsPath ::
  "string \<Rightarrow> host_fs \<Rightarrow> path_access option \<Rightarrow> string \<Rightarrow> string option \<Rightarrow> string option \<Rightarrow> resolved_path \<Rightarrow>
     thrown + resolved_path" where
  "revalidateResolvedPluginFsPath cwd fs access pluginPath projectRootPath threadRootPath resolved =
     try_then (resolvePluginFsVirtualPath cwd fs \<lparr> in_pluginPath = pluginPath,
       in_projectRootPath = projectRootPath, in_threadRootPath = threadRootPath, in_access = access,
       in_virtualPath = virtualPath resolved \<rparr>) (\<lambda>current.
     if realPath current \<noteq> realPath resolved \<or> rootKind current \<noteq> rootKind resolved \<or>
        rootPath current \<noteq> rootPath resolved \<or> virtualPath current \<noteq> virtualPath resolved
     then pluginFsPathError PathOutsideRoot ''Plugin fs path changed during safety revalidation.''
       (virtualPath resolved)
     else Inr current)"

fun pluginFsVirtualRootForPath :: "root_kind \<Rightarrow> string" where
  "pluginFsVirtualRootForPath PluginData = ''~/''"
| "pluginFsVirtualRootForPath _ = ''./''"

section \<open>Containment\<close>

lemma relative_normal:
  "normal_path a \<Longrightarrow> normal_path b \<Longrightarrow>
     posix_relative cwd a b = js_join ''/'' (relative_segments (path_segments a) (path_segments b))"
  by (simp add: posix_relative_def)

lemma contained_iff:
  assumes "normal_path a" and "normal_path b"
  shows "pathIsContainedByDirectory cwd a b \<longleftrightarrow>
    (\<exists>r. path_segments b = path_segments a @ r \<and> (r = [] \<or> \<not> starts_with ''..'' (hd r)))"
proof (cases "prefix (path_segments a) (path_segments b)")
  case True
  then obtain r where r: "path_segments b = path_segments a @ r" by (auto simp: prefix_def)
  have valid: "list_all valid_segment r"
    using path_segments_valid [of b] unfolding r by simp
  have rel: "posix_relative cwd a b = js_join ''/'' r"
    using r by (simp add: relative_normal assms relative_segments_prefix)
  show ?thesis
  proof (cases r)
    case Nil
    then show ?thesis using r rel assms by (simp add: pathIsContainedByDirectory_def)
  next
    case (Cons s ss)
    then have v: "valid_segment s" using valid by simp
    then show ?thesis using r rel assms Cons starts_with_join [OF v, of ss]
      by (auto simp: pathIsContainedByDirectory_def posix_isAbsolute_def starts_with_def)
  qed
next
  case False
  then obtain rs where "relative_segments (path_segments a) (path_segments b) = ''..'' # rs"
    using relative_segments_not_prefix by blast
  then have "starts_with ''..'' (posix_relative cwd a b)" and "posix_relative cwd a b \<noteq> []"
    using starts_with_join_dots [of rs] by (auto simp: relative_normal assms starts_with_def)
  then show ?thesis using False assms by (auto simp: pathIsContainedByDirectory_def prefix_def)
qed

text \<open>What is documented of \<open>realpath\<close>: its result is absolute, without dots or empty segments.\<close>

definition canonical_realpath :: "host_fs \<Rightarrow> bool" where
  "canonical_realpath fs = (\<forall>p r. realpath fs p = Inr r \<longrightarrow> normal_path r)"

lemma realpathExistingPath_normal:
  "canonical_realpath fs \<Longrightarrow> realpathExistingPath cwd fs p = Inr r \<Longrightarrow> normal_path r"
proof (induction cwd fs p arbitrary: r rule: realpathExistingPath.induct)
  case (1 cwd fs p)
  from 1(3) show ?case
    by (subst (asm) realpathExistingPath.simps)
      (use 1(2) in \<open>auto simp: try_then_Inr Let_def canonical_realpath_def split: sum.splits if_splits\<close>)
qed

lemma posix_resolve_suffix:
  assumes "normal_path p" and "list_all valid_segment segs" and "segs \<noteq> []"
  shows "posix_resolve cwd [p, js_join ''/'' segs] = path_of (path_segments p @ segs)"
proof (rule normal_path_eqI)
  let ?q = "js_join ''/'' segs"
  obtain s ss where segs: "segs = s # ss" using assms(3) by (cases segs) auto
  have q: "?q \<noteq> []" "\<not> starts_with ''/'' ?q"
    using assms(2) join_segments_Nil [of segs] starts_with_join(2) [of s ss] by (auto simp: segs)
  have "resolve_from (rev [p, ?q] @ [cwd]) [] = p @ CHR ''/'' # (?q @ ''/'')"
    using q normal_path_absolute [OF assms(1)] by simp
  moreover have "path_segments (p @ CHR ''/'' # (?q @ ''/'')) = path_segments p @ segs"
  proof -
    have "split_char CHR ''/'' (?q @ CHR ''/'' # []) = segs @ [[]]"
      unfolding split_char_append split_join_segments [OF assms(2)] using assms(3) by simp
    then show ?thesis unfolding path_segments_append by (simp add: foldl_normal_append [OF assms(2)])
  qed
  ultimately show "path_segments (posix_resolve cwd [p, ?q]) = path_segments (path_of (path_segments p @ segs))"
    using assms(2) by (simp only: segments_resolve) simp
qed (use assms in \<open>simp_all add: normal_path_of\<close>)

section \<open>Virtual paths\<close>

lemma scan_segments_Inr:
  "scan_segments vp ss acc = Inr segs \<longleftrightarrow>
     (\<forall>s \<in> set ss. s \<noteq> ''..'' \<and> s \<notin> set FORBIDDEN_DIRECTORY_NAMES) \<and>
     segs = acc @ filter (\<lambda>s. s \<noteq> [] \<and> s \<noteq> ''.'') ss"
  by (induction ss arbitrary: acc) (auto simp: pluginFsPathError_def FORBIDDEN_DIRECTORY_NAMES_def)

lemma split_char_chars: "x \<in> set (split_char c s) \<Longrightarrow> set x \<subseteq> set s"
  by (induction s arbitrary: x) (fastforce split: list.splits if_splits)+

text \<open>A name a virtual path may contain.\<close>

definition virtual_segment :: "string \<Rightarrow> bool" where
  "virtual_segment s = (valid_segment s \<and> s \<notin> set FORBIDDEN_DIRECTORY_NAMES \<and> CHR 0x00 \<notin> set s)"

lemma parse_root_remainder:
  "parse_root cwd input = Inr (kind, rootDir, remainder) \<Longrightarrow> set remainder \<subseteq> set (in_virtualPath input) \<and>
     CHR 0x00 \<notin> set (in_virtualPath input)"
  by (auto simp: parse_root_def Let_def pluginFsPathError_def try_then_Inr split: if_splits dest: in_set_dropD)

lemma parsed_segments:
  assumes "parsePluginFsVirtualPath cwd input = Inr p"
  shows "list_all virtual_segment (p_segments p)" and "normal_path (p_rootPath p)"
    and "p_virtualPath p = normalizedVirtualPath (p_rootKind p) (p_segments p)"
proof -
  from assms obtain kind rootDir remainder where r: "parse_root cwd input = Inr (kind, rootDir, remainder)"
    and s: "scan_segments (in_virtualPath input) (split_char CHR ''/'' remainder) [] = Inr (p_segments p)"
    and p: "normal_path (p_rootPath p)" "p_virtualPath p = normalizedVirtualPath (p_rootKind p) (p_segments p)"
    by (auto simp: parsePluginFsVirtualPath_def try_then_Inr)
  show "list_all virtual_segment (p_segments p)"
    using s parse_root_remainder [OF r] split_char_chars split_char_pieces
    by (fastforce simp: scan_segments_Inr list_all_iff virtual_segment_def valid_segment_def)
  show "normal_path (p_rootPath p)" "p_virtualPath p = normalizedVirtualPath (p_rootKind p) (p_segments p)"
    using p by simp_all
qed

text \<open>The canonical virtual path means the same as the one it was made from.\<close>

lemma parse_canonical:
  assumes "parsePluginFsVirtualPath cwd input = Inr p"
  shows "parsePluginFsVirtualPath cwd (input\<lparr> in_virtualPath := p_virtualPath p \<rparr>) = Inr p"
proof -
  let ?segs = "p_segments p"
  from assms obtain rootDir remainder where r: "parse_root cwd input = Inr (p_rootKind p, rootDir, remainder)"
    and d: "p_rootPath p = posix_resolve cwd [rootDir]"
    by (auto simp: parsePluginFsVirtualPath_def try_then_Inr)
  note segs = parsed_segments(1) [OF assms]
  have valid: "list_all valid_segment ?segs" using segs by (simp add: list_all_iff virtual_segment_def)
  define rest where "rest = js_join ''/'' ?segs"
  have nul: "CHR 0x00 \<notin> set rest"
  proof -
    have "set (js_join ''/'' xs) \<subseteq> \<Union> (set ` set xs) \<union> {CHR ''/''}" for xs
      by (induction "''/''" xs rule: js_join.induct) auto
    from this [of ?segs] show ?thesis using segs by (auto simp: rest_def list_all_iff virtual_segment_def)
  qed
  have split: "scan_segments vp (split_char CHR ''/'' rest) [] = Inr ?segs" for vp
    using segs valid by (auto simp: rest_def split_join_segments scan_segments_Inr list_all_iff
        virtual_segment_def valid_segment_def FORBIDDEN_DIRECTORY_NAMES_def intro!: filter_id_conv [THEN iffD2, symmetric])
  have vp: "p_virtualPath p = normalizedVirtualPath (p_rootKind p) ?segs" by (rule parsed_segments(3) [OF assms])
  have root: "parse_root cwd (input\<lparr> in_virtualPath := p_virtualPath p \<rparr>) = Inr (p_rootKind p, rootDir, rest)"
    using r nul unfolding vp
    by (cases "p_rootKind p"; cases "?segs = []")
      (auto simp: parse_root_def Let_def starts_with_def rest_def pluginFsPathError_def try_then_Inr split: if_splits)
  show ?thesis
    unfolding parsePluginFsVirtualPath_def root
    by (simp add: split d [symmetric] vp [symmetric])
qed

section \<open>Resolution\<close>

lemma list_all_butlast: "list_all P xs \<Longrightarrow> list_all P (butlast xs)"
  by (auto simp: list_all_iff dest: in_set_butlastD)

lemma resolve_parent_normal:
  assumes "normal_path p"
  shows "posix_resolve cwd [p, ''..''] = path_of (butlast (path_segments p))"
proof (rule normal_path_eqI)
  have v: "list_all valid_segment (butlast (path_segments p))" by (simp add: list_all_butlast)
  then show "normal_path (path_of (butlast (path_segments p)))" by (rule normal_path_of)
  show "path_segments (posix_resolve cwd [p, ''..'']) = path_segments (path_of (butlast (path_segments p)))"
    using v assms by (simp add: segments_resolve_parent)
qed simp

lemma nearest_between:
  "nearestExistingPathWithinRoot cwd fs rootDir current = Inr (Some n) \<Longrightarrow> normal_path rootDir \<Longrightarrow>
     current = path_of (path_segments rootDir @ ss) \<Longrightarrow> list_all valid_segment ss \<Longrightarrow>
   \<exists>a b. ss = a @ b \<and> n = path_of (path_segments rootDir @ a) \<and> (\<exists>k. lstat fs n = Inr k)"
proof (induction cwd fs rootDir current arbitrary: ss rule: nearestExistingPathWithinRoot.induct)
  case (1 cwd fs rootDir current)
  have norm: "normal_path current" using 1(4,5) by (auto intro!: normal_path_of)
  from nearestExistingPathWithinRoot.simps [of cwd fs rootDir current] 1(2) consider (here) "pathExistsOrIsSymlink fs current = Inr True" "n = current"
    | (up) "pathExistsOrIsSymlink fs current = Inr False" "current \<noteq> rootDir"
      "posix_resolve cwd [current, ''..''] \<noteq> current"
      "nearestExistingPathWithinRoot cwd fs rootDir (posix_resolve cwd [current, ''..'']) = Inr (Some n)"
    unfolding Let_def by (auto split: sum.split_asm bool.split_asm if_split_asm)
  then show ?case
  proof cases
    case here
    then have "\<exists>k. lstat fs n = Inr k" by (auto simp: pathExistsOrIsSymlink_def split: sum.splits fs_error.splits)
    then show ?thesis using here 1(4) by (intro exI [of _ ss] exI [of _ "[]"]) simp
  next
    case up
    have ne: "ss \<noteq> []" using up(2) 1(3,4) normal_path_segments by auto
    have parent: "posix_resolve cwd [current, ''..''] = path_of (path_segments rootDir @ butlast ss)"
      using ne 1(4,5) resolve_parent_normal [OF norm, of cwd] by (simp add: butlast_append)
    have "list_all valid_segment (butlast ss)" by (rule list_all_butlast [OF 1(5)])
    from 1(1) [OF up(1) _ up(2) refl up(3) up(4) 1(3) parent this] obtain a b where
      "butlast ss = a @ b" "n = path_of (path_segments rootDir @ a)" "\<exists>k. lstat fs n = Inr k" by auto
    moreover from this(1) have "ss = a @ (b @ [last ss])" using append_butlast_last_id [OF ne] by simp
    ultimately show ?thesis by blast
  qed
qed

text \<open>The checks a successful resolution has passed.\<close>

lemma resolve_checks:
  assumes "resolvePluginFsVirtualPath cwd fs input = Inr r"
  obtains p realRootPath nearestPath realNearestPath where
    "parsePluginFsVirtualPath cwd input = Inr p"
    "absolutePath r = posix_resolve cwd (p_rootPath p # p_segments p)"
    "realpathExistingPath cwd fs (p_rootPath p) = Inr realRootPath"
    "nearestExistingPathWithinRoot cwd fs (p_rootPath p) (absolutePath r) = Inr (Some nearestPath)"
    "path_exists r = (nearestPath = absolutePath r)"
    "path_exists r \<or> nullish (in_access input) ReadAccess = WriteAccess"
    "realpathExistingPath cwd fs nearestPath = Inr realNearestPath"
    "realPath r = (if posix_relative cwd nearestPath (absolutePath r) \<noteq> []
       then posix_resolve cwd [realNearestPath, posix_relative cwd nearestPath (absolutePath r)] else realNearestPath)"
    "pathIsContainedByDirectory cwd realRootPath (realPath r)"
    "assertNoForbiddenRealPathSegments cwd realRootPath (realPath r) (p_virtualPath p) = Inr ()"
    "assertOutsidePluginSource cwd fs (in_pluginPath input) (realPath r) (p_rootKind p) (p_virtualPath p) = Inr ()"
    "rootKind r = p_rootKind p" "rootPath r = p_rootPath p" "virtualPath r = p_virtualPath p"
proof -
  from assms obtain p where p: "parsePluginFsVirtualPath cwd input = Inr p"
    by (cases "parsePluginFsVirtualPath cwd input") (simp_all add: resolvePluginFsVirtualPath_def)
  define target where "target = posix_resolve cwd (p_rootPath p # p_segments p)"
  note step = assms [unfolded resolvePluginFsVirtualPath_def Let_def p try_then.simps target_def [symmetric]]
  from step obtain realRootPath where root: "realpathExistingPath cwd fs (p_rootPath p) = Inr realRootPath"
    by (cases "realpathExistingPath cwd fs (p_rootPath p)")
      (auto simp: realpathRoot_def pluginFsPathError_def split: if_splits)
  note step = step [unfolded realpathRoot_def root sum.case try_then.simps]
  from step obtain nearestPath where near:
      "nearestExistingPathWithinRoot cwd fs (p_rootPath p) target = Inr (Some nearestPath)"
    by (cases "nearestExistingPathWithinRoot cwd fs (p_rootPath p) target")
      (auto simp: pluginFsPathError_def split: if_splits option.splits)
  note step = step [unfolded near option.case try_then.simps]
  from step obtain realNearestPath where rnear: "realpathExistingPath cwd fs nearestPath = Inr realNearestPath"
    by (cases "realpathExistingPath cwd fs nearestPath") (auto simp: pluginFsPathError_def split: if_splits)
  note step = step [unfolded rnear sum.case]
  show thesis
    by (rule that [OF p _ root _ _ _ rnear])
      (use step near in \<open>auto simp: pluginFsPathError_def try_then_Inr target_def split: if_splits\<close>)
qed

lemma split_relative_mem:
  assumes "list_all valid_segment segs" and "s \<in> set segs" and "CHR 0x5C \<notin> set s"
  shows "s \<in> set (splitRelativePathSegments (js_join ''/'' segs))"
proof -
  have "split_char CHR ''/'' (js_join ''/'' segs) = segs" using assms(1,2) by (auto simp: split_join_segments)
  moreover have "s \<noteq> []" using assms(1,2) by (auto simp: list_all_iff valid_segment_def)
  ultimately show ?thesis using assms(2) split_char_no_sep [OF assms(3)]
    by (force simp: splitRelativePathSegments_def)
qed

lemma no_forbidden_below:
  assumes "assertNoForbiddenRealPathSegments cwd a b vp = Inr ()" and "normal_path a" and "normal_path b"
    and "path_segments b = path_segments a @ below"
  shows "set below \<inter> set FORBIDDEN_DIRECTORY_NAMES = {}"
proof -
  have v: "list_all valid_segment below" using path_segments_valid [of b] unfolding assms(4) by simp
  have "posix_relative cwd a b = js_join ''/'' below"
    by (simp add: relative_normal assms relative_segments_prefix)
  then have no: "s \<notin> set FORBIDDEN_DIRECTORY_NAMES" if "s \<in> set (splitRelativePathSegments (js_join ''/'' below))" for s
    using assms(1) that
    by (auto simp: assertNoForbiddenRealPathSegments_def relativeSegments_def list_ex_iff pluginFsPathError_def split: if_splits)
  have "CHR 0x5C \<notin> set s" if "s \<in> set FORBIDDEN_DIRECTORY_NAMES" for s
    using that by (auto simp: FORBIDDEN_DIRECTORY_NAMES_def)
  then show ?thesis using no split_relative_mem [OF v] by blast
qed

lemma data_directory:
  "resolvePluginDataDirectoryPath cwd pluginPath = Inr (path_of (path_segments (posix_resolve cwd [pluginPath]) @ [''.data'']))"
proof -
  let ?p = "posix_resolve cwd [pluginPath]"
  have v: "list_all valid_segment [''.data'']" by (simp add: valid_segment_def)
  have t: "posix_resolve cwd [?p, ''.data''] = path_of (path_segments ?p @ [''.data''])"
    by (rule resolve_below_normal [OF normal_resolve v])
  have "posix_relative cwd ?p (path_of (path_segments ?p @ [''.data''])) = ''.data''"
    using v by (simp add: relative_normal normal_path_of relative_segments_prefix)
  then show ?thesis
    using v by (simp add: resolvePluginDataDirectoryPath_def resolvePluginManagedDirectoryPath_def t
        isPathContainedByDirectory_def normal_path_of starts_with_def)
qed

text \<open>The root a successful parse has chosen.\<close>

definition root_of :: "string \<Rightarrow> resolve_input \<Rightarrow> root_kind \<Rightarrow> string \<Rightarrow> bool" where
  "root_of cwd input kind rootDir = (case kind of
     PluginData \<Rightarrow> rootDir = path_of (path_segments (posix_resolve cwd [in_pluginPath input]) @ [''.data''])
   | ThreadRoot \<Rightarrow> (\<exists>t. in_threadRootPath input = Some t \<and> t \<noteq> [] \<and> rootDir = posix_resolve cwd [t])
   | ProjectRoot \<Rightarrow> in_threadRootPath input = None \<and>
       (\<exists>t. in_projectRootPath input = Some t \<and> t \<noteq> [] \<and> rootDir = posix_resolve cwd [t]))"

lemma parsed_root:
  assumes "parsePluginFsVirtualPath cwd input = Inr p"
  shows "root_of cwd input (p_rootKind p) (p_rootPath p)"
proof -
  from assms obtain rootDir remainder where r: "parse_root cwd input = Inr (p_rootKind p, rootDir, remainder)"
    and d: "p_rootPath p = posix_resolve cwd [rootDir]"
    by (auto simp: parsePluginFsVirtualPath_def try_then_Inr)
  have data: "normal_path (path_of (path_segments (posix_resolve cwd [in_pluginPath input]) @ [''.data'']))"
    by (rule normal_path_of) (simp add: valid_segment_def)
  from r show ?thesis
    unfolding parse_root_def Let_def data_directory
    by (auto simp: d root_of_def data pluginFsPathError_def truthy_def nullish_def nullish_opt_def
        split: if_split_asm option.split_asm)
qed

text \<open>The prefix of the virtual path decides the kind of the root.\<close>

lemma resolved_kind:
  assumes "resolvePluginFsVirtualPath cwd fs input = Inr r"
  shows "if rootKind r = PluginData then in_virtualPath input = ''~'' \<or> starts_with ''~/'' (in_virtualPath input)
    else in_virtualPath input = ''.'' \<or> starts_with ''./'' (in_virtualPath input)"
proof -
  obtain p where p: "parsePluginFsVirtualPath cwd input = Inr p" and k: "rootKind r = p_rootKind p"
    using resolve_checks [OF assms] by metis
  then obtain rootDir remainder where "parse_root cwd input = Inr (p_rootKind p, rootDir, remainder)"
    by (auto simp: parsePluginFsVirtualPath_def try_then_Inr)
  then show ?thesis
    unfolding parse_root_def Let_def k
    by (auto simp: pluginFsPathError_def try_then_Inr split: if_split_asm)
qed

lemma resolve_reparsed:
  assumes "resolvePluginFsVirtualPath cwd fs input = Inr r" and "parsePluginFsVirtualPath cwd input = Inr p"
    and "parsePluginFsVirtualPath cwd input' = Inr p" and "in_access input' = in_access input"
    and "in_pluginPath input' = in_pluginPath input"
  shows "resolvePluginFsVirtualPath cwd fs input' = Inr r"
proof -
  have inside: "pathIsContainedByDirectory cwd (p_rootPath p) (posix_resolve cwd (p_rootPath p # p_segments p))"
  proof (rule ccontr)
    assume "\<not> ?thesis"
    then show False
      using assms(1) by (simp add: resolvePluginFsVirtualPath_def assms(2) Let_def pluginFsPathError_def)
  qed
  show ?thesis
    using assms(1) unfolding resolvePluginFsVirtualPath_def assms(2-5) try_then.simps Let_def
    by (simp only: inside simp_thms if_False)
qed

lemma join_mem_chars: "s \<in> set segs \<Longrightarrow> set s \<subseteq> set (js_join sep segs)"
  by (induction sep segs rule: js_join.induct) auto

lemma split_relative_join:
  assumes "list_all valid_segment segs" and "CHR 0x5C \<notin> set (js_join ''/'' segs)"
  shows "splitRelativePathSegments (js_join ''/'' segs) = segs"
proof -
  have one: "split_char (CHR 0x5C) s = [s]" if "s \<in> set segs" for s
    using join_mem_chars [OF that, of "''/''"] assms(2) by (intro split_char_no_sep) auto
  have "concat (map (split_char (CHR 0x5C)) segs) = concat (map (\<lambda>s. [s]) segs)"
    by (rule arg_cong [where f = concat], rule map_cong [OF refl one])
  also have "\<dots> = segs" by (induction segs) auto
  finally have pieces: "concat (map (split_char (CHR 0x5C)) segs) = segs" .
  have "filter (\<lambda>s. s \<noteq> []) segs = segs"
    using assms(1) by (auto simp: list_all_iff valid_segment_def intro!: filter_True)
  then show ?thesis
    by (cases "segs = []") (simp_all add: splitRelativePathSegments_def split_join_segments [OF assms(1)] pieces)
qed

lemma resolved_inside:
  assumes "canonical_realpath fs" and "resolvePluginFsVirtualPath cwd fs input = Inr r"
  shows "root_of cwd input (rootKind r) (rootPath r) \<and>
    (\<exists>realRoot below. realpathExistingPath cwd fs (rootPath r) = Inr realRoot \<and>
       realPath r = path_of (path_segments realRoot @ below) \<and> list_all valid_segment below \<and>
       set below \<inter> {''.git'', ''.ssh''} = {}) \<and>
    (path_exists r \<or> in_access input = Some WriteAccess) \<and>
    (path_exists r \<longrightarrow> realpathExistingPath cwd fs (absolutePath r) = Inr (realPath r)) \<and>
    (rootKind r \<noteq> PluginData \<longrightarrow>
       (\<exists>source. realpathExistingPath cwd fs (in_pluginPath input) = Inr source \<and>
          (\<forall>rest. path_segments (realPath r) = path_segments source @ rest \<longrightarrow>
             rest \<noteq> [] \<and> starts_with ''..'' (hd rest))))"
proof -
  obtain p realRootPath nearestPath realNearestPath where
    p: "parsePluginFsVirtualPath cwd input = Inr p"
    and abs: "absolutePath r = posix_resolve cwd (p_rootPath p # p_segments p)"
    and root: "realpathExistingPath cwd fs (p_rootPath p) = Inr realRootPath"
    and ex: "path_exists r = (nearestPath = absolutePath r)"
    and access: "path_exists r \<or> nullish (in_access input) ReadAccess = WriteAccess"
    and near: "realpathExistingPath cwd fs nearestPath = Inr realNearestPath"
    and target: "realPath r = (if posix_relative cwd nearestPath (absolutePath r) \<noteq> []
       then posix_resolve cwd [realNearestPath, posix_relative cwd nearestPath (absolutePath r)] else realNearestPath)"
    and inside: "pathIsContainedByDirectory cwd realRootPath (realPath r)"
    and forbidden: "assertNoForbiddenRealPathSegments cwd realRootPath (realPath r) (p_virtualPath p) = Inr ()"
    and source: "assertOutsidePluginSource cwd fs (in_pluginPath input) (realPath r) (p_rootKind p) (p_virtualPath p) = Inr ()"
    and kinds: "rootKind r = p_rootKind p" "rootPath r = p_rootPath p"
    using resolve_checks [OF assms(2)] by metis
  note real_normal = realpathExistingPath_normal [OF assms(1)]
  have norm: "normal_path realRootPath" "normal_path realNearestPath" "normal_path (realPath r)"
    using real_normal [OF root] real_normal [OF near] target by simp_all
  obtain below where below: "path_segments (realPath r) = path_segments realRootPath @ below"
    using inside contained_iff [OF norm(1,3)] by blast
  have valid: "list_all valid_segment below" using path_segments_valid [of "realPath r"] unfolding below by simp
  have real: "realPath r = path_of (path_segments realRootPath @ below)"
    using normal_path_segments [OF norm(3)] below by simp
  have names: "set below \<inter> {''.git'', ''.ssh''} = {}"
    using no_forbidden_below [OF forbidden norm(1,3) below] by (simp add: FORBIDDEN_DIRECTORY_NAMES_def)
  have "posix_relative cwd x x = []" for x
    using relative_segments_prefix [of _ "[]"] by (simp add: posix_relative_def)
  then have exact: "path_exists r \<longrightarrow> realpathExistingPath cwd fs (absolutePath r) = Inr (realPath r)"
    using ex near target by auto
  have outside: "\<exists>source. realpathExistingPath cwd fs (in_pluginPath input) = Inr source \<and>
      (\<forall>rest. path_segments (realPath r) = path_segments source @ rest \<longrightarrow> rest \<noteq> [] \<and> starts_with ''..'' (hd rest))"
    if k: "rootKind r \<noteq> PluginData"
  proof -
    obtain src where src: "realpathExistingPath cwd fs (in_pluginPath input) = Inr src"
      and out: "\<not> pathIsContainedByDirectory cwd src (realPath r)"
      using source k kinds(1) by (auto simp: assertOutsidePluginSource_def pluginFsPathError_def split: sum.splits if_splits)
    show ?thesis using src out contained_iff [OF real_normal [OF src] norm(3)] by blast
  qed
  have "path_exists r \<or> in_access input = Some WriteAccess"
    using access by (auto simp: nullish_def split: option.splits)
  then show ?thesis
    using parsed_root [OF p] root real valid names exact outside kinds by auto
qed

section \<open>Properties\<close>

text \<open>
  C22. Whatever a plugin passes as a virtual path, a successful resolution stays inside the real
  root of its kind: the real path is that root followed by names none of which is \<open>.git\<close> or
  \<open>.ssh\<close>; only a write may name a file that does not exist; for an existing path it is the path
  \<open>realpath\<close> reports; and outside the plugin's own data it is not inside the plugin's real
  directory, unless the first name below that directory starts with two dots.
\<close>

theorem fs_path_contained:
  assumes "canonical_realpath fs" and "resolvePluginFsVirtualPath cwd fs input = Inr r"
  shows "root_of cwd input (rootKind r) (rootPath r) \<and>
    (\<exists>realRoot below. realpathExistingPath cwd fs (rootPath r) = Inr realRoot \<and>
       realPath r = path_of (path_segments realRoot @ below) \<and> list_all valid_segment below \<and>
       set below \<inter> {''.git'', ''.ssh''} = {}) \<and>
    (path_exists r \<or> in_access input = Some WriteAccess) \<and>
    (path_exists r \<longrightarrow> realpathExistingPath cwd fs (absolutePath r) = Inr (realPath r)) \<and>
    (rootKind r \<noteq> PluginData \<longrightarrow>
       (\<exists>source. realpathExistingPath cwd fs (in_pluginPath input) = Inr source \<and>
          (\<forall>rest. path_segments (realPath r) = path_segments source @ rest \<longrightarrow>
             rest \<noteq> [] \<and> starts_with ''..'' (hd rest))))"
  using assms by (rule resolved_inside)

text \<open>
  Revalidation: with the file system unchanged it always succeeds and returns the resolution
  it was given; in any other file system it either fails or returns a resolution of the same
  virtual path in that file system, with the same real path.
\<close>

theorem fs_path_revalidation:
  assumes "resolvePluginFsVirtualPath cwd fs input = Inr r"
  shows "revalidateResolvedPluginFsPath cwd fs (in_access input) (in_pluginPath input)
      (in_projectRootPath input) (in_threadRootPath input) r = Inr r \<and>
    (\<forall>fs' r'. revalidateResolvedPluginFsPath cwd fs' (in_access input) (in_pluginPath input)
        (in_projectRootPath input) (in_threadRootPath input) r = Inr r' \<longrightarrow>
       resolvePluginFsVirtualPath cwd fs' (input\<lparr> in_virtualPath := virtualPath r \<rparr>) = Inr r' \<and>
       realPath r' = realPath r \<and> absolutePath r' = absolutePath r)"
proof -
  let ?input = "input\<lparr> in_virtualPath := virtualPath r \<rparr>"
  obtain p where p: "parsePluginFsVirtualPath cwd input = Inr p" and vp: "virtualPath r = p_virtualPath p"
    and abs: "absolutePath r = posix_resolve cwd (p_rootPath p # p_segments p)"
    using resolve_checks [OF assms] by metis
  have parsed: "parsePluginFsVirtualPath cwd ?input = Inr p" using parse_canonical [OF p] vp by simp
  have same: "resolvePluginFsVirtualPath cwd fs ?input = Inr r" by (rule resolve_reparsed [OF assms p parsed]) simp_all
  have input: "\<lparr> in_pluginPath = in_pluginPath input, in_projectRootPath = in_projectRootPath input,
      in_threadRootPath = in_threadRootPath input, in_access = in_access input,
      in_virtualPath = virtualPath r \<rparr> = ?input" by (cases input) simp
  have "absolutePath r' = absolutePath r" if r': "resolvePluginFsVirtualPath cwd fs' ?input = Inr r'" for fs' r'
  proof -
    obtain p' where "parsePluginFsVirtualPath cwd ?input = Inr p'"
      and "absolutePath r' = posix_resolve cwd (p_rootPath p' # p_segments p')"
      using resolve_checks [OF r'] by metis
    then show ?thesis using parsed abs by simp
  qed
  moreover have "resolvePluginFsVirtualPath cwd fs' ?input = Inr r' \<and> realPath r' = realPath r"
    if "revalidateResolvedPluginFsPath cwd fs' (in_access input) (in_pluginPath input)
      (in_projectRootPath input) (in_threadRootPath input) r = Inr r'" for fs' r'
    using that unfolding revalidateResolvedPluginFsPath_def input try_then_Inr pluginFsPathError_def
    by (auto split: if_split_asm)
  moreover have "revalidateResolvedPluginFsPath cwd fs (in_access input) (in_pluginPath input)
      (in_projectRootPath input) (in_threadRootPath input) r = Inr r"
    unfolding revalidateResolvedPluginFsPath_def input by (simp add: same)
  ultimately show ?thesis by blast
qed

text \<open>
  The reverse mapping: the virtual path of the absolute path a resolution returned is its
  canonical virtual path again, as long as no name in it contains a backslash (which the reverse
  mapping reads as a separator).
\<close>

theorem fs_virtual_path_roundtrip:
  assumes "resolvePluginFsVirtualPath cwd fs input = Inr r" and "CHR 0x5C \<notin> set (virtualPath r)"
  shows "toPluginFsVirtualPath cwd (absolutePath r) (rootKind r) (rootPath r) = virtualPath r"
proof -
  obtain p where p: "parsePluginFsVirtualPath cwd input = Inr p" and vp: "virtualPath r = p_virtualPath p"
    and abs: "absolutePath r = posix_resolve cwd (p_rootPath p # p_segments p)"
    and k: "rootKind r = p_rootKind p" "rootPath r = p_rootPath p"
    using resolve_checks [OF assms(1)] by metis
  note segs = parsed_segments [OF p]
  have valid: "list_all valid_segment (p_segments p)" using segs(1) by (simp add: list_all_iff virtual_segment_def)
  have "posix_relative cwd (p_rootPath p) (absolutePath r) = js_join ''/'' (p_segments p)"
    using segs(2) valid abs by (simp add: relative_normal resolve_below_normal normal_path_of relative_segments_prefix)
  moreover have "CHR 0x5C \<notin> set (js_join ''/'' (p_segments p))"
    using assms(2) vp segs(3) by (cases "p_rootKind p") (auto split: if_splits)
  then have "splitRelativePathSegments (js_join ''/'' (p_segments p)) = p_segments p"
    by (rule split_relative_join [OF valid])
  ultimately show ?thesis using abs k vp segs(2,3) by (simp add: toPluginFsVirtualPath_def)
qed

section \<open>Two limits\<close>

text \<open>
  A name that starts with two dots is taken for an escape: such an entry of a directory does not
  count as contained in it. So a legitimate file of that name is refused, and one inside a
  plugin's source directory is not denied as plugin source.
\<close>

lemma dotted_name_not_contained:
  assumes "normal_path dir" and "valid_segment (''..'' @ name)"
  shows "\<not> pathIsContainedByDirectory cwd dir (path_of (path_segments dir @ [''..'' @ name]))"
proof -
  have v: "list_all valid_segment (path_segments dir @ [''..'' @ name])" using assms(2) by simp
  have dots: "starts_with ''..'' (''..'' @ name)" by (simp add: starts_with_def)
  show ?thesis
    unfolding contained_iff [OF assms(1) normal_path_of [OF v]] path_segments_path_of [OF v]
    using dots by auto
qed

theorem plugin_source_dotted_name_passes:
  assumes "canonical_realpath fs" and "realpathExistingPath cwd fs pluginPath = Inr source"
    and "valid_segment (''..'' @ name)"
  shows "assertOutsidePluginSource cwd fs pluginPath (path_of (path_segments source @ [''..'' @ name])) kind vp = Inr ()"
  using dotted_name_not_contained [OF realpathExistingPath_normal [OF assms(1,2)] assms(3)] assms(2)
  by (simp add: assertOutsidePluginSource_def)

text \<open>
  Only \<open>ENOENT\<close> counts as absence. Any other answer of \<open>lstat\<close> on the target (such as \<open>ENOTDIR\<close>
  for a path below a plain file) is thrown as it came from the host, not as the module's own error.
\<close>

theorem host_error_escapes:
  assumes "parsePluginFsVirtualPath cwd input = Inr p"
    and "pathIsContainedByDirectory cwd (p_rootPath p) (posix_resolve cwd (p_rootPath p # p_segments p))"
    and "realpathExistingPath cwd fs (p_rootPath p) = Inr realRoot"
    and "lstat fs (posix_resolve cwd (p_rootPath p # p_segments p)) = Inl (OtherFsError message)"
  shows "resolvePluginFsVirtualPath cwd fs input = Inl (HostError (OtherFsError message))"
proof -
  have "nearestExistingPathWithinRoot cwd fs (p_rootPath p) (posix_resolve cwd (p_rootPath p # p_segments p)) =
      Inl (HostError (OtherFsError message))"
    by (subst nearestExistingPathWithinRoot.simps) (simp add: pathExistsOrIsSymlink_def assms(4))
  then show ?thesis
    by (simp add: resolvePluginFsVirtualPath_def assms(1-3) realpathRoot_def Let_def)
qed

section \<open>Witnesses\<close>

text \<open>A worktree \<open>/w\<close> whose entry \<open>a\<close> is a link to \<open>/w/b\<close>, and a plugin at \<open>/p\<close>.\<close>

definition demo_fs :: host_fs where
  "demo_fs = \<lparr> lstat = (\<lambda>p. if p = ''/w/a'' then Inr SymbolicLink
       else if p \<in> {''/w'', ''/w/b'', ''/p''} then Inr DirectoryFile else Inl Missing),
     realpath = (\<lambda>p. if p = ''/w/a'' then Inr ''/w/b''
       else if p \<in> {''/w'', ''/w/b'', ''/p''} then Inr p else Inl Missing) \<rparr>"

definition demo_fs_input :: resolve_input where
  "demo_fs_input = \<lparr> in_pluginPath = ''/p'', in_projectRootPath = None, in_threadRootPath = Some ''/w'',
     in_access = Some WriteAccess, in_virtualPath = ''./a//./new'' \<rparr>"

definition demo_resolved :: resolved_path where
  "demo_resolved = \<lparr> absolutePath = ''/w/a/new'', path_exists = False, realPath = ''/w/b/new'',
     rootKind = ThreadRoot, rootPath = ''/w'', virtualPath = ''./a/new'' \<rparr>"

lemma demo_canonical: "canonical_realpath demo_fs"
proof -
  have "normal_path ''/w''" "normal_path ''/w/b''" "normal_path ''/p''"
    using normal_path_of [of "[''w'']"] normal_path_of [of "[''w'', ''b'']"] normal_path_of [of "[''p'']"]
    by (simp_all add: valid_segment_def path_of_def)
  then show ?thesis by (auto simp: canonical_realpath_def demo_fs_def split: if_splits)
qed

lemma demo_resolution: "resolvePluginFsVirtualPath ''/'' demo_fs demo_fs_input = Inr demo_resolved"
proof -
  note path_defs = posix_resolve_def posix_relative_def path_of_def path_segments_def normal_step_def starts_with_def
    posix_isAbsolute_def pathIsContainedByDirectory_def
  have parse: "parsePluginFsVirtualPath ''/'' demo_fs_input =
      Inr \<lparr> p_rootKind = ThreadRoot, p_rootPath = ''/w'', p_segments = [''a'', ''new''], p_virtualPath = ''./a/new'' \<rparr>"
    by (simp add: parsePluginFsVirtualPath_def parse_root_def demo_fs_input_def truthy_def nullish_def nullish_opt_def
        Let_def FORBIDDEN_DIRECTORY_NAMES_def path_defs)
  have near: "nearestExistingPathWithinRoot ''/'' demo_fs ''/w'' ''/w/a/new'' = Inr (Some ''/w/a'')"
    by (subst nearestExistingPathWithinRoot.simps, subst nearestExistingPathWithinRoot.simps)
      (simp add: pathExistsOrIsSymlink_def demo_fs_def path_defs Let_def)
  have real: "realpathExistingPath ''/'' demo_fs ''/w'' = Inr ''/w''"
      "realpathExistingPath ''/'' demo_fs ''/w/a'' = Inr ''/w/b''"
      "realpathExistingPath ''/'' demo_fs ''/p'' = Inr ''/p''"
    by (subst realpathExistingPath.simps, simp add: demo_fs_def)+
  have fields: "in_access demo_fs_input = Some WriteAccess" "in_pluginPath demo_fs_input = ''/p''"
    by (simp_all add: demo_fs_input_def)
  have target: "posix_resolve ''/'' [''/w'', ''a'', ''new''] = ''/w/a/new''" by (simp add: path_defs)
  show ?thesis
    by (simp add: resolvePluginFsVirtualPath_def parse target near real Let_def realpathRoot_def demo_resolved_def
        assertNoForbiddenRealPathSegments_def relativeSegments_def splitRelativePathSegments_def
        FORBIDDEN_DIRECTORY_NAMES_def assertOutsidePluginSource_def fields nullish_def path_defs)
qed

theorem fs_path_contained_witness:
  "\<exists>realRoot below. realpathExistingPath ''/'' demo_fs (rootPath demo_resolved) = Inr realRoot \<and>
     realPath demo_resolved = path_of (path_segments realRoot @ below) \<and> list_all valid_segment below \<and>
     set below \<inter> {''.git'', ''.ssh''} = {}"
  using fs_path_contained [OF demo_canonical demo_resolution] by (elim conjE)

theorem fs_path_revalidation_witness:
  "revalidateResolvedPluginFsPath ''/'' demo_fs (in_access demo_fs_input) (in_pluginPath demo_fs_input)
     (in_projectRootPath demo_fs_input) (in_threadRootPath demo_fs_input) demo_resolved = Inr demo_resolved"
  using fs_path_revalidation [OF demo_resolution] by (rule conjunct1)

theorem fs_virtual_path_roundtrip_witness:
  "toPluginFsVirtualPath ''/'' ''/w/a/new'' ThreadRoot ''/w'' = ''./a/new''"
  using fs_virtual_path_roundtrip [OF demo_resolution] by (simp add: demo_resolved_def)

end
