(* ===== verification/Capability_Gate.thy ===== *)
theory Capability_Gate
  imports Network_Allowlist Fs_Path
begin

text \<open>
  \<^verbatim>\<open>src/bun/plugin/capability-gate.ts\<close> with the operation permissions of \<^verbatim>\<open>calendar-events.ts\<close>,
  \<^verbatim>\<open>terminal.ts\<close>, \<^verbatim>\<open>sqlite.ts\<close>, \<^verbatim>\<open>lancedb.ts\<close> and \<^verbatim>\<open>notifications.ts\<close>: the decision about a single
  plugin operation. Paths are resolved by theory \<open>Fs_Path\<close>, URLs matched by theory
  \<open>Network_Allowlist\<close>; the file system, the working directory and the URL parser are parameters.
\<close>

section \<open>Operations and their permissions\<close>

datatype calendar_operation =
    CalendarCreate | CalendarDelete | CalendarList | CalendarModify
  | EventsCreate | EventsDelete | EventsGet | EventsList | EventsModify

fun calendar_operation_name :: "calendar_operation \<Rightarrow> string" where
  "calendar_operation_name CalendarCreate = ''calendar.create''"
| "calendar_operation_name CalendarDelete = ''calendar.delete''"
| "calendar_operation_name CalendarList = ''calendar.list''"
| "calendar_operation_name CalendarModify = ''calendar.modify''"
| "calendar_operation_name EventsCreate = ''events.create''"
| "calendar_operation_name EventsDelete = ''events.delete''"
| "calendar_operation_name EventsGet = ''events.get''"
| "calendar_operation_name EventsList = ''events.list''"
| "calendar_operation_name EventsModify = ''events.modify''"

fun permissionForPluginCalendarEventsOperation :: "calendar_operation \<Rightarrow> string" where
  "permissionForPluginCalendarEventsOperation CalendarCreate = ''calendar:create''"
| "permissionForPluginCalendarEventsOperation CalendarDelete = ''calendar:delete''"
| "permissionForPluginCalendarEventsOperation CalendarList = ''calendar:list''"
| "permissionForPluginCalendarEventsOperation CalendarModify = ''calendar:modify''"
| "permissionForPluginCalendarEventsOperation EventsCreate = ''events:create''"
| "permissionForPluginCalendarEventsOperation EventsDelete = ''events:delete''"
| "permissionForPluginCalendarEventsOperation EventsGet = ''events:get''"
| "permissionForPluginCalendarEventsOperation EventsList = ''events:list''"
| "permissionForPluginCalendarEventsOperation EventsModify = ''events:modify''"

datatype terminal_operation = TerminalCreate | TerminalGrep | TerminalKill | TerminalRead

fun terminal_operation_name :: "terminal_operation \<Rightarrow> string" where
  "terminal_operation_name TerminalCreate = ''terminal.create''"
| "terminal_operation_name TerminalGrep = ''terminal.grep''"
| "terminal_operation_name TerminalKill = ''terminal.kill''"
| "terminal_operation_name TerminalRead = ''terminal.read''"

fun permissionForPluginTerminalOperation :: "terminal_operation \<Rightarrow> string" where
  "permissionForPluginTerminalOperation TerminalCreate = ''terminal:create''"
| "permissionForPluginTerminalOperation TerminalGrep = ''terminal:read''"
| "permissionForPluginTerminalOperation TerminalKill = ''terminal:kill''"
| "permissionForPluginTerminalOperation TerminalRead = ''terminal:read''"

definition PLUGIN_TERMINAL_UNSAFE_PERMISSION :: string where
  "PLUGIN_TERMINAL_UNSAFE_PERMISSION = ''unsafe''"

definition PLUGIN_SQLITE_PERMISSION :: string where
  "PLUGIN_SQLITE_PERMISSION = ''sqlite''"

definition PLUGIN_SQLITE_STORAGE_WRITE_PERMISSION :: string where
  "PLUGIN_SQLITE_STORAGE_WRITE_PERMISSION = ''storage:write''"

definition PLUGIN_LANCEDB_PERMISSION :: string where
  "PLUGIN_LANCEDB_PERMISSION = ''metidos:lancedb''"

definition PLUGIN_LANCEDB_STORAGE_WRITE_PERMISSION :: string where
  "PLUGIN_LANCEDB_STORAGE_WRITE_PERMISSION = ''storage:write''"

definition PLUGIN_NOTIFICATION_SEND_PERMISSION :: string where
  "PLUGIN_NOTIFICATION_SEND_PERMISSION = ''notification:send''"

definition PLUGIN_NOTIFICATION_PROVIDER_PERMISSION :: string where
  "PLUGIN_NOTIFICATION_PROVIDER_PERMISSION = ''notification:provider''"

fun access_name :: "path_access \<Rightarrow> string" where
  "access_name DeleteAccess = ''delete''"
| "access_name ReadAccess = ''read''"
| "access_name WriteAccess = ''write''"

section \<open>Contexts, requests, decisions\<close>

datatype decision_code =
    InvalidNetworkPolicy | NetworkUrlNotAllowed | ConfirmationUnavailable | ContextErrorCode
  | PermissionErrorCode | TerminalUnavailableInCron | UnsafePermissionRequired | ProjectContextUnavailable

record network_summary =
  net_allow :: "string list"
  net_enforceHttps :: "bool option"
  net_webSocketAllow :: "string list option"

record gate_context =
  cx_contextKind :: "string option"
  cx_enabledAccessGroups :: "string list option"
  cx_network :: "network_summary option"
  cx_permissions :: "string list"
  cx_pluginId :: "string option"
  cx_pluginPath :: "string option"
  cx_projectId :: "int option"
  cx_projectRootPath :: "string option"
  cx_threadId :: "int option"
  cx_threadRootPath :: "string option"
  cx_worktreePath :: "string option"

text \<open>
  A calendar request carries whether \<open>params.confirmed\<close> and \<open>params.confirmation\<close> are \<open>true\<close>; a
  notification request whether it is the provider operation.
\<close>

datatype network_operation = FetchOperation | WebsocketOperation

datatype static_request =
    AccessGroupRequest string "string option"
  | NotificationRequest bool
  | PermissionRequest string string
  | ProviderRequest string string

datatype capability_request =
    StaticRequest static_request
  | CalendarRequest calendar_operation bool bool
  | FsRequest path_access "path_access option" string
  | LanceDbRequest string
  | NetworkRequest network_operation string
  | SqliteRequest string
  | TerminalRequest terminal_operation

datatype decision =
    Allowed "string option" "resolved_path option" "js_url option"
  | Denied decision_code string "string option"

definition hasPermission :: "gate_context \<Rightarrow> string \<Rightarrow> bool" where
  "hasPermission cx permission = (permission \<in> set (cx_permissions cx))"

definition requirePermission :: "gate_context \<Rightarrow> string \<Rightarrow> string \<Rightarrow> decision" where
  "requirePermission cx operation permission =
     (if hasPermission cx permission then Allowed (Some permission) None None
      else Denied PermissionErrorCode (''metidos.'' @ operation @ '' requires '' @ permission @ ''.'') (Some permission))"

text \<open>\<open>if (!decision.allowed) return decision;\<close>\<close>

fun when_allowed :: "decision \<Rightarrow> thrown + decision \<Rightarrow> thrown + decision" where
  "when_allowed (Denied c m p) k = Inr (Denied c m p)"
| "when_allowed (Allowed p r u) k = k"

definition isProjectVirtualPath :: "string \<Rightarrow> bool" where
  "isProjectVirtualPath vp = (vp = ''.'' \<or> starts_with ''./'' vp)"

definition contextSupportsProjectFiles :: "gate_context \<Rightarrow> bool" where
  "contextSupportsProjectFiles cx = (cx_contextKind cx = Some ''threadTool'')"

section \<open>The evaluators\<close>

definition evaluateFsCapability ::
  "string \<Rightarrow> host_fs \<Rightarrow> gate_context \<Rightarrow> path_access \<Rightarrow> path_access option \<Rightarrow> string \<Rightarrow> thrown + decision" where
  "evaluateFsCapability cwd fs cx access pathAccess vp =
     (let permission = (if isProjectVirtualPath vp then ''files:'' @ access_name access
            else ''storage:'' @ access_name access) in
      when_allowed (requirePermission cx (''fs.'' @ access_name access) permission)
        (if \<not> truthy (cx_pluginPath cx)
         then Inr (Denied ContextErrorCode ''Plugin fs requires an approved plugin installation path.'' None)
         else if isProjectVirtualPath vp \<and> \<not> contextSupportsProjectFiles cx
         then Inr (Denied ProjectContextUnavailable
           ''Plugin fs ./ paths are available only in thread tool contexts.'' (Some permission))
         else try_then (resolvePluginFsVirtualPath cwd fs
             \<lparr> in_pluginPath = nullish (cx_pluginPath cx) [], in_projectRootPath = cx_projectRootPath cx,
               in_threadRootPath = cx_threadRootPath cx, in_access = Some (nullish pathAccess access),
               in_virtualPath = vp \<rparr>) (\<lambda>resolvedPath.
           Inr (Allowed (Some permission) (Some resolvedPath) None))))"

definition network_operation_name :: "network_operation \<Rightarrow> string" where
  "network_operation_name operation = (case operation of FetchOperation \<Rightarrow> ''fetch'' | WebsocketOperation \<Rightarrow> ''websocket'')"

definition network_patterns :: "gate_context \<Rightarrow> network_operation \<Rightarrow> string list" where
  "network_patterns cx operation = (case cx_network cx of None \<Rightarrow> []
     | Some n \<Rightarrow> (case operation of FetchOperation \<Rightarrow> net_allow n
         | WebsocketOperation \<Rightarrow> nullish (net_webSocketAllow n) []))"

definition gate_compile_input :: "gate_context \<Rightarrow> network_operation \<Rightarrow> compile_input" where
  "gate_compile_input cx operation =
     \<lparr> in_allowUnsafeAllDomains = Some (''unsafe'' \<in> set (cx_permissions cx)),
       in_enforceHttps = Some (case cx_network cx of None \<Rightarrow> True | Some n \<Rightarrow> nullish (net_enforceHttps n) True),
       in_kind = Some (if operation = WebsocketOperation then Websocket else Fetch),
       in_patterns = network_patterns cx operation \<rparr>"

definition evaluateNetworkCapability ::
  "url_parser \<Rightarrow> gate_context \<Rightarrow> network_operation \<Rightarrow> string \<Rightarrow> thrown + decision" where
  "evaluateNetworkCapability parse cx operation url =
     (let permission = (if operation = WebsocketOperation then ''network:websocket'' else ''network:fetch'') in
      when_allowed (requirePermission cx (network_operation_name operation) permission)
        (if network_patterns cx operation = []
         then Inr (Denied InvalidNetworkPolicy
           (''Plugin '' @ network_operation_name operation @ '' requires a non-empty network.allow list.'') (Some permission))
         else (case compilePluginNetworkAllowlist parse (gate_compile_input cx operation) of
           (issues, patterns) \<Rightarrow>
             if length issues > 0
             then Inr (Denied InvalidNetworkPolicy (js_join '' '' (map issue_message issues)) (Some permission))
             else (case assertPluginNetworkUrlAllowed parse patterns url of
               Inr u \<Rightarrow> Inr (Allowed (Some permission) None (Some u))
             | Inl error \<Rightarrow> Inr (Denied NetworkUrlNotAllowed (err_message error) (Some permission))))))"

definition evaluatePluginDataCapability ::
  "string \<Rightarrow> host_fs \<Rightarrow> gate_context \<Rightarrow> string \<Rightarrow> string \<Rightarrow> string \<Rightarrow> string \<Rightarrow> thrown + decision" where
  "evaluatePluginDataCapability cwd fs cx operation primaryPermission storagePermission vp =
     when_allowed (requirePermission cx operation primaryPermission)
     (when_allowed (requirePermission cx operation storagePermission)
       (if \<not> starts_with ''~/'' vp
        then Inr (Denied ProjectContextUnavailable
          (''metidos.'' @ operation @ '' is scoped to plugin data ~/ paths.'') (Some storagePermission))
        else if \<not> truthy (cx_pluginPath cx)
        then Inr (Denied ContextErrorCode
          (''metidos.'' @ operation @ '' requires an approved plugin installation path.'') None)
        else try_then (resolvePluginFsVirtualPath cwd fs
            \<lparr> in_pluginPath = nullish (cx_pluginPath cx) [], in_projectRootPath = None, in_threadRootPath = None,
              in_access = Some WriteAccess, in_virtualPath = vp \<rparr>) (\<lambda>resolvedPath.
          Inr (Allowed (Some primaryPermission) (Some resolvedPath) None))))"

definition evaluateSqliteCapability :: "string \<Rightarrow> host_fs \<Rightarrow> gate_context \<Rightarrow> string \<Rightarrow> thrown + decision" where
  "evaluateSqliteCapability cwd fs cx vp =
     evaluatePluginDataCapability cwd fs cx ''sqlite'' PLUGIN_SQLITE_PERMISSION
       PLUGIN_SQLITE_STORAGE_WRITE_PERMISSION vp"

definition evaluateLanceDbCapability :: "string \<Rightarrow> host_fs \<Rightarrow> gate_context \<Rightarrow> string \<Rightarrow> thrown + decision" where
  "evaluateLanceDbCapability cwd fs cx vp =
     evaluatePluginDataCapability cwd fs cx ''lancedb'' PLUGIN_LANCEDB_PERMISSION
       PLUGIN_LANCEDB_STORAGE_WRITE_PERMISSION vp"

definition deleting :: "calendar_operation \<Rightarrow> bool" where
  "deleting operation = (operation = CalendarDelete \<or> operation = EventsDelete)"

definition evaluateCalendarCapability ::
  "gate_context \<Rightarrow> calendar_operation \<Rightarrow> bool \<Rightarrow> bool \<Rightarrow> thrown + decision" where
  "evaluateCalendarCapability cx operation confirmed confirmation =
     (let permission = permissionForPluginCalendarEventsOperation operation;
          name = calendar_operation_name operation in
      when_allowed (requirePermission cx name permission)
        (if deleting operation \<and> cx_contextKind cx = Some ''cron''
         then Inr (Denied ConfirmationUnavailable
           (''metidos.'' @ name @ '' cannot run in cron because confirmation is unavailable.'') (Some permission))
         else if deleting operation \<and> \<not> confirmed \<and> \<not> confirmation
         then Inr (Denied ContextErrorCode (''metidos.'' @ name @ '' requires explicit confirmation.'') (Some permission))
         else if cx_contextKind cx \<noteq> Some ''threadTool'' \<and> cx_contextKind cx \<noteq> Some ''cron'' \<and>
           cx_contextKind cx \<noteq> Some ''userCron''
         then Inr (Denied ContextErrorCode (''metidos.'' @ name @
           '' requires an authenticated local-operator plugin callback context.'') (Some permission))
         else Inr (Allowed (Some permission) None None)))"

definition evaluateTerminalCapability :: "gate_context \<Rightarrow> terminal_operation \<Rightarrow> thrown + decision" where
  "evaluateTerminalCapability cx operation =
     (let permission = permissionForPluginTerminalOperation operation;
          name = terminal_operation_name operation in
      when_allowed (requirePermission cx name permission)
        (if (operation = TerminalCreate \<or> operation = TerminalKill) \<and>
            \<not> hasPermission cx PLUGIN_TERMINAL_UNSAFE_PERMISSION
         then Inr (Denied UnsafePermissionRequired (''metidos.'' @ name @ '' requires unsafe review and activation.'')
           (Some PLUGIN_TERMINAL_UNSAFE_PERMISSION))
         else if cx_contextKind cx = Some ''cron''
         then Inr (Denied TerminalUnavailableInCron (''metidos.'' @ name @ '' is unavailable in cron contexts.'')
           (Some permission))
         else if cx_contextKind cx \<noteq> Some ''threadTool''
         then Inr (Denied ContextErrorCode
           (''metidos.'' @ name @ '' requires a thread tool plugin callback context.'') (Some permission))
         else if cx_projectId cx = None \<or> cx_threadId cx = None \<or> cx_worktreePath cx = None \<or>
           length (js_trim (nullish (cx_worktreePath cx) [])) = 0
         then Inr (Denied ContextErrorCode
           (''metidos.'' @ name @ '' requires a current thread and worktree context.'') (Some permission))
         else Inr (Allowed (Some permission) None None)))"

definition pluginAccessGroupCapabilityKey :: "gate_context \<Rightarrow> string \<Rightarrow> string option \<Rightarrow> string" where
  "pluginAccessGroupCapabilityKey cx groupId requestPluginId =
     (let pluginId = nullish_opt requestPluginId (cx_pluginId cx) in
      if truthy pluginId then nullish pluginId [] @ ''/'' @ groupId else groupId)"

fun evaluatePluginStaticCapability :: "gate_context \<Rightarrow> static_request \<Rightarrow> decision" where
  "evaluatePluginStaticCapability cx (AccessGroupRequest groupId pluginId) =
     (let key = pluginAccessGroupCapabilityKey cx groupId pluginId in
      if key \<in> set (nullish (cx_enabledAccessGroups cx) []) then Allowed None None None
      else Denied PermissionErrorCode (''Plugin access group '' @ key @ '' is not enabled in this thread.'') None)"
| "evaluatePluginStaticCapability cx (NotificationRequest provider) =
     requirePermission cx (''notifications.'' @ (if provider then ''provider'' else ''send''))
       (if provider then PLUGIN_NOTIFICATION_PROVIDER_PERMISSION else PLUGIN_NOTIFICATION_SEND_PERMISSION)"
| "evaluatePluginStaticCapability cx (PermissionRequest operation permission) =
     requirePermission cx operation permission"
| "evaluatePluginStaticCapability cx (ProviderRequest operation permission) =
     requirePermission cx (operation @ '' provider'') permission"

fun evaluatePluginCapability ::
  "string \<Rightarrow> host_fs \<Rightarrow> url_parser \<Rightarrow> gate_context \<Rightarrow> capability_request \<Rightarrow> thrown + decision" where
  "evaluatePluginCapability cwd fs parse cx (StaticRequest request) = Inr (evaluatePluginStaticCapability cx request)"
| "evaluatePluginCapability cwd fs parse cx (CalendarRequest operation confirmed confirmation) =
     evaluateCalendarCapability cx operation confirmed confirmation"
| "evaluatePluginCapability cwd fs parse cx (FsRequest access pathAccess vp) =
     evaluateFsCapability cwd fs cx access pathAccess vp"
| "evaluatePluginCapability cwd fs parse cx (LanceDbRequest vp) = evaluateLanceDbCapability cwd fs cx vp"
| "evaluatePluginCapability cwd fs parse cx (NetworkRequest operation url) =
     evaluateNetworkCapability parse cx operation url"
| "evaluatePluginCapability cwd fs parse cx (SqliteRequest vp) = evaluateSqliteCapability cwd fs cx vp"
| "evaluatePluginCapability cwd fs parse cx (TerminalRequest operation) = evaluateTerminalCapability cx operation"

datatype gate_thrown =
    GatePermissionError decision_code string "string option"
  | GateContextError decision_code string
  | GateFsError thrown

definition assertPluginCapability ::
  "string \<Rightarrow> host_fs \<Rightarrow> url_parser \<Rightarrow> gate_context \<Rightarrow> capability_request \<Rightarrow> gate_thrown + decision" where
  "assertPluginCapability cwd fs parse cx request =
     (case evaluatePluginCapability cwd fs parse cx request of
        Inl e \<Rightarrow> Inl (GateFsError e)
      | Inr (Allowed p r u) \<Rightarrow> Inr (Allowed p r u)
      | Inr (Denied code message permission) \<Rightarrow>
          (if code = PermissionErrorCode \<or> code = UnsafePermissionRequired
           then Inl (GatePermissionError code message permission)
           else Inl (GateContextError
             (if code = NetworkUrlNotAllowed \<or> code = InvalidNetworkPolicy then ContextErrorCode else code) message)))"

section \<open>What an operation needs\<close>

fun needed_permissions :: "capability_request \<Rightarrow> string list" where
  "needed_permissions (StaticRequest (AccessGroupRequest g p)) = []"
| "needed_permissions (StaticRequest (NotificationRequest provider)) =
     [if provider then ''notification:provider'' else ''notification:send'']"
| "needed_permissions (StaticRequest (PermissionRequest operation permission)) = [permission]"
| "needed_permissions (StaticRequest (ProviderRequest operation permission)) = [permission]"
| "needed_permissions (CalendarRequest operation c1 c2) = [permissionForPluginCalendarEventsOperation operation]"
| "needed_permissions (FsRequest access pathAccess vp) =
     [(if vp = ''.'' \<or> starts_with ''./'' vp then ''files:'' else ''storage:'') @ access_name access]"
| "needed_permissions (LanceDbRequest vp) = [''metidos:lancedb'', ''storage:write'']"
| "needed_permissions (NetworkRequest operation url) =
     [if operation = WebsocketOperation then ''network:websocket'' else ''network:fetch'']"
| "needed_permissions (SqliteRequest vp) = [''sqlite'', ''storage:write'']"
| "needed_permissions (TerminalRequest operation) =
     permissionForPluginTerminalOperation operation #
     (if operation = TerminalCreate \<or> operation = TerminalKill then [''unsafe''] else [])"

definition data_path_permits :: "string \<Rightarrow> host_fs \<Rightarrow> gate_context \<Rightarrow> string \<Rightarrow> bool" where
  "data_path_permits cwd fs cx vp =
     (starts_with ''~/'' vp \<and> truthy (cx_pluginPath cx) \<and>
      (\<exists>r. resolvePluginFsVirtualPath cwd fs
         \<lparr> in_pluginPath = nullish (cx_pluginPath cx) [], in_projectRootPath = None, in_threadRootPath = None,
           in_access = Some WriteAccess, in_virtualPath = vp \<rparr> = Inr r))"

text \<open>The context each kind of operation needs, besides its permissions.\<close>

fun context_permits :: "string \<Rightarrow> host_fs \<Rightarrow> url_parser \<Rightarrow> gate_context \<Rightarrow> capability_request \<Rightarrow> bool" where
  "context_permits cwd fs parse cx (StaticRequest (AccessGroupRequest g p)) =
     (pluginAccessGroupCapabilityKey cx g p \<in> set (nullish (cx_enabledAccessGroups cx) []))"
| "context_permits cwd fs parse cx (StaticRequest _) = True"
| "context_permits cwd fs parse cx (CalendarRequest operation c1 c2) =
     (cx_contextKind cx \<in> Some ` {''threadTool'', ''cron'', ''userCron''} \<and>
      (operation = CalendarDelete \<or> operation = EventsDelete \<longrightarrow>
         cx_contextKind cx \<noteq> Some ''cron'' \<and> (c1 \<or> c2)))"
| "context_permits cwd fs parse cx (FsRequest access pathAccess vp) =
     (truthy (cx_pluginPath cx) \<and> (vp = ''.'' \<or> starts_with ''./'' vp \<longrightarrow> cx_contextKind cx = Some ''threadTool'') \<and>
      (\<exists>r. resolvePluginFsVirtualPath cwd fs
         \<lparr> in_pluginPath = nullish (cx_pluginPath cx) [], in_projectRootPath = cx_projectRootPath cx,
           in_threadRootPath = cx_threadRootPath cx, in_access = Some (nullish pathAccess access),
           in_virtualPath = vp \<rparr> = Inr r))"
| "context_permits cwd fs parse cx (NetworkRequest operation url) =
     (network_patterns cx operation \<noteq> [] \<and>
      fst (compilePluginNetworkAllowlist parse (gate_compile_input cx operation)) = [] \<and>
      (\<exists>u. assertPluginNetworkUrlAllowed parse
         (snd (compilePluginNetworkAllowlist parse (gate_compile_input cx operation))) url = Inr u))"
| "context_permits cwd fs parse cx (TerminalRequest operation) =
     (cx_contextKind cx = Some ''threadTool'' \<and> cx_projectId cx \<noteq> None \<and> cx_threadId cx \<noteq> None \<and>
      (\<exists>w. cx_worktreePath cx = Some w \<and> js_trim w \<noteq> []))"
| "context_permits cwd fs parse cx (LanceDbRequest vp) = data_path_permits cwd fs cx vp"
| "context_permits cwd fs parse cx (SqliteRequest vp) = data_path_permits cwd fs cx vp"

section \<open>Facts\<close>

definition allows :: "thrown + decision \<Rightarrow> bool" where
  "allows d = (\<exists>p r u. d = Inr (Allowed p r u))"

lemma allows_simps [simp]:
  "allows (Inr (Allowed p r u))" "\<not> allows (Inr (Denied c m q))" "\<not> allows (Inl e)"
  by (simp_all add: allows_def)

lemma allows_if: "allows (if b then d else e) = (if b then allows d else allows e)"
  by simp

lemma allows_try: "allows (try_then r (\<lambda>x. Inr (Allowed p (Some x) u))) = (\<exists>x. r = Inr x)"
  by (cases r) auto

lemma allows_require: "allows (when_allowed (requirePermission cx operation permission) k) \<longleftrightarrow>
    permission \<in> set (cx_permissions cx) \<and> allows k"
  by (simp add: requirePermission_def hasPermission_def)

lemma data_allows:
  "allows (evaluatePluginDataCapability cwd fs cx operation primary storage vp) \<longleftrightarrow>
     primary \<in> set (cx_permissions cx) \<and> storage \<in> set (cx_permissions cx) \<and> data_path_permits cwd fs cx vp"
  by (simp add: evaluatePluginDataCapability_def allows_require allows_if allows_try data_path_permits_def)

lemma static_allows:
  "allows (Inr (evaluatePluginStaticCapability cx request)) \<longleftrightarrow>
     set (needed_permissions (StaticRequest request)) \<subseteq> set (cx_permissions cx) \<and>
     context_permits cwd fs parse cx (StaticRequest request)"
  by (cases request) (simp_all add: Let_def requirePermission_def hasPermission_def
      PLUGIN_NOTIFICATION_PROVIDER_PERMISSION_def PLUGIN_NOTIFICATION_SEND_PERMISSION_def)

lemma network_allows:
  "allows (evaluateNetworkCapability parse cx operation url) \<longleftrightarrow>
     set (needed_permissions (NetworkRequest operation url)) \<subseteq> set (cx_permissions cx) \<and>
     context_permits cwd fs parse cx (NetworkRequest operation url)"
proof (cases "compilePluginNetworkAllowlist parse (gate_compile_input cx operation)")
  case (Pair issues patterns)
  show ?thesis
    by (cases "assertPluginNetworkUrlAllowed parse patterns url")
      (simp_all add: evaluateNetworkCapability_def Let_def allows_require allows_if Pair)
qed

lemma calendar_allows:
  "allows (evaluateCalendarCapability cx operation c1 c2) \<longleftrightarrow>
     set (needed_permissions (CalendarRequest operation c1 c2)) \<subseteq> set (cx_permissions cx) \<and>
     context_permits cwd fs parse cx (CalendarRequest operation c1 c2)"
  by (auto simp: evaluateCalendarCapability_def Let_def allows_require allows_if deleting_def)

lemma terminal_allows:
  "allows (evaluateTerminalCapability cx operation) \<longleftrightarrow>
     set (needed_permissions (TerminalRequest operation)) \<subseteq> set (cx_permissions cx) \<and>
     context_permits cwd fs parse cx (TerminalRequest operation)"
  by (auto simp: evaluateTerminalCapability_def Let_def allows_require allows_if hasPermission_def
      PLUGIN_TERMINAL_UNSAFE_PERMISSION_def nullish_def)

lemma fs_allows:
  "allows (evaluateFsCapability cwd fs cx access pathAccess vp) \<longleftrightarrow>
     set (needed_permissions (FsRequest access pathAccess vp)) \<subseteq> set (cx_permissions cx) \<and>
     context_permits cwd fs parse cx (FsRequest access pathAccess vp)"
  by (auto simp: evaluateFsCapability_def Let_def allows_require allows_if allows_try isProjectVirtualPath_def
      contextSupportsProjectFiles_def)

lemma when_allowed_Allowed:
  "when_allowed d k = Inr (Allowed p r u) \<longleftrightarrow> (\<exists>a b c. d = Allowed a b c) \<and> k = Inr (Allowed p r u)"
  by (cases d) auto

lemma require_Allowed: "(\<exists>a b c. requirePermission cx operation permission = Allowed a b c) \<longleftrightarrow> permission \<in> set (cx_permissions cx)"
  by (simp add: requirePermission_def hasPermission_def)

lemma network_allowed:
  assumes "evaluateNetworkCapability parse cx operation raw = Inr (Allowed p r (Some url))"
  shows "\<exists>patterns. compilePluginNetworkAllowlist parse (gate_compile_input cx operation) = ([], patterns) \<and>
    network_patterns cx operation \<noteq> [] \<and> assertPluginNetworkUrlAllowed parse patterns raw = Inr url"
  using assms unfolding evaluateNetworkCapability_def Let_def when_allowed_Allowed
  by (auto split: if_split_asm prod.split_asm sum.split_asm)

lemma data_allowed:
  assumes "evaluatePluginDataCapability cwd fs cx operation primary storage vp = Inr (Allowed p (Some r) u)"
  shows "\<exists>input. resolvePluginFsVirtualPath cwd fs input = Inr r \<and> cx_pluginPath cx = Some (in_pluginPath input) \<and>
    starts_with ''~/'' (in_virtualPath input)"
  using assms unfolding evaluatePluginDataCapability_def when_allowed_Allowed try_then_Inr
  by (auto simp: try_then_Inr truthy_def nullish_def split: if_split_asm option.split_asm intro!: exI conjI)

lemma fs_allowed:
  assumes "evaluateFsCapability cwd fs cx access pathAccess vp = Inr (Allowed p (Some r) u)"
  shows "\<exists>input. resolvePluginFsVirtualPath cwd fs input = Inr r \<and> cx_pluginPath cx = Some (in_pluginPath input) \<and>
    in_virtualPath input = vp \<and> in_threadRootPath input = cx_threadRootPath cx \<and>
    in_projectRootPath input = cx_projectRootPath cx \<and>
    (if isProjectVirtualPath vp then ''files:'' else ''storage:'') @ access_name access \<in> set (cx_permissions cx) \<and>
    (isProjectVirtualPath vp \<longrightarrow> cx_contextKind cx = Some ''threadTool'')"
proof -
  let ?input = "\<lparr> in_pluginPath = nullish (cx_pluginPath cx) [], in_projectRootPath = cx_projectRootPath cx,
    in_threadRootPath = cx_threadRootPath cx, in_access = Some (nullish pathAccess access), in_virtualPath = vp \<rparr>"
  from assms have perm: "(if isProjectVirtualPath vp then ''files:'' else ''storage:'') @ access_name access \<in> set (cx_permissions cx)"
    and rest: "truthy (cx_pluginPath cx)" "isProjectVirtualPath vp \<longrightarrow> contextSupportsProjectFiles cx"
      "resolvePluginFsVirtualPath cwd fs ?input = Inr r"
    unfolding evaluateFsCapability_def Let_def when_allowed_Allowed require_Allowed
    by (auto simp: try_then_Inr split: if_split_asm)
  have "cx_pluginPath cx = Some (in_pluginPath ?input)"
    using rest(1) by (auto simp: truthy_def nullish_def split: option.splits)
  then show ?thesis using perm rest(2,3)
    by (intro exI [of _ ?input]) (simp add: contextSupportsProjectFiles_def)
qed

lemma path_allowed:
  assumes "evaluatePluginCapability cwd fs parse cx request = Inr (Allowed p (Some r) u)"
  shows "\<exists>input. resolvePluginFsVirtualPath cwd fs input = Inr r \<and> cx_pluginPath cx = Some (in_pluginPath input) \<and>
    ((\<exists>access pathAccess vp. request = FsRequest access pathAccess vp \<and> in_virtualPath input = vp \<and>
        in_threadRootPath input = cx_threadRootPath cx \<and> in_projectRootPath input = cx_projectRootPath cx \<and>
        (if isProjectVirtualPath vp then ''files:'' else ''storage:'') @ access_name access \<in> set (cx_permissions cx) \<and>
        (isProjectVirtualPath vp \<longrightarrow> cx_contextKind cx = Some ''threadTool'')) \<or>
      starts_with ''~/'' (in_virtualPath input))"
proof (cases request)
  case (FsRequest a q v)
  then show ?thesis using fs_allowed assms by fastforce
next
  case (LanceDbRequest v)
  then show ?thesis using data_allowed assms by (fastforce simp: evaluateLanceDbCapability_def)
next
  case (SqliteRequest v)
  then show ?thesis using data_allowed assms by (fastforce simp: evaluateSqliteCapability_def)
next
  case (StaticRequest x)
  then show ?thesis using assms
    by (cases x) (auto simp: Let_def requirePermission_def split: if_split_asm)
next
  case (CalendarRequest a b c)
  then show ?thesis using assms
    by (auto simp: evaluateCalendarCapability_def Let_def when_allowed_Allowed split: if_split_asm)
next
  case (NetworkRequest a b)
  then show ?thesis using assms
    by (auto simp: evaluateNetworkCapability_def Let_def when_allowed_Allowed split: if_split_asm prod.split_asm sum.split_asm)
next
  case (TerminalRequest a)
  then show ?thesis using assms
    by (auto simp: evaluateTerminalCapability_def Let_def when_allowed_Allowed split: if_split_asm)
qed

section \<open>Properties\<close>

text \<open>
  C19. The gate is exactly its policy: an operation is allowed if and only if the plugin holds every
  permission the operation needs (two for a database, the unsafe one too for creating or killing a
  terminal) and the context, the virtual path or the URL permits it. Deleting calendar data needs a
  confirmation and never happens from cron; a terminal and project files need a thread tool.
\<close>

theorem capability_gate_exact:
  "(\<exists>d. assertPluginCapability cwd fs parse cx request = Inr d) \<longleftrightarrow>
     set (needed_permissions request) \<subseteq> set (cx_permissions cx) \<and> context_permits cwd fs parse cx request"
proof -
  have "(\<exists>d. assertPluginCapability cwd fs parse cx request = Inr d) \<longleftrightarrow>
      allows (evaluatePluginCapability cwd fs parse cx request)"
    by (auto simp: assertPluginCapability_def allows_def split: sum.splits decision.splits)
  also have "\<dots> \<longleftrightarrow> set (needed_permissions request) \<subseteq> set (cx_permissions cx) \<and> context_permits cwd fs parse cx request"
  proof (cases request)
    case (StaticRequest x1)
    then show ?thesis by (simp only: evaluatePluginCapability.simps static_allows [of cx x1 cwd fs parse])
  next
    case (CalendarRequest o1 c1 c2)
    then show ?thesis by (simp only: evaluatePluginCapability.simps calendar_allows [of cx o1 c1 c2 cwd fs parse])
  next
    case (FsRequest a p v)
    then show ?thesis by (simp only: evaluatePluginCapability.simps fs_allows [of cwd fs cx a p v parse])
  next
    case (LanceDbRequest v)
    then show ?thesis
      by (simp add: evaluateLanceDbCapability_def data_allows PLUGIN_LANCEDB_PERMISSION_def
          PLUGIN_LANCEDB_STORAGE_WRITE_PERMISSION_def)
  next
    case (NetworkRequest o1 u)
    then show ?thesis by (simp only: evaluatePluginCapability.simps network_allows [of parse cx o1 u cwd fs])
  next
    case (SqliteRequest v)
    then show ?thesis
      by (simp add: evaluateSqliteCapability_def data_allows PLUGIN_SQLITE_PERMISSION_def
          PLUGIN_SQLITE_STORAGE_WRITE_PERMISSION_def)
  next
    case (TerminalRequest o1)
    then show ?thesis by (simp only: evaluatePluginCapability.simps terminal_allows [of cx o1 cwd fs parse])
  qed
  finally show ?thesis .
qed

text \<open>
  C20. The gate and the network allowlist together: a URL an allowed network operation carries has
  no credentials, uses the secure protocol unless the manifest turned that off, and matches one of
  the manifest's patterns for that operation by protocol, host, port and path; a pattern for all
  domains counts only when the plugin holds the unsafe permission.
\<close>

theorem capability_gate_network_confined:
  assumes "evaluatePluginCapability cwd fs parse cx (NetworkRequest operation raw) = Inr (Allowed p r (Some url))"
  shows "\<not> has_credentials url \<and>
    (net_enforceHttps (the (cx_network cx)) \<noteq> Some False \<longrightarrow>
       url_protocol url = (if operation = WebsocketOperation then ''wss:'' else ''https:'')) \<and>
    (\<exists>n pattern pu. cx_network cx = Some n \<and>
       pattern \<in> set (if operation = WebsocketOperation then nullish (net_webSocketAllow n) [] else net_allow n) \<and>
       parse (patternWithDefaultProtocol pattern (if operation = WebsocketOperation then ''wss'' else ''https'')) = Some pu \<and>
       url_protocol pu = url_protocol url \<and> path_covered (url_pathname pu) (url_pathname url) \<and>
       (if url_hostname pu \<in> {''*'', ''**''}
        then ''unsafe'' \<in> set (cx_permissions cx) \<and> (all_digits (url_port pu) \<longrightarrow> effectiveUrlPort url = url_port pu)
        else js_lower (url_host url) = js_lower (url_host pu)))"
proof -
  let ?input = "gate_compile_input cx operation"
  obtain patterns where c: "compilePluginNetworkAllowlist parse ?input = ([], patterns)"
    and some: "network_patterns cx operation \<noteq> []"
    and a: "assertPluginNetworkUrlAllowed parse patterns raw = Inr url"
    using network_allowed [OF assms [unfolded evaluatePluginCapability.simps]] by blast
  obtain n where n: "cx_network cx = Some n" using some by (auto simp: network_patterns_def split: option.splits)
  have kind: "(kind_of ?input = Websocket) = (operation = WebsocketOperation)"
    and enf: "enforced ?input = (net_enforceHttps (the (cx_network cx)) \<noteq> Some False)"
    and pats: "in_patterns ?input = (if operation = WebsocketOperation then nullish (net_webSocketAllow n) [] else net_allow n)"
    and unsafe: "(in_allowUnsafeAllDomains ?input = Some True) = (''unsafe'' \<in> set (cx_permissions cx))"
    by (cases operation; simp add: gate_compile_input_def kind_of_def enforced_def network_patterns_def n nullish_def
        split: option.split)+
  from request_confined [of parse ?input raw url] a c
  have conf: "parse raw = Some url \<and> \<not> has_credentials url \<and>
    (enforced ?input \<longrightarrow> url_protocol url = (if kind_of ?input = Websocket then ''wss:'' else ''https:'')) \<and>
    (\<exists>p \<in> set (in_patterns ?input). \<exists>pu.
       parse (patternWithDefaultProtocol p (if kind_of ?input = Websocket then ''wss'' else ''https'')) = Some pu \<and>
       url_protocol pu = url_protocol url \<and> \<not> has_credentials pu \<and>
       path_covered (url_pathname pu) (url_pathname url) \<and>
       (if url_hostname pu \<in> {''*'', ''**''}
        then in_allowUnsafeAllDomains ?input = Some True \<and>
          (all_digits (url_port pu) \<longrightarrow> effectiveUrlPort url = url_port pu)
        else \<not> containsGlobPattern (url_hostname pu) \<and> js_lower (url_host url) = js_lower (url_host pu)))"
    by simp
  then obtain p pu where m: "p \<in> set (in_patterns ?input)"
      "parse (patternWithDefaultProtocol p (if kind_of ?input = Websocket then ''wss'' else ''https'')) = Some pu"
      "url_protocol pu = url_protocol url" "path_covered (url_pathname pu) (url_pathname url)"
    and h: "if url_hostname pu \<in> {''*'', ''**''}
        then in_allowUnsafeAllDomains ?input = Some True \<and>
          (all_digits (url_port pu) \<longrightarrow> effectiveUrlPort url = url_port pu)
        else js_lower (url_host url) = js_lower (url_host pu)"
    by (auto split: if_splits)
  have "\<exists>pattern pu. pattern \<in> set (if operation = WebsocketOperation then nullish (net_webSocketAllow n) [] else net_allow n) \<and>
       parse (patternWithDefaultProtocol pattern (if operation = WebsocketOperation then ''wss'' else ''https'')) = Some pu \<and>
       url_protocol pu = url_protocol url \<and> path_covered (url_pathname pu) (url_pathname url) \<and>
       (if url_hostname pu \<in> {''*'', ''**''}
        then ''unsafe'' \<in> set (cx_permissions cx) \<and> (all_digits (url_port pu) \<longrightarrow> effectiveUrlPort url = url_port pu)
        else js_lower (url_host url) = js_lower (url_host pu))"
    using m h unfolding pats unsafe kind by blast
  then show ?thesis using conf n unfolding enf kind by simp
qed

text \<open>
  C21. The gate and the path resolution together: the path an allowed file, SQLite or LanceDB
  operation carries lies in the real root it was resolved under, below no \<open>.git\<close> or \<open>.ssh\<close> name.
  The root is the plugin's own data directory, always for a database; a project root is used only
  in a thread tool and with the file permission of the access asked for.
\<close>

theorem capability_gate_path_confined:
  assumes "canonical_realpath fs"
    and "evaluatePluginCapability cwd fs parse cx request = Inr (Allowed p (Some r) u)"
  shows "(\<exists>realRoot below. realpathExistingPath cwd fs (rootPath r) = Inr realRoot \<and>
       realPath r = path_of (path_segments realRoot @ below) \<and> set below \<inter> {''.git'', ''.ssh''} = {}) \<and>
    (if rootKind r = PluginData
     then \<exists>plugin. cx_pluginPath cx = Some plugin \<and>
       rootPath r = path_of (path_segments (posix_resolve cwd [plugin]) @ [''.data''])
     else cx_contextKind cx = Some ''threadTool'' \<and>
       (\<exists>t. t \<noteq> [] \<and> (cx_threadRootPath cx = Some t \<or> cx_projectRootPath cx = Some t) \<and> rootPath r = posix_resolve cwd [t]) \<and>
       (\<exists>access pathAccess vp. request = FsRequest access pathAccess vp \<and>
          ''files:'' @ access_name access \<in> set (cx_permissions cx)))"
proof -
  obtain input where input: "resolvePluginFsVirtualPath cwd fs input = Inr r"
    and plugin: "cx_pluginPath cx = Some (in_pluginPath input)"
    and how: "(\<exists>access pathAccess vp. request = FsRequest access pathAccess vp \<and> in_virtualPath input = vp \<and>
        in_threadRootPath input = cx_threadRootPath cx \<and> in_projectRootPath input = cx_projectRootPath cx \<and>
        (if isProjectVirtualPath vp then ''files:'' else ''storage:'') @ access_name access \<in> set (cx_permissions cx) \<and>
        (isProjectVirtualPath vp \<longrightarrow> cx_contextKind cx = Some ''threadTool'')) \<or>
      starts_with ''~/'' (in_virtualPath input)"
    using path_allowed [OF assms(2)] by blast
  note inside = resolved_inside [OF assms(1) input]
  note kind = resolved_kind [OF input]
  have root: "root_of cwd input (rootKind r) (rootPath r)" using inside by (rule conjunct1)
  have "rootKind r = PluginData \<Longrightarrow> rootPath r = path_of (path_segments (posix_resolve cwd [in_pluginPath input]) @ [''.data''])"
    using root by (simp add: root_of_def)
  moreover have "cx_contextKind cx = Some ''threadTool'' \<and>
       (\<exists>t. t \<noteq> [] \<and> (cx_threadRootPath cx = Some t \<or> cx_projectRootPath cx = Some t) \<and> rootPath r = posix_resolve cwd [t]) \<and>
       (\<exists>access pathAccess vp. request = FsRequest access pathAccess vp \<and>
          ''files:'' @ access_name access \<in> set (cx_permissions cx))" if k: "rootKind r \<noteq> PluginData"
  proof -
    have dot: "isProjectVirtualPath (in_virtualPath input)" "\<not> starts_with ''~/'' (in_virtualPath input)"
      using kind k by (auto simp: isProjectVirtualPath_def starts_with_def)
    have "\<exists>t. t \<noteq> [] \<and> (in_threadRootPath input = Some t \<or> in_projectRootPath input = Some t) \<and> rootPath r = posix_resolve cwd [t]"
      using root k by (auto simp: root_of_def split: root_kind.splits)
    then show ?thesis using how dot by auto
  qed
  ultimately show ?thesis using inside plugin by auto
qed

section \<open>Witnesses\<close>

definition demo_cx :: gate_context where
  "demo_cx = \<lparr> cx_contextKind = Some ''threadTool'', cx_enabledAccessGroups = None,
     cx_network = Some \<lparr> net_allow = [''api.example.com/v1''], net_enforceHttps = None, net_webSocketAllow = None \<rparr>,
     cx_permissions = [''network:fetch'', ''files:write''], cx_pluginId = Some ''demo'', cx_pluginPath = Some ''/p'',
     cx_projectId = Some 1, cx_projectRootPath = None, cx_threadId = Some 2, cx_threadRootPath = Some ''/w'',
     cx_worktreePath = Some ''/w'' \<rparr>"

lemma demo_cx_path:
  "evaluatePluginCapability ''/'' demo_fs parse demo_cx (FsRequest WriteAccess None ''./a//./new'') =
     Inr (Allowed (Some ''files:write'') (Some demo_resolved) None)"
proof -
  have "\<lparr> in_pluginPath = ''/p'', in_projectRootPath = None, in_threadRootPath = Some ''/w'',
      in_access = Some WriteAccess, in_virtualPath = ''./a//./new'' \<rparr> = demo_fs_input"
    by (simp add: demo_fs_input_def)
  then show ?thesis
    using demo_resolution
    by (simp add: evaluateFsCapability_def demo_cx_def isProjectVirtualPath_def starts_with_def requirePermission_def
        hasPermission_def truthy_def nullish_def contextSupportsProjectFiles_def Let_def)
qed

lemma demo_cx_network:
  "evaluatePluginCapability cwd fs demo_parse demo_cx (NetworkRequest FetchOperation ''https://api.example.com/v1'') =
     Inr (Allowed (Some ''network:fetch'') None (Some (demo_url ''/v1'')))"
proof -
  have pats: "network_patterns demo_cx FetchOperation = [''api.example.com/v1'']"
    by (simp add: network_patterns_def demo_cx_def)
  have inp: "gate_compile_input demo_cx FetchOperation = \<lparr> in_allowUnsafeAllDomains = Some False,
      in_enforceHttps = Some True, in_kind = Some Fetch, in_patterns = [''api.example.com/v1''] \<rparr>"
    by (simp add: gate_compile_input_def pats) (simp add: demo_cx_def nullish_def)
  have one: "compileOne demo_parse (Some False) True Fetch 0 ''api.example.com/v1'' =
     ([], [\<lparr> allDomains = False, pat_host = js_lower (url_host (demo_url ''/v1'')), pat_pathname = ''/v1'',
            pat_protocol = ''https:'', pat_source = ''api.example.com/v1'' \<rparr>])"
    by (simp add: compileOne_def Let_def demo_default_protocol demo_facts fetch_protocols_def)
  have comp: "compilePluginNetworkAllowlist demo_parse (gate_compile_input demo_cx FetchOperation) =
     ([], [\<lparr> allDomains = False, pat_host = js_lower (url_host (demo_url ''/v1'')), pat_pathname = ''/v1'',
            pat_protocol = ''https:'', pat_source = ''api.example.com/v1'' \<rparr>])"
    unfolding inp by (simp add: compile_concat Let_def kind_of_def enforced_def one)
  have perms: "''network:fetch'' \<in> set (cx_permissions demo_cx)" by (simp add: demo_cx_def)
  have "assertPluginNetworkUrlAllowed demo_parse (snd (compilePluginNetworkAllowlist demo_parse
      (gate_compile_input demo_cx FetchOperation))) ''https://api.example.com/v1'' = Inr (demo_url ''/v1'')"
    unfolding comp by (simp add: assertPluginNetworkUrlAllowed_def matchPluginNetworkAllowlist_def
        demo_facts hostMatchesPattern_def pathnameMatchesPattern_def fetch_protocols_def)
  then show ?thesis
    using comp perms by (simp add: evaluateNetworkCapability_def requirePermission_def hasPermission_def pats Let_def)
qed

theorem capability_gate_network_confined_witness:
  "\<not> has_credentials (demo_url ''/v1'') \<and>
   (\<exists>pattern \<in> set (net_allow (the (cx_network demo_cx))). \<exists>pu.
      demo_parse (patternWithDefaultProtocol pattern ''https'') = Some pu \<and>
      path_covered (url_pathname pu) (url_pathname (demo_url ''/v1'')))"
  using capability_gate_network_confined [OF demo_cx_network] by auto

theorem capability_gate_path_confined_witness:
  "\<exists>realRoot below. realpathExistingPath ''/'' demo_fs (rootPath demo_resolved) = Inr realRoot \<and>
     realPath demo_resolved = path_of (path_segments realRoot @ below) \<and> set below \<inter> {''.git'', ''.ssh''} = {}"
  using capability_gate_path_confined [OF demo_canonical demo_cx_path] by (rule conjunct1)

end
