(* ===== verification/Tool_Access.thy ===== *)
theory Tool_Access
  imports Thread_Permissions Capability_Gate
begin

text \<open>
  Who may use what in a thread: the local operator's capabilities
  (\<^verbatim>\<open>src/bun/project-procedures/local-operator.ts\<close>), the resolution of a request's access controls
  (\<^verbatim>\<open>src/bun/project-procedures.ts\<close>, \<open>resolveThreadAccessControls\<close>) and the plugin tools a thread's
  access groups expose (\<^verbatim>\<open>src/bun/plugin/tool-access.ts\<close>). \<open>Date.parse\<close> is a parameter, \<^const>\<open>None\<close> where
  it is not a finite number; so is the current time.
\<close>

section \<open>The local operator\<close>

datatype operator_capability = Authenticated | ManageApp | RecentStepUp | UnsafeModeCapability

record auth_info =
  au_isAdmin :: "bool option"
  au_sessionId :: "string option"
  au_stepUpValidUntil :: "string option"
  au_userId :: "int option"
  au_username :: "string option"

record operator_profile =
  pr_sessionId :: "string option"
  pr_userId :: "int option"
  pr_username :: "string option"

record operator_state =
  op_profile :: operator_profile
  op_hasAuthenticatedSession :: bool
  op_hasRecentStepUp :: bool
  op_canManageApp :: bool
  op_canUseUnsafeMode :: bool

record service_error =
  se_code :: string
  se_message :: string
  se_status :: nat

text \<open>The request context is \<^const>\<open>None\<close> where it is \<open>undefined\<close>.\<close>

definition stepUpValidUntilMs :: "(string \<Rightarrow> int option) \<Rightarrow> auth_info option \<Rightarrow> int option" where
  "stepUpValidUntilMs dateParse context =
     (case context of None \<Rightarrow> None | Some a \<Rightarrow>
       (case au_stepUpValidUntil a of None \<Rightarrow> None
        | Some v \<Rightarrow> if length (js_trim v) = 0 then None else dateParse v))"

definition getLocalOperatorProfile :: "auth_info option \<Rightarrow> operator_profile" where
  "getLocalOperatorProfile context =
     (case context of
        None \<Rightarrow> \<lparr> pr_sessionId = None, pr_userId = None, pr_username = None \<rparr>
      | Some a \<Rightarrow> \<lparr> pr_sessionId = au_sessionId a, pr_userId = au_userId a,
          pr_username = (case au_username a of None \<Rightarrow> None
            | Some u \<Rightarrow> if js_trim u = [] then None else Some (js_trim u)) \<rparr>)"

definition getLocalOperatorState :: "(string \<Rightarrow> int option) \<Rightarrow> auth_info option \<Rightarrow> int \<Rightarrow> operator_state" where
  "getLocalOperatorState dateParse context nowMs =
     (let profile = getLocalOperatorProfile context;
          hasAuthenticatedSession = (pr_userId profile \<noteq> None);
          hasRecentStepUp = (case stepUpValidUntilMs dateParse context of None \<Rightarrow> False | Some t \<Rightarrow> t > nowMs);
          canManageApp = (case context of None \<Rightarrow> False | Some a \<Rightarrow> au_isAdmin a = Some True) in
      \<lparr> op_profile = profile, op_hasAuthenticatedSession = hasAuthenticatedSession,
        op_hasRecentStepUp = hasRecentStepUp, op_canManageApp = canManageApp,
        op_canUseUnsafeMode = canManageApp \<rparr>)"

fun localOperatorHasCapability ::
  "(string \<Rightarrow> int option) \<Rightarrow> auth_info option \<Rightarrow> operator_capability \<Rightarrow> int \<Rightarrow> bool" where
  "localOperatorHasCapability dateParse context Authenticated nowMs =
     op_hasAuthenticatedSession (getLocalOperatorState dateParse context nowMs)"
| "localOperatorHasCapability dateParse context ManageApp nowMs =
     op_canManageApp (getLocalOperatorState dateParse context nowMs)"
| "localOperatorHasCapability dateParse context RecentStepUp nowMs =
     (op_hasAuthenticatedSession (getLocalOperatorState dateParse context nowMs) \<and>
      op_hasRecentStepUp (getLocalOperatorState dateParse context nowMs))"
| "localOperatorHasCapability dateParse context UnsafeModeCapability nowMs =
     op_canUseUnsafeMode (getLocalOperatorState dateParse context nowMs)"

fun capabilityFailure :: "operator_capability \<Rightarrow> service_error" where
  "capabilityFailure Authenticated =
     \<lparr> se_code = ''session_required'', se_message = ''A valid authenticated session is required.'', se_status = 401 \<rparr>"
| "capabilityFailure ManageApp =
     \<lparr> se_code = ''admin_required'', se_message = ''Local operator privileges are required for this action.'',
       se_status = 403 \<rparr>"
| "capabilityFailure RecentStepUp =
     \<lparr> se_code = ''step_up_required'',
       se_message = ''Recent step-up authentication is required for this sensitive action.'', se_status = 403 \<rparr>"
| "capabilityFailure UnsafeModeCapability =
     \<lparr> se_code = ''admin_required'',
       se_message = ''Local operator privileges are required to enable unsafe mode.'', se_status = 403 \<rparr>"

definition requireLocalOperatorCapability ::
  "(string \<Rightarrow> int option) \<Rightarrow> auth_info option \<Rightarrow> operator_capability \<Rightarrow> int \<Rightarrow> service_error + operator_state" where
  "requireLocalOperatorCapability dateParse context capability nowMs =
     (let state = getLocalOperatorState dateParse context nowMs in
      if localOperatorHasCapability dateParse context capability nowMs then Inr state
      else if capability = RecentStepUp \<and> \<not> op_hasAuthenticatedSession state
      then Inl (capabilityFailure Authenticated)
      else Inl (capabilityFailure capability))"

definition requireLocalOperatorUserId ::
  "(string \<Rightarrow> int option) \<Rightarrow> auth_info option \<Rightarrow> int \<Rightarrow> service_error + int option" where
  "requireLocalOperatorUserId dateParse context nowMs =
     try_then (requireLocalOperatorCapability dateParse context Authenticated nowMs)
       (\<lambda>state. Inr (pr_userId (op_profile state)))"

definition requireCalendarOperatorUserId :: "auth_info option \<Rightarrow> service_error + int" where
  "requireCalendarOperatorUserId context =
     (case pr_userId (getLocalOperatorProfile context) of
        Some userId \<Rightarrow> Inr userId
      | None \<Rightarrow> Inl \<lparr> se_code = ''session_required'',
          se_message = ''A valid authenticated session is required for calendar access.'', se_status = 401 \<rparr>)"

section \<open>Plugin access groups of a thread\<close>

definition THREAD_PLUGIN_ACCESS_GROUP_LIMIT :: nat where
  "THREAD_PLUGIN_ACCESS_GROUP_LIMIT = 100"

text \<open>
  The key pattern is \<open>id/id\<close> with \<open>id\<close> = \<open>[a-z][a-z0-9_]*(?:[.-]?[a-z0-9_]+)*\<close>: a lower-case letter,
  then identifier characters among which each dot or hyphen is followed by one.
\<close>

fun group_id_tail :: "string \<Rightarrow> bool" where
  "group_id_tail [] = True"
| "group_id_tail (c # cs) =
     (if ident_char c then group_id_tail cs
      else if c = CHR ''.'' \<or> c = CHR ''-''
      then (case cs of [] \<Rightarrow> False | d # ds \<Rightarrow> ident_char d \<and> group_id_tail cs)
      else False)"

fun group_id_ok :: "string \<Rightarrow> bool" where
  "group_id_ok [] = False"
| "group_id_ok (c # cs) = (is_lower c \<and> group_id_tail cs)"

definition group_key_ok :: "string \<Rightarrow> bool" where
  "group_key_ok key = (case split_char CHR ''/'' key of [p, g] \<Rightarrow> group_id_ok p \<and> group_id_ok g | _ \<Rightarrow> False)"

definition pluginAccessGroupKey :: "string \<Rightarrow> string \<Rightarrow> string" where
  "pluginAccessGroupKey pluginId groupId = pluginId @ ''/'' @ groupId"

fun normalize_groups :: "requested_item list \<Rightarrow> string list \<Rightarrow> string + string list" where
  "normalize_groups [] normalized = Inr normalized"
| "normalize_groups (OtherItem # items) normalized = Inl ''Plugin access group keys must be strings.''"
| "normalize_groups (StringItem item # items) normalized =
     (let key = js_trim item in
      if key = [] then normalize_groups items normalized
      else if \<not> group_key_ok key
      then Inl (''Invalid plugin access group key '' @ key @ ''. Expected plugin_id/group_id.'')
      else (let pluginId = hd (split_char CHR ''/'' key) in
        if pluginId \<noteq> [] \<and> isReservedPluginId pluginId
        then Inl (''Invalid plugin access group key '' @ key @ ''. Plugin id '' @ pluginId @ '' is reserved.'')
        else normalize_groups items (set_add key normalized)))"

fun normalizeThreadPluginAccessGroups ::
  "(string \<Rightarrow> string \<Rightarrow> int) \<Rightarrow> requested_value \<Rightarrow> string + string list" where
  "normalizeThreadPluginAccessGroups lc MissingValue = Inr []"
| "normalizeThreadPluginAccessGroups lc OtherValue = Inl ''Plugin access groups must be an array of access group keys.''"
| "normalizeThreadPluginAccessGroups lc (ArrayValue items) =
     (if length items > THREAD_PLUGIN_ACCESS_GROUP_LIMIT
      then Inl (''Plugin access groups are limited to '' @ show_nat THREAD_PLUGIN_ACCESS_GROUP_LIMIT @
        '' entries per thread.'')
      else try_then (normalize_groups items []) (\<lambda>normalized. Inr (js_sort lc normalized)))"

text \<open>A tool registration, as far as it is filtered.\<close>

record tool_registration =
  tr_runtimeId :: string
  tr_name :: string

definition string_array :: "string list \<Rightarrow> requested_value" where
  "string_array xs = ArrayValue (map StringItem xs)"

definition group_runtime_ids :: "string list \<Rightarrow> string \<Rightarrow> access_group \<Rightarrow> string list" where
  "group_runtime_ids enabled pluginId g =
     (case g_id g of
        None \<Rightarrow> []
      | Some groupId \<Rightarrow>
          (if groupId = [] then []
           else let groupKey = pluginAccessGroupKey pluginId groupId;
                    decision = evaluatePluginStaticCapability
                      \<lparr> cx_contextKind = None, cx_enabledAccessGroups = Some enabled, cx_network = None,
                        cx_permissions = [], cx_pluginId = Some pluginId, cx_pluginPath = None, cx_projectId = None,
                        cx_projectRootPath = None, cx_threadId = None, cx_threadRootPath = None,
                        cx_worktreePath = None \<rparr> (AccessGroupRequest groupId None) in
                if (case decision of Denied c m p \<Rightarrow> True | Allowed p r u \<Rightarrow> False) \<or> groupKey \<notin> set enabled then []
                else map (\<lambda>tool. pluginId @ ''_'' @ nullish tool []) (filter truthy (g_tools g))))"

definition enabledPluginToolRuntimeIds ::
  "(string \<Rightarrow> string \<Rightarrow> int) \<Rightarrow> string list \<Rightarrow> inventory_plugin \<Rightarrow> string + string list" where
  "enabledPluginToolRuntimeIds lc enabledAccessGroups plugin =
     (if \<not> pluginIsActive plugin \<or> \<not> truthy (pl_pluginId plugin) then Inr []
      else try_then (normalizeThreadPluginAccessGroups lc (string_array enabledAccessGroups)) (\<lambda>enabled.
        Inr (js_set (concat (map (group_runtime_ids (js_set enabled) (nullish (pl_pluginId plugin) []))
          (pl_access plugin))))))"

definition filterPluginToolRegistrationsForThread ::
  "(string \<Rightarrow> string \<Rightarrow> int) \<Rightarrow> string list \<Rightarrow> inventory_plugin \<Rightarrow> tool_registration list \<Rightarrow>
     string + tool_registration list" where
  "filterPluginToolRegistrationsForThread lc enabledAccessGroups plugin tools =
     try_then (enabledPluginToolRuntimeIds lc enabledAccessGroups plugin) (\<lambda>runtimeIds.
       if length runtimeIds = 0 then Inr []
       else Inr (filter (\<lambda>tool. tr_runtimeId tool \<in> set runtimeIds) tools))"

section \<open>The access controls of a request\<close>

datatype access_error = RegistryFailure registry_error | GroupFailure string | ServiceFailure service_error

definition resolveUnsafeMode :: "bool option \<Rightarrow> bool" where
  "resolveUnsafeMode unsafeMode = (unsafeMode = Some True)"

definition normalizeExplicitThreadPermissionStrings ::
  "(string \<Rightarrow> string \<Rightarrow> int) \<Rightarrow> string list \<Rightarrow> permission_registry option \<Rightarrow> access_error + string list" where
  "normalizeExplicitThreadPermissionStrings lc permissions registry =
     try_then (case registry of
         Some reg \<Rightarrow> (case normalizeThreadPermissions lc reg (string_array permissions) of
           Inl e \<Rightarrow> Inl (RegistryFailure e) | Inr ps \<Rightarrow> Inr ps)
       | None \<Rightarrow> Inr (filter (\<lambda>p. p \<noteq> []) (map js_trim permissions))) (\<lambda>normalized.
       Inr (js_sort lc (js_set normalized)))"

record access_controls =
  ac_flags :: access_booleans
  ac_permissions :: "string list option"
  ac_groups :: "string list"

text \<open>\<open>requireUnsafeModeAllowed(context)\<close>.\<close>

definition requireUnsafeModeAllowed ::
  "(string \<Rightarrow> int option) \<Rightarrow> auth_info option \<Rightarrow> int \<Rightarrow> access_error + unit" where
  "requireUnsafeModeAllowed dateParse context nowMs =
     (case requireLocalOperatorCapability dateParse context UnsafeModeCapability nowMs of
        Inl e \<Rightarrow> Inl (ServiceFailure e) | Inr _ \<Rightarrow> Inr ())"

definition no_access_input :: "(access_key \<Rightarrow> bool option) \<Rightarrow> string list option \<Rightarrow> string list option \<Rightarrow> access_input" where
  "no_access_input flags permissions groups = \<lparr> in_flags = flags, in_permissions = permissions, in_groups = groups \<rparr>"

definition resolveThreadAccessControls ::
  "(string \<Rightarrow> string \<Rightarrow> int) \<Rightarrow> (string \<Rightarrow> int option) \<Rightarrow> int \<Rightarrow> access_input \<Rightarrow> auth_info option \<Rightarrow>
     bool option \<Rightarrow> permission_registry option \<Rightarrow> access_error + access_controls" where
  "resolveThreadAccessControls lc dateParse nowMs input context allowPreauthorizedUnsafeMode registry =
     try_then (case in_permissions input of
         Some ps \<Rightarrow> try_then (normalizeExplicitThreadPermissionStrings lc ps registry) (\<lambda>e. Inr (Some e))
       | None \<Rightarrow> Inr None) (\<lambda>explicitPermissions.
     let projected = (case explicitPermissions of
           Some ps \<Rightarrow> projectThreadAccessControl lc (no_access_input (\<lambda>_. None) (Some ps) None)
         | None \<Rightarrow> projectLegacyThreadAccessControl lc input (Some True));
         unsafeMode = (case explicitPermissions of
           Some ps \<Rightarrow> access_flags projected UnsafeMode
         | None \<Rightarrow> resolveUnsafeMode (in_flags input UnsafeMode)) in
     try_then (if unsafeMode \<and> allowPreauthorizedUnsafeMode \<noteq> Some True
       then requireUnsafeModeAllowed dateParse context nowMs else Inr ()) (\<lambda>_.
     try_then (case explicitPermissions of
         Some ps \<Rightarrow> Inr []
       | None \<Rightarrow> (case normalizeThreadPluginAccessGroups lc
           (case in_groups input of None \<Rightarrow> MissingValue | Some gs \<Rightarrow> string_array gs) of
           Inl e \<Rightarrow> Inl (GroupFailure e) | Inr gs \<Rightarrow> Inr gs)) (\<lambda>pluginAccessGroups.
     Inr \<lparr> ac_flags = (access_flags projected)(UnsafeMode := unsafeMode), ac_permissions = explicitPermissions,
           ac_groups = pluginAccessGroups \<rparr>)))"

text \<open>\<open>createThreadPermissionRegistryForRequest\<close> and \<open>resolveThreadAccessControlsForRequest\<close>: the registry
  is built from the inventory of the moment, and only for an explicit permission array.\<close>

definition resolveThreadAccessControlsForRequest ::
  "(string \<Rightarrow> string \<Rightarrow> int) \<Rightarrow> (string \<Rightarrow> int option) \<Rightarrow> int \<Rightarrow> inventory_plugin list \<Rightarrow> access_input \<Rightarrow>
     auth_info option \<Rightarrow> bool option \<Rightarrow> access_error + access_controls" where
  "resolveThreadAccessControlsForRequest lc dateParse nowMs plugins input context allowPreauthorizedUnsafeMode =
     (case in_permissions input of
        Some ps \<Rightarrow> (case createThreadPermissionRegistry lc (pluginPermissionDescriptorsFromInventory plugins) of
          Inl e \<Rightarrow> Inl (RegistryFailure e)
        | Inr reg \<Rightarrow> resolveThreadAccessControls lc dateParse nowMs input context allowPreauthorizedUnsafeMode (Some reg))
      | None \<Rightarrow> resolveThreadAccessControls lc dateParse nowMs input context allowPreauthorizedUnsafeMode None)"

section \<open>Facts\<close>

lemma normalize_groups_Inr:
  "normalize_groups items acc = Inr gs \<Longrightarrow>
     set gs = set acc \<union> (js_trim ` item_text ` set items - {[]}) \<and>
     (\<forall>k \<in> js_trim ` item_text ` set items - {[]}. group_key_ok k \<and> \<not> isReservedPluginId (hd (split_char CHR ''/'' k)))"
proof (induction items arbitrary: acc)
  case (Cons item items)
  show ?case
  proof (cases item)
    case (StringItem s)
    show ?thesis
    proof (cases "js_trim s = []")
      case True
      then show ?thesis using Cons StringItem by simp
    next
      case False
      have ok: "group_key_ok (js_trim s)"
        using Cons.prems False StringItem by (simp add: Let_def split: if_split_asm)
      then have "hd (split_char CHR ''/'' (js_trim s)) \<noteq> []"
        by (auto simp: group_key_ok_def split: list.splits)
      then have res: "\<not> isReservedPluginId (hd (split_char CHR ''/'' (js_trim s)))"
        and rest: "normalize_groups items (set_add (js_trim s) acc) = Inr gs"
        using Cons.prems False StringItem ok by (auto simp: Let_def split: if_split_asm)
      from Cons.IH [OF rest] show ?thesis using ok res False StringItem by auto
    qed
  qed (use Cons.prems in simp)
qed simp

lemma normalized_groups:
  assumes "normalizeThreadPluginAccessGroups lc (string_array xs) = Inr gs"
  shows "set gs = js_trim ` set xs - {[]}"
    and "k \<in> set gs \<Longrightarrow> group_key_ok k \<and> \<not> isReservedPluginId (hd (split_char CHR ''/'' k))"
proof -
  obtain ns where n: "normalize_groups (map StringItem xs) [] = Inr ns" and g: "gs = js_sort lc ns"
    using assms by (auto simp: string_array_def try_then_Inr split: if_split_asm)
  have img: "item_text ` set (map StringItem xs) = set xs" by (simp add: image_image)
  note facts = normalize_groups_Inr [OF n, unfolded img]
  show "set gs = js_trim ` set xs - {[]}" using facts g by simp
  show "k \<in> set gs \<Longrightarrow> group_key_ok k \<and> \<not> isReservedPluginId (hd (split_char CHR ''/'' k))"
    using facts g by simp
qed

lemma nullish_some: "nullish (Some x) d = x"
  by (simp add: nullish_def)

lemma group_runtime_ids_mem:
  "rid \<in> set (group_runtime_ids enabled pluginId g) \<longleftrightarrow>
     (\<exists>gid t. g_id g = Some gid \<and> gid \<noteq> [] \<and> pluginId @ ''/'' @ gid \<in> set enabled \<and>
        Some t \<in> set (g_tools g) \<and> t \<noteq> [] \<and> rid = pluginId @ ''_'' @ t)" if "pluginId \<noteq> []"
proof (cases "g_id g")
  case None
  then show ?thesis by (simp add: group_runtime_ids_def)
next
  case (Some gid)
  have key: "pluginAccessGroupCapabilityKey \<lparr> cx_contextKind = None, cx_enabledAccessGroups = e, cx_network = None,
      cx_permissions = [], cx_pluginId = Some pluginId, cx_pluginPath = None, cx_projectId = None,
      cx_projectRootPath = None, cx_threadId = None, cx_threadRootPath = None, cx_worktreePath = None \<rparr> gid None =
      pluginId @ ''/'' @ gid" for e
    using that by (simp add: pluginAccessGroupCapabilityKey_def nullish_opt_def truthy_def nullish_def)
  have tools: "rid \<in> (\<lambda>tool. pluginId @ CHR ''_'' # nullish tool []) ` {x \<in> set (g_tools g). truthy x} \<longleftrightarrow>
      (\<exists>t. Some t \<in> set (g_tools g) \<and> t \<noteq> [] \<and> rid = pluginId @ CHR ''_'' # t)"
    by (auto simp: truthy_iff nullish_def image_iff)
  show ?thesis
    by (cases "gid = []"; cases "pluginId @ ''/'' @ gid \<in> set enabled")
      (simp_all add: group_runtime_ids_def Some Let_def key nullish_some pluginAccessGroupKey_def tools)
qed

lemma runtime_ids_exact:
  assumes "enabledPluginToolRuntimeIds lc enabled plugin = Inr ids"
  shows "rid \<in> set ids \<longleftrightarrow> pluginIsActive plugin \<and>
    (\<exists>pid g gid t. pl_pluginId plugin = Some pid \<and> g \<in> set (pl_access plugin) \<and> g_id g = Some gid \<and> gid \<noteq> [] \<and>
       pid @ ''/'' @ gid \<in> js_trim ` set enabled \<and> Some t \<in> set (g_tools g) \<and> t \<noteq> [] \<and> rid = pid @ ''_'' @ t)"
proof (cases "pluginIsActive plugin \<and> truthy (pl_pluginId plugin)")
  case True
  then obtain pid where pid: "pl_pluginId plugin = Some pid" "pid \<noteq> []" by (auto simp: truthy_iff)
  from True assms obtain gs where gs: "normalizeThreadPluginAccessGroups lc (string_array enabled) = Inr gs"
    and ids: "ids = js_set (concat (map (group_runtime_ids (js_set gs) pid) (pl_access plugin)))"
    by (auto simp: enabledPluginToolRuntimeIds_def try_then_Inr pid nullish_def)
  have key: "pid @ ''/'' @ gid \<in> set (js_set gs) \<longleftrightarrow> pid @ ''/'' @ gid \<in> js_trim ` set enabled" for gid
    using normalized_groups(1) [OF gs] by simp
  have "rid \<in> set ids \<longleftrightarrow> (\<exists>g \<in> set (pl_access plugin). rid \<in> set (group_runtime_ids (js_set gs) pid g))"
    by (simp add: ids)
  then show ?thesis
    unfolding group_runtime_ids_mem [OF pid(2)] key pid(1) using True by blast
next
  case False
  then have "ids = []" using assms by (auto simp: enabledPluginToolRuntimeIds_def)
  then show ?thesis using False by (auto simp: truthy_iff pluginIsActive_def)
qed

lemma array_permission_ids:
  assumes "normalizeThreadPermissions lc reg (string_array ps) = Inr granted"
  shows "set granted = permission_ids (Some ps)"
proof -
  have "length ps \<le> THREAD_PERMISSION_LIMIT"
    using assms by (cases "length ps \<le> THREAD_PERMISSION_LIMIT") (simp_all add: string_array_def registry_fail_def)
  then have n: "try_then (normalize_items reg (map StringItem ps) []) (\<lambda>xs. Inr (js_sort lc xs)) = Inr granted"
    using assms by (simp add: string_array_def)
  then have "find (\<lambda>i. item_error reg i \<noteq> None) (map StringItem ps) = None"
    by (cases "find (\<lambda>i. item_error reg i \<noteq> None) (map StringItem ps)") (simp_all add: normalize_items_spec)
  then show ?thesis using n by (auto simp: normalize_items_spec js_set_fold permission_ids_Some)
qed

lemma explicit_permissions:
  assumes "normalizeExplicitThreadPermissionStrings lc ps registry = Inr granted"
  shows "set granted = permission_ids (Some ps) \<and> distinct granted \<and>
    (\<forall>reg p. registry = Some reg \<longrightarrow> p \<in> set granted \<longrightarrow>
       (\<exists>normalized. normalizeThreadPermissions lc reg (string_array ps) = Inr normalized \<and> p \<in> set normalized))"
proof (cases registry)
  case None
  then have "granted = js_sort lc (js_set (filter (\<lambda>p. p \<noteq> []) (map js_trim ps)))"
    using assms by (simp add: normalizeExplicitThreadPermissionStrings_def)
  then show ?thesis by (auto simp: permission_ids_Some None)
next
  case (Some reg)
  then obtain normalized where n: "normalizeThreadPermissions lc reg (string_array ps) = Inr normalized"
      "granted = js_sort lc (js_set normalized)"
    using assms by (auto simp: normalizeExplicitThreadPermissionStrings_def try_then_Inr split: sum.splits)
  then show ?thesis using array_permission_ids [OF n(1)] by (simp add: Some)
qed

text \<open>The capability behind unsafe mode is the admin flag of the caller's session.\<close>

lemma unsafe_mode_allowed:
  "requireUnsafeModeAllowed dateParse context nowMs = Inr () \<longleftrightarrow> (\<exists>a. context = Some a \<and> au_isAdmin a = Some True)"
  by (cases "context") (auto simp: requireUnsafeModeAllowed_def requireLocalOperatorCapability_def
      getLocalOperatorState_def Let_def)

lemma resolved_controls:
  assumes "resolveThreadAccessControls lc dateParse nowMs input context preauthorized registry = Inr ac"
  shows "ac_flags ac UnsafeMode \<Longrightarrow> preauthorized = Some True \<or> (\<exists>a. context = Some a \<and> au_isAdmin a = Some True)"
    and "in_permissions input = Some ps \<Longrightarrow> ac_groups ac = [] \<and>
      (\<exists>granted. normalizeExplicitThreadPermissionStrings lc ps registry = Inr granted \<and> ac_permissions ac = Some granted \<and>
         ac_flags ac = projectLegacyThreadAccessBooleans (normalizeThreadAccessPermissionIds lc (Some granted)))"
    and "in_permissions input = None \<Longrightarrow> ac_permissions ac = None \<and>
      ac_flags ac = (access_flags (projectLegacyThreadAccessControl lc input (Some True)))
        (UnsafeMode := (in_flags input UnsafeMode = Some True)) \<and>
      (case in_groups input of None \<Rightarrow> ac_groups ac = []
       | Some gs \<Rightarrow> normalizeThreadPluginAccessGroups lc (string_array gs) = Inr (ac_groups ac))"
proof -
  show "ac_flags ac UnsafeMode \<Longrightarrow> preauthorized = Some True \<or> (\<exists>a. context = Some a \<and> au_isAdmin a = Some True)"
    using assms unsafe_mode_allowed [of dateParse "context" nowMs]
    by (cases "preauthorized = Some True")
      (auto simp: resolveThreadAccessControls_def try_then_Inr Let_def split: if_split_asm)
  show "ac_groups ac = [] \<and> (\<exists>granted. normalizeExplicitThreadPermissionStrings lc ps registry = Inr granted \<and>
      ac_permissions ac = Some granted \<and>
      ac_flags ac = projectLegacyThreadAccessBooleans (normalizeThreadAccessPermissionIds lc (Some granted)))"
    if "in_permissions input = Some ps"
    using assms that by (auto simp: resolveThreadAccessControls_def try_then_Inr Let_def projectThreadAccessControl_def
        no_access_input_def)
  show "ac_permissions ac = None \<and>
      ac_flags ac = (access_flags (projectLegacyThreadAccessControl lc input (Some True)))
        (UnsafeMode := (in_flags input UnsafeMode = Some True)) \<and>
      (case in_groups input of None \<Rightarrow> ac_groups ac = []
       | Some gs \<Rightarrow> normalizeThreadPluginAccessGroups lc (string_array gs) = Inr (ac_groups ac))"
    if "in_permissions input = None"
    using assms that by (auto simp: resolveThreadAccessControls_def try_then_Inr Let_def resolveUnsafeMode_def
        split: option.split sum.split_asm)
qed

section \<open>Properties\<close>

text \<open>
  C32. The access controls resolved for a request carry the unsafe mode only if the caller is an
  admin or the mode was authorised before. An explicit permission array decides alone: the result
  holds exactly its trimmed non-empty ids, each once and each native or contributed by an active
  plugin; every flag is read off those ids (the flag of the Metidos tools for crons or threads, the weather flag never),
  whatever booleans the request has beside them; and no access group comes with it. Without one, every flag is the
  requested boolean, where crons and threads fall back to the boolean of the Metidos tools and then, like web search, to
  true, the others to false, and the access groups are the
  trimmed requested keys, each of the form \<open>plugin/group\<close> with a plugin id that is not reserved.
\<close>

theorem thread_access_request_guarded:
  assumes "resolveThreadAccessControlsForRequest lc dateParse nowMs plugins input context preauthorized = Inr ac"
  shows "(ac_flags ac UnsafeMode \<longrightarrow> preauthorized = Some True \<or> (\<exists>a. context = Some a \<and> au_isAdmin a = Some True)) \<and>
    (case in_permissions input of
       Some ps \<Rightarrow> ac_groups ac = [] \<and> (\<exists>granted. ac_permissions ac = Some granted \<and> distinct granted \<and>
         set granted = permission_ids (Some ps) \<and> ac_flags ac UnsafeMode = (''metidos:unsafe'' \<in> set granted) \<and>
         (\<forall>k. ac_flags ac k = (case permission_of k of
            Some p \<Rightarrow> p \<in> set granted
          | None \<Rightarrow> k = MetidosAccess \<and> (''metidos:threads'' \<in> set granted \<or> ''metidos:crons'' \<in> set granted))) \<and>
         (\<forall>p \<in> set granted.
           (\<exists>a \<in> set [''web-search'', ''webserver'', ''github'', ''git'', ''sqlite'', ''lancedb'', ''memory'',
              ''agents'', ''calendar'', ''notifications'', ''threads'', ''crons'', ''unsafe'']. p = ''metidos:'' @ a) \<or>
           (\<exists>plugin \<in> set plugins. \<exists>g \<in> set (pl_access plugin). pluginIsActive plugin \<and> \<not> group_empty g \<and>
              (\<exists>i a. pl_pluginId plugin = Some i \<and> g_id g = Some a \<and> i \<noteq> ''metidos'' \<and> p = i @ '':'' @ a))))
     | None \<Rightarrow> ac_permissions ac = None \<and> ac_flags ac UnsafeMode = (in_flags input UnsafeMode = Some True) \<and>
         (\<forall>k. ac_flags ac k = (case k of
            MetidosAccess \<Rightarrow> ac_flags ac ThreadsAccess \<or> ac_flags ac CronsAccess
          | CronsAccess \<Rightarrow> nullish (in_flags input CronsAccess) (nullish (in_flags input MetidosAccess) True)
          | ThreadsAccess \<Rightarrow> nullish (in_flags input ThreadsAccess) (nullish (in_flags input MetidosAccess) True)
          | WebSearchAccess \<Rightarrow> nullish (in_flags input WebSearchAccess) True
          | other \<Rightarrow> nullish (in_flags input other) False)) \<and>
         set (ac_groups ac) = js_trim ` set (nullish (in_groups input) []) - {[]} \<and>
         (\<forall>k \<in> set (ac_groups ac). group_key_ok k \<and> \<not> isReservedPluginId (hd (split_char CHR ''/'' k))))"
proof (cases "in_permissions input")
  case None
  then have r: "resolveThreadAccessControls lc dateParse nowMs input context preauthorized None = Inr ac"
    using assms by (simp add: resolveThreadAccessControlsForRequest_def)
  have "set (ac_groups ac) = js_trim ` set (nullish (in_groups input) []) - {[]} \<and>
      (\<forall>k \<in> set (ac_groups ac). group_key_ok k \<and> \<not> isReservedPluginId (hd (split_char CHR ''/'' k)))"
  proof (cases "in_groups input")
    case groups: (Some gs)
    then have n: "normalizeThreadPluginAccessGroups lc (string_array gs) = Inr (ac_groups ac)"
      using resolved_controls(3) [OF r None] by simp
    show ?thesis using normalized_groups [OF n] groups by (simp add: nullish_def)
  qed (use resolved_controls(3) [OF r None] in \<open>simp add: nullish_def\<close>)
  moreover have "ac_flags ac k = (case k of
            MetidosAccess \<Rightarrow> ac_flags ac ThreadsAccess \<or> ac_flags ac CronsAccess
          | CronsAccess \<Rightarrow> nullish (in_flags input CronsAccess) (nullish (in_flags input MetidosAccess) True)
          | ThreadsAccess \<Rightarrow> nullish (in_flags input ThreadsAccess) (nullish (in_flags input MetidosAccess) True)
          | WebSearchAccess \<Rightarrow> nullish (in_flags input WebSearchAccess) True
          | other \<Rightarrow> nullish (in_flags input other) False)" for k
    using resolved_controls(3) [OF r None]
    by (cases k) (simp_all add: projectLegacyThreadAccessControl_def Let_def nullish_def split: option.split)
  ultimately show ?thesis using resolved_controls(1) [OF r] resolved_controls(3) [OF r None] by (simp add: None)
next
  case (Some ps)
  then obtain reg where reg: "createThreadPermissionRegistry lc (pluginPermissionDescriptorsFromInventory plugins) = Inr reg"
    and r: "resolveThreadAccessControls lc dateParse nowMs input context preauthorized (Some reg) = Inr ac"
    using assms by (auto simp: resolveThreadAccessControlsForRequest_def split: sum.splits)
  obtain granted where g: "normalizeExplicitThreadPermissionStrings lc ps (Some reg) = Inr granted"
      "ac_permissions ac = Some granted" "ac_groups ac = []"
      "ac_flags ac = projectLegacyThreadAccessBooleans (normalizeThreadAccessPermissionIds lc (Some granted))"
    using resolved_controls(2) [OF r Some] by blast
  note ids = explicit_permissions [OF g(1)]
  have "permission_ids (Some granted) = set granted"
    by (rule permission_ids_of_trimmed) (use ids trimmed_permission_ids in blast)
  then have unsafe: "ac_flags ac UnsafeMode = (''metidos:unsafe'' \<in> set granted)"
    and flags: "\<forall>k. ac_flags ac k = (case permission_of k of
        Some p \<Rightarrow> p \<in> set granted
      | None \<Rightarrow> k = MetidosAccess \<and> (''metidos:threads'' \<in> set granted \<or> ''metidos:crons'' \<in> set granted))"
    by (simp_all add: g(4) project_booleans split: option.split)
  have "(\<exists>a \<in> set [''web-search'', ''webserver'', ''github'', ''git'', ''sqlite'', ''lancedb'', ''memory'',
              ''agents'', ''calendar'', ''notifications'', ''threads'', ''crons'', ''unsafe'']. p = ''metidos:'' @ a) \<or>
           (\<exists>plugin \<in> set plugins. \<exists>g \<in> set (pl_access plugin). pluginIsActive plugin \<and> \<not> group_empty g \<and>
              (\<exists>i a. pl_pluginId plugin = Some i \<and> g_id g = Some a \<and> i \<noteq> ''metidos'' \<and> p = i @ '':'' @ a))"
    if p: "p \<in> set granted" for p
  proof -
    obtain normalized where n: "normalizeThreadPermissions lc reg (string_array ps) = Inr normalized" "p \<in> set normalized"
      using ids p by blast
    show ?thesis by (rule conjunct1 [OF grant_confined [OF reg n]])
  qed
  then show ?thesis unfolding Some option.case
    using ids by (intro conjI exI [of _ granted] impI ballI resolved_controls(1) [OF r] g(2,3) unsafe flags) simp_all
qed

text \<open>
  C34. The plugin tools a thread sees are exactly the registrations whose runtime id is
  \<open>plugin_tool\<close> for a named tool of an access group of the plugin, where the plugin is enabled,
  the server plugin runs, and the trimmed list of the thread's access groups names \<open>plugin/group\<close>.
\<close>

theorem plugin_tools_exposed_exact:
  assumes "filterPluginToolRegistrationsForThread lc enabled plugin tools = Inr exposed"
  shows "exposed = filter (\<lambda>tool. pluginIsActive plugin \<and>
    (\<exists>pid g gid t. pl_pluginId plugin = Some pid \<and> g \<in> set (pl_access plugin) \<and> g_id g = Some gid \<and> gid \<noteq> [] \<and>
       pid @ ''/'' @ gid \<in> js_trim ` set enabled \<and> Some t \<in> set (g_tools g) \<and> t \<noteq> [] \<and>
       tr_runtimeId tool = pid @ ''_'' @ t)) tools"
proof -
  obtain ids where ids: "enabledPluginToolRuntimeIds lc enabled plugin = Inr ids"
    and e: "exposed = filter (\<lambda>tool. tr_runtimeId tool \<in> set ids) tools"
    using assms by (auto simp: filterPluginToolRegistrationsForThread_def try_then_Inr split: if_split_asm)
  show ?thesis unfolding e runtime_ids_exact [OF ids] ..
qed

section \<open>Witnesses\<close>

definition demo_operator :: auth_info where
  "demo_operator = \<lparr> au_isAdmin = Some True, au_sessionId = Some ''s'', au_stepUpValidUntil = None,
     au_userId = Some 1, au_username = Some ''ada'' \<rparr>"

definition demo_request :: access_input where
  "demo_request = no_access_input (\<lambda>k. Some (k = UnsafeMode)) None (Some ['' demo/files ''])"

lemma demo_groups:
  "normalizeThreadPluginAccessGroups code_unit_compare (string_array ['' demo/files '']) = Inr [''demo/files'']"
proof -
  have t: "js_trim '' demo/files '' = ''demo/files''" by (simp add: js_trim_def js_ws_def)
  have s: "split_char CHR ''/'' ''demo/files'' = [''demo'', ''files'']" by simp
  have ok: "group_key_ok ''demo/files''" by (simp add: group_key_ok_def s is_lower_def ident_char_def)
  have r: "\<not> isReservedPluginId ''demo''"
    by (simp add: isReservedPluginId_def RESERVED_PLUGIN_ID_SET_def js_trim_def js_ws_def js_lower_def js_lower_char_def)
  show ?thesis
    by (simp add: string_array_def THREAD_PLUGIN_ACCESS_GROUP_LIMIT_def t s ok r Let_def set_add_def js_sort_def)
qed

theorem thread_access_request_guarded_witness:
  "\<exists>ac. resolveThreadAccessControlsForRequest code_unit_compare (\<lambda>_. None) 0 [demo_plugin] demo_request
      (Some demo_operator) None = Inr ac \<and> ac_flags ac UnsafeMode \<and> set (ac_groups ac) = {''demo/files''}"
proof -
  let ?ac = "\<lparr> ac_flags = (access_flags (projectLegacyThreadAccessControl code_unit_compare demo_request (Some True)))
      (UnsafeMode := True), ac_permissions = None, ac_groups = [''demo/files''] \<rparr>"
  have fields: "in_permissions demo_request = None" "in_flags demo_request UnsafeMode = Some True"
    "in_groups demo_request = Some ['' demo/files '']" by (simp_all add: demo_request_def no_access_input_def)
  have "requireUnsafeModeAllowed (\<lambda>_. None) (Some demo_operator) 0 = Inr ()"
    by (simp add: unsafe_mode_allowed demo_operator_def)
  then have r: "resolveThreadAccessControlsForRequest code_unit_compare (\<lambda>_. None) 0 [demo_plugin] demo_request
      (Some demo_operator) None = Inr ?ac"
    by (simp add: resolveThreadAccessControlsForRequest_def resolveThreadAccessControls_def fields resolveUnsafeMode_def
        demo_groups Let_def)
  have trim: "js_trim '' demo/files '' = ''demo/files''" by (simp add: js_trim_def js_ws_def)
  have "set (ac_groups ?ac) = js_trim ` set (nullish (in_groups demo_request) []) - {[]}"
    using thread_access_request_guarded [OF r] unfolding fields option.case by blast
  then show ?thesis using r by (auto simp: fields nullish_def trim)
qed

theorem plugin_tools_exposed_exact_witness:
  "filterPluginToolRegistrationsForThread code_unit_compare ['' demo/files ''] demo_plugin
     [\<lparr> tr_runtimeId = ''demo_read'', tr_name = ''read'' \<rparr>, \<lparr> tr_runtimeId = ''demo_write'', tr_name = ''write'' \<rparr>] =
   Inr [\<lparr> tr_runtimeId = ''demo_read'', tr_name = ''read'' \<rparr>]"
proof -
  have active: "pluginIsActive demo_plugin" "truthy (pl_pluginId demo_plugin)"
    by (simp_all add: demo_plugin_def pluginIsActive_def truthy_def nullish_def isReservedPluginId_def
        RESERVED_PLUGIN_ID_SET_def js_trim_def js_ws_def js_lower_def js_lower_char_def)
  then obtain ids where ids: "enabledPluginToolRuntimeIds code_unit_compare ['' demo/files ''] demo_plugin = Inr ids"
    by (simp add: enabledPluginToolRuntimeIds_def demo_groups)
  let ?tools = "[\<lparr> tr_runtimeId = ''demo_read'', tr_name = ''read'' \<rparr>, \<lparr> tr_runtimeId = ''demo_write'', tr_name = ''write'' \<rparr>]"
  obtain exposed where f: "filterPluginToolRegistrationsForThread code_unit_compare ['' demo/files ''] demo_plugin ?tools = Inr exposed"
    by (cases "ids = []") (simp_all add: filterPluginToolRegistrationsForThread_def ids)
  have trim: "js_trim '' demo/files '' = ''demo/files''" by (simp add: js_trim_def js_ws_def)
  have "exposed = [\<lparr> tr_runtimeId = ''demo_read'', tr_name = ''read'' \<rparr>]"
    unfolding plugin_tools_exposed_exact [OF f] using active(1) by (simp add: demo_plugin_def trim)
  then show ?thesis using f by simp
qed

end
