(* ===== verification/Auth_Cookies.thy ===== *)
theory Auth_Cookies
  imports Js_Result
begin

text \<open>
  The authentication cookies (\<^verbatim>\<open>src/bun/auth/service-cookies.ts\<close>): reading a cookie out of a request's
  \<open>Cookie\<close> header and writing the \<open>Set-Cookie\<close> headers. Each cookie has a plain name and a name with
  the \<open>__Host-\<close> prefix, used over TLS. The main results: the two scanning loops are a lookup in the
  list of the header's values of a name, and a cookie that was set is read back whatever other cookies
  the browser sends beside it.
\<close>

section \<open>Names and limits\<close>

definition AUTH_CLEAR_SITE_DATA_HEADER_VALUE :: string where
  "AUTH_CLEAR_SITE_DATA_HEADER_VALUE =
     CHR 0x22 # ''cache'' @ [CHR 0x22] @ '', '' @ CHR 0x22 # ''cookies'' @ [CHR 0x22] @ '', '' @
     CHR 0x22 # ''storage'' @ [CHR 0x22]"

definition AUTH_CSRF_COOKIE_NAME :: string where "AUTH_CSRF_COOKIE_NAME = ''metidos_csrf''"
definition AUTH_CSRF_HOST_COOKIE_NAME :: string where "AUTH_CSRF_HOST_COOKIE_NAME = ''__Host-metidos_csrf''"
definition AUTH_CSRF_COOKIE_PATH :: string where "AUTH_CSRF_COOKIE_PATH = ''/auth''"
definition AUTH_CSRF_HOST_COOKIE_PATH :: string where "AUTH_CSRF_HOST_COOKIE_PATH = ''/''"
definition AUTH_CSRF_TOKEN_MAX_AGE_SECONDS :: int where "AUTH_CSRF_TOKEN_MAX_AGE_SECONDS = 24 * 60 * 60"
definition AUTH_CSRF_TOKEN_MAX_BYTES :: nat where "AUTH_CSRF_TOKEN_MAX_BYTES = 256"
definition SESSION_COOKIE_NAME :: string where "SESSION_COOKIE_NAME = ''metidos_session''"
definition HOST_SESSION_COOKIE_NAME :: string where "HOST_SESSION_COOKIE_NAME = ''__Host-metidos_session''"
definition SESSION_COOKIE_PATH :: string where "SESSION_COOKIE_PATH = ''/''"
definition WEBSOCKET_TICKET_COOKIE_NAME :: string where "WEBSOCKET_TICKET_COOKIE_NAME = ''metidos_ws_ticket''"
definition HOST_WEBSOCKET_TICKET_COOKIE_NAME :: string where
  "HOST_WEBSOCKET_TICKET_COOKIE_NAME = ''__Host-metidos_ws_ticket''"
definition WEBSOCKET_TICKET_COOKIE_PATH :: string where "WEBSOCKET_TICKET_COOKIE_PATH = ''/''"
definition WEBSOCKET_TICKET_LIFETIME_MS :: int where "WEBSOCKET_TICKET_LIFETIME_MS = 60 * 1000"

text \<open>\<open>COOKIE_VALUE_PATTERN\<close>: the characters of a cookie value.\<close>

definition cookie_char :: "char \<Rightarrow> bool" where
  "cookie_char c = (is_alpha c \<or> is_digit c \<or> c \<in> set (CHR 0x27 # CHR 0x60 # ''!#$%&*+-.^_|~''))"

definition cookie_value_ok :: "string \<Rightarrow> bool" where
  "cookie_value_ok v = (v \<noteq> [] \<and> list_all cookie_char v)"

section \<open>Reading\<close>

text \<open>\<open>const [rawName, ...rawValueParts] = entry.trim().split("=")\<close>.\<close>

definition entry_name :: "string \<Rightarrow> string" where
  "entry_name entry = hd (split_char CHR ''='' (js_trim entry))"

definition entry_value :: "string \<Rightarrow> string" where
  "entry_value entry = js_join ''='' (tl (split_char CHR ''='' (js_trim entry)))"

definition non_empty :: "string \<Rightarrow> string option" where
  "non_empty s = (if s = [] then None else Some s)"

fun unique_loop :: "string \<Rightarrow> string list \<Rightarrow> string option \<Rightarrow> nat \<Rightarrow> string option" where
  "unique_loop name [] val matchCount = val"
| "unique_loop name (entry # entries) val matchCount =
     (if entry_name entry \<noteq> name then unique_loop name entries val matchCount
      else if matchCount + 1 > 1 then None
      else unique_loop name entries (non_empty (entry_value entry)) (matchCount + 1))"

definition readUniqueCookieValue :: "string \<Rightarrow> string \<Rightarrow> string option" where
  "readUniqueCookieValue cookieHeader name = unique_loop name (split_char CHR '';'' cookieHeader) None 0"

record cookie_match =
  cm_present :: bool
  cm_value :: "string option"

fun match_loop :: "string \<Rightarrow> string list \<Rightarrow> string option \<Rightarrow> nat \<Rightarrow> cookie_match" where
  "match_loop name [] val matchCount = \<lparr> cm_present = (matchCount > 0), cm_value = val \<rparr>"
| "match_loop name (entry # entries) val matchCount =
     (if entry_name entry \<noteq> name then match_loop name entries val matchCount
      else if matchCount + 1 > 1 then \<lparr> cm_present = True, cm_value = None \<rparr>
      else match_loop name entries (non_empty (entry_value entry)) (matchCount + 1))"

definition readCookieMatch :: "string \<Rightarrow> string \<Rightarrow> cookie_match" where
  "readCookieMatch cookieHeader name = match_loop name (split_char CHR '';'' cookieHeader) None 0"

definition readPreferredCookieValue :: "string \<Rightarrow> string \<Rightarrow> string \<Rightarrow> string option" where
  "readPreferredCookieValue cookieHeader preferredName fallbackName =
     (let preferred = readCookieMatch cookieHeader preferredName in
      if cm_present preferred then cm_value preferred
      else readUniqueCookieValue cookieHeader fallbackName)"

text \<open>\<open>Buffer.byteLength(s, "utf8")\<close>: two bytes from 128 on.\<close>

definition utf8_length :: "string \<Rightarrow> nat" where
  "utf8_length s = sum_list (map (\<lambda>c. if (of_char c :: nat) < 128 then 1 else 2) s)"

definition readAuthCsrfCookie :: "string option \<Rightarrow> string option" where
  "readAuthCsrfCookie cookieHeader =
     (case cookieHeader of None \<Rightarrow> None | Some h \<Rightarrow>
       if h = [] then None
       else (case readPreferredCookieValue h AUTH_CSRF_HOST_COOKIE_NAME AUTH_CSRF_COOKIE_NAME of
          None \<Rightarrow> None
        | Some token \<Rightarrow>
            (if token = [] \<or> utf8_length token > AUTH_CSRF_TOKEN_MAX_BYTES then None else Some token)))"

definition readSessionCookie :: "string option \<Rightarrow> string option" where
  "readSessionCookie cookieHeader =
     (case cookieHeader of None \<Rightarrow> None | Some h \<Rightarrow>
       if h = [] then None else readPreferredCookieValue h HOST_SESSION_COOKIE_NAME SESSION_COOKIE_NAME)"

definition readWebSocketTicketCookie :: "string option \<Rightarrow> string option" where
  "readWebSocketTicketCookie cookieHeader =
     (case cookieHeader of None \<Rightarrow> None | Some h \<Rightarrow>
       if h = [] then None
       else readPreferredCookieValue h HOST_WEBSOCKET_TICKET_COOKIE_NAME WEBSOCKET_TICKET_COOKIE_NAME)"

section \<open>Writing\<close>

definition assertSafeCookieValue :: "string \<Rightarrow> string \<Rightarrow> string + unit" where
  "assertSafeCookieValue v label =
     (if cookie_value_ok v then Inr ()
      else Inl (label @ '' contains characters that cannot be serialized in a cookie value.''))"

definition set_cookie :: "string list \<Rightarrow> bool \<Rightarrow> string" where
  "set_cookie parts secure = js_join ''; '' (parts @ (if secure then [''Secure''] else []))"

definition buildSessionCookieHeader :: "string \<Rightarrow> bool \<Rightarrow> int \<Rightarrow> string + string" where
  "buildSessionCookieHeader sessionId secure maxAgeSeconds =
     try_then (assertSafeCookieValue sessionId ''Session id'') (\<lambda>_.
       Inr (set_cookie
         [(if secure then HOST_SESSION_COOKIE_NAME else SESSION_COOKIE_NAME) @ ''='' @ sessionId,
          ''Path='' @ SESSION_COOKIE_PATH, ''HttpOnly'', ''SameSite=Strict'',
          ''Max-Age='' @ show_int maxAgeSeconds] secure))"

definition buildAuthCsrfCookieHeader :: "string \<Rightarrow> bool \<Rightarrow> string + string" where
  "buildAuthCsrfCookieHeader token secure =
     try_then (assertSafeCookieValue token ''CSRF token'') (\<lambda>_.
       Inr (set_cookie
         [(if secure then AUTH_CSRF_HOST_COOKIE_NAME else AUTH_CSRF_COOKIE_NAME) @ ''='' @ token,
          ''Path='' @ (if secure then AUTH_CSRF_HOST_COOKIE_PATH else AUTH_CSRF_COOKIE_PATH),
          ''HttpOnly'', ''SameSite=Strict'',
          ''Max-Age='' @ show_int AUTH_CSRF_TOKEN_MAX_AGE_SECONDS] secure))"

definition buildWebSocketTicketCookieHeader :: "string \<Rightarrow> bool \<Rightarrow> int option \<Rightarrow> string + string" where
  "buildWebSocketTicketCookieHeader ticketId secure maxAgeSeconds =
     try_then (assertSafeCookieValue ticketId ''WebSocket ticket id'') (\<lambda>_.
       Inr (set_cookie
         [(if secure then HOST_WEBSOCKET_TICKET_COOKIE_NAME else WEBSOCKET_TICKET_COOKIE_NAME) @ ''='' @ ticketId,
          ''Path='' @ WEBSOCKET_TICKET_COOKIE_PATH, ''HttpOnly'', ''SameSite=Strict'',
          ''Max-Age='' @ show_int (nullish maxAgeSeconds (ceil_div WEBSOCKET_TICKET_LIFETIME_MS 1000))] secure))"

text \<open>\<open>formatHttpDate(new Date(0))\<close>.\<close>

definition epoch_http_date :: string where "epoch_http_date = ''Thu, 01 Jan 1970 00:00:00 GMT''"

definition buildClearedSessionCookieHeader :: "bool \<Rightarrow> string" where
  "buildClearedSessionCookieHeader secure =
     set_cookie [(if secure then HOST_SESSION_COOKIE_NAME else SESSION_COOKIE_NAME) @ ''='',
       ''Path='' @ SESSION_COOKIE_PATH, ''HttpOnly'', ''SameSite=Strict'', ''Max-Age=0'',
       ''Expires='' @ epoch_http_date] secure"

definition buildClearedWebSocketTicketCookieHeader :: "bool \<Rightarrow> string" where
  "buildClearedWebSocketTicketCookieHeader secure =
     set_cookie [(if secure then HOST_WEBSOCKET_TICKET_COOKIE_NAME else WEBSOCKET_TICKET_COOKIE_NAME) @ ''='',
       ''Path='' @ WEBSOCKET_TICKET_COOKIE_PATH, ''HttpOnly'', ''SameSite=Strict'', ''Max-Age=0'',
       ''Expires='' @ epoch_http_date] secure"

definition buildAllClearedSessionCookieHeaders :: "string list" where
  "buildAllClearedSessionCookieHeaders = [buildClearedSessionCookieHeader False, buildClearedSessionCookieHeader True]"

definition buildAllClearedWebSocketTicketCookieHeaders :: "string list" where
  "buildAllClearedWebSocketTicketCookieHeaders =
     [buildClearedWebSocketTicketCookieHeader False, buildClearedWebSocketTicketCookieHeader True]"

text \<open>Response headers, in the order they were appended.\<close>

definition appendAllClearedSessionCookies :: "(string \<times> string) list \<Rightarrow> (string \<times> string) list" where
  "appendAllClearedSessionCookies headers =
     headers @ map (\<lambda>cookie. (''set-cookie'', cookie)) buildAllClearedSessionCookieHeaders"

definition appendAllClearedWebSocketTicketCookies :: "(string \<times> string) list \<Rightarrow> (string \<times> string) list" where
  "appendAllClearedWebSocketTicketCookies headers =
     headers @ map (\<lambda>cookie. (''set-cookie'', cookie)) buildAllClearedWebSocketTicketCookieHeaders"

definition buildLogoutClearSiteDataHeader :: string where
  "buildLogoutClearSiteDataHeader = AUTH_CLEAR_SITE_DATA_HEADER_VALUE"

section \<open>Facts\<close>

text \<open>The header's values of a name, in order, and the only value of a list that has one.\<close>

definition cookie_values :: "string \<Rightarrow> string \<Rightarrow> string list" where
  "cookie_values name header =
     map entry_value (filter (\<lambda>entry. entry_name entry = name) (split_char CHR '';'' header))"

fun sole_value :: "string list \<Rightarrow> string option" where
  "sole_value [v] = non_empty v"
| "sole_value vs = None"

lemma unique_loop_second:
  "unique_loop name entries val 1 = (if filter (\<lambda>e. entry_name e = name) entries = [] then val else None)"
  by (induction entries) auto

lemma unique_loop_first:
  "unique_loop name entries None 0 = sole_value (map entry_value (filter (\<lambda>e. entry_name e = name) entries))"
proof (induction entries)
  case (Cons e entries)
  then show ?case
    using unique_loop_second [of name entries]
    by (cases "filter (\<lambda>e. entry_name e = name) entries") auto
qed simp

lemma match_loop_second:
  "match_loop name entries val 1 =
     \<lparr> cm_present = True, cm_value = (if filter (\<lambda>e. entry_name e = name) entries = [] then val else None) \<rparr>"
  by (induction entries) auto

lemma match_loop_first:
  "match_loop name entries None 0 =
     (let vs = map entry_value (filter (\<lambda>e. entry_name e = name) entries) in
      \<lparr> cm_present = (vs \<noteq> []), cm_value = sole_value vs \<rparr>)"
proof (induction entries)
  case (Cons e entries)
  then show ?case
    using match_loop_second [of name entries]
    by (cases "filter (\<lambda>e. entry_name e = name) entries") (auto simp: Let_def)
qed simp

lemma unique_value: "readUniqueCookieValue header name = sole_value (cookie_values name header)"
  by (simp add: readUniqueCookieValue_def unique_loop_first cookie_values_def)

lemma preferred_value:
  "readPreferredCookieValue header preferred fallback =
     sole_value (if cookie_values preferred header \<noteq> [] then cookie_values preferred header
       else cookie_values fallback header)"
  by (simp add: readPreferredCookieValue_def readCookieMatch_def match_loop_first cookie_values_def Let_def
      unique_value)

text \<open>A header made of cookie texts holds their values.\<close>

lemma trim_space: "js_trim (CHR '' '' # s) = js_trim s"
  by (simp add: js_trim_def js_ws_def)

lemma split_joined:
  assumes "\<And>e. e \<in> set (e1 # es) \<Longrightarrow> CHR '';'' \<notin> set e"
  shows "split_char CHR '';'' (js_join ''; '' (e1 # es)) = e1 # map ((#) CHR '' '') es"
  using assms
proof (induction es arbitrary: e1)
  case Nil
  then show ?case by (simp add: split_char_no_sep)
next
  case (Cons e2 es)
  have j: "js_join ''; '' (e2 # es) = e2 @ (if es = [] then [] else ''; '' @ js_join ''; '' es)"
    by (cases es) simp_all
  have "split_char CHR '';'' (js_join ''; '' (e2 # es)) = e2 # map ((#) CHR '' '') es"
    by (rule Cons.IH) (use Cons.prems in auto)
  moreover have "split_char CHR '';'' (CHR '' '' # js_join ''; '' (e2 # es)) =
      (CHR '' '' # hd (split_char CHR '';'' (js_join ''; '' (e2 # es)))) # tl (split_char CHR '';'' (js_join ''; '' (e2 # es)))"
    by (simp split: list.split)
  moreover have "CHR '';'' \<notin> set e1" using Cons.prems by simp
  ultimately show ?case by (simp add: split_char_append_sep)
qed

lemma entry_space: "entry_name (CHR '' '' # e) = entry_name e" "entry_value (CHR '' '' # e) = entry_value e"
  by (simp_all add: entry_name_def entry_value_def trim_space)

lemma values_joined:
  assumes "\<And>e. e \<in> set es \<Longrightarrow> CHR '';'' \<notin> set e" and "es \<noteq> []"
  shows "cookie_values name (js_join ''; '' es) = map entry_value (filter (\<lambda>e. entry_name e = name) es)"
proof -
  obtain e1 rest where es: "es = e1 # rest" using assms(2) by (cases es) auto
  have "split_char CHR '';'' (js_join ''; '' es) = e1 # map ((#) CHR '' '') rest"
    unfolding es by (rule split_joined) (use assms(1) es in blast)
  moreover have "map entry_value (filter (\<lambda>e. entry_name e = name) (map ((#) CHR '' '') rest)) =
      map entry_value (filter (\<lambda>e. entry_name e = name) rest)"
    by (simp add: filter_map comp_def entry_space)
  ultimately show ?thesis by (simp add: cookie_values_def es)
qed

lemma cookie_char_facts:
  assumes "cookie_char c" shows "\<not> js_ws c" and "c \<noteq> CHR '';''"
  using assms by (auto simp: cookie_char_def is_alpha_def is_lower_def is_upper_def is_digit_def js_ws_def Let_def)

lemma cookie_value_facts:
  assumes "cookie_value_ok v" shows "v \<noteq> []" and "\<And>c. c \<in> set v \<Longrightarrow> \<not> js_ws c \<and> c \<noteq> CHR '';''"
  using assms cookie_char_facts by (auto simp: cookie_value_ok_def list_all_iff)

text \<open>What a browser sends back for a \<open>Set-Cookie\<close> header: the text before the first semicolon.\<close>

definition cookie_pair :: "string \<Rightarrow> string" where
  "cookie_pair setCookie = takeWhile (\<lambda>c. c \<noteq> CHR '';'') setCookie"

lemma pair_entry:
  assumes "cookie_value_ok v" and "list_all cookie_char name" and "name \<noteq> []" and "CHR ''='' \<notin> set name"
  shows "entry_name (name @ ''='' @ v) = name" and "entry_value (name @ ''='' @ v) = v"
    and "CHR '';'' \<notin> set (name @ ''='' @ v)"
proof -
  note v = cookie_value_facts [OF assms(1)]
  have n: "\<And>c. c \<in> set name \<Longrightarrow> \<not> js_ws c \<and> c \<noteq> CHR '';''"
    using assms(2) cookie_char_facts by (auto simp: list_all_iff)
  have t: "js_trim (name @ ''='' @ v) = name @ ''='' @ v"
    by (rule js_trim_id) (use v n assms(3) in auto)
  have s: "split_char CHR ''='' (name @ ''='' @ v) = name # split_char CHR ''='' v"
    using split_char_append_sep [OF assms(4), of v] by simp
  show "entry_name (name @ ''='' @ v) = name" "entry_value (name @ ''='' @ v) = v"
    unfolding entry_name_def entry_value_def t s by (simp_all add: join_split)
  show "CHR '';'' \<notin> set (name @ ''='' @ v)" using v n by auto
qed

lemma cookie_pair_set:
  assumes "CHR '';'' \<notin> set text" and "parts \<noteq> []"
  shows "cookie_pair (set_cookie (text # parts) secure) = text"
proof -
  obtain p ps where "parts @ (if secure then [''Secure''] else []) = p # ps" using assms(2) by (cases parts) auto
  then have "set_cookie (text # parts) secure = text @ ''; '' @ js_join ''; '' (p # ps)"
    by (simp add: set_cookie_def)
  moreover have "takeWhile (\<lambda>c. c \<noteq> CHR '';'') (text @ CHR '';'' # rest) = text" for rest
    using assms(1) by (subst takeWhile_append2) auto
  ultimately show ?thesis by (simp add: cookie_pair_def)
qed

section \<open>A family of cookies\<close>

text \<open>
  A cookie with its two names and its builder. What the reader needs of the builder: it accepts safe
  values only and begins with the name and the value.
\<close>

locale cookie_family =
  fixes host plain :: string and build :: "string \<Rightarrow> bool \<Rightarrow> string + string"
  assumes names: "list_all cookie_char host" "list_all cookie_char plain" "host \<noteq> []" "plain \<noteq> []"
      "CHR ''='' \<notin> set host" "CHR ''='' \<notin> set plain" "host \<noteq> plain"
    and built: "build v secure = Inr h \<Longrightarrow>
      cookie_value_ok v \<and> (\<exists>parts. parts \<noteq> [] \<and> h = set_cookie (((if secure then host else plain) @ ''='' @ v) # parts) secure)"
begin

text \<open>The other cookies of the request must not carry the host name, nor, when the cookie itself went
  out under the plain name, that one.\<close>

lemma read_back:
  assumes "build v secure = Inr h" and "\<And>e. e \<in> set (before @ after) \<Longrightarrow> CHR '';'' \<notin> set e"
    and "\<And>e. e \<in> set (before @ after) \<Longrightarrow> entry_name e \<noteq> host \<and> (secure \<or> entry_name e \<noteq> plain)"
  shows "readPreferredCookieValue (js_join ''; '' (before @ [cookie_pair h] @ after)) host plain = Some v"
proof -
  let ?name = "if secure then host else plain"
  obtain parts where v: "cookie_value_ok v" and h: "parts \<noteq> []" "h = set_cookie ((?name @ ''='' @ v) # parts) secure"
    using built [OF assms(1)] by blast
  have e: "entry_name (?name @ ''='' @ v) = ?name" "entry_value (?name @ ''='' @ v) = v"
    "CHR '';'' \<notin> set (?name @ ''='' @ v)"
    using pair_entry [OF v] names by simp_all
  have p: "cookie_pair h = ?name @ ''='' @ v" unfolding h(2) using e(3) h(1) by (rule cookie_pair_set)
  have vals: "cookie_values name (js_join ''; '' (before @ [cookie_pair h] @ after)) =
      map entry_value (filter (\<lambda>e. entry_name e = name) (before @ [?name @ ''='' @ v] @ after))" for name
    unfolding p by (rule values_joined) (use assms(2) e(3) in auto)
  have none: "filter (\<lambda>e. entry_name e = ?name) before = []" "filter (\<lambda>e. entry_name e = ?name) after = []"
    "filter (\<lambda>e. entry_name e = host) before = []" "filter (\<lambda>e. entry_name e = host) after = []"
    using assms(3) by (auto simp: filter_empty_conv)
  have "v \<noteq> []" using v by (simp add: cookie_value_ok_def)
  then show ?thesis unfolding preferred_value vals using none e names(7)
    by (cases secure) (simp_all add: non_empty_def)
qed

lemma read_not_blank:
  assumes "build v secure = Inr h" shows "js_join ''; '' (before @ [cookie_pair h] @ after) \<noteq> []"
proof -
  obtain parts where v: "cookie_value_ok v" and h: "parts \<noteq> []"
      "h = set_cookie (((if secure then host else plain) @ ''='' @ v) # parts) secure"
    using built [OF assms(1)] by blast
  have "cookie_pair h = (if secure then host else plain) @ ''='' @ v"
    unfolding h(2) by (rule cookie_pair_set) (use pair_entry(3) [OF v] names h(1) in simp_all)
  then have "cookie_pair h \<noteq> []" by simp
  then show ?thesis by (cases before; cases after) (auto elim!: js_join.elims)
qed

end

text \<open>The three families of the server.\<close>

lemma plain_names:
  "list_all cookie_char HOST_SESSION_COOKIE_NAME" "list_all cookie_char SESSION_COOKIE_NAME"
  "list_all cookie_char HOST_WEBSOCKET_TICKET_COOKIE_NAME" "list_all cookie_char WEBSOCKET_TICKET_COOKIE_NAME"
  "list_all cookie_char AUTH_CSRF_HOST_COOKIE_NAME" "list_all cookie_char AUTH_CSRF_COOKIE_NAME"
  by (simp_all add: HOST_SESSION_COOKIE_NAME_def SESSION_COOKIE_NAME_def HOST_WEBSOCKET_TICKET_COOKIE_NAME_def
      WEBSOCKET_TICKET_COOKIE_NAME_def AUTH_CSRF_HOST_COOKIE_NAME_def AUTH_CSRF_COOKIE_NAME_def cookie_char_def
      is_alpha_def is_lower_def is_upper_def)

lemmas cookie_name_defs = HOST_SESSION_COOKIE_NAME_def SESSION_COOKIE_NAME_def HOST_WEBSOCKET_TICKET_COOKIE_NAME_def
  WEBSOCKET_TICKET_COOKIE_NAME_def AUTH_CSRF_HOST_COOKIE_NAME_def AUTH_CSRF_COOKIE_NAME_def

lemma safe_value: "assertSafeCookieValue v label = Inr u \<longleftrightarrow> cookie_value_ok v"
  by (simp add: assertSafeCookieValue_def)

interpretation session: cookie_family HOST_SESSION_COOKIE_NAME SESSION_COOKIE_NAME
  "\<lambda>v secure. buildSessionCookieHeader v secure maxAgeSeconds" for maxAgeSeconds
proof unfold_locales
  fix v secure h
  assume "buildSessionCookieHeader v secure maxAgeSeconds = Inr h"
  then show "cookie_value_ok v \<and> (\<exists>parts. parts \<noteq> [] \<and>
      h = set_cookie (((if secure then HOST_SESSION_COOKIE_NAME else SESSION_COOKIE_NAME) @ ''='' @ v) # parts) secure)"
    by (auto simp: buildSessionCookieHeader_def try_then_Inr safe_value)
qed (simp_all add: plain_names, simp_all add: cookie_name_defs)

interpretation ticket: cookie_family HOST_WEBSOCKET_TICKET_COOKIE_NAME WEBSOCKET_TICKET_COOKIE_NAME
  "\<lambda>v secure. buildWebSocketTicketCookieHeader v secure maxAgeSeconds" for maxAgeSeconds
proof unfold_locales
  fix v secure h
  assume "buildWebSocketTicketCookieHeader v secure maxAgeSeconds = Inr h"
  then show "cookie_value_ok v \<and> (\<exists>parts. parts \<noteq> [] \<and>
      h = set_cookie (((if secure then HOST_WEBSOCKET_TICKET_COOKIE_NAME else WEBSOCKET_TICKET_COOKIE_NAME) @ ''='' @ v) # parts) secure)"
    by (auto simp: buildWebSocketTicketCookieHeader_def try_then_Inr safe_value)
qed (simp_all add: plain_names, simp_all add: cookie_name_defs)

interpretation csrf: cookie_family AUTH_CSRF_HOST_COOKIE_NAME AUTH_CSRF_COOKIE_NAME buildAuthCsrfCookieHeader
proof unfold_locales
  fix v secure h
  assume "buildAuthCsrfCookieHeader v secure = Inr h"
  then show "cookie_value_ok v \<and> (\<exists>parts. parts \<noteq> [] \<and>
      h = set_cookie (((if secure then AUTH_CSRF_HOST_COOKIE_NAME else AUTH_CSRF_COOKIE_NAME) @ ''='' @ v) # parts) secure)"
    by (auto simp: buildAuthCsrfCookieHeader_def try_then_Inr safe_value)
qed (simp_all add: plain_names, simp_all add: cookie_name_defs)

lemma csrf_read_back:
  assumes "buildAuthCsrfCookieHeader token secure = Inr h" and "utf8_length token \<le> AUTH_CSRF_TOKEN_MAX_BYTES"
    and "\<And>e. e \<in> set (before @ after) \<Longrightarrow> CHR '';'' \<notin> set e"
    and "\<And>e. e \<in> set (before @ after) \<Longrightarrow>
      entry_name e \<noteq> AUTH_CSRF_HOST_COOKIE_NAME \<and> (secure \<or> entry_name e \<noteq> AUTH_CSRF_COOKIE_NAME)"
  shows "readAuthCsrfCookie (Some (js_join ''; '' (before @ [cookie_pair h] @ after))) = Some token"
proof -
  have "token \<noteq> []" using csrf.built [OF assms(1)] by (auto simp: cookie_value_ok_def)
  then show ?thesis
    using csrf.read_back [OF assms(1,3,4)] csrf.read_not_blank [OF assms(1)] assms(2)
    by (simp add: readAuthCsrfCookie_def)
qed

section \<open>Properties\<close>

text \<open>
  C25. A session cookie that was set is read back, whatever other cookies the browser sends before and
  after it, provided none of them has the cookie's own name; over TLS a cookie planted under the plain
  name does not matter.
\<close>

theorem session_cookie_roundtrip:
  assumes "buildSessionCookieHeader sessionId secure maxAgeSeconds = Inr h"
    and "\<And>e. e \<in> set (before @ after) \<Longrightarrow> CHR '';'' \<notin> set e"
    and "\<And>e. e \<in> set (before @ after) \<Longrightarrow>
      entry_name e \<noteq> HOST_SESSION_COOKIE_NAME \<and> (secure \<or> entry_name e \<noteq> SESSION_COOKIE_NAME)"
  shows "readSessionCookie (Some (js_join ''; '' (before @ [cookie_pair h] @ after))) = Some sessionId"
  using session.read_back [OF assms] session.read_not_blank [OF assms(1)]
  by (simp add: readSessionCookie_def)

text \<open>
  Each reader is a lookup in the header: if the host-prefixed name occurs, its only non-empty
  value, and nothing when it is repeated or empty; otherwise the same for the plain name. The token of
  the CSRF cookie has at most 256 bytes.
\<close>

theorem auth_cookie_read_exact:
  "readSessionCookie (Some header) = sole_value
     (if cookie_values HOST_SESSION_COOKIE_NAME header \<noteq> [] then cookie_values HOST_SESSION_COOKIE_NAME header
      else cookie_values SESSION_COOKIE_NAME header) \<and>
   readWebSocketTicketCookie (Some header) = sole_value
     (if cookie_values HOST_WEBSOCKET_TICKET_COOKIE_NAME header \<noteq> []
      then cookie_values HOST_WEBSOCKET_TICKET_COOKIE_NAME header
      else cookie_values WEBSOCKET_TICKET_COOKIE_NAME header) \<and>
   readAuthCsrfCookie (Some header) =
     (case sole_value (if cookie_values AUTH_CSRF_HOST_COOKIE_NAME header \<noteq> []
        then cookie_values AUTH_CSRF_HOST_COOKIE_NAME header
        else cookie_values AUTH_CSRF_COOKIE_NAME header) of
        None \<Rightarrow> None | Some token \<Rightarrow> if utf8_length token \<le> 256 then Some token else None)"
proof -
  have blank: "cookie_values name [] = []" if "name \<noteq> []" for name
    using that by (simp add: cookie_values_def entry_name_def js_trim_def)
  have value_not_blank: "sole_value vs = Some t \<Longrightarrow> t \<noteq> []" for vs t
    by (cases vs rule: sole_value.cases) (auto simp: non_empty_def split: if_split_asm)
  show ?thesis
  proof (cases "header = []")
    case True
    then show ?thesis
      by (simp add: readSessionCookie_def readWebSocketTicketCookie_def readAuthCsrfCookie_def blank cookie_name_defs)
  next
    case False
    then show ?thesis using value_not_blank
      by (simp add: readSessionCookie_def readWebSocketTicketCookie_def readAuthCsrfCookie_def preferred_value
          AUTH_CSRF_TOKEN_MAX_BYTES_def split: option.split)
  qed
qed

section \<open>Witnesses\<close>

theorem session_cookie_roundtrip_witness:
  "\<exists>h. buildSessionCookieHeader ''abc-1'' True 60 = Inr h \<and>
     readSessionCookie (Some (js_join ''; '' ([''metidos_session=planted''] @ [cookie_pair h] @ [''theme=dark'']))) =
       Some ''abc-1''"
proof -
  have "cookie_value_ok ''abc-1''"
    by (simp add: cookie_value_ok_def cookie_char_def is_alpha_def is_lower_def is_upper_def is_digit_def)
  then obtain h where h: "buildSessionCookieHeader ''abc-1'' True 60 = Inr h"
    by (simp add: buildSessionCookieHeader_def assertSafeCookieValue_def)
  have "readSessionCookie (Some (js_join ''; '' ([''metidos_session=planted''] @ [cookie_pair h] @ [''theme=dark'']))) =
      Some ''abc-1''"
    by (rule session_cookie_roundtrip [OF h])
      (auto simp: entry_name_def js_trim_def js_ws_def HOST_SESSION_COOKIE_NAME_def)
  then show ?thesis using h by blast
qed

end
