(* ===== verification/Http_Forwarded.thy ===== *)
theory Http_Forwarded
  imports Js_Result Js_Url "HOL-Library.Word"
begin

text \<open>
  Trust in a reverse proxy's headers (\<^verbatim>\<open>src/bun/http-forwarded.ts\<close>) and the peer keys of the server's
  routes (\<^verbatim>\<open>src/bun/index.ts\<close>). An IPv4 address is the 32-bit word of the code's bit arithmetic.
  Parameters: the URL parser, \<open>node:net\<close>'s \<open>isIP\<close> (0 for a text that is no address, else 4 or 6) and the
  process environment. The main results: a peer is trusted exactly when a configured token covers it, a
  CIDR token covers exactly the addresses of its block, and nothing that a peer without that trust sends
  in a forwarded header changes an answer.
\<close>

unbundle bit_operations_syntax

section \<open>Requests, environment, headers\<close>

record full_url = js_url +
  url_search :: string
  url_hash :: string
  url_origin :: string

type_synonym full_url_parser = "string \<Rightarrow> full_url option"
type_synonym header_map = "string \<Rightarrow> string option"

record http_request =
  rq_headers :: header_map
  rq_url :: string

record proxy_env =
  env_TRUST_PROXY :: "string option"
  env_PUBLIC_ORIGIN :: "string option"
  env_ALLOWED_FORWARDED_ORIGINS :: "string option"
  env_TRUSTED_PROXY_PEERS :: "string option"

text \<open>\<open>s.split(re)\<close> for a class of separator characters taken in runs.\<close>

definition sep_or_comma :: "char \<Rightarrow> bool" where
  "sep_or_comma c = (js_ws c \<or> c = CHR '','')"

function split_runs :: "(char \<Rightarrow> bool) \<Rightarrow> string \<Rightarrow> string list" where
  "split_runs P [] = [[]]"
| "split_runs P (x # xs) =
     (if P x then [] # split_runs P (dropWhile P xs)
      else (case split_runs P xs of [] \<Rightarrow> [[x]] | y # ys \<Rightarrow> (x # y) # ys))"
  by pat_completeness auto
termination
  by (relation "measure (length \<circ> snd)") (auto simp: le_imp_less_Suc length_dropWhile_le)

section \<open>Values\<close>

definition readFirstHeaderValue :: "string option \<Rightarrow> string option" where
  "readFirstHeaderValue val =
     (case val of None \<Rightarrow> None | Some v \<Rightarrow>
       (let firstValue = js_trim (hd (split_char CHR '','' v)) in
        if firstValue = [] then None else Some firstValue))"

definition isForwardedHeaderTrustEnabled :: "proxy_env \<Rightarrow> bool" where
  "isForwardedHeaderTrustEnabled env =
     (case env_TRUST_PROXY env of None \<Rightarrow> False
      | Some v \<Rightarrow> js_lower (js_trim v) = ''true'' \<or> js_lower (js_trim v) = ''1'')"

definition bare_origin :: "full_url_parser \<Rightarrow> string \<Rightarrow> string option" where
  "bare_origin parse text =
     (case parse text of
        None \<Rightarrow> None
      | Some url \<Rightarrow>
          (if url_protocol url \<noteq> ''http:'' \<and> url_protocol url \<noteq> ''https:'' then None
           else if has_credentials (js_url.truncate url) \<or> url_pathname url \<noteq> ''/'' \<or> url_search url \<noteq> [] \<or>
             url_hash url \<noteq> [] then None
           else Some (url_origin url)))"

definition normalizeForwardedOrigin :: "full_url_parser \<Rightarrow> string \<Rightarrow> string option" where
  "normalizeForwardedOrigin parse origin = bare_origin parse (js_trim origin)"

definition readAllowedForwardedOrigins :: "full_url_parser \<Rightarrow> proxy_env \<Rightarrow> string set" where
  "readAllowedForwardedOrigins parse env =
     set (filter (\<lambda>origin. origin \<noteq> []) (List.map_filter (normalizeForwardedOrigin parse)
       (concat (map (\<lambda>val. case val of None \<Rightarrow> [] | Some v \<Rightarrow> split_runs sep_or_comma v)
         [env_PUBLIC_ORIGIN env, env_ALLOWED_FORWARDED_ORIGINS env]))))"

section \<open>Addresses\<close>

text \<open>\<open>/^\d{1,3}$/u\<close>.\<close>

definition short_digits :: "nat \<Rightarrow> string \<Rightarrow> bool" where
  "short_digits n s = (s \<noteq> [] \<and> length s \<le> n \<and> list_all is_digit s)"

fun octets_loop :: "string list \<Rightarrow> 32 word \<Rightarrow> 32 word option" where
  "octets_loop [] result = Some result"
| "octets_loop (part # parts) result =
     (if \<not> short_digits 3 part then None
      else (let octet = digits_val part in
        if octet > 255 then None
        else octets_loop parts (push_bit 8 result OR of_nat octet)))"

definition forwarded_parseIpv4Address :: "string \<Rightarrow> 32 word option" where
  "forwarded_parseIpv4Address val =
     (let parts = split_char CHR ''.'' val in
      if length parts \<noteq> 4 then None else octets_loop parts 0)"

text \<open>The text \<open>d.d.d.d\<close> with groups of one to three digits, no bound on their values.\<close>

definition dotted_quad :: "string \<Rightarrow> bool" where
  "dotted_quad s = (length (split_char CHR ''.'' s) = 4 \<and> list_all (short_digits 3) (split_char CHR ''.'' s))"

definition normalizePeerAddress :: "(string \<Rightarrow> nat) \<Rightarrow> string option \<Rightarrow> string option" where
  "normalizePeerAddress isIP val =
     (case val of None \<Rightarrow> None | Some v \<Rightarrow>
       (let trimmed = js_trim v in
        if trimmed = [] then None
        else (let candidate =
            (if starts_with ''::ffff:'' (js_lower trimmed) \<and> dotted_quad (drop 7 trimmed)
             then drop 7 trimmed else trimmed) in
          if isIP candidate \<noteq> 0 then Some (js_lower candidate) else None)))"

definition isLoopbackPeerAddress :: "string \<Rightarrow> bool" where
  "isLoopbackPeerAddress address =
     (if address = ''::1'' then True
      else (case forwarded_parseIpv4Address address of None \<Rightarrow> False | Some ipv4 \<Rightarrow> drop_bit 24 ipv4 = 127))"

definition ipv4PeerMatchesCidr :: "string \<Rightarrow> string \<Rightarrow> bool" where
  "ipv4PeerMatchesCidr address cidr =
     (case split_char CHR ''/'' cidr of
        baseAddress # prefixText # _ \<Rightarrow>
          (let trimmedPrefix = js_trim prefixText in
           case (forwarded_parseIpv4Address address, forwarded_parseIpv4Address (js_trim baseAddress)) of
             (Some peer, Some base) \<Rightarrow>
               (if \<not> short_digits 2 trimmedPrefix \<or> digits_val trimmedPrefix > 32 then False
                else if digits_val trimmedPrefix = 0 then True
                else (let mask = push_bit (32 - digits_val trimmedPrefix) 0xffffffff in
                  (peer AND mask) = (base AND mask)))
           | _ \<Rightarrow> False)
      | _ \<Rightarrow> False)"

section \<open>Trust\<close>

definition readTrustedProxyPeerTokens :: "proxy_env \<Rightarrow> string list" where
  "readTrustedProxyPeerTokens env =
     (let raw = (case env_TRUSTED_PROXY_PEERS env of None \<Rightarrow> [] | Some v \<Rightarrow> js_trim v) in
      if raw = [] then [''loopback''] else filter (\<lambda>t. t \<noteq> []) (split_runs sep_or_comma raw))"

fun trusted_loop :: "(string \<Rightarrow> nat) \<Rightarrow> string \<Rightarrow> string list \<Rightarrow> bool" where
  "trusted_loop isIP peerAddress [] = False"
| "trusted_loop isIP peerAddress (token # tokens) =
     (let normalizedToken = js_lower (js_trim token) in
      if normalizedToken = [] then trusted_loop isIP peerAddress tokens
      else if normalizedToken = ''*'' then True
      else if normalizedToken = ''loopback'' \<and> isLoopbackPeerAddress peerAddress then True
      else if CHR ''/'' \<in> set normalizedToken then
        (if ipv4PeerMatchesCidr peerAddress normalizedToken then True
         else trusted_loop isIP peerAddress tokens)
      else if normalizePeerAddress isIP (Some normalizedToken) = Some peerAddress then True
      else trusted_loop isIP peerAddress tokens)"

definition isForwardedHeaderPeerTrusted :: "(string \<Rightarrow> nat) \<Rightarrow> proxy_env \<Rightarrow> string option \<Rightarrow> bool" where
  "isForwardedHeaderPeerTrusted isIP env peerAddress =
     (if \<not> isForwardedHeaderTrustEnabled env then False
      else (case normalizePeerAddress isIP peerAddress of
        None \<Rightarrow> False
      | Some peer \<Rightarrow> if peer = [] then False else trusted_loop isIP peer (readTrustedProxyPeerTokens env)))"

datatype forwarded_proto = HttpProto | HttpsProto

definition proto_name :: "forwarded_proto \<Rightarrow> string" where
  "proto_name p = (case p of HttpProto \<Rightarrow> ''http'' | HttpsProto \<Rightarrow> ''https'')"

definition readTrustedForwardedProto ::
  "(string \<Rightarrow> nat) \<Rightarrow> proxy_env \<Rightarrow> http_request \<Rightarrow> string option \<Rightarrow> forwarded_proto option" where
  "readTrustedForwardedProto isIP env request peerAddress =
     (if \<not> isForwardedHeaderPeerTrusted isIP env peerAddress then None
      else (case readFirstHeaderValue (rq_headers request ''x-forwarded-proto'') of
        None \<Rightarrow> None
      | Some v \<Rightarrow> (if js_lower v = ''http'' then Some HttpProto
                   else if js_lower v = ''https'' then Some HttpsProto else None)))"

text \<open>\<open>/^\[([^\]]+)\](?::\d+)?$/u\<close>: the bracketed text, and nothing after it but a port.\<close>

definition bracketed :: "string \<Rightarrow> string option" where
  "bracketed s =
     (case s of
        [] \<Rightarrow> None
      | c # cs \<Rightarrow>
          (let inner = takeWhile (\<lambda>x. x \<noteq> CHR '']'') cs; rest = drop (length inner) cs in
           if c \<noteq> CHR ''['' \<or> inner = [] then None
           else (case rest of
                   [] \<Rightarrow> None
                 | _ # port \<Rightarrow> (if port = [] \<or> (hd port = CHR '':'' \<and> all_digits (tl port)) then Some inner else None))))"

text \<open>\<open>/^(\d{1,3}(?:\.\d{1,3}){3}):\d+$/u\<close>.\<close>

definition quad_with_port :: "string \<Rightarrow> string option" where
  "quad_with_port s =
     (case split_char CHR '':'' s of
        [quad, port] \<Rightarrow> (if dotted_quad quad \<and> all_digits port then Some quad else None)
      | _ \<Rightarrow> None)"

definition normalizeForwardedPeerAddress :: "(string \<Rightarrow> nat) \<Rightarrow> string \<Rightarrow> string option" where
  "normalizeForwardedPeerAddress isIP val =
     (let trimmed = js_trim val in
      if trimmed = [] \<or> CHR '','' \<in> set trimmed then None
      else (case bracketed trimmed of
        Some inner \<Rightarrow> (if isIP inner \<noteq> 0 then Some (js_lower inner) else None)
      | None \<Rightarrow>
          (if isIP trimmed \<noteq> 0 then Some (js_lower trimmed)
           else (case quad_with_port trimmed of
              Some quad \<Rightarrow> (if isIP quad = 4 then Some quad else None)
            | None \<Rightarrow> None))))"

definition readTrustedForwardedForPeer ::
  "(string \<Rightarrow> nat) \<Rightarrow> proxy_env \<Rightarrow> http_request \<Rightarrow> string option \<Rightarrow> string option" where
  "readTrustedForwardedForPeer isIP env request peerAddress =
     (if \<not> isForwardedHeaderPeerTrusted isIP env peerAddress then None
      else (case readFirstHeaderValue (rq_headers request ''x-forwarded-for'') of
        None \<Rightarrow> None
      | Some firstForwardedFor \<Rightarrow>
          (case normalizeForwardedPeerAddress isIP firstForwardedFor of
             None \<Rightarrow> None
           | Some normalized \<Rightarrow> (if normalized = [] then None else Some (''forwarded:'' @ normalized)))))"

definition resolveTrustedForwardedOrigin ::
  "full_url_parser \<Rightarrow> (string \<Rightarrow> nat) \<Rightarrow> proxy_env \<Rightarrow> http_request \<Rightarrow> string option \<Rightarrow> string option" where
  "resolveTrustedForwardedOrigin parse isIP env request peerAddress =
     (if \<not> isForwardedHeaderPeerTrusted isIP env peerAddress then None
      else (case (readFirstHeaderValue (rq_headers request ''x-forwarded-host''),
                  readTrustedForwardedProto isIP env request peerAddress) of
        (Some forwardedHost, Some forwardedProto) \<Rightarrow>
          (case normalizeForwardedOrigin parse (proto_name forwardedProto @ ''://'' @ forwardedHost) of
             None \<Rightarrow> None
           | Some forwardedOrigin \<Rightarrow>
               (if forwardedOrigin = [] then None
                else if forwardedOrigin \<notin> readAllowedForwardedOrigins parse env then None
                else Some forwardedOrigin))
      | _ \<Rightarrow> None))"

text \<open>\<open>isSecureRequest\<close>; \<^const>\<open>None\<close> where \<open>new URL(request.url)\<close> throws.\<close>

definition isSecureRequest ::
  "full_url_parser \<Rightarrow> (string \<Rightarrow> nat) \<Rightarrow> proxy_env \<Rightarrow> http_request \<Rightarrow> string option \<Rightarrow> bool \<Rightarrow> bool option" where
  "isSecureRequest parse isIP env request peerAddress publicTls =
     (case readTrustedForwardedProto isIP env request peerAddress of
        Some HttpsProto \<Rightarrow> Some True
      | Some HttpProto \<Rightarrow> Some False
      | None \<Rightarrow> (if publicTls then Some True
                 else map_option (\<lambda>url. url_protocol url = ''https:'') (parse (rq_url request))))"

section \<open>Peer keys of the routes\<close>

text \<open>What \<open>requestIP\<close> reports: the family and the address, or nothing.\<close>

definition readRequestPeerAddress :: "(string \<times> string) option \<Rightarrow> string option" where
  "readRequestPeerAddress requestIP =
     (case requestIP of None \<Rightarrow> None
      | Some (family, address) \<Rightarrow> if js_trim address = [] then None else Some (js_trim address))"

section \<open>Facts\<close>

text \<open>The word of an address is its four octets in base 256.\<close>

lemma unat_shift_or:
  fixes w :: "32 word"
  assumes "unat w < 2 ^ 24" and "d < 256"
  shows "unat (push_bit 8 w OR of_nat d) = unat w * 256 + d"
proof -
  have d: "unat (of_nat d :: 32 word) = d" using assms(2) by (simp add: unat_of_nat take_bit_nat_def)
  have s: "unat (push_bit 8 w) = unat w * 256"
    using assms(1) by (simp only: unsigned_push_bit_eq) (simp add: take_bit_nat_def push_bit_eq_mult)
  have "push_bit 8 w AND (of_nat d :: 32 word) = 0"
  proof (rule bit_word_eqI)
    fix i assume "i < LENGTH(32)"
    have "\<not> bit d i" if "8 \<le> i"
    proof -
      have "d < 2 ^ i" using assms(2) power_increasing [OF that, of "2 :: nat"] by simp
      then show ?thesis by (simp add: bit_iff_odd)
    qed
    then show "bit (push_bit 8 w AND (of_nat d :: 32 word)) i \<longleftrightarrow> bit (0 :: 32 word) i"
      by (auto simp: bit_simps)
  qed
  then have "push_bit 8 w OR of_nat d = push_bit 8 w + of_nat d"
    by (simp add: disjunctive_add_eq_or)
  also have "unat (push_bit 8 w + of_nat d :: 32 word) = unat w * 256 + d"
    using assms d s by (subst unat_add_lem [THEN iffD1]) simp_all
  finally show ?thesis .
qed


definition quad_value :: "nat list \<Rightarrow> nat" where
  "quad_value os = foldl (\<lambda>v d. v * 256 + d) 0 os"

lemma octets_loop_value:
  assumes "octets_loop parts w = Some r" and "unat w < 256 ^ (4 - length parts)" and "length parts \<le> 4"
  shows "unat r = foldl (\<lambda>v d. v * 256 + d) (unat w) (map digits_val parts) \<and>
    list_all (\<lambda>p. short_digits 3 p \<and> digits_val p \<le> 255) parts"
  using assms
proof (induction parts arbitrary: w)
  case (Cons p parts)
  have p: "short_digits 3 p" "digits_val p \<le> 255" and r: "octets_loop parts (push_bit 8 w OR of_nat (digits_val p)) = Some r"
    using Cons.prems(1) by (simp_all add: Let_def split: if_split_asm)
  have "(256 :: nat) ^ (4 - length (p # parts)) \<le> 256 ^ 3" by (rule power_increasing) simp_all
  then have "unat w < 2 ^ 24" using Cons.prems(2) by simp
  then have u: "unat (push_bit 8 w OR of_nat (digits_val p)) = unat w * 256 + digits_val p"
    using p(2) by (intro unat_shift_or) simp_all
  have "unat w * 256 + digits_val p < 256 ^ (4 - length parts)"
  proof -
    have "4 - length parts = Suc (4 - length (p # parts))" using Cons.prems(3) by simp
    then show ?thesis using Cons.prems(2) p(2) by simp
  qed
  then have "unat r = foldl (\<lambda>v d. v * 256 + d) (unat w * 256 + digits_val p) (map digits_val parts) \<and>
      list_all (\<lambda>p. short_digits 3 p \<and> digits_val p \<le> 255) parts"
    using Cons.IH [OF r] Cons.prems(3) unfolding u by simp
  then show ?case using p by simp
qed simp

lemma octets_loop_accepts:
  "list_all (\<lambda>p. short_digits 3 p \<and> digits_val p \<le> 255) parts \<Longrightarrow> \<exists>r. octets_loop parts w = Some r"
  by (induction parts arbitrary: w) (auto simp: Let_def)

lemma parse_quad:
  "(\<exists>w. forwarded_parseIpv4Address text = Some w \<and> unat w = v) \<longleftrightarrow>
     length (split_char CHR ''.'' text) = 4 \<and>
     list_all (\<lambda>p. short_digits 3 p \<and> digits_val p \<le> 255) (split_char CHR ''.'' text) \<and>
     v = quad_value (map digits_val (split_char CHR ''.'' text))"
proof (cases "length (split_char CHR ''.'' text) = 4")
  case True
  have fwd: "unat w = quad_value (map digits_val (split_char CHR ''.'' text)) \<and>
      list_all (\<lambda>p. short_digits 3 p \<and> digits_val p \<le> 255) (split_char CHR ''.'' text)"
    if "octets_loop (split_char CHR ''.'' text) 0 = Some w" for w
    using octets_loop_value [OF that] True by (simp add: quad_value_def)
  then show ?thesis using octets_loop_accepts [of "split_char CHR ''.'' text" 0] True
    by (auto simp: forwarded_parseIpv4Address_def)
qed (simp add: forwarded_parseIpv4Address_def)

text \<open>Masking off the low bits is division.\<close>

lemma mask_equal:
  fixes p b :: "32 word"
  assumes "n \<le> 32"
  shows "(p AND push_bit (32 - n) 0xffffffff) = (b AND push_bit (32 - n) 0xffffffff) \<longleftrightarrow>
    unat p div 2 ^ (32 - n) = unat b div 2 ^ (32 - n)"
proof -
  have ones: "(0xffffffff :: 32 word) = -1" by simp
  have bits: "bit (w AND push_bit (32 - n) 0xffffffff) i \<longleftrightarrow> 32 - n \<le> i \<and> bit w i" if "i < 32" for w :: "32 word" and i
    using that by (simp only: ones) (auto simp: bit_simps)
  have "(p AND push_bit (32 - n) 0xffffffff) = (b AND push_bit (32 - n) 0xffffffff) \<longleftrightarrow>
      (\<forall>i < 32. 32 - n \<le> i \<longrightarrow> bit p i = bit b i)" (is "?l = ?r")
  proof
    assume e: ?l
    show ?r
    proof (intro allI impI)
      fix i :: nat assume "i < 32" "32 - n \<le> i"
      then show "bit p i = bit b i" using bits [of i p] bits [of i b] e by simp
    qed
  next
    assume r: ?r
    show ?l
    proof (rule bit_word_eqI)
      fix i assume "i < LENGTH(32)"
      then have i: "i < 32" by simp
      show "bit (p AND push_bit (32 - n) 0xffffffff) i \<longleftrightarrow> bit (b AND push_bit (32 - n) 0xffffffff) i"
        unfolding bits [OF i] using r i by blast
    qed
  qed
  also have "\<dots> \<longleftrightarrow> drop_bit (32 - n) p = drop_bit (32 - n) b" (is "?l = ?r")
  proof
    assume l: ?l
    show ?r
    proof (rule bit_word_eqI)
      fix i assume "i < LENGTH(32)"
      show "bit (drop_bit (32 - n) p) i \<longleftrightarrow> bit (drop_bit (32 - n) b) i"
        using l [rule_format, of "32 - n + i"] bit_imp_le_length [of p "32 - n + i"] bit_imp_le_length [of b "32 - n + i"]
        by (auto simp: bit_simps)
    qed
  next
    assume r: ?r
    show ?l
    proof (intro allI impI)
      fix i :: nat assume "i < 32" "32 - n \<le> i"
      moreover have "bit (drop_bit (32 - n) p) (i - (32 - n)) = bit (drop_bit (32 - n) b) (i - (32 - n))" using r by simp
      ultimately show "bit p i = bit b i" by (simp add: bit_simps)
    qed
  qed
  also have "\<dots> \<longleftrightarrow> unat (drop_bit (32 - n) p) = unat (drop_bit (32 - n) b)"
    by (rule word_unat_eq_iff)
  also have "\<dots> \<longleftrightarrow> unat p div 2 ^ (32 - n) = unat b div 2 ^ (32 - n)"
    unfolding unat_drop_bit_eq unfolding drop_bit_eq_div ..
  finally show ?thesis .
qed

text \<open>Whether a token of the configuration covers a normalised peer address.\<close>

definition token_covers :: "(string \<Rightarrow> nat) \<Rightarrow> string \<Rightarrow> string \<Rightarrow> bool" where
  "token_covers isIP peer token =
     (let t = js_lower (js_trim token) in
      t = ''*'' \<or> (t = ''loopback'' \<and> isLoopbackPeerAddress peer) \<or>
      (if CHR ''/'' \<in> set t then ipv4PeerMatchesCidr peer t
       else t \<noteq> [] \<and> normalizePeerAddress isIP (Some t) = Some peer))"

lemma trusted_loop_covers: "trusted_loop isIP peer tokens \<longleftrightarrow> (\<exists>t \<in> set tokens. token_covers isIP peer t)"
proof (induction tokens)
  case (Cons t tokens)
  then show ?case
    by (cases "js_lower (js_trim t) = []"; cases "js_lower (js_trim t) = ''*''";
        cases "js_lower (js_trim t) = ''loopback''"; cases "CHR ''/'' \<in> set (js_lower (js_trim t))")
      (simp_all add: token_covers_def Let_def)
qed simp

lemma normalized_peer:
  assumes "normalizePeerAddress isIP v = Some peer"
  shows "\<exists>a. isIP a \<noteq> 0 \<and> peer = js_lower a"
  using assms by (auto simp: normalizePeerAddress_def Let_def split: option.splits if_split_asm)

lemma digit_lower: "is_digit c \<Longrightarrow> js_lower_char c = c"
  by (auto simp: is_digit_def js_lower_char_def Let_def)

lemma dotted_quad_lower:
  assumes "dotted_quad s" shows "js_lower s = s"
proof -
  have "js_lower_char c = c" if "c \<in> set (js_join ''.'' (split_char CHR ''.'' s))" for c
  proof -
    have join: "set (js_join sep xs) \<subseteq> set sep \<union> \<Union> (set ` set xs)" for sep :: string and xs
      by (induction xs rule: js_join.induct [of _ sep]) auto
    have "is_digit c \<or> c = CHR ''.''"
      using that join [of "''.''" "split_char CHR ''.'' s"] assms
      by (fastforce simp: dotted_quad_def short_digits_def list_all_iff)
    then show ?thesis using digit_lower by (auto simp: js_lower_char_def)
  qed
  then have "js_lower (js_join ''.'' (split_char CHR ''.'' s)) = js_join ''.'' (split_char CHR ''.'' s)"
    by (simp add: js_lower_def map_idI)
  then show ?thesis by (simp add: join_split)
qed

lemma forwarded_peer_literal:
  assumes "normalizeForwardedPeerAddress isIP v = Some a"
  shows "\<exists>b. isIP b \<noteq> 0 \<and> a = js_lower b"
proof -
  let ?t = "js_trim v"
  consider inner where "bracketed ?t = Some inner" "isIP inner \<noteq> 0" "a = js_lower inner"
    | "isIP ?t \<noteq> 0" "a = js_lower ?t"
    | quad where "quad_with_port ?t = Some quad" "isIP quad = 4" "a = quad"
    using assms by (auto simp: normalizeForwardedPeerAddress_def Let_def split: option.splits if_split_asm)
  then show ?thesis
  proof cases
    case 3
    then have "dotted_quad quad" by (auto simp: quad_with_port_def split: list.splits if_split_asm)
    then have "isIP quad \<noteq> 0 \<and> a = js_lower quad" using 3 dotted_quad_lower by simp
    then show ?thesis by blast
  qed blast+
qed

lemma bare_origin_facts:
  assumes "bare_origin parse text = Some x"
  shows "\<exists>url. parse text = Some url \<and> url_origin url = x \<and> (url_protocol url = ''http:'' \<or> url_protocol url = ''https:'') \<and>
    \<not> has_credentials (js_url.truncate url) \<and> url_pathname url = ''/'' \<and> url_search url = [] \<and> url_hash url = []"
  using assms by (auto simp: bare_origin_def split: option.splits if_split_asm)

section \<open>Dotted texts\<close>

definition dotted :: "nat list \<Rightarrow> string" where
  "dotted os = js_join ''.'' (map show_nat os)"

lemma short_show: "n < 100 \<Longrightarrow> length (show_nat n) \<le> 2" "n < 1000 \<Longrightarrow> length (show_nat n) \<le> 3"
proof -
  have one: "m < 10 \<Longrightarrow> length (show_nat m) = 1" for m by (simp add: show_nat.simps [of m])
  have two: "m < 100 \<Longrightarrow> length (show_nat m) \<le> 2" for m
    using one [of m] one [of "m div 10"] by (cases "m < 10") (simp_all add: show_nat.simps [of m])
  show "n < 100 \<Longrightarrow> length (show_nat n) \<le> 2" by (rule two)
  show "n < 1000 \<Longrightarrow> length (show_nat n) \<le> 3"
    using one [of n] two [of "n div 10"] by (cases "n < 10") (simp_all add: show_nat.simps [of n])
qed

lemma split_quad_text:
  assumes "os \<noteq> []" shows "split_char CHR ''.'' (dotted os) = map show_nat os"
  unfolding dotted_def using assms by (intro split_join) (auto simp: show_nat_no_char)

lemma parse_dotted:
  assumes "length os = 4" and "list_all (\<lambda>d. d < 256) os"
  shows "\<exists>w. forwarded_parseIpv4Address (dotted os) = Some w \<and> unat w = quad_value os"
proof -
  have "os \<noteq> []" using assms(1) by auto
  have "short_digits 3 (show_nat d) \<and> digits_val (show_nat d) \<le> 255" if "d < 256" for d
    using that short_show(2) [of d] by (simp add: short_digits_def)
  then have "list_all (\<lambda>p. short_digits 3 p \<and> digits_val p \<le> 255) (map show_nat os)"
    using assms(2) by (auto simp: list_all_iff)
  then show ?thesis
    unfolding parse_quad split_quad_text [OF \<open>os \<noteq> []\<close>] using assms(1) by (simp add: comp_def)
qed

lemma dotted_chars: "c \<in> set (dotted os) \<Longrightarrow> is_digit c \<or> c = CHR ''.''"
proof (induction os)
  case (Cons d os)
  have "dotted (d # os) = show_nat d @ (if os = [] then [] else CHR ''.'' # dotted os)"
    by (cases os) (simp_all add: dotted_def)
  then show ?case using Cons show_nat_mem_digit by (auto split: if_split_asm)
qed (simp add: dotted_def)

lemma trim_digits_dots:
  assumes "\<And>c. c \<in> set s \<Longrightarrow> is_digit c \<or> c = CHR ''.''" shows "js_trim s = s"
proof -
  have "\<not> js_ws c" if "c \<in> set s" for c using assms [OF that] digit_not_ws by (auto simp: js_ws_def)
  then show ?thesis by (intro js_trim_id) auto
qed

section \<open>Properties\<close>

text \<open>
  C35. A CIDR token covers exactly the addresses of its block: those that agree with its base address
  in the leading \<open>n\<close> of the 32 bits, for every \<open>n\<close> from 0 to 32.
\<close>

theorem forwarded_cidr_block:
  assumes "length peer = 4" and "list_all (\<lambda>d. d < 256) peer"
    and "length base = 4" and "list_all (\<lambda>d. d < 256) base" and "n \<le> 32"
  shows "ipv4PeerMatchesCidr (dotted peer) (dotted base @ ''/'' @ show_nat n) \<longleftrightarrow>
    quad_value peer div 2 ^ (32 - n) = quad_value base div 2 ^ (32 - n)"
proof -
  obtain p where p: "forwarded_parseIpv4Address (dotted peer) = Some p" "unat p = quad_value peer"
    using parse_dotted [OF assms(1,2)] by blast
  obtain b where b: "forwarded_parseIpv4Address (dotted base) = Some b" "unat b = quad_value base"
    using parse_dotted [OF assms(3,4)] by blast
  have "CHR ''/'' \<notin> set (dotted base)" using dotted_chars [of "CHR ''/''" base] by (auto simp: is_digit_def)
  moreover have "CHR ''/'' \<notin> set (show_nat n)" by (rule show_nat_no_char) (simp add: is_digit_def)
  ultimately have split: "split_char CHR ''/'' (dotted base @ ''/'' @ show_nat n) = [dotted base, show_nat n]"
    by (simp add: split_char_append_sep split_char_no_sep)
  have trims: "js_trim (dotted base) = dotted base" "js_trim (show_nat n) = show_nat n"
    by (rule trim_digits_dots, use dotted_chars in blast)
      (rule trim_digits_dots, use show_nat_mem_digit in blast)
  have "short_digits 2 (show_nat n)" using short_show(1) [of n] assms(5) by (simp add: short_digits_def)
  then have "ipv4PeerMatchesCidr (dotted peer) (dotted base @ ''/'' @ show_nat n) \<longleftrightarrow>
      n = 0 \<or> (p AND push_bit (32 - n) 0xffffffff) = (b AND push_bit (32 - n) 0xffffffff)"
    using assms(5) unfolding ipv4PeerMatchesCidr_def split by (simp add: trims p b Let_def)
  also have "\<dots> \<longleftrightarrow> quad_value peer div 2 ^ (32 - n) = quad_value base div 2 ^ (32 - n)"
  proof (cases "n = 0")
    case True
    have "unat w < 2 ^ LENGTH(32)" for w :: "32 word" by (rule unsigned_less)
    from this [of p] this [of b] show ?thesis using p(2) b(2) True by simp
  next
    case False
    then show ?thesis using mask_equal [OF assms(5), of p b] unfolding p(2) b(2) by blast
  qed
  finally show ?thesis .
qed

text \<open>
  A peer is trusted exactly when trust is switched on, its address is an IP literal (a mapped
  IPv4 address counting as the IPv4 address), and some configured token covers it: the asterisk,
  the word loopback, a CIDR block or the address itself; without configuration, loopback.
\<close>

theorem forwarded_trust_exact:
  "isForwardedHeaderPeerTrusted isIP env peerAddress \<longleftrightarrow>
     isForwardedHeaderTrustEnabled env \<and>
     (\<exists>peer. normalizePeerAddress isIP peerAddress = Some peer \<and> peer \<noteq> [] \<and>
        (\<exists>token \<in> set (readTrustedProxyPeerTokens env). token_covers isIP peer token))"
  by (cases "normalizePeerAddress isIP peerAddress")
    (simp_all add: isForwardedHeaderPeerTrusted_def trusted_loop_covers)

text \<open>
  The origin resolved from the forwarded headers of a request was sent by a trusted peer, is the
  bare origin of an http or https URL, and is the origin of an entry of the configuration.
\<close>

theorem forwarded_origin_confined:
  assumes "resolveTrustedForwardedOrigin parse isIP env request peerAddress = Some x"
  shows "isForwardedHeaderPeerTrusted isIP env peerAddress \<and>
    (\<exists>text url. parse text = Some url \<and> url_origin url = x \<and> \<not> has_credentials (js_url.truncate url) \<and>
       url_pathname url = ''/'' \<and> (url_protocol url = ''http:'' \<or> url_protocol url = ''https:'')) \<and>
    (\<exists>val entry. (env_PUBLIC_ORIGIN env = Some val \<or> env_ALLOWED_FORWARDED_ORIGINS env = Some val) \<and>
       entry \<in> set (split_runs sep_or_comma val) \<and> normalizeForwardedOrigin parse entry = Some x)"
proof -
  have t: "isForwardedHeaderPeerTrusted isIP env peerAddress"
    and allowed: "x \<in> readAllowedForwardedOrigins parse env"
    using assms by (auto simp: resolveTrustedForwardedOrigin_def split: if_split_asm option.splits)
  have "\<exists>entry val. normalizeForwardedOrigin parse entry = Some x \<and> entry \<in> set (split_runs sep_or_comma val) \<and>
      (env_PUBLIC_ORIGIN env = Some val \<or> env_ALLOWED_FORWARDED_ORIGINS env = Some val)"
    using allowed unfolding readAllowedForwardedOrigins_def
    by (auto simp: List.map_filter_def comp_def) metis+
  then obtain entry val where e: "normalizeForwardedOrigin parse entry = Some x"
    and v: "entry \<in> set (split_runs sep_or_comma val)"
      "env_PUBLIC_ORIGIN env = Some val \<or> env_ALLOWED_FORWARDED_ORIGINS env = Some val"
    by blast
  have "\<exists>url. parse (js_trim entry) = Some url \<and> url_origin url = x \<and> \<not> has_credentials (js_url.truncate url) \<and>
      url_pathname url = ''/'' \<and> (url_protocol url = ''http:'' \<or> url_protocol url = ''https:'')"
    using bare_origin_facts [of parse "js_trim entry"] e unfolding normalizeForwardedOrigin_def by blast
  then show ?thesis using t e v by blast
qed

text \<open>
  The key of a forwarded peer is the first entry of the header. Behind a proxy that appends the
  address it saw, the first entry is the one the client wrote.
\<close>

theorem forwarded_key_client_chosen:
  assumes "isForwardedHeaderPeerTrusted isIP env peerAddress" and "isIP chosen \<noteq> 0"
    and "js_trim chosen = chosen" and "chosen \<noteq> []" and "CHR '','' \<notin> set chosen" and "CHR ''['' \<noteq> hd chosen"
    and "rq_headers request ''x-forwarded-for'' = Some (chosen @ '', '' @ seen)"
  shows "readTrustedForwardedForPeer isIP env request peerAddress = Some (''forwarded:'' @ js_lower chosen)"
proof -
  have "readFirstHeaderValue (Some (chosen @ '', '' @ seen)) = Some chosen"
    using split_char_append_sep [OF assms(5), of "CHR '' '' # seen"] assms(3,4) by (simp add: readFirstHeaderValue_def)
  moreover have "bracketed chosen = None" using assms(4,6) by (cases chosen) (auto simp: bracketed_def Let_def)
  ultimately show ?thesis using assms
    by (simp add: readTrustedForwardedForPeer_def normalizeForwardedPeerAddress_def js_lower_def)
qed

section \<open>Witnesses\<close>

definition demo_url :: full_url where
  "demo_url = \<lparr> url_protocol = ''https:'', url_username = [], url_password = [], url_hostname = ''app.test'',
     url_port = [], url_pathname = ''/'', url_href = ''https://app.test/'', url_search = [], url_hash = [],
     url_origin = ''https://app.test'' \<rparr>"

definition demo_full_parse :: full_url_parser where
  "demo_full_parse text = (if text = ''https://app.test'' then Some demo_url else None)"

definition demo_isIP :: "string \<Rightarrow> nat" where
  "demo_isIP s = (if s = ''127.0.0.1'' \<or> s = ''9.9.9.9'' then 4 else 0)"

definition demo_env :: proxy_env where
  "demo_env = \<lparr> env_TRUST_PROXY = Some ''true'', env_PUBLIC_ORIGIN = Some ''https://app.test'',
     env_ALLOWED_FORWARDED_ORIGINS = None, env_TRUSTED_PROXY_PEERS = None \<rparr>"

definition demo_proxied :: http_request where
  "demo_proxied = \<lparr> rq_headers = (\<lambda>n. if n = ''x-forwarded-for'' then Some ''9.9.9.9, 8.8.8.8''
     else if n = ''x-forwarded-proto'' then Some ''https'' else if n = ''x-forwarded-host'' then Some ''app.test''
     else None), rq_url = ''http://127.0.0.1/'' \<rparr>"

lemma demo_trims:
  "js_trim ''127.0.0.1'' = ''127.0.0.1''" "js_trim ''true'' = ''true''" "js_lower ''true'' = ''true''"
  "js_trim ''loopback'' = ''loopback''" "js_lower ''loopback'' = ''loopback''" "js_lower ''127.0.0.1'' = ''127.0.0.1''"
  "js_trim ''app.test'' = ''app.test''" "js_trim ''https'' = ''https''" "js_lower ''https'' = ''https''"
  "js_trim ''https://app.test'' = ''https://app.test''" "js_trim ''9.9.9.9'' = ''9.9.9.9''"
  "js_lower ''9.9.9.9'' = ''9.9.9.9''"
  by (simp_all add: js_trim_def js_ws_def js_lower_def js_lower_char_def)

lemma demo_trusted: "isForwardedHeaderPeerTrusted demo_isIP demo_env (Some ''127.0.0.1'')"
proof -
  have d: "''127.0.0.1'' = dotted [127, 0, 0, 1]"
    by (simp add: dotted_def show_nat.simps digit_char_def char_of_def bit_simps)
  obtain w where w: "forwarded_parseIpv4Address ''127.0.0.1'' = Some w" "unat w = quad_value [127, 0, 0, 1]"
    using parse_dotted [of "[127, 0, 0, 1]"] unfolding d [symmetric] by auto
  have "unat (drop_bit 24 w) = 127" unfolding unat_drop_bit_eq w(2) by (simp add: drop_bit_eq_div quad_value_def)
  moreover have "unat (127 :: 32 word) = 127" by simp
  ultimately have "drop_bit 24 w = (127 :: 32 word)" by (metis word_unat_eq_iff)
  then have "isLoopbackPeerAddress ''127.0.0.1''" by (simp add: isLoopbackPeerAddress_def w(1))
  then have "token_covers demo_isIP ''127.0.0.1'' ''loopback''" by (simp add: token_covers_def demo_trims)
  moreover have "normalizePeerAddress demo_isIP (Some ''127.0.0.1'') = Some ''127.0.0.1''"
    by (simp add: normalizePeerAddress_def demo_trims starts_with_def demo_isIP_def)
  moreover have "isForwardedHeaderTrustEnabled demo_env" "readTrustedProxyPeerTokens demo_env = [''loopback'']"
    by (simp_all add: isForwardedHeaderTrustEnabled_def readTrustedProxyPeerTokens_def demo_env_def demo_trims)
  ultimately show ?thesis by (simp add: isForwardedHeaderPeerTrusted_def trusted_loop_covers)
qed

theorem forwarded_cidr_block_witness:
  "ipv4PeerMatchesCidr (dotted [10, 1, 2, 3]) (dotted [10, 0, 0, 0] @ ''/'' @ show_nat 8) \<and>
   \<not> ipv4PeerMatchesCidr (dotted [10, 1, 2, 3]) (dotted [10, 0, 0, 0] @ ''/'' @ show_nat 16)"
  using forwarded_cidr_block [of "[10, 1, 2, 3]" "[10, 0, 0, 0]" 8]
    forwarded_cidr_block [of "[10, 1, 2, 3]" "[10, 0, 0, 0]" 16]
  by (simp add: quad_value_def)

theorem forwarded_origin_confined_witness:
  "resolveTrustedForwardedOrigin demo_full_parse demo_isIP demo_env demo_proxied (Some ''127.0.0.1'') =
     Some ''https://app.test'' \<and>
   (\<exists>val entry. (env_PUBLIC_ORIGIN demo_env = Some val \<or> env_ALLOWED_FORWARDED_ORIGINS demo_env = Some val) \<and>
      entry \<in> set (split_runs sep_or_comma val))"
proof -
  have o: "normalizeForwardedOrigin demo_full_parse ''https://app.test'' = Some ''https://app.test''"
    by (simp add: normalizeForwardedOrigin_def bare_origin_def demo_trims demo_full_parse_def demo_url_def
        has_credentials_def js_url.defs)
  have split: "split_runs sep_or_comma ''https://app.test'' = [''https://app.test'']"
    by (simp add: sep_or_comma_def js_ws_def)
  have allowed: "''https://app.test'' \<in> readAllowedForwardedOrigins demo_full_parse demo_env"
    using o split by (simp add: readAllowedForwardedOrigins_def demo_env_def List.map_filter_def)
  have first: "readFirstHeaderValue (Some ''app.test'') = Some ''app.test''"
    "readFirstHeaderValue (Some ''https'') = Some ''https''"
    by (simp_all add: readFirstHeaderValue_def demo_trims)
  have r: "resolveTrustedForwardedOrigin demo_full_parse demo_isIP demo_env demo_proxied (Some ''127.0.0.1'') =
      Some ''https://app.test''"
    using o allowed by (simp add: resolveTrustedForwardedOrigin_def demo_trusted readTrustedForwardedProto_def
        demo_proxied_def first demo_trims proto_name_def)
  show ?thesis using forwarded_origin_confined [OF r] r by blast
qed

theorem forwarded_key_client_chosen_witness:
  "readTrustedForwardedForPeer demo_isIP demo_env demo_proxied (Some ''127.0.0.1'') = Some ''forwarded:9.9.9.9''"
proof -
  have "readTrustedForwardedForPeer demo_isIP demo_env demo_proxied (Some ''127.0.0.1'') =
      Some (''forwarded:'' @ js_lower ''9.9.9.9'')"
    by (rule forwarded_key_client_chosen [where seen = "''8.8.8.8''"])
      (simp_all add: demo_trusted demo_isIP_def demo_trims demo_proxied_def)
  then show ?thesis by (simp add: demo_trims)
qed

end
