(* ===== verification/Http_Security.thy ===== *)
theory Http_Security
  imports Auth_Attempt Auth_Cookies Http_Forwarded
begin

text \<open>
  Origin, CSRF and header policy of the HTTP server: \<^verbatim>\<open>src/bun/auth/http-security.ts\<close>,
  \<^verbatim>\<open>src/bun/server-security.ts\<close> and the places of \<^verbatim>\<open>src/bun/index.ts\<close> that put them together.
  Parameters: the URL parser, \<open>isIP\<close>, the environment and SHA-256 (\<open>sha\<close>). The main results: exactly which
  authentication posts pass and with which of the request's, proxy's and configured origins; exactly which
  browser origins may open a WebSocket; the Content Security Policy has a fixed list of directives.
\<close>

section \<open>Authentication requests\<close>

definition AUTH_CSRF_HEADER_NAME :: string where "AUTH_CSRF_HEADER_NAME = ''x-metidos-csrf-token''"

record origin_options =
  oo_allowedOrigins :: "string list option"
  oo_expectedOrigin :: "string option"
  oo_requireOrigin :: bool

datatype request_failure =
    RequestValidationError (failure_message: string) (failure_code: string) (failure_status: nat)
  | InvalidUrlError

definition timingSafeTextDigestEqual :: "(string \<Rightarrow> 'd) \<Rightarrow> string \<Rightarrow> string \<Rightarrow> bool" where
  "timingSafeTextDigestEqual sha left right = (sha left = sha right)"

definition normalizeAuthRouteOrigin :: "full_url_parser \<Rightarrow> string \<Rightarrow> string option" where
  "normalizeAuthRouteOrigin parse origin =
     (case parse origin of
        None \<Rightarrow> None
      | Some url \<Rightarrow>
          (if url_protocol url \<noteq> ''http:'' \<and> url_protocol url \<noteq> ''https:'' then None
           else if has_credentials (js_url.truncate url) then None
           else if url_pathname url \<noteq> ''/'' \<or> url_search url \<noteq> [] \<or> url_hash url \<noteq> [] then None
           else Some (url_origin url)))"

text \<open>The proxy is asked without a peer address here.\<close>

definition resolveExpectedAuthRouteOrigin ::
  "full_url_parser \<Rightarrow> (string \<Rightarrow> nat) \<Rightarrow> proxy_env \<Rightarrow> http_request \<Rightarrow> origin_options \<Rightarrow>
     request_failure + string option" where
  "resolveExpectedAuthRouteOrigin parse isIP env request options =
     (case oo_expectedOrigin options of
        Some expected \<Rightarrow> Inr (normalizeAuthRouteOrigin parse expected)
      | None \<Rightarrow>
          (let trustedForwardedOrigin = resolveTrustedForwardedOrigin parse isIP env request None in
           if truthy trustedForwardedOrigin
           then Inr (normalizeAuthRouteOrigin parse (nullish trustedForwardedOrigin []))
           else (case parse (rq_url request) of
              None \<Rightarrow> Inl InvalidUrlError
            | Some url \<Rightarrow> Inr (normalizeAuthRouteOrigin parse (url_origin url)))))"

definition isAuthRouteOriginAllowedByConfig :: "full_url_parser \<Rightarrow> string \<Rightarrow> string list option \<Rightarrow> bool" where
  "isAuthRouteOriginAllowedByConfig parse normalizedOrigin allowedOrigins =
     (case allowedOrigins of None \<Rightarrow> False
      | Some origins \<Rightarrow> list_ex (\<lambda>origin. normalizeAuthRouteOrigin parse origin = Some normalizedOrigin) origins)"

definition requireJsonAuthRequest :: "http_request \<Rightarrow> request_failure + unit" where
  "requireJsonAuthRequest request =
     (let contentType = map_option (\<lambda>v. js_lower (js_trim (hd (split_char CHR '';'' v))))
            (rq_headers request ''content-type'') in
      if contentType \<noteq> Some ''application/json''
      then Inl (RequestValidationError
        (''Auth requests must use '' @ [CHR 0x22] @ ''Content-Type: application/json'' @ [CHR 0x22] @ ''.'')
        ''invalid_content_type'' 415)
      else Inr ())"

definition enforceAuthCsrfToken :: "(string \<Rightarrow> 'd) \<Rightarrow> http_request \<Rightarrow> request_failure + unit" where
  "enforceAuthCsrfToken sha request =
     (let cookieToken = readAuthCsrfCookie (rq_headers request ''cookie'');
          headerToken = (case rq_headers request AUTH_CSRF_HEADER_NAME of None \<Rightarrow> [] | Some v \<Rightarrow> js_trim v) in
      if \<not> truthy cookieToken \<or> headerToken = [] \<or>
         \<not> timingSafeTextDigestEqual sha (nullish cookieToken []) headerToken
      then Inl (RequestValidationError ''Auth CSRF token is invalid or missing.'' ''csrf_token_invalid'' 403)
      else Inr ())"

definition origin_not_allowed :: "string \<Rightarrow> request_failure + 'a" where
  "origin_not_allowed message = Inl (RequestValidationError message ''origin_not_allowed'' 403)"

definition lower_header :: "http_request \<Rightarrow> string \<Rightarrow> string option" where
  "lower_header request name = map_option (\<lambda>v. js_lower (js_trim v)) (rq_headers request name)"

definition enforceAuthOriginSecurity ::
  "full_url_parser \<Rightarrow> (string \<Rightarrow> nat) \<Rightarrow> proxy_env \<Rightarrow> http_request \<Rightarrow> origin_options \<Rightarrow> request_failure + unit" where
  "enforceAuthOriginSecurity parse isIP env request options =
     (let fetchSite = lower_header request ''sec-fetch-site'';
          fetchMode = lower_header request ''sec-fetch-mode'';
          originHeader = rq_headers request ''origin'' in
      if fetchSite = Some ''cross-site'' then origin_not_allowed ''Cross-site auth requests are not allowed.''
      else if truthy fetchMode \<and> fetchMode \<noteq> Some ''cors'' \<and> fetchMode \<noteq> Some ''same-origin''
      then origin_not_allowed ''Auth requests must use a same-origin or CORS fetch mode.''
      else if \<not> truthy originHeader then
        (if oo_requireOrigin options \<and> \<not> truthy fetchSite
         then Inl (RequestValidationError ''Auth request origin is required when fetch metadata is missing.''
           ''origin_required'' 403)
         else Inr ())
      else (let normalizedOrigin = normalizeAuthRouteOrigin parse (js_trim (nullish originHeader [])) in
        try_then (resolveExpectedAuthRouteOrigin parse isIP env request options) (\<lambda>expectedOrigin.
          if \<not> truthy normalizedOrigin \<or>
             ((\<not> truthy expectedOrigin \<or> normalizedOrigin \<noteq> expectedOrigin) \<and>
              \<not> isAuthRouteOriginAllowedByConfig parse (nullish normalizedOrigin []) (oo_allowedOrigins options))
          then origin_not_allowed ''Auth request origin not allowed.''
          else Inr ())))"

definition enforceAuthMutationRequestSecurity ::
  "full_url_parser \<Rightarrow> (string \<Rightarrow> nat) \<Rightarrow> proxy_env \<Rightarrow> (string \<Rightarrow> 'd) \<Rightarrow> http_request \<Rightarrow> origin_options \<Rightarrow>
     request_failure + unit" where
  "enforceAuthMutationRequestSecurity parse isIP env sha request options =
     try_then (requireJsonAuthRequest request) (\<lambda>_.
     try_then (enforceAuthOriginSecurity parse isIP env request (options\<lparr> oo_requireOrigin := True \<rparr>)) (\<lambda>_.
       enforceAuthCsrfToken sha request))"

definition enforceAuthReadRequestSecurity ::
  "full_url_parser \<Rightarrow> (string \<Rightarrow> nat) \<Rightarrow> proxy_env \<Rightarrow> http_request \<Rightarrow> origin_options \<Rightarrow> request_failure + unit" where
  "enforceAuthReadRequestSecurity parse isIP env request options =
     enforceAuthOriginSecurity parse isIP env request options"

section \<open>The routes\<close>

text \<open>What \<open>handleAuthRequestForTest\<close> requires of a POST to an authentication route.\<close>

definition auth_route_options ::
  "full_url_parser \<Rightarrow> (string \<Rightarrow> nat) \<Rightarrow> proxy_env \<Rightarrow> http_request \<Rightarrow> (string \<times> string) option \<Rightarrow>
     string list option \<Rightarrow> origin_options" where
  "auth_route_options parse isIP env request requestIP allowedOrigins =
     \<lparr> oo_allowedOrigins = allowedOrigins,
       oo_expectedOrigin = resolveTrustedForwardedOrigin parse isIP env request (readRequestPeerAddress requestIP),
       oo_requireOrigin = False \<rparr>"

definition authorizeAuthPost ::
  "full_url_parser \<Rightarrow> (string \<Rightarrow> nat) \<Rightarrow> proxy_env \<Rightarrow> (string \<Rightarrow> 'd) \<Rightarrow> http_request \<Rightarrow>
     (string \<times> string) option \<Rightarrow> string list option \<Rightarrow> request_failure + unit" where
  "authorizeAuthPost parse isIP env sha request requestIP allowedOrigins =
     enforceAuthMutationRequestSecurity parse isIP env sha request
       (auth_route_options parse isIP env request requestIP allowedOrigins)"

definition resolvePublicRoutePeerKey ::
  "(string \<Rightarrow> nat) \<Rightarrow> proxy_env \<Rightarrow> http_request \<Rightarrow> (string \<times> string) option \<Rightarrow> string" where
  "resolvePublicRoutePeerKey isIP env request requestIP =
     (let peerAddress = readRequestPeerAddress requestIP in
      nullish (readTrustedForwardedForPeer isIP env request peerAddress) (resolveAuthRoutePeerKey requestIP))"

definition normalizeRuntimeStatsProvidedSecret :: "string option \<Rightarrow> string option" where
  "normalizeRuntimeStatsProvidedSecret providedSecret = map_option js_trim providedSecret"

definition isRuntimeStatsSecretMatch :: "(string \<Rightarrow> 'd) \<Rightarrow> string option \<Rightarrow> string option \<Rightarrow> bool" where
  "isRuntimeStatsSecretMatch sha configuredSecret providedSecret =
     (let normalizedProvidedSecret = normalizeRuntimeStatsProvidedSecret providedSecret in
      if \<not> truthy configuredSecret \<or> normalizedProvidedSecret = None then False
      else timingSafeTextDigestEqual sha (nullish configuredSecret []) (nullish normalizedProvidedSecret []))"

text \<open>\<open>replace(/^Bearer\s+/i, "")\<close>.\<close>

definition strip_bearer :: "string \<Rightarrow> string" where
  "strip_bearer s =
     (let rest = drop 6 s in
      if js_lower (take 6 s) = ''bearer'' \<and> rest \<noteq> [] \<and> js_ws (hd rest) then dropWhile js_ws rest else s)"

definition runtimeStatsRequestUsesSharedSecret :: "(string \<Rightarrow> 'd) \<Rightarrow> string option \<Rightarrow> http_request \<Rightarrow> bool" where
  "runtimeStatsRequestUsesSharedSecret sha configuredSecret request =
     isRuntimeStatsSecretMatch sha configuredSecret
       (nullish_opt (rq_headers request ''x-metidos-runtime-stats-secret'')
         (map_option strip_bearer (rq_headers request ''authorization'')))"

section \<open>Browser origins of WebSockets\<close>

datatype browser_protocol = Http | Https

fun protocol_name :: "browser_protocol \<Rightarrow> string" where
  "protocol_name Http = ''http:''"
| "protocol_name Https = ''https:''"

fun default_port :: "browser_protocol \<Rightarrow> nat" where
  "default_port Http = 80"
| "default_port Https = 443"

definition LOOPBACK_BROWSER_HOSTS :: "string list" where
  "LOOPBACK_BROWSER_HOSTS = [''127.0.0.1'', ''localhost'']"

text \<open>The setter of \<open>url.port\<close> ignores a number above 65535.\<close>

definition formatBrowserOrigin :: "browser_protocol \<Rightarrow> string \<Rightarrow> nat \<Rightarrow> string" where
  "formatBrowserOrigin protocol host port =
     protocol_name protocol @ ''//'' @ host @
       (if port \<noteq> default_port protocol \<and> port \<le> 65535 then CHR '':'' # show_nat port else [])"

definition normalizeBrowserOrigin :: "full_url_parser \<Rightarrow> string \<Rightarrow> string option" where
  "normalizeBrowserOrigin parse origin = normalizeAuthRouteOrigin parse origin"

definition buildLoopbackBrowserOrigins :: "nat \<Rightarrow> browser_protocol list option \<Rightarrow> string list" where
  "buildLoopbackBrowserOrigins port protocols =
     concat (map (\<lambda>host. map (\<lambda>protocol. formatBrowserOrigin protocol host port) (nullish protocols [Http, Https]))
       LOOPBACK_BROWSER_HOSTS)"

fun allowed_entries :: "full_url_parser \<Rightarrow> string list \<Rightarrow> string list \<Rightarrow> string + string list" where
  "allowed_entries parse [] normalized = Inr normalized"
| "allowed_entries parse (entry # entries) normalized =
     (let trimmed = js_trim entry in
      if trimmed = [] then allowed_entries parse entries normalized
      else (let origin = normalizeBrowserOrigin parse trimmed in
        if \<not> truthy origin then Inl (''Invalid browser origin '' @ CHR 0x22 # trimmed @ [CHR 0x22] @ ''.'')
        else allowed_entries parse entries (set_add (nullish origin []) normalized)))"

definition parseAllowedBrowserOrigins :: "full_url_parser \<Rightarrow> string option \<Rightarrow> string + string list" where
  "parseAllowedBrowserOrigins parse val =
     (if \<not> truthy val then Inr [] else allowed_entries parse (split_runs sep_or_comma (nullish val [])) [])"

definition buildConfiguredBrowserOrigins ::
  "full_url_parser \<Rightarrow> string option \<Rightarrow> string option \<Rightarrow> string + string list" where
  "buildConfiguredBrowserOrigins parse allowedOrigins publicOrigin =
     try_then (parseAllowedBrowserOrigins parse allowedOrigins) (\<lambda>allowed.
     try_then (parseAllowedBrowserOrigins parse publicOrigin) (\<lambda>public.
       Inr (js_set (allowed @ public))))"

definition normalizeBrowserOriginSet :: "full_url_parser \<Rightarrow> string list \<Rightarrow> string list" where
  "normalizeBrowserOriginSet parse origins =
     js_set (filter (\<lambda>x. x \<noteq> []) (List.map_filter (normalizeBrowserOrigin parse) origins))"

definition buildMainServerBrowserOrigins :: "full_url_parser \<Rightarrow> nat \<Rightarrow> string list \<Rightarrow> nat \<Rightarrow> nat \<Rightarrow> string list" where
  "buildMainServerBrowserOrigins parse activeServerPort configuredOrigins httpProxyPort httpsProxyPort =
     normalizeBrowserOriginSet parse
       (buildLoopbackBrowserOrigins activeServerPort None @
        buildLoopbackBrowserOrigins httpProxyPort (Some [Http]) @
        buildLoopbackBrowserOrigins httpsProxyPort (Some [Https]) @ configuredOrigins)"

definition isWebSocketOriginAllowed ::
  "full_url_parser \<Rightarrow> string option \<Rightarrow> string list \<Rightarrow> bool \<Rightarrow> bool \<Rightarrow> bool" where
  "isWebSocketOriginAllowed parse origin allowedOrigins requireOrigin preNormalized =
     (if origin = None \<or> js_trim (nullish origin []) = [] then \<not> requireOrigin
      else (let normalizedOrigin = normalizeBrowserOrigin parse (js_trim (nullish origin [])) in
        if \<not> truthy normalizedOrigin then False
        else (let allowed = (if preNormalized then allowedOrigins else normalizeBrowserOriginSet parse allowedOrigins) in
          nullish normalizedOrigin [] \<in> set allowed)))"

text \<open>The check of the RPC and terminal upgrades, with the origins the server computed when it started.\<close>

definition websocketUpgradeAllowed ::
  "full_url_parser \<Rightarrow> nat \<Rightarrow> nat \<Rightarrow> nat \<Rightarrow> string list \<Rightarrow> http_request \<Rightarrow> bool" where
  "websocketUpgradeAllowed parse activeServerPort httpProxyPort httpsProxyPort configured request =
     isWebSocketOriginAllowed parse (rq_headers request ''origin'')
       (buildMainServerBrowserOrigins parse activeServerPort configured httpProxyPort httpsProxyPort) True True"

section \<open>Response headers\<close>

definition normalizeConnectSource :: "full_url_parser \<Rightarrow> string \<Rightarrow> string option" where
  "normalizeConnectSource parse url =
     (let trimmed = js_trim url in
      if trimmed = [] \<or> starts_with ''/'' trimmed then None
      else (case parse trimmed of
        None \<Rightarrow> None
      | Some parsed \<Rightarrow>
          (if url_protocol parsed \<notin> set [''http:'', ''https:'', ''ws:'', ''wss:''] then None
           else Some (url_origin parsed))))"

text \<open>\<open>CSP_NONCE_PATTERN\<close>: letters, digits and four signs, then at most two equals signs.\<close>

definition nonce_char :: "char \<Rightarrow> bool" where
  "nonce_char c = (is_alpha c \<or> is_digit c \<or> c \<in> set ''+/_-'')"

definition csp_nonce_ok :: "string \<Rightarrow> bool" where
  "csp_nonce_ok s =
     (let padding = takeWhile (\<lambda>c. c = CHR ''='') (rev s); body = drop (length padding) (rev s) in
      length padding \<le> 2 \<and> body \<noteq> [] \<and> list_all nonce_char body)"

definition normalizeContentSecurityPolicyNonce :: "string \<Rightarrow> string + string" where
  "normalizeContentSecurityPolicyNonce nonce =
     (let normalized = js_trim nonce in
      if normalized = [] \<or> \<not> csp_nonce_ok normalized
      then Inl ''Content Security Policy nonce contains unsupported characters.''
      else Inr normalized)"

definition quoted :: "string \<Rightarrow> string" where
  "quoted s = CHR 0x27 # s @ [CHR 0x27]"

definition connect_sources :: "full_url_parser \<Rightarrow> string list \<Rightarrow> string list" where
  "connect_sources parse connectUrls =
     js_set (quoted ''self'' # filter (\<lambda>x. x \<noteq> []) (List.map_filter (normalizeConnectSource parse) connectUrls))"

definition csp_directives :: "string list \<Rightarrow> string list \<Rightarrow> string list" where
  "csp_directives connectSources styleSources =
     [''default-src '' @ quoted ''self'',
      ''base-uri '' @ quoted ''none'',
      ''object-src '' @ quoted ''none'',
      ''frame-ancestors '' @ quoted ''none'',
      ''frame-src '' @ quoted ''none'',
      ''connect-src '' @ js_join '' '' connectSources,
      ''font-src '' @ quoted ''self'' @ '' data:'',
      ''form-action '' @ quoted ''self'',
      ''img-src '' @ quoted ''self'' @ '' data: blob:'',
      ''script-src '' @ quoted ''self'' @ '' '' @ quoted ''wasm-unsafe-eval'',
      ''style-src '' @ js_join '' '' styleSources,
      ''style-src-elem '' @ js_join '' '' styleSources,
      ''style-src-attr '' @ quoted ''none'']"

definition buildContentSecurityPolicy :: "full_url_parser \<Rightarrow> string list \<Rightarrow> string option \<Rightarrow> string + string" where
  "buildContentSecurityPolicy parse connectUrls styleNonce =
     try_then (if truthy styleNonce then normalizeContentSecurityPolicyNonce (nullish styleNonce []) else Inr [])
       (\<lambda>nonce.
         let styleSources = (if nonce \<noteq> [] then [quoted ''self'', quoted (''nonce-'' @ nonce)] else [quoted ''self'']) in
         Inr (js_join ''; '' (csp_directives (connect_sources parse connectUrls) styleSources)))"

record header_options =
  ho_connectUrls :: "string list option"
  ho_strictTransportSecurity :: bool
  ho_styleNonce :: "string option"

definition applySecurityHeaders :: "full_url_parser \<Rightarrow> header_map \<Rightarrow> header_options \<Rightarrow> string + header_map" where
  "applySecurityHeaders parse headers options =
     try_then
       (if nullish (ho_connectUrls options) [] \<noteq> []
        then buildContentSecurityPolicy parse (nullish (ho_connectUrls options) []) (ho_styleNonce options)
        else if truthy (ho_styleNonce options) then buildContentSecurityPolicy parse [] (ho_styleNonce options)
        else buildContentSecurityPolicy parse [] None)
       (\<lambda>csp.
         let h1 = headers(''content-security-policy'' \<mapsto> csp,
                ''permissions-policy'' \<mapsto> ''camera=(), geolocation=(), microphone=()'',
                ''referrer-policy'' \<mapsto> ''no-referrer'');
             h2 = (if ho_strictTransportSecurity options
                   then h1(''strict-transport-security'' \<mapsto> ''max-age=63072000; includeSubDomains; preload'')
                   else h1) in
         Inr (h2(''x-content-type-options'' \<mapsto> ''nosniff'', ''x-frame-options'' \<mapsto> ''DENY'')))"

section \<open>Facts\<close>

lemma normalize_auth_origin: "normalizeAuthRouteOrigin parse origin = bare_origin parse origin"
  by (auto simp: normalizeAuthRouteOrigin_def bare_origin_def split: option.split)

lemma untrusted_without_peer: "resolveTrustedForwardedOrigin parse isIP env request None = None"
  by (simp add: resolveTrustedForwardedOrigin_def isForwardedHeaderPeerTrusted_def normalizePeerAddress_def)

text \<open>The origin the server expects: the one given, otherwise its own as the request names it.\<close>

definition expected_origin :: "full_url_parser \<Rightarrow> http_request \<Rightarrow> origin_options \<Rightarrow> string option" where
  "expected_origin parse request options =
     (case oo_expectedOrigin options of
        Some expected \<Rightarrow> bare_origin parse expected
      | None \<Rightarrow> (case parse (rq_url request) of None \<Rightarrow> None | Some url \<Rightarrow> bare_origin parse (url_origin url)))"

lemma resolve_expected:
  "resolveExpectedAuthRouteOrigin parse isIP env request options =
     (if oo_expectedOrigin options = None \<and> parse (rq_url request) = None then Inl InvalidUrlError
      else Inr (expected_origin parse request options))"
  by (simp add: resolveExpectedAuthRouteOrigin_def expected_origin_def untrusted_without_peer truthy_def
      normalize_auth_origin split: option.split)

definition origin_accepted :: "full_url_parser \<Rightarrow> http_request \<Rightarrow> origin_options \<Rightarrow> string \<Rightarrow> bool" where
  "origin_accepted parse request options x =
     (x \<noteq> [] \<and> (expected_origin parse request options = Some x \<or>
       (\<exists>entry \<in> set (nullish (oo_allowedOrigins options) []). bare_origin parse entry = Some x)))"

definition origin_policy :: "full_url_parser \<Rightarrow> http_request \<Rightarrow> origin_options \<Rightarrow> bool" where
  "origin_policy parse request options =
     (lower_header request ''sec-fetch-site'' \<noteq> Some ''cross-site'' \<and>
      lower_header request ''sec-fetch-mode'' \<in> {None, Some [], Some ''cors'', Some ''same-origin''} \<and>
      (if truthy (rq_headers request ''origin'')
       then (oo_expectedOrigin options \<noteq> None \<or> parse (rq_url request) \<noteq> None) \<and>
         (\<exists>o' x. rq_headers request ''origin'' = Some o' \<and> bare_origin parse (js_trim o') = Some x \<and>
            origin_accepted parse request options x)
       else oo_requireOrigin options \<longrightarrow> truthy (lower_header request ''sec-fetch-site'')))"

lemma config_allows:
  "isAuthRouteOriginAllowedByConfig parse x allowed \<longleftrightarrow>
     (\<exists>entry \<in> set (nullish allowed []). bare_origin parse entry = Some x)"
  by (cases allowed) (auto simp: isAuthRouteOriginAllowedByConfig_def normalize_auth_origin nullish_def list_ex_iff)

lemma origin_security_iff:
  "enforceAuthOriginSecurity parse isIP env request options = Inr () \<longleftrightarrow> origin_policy parse request options"
proof -
  let ?site = "lower_header request ''sec-fetch-site''" and ?mode = "lower_header request ''sec-fetch-mode''"
  let ?o = "rq_headers request ''origin''"
  have mode: "truthy ?mode \<and> ?mode \<noteq> Some ''cors'' \<and> ?mode \<noteq> Some ''same-origin'' \<longleftrightarrow>
      ?mode \<notin> {None, Some [], Some ''cors'', Some ''same-origin''}"
    by (cases ?mode) (auto simp: truthy_def)
  show ?thesis
  proof (cases "?site = Some ''cross-site'' \<or> ?mode \<notin> {None, Some [], Some ''cors'', Some ''same-origin''}")
    case True
    then show ?thesis using mode
      by (auto simp: enforceAuthOriginSecurity_def Let_def origin_policy_def origin_not_allowed_def)
  next
    case False
    then have pass: "enforceAuthOriginSecurity parse isIP env request options =
        (if \<not> truthy ?o then
          (if oo_requireOrigin options \<and> \<not> truthy ?site
           then Inl (RequestValidationError ''Auth request origin is required when fetch metadata is missing.''
             ''origin_required'' 403)
           else Inr ())
         else (let normalizedOrigin = normalizeAuthRouteOrigin parse (js_trim (nullish ?o [])) in
          try_then (resolveExpectedAuthRouteOrigin parse isIP env request options) (\<lambda>expectedOrigin.
            if \<not> truthy normalizedOrigin \<or>
               ((\<not> truthy expectedOrigin \<or> normalizedOrigin \<noteq> expectedOrigin) \<and>
                \<not> isAuthRouteOriginAllowedByConfig parse (nullish normalizedOrigin []) (oo_allowedOrigins options))
            then origin_not_allowed ''Auth request origin not allowed.''
            else Inr ())))"
      using mode by (simp only: enforceAuthOriginSecurity_def Let_def) auto
    show ?thesis
    proof (cases "truthy ?o")
      case True
      then obtain o' where o: "?o = Some o'" by (auto simp: truthy_iff)
      show ?thesis
        using False True o
        by (cases "bare_origin parse (js_trim o')")
          (auto simp: pass origin_policy_def Let_def resolve_expected normalize_auth_origin nullish_def truthy_iff
            config_allows origin_not_allowed_def origin_accepted_def)
    next
      case no: False
      then show ?thesis using False by (auto simp: pass origin_policy_def)
    qed
  qed
qed

lemma csrf_check_iff:
  "enforceAuthCsrfToken sha request = Inr () \<longleftrightarrow>
     (\<exists>t h. readAuthCsrfCookie (rq_headers request ''cookie'') = Some t \<and> t \<noteq> [] \<and>
        rq_headers request AUTH_CSRF_HEADER_NAME = Some h \<and> js_trim h \<noteq> [] \<and> sha t = sha (js_trim h))"
  by (cases "readAuthCsrfCookie (rq_headers request ''cookie'')"; cases "rq_headers request AUTH_CSRF_HEADER_NAME")
    (auto simp: enforceAuthCsrfToken_def Let_def truthy_def nullish_def timingSafeTextDigestEqual_def)

lemma json_check_iff:
  "requireJsonAuthRequest request = Inr () \<longleftrightarrow>
     (\<exists>v. rq_headers request ''content-type'' = Some v \<and>
        js_lower (js_trim (hd (split_char CHR '';'' v))) = ''application/json'')"
  by (cases "rq_headers request ''content-type''") (auto simp: requireJsonAuthRequest_def)

lemma allowed_entries_set:
  "allowed_entries parse entries normalized = Inr origins \<Longrightarrow>
     set origins = set normalized \<union> {x. x \<noteq> [] \<and> (\<exists>e \<in> set entries. js_trim e \<noteq> [] \<and> bare_origin parse (js_trim e) = Some x)}"
proof (induction entries arbitrary: normalized)
  case (Cons e entries)
  show ?case
  proof (cases "js_trim e = []")
    case True
    then show ?thesis using Cons by auto
  next
    case False
    then obtain x where x: "bare_origin parse (js_trim e) = Some x" "x \<noteq> []"
      and r: "allowed_entries parse entries (set_add x normalized) = Inr origins"
      using Cons.prems
      by (auto simp: Let_def truthy_iff normalizeBrowserOrigin_def normalize_auth_origin nullish_def split: if_split_asm)
    from Cons.IH [OF r] show ?thesis using x False by auto
  qed
qed simp

text \<open>The origins a configuration value names.\<close>

definition configured_origins :: "full_url_parser \<Rightarrow> string option \<Rightarrow> string set" where
  "configured_origins parse val =
     {x. x \<noteq> [] \<and> (\<exists>v e. val = Some v \<and> v \<noteq> [] \<and> e \<in> set (split_runs sep_or_comma v) \<and> js_trim e \<noteq> [] \<and>
        bare_origin parse (js_trim e) = Some x)}"

lemma parse_allowed_set:
  assumes "parseAllowedBrowserOrigins parse val = Inr origins"
  shows "set origins = configured_origins parse val"
proof (cases "truthy val")
  case True
  then obtain v where v: "val = Some v" "v \<noteq> []" by (auto simp: truthy_iff)
  then have "allowed_entries parse (split_runs sep_or_comma v) [] = Inr origins"
    using assms True by (simp add: parseAllowedBrowserOrigins_def nullish_def)
  from allowed_entries_set [OF this] show ?thesis using v by (auto simp: configured_origins_def)
next
  case False
  then show ?thesis using assms by (auto simp: parseAllowedBrowserOrigins_def configured_origins_def truthy_iff)
qed

lemma normalized_set:
  "set (normalizeBrowserOriginSet parse origins) = {x. x \<noteq> [] \<and> (\<exists>e \<in> set origins. bare_origin parse e = Some x)}"
  by (auto simp: normalizeBrowserOriginSet_def List.map_filter_def normalizeBrowserOrigin_def normalize_auth_origin)
    (metis (mono_tags, lifting) image_eqI mem_Collect_eq option.sel option.simps(3))

section \<open>Properties\<close>

text \<open>
  C10. A POST to an authentication route passes exactly when it is JSON, its fetch metadata is not
  cross-site, its origin is (with an \<open>Origin\<close> header) a bare http or https origin that is the expected one
  or one of the allowed entries, and the token of the CSRF cookie equals the custom header's. The expected
  origin is the one a trusted proxy forwarded, otherwise the request's own; without the header, fetch
  metadata must be present.
\<close>

theorem auth_post_exact:
  "authorizeAuthPost parse isIP env sha request requestIP allowedOrigins = Inr () \<longleftrightarrow>
     (\<exists>v. rq_headers request ''content-type'' = Some v \<and>
        js_lower (js_trim (hd (split_char CHR '';'' v))) = ''application/json'') \<and>
     lower_header request ''sec-fetch-site'' \<noteq> Some ''cross-site'' \<and>
     lower_header request ''sec-fetch-mode'' \<in> {None, Some [], Some ''cors'', Some ''same-origin''} \<and>
     (if truthy (rq_headers request ''origin'') then
        \<not> (resolveTrustedForwardedOrigin parse isIP env request (readRequestPeerAddress requestIP) = None \<and>
         parse (rq_url request) = None) \<and>
        (\<exists>text x. rq_headers request ''origin'' = Some text \<and> bare_origin parse (js_trim text) = Some x \<and> x \<noteq> [] \<and>
          ((case resolveTrustedForwardedOrigin parse isIP env request (readRequestPeerAddress requestIP) of
              Some forwarded \<Rightarrow> bare_origin parse forwarded = Some x
            | None \<Rightarrow> (\<exists>url. parse (rq_url request) = Some url \<and> bare_origin parse (url_origin url) = Some x)) \<or>
           (\<exists>entry \<in> set (nullish allowedOrigins []). bare_origin parse entry = Some x)))
      else truthy (lower_header request ''sec-fetch-site'')) \<and>
     (\<exists>t h. readAuthCsrfCookie (rq_headers request ''cookie'') = Some t \<and> t \<noteq> [] \<and>
        rq_headers request AUTH_CSRF_HEADER_NAME = Some h \<and> js_trim h \<noteq> [] \<and> sha t = sha (js_trim h))"
proof -
  have "authorizeAuthPost parse isIP env sha request requestIP allowedOrigins = Inr () \<longleftrightarrow>
      requireJsonAuthRequest request = Inr () \<and>
      enforceAuthOriginSecurity parse isIP env request
        ((auth_route_options parse isIP env request requestIP allowedOrigins)\<lparr> oo_requireOrigin := True \<rparr>) = Inr () \<and>
      enforceAuthCsrfToken sha request = Inr ()"
    by (auto simp: authorizeAuthPost_def enforceAuthMutationRequestSecurity_def try_then_Inr)
  moreover have "expected_origin parse request
      ((auth_route_options parse isIP env request requestIP allowedOrigins)\<lparr> oo_requireOrigin := True \<rparr>) = Some x \<longleftrightarrow>
      (case resolveTrustedForwardedOrigin parse isIP env request (readRequestPeerAddress requestIP) of
         Some forwarded \<Rightarrow> bare_origin parse forwarded = Some x
       | None \<Rightarrow> (\<exists>url. parse (rq_url request) = Some url \<and> bare_origin parse (url_origin url) = Some x))" for x
    by (simp add: expected_origin_def auth_route_options_def split: option.split)
  moreover have "oo_allowedOrigins ((auth_route_options parse isIP env request requestIP allowedOrigins)\<lparr> oo_requireOrigin := True \<rparr>) =
      allowedOrigins"
    "oo_expectedOrigin ((auth_route_options parse isIP env request requestIP allowedOrigins)\<lparr> oo_requireOrigin := True \<rparr>) =
      resolveTrustedForwardedOrigin parse isIP env request (readRequestPeerAddress requestIP)"
    "oo_requireOrigin ((auth_route_options parse isIP env request requestIP allowedOrigins)\<lparr> oo_requireOrigin := True \<rparr>)"
    by (simp_all add: auth_route_options_def)
  ultimately show ?thesis
    by (simp only: json_check_iff csrf_check_iff origin_security_iff origin_policy_def origin_accepted_def
        simp_thms conj_assoc de_Morgan_conj)
qed

text \<open>
  A client that echoes the CSRF token it was issued passes the token check: whichever other
  cookies it sends and with blanks around the header value.
\<close>

theorem csrf_token_accepted:
  assumes "buildAuthCsrfCookieHeader token secure = Inr h" and "utf8_length token \<le> AUTH_CSRF_TOKEN_MAX_BYTES"
    and "\<And>e. e \<in> set (before @ later) \<Longrightarrow> CHR '';'' \<notin> set e"
    and "\<And>e. e \<in> set (before @ later) \<Longrightarrow>
      entry_name e \<noteq> AUTH_CSRF_HOST_COOKIE_NAME \<and> (secure \<or> entry_name e \<noteq> AUTH_CSRF_COOKIE_NAME)"
    and "rq_headers request ''cookie'' = Some (js_join ''; '' (before @ [cookie_pair h] @ later))"
    and "rq_headers request AUTH_CSRF_HEADER_NAME = Some sent" and "js_trim sent = token"
  shows "enforceAuthCsrfToken sha request = Inr ()"
proof -
  have "token \<noteq> []" using csrf.built [OF assms(1)] by (auto simp: cookie_value_ok_def)
  then show ?thesis unfolding csrf_check_iff using csrf_read_back [OF assms(1-4)] assms(5-7) by simp
qed

text \<open>
  C11. A WebSocket upgrade is let through exactly when its origin header is a bare origin that is
  configured, or that is the local host under the server's own port or a proxy's, in a scheme of that
  port. The parser is taken to read an origin it printed as that origin.
\<close>

theorem websocket_origin_exact:
  assumes "\<And>text x. bare_origin parse text = Some x \<Longrightarrow> bare_origin parse x = Some x"
    and "buildConfiguredBrowserOrigins parse allowed public = Inr configured"
  shows "websocketUpgradeAllowed parse serverPort httpProxyPort httpsProxyPort configured request \<longleftrightarrow>
    (\<exists>text x. rq_headers request ''origin'' = Some text \<and> js_trim text \<noteq> [] \<and> bare_origin parse (js_trim text) = Some x \<and>
       x \<noteq> [] \<and>
       (x \<in> configured_origins parse allowed \<union> configured_origins parse public \<or>
        (\<exists>host \<in> {''127.0.0.1'', ''localhost''}.
           bare_origin parse (formatBrowserOrigin Http host serverPort) = Some x \<or>
           bare_origin parse (formatBrowserOrigin Https host serverPort) = Some x \<or>
           bare_origin parse (formatBrowserOrigin Http host httpProxyPort) = Some x \<or>
           bare_origin parse (formatBrowserOrigin Https host httpsProxyPort) = Some x)))"
proof -
  let ?origins = "buildMainServerBrowserOrigins parse serverPort configured httpProxyPort httpsProxyPort"
  obtain a b where a: "parseAllowedBrowserOrigins parse allowed = Inr a"
    and b: "parseAllowedBrowserOrigins parse public = Inr b" and c: "configured = js_set (a @ b)"
    using assms(2) by (auto simp: buildConfiguredBrowserOrigins_def try_then_Inr)
  have conf: "set configured = configured_origins parse allowed \<union> configured_origins parse public"
    by (simp add: c parse_allowed_set [OF a] parse_allowed_set [OF b])
  have fixed: "bare_origin parse e = Some e" if "e \<in> set configured" for e
    using that assms(1) unfolding conf configured_origins_def by blast
  have mem: "x \<in> set ?origins \<longleftrightarrow> x \<noteq> [] \<and> (x \<in> set configured \<or>
      (\<exists>host \<in> {''127.0.0.1'', ''localhost''}.
           bare_origin parse (formatBrowserOrigin Http host serverPort) = Some x \<or>
           bare_origin parse (formatBrowserOrigin Https host serverPort) = Some x \<or>
           bare_origin parse (formatBrowserOrigin Http host httpProxyPort) = Some x \<or>
           bare_origin parse (formatBrowserOrigin Https host httpsProxyPort) = Some x))" for x
  proof -
    have "(\<exists>e \<in> set configured. bare_origin parse e = Some x) \<longleftrightarrow> x \<in> set configured"
      using fixed by fastforce
    then show ?thesis
      unfolding buildMainServerBrowserOrigins_def normalized_set
      by (simp add: bex_Un buildLoopbackBrowserOrigins_def LOOPBACK_BROWSER_HOSTS_def nullish_def) blast
  qed
  show ?thesis
    unfolding conf [symmetric]
    by (cases "rq_headers request ''origin''")
      (auto simp: websocketUpgradeAllowed_def isWebSocketOriginAllowed_def nullish_def Let_def truthy_iff mem
        normalizeBrowserOrigin_def normalize_auth_origin)
qed

lemma nonce_chars:
  assumes "csp_nonce_ok s" and "c \<in> set s" shows "nonce_char c \<or> c = CHR ''=''"
proof -
  let ?padding = "takeWhile (\<lambda>c. c = CHR ''='') (rev s)"
  have "set s = set ?padding \<union> set (drop (length ?padding) (rev s))"
    by (metis append_take_drop_id set_append set_rev takeWhile_eq_take)
  then show ?thesis using assms by (auto simp: csp_nonce_ok_def Let_def list_all_iff dest: set_takeWhileD)
qed

lemma nonce_semicolon: "csp_nonce_ok s \<Longrightarrow> CHR '';'' \<notin> set s"
  using nonce_chars [of s "CHR '';''"]
  by (auto simp: nonce_char_def is_alpha_def is_lower_def is_upper_def is_digit_def)

lemma join_no_semicolon: "(\<And>x. x \<in> set xs \<Longrightarrow> CHR '';'' \<notin> set x) \<Longrightarrow> CHR '';'' \<notin> set (js_join '' '' xs)"
proof (induction xs)
  case (Cons x xs)
  then show ?case by (cases xs) auto
qed simp

lemma connect_sources_set:
  "set (connect_sources parse connectUrls) = insert (quoted ''self'')
     {x. x \<noteq> [] \<and> (\<exists>url \<in> set connectUrls. normalizeConnectSource parse url = Some x)}"
  by (auto simp: connect_sources_def List.map_filter_def)
    (metis (mono_tags, lifting) image_eqI mem_Collect_eq option.sel option.simps(3))

lemma built_policy:
  assumes "buildContentSecurityPolicy parse connectUrls styleNonce = Inr policy"
  obtains nonce where "policy = js_join ''; '' (csp_directives (connect_sources parse connectUrls)
      (if nonce = [] then [quoted ''self''] else [quoted ''self'', quoted (''nonce-'' @ nonce)]))"
    and "nonce = [] \<and> \<not> truthy styleNonce \<or>
      csp_nonce_ok nonce \<and> (\<exists>text. styleNonce = Some text \<and> nonce = js_trim text)"
proof (cases "truthy styleNonce")
  case True
  then obtain given where t: "styleNonce = Some given" by (auto simp: truthy_iff)
  have "csp_nonce_ok (js_trim given)" "js_trim given \<noteq> []"
    using assms True t by (auto simp: buildContentSecurityPolicy_def try_then_Inr nullish_def Let_def
        normalizeContentSecurityPolicyNonce_def split: if_split_asm)
  then show thesis using assms True t that [of "js_trim given"]
    by (auto simp: buildContentSecurityPolicy_def nullish_def Let_def normalizeContentSecurityPolicyNonce_def)
next
  case False
  then show thesis using assms that [of "[]"] by (simp add: buildContentSecurityPolicy_def)
qed

text \<open>
  The Content Security Policy has thirteen directives, whatever connection URLs and style nonce it
  is built with: eleven are constant, the connection sources are the server itself and the origins of
  the http and WebSocket URLs among the given ones, the style sources are the server itself and, if
  there is a nonce, that one; no other nonce than one of the allowed characters is accepted. The parser is
  taken to print origins without a semicolon.
\<close>

theorem csp_directives_fixed:
  assumes "\<And>text url. parse text = Some url \<Longrightarrow> CHR '';'' \<notin> set (url_origin url)"
    and "buildContentSecurityPolicy parse connectUrls styleNonce = Inr policy"
  shows "\<exists>connect nonce. split_char CHR '';'' policy =
      (let ds = csp_directives connect (if nonce = [] then [quoted ''self''] else [quoted ''self'', quoted (''nonce-'' @ nonce)])
       in hd ds # map ((#) CHR '' '') (tl ds)) \<and>
    set connect = insert (quoted ''self'')
      {x. x \<noteq> [] \<and> (\<exists>url \<in> set connectUrls. normalizeConnectSource parse url = Some x)} \<and>
    (nonce = [] \<and> \<not> truthy styleNonce \<or> csp_nonce_ok nonce \<and> (\<exists>text. styleNonce = Some text \<and> nonce = js_trim text))"
proof -
  obtain nonce where p: "policy = js_join ''; '' (csp_directives (connect_sources parse connectUrls)
      (if nonce = [] then [quoted ''self''] else [quoted ''self'', quoted (''nonce-'' @ nonce)]))"
    and n: "nonce = [] \<and> \<not> truthy styleNonce \<or>
      csp_nonce_ok nonce \<and> (\<exists>text. styleNonce = Some text \<and> nonce = js_trim text)"
    using built_policy [OF assms(2)] by blast
  let ?styles = "if nonce = [] then [quoted ''self''] else [quoted ''self'', quoted (''nonce-'' @ nonce)]"
  let ?connect = "connect_sources parse connectUrls"
  have origin: "CHR '';'' \<notin> set x" if "normalizeConnectSource parse url = Some x" for url x
    using that assms(1) by (auto simp: normalizeConnectSource_def Let_def split: if_split_asm option.splits)
  have c: "CHR '';'' \<notin> set (js_join '' '' ?connect)"
    by (rule join_no_semicolon) (use origin connect_sources_set [of parse connectUrls] in \<open>auto simp: quoted_def\<close>)
  have s: "CHR '';'' \<notin> set (js_join '' '' ?styles)"
    by (rule join_no_semicolon) (use n nonce_semicolon [of nonce] in \<open>auto simp: quoted_def split: if_split_asm\<close>)
  obtain d ds where d: "csp_directives ?connect ?styles = d # ds" by (simp add: csp_directives_def)
  have "CHR '';'' \<notin> set e" if "e \<in> set (d # ds)" for e
    using that c s unfolding d [symmetric] csp_directives_def by (auto simp: quoted_def)
  then have "split_char CHR '';'' policy = d # map ((#) CHR '' '') ds"
    unfolding p d by (rule split_joined)
  then show ?thesis using n connect_sources_set [of parse connectUrls] d
    by (intro exI [of _ ?connect] exI [of _ nonce]) (simp add: Let_def)
qed

text \<open>
  C36. The key a public route counts a request under is the address of the connection, or, for a
  connection from a trusted proxy only, a marked IP literal: from any other address nothing that a client
  writes into its headers changes the key.
\<close>

theorem public_peer_key_confined:
  "resolvePublicRoutePeerKey isIP env request requestIP = resolveAuthRoutePeerKey requestIP \<or>
   isForwardedHeaderPeerTrusted isIP env (readRequestPeerAddress requestIP) \<and>
   (\<exists>address. isIP address \<noteq> 0 \<and>
      resolvePublicRoutePeerKey isIP env request requestIP = ''forwarded:'' @ js_lower address)"
proof (cases "readTrustedForwardedForPeer isIP env request (readRequestPeerAddress requestIP)")
  case None
  then show ?thesis by (simp add: resolvePublicRoutePeerKey_def Let_def nullish_def)
next
  case (Some k)
  then have t: "isForwardedHeaderPeerTrusted isIP env (readRequestPeerAddress requestIP)"
    and "\<exists>v a. normalizeForwardedPeerAddress isIP v = Some a \<and> k = ''forwarded:'' @ a"
    by (auto simp: readTrustedForwardedForPeer_def split: if_split_asm option.splits)
  then obtain address where "isIP address \<noteq> 0" "k = ''forwarded:'' @ js_lower address"
    using forwarded_peer_literal by blast
  then show ?thesis using t Some by (auto simp: resolvePublicRoutePeerKey_def Let_def nullish_def)
qed

section \<open>Witnesses\<close>

definition demo_post :: "string \<Rightarrow> http_request" where
  "demo_post cookie = \<lparr> rq_headers = (\<lambda>n. if n = ''cookie'' then Some cookie
     else if n = AUTH_CSRF_HEADER_NAME then Some '' t1 '' else if n = ''origin'' then Some ''https://app.test''
     else None), rq_url = ''https://app.test'' \<rparr>"

theorem csrf_token_accepted_witness:
  "\<exists>h. buildAuthCsrfCookieHeader ''t1'' True = Inr h \<and>
     enforceAuthCsrfToken (\<lambda>t. t) (demo_post (js_join ''; '' ([''metidos_csrf=planted''] @ [cookie_pair h] @ []))) = Inr ()"
proof -
  have "cookie_value_ok ''t1''"
    by (simp add: cookie_value_ok_def cookie_char_def is_alpha_def is_lower_def is_upper_def is_digit_def)
  then obtain h where h: "buildAuthCsrfCookieHeader ''t1'' True = Inr h"
    by (simp add: buildAuthCsrfCookieHeader_def assertSafeCookieValue_def)
  have "enforceAuthCsrfToken (\<lambda>t. t) (demo_post (js_join ''; '' ([''metidos_csrf=planted''] @ [cookie_pair h] @ []))) = Inr ()"
    by (rule csrf_token_accepted [OF h, where before = "[''metidos_csrf=planted'']" and later = "[]" and sent = "'' t1 ''"])
      (auto simp: utf8_length_def AUTH_CSRF_TOKEN_MAX_BYTES_def entry_name_def js_trim_def js_ws_def demo_post_def
        AUTH_CSRF_HOST_COOKIE_NAME_def AUTH_CSRF_HEADER_NAME_def)
  then show ?thesis using h by blast
qed

lemma demo_bare: "bare_origin demo_full_parse text = Some x \<longleftrightarrow> text = ''https://app.test'' \<and> x = ''https://app.test''"
  by (auto simp: bare_origin_def demo_full_parse_def demo_url_def has_credentials_def js_url.defs)

theorem websocket_origin_exact_witness:
  "\<exists>configured. buildConfiguredBrowserOrigins demo_full_parse None (Some ''https://app.test'') = Inr configured \<and>
     websocketUpgradeAllowed demo_full_parse 7599 80 443 configured (demo_post [])"
proof -
  have e: "split_runs sep_or_comma ''https://app.test'' = [''https://app.test'']"
    by (simp add: sep_or_comma_def js_ws_def)
  have n: "normalizeBrowserOrigin demo_full_parse ''https://app.test'' = Some ''https://app.test''"
    using demo_bare by (simp add: normalizeBrowserOrigin_def normalize_auth_origin)
  obtain configured where c: "buildConfiguredBrowserOrigins demo_full_parse None (Some ''https://app.test'') = Inr configured"
    by (simp add: buildConfiguredBrowserOrigins_def parseAllowedBrowserOrigins_def truthy_def nullish_def e n demo_trims
        del: split_runs.simps)
  have "''https://app.test'' \<in> configured_origins demo_full_parse (Some ''https://app.test'')"
    by (simp add: configured_origins_def e demo_trims demo_bare del: split_runs.simps)
  then have "websocketUpgradeAllowed demo_full_parse 7599 80 443 configured (demo_post [])"
    using websocket_origin_exact [OF _ c, of 7599 80 443 "demo_post []"] demo_bare
    by (simp add: demo_post_def demo_trims AUTH_CSRF_HEADER_NAME_def)
  then show ?thesis using c by blast
qed

theorem csp_directives_fixed_witness:
  "\<exists>policy connect nonce. buildContentSecurityPolicy demo_full_parse [''https://app.test''] (Some ''ab=='') = Inr policy \<and>
     split_char CHR '';'' policy =
      (let ds = csp_directives connect (if nonce = [] then [quoted ''self''] else [quoted ''self'', quoted (''nonce-'' @ nonce)])
       in hd ds # map ((#) CHR '' '') (tl ds))"
proof -
  have t: "js_trim ''ab=='' = ''ab==''" by (simp add: js_trim_def js_ws_def)
  have ok: "csp_nonce_ok ''ab==''"
    by (simp add: csp_nonce_ok_def nonce_char_def is_alpha_def is_lower_def)
  then obtain policy where p: "buildContentSecurityPolicy demo_full_parse [''https://app.test''] (Some ''ab=='') = Inr policy"
    by (simp add: buildContentSecurityPolicy_def truthy_def nullish_def normalizeContentSecurityPolicyNonce_def t Let_def)
  have semi: "CHR '';'' \<notin> set (url_origin url)" if "demo_full_parse t = Some url" for t url
    using that by (auto simp: demo_full_parse_def demo_url_def split: if_split_asm)
  have "\<exists>connect nonce. split_char CHR '';'' policy =
      (let ds = csp_directives connect (if nonce = [] then [quoted ''self''] else [quoted ''self'', quoted (''nonce-'' @ nonce)])
       in hd ds # map ((#) CHR '' '') (tl ds))"
    using csp_directives_fixed [OF _ p] semi by blast
  then show ?thesis using p by blast
qed

end
