(* ===== verification/Rpc_Params.thy ===== *)
theory Rpc_Params
  imports Rpc_Codec Js_Result
begin

text \<open>
  The gate in front of the RPC procedures (\<^verbatim>\<open>src/bun/index.ts\<close>): the structural bounds of a request's
  parameters, the type shape of every method, and the parsing of a client message. A value is what the
  two message formats decode to, a finite tree: an object has its own properties and possibly another object
  as its prototype, because the binary decoder assigns a property named \<open>__proto__\<close> and so sets it (a
  prototype that is an array is left out). Error messages are constructors with the parts the texts are
  made of. The main results: the worklist loop of the bounds is the structural measure of the value; exactly
  which parameters each shape admits; the fields of an accepted message.
\<close>

section \<open>Values\<close>

datatype param =
    PUndefined
  | PNull
  | PBool bool
  | PNumber "64 word"
  | PString js_units
  | PArray "param list"
  | PObject "(js_units \<times> param) list" "param option"

type_synonym path = js_units

definition units :: "string \<Rightarrow> js_units" where
  "units s = map (\<lambda>c. of_nat (of_char c)) s"

lemma unat_unit: "unat (of_nat (of_char c) :: 16 word) = of_char c"
  using of_char_nat_less [of c] by (simp add: unat_of_nat take_bit_nat_def del: of_char_nat_less)

text \<open>A property, read through the prototypes; none of the names read is one of \<open>Object.prototype\<close>.\<close>

fun get_prop :: "param \<Rightarrow> js_units \<Rightarrow> param" where
  "get_prop (PObject own proto) key =
     (case map_of own key of
        Some v \<Rightarrow> v
      | None \<Rightarrow> (case proto of Some p \<Rightarrow> get_prop p key | None \<Rightarrow> PUndefined))"
| "get_prop v key = PUndefined"

definition read_field :: "param \<Rightarrow> string \<Rightarrow> param" where
  "read_field v name = get_prop v (units name)"

text \<open>The decoded value of a binary message without a property named \<open>__proto__\<close>.\<close>

fun param_of :: "rpc_value \<Rightarrow> param" where
  "param_of RUndefined = PUndefined"
| "param_of RNull = PNull"
| "param_of (RBool b) = PBool b"
| "param_of (RNumber n) = PNumber n"
| "param_of (RString s) = PString s"
| "param_of (RArray vs) = PArray (map param_of vs)"
| "param_of (RObject es) = PObject (map (\<lambda>(k, v). (k, param_of v)) es) None"

text \<open>
  Numbers are IEEE doubles. \<open>f64_scaled\<close> is a finite one as an integer and a binary exponent: the number is
  \<open>m * 2 ^ e\<close>, or \<open>m / 2 ^ (- e)\<close>.
\<close>

definition f64_finite :: "64 word \<Rightarrow> bool" where
  "f64_finite w = (unat (drop_bit 52 w) mod 2048 \<noteq> 2047)"

definition f64_scaled :: "64 word \<Rightarrow> int \<times> int" where
  "f64_scaled w =
     (let e = unat (drop_bit 52 w) mod 2048;
          f = unat w mod 2 ^ 52;
          m = (if e = 0 then int f else int f + 2 ^ 52) in
      (if bit w 63 then - m else m, (if e = 0 then 1 else int e) - 1075))"

text \<open>\<open>Math.floor\<close>, and the integer a number is, if it is one.\<close>

definition f64_floor :: "64 word \<Rightarrow> int" where
  "f64_floor w = (case f64_scaled w of (m, e) \<Rightarrow> if 0 \<le> e then m * 2 ^ nat e else m div 2 ^ nat (- e))"

definition f64_integral :: "64 word \<Rightarrow> bool" where
  "f64_integral w = (case f64_scaled w of (m, e) \<Rightarrow> 0 \<le> e \<or> m mod 2 ^ nat (- e) = 0)"

definition f64_positive :: "64 word \<Rightarrow> bool" where
  "f64_positive w = (fst (f64_scaled w) > 0)"

section \<open>Errors and limits\<close>

datatype rpc_param_type =
    TArray | TBoolean | TNullableBoolean | TNullableNumber | TNullableString | TNumber | TObject | TRecord | TString

datatype params_error =
    InvalidParams string
  | InvalidMethod
  | InvalidPayload
  | FieldRequired path
  | MustBe path rpc_param_type
  | StringTooLong path nat
  | TooDeep path
  | TooManyArrayItems path path nat
  | TooManyKeys path path nat
  | TooManyItems path nat
  | ContainsNul path
  | MustBeImage path
  | HostTypeError

type_synonym rpc_shape = "(string \<times> rpc_param_type) list"

definition MAX_RPC_RECORD_DEPTH :: nat where "MAX_RPC_RECORD_DEPTH = 12"
definition MAX_RPC_RECORD_KEYS :: nat where "MAX_RPC_RECORD_KEYS = 1000"
definition MAX_RPC_RECORD_ARRAY_ITEMS :: nat where "MAX_RPC_RECORD_ARRAY_ITEMS = 1000"
definition MAX_RPC_RECORD_STRING_BYTES :: nat where "MAX_RPC_RECORD_STRING_BYTES = 64 * 1024"
definition MAX_RPC_PARAM_STRING_BYTES :: nat where "MAX_RPC_PARAM_STRING_BYTES = 1024 * 1024"
definition MAX_THREAD_MESSAGE_INPUT_BYTES :: nat where "MAX_THREAD_MESSAGE_INPUT_BYTES = 1024 * 1024"
definition MAX_THREAD_EXTENSION_EDITOR_TEXT_BYTES :: nat where
  "MAX_THREAD_EXTENSION_EDITOR_TEXT_BYTES = 256 * 1024"
definition MAX_RPC_REQUEST_TIMEOUT_MS :: int where "MAX_RPC_REQUEST_TIMEOUT_MS = 10 * 60 * 1000"
definition MAX_CHAT_IMAGE_ATTACHMENTS :: nat where "MAX_CHAT_IMAGE_ATTACHMENTS = 4"
definition MAX_CHAT_IMAGE_BYTES :: nat where "MAX_CHAT_IMAGE_BYTES = 10 * 1024 * 1024"
definition MAX_BASE64_CHAT_IMAGE_BYTES :: nat where
  "MAX_BASE64_CHAT_IMAGE_BYTES = nat (ceil_div (int MAX_CHAT_IMAGE_BYTES) 3) * 4"

definition isPlainObject :: "param \<Rightarrow> bool" where
  "isPlainObject v = (case v of PObject own proto \<Rightarrow> True | _ \<Rightarrow> False)"

definition byteLength :: "js_units \<Rightarrow> nat" where
  "byteLength s = length (text_encode s)"

definition assertRpcStringByteLength :: "js_units \<Rightarrow> path \<Rightarrow> nat \<Rightarrow> params_error + unit" where
  "assertRpcStringByteLength val fieldPath maxBytes =
     (if byteLength val > maxBytes then Inl (StringTooLong fieldPath maxBytes) else Inr ())"

definition item_path :: "path \<Rightarrow> nat \<Rightarrow> path" where
  "item_path p index = p @ units (''['' @ show_nat index @ '']'')"

definition field_path :: "path \<Rightarrow> js_units \<Rightarrow> path" where
  "field_path p key = p @ units ''.'' @ key"

section \<open>Structural bounds\<close>

fun weight :: "param \<Rightarrow> nat" where
  "weight (PArray vs) = Suc (sum_list (map weight vs))"
| "weight (PObject own proto) = Suc (sum_list (map (\<lambda>(k, v). weight v) own))"
| "weight v = 1"

lemma weight_pos: "0 < weight v"
  by (cases v) auto

lemma enumerate_weights: "sum_list (map (\<lambda>(index, item). weight item) (List.enumerate n items)) = sum_list (map weight items)"
  by (induction items arbitrary: n) auto

text \<open>
  The stack's top is the head of the list; entries are pushed in order, so the last one lies on top. A
  decoded value is a tree, so the set of visited objects never meets one again.
\<close>

function bounds_loop ::
  "(path \<Rightarrow> nat) \<Rightarrow> path \<Rightarrow> (nat \<times> path \<times> param) list \<Rightarrow> nat \<Rightarrow> nat \<Rightarrow> params_error + unit" where
  "bounds_loop limit topPath [] keyCount arrayItemCount = Inr ()"
| "bounds_loop limit topPath ((depth, p, v) # stack) keyCount arrayItemCount =
     (case v of
        PString s \<Rightarrow> try_then (assertRpcStringByteLength s p (limit p)) (\<lambda>_.
          bounds_loop limit topPath stack keyCount arrayItemCount)
      | PArray items \<Rightarrow>
          (if depth > MAX_RPC_RECORD_DEPTH then Inl (TooDeep topPath)
           else if arrayItemCount + length items > MAX_RPC_RECORD_ARRAY_ITEMS
           then Inl (TooManyArrayItems topPath p (arrayItemCount + length items))
           else bounds_loop limit topPath
             (rev (map (\<lambda>(index, item). (depth + 1, item_path p index, item)) (List.enumerate 0 items)) @ stack)
             keyCount (arrayItemCount + length items))
      | PObject own proto \<Rightarrow>
          (if depth > MAX_RPC_RECORD_DEPTH then Inl (TooDeep topPath)
           else if keyCount + length own > MAX_RPC_RECORD_KEYS
           then Inl (TooManyKeys topPath p (keyCount + length own))
           else bounds_loop limit topPath
             (rev (map (\<lambda>(key, item). (depth + 1, field_path p key, item)) own) @ stack)
             (keyCount + length own) arrayItemCount)
      | _ \<Rightarrow> bounds_loop limit topPath stack keyCount arrayItemCount)"
  by pat_completeness auto

termination
  by (relation "measure (\<lambda>(limit, topPath, stack, k, a). sum_list (map (\<lambda>(d, p, v). weight v) stack))")
    (auto simp: weight_pos comp_def case_prod_unfold enumerate_weights [unfolded case_prod_unfold] rev_map [symmetric]
      sum_list_rev)

text \<open>\<open>stringByteLimitForPath\<close> may give nothing, \<open>null\<close> included.\<close>

definition assertRpcParamBounds :: "param \<Rightarrow> path \<Rightarrow> (path \<Rightarrow> nat option) \<Rightarrow> params_error + unit" where
  "assertRpcParamBounds v fieldPath stringByteLimitForPath =
     bounds_loop (\<lambda>p. nullish (stringByteLimitForPath p) MAX_RPC_PARAM_STRING_BYTES) fieldPath [(0, fieldPath, v)] 0 0"

definition assertRpcRecordBounds :: "param \<Rightarrow> path \<Rightarrow> params_error + unit" where
  "assertRpcRecordBounds v fieldPath =
     bounds_loop (\<lambda>_. MAX_RPC_RECORD_STRING_BYTES) fieldPath [(0, fieldPath, v)] 0 0"

section \<open>Shapes\<close>

definition is_string :: "param \<Rightarrow> bool" where "is_string v = (case v of PString _ \<Rightarrow> True | _ \<Rightarrow> False)"
definition is_bool :: "param \<Rightarrow> bool" where "is_bool v = (case v of PBool _ \<Rightarrow> True | _ \<Rightarrow> False)"
definition is_number :: "param \<Rightarrow> bool" where "is_number v = (case v of PNumber _ \<Rightarrow> True | _ \<Rightarrow> False)"
definition is_array :: "param \<Rightarrow> bool" where "is_array v = (case v of PArray _ \<Rightarrow> True | _ \<Rightarrow> False)"
definition is_finite_number :: "param \<Rightarrow> bool" where
  "is_finite_number v = (case v of PNumber n \<Rightarrow> f64_finite n | _ \<Rightarrow> False)"

definition assertRpcParamType :: "param \<Rightarrow> rpc_param_type \<Rightarrow> path \<Rightarrow> params_error + unit" where
  "assertRpcParamType v expected fieldPath =
     (let mismatch = Inl (MustBe fieldPath expected) in
      case expected of
        TArray \<Rightarrow> if is_array v then Inr () else mismatch
      | TBoolean \<Rightarrow> if is_bool v then Inr () else mismatch
      | TNullableBoolean \<Rightarrow> if is_bool v \<or> v = PNull then Inr () else mismatch
      | TNullableNumber \<Rightarrow> if is_number v \<or> v = PNull then Inr () else mismatch
      | TNullableString \<Rightarrow> if is_string v \<or> v = PNull then Inr () else mismatch
      | TNumber \<Rightarrow> if is_finite_number v then Inr () else mismatch
      | TObject \<Rightarrow> if isPlainObject v then Inr () else mismatch
      | TRecord \<Rightarrow> if isPlainObject v then assertRpcRecordBounds v fieldPath else mismatch
      | TString \<Rightarrow> if is_string v then Inr () else mismatch)"

definition is_optional :: "string \<Rightarrow> bool" where
  "is_optional field = ends_with ''?'' field"

definition field_name :: "string \<Rightarrow> string" where
  "field_name field = (if is_optional field then butlast field else field)"

definition method_path :: "string \<Rightarrow> string \<Rightarrow> path" where
  "method_path meth name = field_path (units meth) (units name)"

fun check_fields :: "string \<Rightarrow> param \<Rightarrow> rpc_shape \<Rightarrow> params_error + unit" where
  "check_fields meth params [] = Inr ()"
| "check_fields meth params ((field, typeName) # shape) =
     (let val = read_field params (field_name field); p = method_path meth (field_name field) in
      if val = PUndefined then
        (if is_optional field then check_fields meth params shape else Inl (FieldRequired p))
      else try_then (assertRpcParamType val typeName p) (\<lambda>_. check_fields meth params shape))"

definition objectParams_with ::
  "rpc_shape \<Rightarrow> (path \<Rightarrow> nat option) \<Rightarrow> param \<Rightarrow> string \<Rightarrow> params_error + param" where
  "objectParams_with shape limits params meth =
     (if \<not> isPlainObject params then Inl (InvalidParams meth)
      else try_then (assertRpcParamBounds params (units meth) limits) (\<lambda>_.
        try_then (check_fields meth params shape) (\<lambda>_. Inr params)))"

definition objectParams :: "rpc_shape \<Rightarrow> param \<Rightarrow> string \<Rightarrow> params_error + param" where
  "objectParams shape params meth = objectParams_with shape (\<lambda>_. None) params meth"

definition undefinedParams :: "param \<Rightarrow> string \<Rightarrow> params_error + param" where
  "undefinedParams params meth = (if params \<noteq> PUndefined then Inl (InvalidParams meth) else Inr PUndefined)"

definition optionalObjectParams :: "rpc_shape \<Rightarrow> param \<Rightarrow> string \<Rightarrow> params_error + param" where
  "optionalObjectParams shape params meth =
     (if params = PUndefined then Inr PUndefined else objectParams shape params meth)"

section \<open>The validators of particular methods\<close>

fun items_of :: "param \<Rightarrow> param list" where
  "items_of (PArray vs) = vs"
| "items_of v = []"

fun string_of :: "param \<Rightarrow> js_units" where
  "string_of (PString s) = s"
| "string_of v = []"

text \<open>\<open>xs.forEach((x, index) => ...)\<close> with a body that may throw.\<close>

fun for_each :: "(nat \<Rightarrow> 'a \<Rightarrow> 'e + unit) \<Rightarrow> nat \<Rightarrow> 'a list \<Rightarrow> 'e + unit" where
  "for_each f index [] = Inr ()"
| "for_each f index (x # xs) = try_then (f index x) (\<lambda>_. for_each f (Suc index) xs)"

definition assertRpcArrayLength :: "param list \<Rightarrow> path \<Rightarrow> nat \<Rightarrow> params_error + unit" where
  "assertRpcArrayLength vs fieldPath maxLength =
     (if length vs > maxLength then Inl (TooManyItems fieldPath maxLength) else Inr ())"

definition boundedThreadStatusesParams :: "param \<Rightarrow> string \<Rightarrow> params_error + param" where
  "boundedThreadStatusesParams params meth =
     try_then (objectParams [(''threadIds'', TArray)] params meth) (\<lambda>v.
       let threadIds = items_of (read_field v ''threadIds''); p = method_path meth ''threadIds'' in
       try_then (assertRpcArrayLength threadIds p 200) (\<lambda>_.
       try_then (for_each (\<lambda>index threadId. assertRpcParamType threadId TNumber (item_path p index)) 0 threadIds)
         (\<lambda>_. Inr v)))"

definition boundedProjectFaviconsParams :: "param \<Rightarrow> string \<Rightarrow> params_error + param" where
  "boundedProjectFaviconsParams params meth =
     try_then (objectParams [(''forceRefresh?'', TBoolean), (''projectIds'', TArray)] params meth) (\<lambda>v.
       let projectIds = items_of (read_field v ''projectIds''); p = method_path meth ''projectIds'' in
       try_then (assertRpcArrayLength projectIds p 100) (\<lambda>_.
       try_then (for_each (\<lambda>index projectId. assertRpcParamType projectId TNumber (item_path p index)) 0 projectIds)
         (\<lambda>_. Inr v)))"

definition optional_type :: "param \<Rightarrow> string \<Rightarrow> rpc_param_type \<Rightarrow> path \<Rightarrow> params_error + unit" where
  "optional_type v name expected itemPath =
     (if read_field v name = PUndefined then Inr ()
      else assertRpcParamType (read_field v name) expected (field_path itemPath (units name)))"

definition required_type :: "param \<Rightarrow> string \<Rightarrow> rpc_param_type \<Rightarrow> path \<Rightarrow> params_error + unit" where
  "required_type v name expected itemPath =
     assertRpcParamType (read_field v name) expected (field_path itemPath (units name))"

definition boundedOpenProjectsBatchParams :: "param \<Rightarrow> string \<Rightarrow> params_error + param" where
  "boundedOpenProjectsBatchParams params meth =
     try_then (objectParams [(''projects'', TArray)] params meth) (\<lambda>v.
       let projects = items_of (read_field v ''projects''); p = method_path meth ''projects'' in
       try_then (assertRpcArrayLength projects p 50) (\<lambda>_.
       try_then (for_each (\<lambda>index project.
           let itemPath = item_path p index in
           if \<not> isPlainObject project then Inl (MustBe itemPath TObject)
           else try_then (required_type project ''projectId'' TNumber itemPath) (\<lambda>_.
             try_then (required_type project ''projectPath'' TString itemPath) (\<lambda>_.
             try_then (optional_type project ''name'' TNullableString itemPath) (\<lambda>_.
             try_then (optional_type project ''createIfMissing'' TBoolean itemPath) (\<lambda>_.
             try_then (optional_type project ''initGitIfNeeded'' TBoolean itemPath) (\<lambda>_.
               optional_type project ''pinWorktree'' TBoolean itemPath)))))) 0 projects)
         (\<lambda>_. Inr v)))"

definition boundedOpenWorktreesBatchParams :: "param \<Rightarrow> string \<Rightarrow> params_error + param" where
  "boundedOpenWorktreesBatchParams params meth =
     try_then (objectParams [(''worktrees'', TArray)] params meth) (\<lambda>v.
       let worktrees = items_of (read_field v ''worktrees''); p = method_path meth ''worktrees'' in
       try_then (assertRpcArrayLength worktrees p 100) (\<lambda>_.
       try_then (for_each (\<lambda>index worktree.
           let itemPath = item_path p index in
           if \<not> isPlainObject worktree then Inl (MustBe itemPath TObject)
           else try_then (required_type worktree ''projectId'' TNumber itemPath) (\<lambda>_.
             required_type worktree ''worktreePath'' TString itemPath)) 0 worktrees)
         (\<lambda>_. Inr v)))"

definition assertNoNullByteString :: "js_units \<Rightarrow> path \<Rightarrow> params_error + unit" where
  "assertNoNullByteString s fieldPath = (if 0 \<in> set s then Inl (ContainsNul fieldPath) else Inr ())"

definition projectWorktreeParams :: rpc_shape where
  "projectWorktreeParams = [(''projectId'', TNumber), (''worktreePath'', TString)]"

definition threadAccessParamShape :: rpc_shape where
  "threadAccessParamShape = [(''permissions?'', TArray)]"

definition cronAccessParamShape :: rpc_shape where
  "cronAccessParamShape = threadAccessParamShape @
     [(''description?'', TString), (''enabled?'', TBoolean), (''model?'', TString), (''reasoningEffort?'', TString),
      (''title?'', TString)]"

definition worktreeFileContentPageParams :: "param \<Rightarrow> string \<Rightarrow> params_error + param" where
  "worktreeFileContentPageParams params meth =
     try_then (objectParams ([(''cursor?'', TNumber), (''limitBytes?'', TNumber), (''path'', TString)] @
         projectWorktreeParams) params meth) (\<lambda>v.
       try_then (assertNoNullByteString (string_of (read_field v ''path'')) (method_path meth ''path'')) (\<lambda>_. Inr v))"

definition worktreeFileDiffParams :: "param \<Rightarrow> string \<Rightarrow> params_error + param" where
  "worktreeFileDiffParams params meth =
     try_then (objectParams ([(''change'', TObject)] @ projectWorktreeParams) params meth) (\<lambda>v.
       let change = read_field v ''change''; p = method_path meth ''change'';
           changePath = read_field change ''path''; previousPath = read_field change ''previousPath'' in
       try_then (assertRpcParamType changePath TString (field_path p (units ''path''))) (\<lambda>_.
       try_then (assertNoNullByteString (string_of changePath) (field_path p (units ''path''))) (\<lambda>_.
         if previousPath = PUndefined then Inr v
         else try_then (assertRpcParamType previousPath TNullableString (field_path p (units ''previousPath''))) (\<lambda>_.
           if is_string previousPath
           then try_then (assertNoNullByteString (string_of previousPath) (field_path p (units ''previousPath'')))
             (\<lambda>_. Inr v)
           else Inr v))))"

text \<open>The regular expression \<open>/\.images\[\d+\]\.data$/u\<close>.\<close>

definition digit_unit :: "16 word \<Rightarrow> bool" where
  "digit_unit u = (48 \<le> unat u \<and> unat u \<le> 57)"

definition image_data_path :: "path \<Rightarrow> bool" where
  "image_data_path p =
     (let tail = units ''].data''; stem = rev (take (length p - length tail) p);
          digits = takeWhile digit_unit stem; rest = drop (length digits) stem; front = rev (units ''.images['') in
      length tail \<le> length p \<and> drop (length p - length tail) p = tail \<and> digits \<noteq> [] \<and>
      take (length front) rest = front)"

definition rpcStringLimitForChatImagePath :: "path \<Rightarrow> nat option" where
  "rpcStringLimitForChatImagePath p = (if image_data_path p then Some MAX_BASE64_CHAT_IMAGE_BYTES else None)"

definition boundedSendThreadMessageParams :: "param \<Rightarrow> string \<Rightarrow> params_error + param" where
  "boundedSendThreadMessageParams params meth =
     try_then (objectParams_with [(''images?'', TArray), (''input'', TString), (''threadId'', TNumber)]
         rpcStringLimitForChatImagePath params meth) (\<lambda>v.
       if byteLength (string_of (read_field v ''input'')) > MAX_THREAD_MESSAGE_INPUT_BYTES
       then Inl (StringTooLong (method_path meth ''input'') MAX_THREAD_MESSAGE_INPUT_BYTES)
       else if read_field v ''images'' = PUndefined then Inr v
       else (let images = items_of (read_field v ''images''); p = method_path meth ''images'' in
         try_then (assertRpcArrayLength images p MAX_CHAT_IMAGE_ATTACHMENTS) (\<lambda>_.
         try_then (for_each (\<lambda>index image.
             let itemPath = item_path p index in
             if \<not> isPlainObject image then Inl (MustBe itemPath TObject)
             else try_then (required_type image ''type'' TString itemPath) (\<lambda>_.
               if read_field image ''type'' \<noteq> PString (units ''image'')
               then Inl (MustBeImage (field_path itemPath (units ''type'')))
               else try_then (required_type image ''data'' TString itemPath) (\<lambda>_.
                 required_type image ''mimeType'' TString itemPath))) 0 images)
           (\<lambda>_. Inr v))))"

definition threadExtensionEditorParams :: "param \<Rightarrow> string \<Rightarrow> params_error + param" where
  "threadExtensionEditorParams params meth =
     try_then (objectParams [(''text'', TString), (''threadId'', TNumber)] params meth) (\<lambda>v.
       if byteLength (string_of (read_field v ''text'')) > MAX_THREAD_EXTENSION_EDITOR_TEXT_BYTES
       then Inl (StringTooLong (method_path meth ''text'') MAX_THREAD_EXTENSION_EDITOR_TEXT_BYTES)
       else Inr v)"

section \<open>The table of methods\<close>

datatype rpc_validator =
    ObjectParams rpc_shape
  | OptionalObjectParams rpc_shape
  | UndefinedParams
  | ThreadStatusesParams
  | ProjectFaviconsParams
  | OpenProjectsBatchParams
  | OpenWorktreesBatchParams
  | WorktreeFileContentPageParams
  | WorktreeFileDiffParams
  | SendThreadMessageParams
  | ThreadExtensionEditorParams

fun run_validator :: "rpc_validator \<Rightarrow> param \<Rightarrow> string \<Rightarrow> params_error + param" where
  "run_validator (ObjectParams shape) = objectParams shape"
| "run_validator (OptionalObjectParams shape) = optionalObjectParams shape"
| "run_validator UndefinedParams = undefinedParams"
| "run_validator ThreadStatusesParams = boundedThreadStatusesParams"
| "run_validator ProjectFaviconsParams = boundedProjectFaviconsParams"
| "run_validator OpenProjectsBatchParams = boundedOpenProjectsBatchParams"
| "run_validator OpenWorktreesBatchParams = boundedOpenWorktreesBatchParams"
| "run_validator WorktreeFileContentPageParams = worktreeFileContentPageParams"
| "run_validator WorktreeFileDiffParams = worktreeFileDiffParams"
| "run_validator SendThreadMessageParams = boundedSendThreadMessageParams"
| "run_validator ThreadExtensionEditorParams = threadExtensionEditorParams"

text \<open>The object literal \<open>rpcParamValidators\<close>, in three stretches of its lines.\<close>

definition rpcParamValidators1 :: "(string \<times> rpc_validator) list" where
  "rpcParamValidators1 =
     [(''approveThreadStartRequest'', ObjectParams [(''requestId'', TString)]),
      (''closeProject'', ObjectParams [(''projectId'', TNumber)]),
      (''closeTerminal'', ObjectParams [(''terminalId'', TString)]),
      (''closeWorktree'', ObjectParams projectWorktreeParams),
      (''createCalendar'', ObjectParams [(''color?'', TNullableString), (''isPublic?'', TNullableBoolean),
        (''publicSlug?'', TNullableString), (''title'', TString)]),
      (''createCalendarEvent'', ObjectParams [(''allDay?'', TNullableBoolean), (''calendarId'', TNumber),
        (''description?'', TNullableString), (''endAt?'', TNullableString), (''endDate?'', TNullableString),
        (''location?'', TNullableString), (''recurrenceRule?'', TNullableString), (''reminders?'', TArray),
        (''startAt?'', TNullableString), (''startDate?'', TNullableString), (''timezone'', TString),
        (''title'', TString)]),
      (''createExternalIcsCalendar'', ObjectParams [(''color?'', TNullableString), (''title'', TString),
        (''url'', TString)]),
      (''createPluginIngressLinkCode'', ObjectParams [(''pluginId'', TString), (''sourceId'', TString)]),
      (''createTerminal'', ObjectParams [(''cols?'', TNumber), (''command?'', TNullableString),
        (''createdFromThreadId?'', TNullableNumber), (''cwd?'', TNullableString), (''dir?'',
        TNullableString), (''projectId'', TNumber), (''rows?'', TNumber), (''title?'', TNullableString),
        (''worktreePath'', TString)]),
      (''createThread'', ObjectParams (threadAccessParamShape @ [(''currentProjectId?'', TNullableNumber),
        (''currentWorktreePath?'', TNullableString), (''model?'', TNullableString), (''projectId'',
        TNumber), (''reasoningEffort?'', TNullableString), (''worktreePath'', TString)])),
      (''createWorktree'', ObjectParams [(''name'', TString), (''projectId'', TNumber)]),
      (''deleteCalendar'', ObjectParams [(''calendarId'', TNumber)]),
      (''deleteCalendarEvent'', ObjectParams [(''eventId'', TNumber), (''expectedVersion?'',
        TNullableNumber), (''occurrenceStart?'', TNullableString), (''scope?'', TNullableString)]),
      (''deleteExternalIcsCalendar'', ObjectParams [(''externalCalendarId'', TNumber)]),
      (''deletePluginIngressExternalBinding'', ObjectParams [(''id'', TNumber)]),
      (''deleteProject'', ObjectParams [(''projectId'', TNumber)]),
      (''deleteThread'', ObjectParams [(''threadId'', TNumber)]),
      (''eraseMemory'', ObjectParams [(''confirm'', TString), (''evidenceIds?'', TArray), (''factIds?'',
        TArray), (''projectId'', TNumber), (''query?'', TString), (''scope?'', TString), (''worktreePath'',
        TString)]),
      (''discardEmptyThread'', ObjectParams [(''threadId'', TNumber)]),
      (''dismissCalendarNotification'', ObjectParams [(''deliveryId'', TNumber)]),
      (''dismissUserNotification'', ObjectParams [(''deliveryId'', TNumber)]),
      (''focusContext'', ObjectParams ([(''threadId?'', TNullableNumber)] @ projectWorktreeParams)),
      (''getAppBootstrap'', OptionalObjectParams [(''currentProjectId?'', TNullableNumber),
        (''currentWorktreePath?'', TNullableString), (''selectedThreadId?'', TNullableNumber)]),
      (''getCalendarBootstrap'', UndefinedParams),
      (''getMemoryEvidenceDetail'', ObjectParams [(''evidenceId'', TNumber)]),
      (''getMemoryFactDetail'', ObjectParams [(''factId'', TNumber)]),
      (''getMemoryStats'', OptionalObjectParams [(''projectId?'', TNumber), (''worktreePath?'', TString)]),
      (''getHomeDirectory'', UndefinedParams),
      (''getModelCatalog'', OptionalObjectParams [(''refresh?'', TBoolean), (''refreshProviders?'',
        TBoolean)]),
      (''getPluginInventory'', UndefinedParams),
      (''getPluginSecurityDiagnostics'', UndefinedParams),
      (''getPluginSettings'', ObjectParams [(''directoryName'', TString)]),
      (''getPluginSidecarDiagnostics'', OptionalObjectParams [(''directoryName?'', TString), (''pluginId?'',
        TString)]),
      (''getTerminalSettings'', UndefinedParams),
      (''getThread'', ObjectParams [(''cursor?'', TNullableNumber), (''includeHeavyContent?'', TBoolean),
        (''messageLimit?'', TNumber), (''threadId'', TNumber)]),
      (''getThreadMessageContent'', ObjectParams [(''messageId'', TNumber), (''threadId'', TNumber)]),
      (''getTimezoneSettings'', UndefinedParams),
      (''getUserRuntimeSettings'', UndefinedParams),
      (''getWorktreeGitCommitDiff'', ObjectParams ([(''commitHash'', TString)] @ projectWorktreeParams)),
      (''getWorktreeSnapshot'', ObjectParams projectWorktreeParams),
      (''leaveSharedCalendar'', ObjectParams [(''calendarId'', TNumber)]),
      (''listCalendarNotifications'', UndefinedParams),
      (''listCalendarOccurrences'', ObjectParams [(''end'', TString), (''start'', TString), (''timezone?'',
        TNullableString)])]"

definition rpcParamValidators2 :: "(string \<times> rpc_validator) list" where
  "rpcParamValidators2 =
     [(''listCrons'', UndefinedParams),
      (''listDirectorySuggestions'', ObjectParams [(''query'', TString)]),
      (''listMemoryEvidence'', OptionalObjectParams [(''limit?'', TNumber), (''offset?'', TNumber),
        (''projectId?'', TNumber), (''query?'', TString), (''worktreePath?'', TString)]),
      (''listMemoryRecallEvents'', OptionalObjectParams [(''limit?'', TNumber), (''projectId?'', TNumber),
        (''worktreePath?'', TString)]),
      (''listMemoryWriteEvents'', OptionalObjectParams [(''limit?'', TNumber), (''projectId?'', TNumber),
        (''worktreePath?'', TString)]),
      (''listPluginAccessGroups'', UndefinedParams),
      (''listPluginIngressSources'', UndefinedParams),
      (''listPluginIngressExternalBindings'', OptionalObjectParams [(''currentUserOnly?'', TBoolean),
        (''metidosUserId?'', TNumber), (''pluginId?'', TString), (''sourceId?'', TString)]),
      (''listPluginIngressRouteConfigs'', OptionalObjectParams [(''currentUserOnly?'', TBoolean),
        (''metidosUserId?'', TNumber), (''pluginId?'', TString), (''sourceId?'', TString)]),
      (''listProjectSkills'', ObjectParams projectWorktreeParams),
      (''listProjectWorktrees'', ObjectParams [(''includeHidden?'', TBoolean), (''projectId'', TNumber)]),
      (''listProjects'', OptionalObjectParams [(''includeClosed?'', TBoolean)]),
      (''listProjectFavicons'', ProjectFaviconsParams),
      (''logClientEvent'', ObjectParams [(''context?'', TNullableString), (''details?'', TObject),
        (''message'', TString), (''route?'', TNullableString), (''severity'', TString), (''timestamp?'',
        TNullableString)]),
      (''listTerminals'', UndefinedParams),
      (''listThreadStatuses'', ThreadStatusesParams),
      (''listThreads'', OptionalObjectParams [(''limit?'', TNumber), (''offset?'', TNumber)]),
      (''listUserNotifications'', UndefinedParams),
      (''listWorktreeGitHistory'', ObjectParams ([(''limit?'', TNumber), (''offset?'', TNumber)] @
        projectWorktreeParams)),
      (''markThreadErrorSeen'', ObjectParams [(''threadId'', TNumber)]),
      (''newCron'', ObjectParams (cronAccessParamShape @ [(''projectId'', TNumber), (''prompt'', TString),
        (''schedule'', TString), (''worktreePath'', TString)])),
      (''openProject'', ObjectParams [(''createIfMissing?'', TBoolean), (''initGitIfNeeded?'', TBoolean),
        (''name?'', TNullableString), (''pinWorktree?'', TBoolean), (''projectPath'', TString)]),
      (''openProjectsBatch'', OpenProjectsBatchParams),
      (''openWorktree'', ObjectParams projectWorktreeParams),
      (''openWorktreesBatch'', OpenWorktreesBatchParams),
      (''readWorktreeFileContentPage'', WorktreeFileContentPageParams),
      (''readWorktreeFileDiff'', WorktreeFileDiffParams),
      (''refreshExternalIcsCalendar'', ObjectParams [(''externalCalendarId'', TNumber)]),
      (''renameTerminal'', ObjectParams [(''terminalId'', TString), (''title'', TString)]),
      (''renameThread'', ObjectParams [(''summary?'', TNullableString), (''threadId'', TNumber), (''title'',
        TString)]),
      (''requestThreadStart'', ObjectParams [(''autoStart'', TNullableBoolean), (''input'', TString),
        (''model'', TNullableString), (''permissions?'', TArray), (''projectId'', TNumber),
        (''reasoningEffort'', TNullableString), (''worktreePath'', TString)]),
      (''searchMemoryFacts'', OptionalObjectParams [(''factType?'', TString), (''limit?'', TNumber),
        (''memoryKind?'', TString), (''offset?'', TNumber), (''projectId?'', TNumber), (''query?'',
        TString), (''scopeEntity?'', TString), (''sort?'', TString), (''status?'', TString),
        (''worktreePath?'', TString)]),
      (''respondThreadExtensionUi'', ObjectParams [(''response'', TObject), (''threadId'', TNumber)]),
      (''runCronNow'', ObjectParams [(''cronJobId'', TNumber)]),
      (''runPluginAdminAction'', ObjectParams [(''action'', TString), (''confirmation?'', TString),
        (''directoryName'', TString)]),
      (''runPluginLifecycleAction'', ObjectParams [(''action'', TString), (''directoryName'', TString)]),
      (''sendThreadMessage'', SendThreadMessageParams),
      (''setActiveWorktree'', ObjectParams [(''projectId'', TNullableNumber), (''worktreePath'',
        TNullableString)])]"

definition rpcParamValidators3 :: "(string \<times> rpc_validator) list" where
  "rpcParamValidators3 =
     [(''setPluginIngressExternalBindingEnabled'', ObjectParams [(''enabled'', TBoolean), (''id'',
        TNumber)]),
      (''upsertPluginIngressRouteConfig'', ObjectParams [(''enabled'', TBoolean), (''model'',
        TNullableString), (''permissions'', TArray), (''pluginId'', TString), (''projectId'', TNumber),
        (''sourceId'', TString), (''worktreePath'', TString)]),
      (''setCalendarShare'', ObjectParams [(''calendarId'', TNumber), (''permission'', TNullableString),
        (''userId'', TNumber)]),
      (''setThreadPinned'', ObjectParams [(''pinned'', TBoolean), (''threadId'', TNumber)]),
      (''setWorktreePinned'', ObjectParams ([(''pinned'', TBoolean)] @ projectWorktreeParams)),
      (''snoozeCalendarNotification'', ObjectParams [(''deliveryId'', TNumber), (''snoozedUntil'',
        TString)]),
      (''stopThreadTurn'', ObjectParams [(''threadId'', TNumber)]),
      (''updateCalendar'', ObjectParams [(''calendarId'', TNumber), (''color?'', TNullableString),
        (''isPublic?'', TNullableBoolean), (''publicSlug?'', TNullableString), (''title?'',
        TNullableString)]),
      (''updateCalendarEvent'', ObjectParams [(''allDay?'', TNullableBoolean), (''calendarId?'', TNumber),
        (''description?'', TNullableString), (''endAt?'', TNullableString), (''endDate?'', TNullableString),
        (''eventId'', TNumber), (''expectedVersion?'', TNullableNumber), (''location?'', TNullableString),
        (''occurrenceStart?'', TNullableString), (''recurrenceRule?'', TNullableString), (''reminders?'',
        TArray), (''scope?'', TNullableString), (''startAt?'', TNullableString), (''startDate?'',
        TNullableString), (''timezone?'', TString), (''title?'', TString)]),
      (''updateCalendarNotificationSettings'', ObjectParams [(''browserEnabled?'', TBoolean),
        (''defaultReminders?'', TArray), (''inAppEnabled?'', TBoolean), (''ntfyAuthType?'', TString),
        (''ntfyEnabled?'', TBoolean), (''ntfyPriority?'', TString), (''ntfyServerUrl?'', TString),
        (''ntfyTopic?'', TString), (''ntfyUsername?'', TString)]),
      (''updateCalendarPreference'', ObjectParams [(''calendarId'', TNumber), (''colorOverride?'',
        TNullableString), (''notificationChannels?'', TArray), (''notificationsEnabled?'',
        TNullableBoolean), (''visible?'', TNullableBoolean)]),
      (''updateCron'', ObjectParams (cronAccessParamShape @ [(''cronJobId'', TNumber), (''deleted?'',
        TBoolean), (''projectId?'', TNumber), (''prompt?'', TString), (''schedule?'', TString),
        (''worktreePath?'', TString)])),
      (''updateExternalIcsCalendar'', ObjectParams [(''externalCalendarId'', TNumber), (''color?'',
        TNullableString), (''enabled?'', TNullableBoolean), (''notificationMode?'', TNullableString),
        (''notificationsEnabled?'', TNullableBoolean), (''refreshIntervalMinutes?'', TNullableNumber),
        (''title?'', TNullableString), (''url?'', TNullableString), (''visible?'', TNullableBoolean)]),
      (''updatePluginSettings'', ObjectParams [(''directoryName'', TString), (''values'', TRecord)]),
      (''updateTerminalSettings'', ObjectParams [(''defaultShell?'', TString), (''replayBufferBytes?'',
        TNumber)]),
      (''updateThreadAccess'', ObjectParams (threadAccessParamShape @ [(''threadId'', TNumber)])),
      (''updateThreadExtensionEditor'', ThreadExtensionEditorParams),
      (''updateThreadMetadata'', ObjectParams [(''pinned?'', TBoolean), (''summary?'', TNullableString),
        (''threadId'', TNumber), (''title?'', TString)]),
      (''updateThreadModel'', ObjectParams [(''model'', TString), (''threadId'', TNumber)]),
      (''updateThreadReasoningEffort'', ObjectParams [(''reasoningEffort'', TString), (''threadId'',
        TNumber)]),
      (''updateTimezoneSettings'', ObjectParams [(''timezone?'', TNullableString)]),
      (''updateUserRuntimeSettings'', ObjectParams [(''commandTimeoutSeconds?'', TNumber)])]"

definition rpcParamValidators :: "(string \<times> rpc_validator) list" where
  "rpcParamValidators = rpcParamValidators1 @ rpcParamValidators2 @ rpcParamValidators3"

text \<open>
  An object literal also has the members of \<open>Object.prototype\<close>: \<open>in\<close> finds them and a property read gives
  them. Called as a validator, without a receiver, \<open>constructor\<close> returns its object argument (an empty object
  for \<open>undefined\<close> and \<open>null\<close>, a wrapper for a primitive), \<open>toString\<close> a constant text and \<open>isPrototypeOf\<close> false
  for a primitive; the others throw, and \<open>__proto__\<close> is no function.
\<close>

definition object_prototype_members :: "string list" where
  "object_prototype_members =
     [''constructor'', ''toString'', ''toLocaleString'', ''valueOf'', ''hasOwnProperty'', ''isPrototypeOf'',
      ''propertyIsEnumerable'', ''__defineGetter__'', ''__defineSetter__'', ''__lookupGetter__'', ''__lookupSetter__'',
      ''__proto__'']"

datatype validated = Params param | Boxed param

definition is_object :: "param \<Rightarrow> bool" where
  "is_object v = (isPlainObject v \<or> is_array v)"

definition inherited_validator :: "string \<Rightarrow> param \<Rightarrow> params_error + validated" where
  "inherited_validator name params =
     (if name = ''constructor'' then
        (if params = PUndefined \<or> params = PNull then Inr (Params (PObject [] None))
         else if is_object params then Inr (Params params) else Inr (Boxed params))
      else if name = ''toString'' then Inr (Params (PString (units ''[object Undefined]'')))
      else if name = ''isPrototypeOf'' \<and> \<not> is_object params then Inr (Params (PBool False))
      else if name = ''__proto__'' then Inl InvalidMethod
      else Inl HostTypeError)"

definition validateRpcRequestParams :: "string \<Rightarrow> param \<Rightarrow> params_error + validated" where
  "validateRpcRequestParams meth params =
     (case map_of rpcParamValidators meth of
        Some validator \<Rightarrow> try_then (run_validator validator params meth) (\<lambda>v. Inr (Params v))
      | None \<Rightarrow>
          (if meth \<in> set object_prototype_members then inherited_validator meth params
           else Inl InvalidMethod))"

section \<open>Client messages\<close>

definition isSafeRpcRequestId :: "param \<Rightarrow> bool" where
  "isSafeRpcRequestId v =
     (case v of
        PNumber n \<Rightarrow> f64_finite n \<and> f64_integral n \<and> 0 \<le> f64_floor n \<and> f64_floor n < 2 ^ 53
      | _ \<Rightarrow> False)"

datatype rpc_priority = Background | Default | Foreground

datatype client_message =
    CancelMessage "64 word"
  | RequestMessage "64 word" string validated rpc_priority "int option"

definition normalizeTimeoutMs :: "param \<Rightarrow> int option" where
  "normalizeTimeoutMs v =
     (case v of
        PNumber n \<Rightarrow>
          (if \<not> f64_finite n \<or> \<not> f64_positive n then None
           else Some (min MAX_RPC_REQUEST_TIMEOUT_MS (max 1 (f64_floor n))))
      | _ \<Rightarrow> None)"

definition normalizeRpcRequestPriority :: "param \<Rightarrow> rpc_priority" where
  "normalizeRpcRequestPriority v =
     (if v = PString (units ''background'') then Background
      else if v = PString (units ''default'') then Default
      else if v = PString (units ''foreground'') then Foreground
      else Default)"

text \<open>\<open>method in rpcHandlers\<close>: the handlers have the names of the validators.\<close>

definition find_method :: "param \<Rightarrow> string option" where
  "find_method v = find (\<lambda>name. v = PString (units name)) (map fst rpcParamValidators @ object_prototype_members)"

text \<open>A property of the parsed message; \<open>null\<close> has none.\<close>

definition member :: "param \<Rightarrow> string \<Rightarrow> params_error + param" where
  "member parsed name = (if parsed = PNull \<or> parsed = PUndefined then Inl HostTypeError else Inr (read_field parsed name))"

definition number_of :: "param \<Rightarrow> 64 word" where
  "number_of v = (case v of PNumber n \<Rightarrow> n | _ \<Rightarrow> 0)"

definition parseRpcRequestMessage :: "param \<Rightarrow> params_error + client_message" where
  "parseRpcRequestMessage parsed =
     try_then (member parsed ''method'') (\<lambda>meth.
       if read_field parsed ''type'' \<noteq> PString (units ''request'') \<or> \<not> isSafeRpcRequestId (read_field parsed ''id'')
       then Inl InvalidPayload
       else (case find_method meth of
          None \<Rightarrow> Inl InvalidPayload
        | Some requestMethod \<Rightarrow>
            (let timeoutMs = normalizeTimeoutMs (read_field parsed ''timeoutMs'') in
             try_then (validateRpcRequestParams requestMethod (read_field parsed ''params'')) (\<lambda>params.
               Inr (RequestMessage (number_of (read_field parsed ''id'')) requestMethod params
                 (normalizeRpcRequestPriority (read_field parsed ''priority'')) timeoutMs)))))"

definition parseRpcClientMessage :: "param \<Rightarrow> params_error + client_message" where
  "parseRpcClientMessage parsed =
     try_then (member parsed ''type'') (\<lambda>kind.
       if kind = PString (units ''cancel'') \<and> isSafeRpcRequestId (read_field parsed ''id'')
       then Inr (CancelMessage (number_of (read_field parsed ''id'')))
       else parseRpcRequestMessage parsed)"

section \<open>Facts\<close>

text \<open>The structural measures of a value: its strings with their paths, its nesting, its keys and items.\<close>

fun leaves :: "path \<Rightarrow> param \<Rightarrow> (path \<times> js_units) list"
  and leaves_items :: "path \<Rightarrow> nat \<Rightarrow> param list \<Rightarrow> (path \<times> js_units) list"
  and leaves_fields :: "path \<Rightarrow> (js_units \<times> param) list \<Rightarrow> (path \<times> js_units) list" where
  "leaves p (PString s) = [(p, s)]"
| "leaves p (PArray vs) = leaves_items p 0 vs"
| "leaves p (PObject own proto) = leaves_fields p own"
| "leaves p v = []"
| "leaves_items p i [] = []"
| "leaves_items p i (v # vs) = leaves (item_path p i) v @ leaves_items p (Suc i) vs"
| "leaves_fields p [] = []"
| "leaves_fields p ((k, v) # own) = leaves (field_path p k) v @ leaves_fields p own"

fun depth_ok :: "nat \<Rightarrow> param \<Rightarrow> bool" where
  "depth_ok d (PArray vs) = (d \<le> 12 \<and> list_all (depth_ok (Suc d)) vs)"
| "depth_ok d (PObject own proto) = (d \<le> 12 \<and> list_all (\<lambda>(k, v). depth_ok (Suc d) v) own)"
| "depth_ok d v = True"

fun total_keys :: "param \<Rightarrow> nat" where
  "total_keys (PArray vs) = sum_list (map total_keys vs)"
| "total_keys (PObject own proto) = length own + sum_list (map (\<lambda>(k, v). total_keys v) own)"
| "total_keys v = 0"

fun total_items :: "param \<Rightarrow> nat" where
  "total_items (PArray vs) = length vs + sum_list (map total_items vs)"
| "total_items (PObject own proto) = sum_list (map (\<lambda>(k, v). total_items v) own)"
| "total_items v = 0"

lemma set_leaves_items:
  "set (leaves_items p n vs) = (\<Union>(i, v) \<in> set (List.enumerate n vs). set (leaves (item_path p i) v))"
  by (induction vs arbitrary: n) auto

lemma set_leaves_fields: "set (leaves_fields p own) = (\<Union>(k, v) \<in> set own. set (leaves (field_path p k) v))"
  by (induction own) auto

lemma enumerate_snd: "sum_list (map (\<lambda>(i, v). f v) (List.enumerate n vs)) = sum_list (map f vs)"
  by (induction vs arbitrary: n) auto

lemma enumerate_all: "(\<forall>(i, v) \<in> set (List.enumerate n vs). P v) \<longleftrightarrow> list_all P vs"
  by (induction vs arbitrary: n) auto

definition entry_ok :: "(path \<Rightarrow> nat) \<Rightarrow> nat \<times> path \<times> param \<Rightarrow> bool" where
  "entry_ok limit = (\<lambda>(d, p, v). (\<forall>(q, s) \<in> set (leaves p v). byteLength s \<le> limit q) \<and> depth_ok d v)"

lemma array_entries:
  "(\<forall>e \<in> set (map (\<lambda>(i, v). (d + 1, item_path p i, v)) (List.enumerate 0 vs)). entry_ok limit e) \<longleftrightarrow>
     (\<forall>(q, s) \<in> set (leaves p (PArray vs)). byteLength s \<le> limit q) \<and> list_all (depth_ok (Suc d)) vs"
  unfolding enumerate_all [of 0 vs "depth_ok (Suc d)", symmetric]
  by (simp add: entry_ok_def set_leaves_items case_prod_unfold ball_conj_distrib)

lemma object_entries:
  "(\<forall>e \<in> set (map (\<lambda>(k, v). (d + 1, field_path p k, v)) own). entry_ok limit e) \<longleftrightarrow>
     (\<forall>(q, s) \<in> set (leaves p (PObject own proto)). byteLength s \<le> limit q) \<and> list_all (\<lambda>(k, v). depth_ok (Suc d) v) own"
  by (simp add: entry_ok_def set_leaves_fields list_all_iff case_prod_unfold ball_conj_distrib)

definition stack_sum :: "(param \<Rightarrow> nat) \<Rightarrow> (nat \<times> path \<times> param) list \<Rightarrow> nat" where
  "stack_sum f stack = sum_list (map (\<lambda>(d, p, v). f v) stack)"

lemma stack_sum_push:
  "stack_sum f (rev (map (\<lambda>(i, v). (d, item_path p i, v)) (List.enumerate 0 vs)) @ stack) =
     sum_list (map f vs) + stack_sum f stack"
  "stack_sum f (rev (map (\<lambda>(k, v). (d, field_path p k, v)) own) @ stack) =
     sum_list (map (\<lambda>(k, v). f v) own) + stack_sum f stack"
  by (simp_all add: stack_sum_def rev_map [symmetric] sum_list_rev comp_def case_prod_unfold
      enumerate_snd [unfolded case_prod_unfold])

lemma bounds_loop_exact:
  "keyCount \<le> 1000 \<Longrightarrow> arrayItemCount \<le> 1000 \<Longrightarrow>
   bounds_loop limit topPath stack keyCount arrayItemCount = Inr () \<longleftrightarrow>
     (\<forall>e \<in> set stack. entry_ok limit e) \<and> keyCount + stack_sum total_keys stack \<le> 1000 \<and>
     arrayItemCount + stack_sum total_items stack \<le> 1000"
proof (induction limit topPath stack keyCount arrayItemCount rule: bounds_loop.induct)
  case (1 limit topPath keyCount arrayItemCount)
  then show ?case by (simp add: stack_sum_def)
next
  case (2 limit topPath depth p v stack keyCount arrayItemCount)
  show ?case
  proof (cases v)
    case (PString s)
    then show ?thesis
      using "2.IH"(5) [OF PString, of "()"] "2.prems"
      by (cases "byteLength s \<le> limit p")
        (auto simp: assertRpcStringByteLength_def entry_ok_def stack_sum_def)
  next
    case (PArray vs)
    show ?thesis
    proof (cases "depth > 12 \<or> arrayItemCount + length vs > 1000")
      case True
      then show ?thesis using PArray
        by (auto simp: MAX_RPC_RECORD_DEPTH_def MAX_RPC_RECORD_ARRAY_ITEMS_def entry_ok_def stack_sum_def)
    next
      case False
      let ?new = "rev (map (\<lambda>(i, x). (depth + 1, item_path p i, x)) (List.enumerate 0 vs)) @ stack"
      have step: "bounds_loop limit topPath ((depth, p, v) # stack) keyCount arrayItemCount =
          bounds_loop limit topPath ?new keyCount (arrayItemCount + length vs)"
        using False PArray by (simp add: MAX_RPC_RECORD_DEPTH_def MAX_RPC_RECORD_ARRAY_ITEMS_def)
      have ih: "bounds_loop limit topPath ?new keyCount (arrayItemCount + length vs) = Inr () \<longleftrightarrow>
          (\<forall>e \<in> set ?new. entry_ok limit e) \<and> keyCount + stack_sum total_keys ?new \<le> 1000 \<and>
          (arrayItemCount + length vs) + stack_sum total_items ?new \<le> 1000"
        by (rule "2.IH"(6) [OF PArray])
          (use False "2.prems" in \<open>simp_all add: MAX_RPC_RECORD_DEPTH_def MAX_RPC_RECORD_ARRAY_ITEMS_def\<close>)
      have entries: "(\<forall>e \<in> set ?new. entry_ok limit e) \<longleftrightarrow> (\<forall>e \<in> set ((depth, p, v) # stack). entry_ok limit e)"
        using array_entries [of depth p vs limit] False
        by (simp only: set_append set_rev ball_Un list.set ball_simps PArray) (auto simp: entry_ok_def)
      have sums: "stack_sum total_keys ?new = stack_sum total_keys ((depth, p, v) # stack)"
        "length vs + stack_sum total_items ?new = stack_sum total_items ((depth, p, v) # stack)"
        unfolding stack_sum_push by (simp_all add: stack_sum_def PArray)
      show ?thesis unfolding step ih entries using sums by linarith
    qed
  next
    case (PObject own proto)
    show ?thesis
    proof (cases "depth > 12 \<or> keyCount + length own > 1000")
      case True
      then show ?thesis using PObject
        by (auto simp: MAX_RPC_RECORD_DEPTH_def MAX_RPC_RECORD_KEYS_def entry_ok_def stack_sum_def)
    next
      case False
      let ?new = "rev (map (\<lambda>(k, x). (depth + 1, field_path p k, x)) own) @ stack"
      have step: "bounds_loop limit topPath ((depth, p, v) # stack) keyCount arrayItemCount =
          bounds_loop limit topPath ?new (keyCount + length own) arrayItemCount"
        using False PObject by (simp add: MAX_RPC_RECORD_DEPTH_def MAX_RPC_RECORD_KEYS_def)
      have ih: "bounds_loop limit topPath ?new (keyCount + length own) arrayItemCount = Inr () \<longleftrightarrow>
          (\<forall>e \<in> set ?new. entry_ok limit e) \<and> (keyCount + length own) + stack_sum total_keys ?new \<le> 1000 \<and>
          arrayItemCount + stack_sum total_items ?new \<le> 1000"
        by (rule "2.IH"(7) [OF PObject])
          (use False "2.prems" in \<open>simp_all add: MAX_RPC_RECORD_DEPTH_def MAX_RPC_RECORD_KEYS_def\<close>)
      have entries: "(\<forall>e \<in> set ?new. entry_ok limit e) \<longleftrightarrow> (\<forall>e \<in> set ((depth, p, v) # stack). entry_ok limit e)"
        using object_entries [of depth p own limit proto] False
        by (simp only: set_append set_rev ball_Un list.set ball_simps PObject) (auto simp: entry_ok_def)
      have sums: "length own + stack_sum total_keys ?new = stack_sum total_keys ((depth, p, v) # stack)"
        "stack_sum total_items ?new = stack_sum total_items ((depth, p, v) # stack)"
        unfolding stack_sum_push by (simp_all add: stack_sum_def PObject)
      show ?thesis unfolding step ih entries using sums by linarith
    qed
  qed (use "2.IH" "2.prems" in \<open>simp_all add: entry_ok_def stack_sum_def\<close>)
qed

declare bounds_loop.simps [simp del]

text \<open>What the gate bounds of a value: every string, the nesting, the keys and the items of all its parts.\<close>

definition bounded :: "(path \<Rightarrow> nat) \<Rightarrow> path \<Rightarrow> param \<Rightarrow> bool" where
  "bounded limit p v =
     (list_all (\<lambda>(q, s). byteLength s \<le> limit q) (leaves p v) \<and> depth_ok 0 v \<and>
      total_keys v \<le> 1000 \<and> total_items v \<le> 1000)"

lemma bounds_start:
  "bounds_loop limit p [(0, p, v)] 0 0 = Inr () \<longleftrightarrow> bounded limit p v"
  by (simp add: bounds_loop_exact bounded_def entry_ok_def stack_sum_def list_all_iff conj_assoc)

text \<open>Whether a value has a type.\<close>

fun has_type :: "rpc_param_type \<Rightarrow> path \<Rightarrow> param \<Rightarrow> bool" where
  "has_type TArray p v = is_array v"
| "has_type TBoolean p v = is_bool v"
| "has_type TNullableBoolean p v = (is_bool v \<or> v = PNull)"
| "has_type TNullableNumber p v = (is_number v \<or> v = PNull)"
| "has_type TNullableString p v = (is_string v \<or> v = PNull)"
| "has_type TNumber p v = is_finite_number v"
| "has_type TObject p v = isPlainObject v"
| "has_type TRecord p v = (isPlainObject v \<and> bounded (\<lambda>_. 64 * 1024) p v)"
| "has_type TString p v = is_string v"

lemma param_type_iff: "assertRpcParamType v expected p = Inr () \<longleftrightarrow> has_type expected p v"
  by (cases expected) (auto simp: assertRpcParamType_def assertRpcRecordBounds_def bounds_start
      MAX_RPC_RECORD_STRING_BYTES_def)

definition field_ok :: "string \<Rightarrow> param \<Rightarrow> string \<times> rpc_param_type \<Rightarrow> bool" where
  "field_ok meth params = (\<lambda>(field, typeName).
     let val = read_field params (field_name field) in
     if val = PUndefined then is_optional field else has_type typeName (method_path meth (field_name field)) val)"

lemma try_then_unit: "try_then (r :: 'e + unit) (\<lambda>_. q) = Inr y \<longleftrightarrow> r = Inr () \<and> q = Inr y"
  by (cases r) auto

lemma check_fields_iff: "check_fields meth params shape = Inr () \<longleftrightarrow> list_all (field_ok meth params) shape"
proof (induction shape)
  case (Cons entry shape)
  obtain field typeName where e: "entry = (field, typeName)" by (cases entry)
  show ?case
    using Cons.IH by (auto simp: e field_ok_def Let_def try_then_Inr param_type_iff)
qed simp

lemma object_params_iff:
  "objectParams_with shape limits params meth = Inr v \<longleftrightarrow>
     v = params \<and> isPlainObject params \<and>
     bounded (\<lambda>p. nullish (limits p) (1024 * 1024)) (units meth) params \<and> list_all (field_ok meth params) shape"
  by (auto simp: objectParams_with_def try_then_unit assertRpcParamBounds_def bounds_start check_fields_iff
      MAX_RPC_PARAM_STRING_BYTES_def)

lemma object_params_bounded:
  "objectParams shape params meth = Inr v \<Longrightarrow>
     v = params \<and> isPlainObject params \<and> bounded (\<lambda>_. 1024 * 1024) (units meth) params"
  by (simp add: objectParams_def object_params_iff nullish_def)

text \<open>No validator changes the parameters, and all but those of methods without any look at them.\<close>

lemma nullish_image:
  "nullish (rpcStringLimitForChatImagePath p) (1024 * 1024) =
     (if image_data_path p then MAX_BASE64_CHAT_IMAGE_BYTES else 1024 * 1024)"
  by (simp add: rpcStringLimitForChatImagePath_def nullish_def)

definition gate_limit :: "path \<Rightarrow> nat" where
  "gate_limit p = (if image_data_path p then MAX_BASE64_CHAT_IMAGE_BYTES else 1024 * 1024)"

lemma gate_limit_ge: "1024 * 1024 \<le> gate_limit p"
  by (simp add: gate_limit_def MAX_BASE64_CHAT_IMAGE_BYTES_def MAX_CHAT_IMAGE_BYTES_def ceil_div_def)

lemma bounded_mono: "bounded (\<lambda>_. 1024 * 1024) p v \<Longrightarrow> bounded gate_limit p v"
  using gate_limit_ge unfolding bounded_def list_all_iff by (fastforce intro: order_trans)

lemma validator_bounded:
  assumes "run_validator validator params meth = Inr v"
  shows "v = params \<and> (params = PUndefined \<or> isPlainObject params \<and> bounded gate_limit (units meth) params)"
proof -
  have plain: "v' = params \<and> isPlainObject params \<and> bounded gate_limit (units meth) params"
    if "objectParams shape params meth = Inr v'" for shape v'
    using object_params_bounded [OF that] bounded_mono by blast
  have images: "v' = params \<and> isPlainObject params \<and> bounded gate_limit (units meth) params"
    if "objectParams_with shape rpcStringLimitForChatImagePath params meth = Inr v'" for shape v'
    using that unfolding object_params_iff nullish_image gate_limit_def [symmetric, abs_def] by blast
  show ?thesis
  proof (cases validator)
    case (ObjectParams shape)
    then show ?thesis using assms plain by auto
  next
    case (OptionalObjectParams shape)
    then show ?thesis using assms plain by (auto simp: optionalObjectParams_def split: if_split_asm)
  next
    case UndefinedParams
    then show ?thesis using assms by (auto simp: undefinedParams_def split: if_split_asm)
  next
    case ThreadStatusesParams
    then show ?thesis using assms plain by (auto simp: boundedThreadStatusesParams_def try_then_Inr Let_def)
  next
    case ProjectFaviconsParams
    then show ?thesis using assms plain by (auto simp: boundedProjectFaviconsParams_def try_then_Inr Let_def)
  next
    case OpenProjectsBatchParams
    then show ?thesis using assms plain
      unfolding OpenProjectsBatchParams run_validator.simps boundedOpenProjectsBatchParams_def Let_def try_then_Inr by blast
  next
    case OpenWorktreesBatchParams
    then show ?thesis using assms plain
      unfolding OpenWorktreesBatchParams run_validator.simps boundedOpenWorktreesBatchParams_def Let_def try_then_Inr by blast
  next
    case WorktreeFileContentPageParams
    then show ?thesis using assms plain
      unfolding WorktreeFileContentPageParams run_validator.simps worktreeFileContentPageParams_def try_then_Inr by blast
  next
    case WorktreeFileDiffParams
    then show ?thesis using assms plain
      by (auto simp: worktreeFileDiffParams_def try_then_Inr Let_def split: if_split_asm)
  next
    case SendThreadMessageParams
    then obtain w where w: "objectParams_with [(''images?'', TArray), (''input'', TString), (''threadId'', TNumber)]
        rpcStringLimitForChatImagePath params meth = Inr w"
      using assms unfolding SendThreadMessageParams run_validator.simps boundedSendThreadMessageParams_def try_then_Inr by blast
    then have "v = w"
      using assms unfolding SendThreadMessageParams run_validator.simps boundedSendThreadMessageParams_def try_then_Inr Let_def
      by (auto simp: try_then_Inr split: if_split_asm)
    then show ?thesis using images [OF w] by blast
  next
    case ThreadExtensionEditorParams
    then show ?thesis using assms plain
      by (auto simp: threadExtensionEditorParams_def try_then_Inr split: if_split_asm)
  qed
qed

section \<open>Properties\<close>

text \<open>
  C12. The parameters of a method with a plain shape are admitted, unchanged, exactly when they are an
  object that is not an array, no string in them has more than a MiB, they nest at most thirteen
  containers, hold at most 1000 keys and 1000 array items in all, and each field of the shape is there
  with its type or is optional and absent.
\<close>

theorem rpc_object_params_exact:
  assumes "map_of rpcParamValidators meth = Some (ObjectParams shape)"
  shows "validateRpcRequestParams meth params = Inr r \<longleftrightarrow>
    r = Params params \<and> isPlainObject params \<and>
    list_all (\<lambda>(p, s). byteLength s \<le> 1024 * 1024) (leaves (units meth) params) \<and> depth_ok 0 params \<and>
    total_keys params \<le> 1000 \<and> total_items params \<le> 1000 \<and>
    list_all (\<lambda>(field, typeName).
      if read_field params (field_name field) = PUndefined then is_optional field
      else has_type typeName (method_path meth (field_name field)) (read_field params (field_name field))) shape"
proof -
  have "validateRpcRequestParams meth params = try_then (objectParams shape params meth) (\<lambda>v. Inr (Params v))"
    using assms by (simp add: validateRpcRequestParams_def)
  moreover have "objectParams shape params meth = Inr v \<longleftrightarrow> v = params \<and> isPlainObject params \<and>
      bounded (\<lambda>_. 1024 * 1024) (units meth) params \<and> list_all (field_ok meth params) shape" for v
    by (simp add: objectParams_def object_params_iff nullish_def)
  ultimately show ?thesis
    by (auto simp: try_then_Inr bounded_def field_ok_def [abs_def] Let_def)
qed

text \<open>
  C13. When parameters are admitted, the method is one of the table or a member that every object inherits. For a method of
  the table they are handed on unchanged, and are absent or an object whose own properties are within the structural
  bounds, with a larger limit only for strings under a path that ends as an image's data does. For an inherited member nothing is checked: what is handed on is what that
  member returns.
\<close>

theorem rpc_admitted_params_bounded:
  assumes "validateRpcRequestParams meth params = Inr r"
  shows "if meth \<in> set (map fst rpcParamValidators)
    then r = Params params \<and> (params = PUndefined \<or> isPlainObject params \<and>
      list_all (\<lambda>(p, s). byteLength s \<le> gate_limit p) (leaves (units meth) params) \<and> depth_ok 0 params \<and>
      total_keys params \<le> 1000 \<and> total_items params \<le> 1000)
    else meth \<in> set object_prototype_members \<and> inherited_validator meth params = Inr r"
proof (cases "map_of rpcParamValidators meth")
  case None
  then have "meth \<notin> set (map fst rpcParamValidators)" by (simp add: map_of_eq_None_iff)
  then show ?thesis using assms None by (auto simp: validateRpcRequestParams_def split: if_split_asm)
next
  case (Some validator)
  then have "meth \<in> set (map fst rpcParamValidators)" by (metis domI dom_map_of_conv_image_fst set_map)
  then show ?thesis using assms Some validator_bounded [of validator params meth]
    by (auto simp: validateRpcRequestParams_def try_then_Inr bounded_def)
qed

text \<open>
  C30. An accepted client message is a cancellation or a request, with an identifier that is an integer
  from 0 to \<open>2^53 - 1\<close>; a request's timeout is absent or between one millisecond and ten minutes, and
  its method is in the table or one of the members every object inherits.
\<close>

theorem rpc_client_message_typed:
  assumes "parseRpcClientMessage parsed = Inr message"
  shows "case message of
      CancelMessage n \<Rightarrow> f64_finite n \<and> f64_integral n \<and> 0 \<le> f64_floor n \<and> f64_floor n < 2 ^ 53
    | RequestMessage n meth params priority timeoutMs \<Rightarrow>
        f64_finite n \<and> f64_integral n \<and> 0 \<le> f64_floor n \<and> f64_floor n < 2 ^ 53 \<and>
        (case timeoutMs of None \<Rightarrow> True | Some t \<Rightarrow> 1 \<le> t \<and> t \<le> 600000) \<and>
        meth \<in> set (map fst rpcParamValidators @ object_prototype_members) \<and>
        validateRpcRequestParams meth (read_field parsed ''params'') = Inr params"
proof -
  have safe: "f64_finite (number_of v) \<and> f64_integral (number_of v) \<and> 0 \<le> f64_floor (number_of v) \<and>
      f64_floor (number_of v) < 2 ^ 53" if "isSafeRpcRequestId v" for v
    using that by (cases v) (auto simp: isSafeRpcRequestId_def number_of_def)
  have timeout: "case normalizeTimeoutMs v of None \<Rightarrow> True | Some t \<Rightarrow> 1 \<le> t \<and> t \<le> 600000" for v
    by (cases v) (auto simp: normalizeTimeoutMs_def MAX_RPC_REQUEST_TIMEOUT_MS_def)
  consider "isSafeRpcRequestId (read_field parsed ''id'')" "message = CancelMessage (number_of (read_field parsed ''id''))"
    | meth params where "isSafeRpcRequestId (read_field parsed ''id'')" "find_method (read_field parsed ''method'') = Some meth"
        "validateRpcRequestParams meth (read_field parsed ''params'') = Inr params"
        "message = RequestMessage (number_of (read_field parsed ''id'')) meth params
           (normalizeRpcRequestPriority (read_field parsed ''priority'')) (normalizeTimeoutMs (read_field parsed ''timeoutMs''))"
    using assms by (auto simp: parseRpcClientMessage_def parseRpcRequestMessage_def member_def try_then_Inr
        split: if_split_asm option.splits)
  then show ?thesis
  proof cases
    case 1
    then show ?thesis using safe by simp
  next
    case 2
    have "meth \<in> set (map fst rpcParamValidators @ object_prototype_members)"
      using 2(2) unfolding find_method_def find_Some_iff by (metis nth_mem)
    then show ?thesis using 2 safe timeout by simp
  qed
qed

section \<open>Gaps\<close>

lemma units_inject [simp]: "units s = units t \<longleftrightarrow> s = t"
proof
  assume "units s = units t"
  moreover have "inj (\<lambda>c. of_nat (of_char c) :: 16 word)"
  proof (rule injI)
    fix c d :: char
    assume "(of_nat (of_char c) :: 16 word) = of_nat (of_char d)"
    then have "(of_char c :: nat) = of_char d" by (metis unat_unit)
    then show "c = d" by (simp only: of_char_eq_iff)
  qed
  ultimately show "s = t" unfolding units_def by (rule map_injective)
qed simp

lemma find_name: "name \<in> set xs \<Longrightarrow> find (\<lambda>n. name = n) xs = Some name"
  by (induction xs) auto

lemma find_method_name:
  "name \<in> set (map fst rpcParamValidators @ object_prototype_members) \<Longrightarrow> find_method (PString (units name)) = Some name"
  by (simp only: find_method_def param.inject units_inject find_name)

definition request_message :: "string \<Rightarrow> param \<Rightarrow> param" where
  "request_message meth params = PObject
     [(units ''type'', PString (units ''request'')), (units ''id'', PNumber 0), (units ''method'', PString (units meth)),
      (units ''params'', params)] None"

lemma request_message_fields:
  "read_field (request_message meth params) ''type'' = PString (units ''request'')"
  "read_field (request_message meth params) ''id'' = PNumber 0"
  "read_field (request_message meth params) ''method'' = PString (units meth)"
  "read_field (request_message meth params) ''params'' = params"
  "read_field (request_message meth params) ''priority'' = PUndefined"
  "read_field (request_message meth params) ''timeoutMs'' = PUndefined"
  by (simp_all add: read_field_def request_message_def)

lemma zero_id: "isSafeRpcRequestId (PNumber 0)"
  by (simp add: isSafeRpcRequestId_def f64_finite_def f64_integral_def f64_floor_def f64_scaled_def Let_def)

lemma request_accepted:
  assumes "meth \<in> set (map fst rpcParamValidators @ object_prototype_members)"
    and "validateRpcRequestParams meth params = Inr r"
  shows "parseRpcClientMessage (request_message meth params) = Inr (RequestMessage 0 meth r Default None)"
proof -
  have "request_message meth params \<noteq> PNull" "request_message meth params \<noteq> PUndefined"
    by (simp_all add: request_message_def)
  then show ?thesis
    using assms zero_id find_method_name [OF assms(1)]
    by (simp add: parseRpcClientMessage_def parseRpcRequestMessage_def member_def request_message_fields
        normalizeTimeoutMs_def normalizeRpcRequestPriority_def number_of_def)
qed

text \<open>A request may name an inherited member, and its parameters then pass unchecked.\<close>

theorem rpc_constructor_unchecked:
  assumes "is_object params"
  shows "parseRpcClientMessage (request_message ''constructor'' params) =
    Inr (RequestMessage 0 ''constructor'' (Params params) Default None)"
proof (rule request_accepted)
  show "''constructor'' \<in> set (map fst rpcParamValidators @ object_prototype_members)"
    by (simp add: object_prototype_members_def)
  have "map_of rpcParamValidators ''constructor'' = None"
    by (simp add: rpcParamValidators_def rpcParamValidators1_def rpcParamValidators2_def rpcParamValidators3_def)
  then show "validateRpcRequestParams ''constructor'' params = Inr (Params params)"
    using assms by (auto simp: validateRpcRequestParams_def object_prototype_members_def inherited_validator_def
        is_object_def isPlainObject_def is_array_def)
qed

text \<open>A field read through the prototype satisfies the shape, but the bounds look at own properties only.\<close>

theorem rpc_inherited_field_unbounded:
  "validateRpcRequestParams ''updateThreadAccess''
     (PObject [(units ''threadId'', PNumber 0)] (Some (PObject [(units ''permissions'', PArray vs)] None))) =
   Inr (Params (PObject [(units ''threadId'', PNumber 0)] (Some (PObject [(units ''permissions'', PArray vs)] None))))"
proof -
  have m: "map_of rpcParamValidators ''updateThreadAccess'' =
      Some (ObjectParams (threadAccessParamShape @ [(''threadId'', TNumber)]))"
    by (simp add: rpcParamValidators_def rpcParamValidators1_def rpcParamValidators2_def rpcParamValidators3_def)
  let ?v = "PObject [(units ''threadId'', PNumber 0)] (Some (PObject [(units ''permissions'', PArray vs)] None))"
  have "objectParams (threadAccessParamShape @ [(''threadId'', TNumber)]) ?v ''updateThreadAccess'' = Inr ?v"
    unfolding objectParams_def object_params_iff
    by (simp add: isPlainObject_def bounded_def threadAccessParamShape_def field_ok_def read_field_def field_name_def
        is_optional_def ends_with_def starts_with_def is_array_def is_finite_number_def f64_finite_def)
  then show ?thesis using m by (simp add: validateRpcRequestParams_def)
qed

text \<open>The larger limit is given to the image data below any path, unexpected fields included.\<close>

theorem rpc_image_limit_anywhere:
  "rpcStringLimitForChatImagePath (field_path (item_path (field_path p (units ''images'')) n) (units ''data'')) =
     Some MAX_BASE64_CHAT_IMAGE_BYTES"
proof -
  have app: "units (s @ t) = units s @ units t" for s t by (simp add: units_def)
  let ?tail = "units ''].data''" and ?digits = "units (show_nat n)" and ?front = "units ''.images[''"
  have path: "field_path (item_path (field_path p (units ''images'')) n) (units ''data'') = p @ ?front @ ?digits @ ?tail"
    by (simp add: field_path_def item_path_def app) (simp add: units_def)
  have digits: "digit_unit u" if "u \<in> set ?digits" for u
  proof -
    have "u \<in> (\<lambda>c. of_nat (of_char c)) ` set (show_nat n)" using that by (simp add: units_def)
    then obtain c where c: "c \<in> set (show_nat n)" "u = of_nat (of_char c)" by (rule imageE) blast
    have "is_digit c" using c(1) by (rule show_nat_mem_digit)
    moreover have "unat u = of_char c" unfolding c(2) by (rule unat_unit)
    ultimately show ?thesis by (simp add: digit_unit_def is_digit_def Let_def)
  qed
  have stem: "takeWhile digit_unit (rev (p @ ?front @ ?digits)) = rev ?digits"
  proof -
    have "rev (p @ ?front @ ?digits) = rev ?digits @ rev ?front @ rev p" by simp
    moreover have "takeWhile digit_unit (rev ?front @ rev p) = []" by (simp add: units_def digit_unit_def)
    moreover have "takeWhile digit_unit (rev ?digits @ xs) = rev ?digits @ takeWhile digit_unit xs" for xs
      using digits by (subst takeWhile_append2) auto
    ultimately show ?thesis by simp
  qed
  have "?digits \<noteq> []" by (simp add: units_def)
  then have "image_data_path (p @ ?front @ ?digits @ ?tail)"
    using stem unfolding image_data_path_def Let_def by (simp add: drop_append)
  then show ?thesis unfolding path by (simp add: rpcStringLimitForChatImagePath_def)
qed

section \<open>Witnesses\<close>

definition demo_params :: param where
  "demo_params = PObject [(units ''projectId'', PNumber 0)] None"

lemma demo_validator: "map_of rpcParamValidators ''closeProject'' = Some (ObjectParams [(''projectId'', TNumber)])"
  by (simp add: rpcParamValidators_def rpcParamValidators1_def)

theorem rpc_object_params_exact_witness:
  "validateRpcRequestParams ''closeProject'' demo_params = Inr (Params demo_params)"
  unfolding rpc_object_params_exact [OF demo_validator]
  by (simp add: demo_params_def isPlainObject_def read_field_def field_name_def is_optional_def ends_with_def
      starts_with_def is_finite_number_def f64_finite_def)

theorem rpc_admitted_params_bounded_witness:
  "validateRpcRequestParams ''closeProject'' demo_params = Inr (Params demo_params) \<and> total_keys demo_params \<le> 1000"
proof -
  have "objectParams [(''projectId'', TNumber)] demo_params ''closeProject'' = Inr demo_params"
    unfolding objectParams_def object_params_iff
    by (simp add: demo_params_def isPlainObject_def bounded_def field_ok_def read_field_def field_name_def
        is_optional_def ends_with_def starts_with_def is_finite_number_def f64_finite_def)
  then have r: "validateRpcRequestParams ''closeProject'' demo_params = Inr (Params demo_params)"
    by (simp add: validateRpcRequestParams_def demo_validator)
  have "demo_params \<noteq> PUndefined" by (simp add: demo_params_def)
  moreover have "''closeProject'' \<in> set (map fst rpcParamValidators)"
    using demo_validator by (metis domI dom_map_of_conv_image_fst set_map)
  ultimately show ?thesis using rpc_admitted_params_bounded [OF r] r by auto
qed

theorem rpc_client_message_typed_witness:
  "parseRpcClientMessage (PObject [(units ''type'', PString (units ''cancel'')), (units ''id'', PNumber 0)] None) =
     Inr (CancelMessage 0) \<and> f64_integral 0"
proof -
  have r: "parseRpcClientMessage (PObject [(units ''type'', PString (units ''cancel'')), (units ''id'', PNumber 0)] None) =
      Inr (CancelMessage 0)"
    using zero_id by (simp add: parseRpcClientMessage_def member_def read_field_def number_of_def)
  show ?thesis using rpc_client_message_typed [OF r] r by simp
qed

end
