(* ===== verification/Rpc_Transport.thy ===== *)
theory Rpc_Transport
  imports Rpc_Params Js_Map
begin

text \<open>
  The WebSocket transport of the RPC server (\<^verbatim>\<open>src/bun/rpc-transport.ts\<close>): which clients are open, under
  which session each is indexed, which requests of which client are pending, and the two capacity
  limits. A client, a map of pending requests and a pending request are named by numbers that stand for the
  object's identity; \<open>maps\<close> and \<open>pendings\<close> are the heap of such objects, because a running request keeps the map
  it was registered in. A handler is asynchronous, so the work on a message is cut where the code waits: until
  its payload is parsed, until it is registered and started, and the clean-up when it ends. What the socket,
  the session check and the logger do are arguments; encoding and measurements are left out.
\<close>

section \<open>State\<close>

type_synonym client = nat
type_synonym map_address = nat
type_synonym pending_address = nat

record pending_request =
  pn_timeoutMs :: "int option"
  pn_aborted :: bool
  pn_timerArmed :: bool
  pn_canceledByClient :: bool

record rate_bucket =
  rb_tokens :: rat
  rb_updatedAtMs :: int

record transport =
  clients :: "client list"
  clientsBySessionId :: "(string, client list) jsmap"
  indexedClientSessionId :: "client \<rightharpoonup> string"
  pendingRequestsByClient :: "client \<rightharpoonup> map_address"
  pending_maps :: "map_address \<Rightarrow> (int, pending_address) jsmap"
  pending_objects :: "pending_address \<Rightarrow> pending_request"
  next_map :: map_address
  next_pending :: pending_address
  rateLimitBuckets :: "client \<rightharpoonup> rate_bucket"
  pendingRequestCount :: nat
  peakPendingRequestCount :: nat
  allClientsMicrotaskSnapshot :: "client list option"

record transport_options =
  maxPayloadBytes :: nat
  maxPendingRequests :: nat
  maxPendingRequestsPerClient :: nat
  rateLimitBurst :: rat
  rateLimitRefillPerSecond :: rat
  hasHandler :: "string \<Rightarrow> bool"

datatype transport_error =
    CapacityClient nat nat
  | CapacityServer nat nat
  | RateLimited string
  | AlreadyPending int
  | UnknownMethod string

definition no_pending :: pending_request where
  "no_pending = \<lparr> pn_timeoutMs = None, pn_aborted = False, pn_timerArmed = False, pn_canceledByClient = False \<rparr>"

definition createRpcTransport :: transport where
  "createRpcTransport =
     \<lparr> clients = [], clientsBySessionId = [], indexedClientSessionId = Map.empty, pendingRequestsByClient = Map.empty,
       pending_maps = (\<lambda>_. []), pending_objects = (\<lambda>_. no_pending), next_map = 0, next_pending = 0,
       rateLimitBuckets = Map.empty, pendingRequestCount = 0, peakPendingRequestCount = 0,
       allClientsMicrotaskSnapshot = None \<rparr>"

section \<open>Counting\<close>

definition incrementPendingRequestCount :: "transport \<Rightarrow> transport" where
  "incrementPendingRequestCount st =
     st\<lparr> pendingRequestCount := pendingRequestCount st + 1,
         peakPendingRequestCount := max (peakPendingRequestCount st) (pendingRequestCount st + 1) \<rparr>"

text \<open>\<open>Math.max(0, a - b)\<close> is the subtraction of natural numbers.\<close>

definition decrementPendingRequestCount :: "nat \<Rightarrow> transport \<Rightarrow> transport" where
  "decrementPendingRequestCount count st = st\<lparr> pendingRequestCount := pendingRequestCount st - count \<rparr>"

definition getPendingRequests :: "client \<Rightarrow> transport \<Rightarrow> map_address \<times> transport" where
  "getPendingRequests c st =
     (case pendingRequestsByClient st c of
        Some existing \<Rightarrow> (existing, st)
      | None \<Rightarrow> (next_map st,
          st\<lparr> pendingRequestsByClient := (pendingRequestsByClient st)(c \<mapsto> next_map st),
              pending_maps := (pending_maps st)(next_map st := []), next_map := next_map st + 1 \<rparr>))"

definition assertCapacity :: "transport_options \<Rightarrow> map_address \<Rightarrow> transport \<Rightarrow> transport_error + unit" where
  "assertCapacity options m st =
     (if length (pending_maps st m) + 1 > maxPendingRequestsPerClient options
      then Inl (CapacityClient (length (pending_maps st m)) (maxPendingRequestsPerClient options))
      else if pendingRequestCount st + 1 > maxPendingRequests options
      then Inl (CapacityServer (pendingRequestCount st) (maxPendingRequests options))
      else Inr ())"

definition assertRateLimit ::
  "transport_options \<Rightarrow> client \<Rightarrow> string \<Rightarrow> int \<Rightarrow> transport \<Rightarrow> (transport_error + unit) \<times> transport" where
  "assertRateLimit options c meth nowMs st =
     (let existing = rateLimitBuckets st c;
          elapsedSeconds = (case existing of None \<Rightarrow> 0 | Some b \<Rightarrow> max 0 (of_int (nowMs - rb_updatedAtMs b) / 1000));
          tokens = min (rateLimitBurst options)
            ((case existing of None \<Rightarrow> rateLimitBurst options | Some b \<Rightarrow> rb_tokens b) +
             elapsedSeconds * rateLimitRefillPerSecond options) in
      if tokens < 1
      then (Inl (RateLimited meth),
        st\<lparr> rateLimitBuckets := (rateLimitBuckets st)(c \<mapsto> \<lparr> rb_tokens = tokens, rb_updatedAtMs = nowMs \<rparr>) \<rparr>)
      else (Inr (),
        st\<lparr> rateLimitBuckets := (rateLimitBuckets st)(c \<mapsto> \<lparr> rb_tokens = tokens - 1, rb_updatedAtMs = nowMs \<rparr>) \<rparr>))"

section \<open>The session index\<close>

definition addClientToSessionIndex :: "client \<Rightarrow> string \<Rightarrow> transport \<Rightarrow> transport" where
  "addClientToSessionIndex c sessionId st =
     (let sessionClients = (case jm_get (clientsBySessionId st) sessionId of None \<Rightarrow> [] | Some cs \<Rightarrow> cs) in
      st\<lparr> clientsBySessionId := jm_set sessionId (set_add c sessionClients) (clientsBySessionId st),
          indexedClientSessionId := (indexedClientSessionId st)(c \<mapsto> sessionId) \<rparr>)"

definition removeClientFromSessionIndex :: "client \<Rightarrow> string \<Rightarrow> transport \<Rightarrow> transport" where
  "removeClientFromSessionIndex c sessionId st =
     (case jm_get (clientsBySessionId st) sessionId of
        None \<Rightarrow> st
      | Some sessionClients \<Rightarrow>
          (let rest = filter (\<lambda>d. d \<noteq> c) sessionClients in
           if length rest = 0 then st\<lparr> clientsBySessionId := jm_delete sessionId (clientsBySessionId st) \<rparr>
           else st\<lparr> clientsBySessionId := jm_set sessionId rest (clientsBySessionId st) \<rparr>))"

text \<open>The client's current session identifier is an argument: the session check may have changed it.\<close>

definition refreshClientIndexes :: "client \<Rightarrow> string option \<Rightarrow> transport \<Rightarrow> transport" where
  "refreshClientIndexes c nextSessionId st =
     (let previousSessionId = indexedClientSessionId st c;
          st1 = (case previousSessionId of
              Some previous \<Rightarrow>
                (if previousSessionId \<noteq> nextSessionId
                 then (removeClientFromSessionIndex c previous st)\<lparr> indexedClientSessionId :=
                   (indexedClientSessionId st)(c := None) \<rparr>
                 else st)
            | None \<Rightarrow> st) in
      case nextSessionId of
        Some sid \<Rightarrow> (if previousSessionId \<noteq> nextSessionId then addClientToSessionIndex c sid st1 else st1)
      | None \<Rightarrow> st1)"

definition removeClientIndexes :: "client \<Rightarrow> transport \<Rightarrow> transport" where
  "removeClientIndexes c st =
     (case indexedClientSessionId st c of
        None \<Rightarrow> st
      | Some previous \<Rightarrow> (removeClientFromSessionIndex c previous st)\<lparr> indexedClientSessionId :=
          (indexedClientSessionId st)(c := None) \<rparr>)"

section \<open>Opening, cancelling, closing\<close>

definition abort_pending :: "pending_request \<Rightarrow> pending_request" where
  "abort_pending p = p\<lparr> pn_aborted := True, pn_canceledByClient := True \<rparr>"

definition abortPendingRequest :: "client \<Rightarrow> int \<Rightarrow> transport \<Rightarrow> transport" where
  "abortPendingRequest c requestId st =
     (case pendingRequestsByClient st c of
        None \<Rightarrow> st
      | Some m \<Rightarrow>
          (case jm_get (pending_maps st m) requestId of
             None \<Rightarrow> st
           | Some p \<Rightarrow> st\<lparr> pending_objects := (pending_objects st)(p := abort_pending (pending_objects st p)) \<rparr>))"

definition abortAllPendingRequests :: "client \<Rightarrow> transport \<Rightarrow> transport" where
  "abortAllPendingRequests c st =
     (case pendingRequestsByClient st c of
        None \<Rightarrow> st
      | Some m \<Rightarrow>
          (let requests = pending_maps st m;
               st1 = st\<lparr> pending_objects := (\<lambda>p. if p \<in> set (map snd requests)
                 then (abort_pending (pending_objects st p))\<lparr> pn_timerArmed := False \<rparr> else pending_objects st p) \<rparr>;
               st2 = decrementPendingRequestCount (length requests) st1 in
           st2\<lparr> pending_maps := (pending_maps st2)(m := []),
                pendingRequestsByClient := (pendingRequestsByClient st2)(c := None) \<rparr>))"

text \<open>Adding to a JavaScript set keeps the place of an element it has.\<close>

definition transport_open :: "client \<Rightarrow> string option \<Rightarrow> transport \<Rightarrow> transport" where
  "transport_open c sessionId st = refreshClientIndexes c sessionId (st\<lparr> clients := set_add c (clients st) \<rparr>)"

definition transport_close :: "client \<Rightarrow> transport \<Rightarrow> transport" where
  "transport_close c st =
     abortAllPendingRequests c (removeClientIndexes c (st\<lparr> clients := filter (\<lambda>d. d \<noteq> c) (clients st) \<rparr>))"

definition transport_drain :: "client \<Rightarrow> string option \<Rightarrow> transport \<Rightarrow> transport" where
  "transport_drain c sessionId st = (if c \<notin> set (clients st) then st else refreshClientIndexes c sessionId st)"

definition closeSession :: "string \<Rightarrow> transport \<Rightarrow> nat \<times> transport" where
  "closeSession sessionId st =
     (let targets = (case jm_get (clientsBySessionId st) sessionId of None \<Rightarrow> [] | Some cs \<Rightarrow> cs) in
      (length targets, fold transport_close targets st))"

text \<open>\<open>userOf\<close> is the user of a client's connection data.\<close>

definition closeUser :: "(client \<Rightarrow> int option) \<Rightarrow> int \<Rightarrow> transport \<Rightarrow> nat \<times> transport" where
  "closeUser userOf userId st =
     (let targets = filter (\<lambda>c. userOf c = Some userId) (clients st) in
      (length targets, fold transport_close targets st))"

section \<open>Sending and publishing\<close>

datatype send_outcome = Backpressure | Dropped | Sent

definition classifyRpcWebSocketSendStatus :: "int \<Rightarrow> send_outcome" where
  "classifyRpcWebSocketSendStatus sendStatus =
     (if sendStatus = -1 then Backpressure else if sendStatus = 0 then Dropped else Sent)"

text \<open>The status the socket's \<open>send\<close> gives, nothing where it throws.\<close>

definition sendWebSocketMessage :: "client \<Rightarrow> int option \<Rightarrow> transport \<Rightarrow> bool \<times> transport" where
  "sendWebSocketMessage c sendStatus st =
     (case sendStatus of
        None \<Rightarrow> (False, transport_close c st)
      | Some status \<Rightarrow>
          (if classifyRpcWebSocketSendStatus status = Sent then (True, st) else (False, transport_close c st)))"

datatype publish_scope = AllScope | ClientsScope "client list" | SessionScope "string option"

text \<open>The clients of the first call in a microtask are remembered until its end.\<close>

definition getAllClientsMicrotaskSnapshot :: "transport \<Rightarrow> client list \<times> transport" where
  "getAllClientsMicrotaskSnapshot st =
     (case allClientsMicrotaskSnapshot st of
        Some snapshot \<Rightarrow> (snapshot, st)
      | None \<Rightarrow> (clients st, st\<lparr> allClientsMicrotaskSnapshot := Some (clients st) \<rparr>))"

definition clearAllClientsMicrotaskSnapshot :: "transport \<Rightarrow> transport" where
  "clearAllClientsMicrotaskSnapshot st = st\<lparr> allClientsMicrotaskSnapshot := None \<rparr>"

definition collectClients :: "publish_scope \<Rightarrow> transport \<Rightarrow> client list \<times> transport" where
  "collectClients scope st =
     (case scope of
        AllScope \<Rightarrow> getAllClientsMicrotaskSnapshot st
      | ClientsScope cs \<Rightarrow> (cs, st)
      | SessionScope sessionId \<Rightarrow>
          (case sessionId of
             None \<Rightarrow> ([], st)
           | Some sid \<Rightarrow> (case jm_get (clientsBySessionId st) sid of None \<Rightarrow> [] | Some cs \<Rightarrow> cs, st)))"

text \<open>
  \<open>publishLazy\<close> waits for the payload before the first send only. \<open>publish_start\<close> is the part before:
  the first client still open and those after it; \<open>publish_rest\<close> the sends, with the counts of delivered and
  dropped clients.
\<close>

definition publish_start :: "publish_scope \<Rightarrow> transport \<Rightarrow> client list \<times> transport" where
  "publish_start scope st =
     (case collectClients scope st of (targets, st1) \<Rightarrow> (dropWhile (\<lambda>c. c \<notin> set (clients st1)) targets, st1))"

fun publish_loop :: "(client \<Rightarrow> int option) \<Rightarrow> client list \<Rightarrow> nat \<Rightarrow> nat \<Rightarrow> transport \<Rightarrow> (nat \<times> nat) \<times> transport" where
  "publish_loop status [] delivered dropped st = ((delivered, dropped), st)"
| "publish_loop status (c # cs) delivered dropped st =
     (if c \<notin> set (clients st) then publish_loop status cs delivered dropped st
      else (case sendWebSocketMessage c (status c) st of
        (True, st1) \<Rightarrow> publish_loop status cs (delivered + 1) dropped st1
      | (False, st1) \<Rightarrow> publish_loop status cs delivered (dropped + 1) st1))"

fun publish_rest :: "(client \<Rightarrow> int option) \<Rightarrow> client list \<Rightarrow> transport \<Rightarrow> (nat \<times> nat) \<times> transport" where
  "publish_rest status [] st = ((0, 0), st)"
| "publish_rest status (c # cs) st =
     (case sendWebSocketMessage c (status c) st of
        (True, st1) \<Rightarrow> publish_loop status cs 1 0 st1
      | (False, st1) \<Rightarrow> publish_loop status cs 0 1 st1)"

definition hasClients :: "transport \<Rightarrow> bool" where
  "hasClients st = (length (clients st) > 0)"

definition hasPublishTargets :: "publish_scope \<Rightarrow> transport \<Rightarrow> bool \<times> transport" where
  "hasPublishTargets scope st =
     (case collectClients scope st of (targets, st1) \<Rightarrow> (list_ex (\<lambda>c. c \<in> set (clients st1)) targets, st1))"

section \<open>Messages\<close>

datatype first_outcome = SessionEnded | OversizedMessage | AbusiveMessage | ParsePayload

text \<open>
  \<open>handleMessageAsync\<close> up to the parsing: the session check's answer and the client's session after it, the
  message's size, and whether the pre-parse budget allows it.
\<close>

definition message_received ::
  "transport_options \<Rightarrow> client \<Rightarrow> bool \<Rightarrow> string option \<Rightarrow> nat \<Rightarrow> bool \<Rightarrow> transport \<Rightarrow> first_outcome \<times> transport" where
  "message_received options c sessionValid sessionId messageByteLength budgetAllowed st =
     (if \<not> sessionValid then (SessionEnded, transport_close c st)
      else (let st1 = refreshClientIndexes c sessionId st in
        if messageByteLength > maxPayloadBytes options then (OversizedMessage, transport_close c st1)
        else if \<not> budgetAllowed then (AbusiveMessage, transport_close c st1)
        else (ParsePayload, st1)))"

datatype task = RpcTask (task_client: client) (task_map: map_address) (task_request: int) (task_pending: pending_address)

datatype second_outcome = CancelHandled | Started task | Failed transport_error

text \<open>\<open>buildRequestSignal\<close> and the pending request.\<close>

definition register_request ::
  "client \<Rightarrow> map_address \<Rightarrow> int \<Rightarrow> int option \<Rightarrow> transport \<Rightarrow> pending_address \<times> transport" where
  "register_request c m requestId timeoutMs st =
     (let p = next_pending st in
      (p, incrementPendingRequestCount
        (st\<lparr> pending_objects := (pending_objects st)(p := \<lparr> pn_timeoutMs = timeoutMs, pn_aborted = False,
               pn_timerArmed = (timeoutMs \<noteq> None), pn_canceledByClient = False \<rparr>),
             next_pending := p + 1,
             pending_maps := (pending_maps st)(m := jm_set requestId p (pending_maps st m)) \<rparr>)))"

text \<open>The request's identifier as a map key: a safe integer, minus zero being zero.\<close>

definition message_parsed ::
  "transport_options \<Rightarrow> client \<Rightarrow> int \<Rightarrow> client_message \<Rightarrow> transport \<Rightarrow> second_outcome \<times> transport" where
  "message_parsed options c messageStartedAt message st =
     (case message of
        CancelMessage n \<Rightarrow> (CancelHandled, abortPendingRequest c (f64_floor n) st)
      | RequestMessage n meth params priority timeoutMs \<Rightarrow>
          (case assertRateLimit options c meth messageStartedAt st of
             (Inl e, st1) \<Rightarrow> (Failed e, st1)
           | (Inr _, st1) \<Rightarrow>
               (case getPendingRequests c st1 of (m, st2) \<Rightarrow>
                  (if jm_has (pending_maps st2 m) (f64_floor n) then (Failed (AlreadyPending (f64_floor n)), st2)
                   else (case assertCapacity options m st2 of
                      Inl e \<Rightarrow> (Failed e, st2)
                    | Inr _ \<Rightarrow>
                        (case register_request c m (f64_floor n) timeoutMs st2 of (p, st3) \<Rightarrow>
                           (if \<not> hasHandler options meth then (Failed (UnknownMethod meth), st3)
                            else (Started (RpcTask c m (f64_floor n) p), st3))))))))"

text \<open>The \<open>finally\<close> block of \<open>executeRegisteredRpcRequest\<close>, with the map and the request it captured.\<close>

definition request_finished :: "task \<Rightarrow> transport \<Rightarrow> transport" where
  "request_finished t st =
     (let st1 = st\<lparr> pending_objects := (pending_objects st)(task_pending t :=
            (pending_objects st (task_pending t))\<lparr> pn_timerArmed := False \<rparr>) \<rparr> in
      if jm_get (pending_maps st1 (task_map t)) (task_request t) = Some (task_pending t)
      then decrementPendingRequestCount 1 (st1\<lparr> pending_maps := (pending_maps st1)(task_map t :=
        jm_delete (task_request t) (pending_maps st1 (task_map t))) \<rparr>)
      else st1)"

text \<open>A request's timer.\<close>

definition timeout_fires :: "pending_address \<Rightarrow> transport \<Rightarrow> transport" where
  "timeout_fires p st =
     (if pn_timerArmed (pending_objects st p)
      then st\<lparr> pending_objects := (pending_objects st)(p :=
        (pending_objects st p)\<lparr> pn_aborted := True, pn_timerArmed := False \<rparr>) \<rparr>
      else st)"

section \<open>The system\<close>

text \<open>
  The transport with the requests that are running. Any step may follow any other: between a message's
  arrival and its parsing, and while a request runs, clients come and go. A payload may be parsed
  for any client, also one that was closed meanwhile. A record beside the state keeps the registrations whose message
  failed afterwards because its method has no handler: nothing runs for them.
\<close>

definition pending_entries :: "transport \<Rightarrow> (map_address \<times> int \<times> pending_address) set" where
  "pending_entries st = {(m, n, p). jm_get (pending_maps st m) n = Some p}"

type_synonym stranded = "string \<times> map_address \<times> int \<times> pending_address"

definition newly_stranded :: "transport_error \<Rightarrow> transport \<Rightarrow> transport \<Rightarrow> stranded set" where
  "newly_stranded e st st' =
     (case e of UnknownMethod meth \<Rightarrow> {meth} \<times> (pending_entries st' - pending_entries st) | _ \<Rightarrow> {})"

type_synonym rpc_run = "transport \<times> task set \<times> stranded set"

inductive rpc_step :: "transport_options \<Rightarrow> rpc_run \<Rightarrow> rpc_run \<Rightarrow> bool" for options where
  opened: "rpc_step options (st, R) (transport_open c sessionId st, R)"
| closed: "rpc_step options (st, R) (transport_close c st, R)"
| drained: "rpc_step options (st, R) (transport_drain c sessionId st, R)"
| session_closed: "rpc_step options (st, R) (snd (closeSession sid st), R)"
| user_closed: "rpc_step options (st, R) (snd (closeUser userOf userId st), R)"
| received: "rpc_step options (st, R)
    (snd (message_received options c sessionValid sessionId messageByteLength budgetAllowed st), R)"
| started: "message_parsed options c now message st = (Started t, st') \<Longrightarrow> rpc_step options (st, R, L) (st', insert t R, L)"
| handled: "message_parsed options c now message st = (CancelHandled, st') \<Longrightarrow> rpc_step options (st, R) (st', R)"
| failed: "message_parsed options c now message st = (Failed e, st') \<Longrightarrow>
    rpc_step options (st, R, L) (st', R, L \<union> newly_stranded e st st')"
| timed_out: "rpc_step options (st, R) (timeout_fires p st, R)"
| finished: "t \<in> R \<Longrightarrow> rpc_step options (st, R, L) (request_finished t st, R - {t}, L)"
| sent: "rpc_step options (st, R) (snd (sendWebSocketMessage c status st), R)"
| publishing: "rpc_step options (st, R) (snd (publish_start scope st), R)"
| published: "rpc_step options (st, R) (snd (publish_rest statuses cs st), R)"
| microtask_end: "rpc_step options (st, R) (clearAllClientsMicrotaskSnapshot st, R)"

inductive rpc_reachable :: "transport_options \<Rightarrow> rpc_run \<Rightarrow> bool" for options where
  start: "rpc_reachable options (createRpcTransport, {}, {})"
| step: "rpc_reachable options s \<Longrightarrow> rpc_step options s s' \<Longrightarrow> rpc_reachable options s'"

section \<open>Fan-out\<close>

text \<open>
  Closing is the only thing the fan-out does to the state: sending, publishing, the two group closes and the
  refusal of a message keep what \<^const>\<open>transport_close\<close>, a refresh of the index and the snapshot keep.
\<close>

locale close_stable =
  fixes P :: "transport \<Rightarrow> bool"
  assumes close: "P st \<Longrightarrow> P (transport_close c st)"
    and refresh: "P st \<Longrightarrow> P (refreshClientIndexes c sid st)"
    and snapshot: "P st \<Longrightarrow> P (st\<lparr> allClientsMicrotaskSnapshot := cs \<rparr>)"
begin

lemma close_all: "P st \<Longrightarrow> P (fold transport_close cs st)"
  by (induction cs arbitrary: st) (auto intro: close)

lemma close_groups: "P st \<Longrightarrow> P (snd (closeSession sid st))" "P st \<Longrightarrow> P (snd (closeUser userOf userId st))"
  by (simp_all add: closeSession_def closeUser_def Let_def close_all)

lemma send: "P st \<Longrightarrow> P (snd (sendWebSocketMessage c status st))"
  by (auto simp: sendWebSocketMessage_def intro: close split: option.split)

lemma send_result: "P st \<Longrightarrow> sendWebSocketMessage c status st = (ok, st') \<Longrightarrow> P st'"
  using send [of st c status] by simp

lemma publish_loop_keeps: "P st \<Longrightarrow> P (snd (publish_loop status cs delivered dropped st))"
proof (induction status cs delivered dropped st rule: publish_loop.induct)
  case (2 status c cs delivered dropped st)
  then show ?case using send_result [OF "2.prems"] by (simp split: prod.split bool.split)
qed simp

lemma publish_rest_keeps: "P st \<Longrightarrow> P (snd (publish_rest status cs st))"
  using send_result publish_loop_keeps by (cases cs) (auto split: prod.split bool.split)

lemma publish_start_keeps: "P st \<Longrightarrow> P (snd (publish_start scope st))"
  by (auto simp: publish_start_def collectClients_def getAllClientsMicrotaskSnapshot_def intro: snapshot
      split: prod.split publish_scope.split option.split)

lemma received_keeps: "P st \<Longrightarrow> P (snd (message_received options c sessionValid sid messageSize ok st))"
  by (auto simp: message_received_def Let_def intro: close refresh)

lemma drain_keeps: "P st \<Longrightarrow> P (transport_drain c sid st)"
  by (simp add: transport_drain_def refresh)

lemma microtask_keeps: "P st \<Longrightarrow> P (clearAllClientsMicrotaskSnapshot st)"
  by (simp add: clearAllClientsMicrotaskSnapshot_def snapshot)

lemmas fan_out = close close_groups send publish_rest_keeps publish_start_keeps received_keeps drain_keeps
  microtask_keeps

end

section \<open>The pending requests\<close>

text \<open>Operations on the session index, the clients and the buckets leave the pending requests alone.\<close>

definition pending_view ::
  "transport \<Rightarrow> (client \<rightharpoonup> map_address) \<times> (map_address \<Rightarrow> (int, pending_address) jsmap) \<times> map_address \<times> nat" where
  "pending_view st = (pendingRequestsByClient st, pending_maps st, next_map st, pendingRequestCount st)"

named_theorems view \<open>operations that keep the pending requests\<close>

lemma view_remove_index [view]: "pending_view (removeClientFromSessionIndex c sid st) = pending_view st"
  by (simp add: removeClientFromSessionIndex_def pending_view_def Let_def split: option.split)

lemma view_add_index [view]: "pending_view (addClientToSessionIndex c sid st) = pending_view st"
  by (simp add: addClientToSessionIndex_def pending_view_def Let_def)

lemma view_indexed [view]: "pending_view (st\<lparr> indexedClientSessionId := f \<rparr>) = pending_view st"
  "pending_view (st\<lparr> clients := cs \<rparr>) = pending_view st"
  "pending_view (st\<lparr> pending_objects := g \<rparr>) = pending_view st"
  "pending_view (st\<lparr> rateLimitBuckets := b \<rparr>) = pending_view st"
  "pending_view (st\<lparr> allClientsMicrotaskSnapshot := s \<rparr>) = pending_view st"
  by (simp_all add: pending_view_def)

lemma view_refresh [view]: "pending_view (refreshClientIndexes c sid st) = pending_view st"
  by (simp add: refreshClientIndexes_def Let_def view split: option.split)

lemma view_remove_indexes [view]: "pending_view (removeClientIndexes c st) = pending_view st"
  by (simp add: removeClientIndexes_def view split: option.split)

lemma view_abort [view]: "pending_view (abortPendingRequest c n st) = pending_view st"
  by (simp add: abortPendingRequest_def view split: option.split)

lemma view_timeout [view]: "pending_view (timeout_fires p st) = pending_view st"
  by (simp add: timeout_fires_def view)

lemma view_rate [view]: "pending_view (snd (assertRateLimit options c meth now st)) = pending_view st"
  by (simp add: assertRateLimit_def Let_def view)

text \<open>
  The accounting: every live map belongs to one client, maps that belong to none are empty, and the global
  count is the number of entries in all maps; both limits hold.
\<close>

definition accounting ::
  "transport_options \<Rightarrow> (client \<rightharpoonup> map_address) \<times> (map_address \<Rightarrow> (int, pending_address) jsmap) \<times> map_address \<times> nat \<Rightarrow> bool" where
  "accounting options = (\<lambda>(owner, maps, bound, total).
     inj_on owner (dom owner) \<and> (\<forall>c m. owner c = Some m \<longrightarrow> m < bound) \<and>
     (\<forall>m. m \<notin> ran owner \<longrightarrow> maps m = []) \<and> (\<forall>m. jm_wf (maps m)) \<and>
     total = (\<Sum>m<bound. length (maps m)) \<and>
     (\<forall>m. length (maps m) \<le> maxPendingRequestsPerClient options) \<and> total \<le> maxPendingRequests options)"

lemma sum_update:
  assumes "m < (bound :: nat)"
  shows "(\<Sum>k<bound. length ((f(m := x)) k)) + length (f m) = (\<Sum>k<bound. length (f k)) + length x"
proof -
  have "(\<Sum>k<bound. length (g k)) = length (g m) + (\<Sum>k \<in> {..<bound} - {m}. length (g k))" for g :: "nat \<Rightarrow> 'a list"
    using assms by (intro sum.remove) auto
  from this [of f] this [of "f(m := x)"] show ?thesis by simp
qed

lemma accounting_abort_all:
  assumes "accounting options (pending_view st)"
  shows "accounting options (pending_view (abortAllPendingRequests c st))"
proof (cases "pendingRequestsByClient st c")
  case None
  then show ?thesis using assms by (simp add: abortAllPendingRequests_def)
next
  case (Some m)
  let ?owner = "pendingRequestsByClient st" and ?maps = "pending_maps st"
  have inj: "inj_on ?owner (dom ?owner)" and below: "\<And>d k. ?owner d = Some k \<Longrightarrow> k < next_map st"
    and orphan: "\<And>k. k \<notin> ran ?owner \<Longrightarrow> ?maps k = []" and wf: "\<And>k. jm_wf (?maps k)"
    and total: "pendingRequestCount st = (\<Sum>k<next_map st. length (?maps k))"
    and per: "\<And>k. length (?maps k) \<le> maxPendingRequestsPerClient options"
    and glob: "pendingRequestCount st \<le> maxPendingRequests options"
    using assms by (auto simp: accounting_def pending_view_def)
  have view: "pending_view (abortAllPendingRequests c st) =
      (?owner(c := None), ?maps(m := []), next_map st, pendingRequestCount st - length (?maps m))"
    by (simp add: abortAllPendingRequests_def Some Let_def pending_view_def decrementPendingRequestCount_def)
  have sum: "(\<Sum>k<next_map st. length ((?maps(m := [])) k)) = pendingRequestCount st - length (?maps m)"
    using sum_update [OF below [OF Some], of ?maps "[]"] total by simp
  have "inj_on (?owner(c := None)) (dom (?owner(c := None)))"
    using inj by (auto simp: inj_on_def)
  moreover have "(?maps(m := [])) k = []" if "k \<notin> ran (?owner(c := None))" for k
  proof (cases "k = m")
    case False
    have "k \<notin> ran ?owner"
    proof
      assume "k \<in> ran ?owner"
      then obtain d where d: "?owner d = Some k" by (auto simp: ran_def)
      then have "d \<noteq> c" using Some False by auto
      then have "(?owner(c := None)) d = Some k" using d by simp
      then show False using that ranI by fast
    qed
    then show ?thesis using orphan by simp
  qed simp
  moreover have "(?owner(c := None)) d = Some k \<Longrightarrow> k < next_map st" for d k
    using below by (auto split: if_split_asm)
  moreover have "jm_wf ((?maps(m := [])) k)" for k using wf by (simp add: jm_wf_def)
  moreover have "length ((?maps(m := [])) k) \<le> maxPendingRequestsPerClient options" for k using per by simp
  ultimately show ?thesis unfolding view accounting_def using sum glob by auto
qed

lemma accounting_close:
  assumes "accounting options (pending_view st)" shows "accounting options (pending_view (transport_close c st))"
  unfolding transport_close_def by (rule accounting_abort_all) (simp add: view assms)

interpretation pending: close_stable "\<lambda>st. accounting options (pending_view st)" for options
  by unfold_locales (auto simp: view intro: accounting_close)

lemma accounting_get:
  assumes "accounting options (pending_view st)" and "getPendingRequests c st = (m, st')"
  shows "accounting options (pending_view st') \<and> pendingRequestsByClient st' c = Some m"
proof (cases "pendingRequestsByClient st c")
  case (Some k)
  then show ?thesis using assms by (simp add: getPendingRequests_def)
next
  case None
  then have m: "m = next_map st" and st': "st' = st\<lparr> pendingRequestsByClient := (pendingRequestsByClient st)(c \<mapsto> m),
      pending_maps := (pending_maps st)(m := []), next_map := next_map st + 1 \<rparr>"
    using assms(2) by (auto simp: getPendingRequests_def)
  have a: "inj_on (pendingRequestsByClient st) (dom (pendingRequestsByClient st))"
    "\<forall>d k. pendingRequestsByClient st d = Some k \<longrightarrow> k < next_map st"
    "\<forall>k. k \<notin> ran (pendingRequestsByClient st) \<longrightarrow> pending_maps st k = []" "\<forall>k. jm_wf (pending_maps st k)"
    "pendingRequestCount st = (\<Sum>k<next_map st. length (pending_maps st k))"
    "\<forall>k. length (pending_maps st k) \<le> maxPendingRequestsPerClient options"
    "pendingRequestCount st \<le> maxPendingRequests options"
    using assms(1) by (simp_all add: accounting_def pending_view_def)
  have fresh: "pendingRequestsByClient st d \<noteq> Some (next_map st)" for d using a(2) less_irrefl by blast
  have "inj_on ((pendingRequestsByClient st)(c \<mapsto> m)) (dom ((pendingRequestsByClient st)(c \<mapsto> m)))"
  proof (rule inj_onI)
    fix x y
    assume "x \<in> dom ((pendingRequestsByClient st)(c \<mapsto> m))" "y \<in> dom ((pendingRequestsByClient st)(c \<mapsto> m))"
      and eq: "((pendingRequestsByClient st)(c \<mapsto> m)) x = ((pendingRequestsByClient st)(c \<mapsto> m)) y"
    then show "x = y" using fresh [of x] fresh [of y] m None inj_onD [OF a(1), of x y]
      by (cases "x = c"; cases "y = c") auto
  qed
  moreover have "\<forall>d k. ((pendingRequestsByClient st)(c \<mapsto> m)) d = Some k \<longrightarrow> k < next_map st + 1"
    using a(2) m by (auto simp: less_Suc_eq)
  moreover have "k \<notin> ran ((pendingRequestsByClient st)(c \<mapsto> m)) \<longrightarrow> ((pending_maps st)(m := [])) k = []" for k
    using a(3) None by auto
  moreover have "(\<Sum>k<next_map st + 1. length (((pending_maps st)(m := [])) k)) = pendingRequestCount st"
    using a(5) m by simp
  ultimately show ?thesis using a(4,6,7) None unfolding st' accounting_def pending_view_def
    by (auto simp: jm_wf_def)
qed

lemma jm_delete_length:
  assumes "jm_wf m" and "map_of m k = Some v"
  shows "length (jm_delete k m) + 1 = length m"
  using assms by (induction m) (auto simp: jm_wf_def AList.delete_idem dest: map_of_SomeD)

lemma accounting_set_map:
  assumes acc: "accounting options (pending_view st)" and m: "m \<in> ran (pendingRequestsByClient st)"
    and wf: "jm_wf entries" and per: "length entries \<le> maxPendingRequestsPerClient options"
    and total: "cnt + length (pending_maps st m) = pendingRequestCount st + length entries"
    and glob: "cnt \<le> maxPendingRequests options"
  shows "accounting options (pendingRequestsByClient st, (pending_maps st)(m := entries), next_map st, cnt)"
proof -
  have below: "m < next_map st" using acc m by (auto simp: accounting_def pending_view_def ran_def)
  have "(\<Sum>k<next_map st. length (((pending_maps st)(m := entries)) k)) = cnt"
    using sum_update [OF below, of "pending_maps st" entries] total acc
    by (simp add: accounting_def pending_view_def)
  then show ?thesis using acc m wf per glob by (auto simp: accounting_def pending_view_def)
qed

lemma view_register:
  "pending_view (snd (register_request c m n timeoutMs st)) =
     (pendingRequestsByClient st, (pending_maps st)(m := jm_set n (next_pending st) (pending_maps st m)),
      next_map st, pendingRequestCount st + 1)"
  by (simp add: register_request_def Let_def pending_view_def incrementPendingRequestCount_def)

lemma accounting_register:
  assumes "accounting options (pending_view st)" and "pendingRequestsByClient st c = Some m"
    and "\<not> jm_has (pending_maps st m) n" and "assertCapacity options m st = Inr u"
  shows "accounting options (pending_view (snd (register_request c m n timeoutMs st)))"
proof -
  let ?entries = "jm_set n (next_pending st) (pending_maps st m)"
  have len: "length ?entries = length (pending_maps st m) + 1" and "jm_wf (pending_maps st m)"
    using assms(1,3) by (simp_all add: jm_set_fresh jm_has_def accounting_def pending_view_def)
  then have "jm_wf ?entries" by (simp add: jm.wf_put)
  moreover have "length (pending_maps st m) + 1 \<le> maxPendingRequestsPerClient options"
    and "pendingRequestCount st + 1 \<le> maxPendingRequests options"
    using assms(4) by (auto simp: assertCapacity_def split: if_split_asm)
  ultimately show ?thesis
    unfolding view_register using assms(1,2) len by (intro accounting_set_map) (auto intro: ranI)
qed

lemma accounting_view: "pending_view st' = pending_view st \<Longrightarrow> accounting options (pending_view st) \<Longrightarrow>
  accounting options (pending_view st')"
  by simp

lemma accounting_parsed:
  assumes "accounting options (pending_view st)"
  shows "accounting options (pending_view (snd (message_parsed options c now message st)))"
proof (cases message)
  case (CancelMessage n)
  then show ?thesis using assms by (simp add: message_parsed_def view)
next
  case (RequestMessage n meth params priority timeoutMs)
  obtain r st1 where rate: "assertRateLimit options c meth now st = (r, st1)" by (cases "assertRateLimit options c meth now st")
  have one: "accounting options (pending_view st1)" using assms view_rate [of options c meth now st] rate by simp
  obtain m st2 where get: "getPendingRequests c st1 = (m, st2)" by (cases "getPendingRequests c st1")
  have two: "accounting options (pending_view st2)" "pendingRequestsByClient st2 c = Some m"
    using accounting_get [OF one get] by simp_all
  obtain p st3 where reg: "register_request c m (f64_floor n) timeoutMs st2 = (p, st3)"
    by (cases "register_request c m (f64_floor n) timeoutMs st2")
  show ?thesis
  proof (cases r)
    case (Inl e)
    then show ?thesis using one by (simp add: message_parsed_def RequestMessage rate)
  next
    case (Inr u)
    then show ?thesis
      using two accounting_register [OF two, of "f64_floor n" _ timeoutMs] reg
      by (auto simp: message_parsed_def RequestMessage rate get split: sum.split)
  qed
qed

lemma accounting_outcome:
  "message_parsed options c now message st = (result, st') \<Longrightarrow> accounting options (pending_view st) \<Longrightarrow>
     accounting options (pending_view st')"
  using accounting_parsed [of options st c now message] by simp

lemma accounting_finished:
  assumes "accounting options (pending_view st)"
  shows "accounting options (pending_view (request_finished t st))"
proof (cases "jm_get (pending_maps st (task_map t)) (task_request t) = Some (task_pending t)")
  case False
  then show ?thesis using assms by (simp add: request_finished_def Let_def view)
next
  case True
  let ?m = "task_map t" and ?rest = "jm_delete (task_request t) (pending_maps st (task_map t))"
  have owned: "?m \<in> ran (pendingRequestsByClient st)" and wf: "jm_wf (pending_maps st ?m)"
    and total: "pendingRequestCount st = (\<Sum>k<next_map st. length (pending_maps st k))"
    using assms True by (force simp: accounting_def pending_view_def ran_def)+
  have below: "?m < next_map st" using assms owned by (auto simp: accounting_def pending_view_def ran_def)
  have len: "length ?rest + 1 = length (pending_maps st ?m)" using jm_delete_length [OF wf True] .
  have per: "length (pending_maps st ?m) \<le> maxPendingRequestsPerClient options"
    using assms by (auto simp: accounting_def pending_view_def)
  have "length (pending_maps st ?m) \<le> (\<Sum>k<next_map st. length (pending_maps st k))"
    using below by (intro member_le_sum) auto
  then have "pendingRequestCount st - 1 + length (pending_maps st ?m) = pendingRequestCount st + length ?rest"
    using len total by linarith
  moreover have "pendingRequestCount st \<le> maxPendingRequests options"
    using assms by (auto simp: accounting_def pending_view_def)
  ultimately have "accounting options (pendingRequestsByClient st, (pending_maps st)(?m := ?rest), next_map st,
      pendingRequestCount st - 1)"
    using owned wf len per by (intro accounting_set_map [OF assms]) (auto simp: jm.wf_del)
  moreover have "pending_view (request_finished t st) = (pendingRequestsByClient st, (pending_maps st)(?m := ?rest),
      next_map st, pendingRequestCount st - 1)"
    using True by (simp add: request_finished_def Let_def pending_view_def decrementPendingRequestCount_def)
  ultimately show ?thesis by simp
qed

lemma view_open [view]: "pending_view (transport_open c sid st) = pending_view st"
  by (simp add: transport_open_def view)

lemma accounting_step:
  assumes "rpc_step options s s'" and "accounting options (pending_view (fst s))"
  shows "accounting options (pending_view (fst s'))"
  using assms
  by (induction rule: rpc_step.induct)
    (auto simp: view intro: pending.fan_out accounting_finished accounting_outcome)

lemma reachable_accounting:
  "rpc_reachable options s \<Longrightarrow> accounting options (pending_view (fst s))"
proof (induction rule: rpc_reachable.induct)
  case start
  show ?case by (simp add: accounting_def pending_view_def createRpcTransport_def jm_wf_def)
qed (rule accounting_step)

text \<open>What is registered is a request that runs or was stranded: entries leave with the request, or with the connection.\<close>

definition task_entry :: "task \<Rightarrow> map_address \<times> int \<times> pending_address" where
  "task_entry t = (task_map t, task_request t, task_pending t)"

lemma entries_view: "pending_view st' = pending_view st \<Longrightarrow> pending_entries st' = pending_entries st"
  by (simp add: pending_view_def pending_entries_def)

lemmas entries_kept = view [THEN entries_view]

lemma entries_rate: "pending_entries (snd (assertRateLimit options c meth now st)) = pending_entries st"
  by (rule entries_view [OF view_rate])

lemma entries_abort_all: "pending_entries (abortAllPendingRequests c st) \<subseteq> pending_entries st"
  by (auto simp: abortAllPendingRequests_def Let_def pending_entries_def decrementPendingRequestCount_def
      split: option.splits if_split_asm)

lemma entries_close: "pending_entries (transport_close c st) \<subseteq> pending_entries st"
  unfolding transport_close_def by (rule order.trans [OF entries_abort_all]) (simp add: entries_kept)

interpretation entries: close_stable "\<lambda>st. pending_entries st \<subseteq> E" for E
  by unfold_locales (auto simp: entries_kept dest: entries_close [THEN subsetD])

lemma entries_get:
  assumes "accounting options (pending_view st)" and "getPendingRequests c st = (m, st')"
  shows "pending_entries st' \<subseteq> pending_entries st"
  using assms by (auto simp: getPendingRequests_def pending_entries_def split: option.splits if_split_asm)

lemma entries_register:
  "pending_entries (snd (register_request c m n timeoutMs st)) \<subseteq> insert (m, n, next_pending st) (pending_entries st)"
  by (auto simp: register_request_def Let_def pending_entries_def incrementPendingRequestCount_def jm_lookup_update
      split: if_split_asm)

lemma entries_finished: "pending_entries (request_finished t st) \<subseteq> pending_entries st - {task_entry t}"
  by (auto simp: request_finished_def Let_def pending_entries_def task_entry_def decrementPendingRequestCount_def
      jm_lookup_delete split: if_split_asm)

lemma entries_parsed:
  assumes "message_parsed options c now message st = (result, st')" and "accounting options (pending_view st)"
  shows "pending_entries st' \<subseteq> pending_entries st \<union>
      (case result of Started t \<Rightarrow> {task_entry t} | Failed e \<Rightarrow> snd ` newly_stranded e st st' | _ \<Rightarrow> {}) \<and>
    (case result of Failed e \<Rightarrow> newly_stranded e st st' \<subseteq> {(meth, x). \<not> hasHandler options meth} | _ \<Rightarrow> True)"
proof (cases message)
  case (CancelMessage n)
  then show ?thesis using assms(1) by (auto simp: message_parsed_def entries_kept)
next
  case (RequestMessage n meth params priority timeoutMs)
  obtain r st1 where rate: "assertRateLimit options c meth now st = (r, st1)" by (cases "assertRateLimit options c meth now st")
  have one: "pending_entries st1 = pending_entries st" "accounting options (pending_view st1)"
    using assms(2) view_rate [of options c meth now st] entries_rate [of options c meth now st] rate by simp_all
  obtain m st2 where get: "getPendingRequests c st1 = (m, st2)" by (cases "getPendingRequests c st1")
  note two = entries_get [OF one(2) get]
  obtain p st3 where reg: "register_request c m (f64_floor n) timeoutMs st2 = (p, st3)"
    by (cases "register_request c m (f64_floor n) timeoutMs st2")
  then have p: "p = next_pending st2" by (simp add: register_request_def Let_def)
  have three: "pending_entries st3 \<subseteq> insert (m, f64_floor n, p) (pending_entries st)"
    using entries_register [of c m "f64_floor n" timeoutMs st2] reg p two one(1) by auto
  have zero: "pending_entries st2 \<subseteq> pending_entries st" using two one(1) by simp
  show ?thesis
  proof (cases r)
    case (Inl e)
    then show ?thesis using assms(1) one(1)
      by (auto simp: message_parsed_def RequestMessage rate newly_stranded_def split: transport_error.split)
  next
    case (Inr u)
    then consider "st' = st2" "\<exists>e. result = Failed e"
      | "st' = st3" "result = Started (RpcTask c m (f64_floor n) p)"
      | "st' = st3" "result = Failed (UnknownMethod meth)" "\<not> hasHandler options meth"
      using assms(1) by (auto simp: message_parsed_def RequestMessage rate get reg split: if_split_asm sum.split_asm)
    then show ?thesis
    proof cases
      case 1
      then show ?thesis using zero by (auto simp: newly_stranded_def split: transport_error.split)
    next
      case 2
      then show ?thesis using three by (simp add: task_entry_def)
    next
      case 3
      then show ?thesis by (auto simp: newly_stranded_def)
    qed
  qed
qed

definition tracked :: "transport_options \<Rightarrow> rpc_run \<Rightarrow> bool" where
  "tracked options = (\<lambda>(st, R, L). pending_entries st \<subseteq> task_entry ` R \<union> snd ` L \<and>
     L \<subseteq> {(meth, x). \<not> hasHandler options meth})"

lemma tracked_step:
  assumes "rpc_step options s s'" and "tracked options s" and "accounting options (pending_view (fst s))"
  shows "tracked options s'"
  using assms(1)
proof cases
  case (started c now message st t st' R L)
  then have "pending_entries st' \<subseteq> insert (task_entry t) (pending_entries st)"
    using assms(3) entries_parsed [OF started(3)] by simp
  then show ?thesis using assms(2) started(1,2) by (auto simp: tracked_def)
next
  case (handled c now message st st' R)
  then have "pending_entries st' \<subseteq> pending_entries st" using assms(3) entries_parsed [OF handled(3)] by simp
  then show ?thesis using assms(2) handled(1,2) by (auto simp: tracked_def)
next
  case (failed c now message st e st' R L)
  then have "pending_entries st' \<subseteq> pending_entries st \<union> snd ` newly_stranded e st st'"
    and "newly_stranded e st st' \<subseteq> {(meth, x). \<not> hasHandler options meth}"
    using assms(3) entries_parsed [OF failed(3)] by simp_all
  then show ?thesis using assms(2) failed(1,2) by (simp add: tracked_def image_Un) blast
next
  case (finished t R st L)
  then show ?thesis using assms(2) entries_finished [of t st] by (simp add: tracked_def) blast
qed (use assms(2) in \<open>auto simp: tracked_def entries_kept intro!: entries.fan_out\<close>)

lemma reachable_tracked: "rpc_reachable options s \<Longrightarrow> tracked options s"
proof (induction rule: rpc_reachable.induct)
  case start
  show ?case by (simp add: tracked_def pending_entries_def createRpcTransport_def)
next
  case (step s s')
  then show ?case using tracked_step reachable_accounting by blast
qed

section \<open>The session index, proved\<close>

definition members :: "transport \<Rightarrow> string \<Rightarrow> client set" where
  "members st sid = (case jm_get (clientsBySessionId st) sid of None \<Rightarrow> {} | Some cs \<Rightarrow> set cs)"

text \<open>The index is the inverse of the clients' entries, and no session has an empty set.\<close>

definition index_ok :: "transport \<Rightarrow> bool" where
  "index_ok st =
     (jm_wf (clientsBySessionId st) \<and>
      (\<forall>sid cs. jm_get (clientsBySessionId st) sid = Some cs \<longrightarrow> cs \<noteq> [] \<and> distinct cs) \<and>
      (\<forall>c sid. c \<in> members st sid \<longleftrightarrow> indexedClientSessionId st c = Some sid))"

definition index_view :: "transport \<Rightarrow> (string, client list) jsmap \<times> (client \<rightharpoonup> string)" where
  "index_view st = (clientsBySessionId st, indexedClientSessionId st)"

lemma index_ok_view: "index_view st' = index_view st \<Longrightarrow> index_ok st' = index_ok st"
  by (simp add: index_view_def index_ok_def members_def)

named_theorems indexed \<open>operations that keep the session index\<close>

lemma indexed_update [indexed]: "index_view (st\<lparr> clients := cs \<rparr>) = index_view st"
  "index_view (st\<lparr> pending_objects := g \<rparr>) = index_view st"
  "index_view (st\<lparr> allClientsMicrotaskSnapshot := s \<rparr>) = index_view st"
  by (simp_all add: index_view_def)

lemma indexed_requests [indexed]:
  "index_view (abortAllPendingRequests c st) = index_view st"
  "index_view (abortPendingRequest c n st) = index_view st"
  "index_view (timeout_fires p st) = index_view st"
  "index_view (request_finished t st) = index_view st"
  "index_view (snd (assertRateLimit options c meth now st)) = index_view st"
  "index_view (snd (getPendingRequests c st)) = index_view st"
  "index_view (snd (register_request c m n timeoutMs st)) = index_view st"
  by (simp_all add: abortAllPendingRequests_def abortPendingRequest_def timeout_fires_def request_finished_def
      assertRateLimit_def getPendingRequests_def register_request_def Let_def index_view_def
      decrementPendingRequestCount_def incrementPendingRequestCount_def split: option.split)

lemma indexed_result:
  "assertRateLimit options c meth now st = (r, st') \<Longrightarrow> index_view st' = index_view st"
  "getPendingRequests c st = (m, st') \<Longrightarrow> index_view st' = index_view st"
  "register_request c m n timeoutMs st = (p, st') \<Longrightarrow> index_view st' = index_view st"
  using indexed_requests(5) [of options c meth now st] indexed_requests(6) [of c st]
    indexed_requests(7) [of c m n timeoutMs st] by simp_all

lemma indexed_parsed [indexed]:
  "message_parsed options c now message st = (result, st') \<Longrightarrow> index_view st' = index_view st"
  by (auto simp: message_parsed_def indexed dest!: indexed_result
      split: client_message.splits sum.splits prod.splits if_split_asm)

lemma members_remove:
  "members (removeClientFromSessionIndex c sid st) sid' =
     (if sid' = sid then members st sid - {c} else members st sid')"
  by (auto simp: members_def removeClientFromSessionIndex_def Let_def jm_lookup_delete jm_lookup_update filter_empty_conv
      split: option.split)

lemma remove_others:
  "indexedClientSessionId (removeClientFromSessionIndex c sid st) = indexedClientSessionId st"
  "clients (removeClientFromSessionIndex c sid st) = clients st"
  "pendingRequestsByClient (removeClientFromSessionIndex c sid st) = pendingRequestsByClient st"
  by (simp_all add: removeClientFromSessionIndex_def Let_def split: option.split)

lemma remove_wf:
  assumes "jm_wf (clientsBySessionId st)"
    and "\<forall>sid cs. jm_get (clientsBySessionId st) sid = Some cs \<longrightarrow> cs \<noteq> [] \<and> distinct cs"
  shows "jm_wf (clientsBySessionId (removeClientFromSessionIndex c sid st)) \<and>
    (\<forall>sid' cs. jm_get (clientsBySessionId (removeClientFromSessionIndex c sid st)) sid' = Some cs \<longrightarrow>
       cs \<noteq> [] \<and> distinct cs)"
  using assms by (auto simp: removeClientFromSessionIndex_def Let_def jm.wf_del jm.wf_put jm_lookup_delete
      jm_lookup_update split: option.split if_split_asm)

lemma index_remove:
  assumes "index_ok st" and "indexedClientSessionId st c = Some sid"
  shows "index_ok ((removeClientFromSessionIndex c sid st)\<lparr> indexedClientSessionId :=
    (indexedClientSessionId st)(c := None) \<rparr>)"
  using assms remove_wf [of st c sid] members_remove [of c sid st]
  by (auto simp: index_ok_def members_def split: if_split_asm)

lemma set_add_ne: "set_add c xs \<noteq> []"
  by (auto simp: set_add_def)

lemma index_add:
  assumes "index_ok st" and "indexedClientSessionId st c = None"
  shows "index_ok (addClientToSessionIndex c sid st)"
proof -
  let ?old = "case jm_get (clientsBySessionId st) sid of None \<Rightarrow> [] | Some cs \<Rightarrow> cs"
  have new: "jm_get (clientsBySessionId (addClientToSessionIndex c sid st)) k =
      (if k = sid then Some (set_add c ?old) else jm_get (clientsBySessionId st) k)" for k
    by (simp add: addClientToSessionIndex_def Let_def jm_lookup_update)
  have mem: "members (addClientToSessionIndex c sid st) k = (if k = sid then insert c (members st k) else members st k)" for k
    by (auto simp: members_def new split: option.split)
  have "distinct ?old" using assms(1) by (auto simp: index_ok_def split: option.split)
  then have "jm_get (clientsBySessionId (addClientToSessionIndex c sid st)) k = Some cs \<Longrightarrow> cs \<noteq> [] \<and> distinct cs" for k cs
    using assms(1) by (auto simp: new index_ok_def set_add_ne split: if_split_asm)
  moreover have "jm_wf (clientsBySessionId (addClientToSessionIndex c sid st))"
    using assms(1) by (simp add: index_ok_def addClientToSessionIndex_def Let_def jm.wf_put)
  moreover have "d \<in> members (addClientToSessionIndex c sid st) k \<longleftrightarrow>
      indexedClientSessionId (addClientToSessionIndex c sid st) d = Some k" for d k
    using assms unfolding mem by (auto simp: index_ok_def addClientToSessionIndex_def Let_def)
  ultimately show ?thesis unfolding index_ok_def by blast
qed

lemma index_refresh:
  assumes "index_ok st" shows "index_ok (refreshClientIndexes c sid st)"
proof -
  have removed: "index_ok ((removeClientFromSessionIndex c previous st)\<lparr> indexedClientSessionId :=
      (indexedClientSessionId st)(c := None) \<rparr>)" if "indexedClientSessionId st c = Some previous" for previous
    using index_remove [OF assms that] .
  then show ?thesis using assms
    by (auto simp: refreshClientIndexes_def Let_def intro!: index_add split: option.split)
qed

lemma index_close:
  assumes "index_ok st" shows "index_ok (transport_close c st)"
proof -
  have "index_ok (st\<lparr> clients := cs \<rparr>)" for cs using assms index_ok_view [OF indexed_update(1)] by simp
  then have "index_ok (removeClientIndexes c (st\<lparr> clients := cs \<rparr>))" for cs
    using index_remove [of "st\<lparr> clients := cs \<rparr>" c] by (simp add: removeClientIndexes_def split: option.split)
  then show ?thesis by (simp add: transport_close_def index_ok_view [OF indexed_requests(1)])
qed

interpretation index: close_stable index_ok
  by unfold_locales (simp_all add: index_close index_refresh index_ok_view [OF indexed_update(3)])

lemma index_open: "index_ok st \<Longrightarrow> index_ok (transport_open c sid st)"
  using index_ok_view [OF indexed_update(1)] by (auto simp: transport_open_def intro: index_refresh)

lemma index_step:
  assumes "rpc_step options s s'" and "index_ok (fst s)" shows "index_ok (fst s')"
  using assms
  by (induction rule: rpc_step.induct)
    (auto intro: index.fan_out index_open simp: indexed [THEN index_ok_view] index_ok_view [OF indexed_parsed])

lemma reachable_index: "rpc_reachable options s \<Longrightarrow> index_ok (fst s)"
proof (induction rule: rpc_reachable.induct)
  case start
  show ?case by (simp add: index_ok_def members_def createRpcTransport_def jm_wf_def)
qed (rule index_step)

section \<open>What a close does\<close>

lemma close_effect:
  "clients (transport_close c st) = filter (\<lambda>d. d \<noteq> c) (clients st)"
  "indexedClientSessionId (transport_close c st) = (indexedClientSessionId st)(c := None)"
  "pendingRequestsByClient (transport_close c st) = (pendingRequestsByClient st)(c := None)"
  by (auto simp: transport_close_def abortAllPendingRequests_def removeClientIndexes_def remove_others Let_def
      decrementPendingRequestCount_def split: option.split)

lemma close_all_effect:
  "clients (fold transport_close cs st) = filter (\<lambda>d. d \<notin> set cs) (clients st)"
  "indexedClientSessionId (fold transport_close cs st) d = (if d \<in> set cs then None else indexedClientSessionId st d)"
  "pendingRequestsByClient (fold transport_close cs st) d =
     (if d \<in> set cs then None else pendingRequestsByClient st d)"
  by (induction cs arbitrary: st) (auto simp: close_effect filter_filter intro: filter_cong)

lemma close_requests:
  "pending_objects (removeClientIndexes c st) = pending_objects st"
  "pending_maps (removeClientIndexes c st) = pending_maps st"
  "pendingRequestsByClient (removeClientIndexes c st) = pendingRequestsByClient st"
  by (simp_all add: removeClientIndexes_def removeClientFromSessionIndex_def Let_def split: option.split)

lemma close_maps:
  "pending_maps (transport_close c st) =
     (case pendingRequestsByClient st c of None \<Rightarrow> pending_maps st | Some m \<Rightarrow> (pending_maps st)(m := []))"
  by (simp add: transport_close_def abortAllPendingRequests_def close_requests Let_def
      decrementPendingRequestCount_def split: option.split)

lemma close_keeps_aborted:
  "pn_aborted (pending_objects st p) \<Longrightarrow> pn_aborted (pending_objects (transport_close c st) p)"
  by (auto simp: transport_close_def abortAllPendingRequests_def close_requests Let_def abort_pending_def
      decrementPendingRequestCount_def split: option.split)

lemma close_aborts:
  "pendingRequestsByClient st c = Some m \<Longrightarrow> p \<in> snd ` set (pending_maps st m) \<Longrightarrow>
     pn_aborted (pending_objects (transport_close c st) p)"
  by (simp add: transport_close_def abortAllPendingRequests_def close_requests Let_def abort_pending_def
      decrementPendingRequestCount_def)

lemma close_all_keeps_aborted:
  "pn_aborted (pending_objects st p) \<Longrightarrow> pn_aborted (pending_objects (fold transport_close cs st) p)"
  by (induction cs arbitrary: st) (auto intro: close_keeps_aborted)

lemma close_all_aborts:
  assumes "accounting options (pending_view st)" and "c \<in> set cs" and "pendingRequestsByClient st c = Some m"
    and "p \<in> snd ` set (pending_maps st m)"
  shows "pn_aborted (pending_objects (fold transport_close cs st) p)"
  using assms
proof (induction cs arbitrary: st)
  case (Cons d cs)
  show ?case
  proof (cases "d = c")
    case True
    then show ?thesis using close_all_keeps_aborted close_aborts Cons.prems(3,4) by simp
  next
    case False
    have "pendingRequestsByClient st d \<noteq> Some m"
      using Cons.prems(1,3) False inj_onD [of "pendingRequestsByClient st" "dom (pendingRequestsByClient st)" d c]
      by (auto simp: accounting_def pending_view_def)
    then have "pending_maps (transport_close d st) m = pending_maps st m"
      by (simp add: close_maps split: option.split)
    then show ?thesis
      using Cons.IH [of "transport_close d st"] Cons.prems False pending.close by (simp add: close_effect)
  qed
qed simp

section \<open>Properties\<close>

lemma owned_sum:
  assumes "accounting options (pending_view st)"
  shows "pendingRequestCount st =
    (\<Sum>c \<in> dom (pendingRequestsByClient st). length (pending_maps st (the (pendingRequestsByClient st c))))"
proof -
  let ?owner = "pendingRequestsByClient st" and ?len = "\<lambda>m. length (pending_maps st m)"
  have inj: "inj_on ?owner (dom ?owner)" and sub: "ran ?owner \<subseteq> {..<next_map st}"
    and orphan: "\<And>m. m \<notin> ran ?owner \<Longrightarrow> pending_maps st m = []"
    and count: "pendingRequestCount st = (\<Sum>m<next_map st. ?len m)"
    using assms by (auto simp: accounting_def pending_view_def ran_def)
  have "inj_on (\<lambda>c. the (?owner c)) (dom ?owner)"
  proof (rule inj_onI)
    fix x y assume "x \<in> dom ?owner" "y \<in> dom ?owner" "the (?owner x) = the (?owner y)"
    then show "x = y" using inj_onD [OF inj, of x y] by auto
  qed
  moreover have "(\<lambda>c. the (?owner c)) ` dom ?owner = ran ?owner" by (force simp: ran_def dom_def image_def)
  ultimately have "(\<Sum>c \<in> dom ?owner. ?len (the (?owner c))) = sum ?len (ran ?owner)"
    using sum.reindex [of "\<lambda>c. the (?owner c)" "dom ?owner" ?len] by simp
  also have "\<dots> = (\<Sum>m<next_map st. ?len m)"
    using sub orphan by (intro sum.mono_neutral_left) auto
  finally show ?thesis using count by simp
qed

text \<open>
  C15. The pending count is exact in every reachable state, over any interleaving of messages, time-outs, ends
  of requests, sends and closes: it is the number of requests registered for the clients, so nothing is ever
  counted twice or subtracted twice. No client has more than its share, the server not more than its limit.
\<close>

theorem rpc_pending_accounting:
  assumes "rpc_reachable options (st, R)"
  shows "pendingRequestCount st =
      (\<Sum>c \<in> dom (pendingRequestsByClient st). length (pending_maps st (the (pendingRequestsByClient st c)))) \<and>
    (\<forall>c. case pendingRequestsByClient st c of None \<Rightarrow> True
      | Some m \<Rightarrow> length (pending_maps st m) \<le> maxPendingRequestsPerClient options) \<and>
    pendingRequestCount st \<le> maxPendingRequests options"
proof -
  have acc: "accounting options (pending_view st)" using reachable_accounting [OF assms] by simp
  then have "pendingRequestCount st \<le> maxPendingRequests options"
    and "\<And>m. length (pending_maps st m) \<le> maxPendingRequestsPerClient options"
    by (auto simp: accounting_def pending_view_def)
  then show ?thesis using owned_sum [OF acc] by (simp split: option.split)
qed

text \<open>
  C16. Which registrations outlive their request: in every reachable state a registered request is one that runs, or one whose
  method has no handler, which was registered before that was noticed. With none of either the count is zero again,
  whichever connections were closed meanwhile.
\<close>

theorem rpc_no_leaked_request:
  assumes "rpc_reachable options (st, R, L)"
  shows "(\<forall>m n. case jm_get (pending_maps st m) n of
        None \<Rightarrow> True
      | Some p \<Rightarrow> (\<exists>c. RpcTask c m n p \<in> R) \<or> (\<exists>meth. (meth, m, n, p) \<in> L \<and> \<not> hasHandler options meth)) \<and>
    (if R = {} \<and> L = {} then pendingRequestCount st = 0 else True)"
proof -
  have sub: "pending_entries st \<subseteq> task_entry ` R \<union> snd ` L" and none: "L \<subseteq> {(meth, x). \<not> hasHandler options meth}"
    using reachable_tracked [OF assms] by (simp_all add: tracked_def)
  have "(\<exists>c. RpcTask c m n p \<in> R) \<or> (\<exists>meth. (meth, m, n, p) \<in> L \<and> \<not> hasHandler options meth)"
    if "jm_get (pending_maps st m) n = Some p" for m n p
  proof -
    have "(m, n, p) \<in> task_entry ` R \<or> (m, n, p) \<in> snd ` L" using sub that by (auto simp: pending_entries_def)
    then show ?thesis
    proof
      assume "(m, n, p) \<in> task_entry ` R"
      then obtain t where t: "t \<in> R" "(m, n, p) = task_entry t" by blast
      then show ?thesis by (cases t) (auto simp: task_entry_def)
    next
      assume "(m, n, p) \<in> snd ` L"
      then show ?thesis using none by auto
    qed
  qed
  moreover have "pendingRequestCount st = 0" if "R = {}" "L = {}"
  proof -
    have none: "jm_get (pending_maps st m) n = None" for m n
      using sub that by (cases "jm_get (pending_maps st m) n") (auto simp: pending_entries_def)
    have "pending_maps st m = []" for m
    proof (cases "pending_maps st m")
      case (Cons e es)
      then show ?thesis using none [of m "fst e"] by (cases e) simp
    qed
    then show ?thesis using reachable_accounting [OF assms] by (simp add: accounting_def pending_view_def)
  qed
  ultimately show ?thesis by (intro conjI) (simp_all split: option.split)
qed

text \<open>
  C17. \<open>closeSession\<close> closes exactly the session's clients: those indexed under it, which it counts. They are
  no clients any more, have no pending requests and no index entry, and the requests they had are aborted;
  every other client keeps all three.
\<close>

theorem rpc_session_closed_exact:
  assumes "rpc_reachable options (st, R)"
  shows "fst (closeSession sid st) = card {c. indexedClientSessionId st c = Some sid} \<and>
    (\<forall>c. if indexedClientSessionId st c = Some sid
       then c \<notin> set (clients (snd (closeSession sid st))) \<and>
         pendingRequestsByClient (snd (closeSession sid st)) c = None \<and>
         indexedClientSessionId (snd (closeSession sid st)) c = None \<and>
         list_all (\<lambda>p. pn_aborted (pending_objects (snd (closeSession sid st)) p))
           (case pendingRequestsByClient st c of None \<Rightarrow> [] | Some m \<Rightarrow> map snd (pending_maps st m))
       else (c \<in> set (clients (snd (closeSession sid st)))) = (c \<in> set (clients st)) \<and>
         pendingRequestsByClient (snd (closeSession sid st)) c = pendingRequestsByClient st c \<and>
         indexedClientSessionId (snd (closeSession sid st)) c = indexedClientSessionId st c)"
proof -
  let ?targets = "case jm_get (clientsBySessionId st) sid of None \<Rightarrow> [] | Some cs \<Rightarrow> cs"
  have ok: "index_ok st" and acc: "accounting options (pending_view st)"
    using reachable_index [OF assms] reachable_accounting [OF assms] by simp_all
  have "set ?targets = members st sid" by (simp add: members_def split: option.split)
  then have targets: "set ?targets = {c. indexedClientSessionId st c = Some sid}" "distinct ?targets"
    using ok by (auto simp: index_ok_def split: option.split)
  have close: "closeSession sid st = (length ?targets, fold transport_close ?targets st)"
    by (simp add: closeSession_def Let_def)
  have "length ?targets = card {c. indexedClientSessionId st c = Some sid}"
    using distinct_card [OF targets(2)] targets(1) by simp
  moreover have "list_all (\<lambda>p. pn_aborted (pending_objects (fold transport_close ?targets st) p))
      (case pendingRequestsByClient st c of None \<Rightarrow> [] | Some m \<Rightarrow> map snd (pending_maps st m))"
    if "indexedClientSessionId st c = Some sid" for c
  proof (cases "pendingRequestsByClient st c")
    case (Some m)
    have "c \<in> set ?targets" using targets(1) that by blast
    then show ?thesis using close_all_aborts [OF acc _ Some] Some by (auto simp: list_all_iff)
  qed simp
  ultimately show ?thesis
    using targets(1) unfolding close fst_conv snd_conv close_all_effect by auto
qed

text \<open>
  A connection that was closed is served all the same when messages of it were already queued: its next message
  is parsed and handled, and it is put back into the index of its session, where nothing but a further close
  takes it out.
\<close>

theorem transport_closed_client_served:
  assumes "messageByteLength \<le> maxPayloadBytes options"
  shows "fst (message_received options c True (Some sid) messageByteLength True (transport_close c st)) = ParsePayload \<and>
    c \<notin> set (clients (snd (message_received options c True (Some sid) messageByteLength True (transport_close c st)))) \<and>
    c \<in> members (snd (message_received options c True (Some sid) messageByteLength True (transport_close c st))) sid"
proof -
  have "indexedClientSessionId (transport_close c st) c = None" "c \<notin> set (clients (transport_close c st))"
    by (simp_all add: close_effect)
  then show ?thesis using assms
    by (auto simp: message_received_def Let_def refreshClientIndexes_def addClientToSessionIndex_def members_def
        jm_lookup_update split: option.split)
qed

section \<open>Witnesses\<close>

definition sample_options :: transport_options where
  "sample_options = \<lparr> maxPayloadBytes = 1000, maxPendingRequests = 2, maxPendingRequestsPerClient = 1,
     rateLimitBurst = 5, rateLimitRefillPerSecond = 1, hasHandler = (\<lambda>_. True) \<rparr>"

text \<open>One client with one running request.\<close>

definition sample_opened :: transport where
  "sample_opened = transport_open 7 (Some ''s'') createRpcTransport"

definition sample_running :: transport where
  "sample_running = snd (message_parsed sample_options 7 0
     (RequestMessage 0 ''getProjects'' (Params PUndefined) Default (Some 50)) sample_opened)"

lemma sample_run:
  "message_parsed sample_options 7 0 (RequestMessage 0 ''getProjects'' (Params PUndefined) Default (Some 50)) sample_opened =
     (Started (RpcTask 7 0 (f64_floor 0) 0), sample_running)"
  by (simp add: sample_running_def message_parsed_def sample_options_def sample_opened_def createRpcTransport_def
      transport_open_def refreshClientIndexes_def addClientToSessionIndex_def assertRateLimit_def getPendingRequests_def
      assertCapacity_def register_request_def incrementPendingRequestCount_def jm_has_def Let_def)

lemma sample_reachable: "rpc_reachable sample_options (sample_running, {RpcTask 7 0 (f64_floor 0) 0}, {})"
proof -
  have "rpc_reachable sample_options (sample_opened, {}, {})"
    unfolding sample_opened_def by (rule rpc_reachable.step [OF rpc_reachable.start rpc_step.opened])
  from rpc_reachable.step [OF this rpc_step.started [OF sample_run]] show ?thesis .
qed

lemma sample_state:
  "pendingRequestCount sample_running = 1" "pendingRequestsByClient sample_running = [7 \<mapsto> 0]"
  "indexedClientSessionId sample_running = [7 \<mapsto> ''s'']" "pending_maps sample_running 0 = [(f64_floor 0, 0)]"
  by (simp_all add: sample_running_def message_parsed_def sample_options_def sample_opened_def createRpcTransport_def
      transport_open_def refreshClientIndexes_def addClientToSessionIndex_def assertRateLimit_def getPendingRequests_def
      assertCapacity_def register_request_def incrementPendingRequestCount_def jm_has_def Let_def)

theorem rpc_pending_accounting_witness:
  "pendingRequestCount sample_running = 1 \<and> pendingRequestCount sample_running \<le> maxPendingRequests sample_options"
  using rpc_pending_accounting [OF sample_reachable] sample_state(1) by simp

theorem rpc_no_leaked_request_witness:
  "\<exists>c. RpcTask c 0 (f64_floor 0) 0 \<in> {RpcTask 7 0 (f64_floor 0) 0}"
  using conjunct1 [OF rpc_no_leaked_request [OF sample_reachable], THEN spec, of 0, THEN spec, of "f64_floor 0"]
  by (simp add: sample_state(4))

text \<open>A request for a method without a handler stays registered: it is answered with an error, and nothing runs.\<close>

definition bare_options :: transport_options where
  "bare_options = sample_options\<lparr> hasHandler := (\<lambda>_. False) \<rparr>"

theorem request_without_handler_stays:
  "fst (message_parsed bare_options 7 0 (RequestMessage 0 ''getProjects'' (Params PUndefined) Default (Some 50)) sample_opened) =
     Failed (UnknownMethod ''getProjects'') \<and>
   rpc_reachable bare_options (snd (message_parsed bare_options 7 0
     (RequestMessage 0 ''getProjects'' (Params PUndefined) Default (Some 50)) sample_opened), {}, {(''getProjects'', 0, f64_floor 0, 0)}) \<and>
   pendingRequestCount (snd (message_parsed bare_options 7 0
     (RequestMessage 0 ''getProjects'' (Params PUndefined) Default (Some 50)) sample_opened)) = 1"
proof -
  let ?message = "RequestMessage 0 ''getProjects'' (Params PUndefined) Default (Some 50)"
  let ?st = "snd (message_parsed bare_options 7 0 ?message sample_opened)"
  note unfold = message_parsed_def bare_options_def sample_options_def sample_opened_def createRpcTransport_def
    transport_open_def refreshClientIndexes_def addClientToSessionIndex_def assertRateLimit_def getPendingRequests_def
    assertCapacity_def register_request_def incrementPendingRequestCount_def jm_has_def Let_def
  have failed: "fst (message_parsed bare_options 7 0 ?message sample_opened) = Failed (UnknownMethod ''getProjects'')"
    and one: "pendingRequestCount ?st = 1" by (simp_all add: unfold)
  have "rpc_reachable bare_options (sample_opened, {}, {})"
    unfolding sample_opened_def by (rule rpc_reachable.step [OF rpc_reachable.start rpc_step.opened])
  moreover have "rpc_step bare_options (sample_opened, {}, {})
      (?st, {}, {} \<union> newly_stranded (UnknownMethod ''getProjects'') sample_opened ?st)"
    using failed by (intro rpc_step.failed) (simp add: prod_eq_iff)
  moreover have "newly_stranded (UnknownMethod ''getProjects'') sample_opened ?st = {(''getProjects'', 0, f64_floor 0, 0)}"
    by (auto simp: newly_stranded_def pending_entries_def unfold split: if_split_asm)
  ultimately have "rpc_reachable bare_options (?st, {}, {(''getProjects'', 0, f64_floor 0, 0)})"
    using rpc_reachable.step by fastforce
  then show ?thesis using failed one by blast
qed

theorem rpc_session_closed_exact_witness:
  "fst (closeSession ''s'' sample_running) = 1 \<and>
   pendingRequestsByClient (snd (closeSession ''s'' sample_running)) 7 = None \<and>
   pn_aborted (pending_objects (snd (closeSession ''s'' sample_running)) 0)"
proof -
  have "{c. indexedClientSessionId sample_running c = Some ''s''} = {7}" by (auto simp: sample_state split: if_split_asm)
  then show ?thesis
    using conjunct1 [OF rpc_session_closed_exact [OF sample_reachable, of "''s''"]]
      spec [OF conjunct2 [OF rpc_session_closed_exact [OF sample_reachable, of "''s''"]], of 7]
    by (simp add: sample_state)
qed

end
