(* ===== verification/Auth_Totp.thy ===== *)
theory Auth_Totp
  imports Js_Result Utf8
begin

text \<open>
  The authentication primitives (\<^verbatim>\<open>src/bun/auth/index.ts\<close>): base 32, the stored form of a TOTP secret, HOTP
  codes and the window in which a code is accepted, and the policy for PINs and passwords. HMAC is an argument,
  as are the hash functions; shifts are those of JavaScript's 32-bit integers.
\<close>

unbundle bit_operations_syntax

section \<open>Base 32\<close>

definition RFC4648_BASE32_ALPHABET :: string where
  "RFC4648_BASE32_ALPHABET = ''ABCDEFGHIJKLMNOPQRSTUVWXYZ234567''"

definition b32_char :: "32 word \<Rightarrow> char" where
  "b32_char w = RFC4648_BASE32_ALPHABET ! unat w"

text \<open>\<open>RFC4648_BASE32_ALPHABET.indexOf(char)\<close>, nothing for minus one.\<close>

fun index_from :: "nat \<Rightarrow> 'a \<Rightarrow> 'a list \<Rightarrow> nat option" where
  "index_from i x [] = None"
| "index_from i x (y # ys) = (if y = x then Some i else index_from (Suc i) x ys)"

definition b32_index :: "char \<Rightarrow> nat option" where
  "b32_index c = index_from 0 c RFC4648_BASE32_ALPHABET"

text \<open>The inner loop \<open>while (bits >= 5)\<close>.\<close>

fun encode_drain :: "nat \<Rightarrow> 32 word \<Rightarrow> 32 word list \<times> nat" where
  "encode_drain bits v =
     (if 5 \<le> bits
      then (case encode_drain (bits - 5) v of (out, left) \<Rightarrow> ((drop_bit (bits - 5) v AND 31) # out, left))
      else ([], bits))"

declare encode_drain.simps [simp del]

fun encode_loop :: "bytes \<Rightarrow> nat \<Rightarrow> 32 word \<Rightarrow> 32 word list" where
  "encode_loop [] bits v = (if 0 < bits then [push_bit (5 - bits) v AND 31] else [])"
| "encode_loop (byte # rest) bits v =
     (let v' = push_bit 8 v OR ucast byte in
      case encode_drain (bits + 8) v' of (out, left) \<Rightarrow> out @ encode_loop rest left v')"

definition encodeBase32 :: "bytes \<Rightarrow> string" where
  "encodeBase32 bs = map b32_char (encode_loop bs 0 0)"

datatype totp_error =
    InvalidTotpSecret
  | StoredSecretMissing
  | UnsupportedAlgorithm
  | BadDigits
  | BadPeriod
  | BadWindow
  | EmptyTotpKey
  | TruncationFailed

fun decode_loop :: "nat list \<Rightarrow> nat \<Rightarrow> 32 word \<Rightarrow> bytes" where
  "decode_loop [] bits v = []"
| "decode_loop (alphabetIndex # rest) bits v =
     (let v' = push_bit 5 v OR of_nat alphabetIndex in
      if 8 \<le> bits + 5 then ucast (drop_bit (bits + 5 - 8) v' AND 255) # decode_loop rest (bits + 5 - 8) v'
      else decode_loop rest (bits + 5) v')"

definition b32_normalized :: "string \<Rightarrow> string" where
  "b32_normalized secret = filter (\<lambda>c. \<not> (js_ws c \<or> c = CHR ''='' \<or> c = CHR ''-'')) (js_upper secret)"

definition decodeBase32 :: "string \<Rightarrow> totp_error + bytes" where
  "decodeBase32 secret =
     (if b32_normalized secret = [] then Inl InvalidTotpSecret
      else (case those (map b32_index (b32_normalized secret)) of
          None \<Rightarrow> Inl InvalidTotpSecret
        | Some indexes \<Rightarrow> Inr (decode_loop indexes 0 0)))"

section \<open>Stored secrets\<close>

datatype totp_algorithm = SHA1 | SHA256 | SHA512

fun algorithm_name :: "totp_algorithm \<Rightarrow> string" where
  "algorithm_name SHA1 = ''SHA-1''"
| "algorithm_name SHA256 = ''SHA-256''"
| "algorithm_name SHA512 = ''SHA-512''"

definition encodeStoredTotpSecret :: "string \<Rightarrow> totp_algorithm \<Rightarrow> string" where
  "encodeStoredTotpSecret secret algorithm = algorithm_name algorithm @ '':'' @ secret"

definition read_algorithm :: "string \<Rightarrow> totp_algorithm option" where
  "read_algorithm s =
     (if s = ''SHA-1'' then Some SHA1 else if s = ''SHA-256'' then Some SHA256
      else if s = ''SHA-512'' then Some SHA512 else None)"

definition parseStoredTotpSecret :: "string \<Rightarrow> totp_error + (totp_algorithm \<times> string)" where
  "parseStoredTotpSecret storedSecret =
     (if js_trim storedSecret = [] then Inl StoredSecretMissing
      else (case split_char CHR '':'' storedSecret of
          [] \<Rightarrow> Inl StoredSecretMissing
        | maybeAlgorithm # secretParts \<Rightarrow>
            (case read_algorithm maybeAlgorithm of
               Some algorithm \<Rightarrow>
                 (if js_trim (js_join '':'' secretParts) = [] then Inl StoredSecretMissing
                  else Inr (algorithm, js_join '':'' secretParts))
             | None \<Rightarrow> (if length secretParts > 0 then Inl UnsupportedAlgorithm else Inr (SHA1, storedSecret)))))"

section \<open>Codes\<close>

type_synonym hmac = "totp_algorithm \<Rightarrow> bytes \<Rightarrow> bytes \<Rightarrow> bytes"

text \<open>The last \<open>n\<close> bytes of the counter, most significant first.\<close>

fun counter_bytes :: "nat \<Rightarrow> nat \<Rightarrow> bytes" where
  "counter_bytes 0 remaining = []"
| "counter_bytes (Suc n) remaining = counter_bytes n (remaining div 256) @ [of_nat (remaining mod 256)]"

definition pad_start :: "nat \<Rightarrow> string \<Rightarrow> string" where
  "pad_start n s = replicate (n - length s) CHR ''0'' @ s"

definition truncated :: "bytes \<Rightarrow> totp_error + 32 word" where
  "truncated signature =
     (if signature = [] then Inl TruncationFailed
      else (case take 4 (drop (unat (last signature AND 15)) signature) of
          [a, b, c, d] \<Rightarrow> Inr (push_bit 24 (ucast (a AND 127)) OR push_bit 16 (ucast b) OR
            push_bit 8 (ucast c) OR ucast d)
        | _ \<Rightarrow> Inl TruncationFailed))"

definition hotp :: "hmac \<Rightarrow> string \<Rightarrow> nat \<Rightarrow> nat \<Rightarrow> totp_algorithm \<Rightarrow> totp_error + string" where
  "hotp hmac secret counter digits algorithm =
     (if digits < 6 \<or> digits > 8 then Inl BadDigits
      else try_then (decodeBase32 secret) (\<lambda>key.
        if key = [] then Inl EmptyTotpKey
        else try_then (truncated (hmac algorithm key (counter_bytes 8 counter))) (\<lambda>binary.
          Inr (pad_start digits (show_nat (unat binary mod 10 ^ digits))))))"

record totp_options =
  to_algorithm :: totp_algorithm
  to_digits :: nat
  to_periodSeconds :: int
  to_window :: int

definition totp_defaults :: totp_options where
  "totp_defaults = \<lparr> to_algorithm = SHA256, to_digits = 6, to_periodSeconds = 30, to_window = 1 \<rparr>"

text \<open>\<open>Math.floor(atMs / 1000 / periodSeconds)\<close>: for a clock below $2^{53}$ the rounded quotient has the same floor.\<close>

definition totp_counter :: "int \<Rightarrow> int \<Rightarrow> int" where
  "totp_counter atMs periodSeconds = atMs div (1000 * periodSeconds)"

definition generateTotpCode :: "hmac \<Rightarrow> string \<Rightarrow> int \<Rightarrow> totp_options \<Rightarrow> totp_error + string" where
  "generateTotpCode hmac secret atMs options =
     (if to_periodSeconds options \<le> 0 then Inl BadPeriod
      else hotp hmac secret (nat (totp_counter atMs (to_periodSeconds options))) (to_digits options) (to_algorithm options))"

text \<open>The loop over the window's offsets; comparing digests of two texts is comparing the texts.\<close>

fun match_window :: "hmac \<Rightarrow> string \<Rightarrow> totp_options \<Rightarrow> string \<Rightarrow> int list \<Rightarrow> totp_error + int option" where
  "match_window hmac secret options code [] = Inr None"
| "match_window hmac secret options code (candidate # rest) =
     (if candidate < 0 then match_window hmac secret options code rest
      else try_then (hotp hmac secret (nat candidate) (to_digits options) (to_algorithm options)) (\<lambda>expected.
        if code = expected then Inr (Some candidate) else match_window hmac secret options code rest))"

definition verifyTotpMatchedCounter ::
  "hmac \<Rightarrow> string \<Rightarrow> string \<Rightarrow> totp_options \<Rightarrow> int \<Rightarrow> totp_error + int option" where
  "verifyTotpMatchedCounter hmac secret code options atMs =
     (if to_digits options < 6 \<or> to_digits options > 8 then Inl BadDigits
      else if to_periodSeconds options \<le> 0 then Inl BadPeriod
      else if to_window options < 0 \<or> to_window options > 10 then Inl BadWindow
      else (let normalizedCode = filter (\<lambda>c. \<not> js_ws c) code;
                current = totp_counter atMs (to_periodSeconds options) in
        if length normalizedCode \<noteq> to_digits options \<or> \<not> list_all is_digit normalizedCode then Inr None
        else match_window hmac secret options normalizedCode [current - to_window options .. current + to_window options]))"

definition verifyTotpCode :: "hmac \<Rightarrow> string \<Rightarrow> string \<Rightarrow> totp_options \<Rightarrow> int \<Rightarrow> totp_error + bool" where
  "verifyTotpCode hmac secret code options atMs =
     try_then (verifyTotpMatchedCounter hmac secret code options atMs) (\<lambda>matched. Inr (matched \<noteq> None))"

section \<open>Recovery codes and the primary factor\<close>

definition normalizeRecoveryCode :: "string \<Rightarrow> string" where
  "normalizeRecoveryCode code = filter (\<lambda>c. \<not> (js_ws c \<or> c = CHR ''-'')) (js_upper code)"

datatype primary_factor_type = Pin | Password

datatype factor_error = FactorTooLong | PinNotDigits | PinTooShort | PinObvious | PinDateLike | PasswordMissing | PasswordTooShort

definition in_range :: "string \<Rightarrow> nat \<Rightarrow> nat \<Rightarrow> bool" where
  "in_range s lo hi = (lo \<le> digits_val s \<and> digits_val s \<le> hi)"

text \<open>\<open>value.slice(a, b)\<close>.\<close>

definition str_slice :: "nat \<Rightarrow> nat \<Rightarrow> 'a list \<Rightarrow> 'a list" where
  "str_slice a b s = drop a (take b s)"

definition isDateLikePin :: "nat \<Rightarrow> string \<Rightarrow> bool" where
  "isDateLikePin currentYear v =
     (if \<not> (list_all is_digit v \<and> 6 \<le> length v \<and> length v \<le> 8) then False
      else (let currentCentury = currentYear div 100 * 100; yy = digits_val (str_slice 0 2 v) in
        if length v = 6 \<and>
          (in_range (str_slice 0 4 v) 1900 2099 \<and> in_range (str_slice 4 6 v) 1 12 \<or>
           in_range (str_slice 0 2 v) 1 12 \<and> in_range (str_slice 2 4 v) 1 31 \<or>
           list_ex (\<lambda>y. 1900 \<le> y \<and> y \<le> 2099) [currentCentury - 100 + yy, currentCentury + yy] \<and>
           in_range (str_slice 2 4 v) 1 12 \<and> in_range (str_slice 4 6 v) 1 31) then True
        else length v = 8 \<and> in_range (str_slice 0 4 v) 1900 2099 \<and> in_range (str_slice 4 6 v) 1 12 \<and>
          in_range (str_slice 6 8 v) 1 31))"

text \<open>The loop that compares each digit with the one before.\<close>

fun pin_runs :: "string \<Rightarrow> bool \<times> bool" where
  "pin_runs (a # b # rest) =
     (case pin_runs (b # rest) of (ascending, descending) \<Rightarrow>
       (digit_val b = digit_val a + 1 \<and> ascending, digit_val b + 1 = digit_val a \<and> descending))"
| "pin_runs v = (True, True)"

definition isObviousPin :: "string \<Rightarrow> bool" where
  "isObviousPin v =
     (if length v = 0 then False
      else if list_all (\<lambda>d. d = hd v) v then True
      else (case pin_runs v of (ascending, descending) \<Rightarrow> ascending \<or> descending))"

text \<open>The UTF-8 length of the value is an argument: the model's strings hold the code units below 256 only.\<close>

definition validatePrimaryFactor :: "nat \<Rightarrow> nat \<Rightarrow> primary_factor_type \<Rightarrow> string \<Rightarrow> factor_error + unit" where
  "validatePrimaryFactor currentYear utf8Bytes kind v =
     (if utf8Bytes > 1024 then Inl FactorTooLong
      else (case kind of
        Pin \<Rightarrow>
          (if \<not> all_digits v then Inl PinNotDigits
           else if length v < 6 then Inl PinTooShort
           else if isObviousPin v then Inl PinObvious
           else if isDateLikePin currentYear v then Inl PinDateLike
           else Inr ())
      | Password \<Rightarrow>
          (if v = [] \<or> js_trim v = [] then Inl PasswordMissing
           else if length v < 12 then Inl PasswordTooShort
           else Inr ())))"

section \<open>Base 32 as a stream of bits\<close>

definition high_bits :: "nat \<Rightarrow> 'a::semiring_bits \<Rightarrow> bool list" where
  "high_bits n w = rev (map (bit w) [0..<n])"

lemma length_high_bits [simp]: "length (high_bits n w) = n"
  by (simp add: high_bits_def)

lemma high_bits_0 [simp]: "high_bits 0 w = []"
  by (simp add: high_bits_def)

lemma high_bits_zero: "high_bits k (0 :: 32 word) = replicate k False"
  by (intro nth_equalityI) (auto simp: high_bits_def rev_nth)

lemma high_bits_eq: "(\<And>i. i < n \<Longrightarrow> bit v i = bit w i) \<Longrightarrow> high_bits n v = high_bits n w"
  by (simp add: high_bits_def)

lemma high_bits_split:
  assumes "m \<le> n" shows "high_bits n w = high_bits (n - m) (drop_bit m w) @ high_bits m w"
proof -
  have "[0..<n] = [0..<m] @ [m..<n]" using assms upt_add_eq_append [of 0 m "n - m"] by simp
  also have "[m..<n] = map (\<lambda>i. i + m) [0..<n - m]" using assms by (simp add: map_add_upt)
  finally show ?thesis by (simp add: high_bits_def bit_drop_bit_eq comp_def add.commute)
qed

lemma high_bits_inj:
  fixes v w :: "8 word"
  shows "high_bits 8 v = high_bits 8 w \<longleftrightarrow> v = w"
proof
  assume "high_bits 8 v = high_bits 8 w"
  then have "map (bit v) [0..<8] = map (bit w) [0..<8]" by (simp add: high_bits_def)
  then have "\<forall>i < 8. bit v i = bit w i" by (simp add: map_eq_conv)
  then show "v = w" by (intro bit_word_eqI) simp
qed simp

text \<open>A byte or a five-bit index shifted in is appended to the stream.\<close>

lemma shift_in:
  fixes v :: "32 word"
  assumes "bits + k \<le> 32" and "\<And>i. k \<le> i \<Longrightarrow> \<not> bit x i"
  shows "high_bits (bits + k) (push_bit k v OR x) = high_bits bits v @ high_bits k x"
proof -
  have "high_bits bits (drop_bit k (push_bit k v OR x)) = high_bits bits v"
    using assms by (intro high_bits_eq) (auto simp: bit_simps)
  moreover have "high_bits k (push_bit k v OR x) = high_bits k x"
    by (intro high_bits_eq) (auto simp: bit_simps)
  ultimately show ?thesis using high_bits_split [of k "bits + k" "push_bit k v OR x"] by simp
qed

lemma mask_bits:
  fixes v :: "32 word"
  shows "high_bits 5 (v AND 31) = high_bits 5 v" and "unat (v AND 31) < 32"
proof -
  have mask: "(31 :: 32 word) = mask 5" by (simp add: mask_eq_exp_minus_1)
  show "high_bits 5 (v AND 31) = high_bits 5 v"
    unfolding mask by (intro high_bits_eq) (simp add: bit_simps)
  have "unat (take_bit 5 v) = take_bit 5 (unat v)" by (simp add: unsigned_take_bit_eq)
  also have "\<dots> < 2 ^ 5" by (rule take_bit_nat_less_exp)
  finally show "unat (v AND 31) < 32" unfolding mask by (simp add: take_bit_eq_mask)
qed

lemma encode_drain_bits:
  "encode_drain bits v = (out, left) \<Longrightarrow>
     high_bits bits v = concat (map (high_bits 5) out) @ high_bits left v \<and> left < 5 \<and> left \<le> bits \<and>
     list_all (\<lambda>w. unat w < 32) out"
proof (induction bits arbitrary: out rule: less_induct)
  case (less bits)
  show ?case
  proof (cases "5 \<le> bits")
    case True
    obtain out' where rest: "encode_drain (bits - 5) v = (out', left)" and out: "out = (drop_bit (bits - 5) v AND 31) # out'"
      using less.prems True by (subst (asm) encode_drain.simps) (auto split: prod.splits)
    have "high_bits bits v = high_bits 5 (drop_bit (bits - 5) v) @ high_bits (bits - 5) v"
      using high_bits_split [of "bits - 5" bits v] True by simp
    then show ?thesis using less.IH [OF _ rest] True by (auto simp: out mask_bits)
  next
    case False
    then show ?thesis using less.prems by (subst (asm) encode_drain.simps) simp
  qed
qed

lemma encode_loop_bits:
  assumes "bits < 5"
  shows "list_all (\<lambda>w. unat w < 32) (encode_loop bs bits v) \<and>
    (\<exists>k < 5. concat (map (high_bits 5) (encode_loop bs bits v)) =
       high_bits bits v @ concat (map (high_bits 8) bs) @ replicate k False)"
  using assms
proof (induction bs bits v rule: encode_loop.induct)
  case (1 bits v)
  have "high_bits 5 (push_bit (5 - bits) v AND 31) = high_bits bits v @ replicate (5 - bits) False"
    using shift_in [of bits "5 - bits" 0 v] 1 by (simp add: mask_bits high_bits_zero)
  then show ?case using 1 by (auto simp: mask_bits intro!: exI [of _ "5 - bits"])
next
  case (2 byte rest bits v)
  let ?v = "push_bit 8 v OR ucast byte :: 32 word"
  obtain out left where drain: "encode_drain (bits + 8) ?v = (out, left)" by (cases "encode_drain (bits + 8) ?v")
  note bits = encode_drain_bits [OF drain]
  have "high_bits (bits + 8) ?v = high_bits bits v @ high_bits 8 (ucast byte :: 32 word)"
    using 2(2) by (intro shift_in) (auto simp: bit_simps dest: bit_imp_le_length)
  moreover have "high_bits 8 (ucast byte :: 32 word) = high_bits 8 byte"
    by (simp add: high_bits_def bit_simps)
  ultimately show ?case using 2(1) [OF refl drain [symmetric]] bits drain by (auto simp: Let_def)
qed

lemma decode_loop_bits:
  assumes "bits < 8" and "list_all (\<lambda>n. n < 32) indexes"
  shows "concat (map (high_bits 8) (decode_loop indexes bits v)) =
    take (8 * ((bits + 5 * length indexes) div 8))
      (high_bits bits v @ concat (map (\<lambda>n. high_bits 5 (of_nat n :: 32 word)) indexes))"
  using assms
proof (induction indexes bits v rule: decode_loop.induct)
  case (2 n rest bits v)
  let ?v = "push_bit 5 v OR of_nat n :: 32 word"
  have small: "\<not> bit (of_nat n :: 32 word) i" if "5 \<le> i" for i
  proof -
    have "bit n i = odd (n div 2 ^ i)" by (rule bit_iff_odd)
    moreover have "(2 :: nat) ^ 5 \<le> 2 ^ i" using that by (intro power_increasing) auto
    then have "n div 2 ^ i = 0" using 2(4) by simp
    ultimately show ?thesis by (simp add: bit_simps)
  qed
  have stream: "high_bits (bits + 5) ?v = high_bits bits v @ high_bits 5 (of_nat n :: 32 word)"
    using 2(3) small by (intro shift_in) auto
  show ?case
  proof (cases "8 \<le> bits + 5")
    case True
    let ?rest = "bits + 5 - 8"
    have "high_bits 8 (ucast (drop_bit ?rest ?v AND 255) :: 8 word) = high_bits 8 (drop_bit ?rest ?v)"
    proof -
      have mask: "(255 :: 32 word) = mask 8" by (simp add: mask_eq_exp_minus_1)
      show ?thesis unfolding mask by (intro nth_equalityI) (auto simp: high_bits_def bit_simps rev_nth)
    qed
    moreover have "high_bits (bits + 5) ?v = high_bits 8 (drop_bit ?rest ?v) @ high_bits ?rest ?v"
      using high_bits_split [of ?rest "bits + 5" ?v] True by simp
    moreover have "(bits + 5 * length (n # rest)) div 8 = Suc ((?rest + 5 * length rest) div 8)"
      using True by simp
    ultimately show ?thesis using 2 True stream
      by (simp add: Let_def flip: append_assoc) (simp add: add.commute)
  next
    case False
    then show ?thesis using 2 stream by (simp add: Let_def flip: append_assoc) (simp add: add.assoc)
  qed
qed simp

lemma b32_char_index:
  assumes "n < 32"
  shows "b32_index (RFC4648_BASE32_ALPHABET ! n) = Some n \<and> js_upper_char (RFC4648_BASE32_ALPHABET ! n) = [RFC4648_BASE32_ALPHABET ! n] \<and>
    \<not> (js_ws (RFC4648_BASE32_ALPHABET ! n) \<or> RFC4648_BASE32_ALPHABET ! n = CHR ''='' \<or> RFC4648_BASE32_ALPHABET ! n = CHR ''-'')"
proof -
  have "list_all (\<lambda>n. b32_index (RFC4648_BASE32_ALPHABET ! n) = Some n \<and>
    js_upper_char (RFC4648_BASE32_ALPHABET ! n) = [RFC4648_BASE32_ALPHABET ! n] \<and>
    \<not> (js_ws (RFC4648_BASE32_ALPHABET ! n) \<or> RFC4648_BASE32_ALPHABET ! n = CHR ''='' \<or>
      RFC4648_BASE32_ALPHABET ! n = CHR ''-'')) [0..<32]"
    by code_simp
  then show ?thesis using assms by (simp add: list_all_iff)
qed

text \<open>An encoded text is already normal, and its indexes are the five-bit groups.\<close>

lemma encoded_normal:
  assumes "list_all (\<lambda>w. unat w < 32) ws"
  shows "b32_normalized (map b32_char ws) = map b32_char ws \<and>
    those (map b32_index (map b32_char ws)) = Some (map unat ws)"
  using assms
proof (induction ws)
  case (Cons w ws)
  then show ?case using b32_char_index [of "unat w"]
    by (simp add: b32_normalized_def js_upper_def b32_char_def)
qed (simp add: b32_normalized_def js_upper_def)

lemma concat_high_bits_inj:
  fixes bs cs :: bytes
  assumes "concat (map (high_bits 8) bs) = concat (map (high_bits 8) cs)"
  shows "bs = cs"
  using assms
proof (induction bs arbitrary: cs)
  case Nil
  then show ?case by (cases cs) (auto dest: arg_cong [of _ _ length])
next
  case (Cons b bs)
  have "high_bits 8 b \<noteq> []" by (metis length_high_bits list.size(3) zero_neq_numeral)
  with Cons show ?case by (cases cs) (auto simp: append_eq_append_conv high_bits_inj)
qed

lemma sum_const_length: "list_all (\<lambda>x. length (f x) = n) xs \<Longrightarrow> length (concat (map f xs)) = n * length xs"
  by (induction xs) auto

text \<open>
  C27. The base 32 texts that are generated as TOTP secrets decode to the bytes they encode, for any number of
  bytes: the 32-bit accumulator overflows, but never in the bits that are still to be written.
\<close>

theorem totp_base32_roundtrip:
  assumes "bs \<noteq> []"
  shows "decodeBase32 (encodeBase32 bs) = Inr bs"
proof -
  let ?ws = "encode_loop bs 0 0"
  obtain k where small: "list_all (\<lambda>w. unat w < 32) ?ws" and k: "k < 5"
    and stream: "concat (map (high_bits 5) ?ws) = concat (map (high_bits 8) bs) @ replicate k False"
    using encode_loop_bits [of 0 bs 0] by auto
  have len: "5 * length ?ws = 8 * length bs + k"
    using arg_cong [OF stream, of length] by (simp add: sum_const_length [where n = 5] sum_const_length [where n = 8] list_all_iff)
  then have ne: "?ws \<noteq> []" using assms by auto
  have idx: "map (\<lambda>n. high_bits 5 (of_nat n :: 32 word)) (map unat ?ws) = map (high_bits 5) ?ws"
    by (simp add: comp_def)
  have "concat (map (high_bits 8) (decode_loop (map unat ?ws) 0 0)) =
      take (8 * ((5 * length ?ws) div 8)) (concat (map (high_bits 5) ?ws))"
    using decode_loop_bits [of 0 "map unat ?ws" 0] small unfolding idx by (simp add: list_all_iff)
  also have "5 * length ?ws div 8 = length bs" using len k by simp
  also have "take (8 * length bs) (concat (map (high_bits 5) ?ws)) = concat (map (high_bits 8) bs)"
    unfolding stream using sum_const_length [of "high_bits 8" 8 bs] by (simp add: list_all_iff)
  finally have "decode_loop (map unat ?ws) 0 0 = bs" by (rule concat_high_bits_inj)
  then show ?thesis
    using encoded_normal [OF small] ne by (simp add: decodeBase32_def encodeBase32_def)
qed

theorem totp_base32_roundtrip_witness: "decodeBase32 (encodeBase32 [222, 173, 190]) = Inr [222, 173, 190]"
  by (rule totp_base32_roundtrip) simp

section \<open>Stored secrets and codes\<close>

text \<open>What is stored is read back, with its algorithm, also where the secret contains the separator.\<close>

lemma stored_secret_roundtrip:
  assumes "js_trim secret \<noteq> []"
  shows "parseStoredTotpSecret (encodeStoredTotpSecret secret algorithm) = Inr (algorithm, secret)"
proof -
  have "\<not> js_ws (hd (algorithm_name algorithm))" "CHR '':'' \<notin> set (algorithm_name algorithm)"
    "algorithm_name algorithm \<noteq> []" "read_algorithm (algorithm_name algorithm) = Some algorithm"
    by (cases algorithm; simp add: js_ws_def read_algorithm_def)+
  moreover have "split_char CHR '':'' (encodeStoredTotpSecret secret algorithm) =
      algorithm_name algorithm # split_char CHR '':'' secret"
    using calculation(2) by (simp add: encodeStoredTotpSecret_def split_char_append_sep)
  moreover have "js_trim (encodeStoredTotpSecret secret algorithm) \<noteq> []"
    using calculation(1,3) unfolding js_trim_Nil_iff encodeStoredTotpSecret_def
    by (cases "algorithm_name algorithm") auto
  ultimately show ?thesis using assms by (simp add: parseStoredTotpSecret_def join_split)
qed

lemma match_window_exact:
  assumes "match_window hmac secret options code candidates = Inr matched"
  shows "case matched of
      Some k \<Rightarrow> 0 \<le> k \<and> hotp hmac secret (nat k) (to_digits options) (to_algorithm options) = Inr code \<and>
        (\<exists>before after'. candidates = before @ k # after' \<and>
          list_all (\<lambda>j. 0 \<le> j \<longrightarrow> hotp hmac secret (nat j) (to_digits options) (to_algorithm options) \<noteq> Inr code) before)
    | None \<Rightarrow> list_all (\<lambda>j. 0 \<le> j \<longrightarrow>
        hotp hmac secret (nat j) (to_digits options) (to_algorithm options) \<noteq> Inr code) candidates"
  using assms
proof (induction candidates)
  case (Cons c rest)
  let ?code = "hotp hmac secret (nat c) (to_digits options) (to_algorithm options)"
  show ?case
  proof (cases "0 \<le> c \<and> ?code = Inr code")
    case True
    then have "matched = Some c" using Cons.prems by simp
    then show ?thesis using True by (auto intro: exI [of _ "[]"])
  next
    case False
    then have rest: "match_window hmac secret options code rest = Inr matched"
      using Cons.prems by (auto simp: try_then_Inr split: if_split_asm)
    show ?thesis
    proof (cases matched)
      case None
      then show ?thesis using Cons.IH [OF rest] False by simp
    next
      case (Some k)
      then obtain before after' where "rest = before @ k # after'"
        "list_all (\<lambda>j. 0 \<le> j \<longrightarrow> hotp hmac secret (nat j) (to_digits options) (to_algorithm options) \<noteq> Inr code) before"
        using Cons.IH [OF rest] by auto
      then have "c # rest = (c # before) @ k # after'"
        "list_all (\<lambda>j. 0 \<le> j \<longrightarrow> hotp hmac secret (nat j) (to_digits options) (to_algorithm options) \<noteq> Inr code) (c # before)"
        using False by simp_all
      then have "\<exists>b a. c # rest = b @ k # a \<and>
          list_all (\<lambda>j. 0 \<le> j \<longrightarrow> hotp hmac secret (nat j) (to_digits options) (to_algorithm options) \<noteq> Inr code) b"
        by blast
      then show ?thesis using Cons.IH [OF rest] Some by simp
    qed
  qed
qed simp

lemma upto_before:
  assumes "[i .. j] = before @ k # after'" shows "i \<le> k \<and> k \<le> j \<and> set before = {i ..< k}"
proof -
  have "k \<in> set [i .. j]" unfolding assms by simp
  then have k: "i \<le> k" "k \<le> j" by simp_all
  have "[i .. k - 1] @ k # [k + 1 .. j] = before @ k # after'"
    using upto_split3 [OF k] assms by (rule trans [OF sym])
  moreover have "k \<notin> set [i .. k - 1]" "k \<notin> set [k + 1 .. j]" by simp_all
  ultimately have "[i .. k - 1] = before" by (metis append_Cons_eq_iff)
  then have "set before = {i .. k - 1}" by (metis set_upto)
  also have "\<dots> = {i ..< k}" by auto
  finally show ?thesis using k by simp
qed

text \<open>
  C9. Which codes are accepted, and for which counter: the code's digits, without white space, are the HOTP
  value of a counter at most \<open>window\<close> steps from the clock's, and the counter that is reported (and then may not
  be used again) is the oldest of those. With no answer, no counter of the window has the code.
\<close>

theorem totp_window_exact:
  assumes "verifyTotpMatchedCounter hmac secret code options atMs = Inr matched"
  shows "let now = totp_counter atMs (to_periodSeconds options); digits = filter (\<lambda>c. \<not> js_ws c) code;
      value_of = (\<lambda>k. hotp hmac secret (nat k) (to_digits options) (to_algorithm options)) in
    case matched of
      Some k \<Rightarrow> 0 \<le> k \<and> \<bar>k - now\<bar> \<le> to_window options \<and> to_window options \<le> 10 \<and>
        length digits = to_digits options \<and> value_of k = Inr digits \<and>
        list_all (\<lambda>j. \<not> (0 \<le> j \<and> value_of j = Inr digits)) [now - to_window options .. k - 1]
    | None \<Rightarrow>
        (if length digits = to_digits options \<and> list_all is_digit digits
         then list_all (\<lambda>j. \<not> (0 \<le> j \<and> value_of j = Inr digits)) [now - to_window options .. now + to_window options]
         else True)"
proof -
  let ?now = "totp_counter atMs (to_periodSeconds options)" and ?digits = "filter (\<lambda>c. \<not> js_ws c) code"
  let ?w = "to_window options"
  have window: "?w \<le> 10" using assms by (auto simp: verifyTotpMatchedCounter_def split: if_split_asm)
  show ?thesis
  proof (cases "length ?digits = to_digits options \<and> list_all is_digit ?digits")
    case False
    then have "matched = None" using assms by (auto simp: verifyTotpMatchedCounter_def Let_def split: if_split_asm)
    then show ?thesis using False by (auto simp: Let_def)
  next
    case True
    then have run: "match_window hmac secret options ?digits [?now - ?w .. ?now + ?w] = Inr matched"
      using assms by (auto simp: verifyTotpMatchedCounter_def Let_def split: if_split_asm)
    note exact = match_window_exact [OF run]
    show ?thesis
    proof (cases matched)
      case None
      then show ?thesis using exact True by (auto simp: Let_def list_all_iff)
    next
      case (Some k)
      obtain before after' where split: "[?now - ?w .. ?now + ?w] = before @ k # after'"
        and before: "list_all (\<lambda>j. 0 \<le> j \<longrightarrow>
          hotp hmac secret (nat j) (to_digits options) (to_algorithm options) \<noteq> Inr ?digits) before"
        using exact Some by auto
      note upto = upto_before [OF split]
      show ?thesis using exact Some before upto True window by (auto simp: Let_def list_all_iff)
    qed
  qed
qed

definition zero_hmac :: hmac where
  "zero_hmac algorithm key message = replicate 20 0"

lemma zero_code: "hotp zero_hmac ''AAAAAAAA'' n 6 SHA256 = Inr ''000000''"
proof -
  have key: "decodeBase32 ''AAAAAAAA'' = Inr (decode_loop (replicate 8 0) 0 0)"
    by (simp add: decodeBase32_def b32_normalized_def js_upper_def js_upper_char_def js_ws_def b32_index_def
        RFC4648_BASE32_ALPHABET_def numeral_eq_Suc)
  have "truncated (replicate 20 0) = Inr 0" by (simp add: truncated_def numeral_eq_Suc)
  moreover have "pad_start 6 (show_nat 0) = ''000000''"
    by code_simp
  moreover have "decode_loop (replicate 8 0) 0 0 \<noteq> []" by (simp add: numeral_eq_Suc Let_def)
  ultimately show ?thesis by (simp add: hotp_def key zero_hmac_def)
qed

theorem totp_window_exact_witness:
  "verifyTotpMatchedCounter zero_hmac ''AAAAAAAA'' ''000 000'' totp_defaults 65000 = Inr (Some 1) \<and>
   \<bar>1 - totp_counter 65000 30\<bar> \<le> 1"
proof -
  have run: "verifyTotpMatchedCounter zero_hmac ''AAAAAAAA'' ''000 000'' totp_defaults 65000 = Inr (Some 1)"
    using zero_code by (simp add: verifyTotpMatchedCounter_def totp_defaults_def totp_counter_def js_ws_def is_digit_def upto_rec1)
  show ?thesis using totp_window_exact [OF run] run by (simp add: Let_def totp_defaults_def)
qed

end
