(* ===== verification/Auth_Store.thy ===== *)
theory Auth_Store
  imports Auth_Totp Js_Map
begin

text \<open>
  The authentication tables and their statements (\<^verbatim>\<open>src/bun/db.ts\<close>): users, the one settings row, recovery codes,
  sessions and websocket tickets, a table with a text key as a map in insertion order. An instant is the number of
  milliseconds of the ISO text that is stored; those texts have a fixed width, so SQL's comparison of texts is the
  comparison of instants. The users table exists and every session row names its user (rows without one come from
  databases of an older version only). Whether foreign keys are enforced is a field of the database.
\<close>

record user_row =
  us_id :: int
  us_username :: string
  us_isAdmin :: bool
  us_enabled :: bool

record auth_settings =
  se_primaryFactorType :: primary_factor_type
  se_primaryFactorHash :: string
  se_totpSecretCiphertext :: string
  se_totpLastUsedCounter :: "int option"
  se_sessionLifetimeDays :: int
  se_failedAttempts :: int
  se_lockedUntil :: "int option"

record recovery_code =
  rc_codeHash :: string
  rc_usedAt :: "int option"

record session_row =
  sr_userId :: int
  sr_issuedAt :: int
  sr_expiresAt :: int
  sr_lastUsedAt :: int
  sr_stepUpValidUntil :: "int option"

record ticket_row =
  tk_sessionId :: string
  tk_issuedAt :: int
  tk_expiresAt :: int
  tk_consumedAt :: "int option"

record auth_db =
  db_users :: "user_row list"
  db_settings :: "auth_settings option"
  db_recoveryCodes :: "recovery_code list"
  db_sessions :: "(string, session_row) jsmap"
  db_tickets :: "(string, ticket_row) jsmap"
  db_foreignKeys :: bool

text \<open>A session as the service sees it, with the user's name and role.\<close>

record auth_session =
  as_id :: string
  as_userId :: int
  as_username :: string
  as_isAdmin :: bool
  as_issuedAt :: int
  as_expiresAt :: int
  as_lastUsedAt :: int
  as_stepUpValidUntil :: "int option"

section \<open>Users\<close>

definition getUserById :: "auth_db \<Rightarrow> int \<Rightarrow> user_row option" where
  "getUserById db userId = List.find (\<lambda>u. us_id u = userId) (db_users db)"

definition getUserByUsername :: "auth_db \<Rightarrow> string \<Rightarrow> user_row option" where
  "getUserByUsername db username =
     (if js_trim username = [] then None else List.find (\<lambda>u. us_username u = js_trim username) (db_users db))"

text \<open>The row with the smallest identifier.\<close>

definition getFirstUserId :: "auth_db \<Rightarrow> int option" where
  "getFirstUserId db = (if db_users db = [] then None else Some (Min (set (map us_id (db_users db)))))"

section \<open>Settings\<close>

text \<open>SQLite's \<open>trim\<close> removes spaces only.\<close>

definition sql_trim :: "string \<Rightarrow> string" where
  "sql_trim s = rev (dropWhile (\<lambda>c. c = CHR '' '') (rev (dropWhile (\<lambda>c. c = CHR '' '') s)))"

definition countConfiguredAuthUsers :: "auth_db \<Rightarrow> nat" where
  "countConfiguredAuthUsers db =
     (case db_settings db of None \<Rightarrow> 0
      | Some s \<Rightarrow> if length (sql_trim (se_totpSecretCiphertext s)) > 0 then 1 else 0)"

definition getFirstConfiguredAuthUserId :: "auth_db \<Rightarrow> int option" where
  "getFirstConfiguredAuthUserId db =
     (if countConfiguredAuthUsers db \<noteq> 1 then None
      else (case getFirstUserId db of Some n \<Rightarrow> Some n | None \<Rightarrow> Some 1))"

definition listKnownAuthUsernames :: "auth_db \<Rightarrow> string list" where
  "listKnownAuthUsernames db =
     (if countConfiguredAuthUsers db = 0 then []
      else (case getFirstConfiguredAuthUserId db of None \<Rightarrow> []
        | Some n \<Rightarrow> (case getUserById db n of None \<Rightarrow> [] | Some u \<Rightarrow> [us_username u])))"

text \<open>The settings are one row, whichever user is asked for; the identifier is handed back with it.\<close>

definition getAuthSettings :: "auth_db \<Rightarrow> auth_settings option" where
  "getAuthSettings db = db_settings db"

definition upsertAuthSettings :: "primary_factor_type \<Rightarrow> string \<Rightarrow> string \<Rightarrow> int \<Rightarrow> auth_db \<Rightarrow> auth_db" where
  "upsertAuthSettings factorType factorHash ciphertext lifetimeDays db =
     db\<lparr> db_settings := Some (case db_settings db of
         None \<Rightarrow> \<lparr> se_primaryFactorType = factorType, se_primaryFactorHash = factorHash,
           se_totpSecretCiphertext = ciphertext, se_totpLastUsedCounter = None, se_sessionLifetimeDays = lifetimeDays,
           se_failedAttempts = 0, se_lockedUntil = None \<rparr>
       | Some s \<Rightarrow> s\<lparr> se_primaryFactorType := factorType, se_primaryFactorHash := factorHash,
           se_totpSecretCiphertext := ciphertext, se_sessionLifetimeDays := lifetimeDays \<rparr>) \<rparr>"

definition setAuthFailureState :: "int \<Rightarrow> int option \<Rightarrow> auth_db \<Rightarrow> auth_db" where
  "setAuthFailureState attempts lockedUntil db =
     db\<lparr> db_settings := map_option (\<lambda>s. s\<lparr> se_failedAttempts := attempts, se_lockedUntil := lockedUntil \<rparr>)
       (db_settings db) \<rparr>"

definition resetAuthFailureState :: "auth_db \<Rightarrow> auth_db" where
  "resetAuthFailureState db = setAuthFailureState 0 None db"

text \<open>The conditional update of the last used counter, with its number of changed rows; the counter is not negative.\<close>

definition tryAdvanceTotpLastUsedCounter :: "int \<Rightarrow> auth_db \<Rightarrow> bool \<times> auth_db" where
  "tryAdvanceTotpLastUsedCounter counter db =
     (case db_settings db of
        None \<Rightarrow> (False, db)
      | Some s \<Rightarrow>
          (if nullish (se_totpLastUsedCounter s) (- 1) < counter
           then (True, db\<lparr> db_settings := Some (s\<lparr> se_totpLastUsedCounter := Some counter \<rparr>) \<rparr>)
           else (False, db)))"

section \<open>Recovery codes\<close>

definition listAuthRecoveryCodes :: "auth_db \<Rightarrow> recovery_code list" where
  "listAuthRecoveryCodes db = db_recoveryCodes db"

text \<open>The hashes are unique in the table: an insertion of a known one throws, and the transaction is rolled back.\<close>

definition replaceAuthRecoveryCodeHashes :: "string list \<Rightarrow> auth_db \<Rightarrow> auth_db option" where
  "replaceAuthRecoveryCodeHashes codeHashes db =
     (if distinct codeHashes
      then Some (db\<lparr> db_recoveryCodes := map (\<lambda>h. \<lparr> rc_codeHash = h, rc_usedAt = None \<rparr>) codeHashes \<rparr>)
      else None)"

definition markAuthRecoveryCodeUsed :: "string \<Rightarrow> int \<Rightarrow> auth_db \<Rightarrow> bool \<times> auth_db" where
  "markAuthRecoveryCodeUsed codeHash usedAt db =
     (list_ex (\<lambda>r. rc_codeHash r = codeHash \<and> rc_usedAt r = None) (db_recoveryCodes db),
      db\<lparr> db_recoveryCodes := map (\<lambda>r. if rc_codeHash r = codeHash \<and> rc_usedAt r = None
        then r\<lparr> rc_usedAt := Some usedAt \<rparr> else r) (db_recoveryCodes db) \<rparr>)"

section \<open>Sessions\<close>

definition getAuthSession :: "auth_db \<Rightarrow> string \<Rightarrow> auth_session option" where
  "getAuthSession db sessionId =
     (case jm_get (db_sessions db) sessionId of
        None \<Rightarrow> None
      | Some row \<Rightarrow>
          (case getUserById db (sr_userId row) of
             None \<Rightarrow> None
           | Some user \<Rightarrow>
               (if \<not> us_enabled user then None
                else Some \<lparr> as_id = sessionId, as_userId = us_id user, as_username = us_username user,
                  as_isAdmin = us_isAdmin user, as_issuedAt = sr_issuedAt row, as_expiresAt = sr_expiresAt row,
                  as_lastUsedAt = sr_lastUsedAt row, as_stepUpValidUntil = sr_stepUpValidUntil row \<rparr>)))"

text \<open>Nothing where the statement throws: the identifier is taken, or the row cannot be read back.\<close>

definition createAuthSession :: "string \<Rightarrow> session_row \<Rightarrow> auth_db \<Rightarrow> (auth_session \<times> auth_db) option" where
  "createAuthSession sessionId row db =
     (if jm_has (db_sessions db) sessionId then None
      else (let db' = db\<lparr> db_sessions := jm_set sessionId row (db_sessions db) \<rparr> in
        case getAuthSession db' sessionId of
          None \<Rightarrow> None
        | Some session \<Rightarrow> (if as_userId session \<noteq> sr_userId row then None else Some (session, db'))))"

definition touchAuthSessionIfExpiresAfter :: "string \<Rightarrow> int \<Rightarrow> int \<Rightarrow> auth_db \<Rightarrow> bool \<times> auth_db" where
  "touchAuthSessionIfExpiresAfter sessionId lastUsedAt expiresAfter db =
     (case jm_get (db_sessions db) sessionId of
        None \<Rightarrow> (False, db)
      | Some row \<Rightarrow>
          (if sr_expiresAt row > expiresAfter
           then (True, db\<lparr> db_sessions := jm_set sessionId (row\<lparr> sr_lastUsedAt := lastUsedAt \<rparr>) (db_sessions db) \<rparr>)
           else (False, db)))"

definition setAuthSessionStepUpValidUntil :: "string \<Rightarrow> int option \<Rightarrow> auth_db \<Rightarrow> auth_db" where
  "setAuthSessionStepUpValidUntil sessionId validUntil db =
     (case jm_get (db_sessions db) sessionId of
        None \<Rightarrow> db
      | Some row \<Rightarrow> db\<lparr> db_sessions := jm_set sessionId (row\<lparr> sr_stepUpValidUntil := validUntil \<rparr>) (db_sessions db) \<rparr>)"

definition deleteAuthSession :: "string \<Rightarrow> auth_db \<Rightarrow> auth_db" where
  "deleteAuthSession sessionId db =
     db\<lparr> db_tickets := filter (\<lambda>(k, t). tk_sessionId t \<noteq> sessionId) (db_tickets db),
         db_sessions := jm_delete sessionId (db_sessions db) \<rparr>"

definition deleteAllAuthSessions :: "auth_db \<Rightarrow> nat \<times> auth_db" where
  "deleteAllAuthSessions db = (length (db_sessions db), db\<lparr> db_tickets := [], db_sessions := [] \<rparr>)"

text \<open>With foreign keys enforced, the tickets of a removed session go with it.\<close>

definition deleteExpiredAuthSessions :: "int \<Rightarrow> auth_db \<Rightarrow> auth_db" where
  "deleteExpiredAuthSessions now db =
     (let kept = filter (\<lambda>(k, row). sr_expiresAt row > now) (db_sessions db) in
      db\<lparr> db_sessions := kept,
          db_tickets := (if db_foreignKeys db
            then filter (\<lambda>(k, t). \<not> (jm_has (db_sessions db) (tk_sessionId t) \<and> \<not> jm_has kept (tk_sessionId t)))
              (db_tickets db)
            else db_tickets db) \<rparr>)"

section \<open>Websocket tickets\<close>

definition getAuthWebSocketTicket :: "auth_db \<Rightarrow> string \<Rightarrow> ticket_row option" where
  "getAuthWebSocketTicket db ticketId = jm_get (db_tickets db) ticketId"

definition createAuthWebSocketTicket :: "string \<Rightarrow> string \<Rightarrow> int \<Rightarrow> int \<Rightarrow> auth_db \<Rightarrow> (ticket_row \<times> auth_db) option" where
  "createAuthWebSocketTicket ticketId sessionId issuedAt expiresAt db =
     (if jm_has (db_tickets db) ticketId \<or> db_foreignKeys db \<and> \<not> jm_has (db_sessions db) sessionId then None
      else (let row = \<lparr> tk_sessionId = sessionId, tk_issuedAt = issuedAt, tk_expiresAt = expiresAt, tk_consumedAt = None \<rparr> in
        Some (row, db\<lparr> db_tickets := jm_set ticketId row (db_tickets db) \<rparr>)))"

definition consumeAuthWebSocketTicket ::
  "string \<Rightarrow> int \<Rightarrow> int option \<Rightarrow> string option \<Rightarrow> auth_db \<Rightarrow> ticket_row option \<times> auth_db" where
  "consumeAuthWebSocketTicket ticketId consumedAt expiresAfter sessionId db =
     (case jm_get (db_tickets db) ticketId of
        None \<Rightarrow> (None, db)
      | Some t \<Rightarrow>
          (if tk_consumedAt t = None \<and> (sessionId = None \<or> sessionId = Some (tk_sessionId t)) \<and>
              (case expiresAfter of None \<Rightarrow> True | Some limit \<Rightarrow> tk_expiresAt t > limit)
           then (let t' = t\<lparr> tk_consumedAt := Some consumedAt \<rparr> in
             (Some t', db\<lparr> db_tickets := jm_set ticketId t' (db_tickets db) \<rparr>))
           else (None, db)))"

definition deleteExpiredAuthWebSocketTickets :: "int \<Rightarrow> auth_db \<Rightarrow> auth_db" where
  "deleteExpiredAuthWebSocketTickets now db =
     db\<lparr> db_tickets := filter (\<lambda>(k, t). \<not> (tk_expiresAt t \<le> now \<or> tk_consumedAt t \<noteq> None)) (db_tickets db) \<rparr>"

section \<open>Well-formed databases\<close>

definition db_ok :: "auth_db \<Rightarrow> bool" where
  "db_ok db = (jm_wf (db_sessions db) \<and> jm_wf (db_tickets db) \<and> distinct (map rc_codeHash (db_recoveryCodes db)))"

lemma jm_wf_filter: "jm_wf m \<Longrightarrow> jm_wf (filter P m)"
  by (simp add: jm_wf_def distinct_map_filter)

lemma jm_get_filter: "jm_wf m \<Longrightarrow> jm_get (filter (\<lambda>(k, v). P k v) m) k =
    (case jm_get m k of None \<Rightarrow> None | Some v \<Rightarrow> if P k v then Some v else None)"
proof (induction m)
  case (Cons e m)
  obtain k' v where e: "e = (k', v)" by (cases e)
  have "jm_wf m" "k' \<notin> fst ` set m" using Cons.prems by (simp_all add: jm_wf_def e)
  moreover have "jm_get (filter (\<lambda>(k, v). P k v) m) k' = None"
    using calculation(2) by (force simp: map_of_eq_None_iff)
  ultimately show ?case using Cons.IH by (auto simp: e)
qed simp

named_theorems db_kept \<open>statements that keep a database well-formed\<close>

lemma db_ok_statements [db_kept]:
  assumes "db_ok db"
  shows "db_ok (setAuthFailureState n l db)" "db_ok (resetAuthFailureState db)"
    "db_ok (snd (tryAdvanceTotpLastUsedCounter counter db))" "db_ok (snd (markAuthRecoveryCodeUsed h now db))"
    "db_ok (snd (touchAuthSessionIfExpiresAfter sid now now' db))" "db_ok (setAuthSessionStepUpValidUntil sid v db)"
    "db_ok (deleteAuthSession sid db)" "db_ok (deleteExpiredAuthSessions now db)"
    "db_ok (snd (consumeAuthWebSocketTicket tid now e s db))" "db_ok (deleteExpiredAuthWebSocketTickets now db)"
    "db_ok (snd (deleteAllAuthSessions db))"
proof -
  have "map rc_codeHash (map (\<lambda>r. if rc_codeHash r = h \<and> rc_usedAt r = None then r\<lparr> rc_usedAt := Some now \<rparr> else r) rs) =
      map rc_codeHash rs" for rs :: "recovery_code list"
    by (induction rs) auto
  then show "db_ok (snd (markAuthRecoveryCodeUsed h now db))"
    using assms by (simp add: db_ok_def markAuthRecoveryCodeUsed_def del: map_map)
qed (use assms in \<open>auto simp: db_ok_def setAuthFailureState_def resetAuthFailureState_def tryAdvanceTotpLastUsedCounter_def
    touchAuthSessionIfExpiresAfter_def setAuthSessionStepUpValidUntil_def deleteAuthSession_def
    deleteExpiredAuthSessions_def consumeAuthWebSocketTicket_def deleteExpiredAuthWebSocketTickets_def
    deleteAllAuthSessions_def Let_def jm_wf_filter jm.wf_put jm.wf_del jm_wf_def [of "[]"] split: option.split\<close>)

lemma db_ok_create:
  "createAuthSession sid row db = Some (s, db') \<Longrightarrow> db_ok db \<Longrightarrow> db_ok db'"
  "createAuthWebSocketTicket tid sid i e db = Some (t, db') \<Longrightarrow> db_ok db \<Longrightarrow> db_ok db'"
  by (auto simp: createAuthSession_def createAuthWebSocketTicket_def db_ok_def Let_def jm.wf_put
      split: option.splits if_split_asm)

section \<open>What is spent once\<close>

text \<open>
  The interface the service relies on for everything that works one time: an attempt on a token answers whether it was
  granted; the tokens that are still good then lack that token, and a refused attempt makes none good again.
\<close>

locale one_time =
  fixes spend :: "'k \<Rightarrow> 's \<Rightarrow> bool \<times> 's" and good :: "'s \<Rightarrow> 'k set" and ok :: "'s \<Rightarrow> bool"
  assumes granted: "ok s \<Longrightarrow> fst (spend k s) \<Longrightarrow> k \<in> good s"
    and spent: "ok s \<Longrightarrow> fst (spend k s) \<Longrightarrow> good (snd (spend k s)) \<subseteq> good s - {k}"
    and refused: "ok s \<Longrightarrow> \<not> fst (spend k s) \<Longrightarrow> good (snd (spend k s)) \<subseteq> good s"
    and kept: "ok s \<Longrightarrow> ok (snd (spend k s))"
begin

text \<open>The tokens granted in a sequence of attempts, from many callers say.\<close>

primrec granted_in :: "'k list \<Rightarrow> 's \<Rightarrow> 'k list" where
  "granted_in [] s = []"
| "granted_in (k # ks) s = (if fst (spend k s) then [k] else []) @ granted_in ks (snd (spend k s))"

lemma granted_good: "ok s \<Longrightarrow> set (granted_in ks s) \<subseteq> good s"
proof (induction ks arbitrary: s)
  case (Cons k ks)
  then have "set (granted_in ks (snd (spend k s))) \<subseteq> good (snd (spend k s))" by (simp add: kept)
  also have "\<dots> \<subseteq> good s" using spent [OF Cons.prems, of k] refused [OF Cons.prems, of k] by blast
  finally show ?case using granted [OF Cons.prems, of k] by auto
qed simp

lemma granted_once: "ok s \<Longrightarrow> distinct (granted_in ks s)"
proof (induction ks arbitrary: s)
  case (Cons k ks)
  have "k \<notin> set (granted_in ks (snd (spend k s)))" if "fst (spend k s)"
    using granted_good [OF kept [OF Cons.prems]] spent [OF Cons.prems that] by blast
  then show ?case using Cons by (simp add: kept)
qed simp

end

definition spend_ticket :: "int \<Rightarrow> string \<Rightarrow> auth_db \<Rightarrow> bool \<times> auth_db" where
  "spend_ticket now tid db =
     (case consumeAuthWebSocketTicket tid now (Some now) None db of (r, db') \<Rightarrow> (r \<noteq> None, db'))"

definition good_tickets :: "auth_db \<Rightarrow> string set" where
  "good_tickets db = {tid. \<exists>t. jm_get (db_tickets db) tid = Some t \<and> tk_consumedAt t = None}"

interpretation totp_counters: one_time tryAdvanceTotpLastUsedCounter
    "\<lambda>db. {k. \<exists>s. db_settings db = Some s \<and> nullish (se_totpLastUsedCounter s) (- 1) < k}" "\<lambda>db. True"
  by unfold_locales (auto simp: tryAdvanceTotpLastUsedCounter_def nullish_def split: option.splits if_splits)

interpretation recovery_codes: one_time "\<lambda>h. markAuthRecoveryCodeUsed h now"
    "\<lambda>db. {rc_codeHash r | r. r \<in> set (db_recoveryCodes db) \<and> rc_usedAt r = None}" "\<lambda>db. True"
  by unfold_locales (auto simp: markAuthRecoveryCodeUsed_def list_ex_iff split: if_splits)

interpretation tickets: one_time "spend_ticket now" good_tickets "\<lambda>db. jm_wf (db_tickets db)"
  by unfold_locales
    (auto simp: spend_ticket_def good_tickets_def consumeAuthWebSocketTicket_def Let_def jm.wf_put
      jm_lookup_update split: option.splits if_split_asm)

text \<open>
  Of any attempts that race for the same database, a code, a counter and a ticket are each granted once.
\<close>

lemma raced_once:
  "distinct (totp_counters.granted_in counters db)"
  "distinct (recovery_codes.granted_in now hashes db)"
  "jm_wf (db_tickets db) \<Longrightarrow> distinct (tickets.granted_in now ids db)"
  by (rule totp_counters.granted_once recovery_codes.granted_once tickets.granted_once; simp)+

end
