(* ===== verification/Auth_Session.thy ===== *)
theory Auth_Session
  imports Auth_Store Lru_Cache Auth_Cookies
begin

text \<open>
  Sessions, websocket tickets and step-up (\<^verbatim>\<open>src/bun/auth/service-session.ts\<close>) over the lockout of
  \<^verbatim>\<open>src/bun/auth/service-core.ts\<close>. The state of the service is the database, the two process-local caches (the map
  of the one database in use) and the time of the last sweep. Random identifiers are arguments. A function that waits
  for a hash is cut there: each part is one step, with what the wait answered as an argument. Audit events, which
  nothing here reads, are left out.
\<close>

definition DEFAULT_SESSION_IDLE_TIMEOUT_MS :: int where "DEFAULT_SESSION_IDLE_TIMEOUT_MS = 24 * 60 * 60 * 1000"
definition DEFAULT_STEP_UP_LIFETIME_MS :: int where "DEFAULT_STEP_UP_LIFETIME_MS = 10 * 60 * 1000"
definition LOGIN_LOCKOUT_AFTER_FAILURES :: int where "LOGIN_LOCKOUT_AFTER_FAILURES = 3"
definition LOGIN_LOCKOUT_WINDOW_MS :: int where "LOGIN_LOCKOUT_WINDOW_MS = 10 * 60 * 1000"
definition EXPIRED_AUTH_SESSION_SWEEP_INTERVAL_MS :: int where "EXPIRED_AUTH_SESSION_SWEEP_INTERVAL_MS = 60000"
definition AUTH_SESSION_TOUCH_INTERVAL_MS :: int where "AUTH_SESSION_TOUCH_INTERVAL_MS = 60000"
definition AUTH_SESSION_RESOLVE_CACHE_TTL_MS :: int where "AUTH_SESSION_RESOLVE_CACHE_TTL_MS = 5000"
definition MAX_AUTH_SESSION_TOUCH_CACHE_ENTRIES :: nat where "MAX_AUTH_SESSION_TOUCH_CACHE_ENTRIES = 1024"
definition MAX_AUTH_SESSION_RESOLVE_CACHE_ENTRIES :: nat where "MAX_AUTH_SESSION_RESOLVE_CACHE_ENTRIES = 1024"

record resolve_entry =
  re_cachedUntilMs :: int
  re_session :: auth_session

record auth_service =
  sv_db :: auth_db
  sv_touched :: "(string, int option) jsmap"
  sv_resolved :: "(string, resolve_entry option) jsmap"
  sv_lastSweepAt :: int

datatype auth_failure =
    AuthNotConfigured
  | InvalidCredentials
  | AuthLocked int
  | UserDisabled
  | SessionRequired
  | InvalidWebSocketTicket
  | TotpSetupRequired string
  | UsernameTaken
  | InvalidUsername
  | UsernameAmbiguous
  | QueueFull
  | SettingsMissing
  | StatementFailed

section \<open>The lockout\<close>

text \<open>\<open>readMutableAuthSettingsForUser\<close> and \<open>readCurrentAuthSettingsForUser\<close>: a lock that has run out is cleared.\<close>

definition readCurrentAuthSettings :: "int \<Rightarrow> auth_db \<Rightarrow> auth_settings option \<times> auth_db" where
  "readCurrentAuthSettings now db =
     (case getAuthSettings db of
        None \<Rightarrow> (None, db)
      | Some s \<Rightarrow>
          (case se_lockedUntil s of
             None \<Rightarrow> (Some s, db)
           | Some lockedUntil \<Rightarrow>
               (if lockedUntil \<le> now then (getAuthSettings (resetAuthFailureState db), resetAuthFailureState db)
                else (Some s, db))))"

definition incrementFailedAttempts :: "int \<Rightarrow> auth_db \<Rightarrow> (auth_failure + int option) \<times> auth_db" where
  "incrementFailedAttempts now db =
     (case readCurrentAuthSettings now db of
        (None, db') \<Rightarrow> (Inl SettingsMissing, db)
      | (Some s, db') \<Rightarrow>
          (let nextAttempts = se_failedAttempts s + 1 in
           if nextAttempts \<ge> LOGIN_LOCKOUT_AFTER_FAILURES
           then (Inr (Some (now + LOGIN_LOCKOUT_WINDOW_MS)),
             setAuthFailureState 0 (Some (now + LOGIN_LOCKOUT_WINDOW_MS)) db')
           else (Inr None, setAuthFailureState nextAttempts None db')))"

text \<open>What every caller throws after a failure was counted.\<close>

definition throw_failure :: "int \<Rightarrow> auth_db \<Rightarrow> auth_failure \<times> auth_db" where
  "throw_failure now db =
     (case incrementFailedAttempts now db of
        (Inl e, db') \<Rightarrow> (e, db')
      | (Inr None, db') \<Rightarrow> (InvalidCredentials, db')
      | (Inr (Some lockedUntil), db') \<Rightarrow> (AuthLocked lockedUntil, db'))"

definition findConfiguredAuthUserByUsername :: "string \<Rightarrow> int \<Rightarrow> auth_db \<Rightarrow> (user_row \<times> auth_settings) option \<times> auth_db" where
  "findConfiguredAuthUserByUsername username now db =
     (case getUserByUsername db username of
        None \<Rightarrow> (None, db)
      | Some user \<Rightarrow>
          (if \<not> us_enabled user then (None, db)
           else (case readCurrentAuthSettings now db of
               (None, db') \<Rightarrow> (None, db')
             | (Some settings, db') \<Rightarrow>
                 (case getUserById db' (us_id user) of
                    None \<Rightarrow> (None, db')
                  | Some configuredUser \<Rightarrow>
                      (if \<not> us_enabled configuredUser \<or> us_username configuredUser \<noteq> us_username user then (None, db')
                       else (Some (configuredUser, settings), db'))))))"

definition enforceConfiguredUserByUsername ::
  "string \<Rightarrow> int \<Rightarrow> auth_db \<Rightarrow> (auth_failure + user_row \<times> auth_settings) \<times> auth_db" where
  "enforceConfiguredUserByUsername username now db =
     (if countConfiguredAuthUsers db = 0 then (Inl AuthNotConfigured, db)
      else (case findConfiguredAuthUserByUsername username now db of
          (None, db') \<Rightarrow> (Inl InvalidCredentials, db')
        | (Some (user, settings), db') \<Rightarrow>
            (case se_lockedUntil settings of
               Some lockedUntil \<Rightarrow> (Inl (AuthLocked lockedUntil), db')
             | None \<Rightarrow> (Inr (user, settings), db'))))"

definition enforceConfiguredUserById :: "int \<Rightarrow> int \<Rightarrow> auth_db \<Rightarrow> (auth_failure + user_row \<times> auth_settings) \<times> auth_db" where
  "enforceConfiguredUserById userId now db =
     (case readCurrentAuthSettings now db of
        (None, db') \<Rightarrow> (Inl AuthNotConfigured, db')
      | (Some settings, db') \<Rightarrow>
          (case getUserById db' userId of
             None \<Rightarrow> (Inl AuthNotConfigured, db')
           | Some user \<Rightarrow>
               (if us_id user \<noteq> userId then (Inl AuthNotConfigured, db')
                else if \<not> us_enabled user then (Inl UserDisabled, db')
                else (case se_lockedUntil settings of
                    Some lockedUntil \<Rightarrow> (Inl (AuthLocked lockedUntil), db')
                  | None \<Rightarrow> (Inr (user, settings), db')))))"

section \<open>The caches\<close>

definition clearAuthSessionTouchCache :: "auth_service \<Rightarrow> auth_service" where
  "clearAuthSessionTouchCache st = st\<lparr> sv_touched := [], sv_resolved := [] \<rparr>"

definition getAuthSessionTouchCacheSize :: "auth_service \<Rightarrow> nat" where
  "getAuthSessionTouchCacheSize st = length (sv_touched st)"

definition readAuthSessionLastTouchedAt :: "string \<Rightarrow> auth_service \<Rightarrow> int option \<times> auth_service" where
  "readAuthSessionLastTouchedAt sessionId st =
     (case readLruMapValue (sv_touched st) sessionId of (v, cache) \<Rightarrow> (v, st\<lparr> sv_touched := cache \<rparr>))"

definition readCachedResolvedAuthSession :: "string \<Rightarrow> int \<Rightarrow> auth_service \<Rightarrow> auth_session option \<times> auth_service" where
  "readCachedResolvedAuthSession sessionId nowMs st =
     (case readLruMapValue (sv_resolved st) sessionId of
        (None, cache) \<Rightarrow> (None, st\<lparr> sv_resolved := cache \<rparr>)
      | (Some entry, cache) \<Rightarrow>
          (if re_cachedUntilMs entry \<le> nowMs then (None, st\<lparr> sv_resolved := jm_delete sessionId cache \<rparr>)
           else (Some (re_session entry), st\<lparr> sv_resolved := cache \<rparr>)))"

definition recordResolvedAuthSession :: "auth_session \<Rightarrow> int \<Rightarrow> auth_service \<Rightarrow> auth_service" where
  "recordResolvedAuthSession session nowMs st =
     st\<lparr> sv_resolved := pruneLruMapToMaxEntries (writeLruMapValue (sv_resolved st) (as_id session)
          (Some \<lparr> re_cachedUntilMs = nowMs + AUTH_SESSION_RESOLVE_CACHE_TTL_MS, re_session = session \<rparr>))
        (of_nat MAX_AUTH_SESSION_RESOLVE_CACHE_ENTRIES) \<rparr>"

definition deleteResolvedAuthSession :: "string \<Rightarrow> auth_service \<Rightarrow> auth_service" where
  "deleteResolvedAuthSession sessionId st = st\<lparr> sv_resolved := jm_delete sessionId (sv_resolved st) \<rparr>"

definition recordAuthSessionTouchedAt :: "string \<Rightarrow> int \<Rightarrow> auth_service \<Rightarrow> auth_service" where
  "recordAuthSessionTouchedAt sessionId nowMs st =
     st\<lparr> sv_touched := writeLruMapValue (sv_touched st) sessionId (Some nowMs) \<rparr>"

definition updateCachedResolvedAuthSession ::
  "string \<Rightarrow> (auth_session \<Rightarrow> auth_session) \<Rightarrow> auth_service \<Rightarrow> auth_service" where
  "updateCachedResolvedAuthSession sessionId updater st =
     (case jm_get (sv_resolved st) sessionId of
        Some (Some entry) \<Rightarrow> st\<lparr> sv_resolved := writeLruMapValue (sv_resolved st) sessionId
          (Some (entry\<lparr> re_session := updater (re_session entry) \<rparr>)) \<rparr>
      | _ \<Rightarrow> st)"

definition pruneAuthSessionTouchCache :: "int \<Rightarrow> auth_service \<Rightarrow> auth_service" where
  "pruneAuthSessionTouchCache nowMs st =
     (let staleTouchedBeforeMs = nowMs - DEFAULT_SESSION_IDLE_TIMEOUT_MS - EXPIRED_AUTH_SESSION_SWEEP_INTERVAL_MS in
      st\<lparr> sv_touched := pruneLruMapToMaxEntries
        (filter (\<lambda>(k, v). \<not> (case v of None \<Rightarrow> False | Some t \<Rightarrow> t \<le> staleTouchedBeforeMs)) (sv_touched st))
        (of_nat MAX_AUTH_SESSION_TOUCH_CACHE_ENTRIES) \<rparr>)"

definition maybeDeleteExpiredAuthSessions :: "int \<Rightarrow> auth_service \<Rightarrow> auth_service" where
  "maybeDeleteExpiredAuthSessions nowMs st =
     (if sv_lastSweepAt st \<noteq> 0 \<and> nowMs - sv_lastSweepAt st < EXPIRED_AUTH_SESSION_SWEEP_INTERVAL_MS then st
      else (pruneAuthSessionTouchCache nowMs (st\<lparr> sv_db := deleteExpiredAuthSessions nowMs (sv_db st) \<rparr>))
        \<lparr> sv_lastSweepAt := nowMs \<rparr>)"

section \<open>Sessions\<close>

definition isSessionIdleExpired :: "auth_session \<Rightarrow> int \<Rightarrow> bool" where
  "isSessionIdleExpired session now = (as_lastUsedAt session + DEFAULT_SESSION_IDLE_TIMEOUT_MS \<le> now)"

text \<open>Deleting the row, the touched time and the resolved entry, as the three early returns do.\<close>

definition forget_session :: "string \<Rightarrow> auth_service \<Rightarrow> auth_service" where
  "forget_session sessionId st =
     deleteResolvedAuthSession sessionId
       (st\<lparr> sv_db := deleteAuthSession sessionId (sv_db st), sv_touched := jm_delete sessionId (sv_touched st) \<rparr>)"

definition drop_cached :: "string \<Rightarrow> auth_service \<Rightarrow> auth_service" where
  "drop_cached sessionId st = deleteResolvedAuthSession sessionId (st\<lparr> sv_touched := jm_delete sessionId (sv_touched st) \<rparr>)"

text \<open>The part after the row was read: expiry, idleness, touching.\<close>

definition resolve_row :: "auth_session \<Rightarrow> bool \<Rightarrow> int \<Rightarrow> auth_service \<Rightarrow> auth_session option \<times> auth_service" where
  "resolve_row session touch nowMs st0 =
     (let st = recordResolvedAuthSession session nowMs st0 in
      if as_expiresAt session \<le> nowMs then (None, forget_session (as_id session) st)
      else (case readAuthSessionLastTouchedAt (as_id session) st of (touched, st1) \<Rightarrow>
        let lastTouchedAtMs = nullish touched (as_lastUsedAt session);
            sessionForIdleCheck = (if lastTouchedAtMs > as_lastUsedAt session
              then session\<lparr> as_lastUsedAt := lastTouchedAtMs \<rparr> else session) in
        if isSessionIdleExpired sessionForIdleCheck nowMs then (None, forget_session (as_id session) st1)
        else if \<not> touch then (Some sessionForIdleCheck, st1)
        else if nowMs - lastTouchedAtMs \<ge> AUTH_SESSION_TOUCH_INTERVAL_MS
        then (case touchAuthSessionIfExpiresAfter (as_id session) nowMs nowMs (sv_db st1) of
            (False, db) \<Rightarrow> (None, drop_cached (as_id session) (st1\<lparr> sv_db := db \<rparr>))
          | (True, db) \<Rightarrow>
              (let touchedSession = session\<lparr> as_lastUsedAt := nowMs \<rparr> in
               (Some touchedSession, recordResolvedAuthSession touchedSession nowMs
                 (pruneAuthSessionTouchCache nowMs (recordAuthSessionTouchedAt (as_id session) nowMs
                   (st1\<lparr> sv_db := db \<rparr>))))))
        else (Some sessionForIdleCheck, st1)))"

definition resolveSession :: "string option \<Rightarrow> bool \<Rightarrow> int \<Rightarrow> auth_service \<Rightarrow> auth_session option \<times> auth_service" where
  "resolveSession sessionId touch nowMs st =
     (if \<not> truthy sessionId then (None, st)
      else (let sid = the sessionId in
        case readCachedResolvedAuthSession sid nowMs (maybeDeleteExpiredAuthSessions nowMs st) of
          (cachedSession, st1) \<Rightarrow>
            (case getAuthSession (sv_db st1) sid of
               None \<Rightarrow> (None, if cachedSession \<noteq> None then drop_cached sid st1 else st1)
             | Some session \<Rightarrow> resolve_row session touch nowMs st1)))"

definition auth_logout :: "string option \<Rightarrow> auth_service \<Rightarrow> auth_service" where
  "auth_logout sessionId st = (if \<not> truthy sessionId then st else forget_session (the sessionId) st)"

text \<open>\<open>buildSession\<close> and \<open>createSessionRecord\<close>, one transaction.\<close>

definition createSessionRecord :: "string \<Rightarrow> int \<Rightarrow> int \<Rightarrow> int \<Rightarrow> auth_db \<Rightarrow> (auth_failure + auth_session) \<times> auth_db" where
  "createSessionRecord newId userId sessionLifetimeDays now db =
     (case createAuthSession newId
         \<lparr> sr_userId = userId, sr_issuedAt = now, sr_expiresAt = now + sessionLifetimeDays * 24 * 60 * 60 * 1000,
           sr_lastUsedAt = now, sr_stepUpValidUntil = None \<rparr>
         (deleteExpiredAuthWebSocketTickets now (deleteExpiredAuthSessions now db)) of
        None \<Rightarrow> (Inl StatementFailed, db)
      | Some (session, db') \<Rightarrow> (Inr session, db'))"

section \<open>Websocket tickets\<close>

definition issueWebSocketTicket ::
  "string \<Rightarrow> string \<Rightarrow> int \<Rightarrow> auth_service \<Rightarrow> (auth_failure + (int \<times> string)) \<times> auth_service" where
  "issueWebSocketTicket newTicketId sessionId now st =
     (case resolveSession (Some sessionId) True now st of
        (None, st1) \<Rightarrow> (Inl SessionRequired, st1)
      | (Some session, st1) \<Rightarrow>
          (let db = deleteExpiredAuthWebSocketTickets now (sv_db st1) in
           case createAuthWebSocketTicket newTicketId (as_id session) now (now + WEBSOCKET_TICKET_LIFETIME_MS) db of
             None \<Rightarrow> (Inl StatementFailed, st1\<lparr> sv_db := db \<rparr>)
           | Some (ticket, db') \<Rightarrow> (Inr (tk_expiresAt ticket, newTicketId), st1\<lparr> sv_db := db' \<rparr>)))"

definition validateAndConsumeWebSocketTicket ::
  "string \<Rightarrow> string \<Rightarrow> int \<Rightarrow> auth_service \<Rightarrow> (auth_failure + unit) \<times> auth_service" where
  "validateAndConsumeWebSocketTicket ticketId sessionId now st =
     (case resolveSession (Some sessionId) False now st of
        (None, st1) \<Rightarrow> (Inl SessionRequired, st1)
      | (Some session, st1) \<Rightarrow>
          (case getAuthWebSocketTicket (sv_db st1) ticketId of
             None \<Rightarrow> (Inl InvalidWebSocketTicket, st1)
           | Some ticket \<Rightarrow>
               (if tk_sessionId ticket \<noteq> as_id session \<or> tk_consumedAt ticket \<noteq> None \<or> tk_expiresAt ticket \<le> now
                then (Inl InvalidWebSocketTicket, st1)
                else (case consumeAuthWebSocketTicket ticketId now (Some now) (Some (as_id session)) (sv_db st1) of
                    (None, db) \<Rightarrow> (Inl InvalidWebSocketTicket, st1\<lparr> sv_db := db \<rparr>)
                  | (Some _, db) \<Rightarrow> (Inr (), st1\<lparr> sv_db := db \<rparr>)))))"

section \<open>Step-up\<close>

text \<open>Before the primary factor is verified.\<close>

definition stepUp_start ::
  "string \<Rightarrow> int \<Rightarrow> auth_service \<Rightarrow> (auth_failure + auth_session \<times> auth_settings) \<times> auth_service" where
  "stepUp_start sessionId now st =
     (case resolveSession (Some sessionId) True now st of
        (None, st1) \<Rightarrow> (Inl SessionRequired, st1)
      | (Some session, st1) \<Rightarrow>
          (case enforceConfiguredUserById (as_userId session) now (sv_db st1) of
             (Inl e, db) \<Rightarrow> (Inl e, st1\<lparr> sv_db := db \<rparr>)
           | (Inr (user, settings), db) \<Rightarrow> (Inr (session, settings), st1\<lparr> sv_db := db \<rparr>)))"

definition stepUp_wrong_factor :: "int \<Rightarrow> auth_service \<Rightarrow> auth_failure \<times> auth_service" where
  "stepUp_wrong_factor now st = (case throw_failure now (sv_db st) of (e, db) \<Rightarrow> (e, st\<lparr> sv_db := db \<rparr>))"

text \<open>After the code was matched to a counter, or to none.\<close>

definition stepUp_finish ::
  "auth_session \<Rightarrow> int option \<Rightarrow> int \<Rightarrow> auth_service \<Rightarrow> (auth_failure + int) \<times> auth_service" where
  "stepUp_finish session matchedCounter now st =
     (case (case matchedCounter of None \<Rightarrow> (False, sv_db st) | Some k \<Rightarrow> tryAdvanceTotpLastUsedCounter k (sv_db st)) of
        (False, db) \<Rightarrow> (case throw_failure now db of (e, db') \<Rightarrow> (Inl e, st\<lparr> sv_db := db' \<rparr>))
      | (True, db) \<Rightarrow>
          (let stepUpValidUntil = now + DEFAULT_STEP_UP_LIFETIME_MS;
               st1 = st\<lparr> sv_db := setAuthSessionStepUpValidUntil (as_id session) (Some stepUpValidUntil)
                 (resetAuthFailureState db) \<rparr> in
           (Inr stepUpValidUntil, updateCachedResolvedAuthSession (as_id session)
             (\<lambda>cached. cached\<lparr> as_stepUpValidUntil := Some stepUpValidUntil \<rparr>) st1)))"

section \<open>Facts about the caches\<close>

lemma set_pruneLru: "jm_wf m \<Longrightarrow> set (pruneLruMapToMaxEntries m n) \<subseteq> set m"
  by (simp add: pruneLruMapToMaxEntries_def Let_def set_evict_oldest)

lemma wf_pruneLru: "jm_wf m \<Longrightarrow> jm_wf (pruneLruMapToMaxEntries m n)"
  by (simp add: pruneLruMapToMaxEntries_def Let_def jm_wf_evict_oldest)

lemma wf_keyed: "jm_wf m \<Longrightarrow> (k, v) \<in> set m \<longleftrightarrow> jm_get m k = Some v"
  by (simp add: jm_wf_def)

lemma set_readLru:
  assumes "jm_wf m" shows "set (snd (readLruMapValue m k)) = set m"
proof (cases "\<exists>v. jm_get m k = Some (Some v)")
  case True
  then obtain v where v: "jm_get m k = Some (Some v)" by blast
  have "e \<in> set m \<longleftrightarrow> e = (k, Some v) \<or> e \<in> set m \<and> fst e \<noteq> k" for e
    using wf_keyed [OF assms, of k "snd e"] wf_keyed [OF assms, of k "Some v"] v by (cases e) auto
  then show ?thesis using v by (auto simp: readLru_hit jm_delete_filter)
next
  case False
  then have "jm_get m k = None \<or> jm_get m k = Some None" by (metis option.exhaust)
  then show ?thesis by (simp add: readLru_miss)
qed

lemma readLru_get: "fst (readLruMapValue m k) = (case jm_get m k of None \<Rightarrow> None | Some v \<Rightarrow> v)"
  using readLru_hit [of m k] readLru_miss [of m k] by (cases "jm_get m k"; cases "the (jm_get m k)") auto

lemma set_writeLru: "set (writeLruMapValue m k v) = insert (k, v) {e \<in> set m. fst e \<noteq> k}"
  by (auto simp: writeLru_touch jm_delete_filter)

text \<open>
  In one process the touched time of a session is the one in its row, so the caches only save writes; both maps keep
  distinct keys.
\<close>

definition touched_ok :: "auth_db \<Rightarrow> (string, int option) jsmap \<Rightarrow> bool" where
  "touched_ok db touched = (\<forall>sid v row. (sid, v) \<in> set touched \<and> jm_get (db_sessions db) sid = Some row \<longrightarrow>
     v = Some (sr_lastUsedAt row))"

definition svc_ok :: "auth_service \<Rightarrow> bool" where
  "svc_ok st = (db_ok (sv_db st) \<and> jm_wf (sv_touched st) \<and> touched_ok (sv_db st) (sv_touched st))"

text \<open>What resolving a session may do to the database: remove sessions and tickets, and touch one.\<close>

definition touched_row :: "session_row \<Rightarrow> session_row \<Rightarrow> bool" where
  "touched_row row row' =
     (sr_userId row' = sr_userId row \<and> sr_issuedAt row' = sr_issuedAt row \<and> sr_expiresAt row' = sr_expiresAt row \<and>
      sr_stepUpValidUntil row' = sr_stepUpValidUntil row)"

definition shrinks :: "auth_db \<Rightarrow> auth_db \<Rightarrow> bool" where
  "shrinks db db' =
     (db_settings db' = db_settings db \<and> db_recoveryCodes db' = db_recoveryCodes db \<and> db_users db' = db_users db \<and>
      db_foreignKeys db' = db_foreignKeys db \<and> set (db_tickets db') \<subseteq> set (db_tickets db) \<and>
      (\<forall>sid row'. jm_get (db_sessions db') sid = Some row' \<longrightarrow>
        (\<exists>row. jm_get (db_sessions db) sid = Some row \<and> touched_row row row')))"

lemma touched_row_refl [simp]: "touched_row row row"
  by (simp add: touched_row_def)

lemma shrinks_refl [simp]: "shrinks db db"
  by (simp add: shrinks_def)

lemma shrinks_trans [trans]: "shrinks a b \<Longrightarrow> shrinks b c \<Longrightarrow> shrinks a c"
  unfolding shrinks_def touched_row_def by (fastforce dest: subsetD)

lemma shrinks_delete: "db_ok db \<Longrightarrow> shrinks db (deleteAuthSession sid db)"
  by (auto simp: shrinks_def deleteAuthSession_def jm_lookup_delete split: if_split_asm)

lemma expired_get:
  "db_ok db \<Longrightarrow> jm_get (db_sessions (deleteExpiredAuthSessions now db)) sid =
     (case jm_get (db_sessions db) sid of None \<Rightarrow> None | Some row \<Rightarrow> if sr_expiresAt row > now then Some row else None)"
  by (simp add: deleteExpiredAuthSessions_def Let_def jm_get_filter db_ok_def split: option.split)

lemma shrinks_expired: "db_ok db \<Longrightarrow> shrinks db (deleteExpiredAuthSessions now db)"
  unfolding shrinks_def by (auto simp: expired_get split: option.splits if_split_asm)
    (auto simp: deleteExpiredAuthSessions_def Let_def split: if_split_asm)

lemma shrinks_touch: "shrinks db (snd (touchAuthSessionIfExpiresAfter sid now now' db))"
  by (auto simp: shrinks_def touchAuthSessionIfExpiresAfter_def jm_lookup_update touched_row_def
      split: option.splits if_split_asm)

lemma touched_ok_subset: "touched_ok db touched \<Longrightarrow> set touched' \<subseteq> set touched \<Longrightarrow> touched_ok db touched'"
  by (auto simp: touched_ok_def)

lemma touched_ok_fewer:
  assumes "touched_ok db touched"
    and "\<And>sid row. jm_get (db_sessions db') sid = Some row \<Longrightarrow> jm_get (db_sessions db) sid = Some row"
  shows "touched_ok db' touched"
  using assms unfolding touched_ok_def by blast

lemma touched_ok_delete: "touched_ok db touched \<Longrightarrow> touched_ok (deleteAuthSession sid db) touched"
  by (erule touched_ok_fewer) (simp add: deleteAuthSession_def jm_lookup_delete split: if_split_asm)

lemma touched_ok_expired: "db_ok db \<Longrightarrow> touched_ok db touched \<Longrightarrow> touched_ok (deleteExpiredAuthSessions now db) touched"
  by (erule touched_ok_fewer) (simp add: expired_get split: option.splits if_split_asm)

lemma touched_ok_get:
  "touched_ok db touched \<Longrightarrow> jm_get touched sid = Some v \<Longrightarrow> jm_get (db_sessions db) sid = Some row \<Longrightarrow>
     v = Some (sr_lastUsedAt row)"
  unfolding touched_ok_def by (blast dest: map_of_SomeD)

section \<open>Resolving a session\<close>

lemma sweep_ok:
  assumes "svc_ok st" shows "svc_ok (maybeDeleteExpiredAuthSessions now st)"
proof -
  have wf: "jm_wf (filter P (sv_touched st))" for P using assms by (simp add: svc_ok_def jm_wf_filter)
  have "set (pruneLruMapToMaxEntries (filter P (sv_touched st)) n) \<subseteq> set (sv_touched st)" for P n
    using set_pruneLru [OF wf, of P n] by auto
  then have "set (sv_touched (maybeDeleteExpiredAuthSessions now st)) \<subseteq> set (sv_touched st)"
    by (simp add: maybeDeleteExpiredAuthSessions_def pruneAuthSessionTouchCache_def Let_def)
  moreover have "jm_wf (sv_touched (maybeDeleteExpiredAuthSessions now st))"
    using assms by (simp add: maybeDeleteExpiredAuthSessions_def pruneAuthSessionTouchCache_def Let_def svc_ok_def
        wf_pruneLru jm_wf_filter)
  ultimately show ?thesis
    using assms touched_ok_expired touched_ok_subset db_ok_statements(8)
    by (auto simp: svc_ok_def maybeDeleteExpiredAuthSessions_def pruneAuthSessionTouchCache_def Let_def)
qed

lemma sweep_db:
  "sv_db (maybeDeleteExpiredAuthSessions now st) = sv_db st \<or>
   sv_db (maybeDeleteExpiredAuthSessions now st) = deleteExpiredAuthSessions now (sv_db st)"
  by (simp add: maybeDeleteExpiredAuthSessions_def pruneAuthSessionTouchCache_def Let_def)

lemma read_cached_other:
  "sv_db (snd (readCachedResolvedAuthSession sid now st)) = sv_db st"
  "sv_touched (snd (readCachedResolvedAuthSession sid now st)) = sv_touched st"
  by (simp_all add: readCachedResolvedAuthSession_def split: prod.split option.split)

lemma cache_other [simp]:
  "sv_db (recordResolvedAuthSession s now st) = sv_db st" "sv_touched (recordResolvedAuthSession s now st) = sv_touched st"
  "sv_db (deleteResolvedAuthSession sid st) = sv_db st" "sv_touched (deleteResolvedAuthSession sid st) = sv_touched st"
  "sv_db (recordAuthSessionTouchedAt sid now st) = sv_db st" "sv_db (pruneAuthSessionTouchCache now st) = sv_db st"
  "sv_db (snd (readAuthSessionLastTouchedAt sid st)) = sv_db st"
  "sv_db (updateCachedResolvedAuthSession sid f st) = sv_db st"
  "sv_touched (updateCachedResolvedAuthSession sid f st) = sv_touched st"
  by (simp_all add: recordResolvedAuthSession_def deleteResolvedAuthSession_def recordAuthSessionTouchedAt_def
      pruneAuthSessionTouchCache_def readAuthSessionLastTouchedAt_def updateCachedResolvedAuthSession_def Let_def
      split: prod.split option.split)

lemma forget_ok: "svc_ok st \<Longrightarrow> svc_ok (forget_session sid st)"
  using set_delete_subset [of sid "sv_touched st"]
  by (auto simp: svc_ok_def forget_session_def db_ok_statements jm.wf_del
      intro!: touched_ok_delete intro: touched_ok_subset)

lemma drop_ok: "svc_ok st \<Longrightarrow> svc_ok (drop_cached sid st)"
  using set_delete_subset [of sid "sv_touched st"]
  by (auto simp: svc_ok_def drop_cached_def jm.wf_del intro: touched_ok_subset)

lemma read_touched_ok: "svc_ok st \<Longrightarrow> svc_ok (snd (readAuthSessionLastTouchedAt sid st))"
  using set_readLru [of "sv_touched st" sid] wf_readLru [of "sv_touched st" sid]
  by (auto simp: svc_ok_def readAuthSessionLastTouchedAt_def case_prod_unfold intro: touched_ok_subset)

lemma session_row:
  assumes "getAuthSession db sid = Some s"
  obtains row where "jm_get (db_sessions db) sid = Some row" "as_id s = sid" "as_lastUsedAt s = sr_lastUsedAt row"
    "as_expiresAt s = sr_expiresAt row" "as_stepUpValidUntil s = sr_stepUpValidUntil row" "as_userId s = sr_userId row"
  using assms by (auto simp: getAuthSession_def getUserById_def find_Some_iff split: option.splits if_split_asm)

lemma last_touched:
  assumes "svc_ok st" and "getAuthSession (sv_db st) sid = Some s"
  shows "nullish (fst (readAuthSessionLastTouchedAt sid (recordResolvedAuthSession s now st))) (as_lastUsedAt s) = as_lastUsedAt s"
proof -
  obtain row where row: "jm_get (db_sessions (sv_db st)) sid = Some row" "as_lastUsedAt s = sr_lastUsedAt row"
    using session_row [OF assms(2)] by metis
  have "fst (readAuthSessionLastTouchedAt sid (recordResolvedAuthSession s now st)) =
      (case jm_get (sv_touched st) sid of None \<Rightarrow> None | Some v \<Rightarrow> v)"
    by (simp add: readAuthSessionLastTouchedAt_def case_prod_unfold readLru_get)
  moreover have "touched_ok (sv_db st) (sv_touched st)" using assms(1) by (simp add: svc_ok_def)
  then have "jm_get (sv_touched st) sid = Some v \<Longrightarrow> v = Some (sr_lastUsedAt row)" for v
    using touched_ok_get row(1) by metis
  ultimately show ?thesis using row(2) by (cases "jm_get (sv_touched st) sid") (simp_all add: nullish_def)
qed

text \<open>The row after a touch, with the touched time.\<close>

lemma touch_ok:
  assumes "svc_ok st" and "touchAuthSessionIfExpiresAfter sid now now (sv_db st) = (True, db)"
  shows "svc_ok (pruneAuthSessionTouchCache now (recordAuthSessionTouchedAt sid now (st\<lparr> sv_db := db \<rparr>)))"
proof -
  obtain row where db: "db = (sv_db st)\<lparr> db_sessions :=
      jm_set sid (row\<lparr> sr_lastUsedAt := now \<rparr>) (db_sessions (sv_db st)) \<rparr>"
    using assms(2) by (auto simp: touchAuthSessionIfExpiresAfter_def split: option.splits if_split_asm)
  let ?touched = "writeLruMapValue (sv_touched st) sid (Some now)"
  have "touched_ok db ?touched"
    using assms(1) unfolding touched_ok_def svc_ok_def set_writeLru db by (auto simp: jm_lookup_update split: if_split_asm)
  moreover have wf: "jm_wf (filter P ?touched)" for P
    using assms(1) by (simp add: svc_ok_def wf_writeLru jm_wf_filter)
  moreover have "set (pruneLruMapToMaxEntries (filter P ?touched) n) \<subseteq> set ?touched" for P n
    using set_pruneLru [OF wf, of P n] by auto
  moreover have "db_ok db" using db_ok_statements(5) [of "sv_db st" sid now now] assms by (simp add: svc_ok_def)
  ultimately show ?thesis
    using touched_ok_subset [of db ?touched] wf_pruneLru [OF wf]
    by (simp add: svc_ok_def pruneAuthSessionTouchCache_def recordAuthSessionTouchedAt_def Let_def)
qed

lemma resolve_row_exact:
  assumes "svc_ok st" and "getAuthSession (sv_db st) sid = Some s"
  shows "fst (resolve_row s touch now st) =
      (if as_expiresAt s \<le> now \<or> as_lastUsedAt s + DEFAULT_SESSION_IDLE_TIMEOUT_MS \<le> now then None
       else Some (if touch \<and> now - as_lastUsedAt s \<ge> AUTH_SESSION_TOUCH_INTERVAL_MS
         then s\<lparr> as_lastUsedAt := now \<rparr> else s)) \<and>
    svc_ok (snd (resolve_row s touch now st)) \<and> shrinks (sv_db st) (sv_db (snd (resolve_row s touch now st)))"
proof -
  obtain row where row: "jm_get (db_sessions (sv_db st)) sid = Some row" "as_id s = sid"
    "as_lastUsedAt s = sr_lastUsedAt row" "as_expiresAt s = sr_expiresAt row" by (rule session_row [OF assms(2)])
  let ?st0 = "recordResolvedAuthSession s now st"
  have ok0: "svc_ok ?st0" using assms(1) by (simp add: svc_ok_def)
  obtain touched st1 where read: "readAuthSessionLastTouchedAt sid ?st0 = (touched, st1)"
    by (cases "readAuthSessionLastTouchedAt sid ?st0")
  have last: "nullish touched (as_lastUsedAt s) = as_lastUsedAt s" using last_touched [OF assms, of now] read by simp
  have ok1: "svc_ok st1" and db1: "sv_db st1 = sv_db st"
    using read_touched_ok [OF ok0, of sid] cache_other(7) [of sid ?st0] read by simp_all
  have gone: "shrinks (sv_db st) (sv_db (forget_session sid st'))" if "sv_db st' = sv_db st" for st'
    using shrinks_delete [of "sv_db st" sid] assms(1) that by (simp add: forget_session_def svc_ok_def)
  show ?thesis
  proof (cases "as_expiresAt s \<le> now")
    case True
    then show ?thesis using forget_ok [OF ok0] gone by (simp add: resolve_row_def Let_def row)
  next
    case live: False
    show ?thesis
    proof (cases "as_lastUsedAt s + DEFAULT_SESSION_IDLE_TIMEOUT_MS \<le> now")
      case True
      then show ?thesis using live forget_ok [OF ok1] gone [OF db1]
        by (simp add: resolve_row_def Let_def row(2) read last isSessionIdleExpired_def)
    next
      case False
      show ?thesis
      proof (cases "touch \<and> now - as_lastUsedAt s \<ge> AUTH_SESSION_TOUCH_INTERVAL_MS")
        case True
        obtain db where touch: "touchAuthSessionIfExpiresAfter sid now now (sv_db st1) = (True, db)"
          using live row by (simp add: touchAuthSessionIfExpiresAfter_def db1)
        have "svc_ok (recordResolvedAuthSession x now
            (pruneAuthSessionTouchCache now (recordAuthSessionTouchedAt sid now (st1\<lparr> sv_db := db \<rparr>))))" for x
          using touch_ok [OF ok1 touch] by (simp add: svc_ok_def)
        moreover have "shrinks (sv_db st) db" using shrinks_touch [of "sv_db st1" sid now now] touch db1 by simp
        ultimately show ?thesis using live False True
          by (simp add: resolve_row_def Let_def row(2) read last isSessionIdleExpired_def touch)
      next
        case untouched: False
        then show ?thesis using live False ok1 db1
          by (auto simp: resolve_row_def Let_def row(2) read last isSessionIdleExpired_def)
      qed
    qed
  qed
qed

text \<open>A session as the rows have it: resolving answers with it while it is neither expired nor idle.\<close>

definition live_session :: "auth_db \<Rightarrow> string \<Rightarrow> int \<Rightarrow> auth_session option" where
  "live_session db sid now =
     (case getAuthSession db sid of
        None \<Rightarrow> None
      | Some s \<Rightarrow> (if now < as_expiresAt s \<and> now < as_lastUsedAt s + DEFAULT_SESSION_IDLE_TIMEOUT_MS then Some s else None))"

lemma getAuthSession_expired:
  assumes "db_ok db"
  shows "getAuthSession (deleteExpiredAuthSessions now db) sid =
    (case getAuthSession db sid of None \<Rightarrow> None | Some s \<Rightarrow> if as_expiresAt s > now then Some s else None)"
proof -
  have "db_users (deleteExpiredAuthSessions now db) = db_users db" by (simp add: deleteExpiredAuthSessions_def Let_def)
  then show ?thesis using expired_get [OF assms, of now sid]
    by (auto simp: getAuthSession_def getUserById_def split: option.split)
qed

lemma resolve_exact:
  assumes "svc_ok st" and "sid \<noteq> []"
  shows "fst (resolveSession (Some sid) touch now st) =
      map_option (\<lambda>s. if touch \<and> now - as_lastUsedAt s \<ge> AUTH_SESSION_TOUCH_INTERVAL_MS
        then s\<lparr> as_lastUsedAt := now \<rparr> else s) (live_session (sv_db st) sid now) \<and>
    svc_ok (snd (resolveSession (Some sid) touch now st)) \<and>
    shrinks (sv_db st) (sv_db (snd (resolveSession (Some sid) touch now st)))"
proof -
  let ?swept = "maybeDeleteExpiredAuthSessions now st"
  obtain cached st1 where read: "readCachedResolvedAuthSession sid now ?swept = (cached, st1)"
    by (cases "readCachedResolvedAuthSession sid now ?swept")
  have db1: "sv_db st1 = sv_db ?swept" "sv_touched st1 = sv_touched ?swept"
    using read_cached_other [of sid now ?swept] read by simp_all
  have ok: "db_ok (sv_db st)" and ok1: "svc_ok st1" using assms(1) sweep_ok [OF assms(1), of now] db1 by (simp_all add: svc_ok_def)
  have shr: "shrinks (sv_db st) (sv_db st1)" using sweep_db [of now st] shrinks_expired [OF ok, of now] db1 by auto
  have get: "getAuthSession (sv_db st1) sid = getAuthSession (sv_db st) sid \<or>
      getAuthSession (sv_db st1) sid =
        (case getAuthSession (sv_db st) sid of None \<Rightarrow> None | Some s \<Rightarrow> if as_expiresAt s > now then Some s else None)"
    using sweep_db [of now st] getAuthSession_expired [OF ok, of now sid] db1 by auto
  show ?thesis
  proof (cases "getAuthSession (sv_db st1) sid")
    case None
    then have "live_session (sv_db st) sid now = None"
      using get by (auto simp: live_session_def split: option.splits if_split_asm)
    then show ?thesis using None assms(2) drop_ok [OF ok1] ok1 shr
      by (simp add: resolveSession_def truthy_iff Let_def read drop_cached_def)
  next
    case (Some s)
    then have s: "getAuthSession (sv_db st) sid = Some s" using get by (auto split: option.splits if_split_asm)
    have live: "live_session (sv_db st) sid now =
        (if as_expiresAt s \<le> now \<or> as_lastUsedAt s + DEFAULT_SESSION_IDLE_TIMEOUT_MS \<le> now then None else Some s)"
      by (simp add: live_session_def s)
    have res: "resolveSession (Some sid) touch now st = resolve_row s touch now st1"
      using Some assms(2) by (simp add: resolveSession_def truthy_iff Let_def read)
    show ?thesis unfolding res live
      using resolve_row_exact [OF ok1 Some, of touch now] shrinks_trans [OF shr] by simp
  qed
qed

end
