(* ===== verification/Auth_Login.thy ===== *)
theory Auth_Login
  imports Auth_Session
begin

text \<open>
  User names (\<^verbatim>\<open>src/bun/auth/usernames.ts\<close>) and the setup, login and recovery flows
  (\<^verbatim>\<open>src/bun/auth/service-login.ts\<close>), each cut where it waits for a hash, a key or the transaction queue. What
  those waits answer (is the primary factor right, which counter has the code, which stored hashes match a
  recovery code) is an argument, as are new hashes, cipher texts and identifiers.
\<close>

section \<open>User names\<close>

definition MAX_USERNAME_LENGTH :: nat where "MAX_USERNAME_LENGTH = 64"

definition hasControlCharacters :: "string \<Rightarrow> bool" where
  "hasControlCharacters v = list_ex (\<lambda>c. (of_char c :: nat) \<le> 31 \<or> (of_char c :: nat) = 127) v"

definition path_separator :: "char \<Rightarrow> bool" where
  "path_separator c = (c = CHR ''/'' \<or> c = CHR 0x5C)"

definition reserved_path_char :: "char \<Rightarrow> bool" where
  "reserved_path_char c = (c \<in> set '':*?<>|'' \<or> c = CHR 0x22)"

definition normalizeUsername :: "string \<Rightarrow> auth_failure + string" where
  "normalizeUsername username =
     (let normalizedUsername = js_trim username in
      if normalizedUsername = [] then Inl InvalidUsername
      else if length normalizedUsername > MAX_USERNAME_LENGTH then Inl InvalidUsername
      else Inr normalizedUsername)"

definition normalizeWorkspaceHomeUsername :: "string \<Rightarrow> auth_failure + string" where
  "normalizeWorkspaceHomeUsername username =
     try_then (normalizeUsername username) (\<lambda>name.
       if name = ''.'' \<or> name = ''..'' \<or> list_ex path_separator name \<or> list_ex reserved_path_char name \<or>
         hasControlCharacters name
       then Inl InvalidUsername else Inr name)"

definition resolveSingleOperatorUsername :: "auth_db \<Rightarrow> auth_failure + string" where
  "resolveSingleOperatorUsername db =
     (case listKnownAuthUsernames db of [] \<Rightarrow> Inr ''metidos'' | [name] \<Rightarrow> Inr name | _ \<Rightarrow> Inl UsernameAmbiguous)"

definition resolveAuthInputUsername :: "string option \<Rightarrow> auth_db \<Rightarrow> auth_failure + string" where
  "resolveAuthInputUsername username db =
     (let trimmedUsername = (case username of None \<Rightarrow> [] | Some name \<Rightarrow> js_trim name) in
      if trimmedUsername \<noteq> [] then normalizeUsername trimmedUsername else resolveSingleOperatorUsername db)"

section \<open>Status\<close>

record auth_status =
  st_authenticated :: bool
  st_configured :: bool
  st_isAdmin :: bool
  st_knownUsernames :: "string list"
  st_lockedUntil :: "int option"
  st_primaryFactorType :: "primary_factor_type option"
  st_sessionExpiresAt :: "int option"
  st_username :: "string option"

definition getAuthStatus :: "string option \<Rightarrow> int \<Rightarrow> auth_service \<Rightarrow> auth_status \<times> auth_service" where
  "getAuthStatus sessionId now st =
     (let known = listKnownAuthUsernames (sv_db st) in
      case (if truthy sessionId then resolveSession sessionId False now st else (None, st)) of
        (None, st1) \<Rightarrow>
          (\<lparr> st_authenticated = False, st_configured = (length known > 0), st_isAdmin = False, st_knownUsernames = [],
             st_lockedUntil = None, st_primaryFactorType = None, st_sessionExpiresAt = None, st_username = None \<rparr>, st1)
      | (Some session, st1) \<Rightarrow>
          (case readCurrentAuthSettings now (sv_db st1) of (settings, db) \<Rightarrow>
            (\<lparr> st_authenticated = True, st_configured = (length known > 0), st_isAdmin = as_isAdmin session,
               st_knownUsernames = (if as_username session \<noteq> [] then [as_username session] else []),
               st_lockedUntil = (case settings of None \<Rightarrow> None | Some s \<Rightarrow> se_lockedUntil s),
               st_primaryFactorType = map_option se_primaryFactorType settings,
               st_sessionExpiresAt = Some (as_expiresAt session), st_username = Some (as_username session) \<rparr>,
             st1\<lparr> sv_db := db \<rparr>)))"

section \<open>Login\<close>

definition hasTotpEnrollment :: "auth_settings \<Rightarrow> bool" where
  "hasTotpEnrollment settings = (length (js_trim (se_totpSecretCiphertext settings)) > 0)"

text \<open>Before the primary factor is verified; the same for both kinds of login.\<close>

definition login_start :: "string option \<Rightarrow> int \<Rightarrow> auth_db \<Rightarrow> (auth_failure + user_row \<times> auth_settings) \<times> auth_db" where
  "login_start username now db =
     (case resolveAuthInputUsername username db of
        Inl e \<Rightarrow> (Inl e, db)
      | Inr name \<Rightarrow> enforceConfiguredUserByUsername name now db)"

text \<open>
  \<open>verifyPrimaryFactorAndTotp\<close> after its waits. The settings are those read before them; the matched counter is not
  looked for when no secret is enrolled.
\<close>

definition login_finish ::
  "user_row \<Rightarrow> auth_settings \<Rightarrow> bool \<Rightarrow> int option \<Rightarrow> int \<Rightarrow> auth_db \<Rightarrow> (auth_failure + unit) \<times> auth_db" where
  "login_finish user settings primaryFactorValid matchedCounter now db =
     (if \<not> hasTotpEnrollment settings \<and> primaryFactorValid then (Inl (TotpSetupRequired (us_username user)), db)
      else (case (if hasTotpEnrollment settings
            then (case matchedCounter of None \<Rightarrow> (False, db) | Some k \<Rightarrow> tryAdvanceTotpLastUsedCounter k db)
            else (False, db)) of
          (totpValid, db1) \<Rightarrow>
            (if \<not> primaryFactorValid \<or> \<not> totpValid
             then (case throw_failure now db1 of (e, db2) \<Rightarrow> (Inl e, db2))
             else (Inr (), resetAuthFailureState db1))))"

text \<open>\<open>login\<close> and \<open>loginWithRecoveryCode\<close> go on with a session of the lifetime read at the start.\<close>

definition login_session :: "string \<Rightarrow> user_row \<Rightarrow> auth_settings \<Rightarrow> int \<Rightarrow> auth_db \<Rightarrow> (auth_failure + auth_session) \<times> auth_db" where
  "login_session newId user settings now db =
     createSessionRecord newId (us_id user) (se_sessionLifetimeDays settings) now db"

section \<open>Login with a recovery code\<close>

text \<open>All hashes are compared; the first that matches and is unused is the one to consume.\<close>

definition findMatchingUnusedRecoveryCodeHash :: "recovery_code list \<Rightarrow> (string \<Rightarrow> bool) \<Rightarrow> string option" where
  "findMatchingUnusedRecoveryCodeHash records matches =
     foldl (\<lambda>matching r. if matches (rc_codeHash r) \<and> rc_usedAt r = None \<and> matching = None
       then Some (rc_codeHash r) else matching) None records"

definition recovery_finish ::
  "user_row \<Rightarrow> auth_settings \<Rightarrow> bool \<Rightarrow> string option \<Rightarrow> int \<Rightarrow> auth_db \<Rightarrow> (auth_failure + unit) \<times> auth_db" where
  "recovery_finish user settings primaryFactorValid matchingCodeHash now db =
     (if \<not> primaryFactorValid \<or> \<not> truthy matchingCodeHash
      then (case incrementFailedAttempts now db of
          (Inl e, db1) \<Rightarrow> (Inl e, db1)
        | (Inr (Some lockedUntil), db1) \<Rightarrow> (Inl (AuthLocked lockedUntil), db1)
        | (Inr None, db1) \<Rightarrow>
            (if primaryFactorValid \<and> \<not> hasTotpEnrollment settings then (Inl (TotpSetupRequired (us_username user)), db1)
             else (Inl InvalidCredentials, db1)))
      else (case markAuthRecoveryCodeUsed (the matchingCodeHash) now db of
          (False, db1) \<Rightarrow> (Inl InvalidCredentials, db1)
        | (True, db1) \<Rightarrow> (Inr (), resetAuthFailureState db1)))"

section \<open>Setup\<close>

text \<open>The checks before the code is verified, with the user and the settings that exist already.\<close>

definition setup_start ::
  "string option \<Rightarrow> int \<Rightarrow> auth_db \<Rightarrow> (auth_failure + string \<times> (user_row \<times> auth_settings) option) \<times> auth_db" where
  "setup_start username now db =
     (case resolveAuthInputUsername username db of
        Inl e \<Rightarrow> (Inl e, db)
      | Inr lookupUsername \<Rightarrow>
          (case getUserByUsername db lookupUsername of
             None \<Rightarrow>
               (case normalizeWorkspaceHomeUsername lookupUsername of
                  Inl e \<Rightarrow> (Inl e, db)
                | Inr name \<Rightarrow> (if countConfiguredAuthUsers db > 0 then (Inl UsernameTaken, db) else (Inr (name, None), db)))
           | Some user \<Rightarrow>
               (if \<not> us_enabled user then (Inl UserDisabled, db)
                else (case readCurrentAuthSettings now db of
                    (None, db1) \<Rightarrow> (Inl AuthNotConfigured, db1)
                  | (Some settings, db1) \<Rightarrow>
                      (if hasTotpEnrollment settings then (Inl UsernameTaken, db1)
                       else (case se_lockedUntil settings of
                           Some lockedUntil \<Rightarrow> (Inl (AuthLocked lockedUntil), db1)
                         | None \<Rightarrow> (Inr (lookupUsername, Some (user, settings)), db1)))))))"

text \<open>\<open>normalizeSessionLifetimeDays\<close>: the default, or a whole number of days up to thirty.\<close>

definition normalizeSessionLifetimeDays :: "rat option \<Rightarrow> int option" where
  "normalizeSessionLifetimeDays v =
     (case v of
        None \<Rightarrow> Some 7
      | Some d \<Rightarrow> (if d \<noteq> of_int \<lfloor>d\<rfloor> \<or> d < 1 \<or> d > 30 then None else Some \<lfloor>d\<rfloor>))"

text \<open>
  The immediate transaction as one step, although it waits for the encryption inside, with the hash, kind and lifetime to store: what it rechecks, and on any throw the
  database as it was. The new user's identifier is the row's.
\<close>

definition setup_commit ::
  "string \<Rightarrow> user_row option \<Rightarrow> primary_factor_type \<Rightarrow> string \<Rightarrow> string \<Rightarrow> int \<Rightarrow> string list \<Rightarrow> int \<Rightarrow> string \<Rightarrow> int \<Rightarrow>
     auth_db \<Rightarrow> (auth_failure + auth_session) \<times> auth_db" where
  "setup_commit name existingUser factorType factorHash ciphertext lifetimeDays codeHashes newUserId newSessionId now db =
     (let prepared = (case existingUser of
          Some user \<Rightarrow>
            (case readCurrentAuthSettings now db of
               (None, db1) \<Rightarrow> Inl AuthNotConfigured
             | (Some settings, db1) \<Rightarrow>
                 (if hasTotpEnrollment settings then Inl UsernameTaken else Inr (user, resetAuthFailureState db1)))
        | None \<Rightarrow>
            (if countConfiguredAuthUsers db \<noteq> 0 then Inl UsernameTaken
             else if getUserByUsername db name \<noteq> None then Inl UsernameTaken
             else (let user = \<lparr> us_id = newUserId, us_username = js_trim name, us_isAdmin = True, us_enabled = True \<rparr> in
               Inr (user, db\<lparr> db_users := db_users db @ [user] \<rparr>)))) in
      case prepared of
        Inl e \<Rightarrow> (Inl e, db)
      | Inr (user, db1) \<Rightarrow>
          (case replaceAuthRecoveryCodeHashes codeHashes (upsertAuthSettings factorType factorHash ciphertext lifetimeDays db1) of
             None \<Rightarrow> (Inl StatementFailed, db)
           | Some db2 \<Rightarrow>
               (case createSessionRecord newSessionId (us_id user) lifetimeDays now db2 of
                  (Inl e, _) \<Rightarrow> (Inl e, db)
                | (Inr session, db3) \<Rightarrow> (Inr session, db3))))"

end
