(* ===== verification/Auth_Lockout.thy ===== *)
theory Auth_Lockout
  imports Auth_Login
begin

text \<open>
  What the lockout of \<^verbatim>\<open>src/bun/auth/service-core.ts\<close> promises to a guesser who tries one login after another, and
  what several logins in flight at once do to it.
\<close>

text \<open>
  Logins one after another, each with the time of its request, the answer for its primary factor and its second proof: the
  counter its code matches, if any, or the stored hashes its recovery code matches.
\<close>

datatype login_proof = TotpProof "int option" | RecoveryProof "string \<Rightarrow> bool"

text \<open>The part of the two kinds of login after the primary factor was verified.\<close>

definition check_login ::
  "user_row \<Rightarrow> auth_settings \<Rightarrow> bool \<Rightarrow> login_proof \<Rightarrow> int \<Rightarrow> auth_db \<Rightarrow> (auth_failure + unit) \<times> auth_db" where
  "check_login user settings valid given now db =
     (case given of
        TotpProof matched \<Rightarrow> login_finish user settings valid matched now db
      | RecoveryProof matches \<Rightarrow>
          recovery_finish user settings valid
            (if valid then findMatchingUnusedRecoveryCodeHash (listAuthRecoveryCodes db) matches else None) now db)"

text \<open>The one answer that refuses nothing: the primary factor is right and no authenticator is enrolled yet.\<close>

fun asks_for_setup :: "login_proof \<Rightarrow> auth_failure \<Rightarrow> bool" where
  "asks_for_setup (TotpProof m) (TotpSetupRequired name) = True"
| "asks_for_setup given e = False"

text \<open>How many logins have their proofs checked and found wrong, until one succeeds.\<close>

fun wrong_checks :: "string option \<Rightarrow> (int \<times> bool \<times> login_proof) list \<Rightarrow> auth_db \<Rightarrow> nat" where
  "wrong_checks username [] db = 0"
| "wrong_checks username ((now, valid, given) # rest) db =
     (case login_start username now db of
        (Inl e, db1) \<Rightarrow> wrong_checks username rest db1
      | (Inr (user, settings), db1) \<Rightarrow>
          (case check_login user settings valid given now db1 of
             (Inr u, db2) \<Rightarrow> 0
           | (Inl e, db2) \<Rightarrow> (if asks_for_setup given e then 0 else 1) + wrong_checks username rest db2))"

text \<open>How many more checks the stored state allows up to a last time.\<close>

definition check_budget :: "int \<Rightarrow> auth_db \<Rightarrow> int" where
  "check_budget last_time db =
     (case db_settings db of
        None \<Rightarrow> 0
      | Some s \<Rightarrow>
          (case se_lockedUntil s of
             Some lockedUntil \<Rightarrow> if lockedUntil > last_time then 0 else 3
           | None \<Rightarrow> max 1 (3 - se_failedAttempts s)))"

lemma budget_nonneg: "0 \<le> check_budget h db"
  by (simp add: check_budget_def le_max_iff_disj split: option.split)

lemma budget_advance: "check_budget h (snd (tryAdvanceTotpLastUsedCounter k db)) = check_budget h db"
  by (simp add: check_budget_def tryAdvanceTotpLastUsedCounter_def split: option.split)

lemma read_budget:
  assumes "now \<le> h" and "readCurrentAuthSettings now db = (settings, db1)"
  shows "check_budget h db1 \<le> check_budget h db \<and> db_settings db1 = settings"
  using assms
  by (auto simp: readCurrentAuthSettings_def getAuthSettings_def check_budget_def resetAuthFailureState_def
      setAuthFailureState_def split: option.splits if_splits)

lemma start_budget:
  assumes "now \<le> h" and "login_start username now db = (r, db1)"
  shows "check_budget h db1 \<le> check_budget h db \<and>
    (case r of Inl e \<Rightarrow> True
     | Inr (user, settings) \<Rightarrow> db_settings db1 = Some settings \<and> se_lockedUntil settings = None)"
proof -
  have "check_budget h db2 \<le> check_budget h db \<and> (f \<noteq> None \<longrightarrow> db_settings db2 = Some (snd (the f)))"
    if "findConfiguredAuthUserByUsername name now db = (f, db2)" for name f db2
    using that read_budget [OF assms(1), of db]
    by (auto simp: findConfiguredAuthUserByUsername_def split: option.splits prod.splits if_splits)
  then show ?thesis using assms(2)
    by (fastforce simp: login_start_def enforceConfiguredUserByUsername_def split: sum.splits prod.splits option.splits if_splits)
qed

lemma failure_budget:
  assumes "now \<le> h" and "h < now + LOGIN_LOCKOUT_WINDOW_MS"
    and "db_settings db = Some s" and "se_lockedUntil s = None"
  shows "check_budget h (snd (throw_failure now db)) + 1 \<le> check_budget h db"
  using assms
  by (auto simp: throw_failure_def incrementFailedAttempts_def readCurrentAuthSettings_def getAuthSettings_def Let_def
      check_budget_def setAuthFailureState_def LOGIN_LOCKOUT_AFTER_FAILURES_def)

lemma finish_budget:
  assumes "now \<le> h" and "h < now + LOGIN_LOCKOUT_WINDOW_MS"
    and "db_settings db = Some s" and "se_lockedUntil s = None"
    and "login_finish user settings valid matched now db = (Inl e, db')"
  shows "check_budget h db' + (if asks_for_setup (TotpProof matched) e then 0 else 1) \<le> check_budget h db"
proof -
  have unlocked: "\<exists>s'. db_settings (snd (tryAdvanceTotpLastUsedCounter k db)) = Some s' \<and> se_lockedUntil s' = None" for k
    using assms(3,4) by (simp add: tryAdvanceTotpLastUsedCounter_def)
  have fail: "check_budget h (snd (throw_failure now (snd (tryAdvanceTotpLastUsedCounter k db)))) + 1 \<le> check_budget h db"
    "check_budget h (snd (throw_failure now db)) + 1 \<le> check_budget h db" for k
    using failure_budget [OF assms(1,2)] budget_advance unlocked [of k] assms(3,4) by metis+
  show ?thesis
  proof (cases "\<not> hasTotpEnrollment settings \<and> valid")
    case True
    then show ?thesis using assms(5) by (auto simp: login_finish_def)
  next
    case False
    define db1 where "db1 = (case matched of Some k \<Rightarrow> if hasTotpEnrollment settings then snd (tryAdvanceTotpLastUsedCounter k db) else db
      | None \<Rightarrow> db)"
    have "db' = snd (throw_failure now db1)"
      using assms(5) False
      by (auto simp: login_finish_def db1_def split: prod.splits option.splits if_split_asm)
    moreover have "check_budget h (snd (throw_failure now db1)) + 1 \<le> check_budget h db"
      using fail by (auto simp: db1_def split: option.split)
    ultimately show ?thesis by simp
  qed
qed

lemma found_code_unused:
  assumes "findMatchingUnusedRecoveryCodeHash rs matches = Some h"
  shows "\<exists>r \<in> set rs. rc_codeHash r = h \<and> rc_usedAt r = None"
proof -
  have "foldl (\<lambda>matching r. if matches (rc_codeHash r) \<and> rc_usedAt r = None \<and> matching = None
      then Some (rc_codeHash r) else matching) acc xs = Some h \<Longrightarrow>
    acc = Some h \<or> (\<exists>r \<in> set xs. rc_codeHash r = h \<and> rc_usedAt r = None)" for acc xs
    by (induction xs arbitrary: acc) (fastforce split: if_splits)+
  then show ?thesis using assms by (auto simp: findMatchingUnusedRecoveryCodeHash_def)
qed

lemma recovery_budget:
  assumes "now \<le> h" and "h < now + LOGIN_LOCKOUT_WINDOW_MS"
    and "db_settings db = Some s" and "se_lockedUntil s = None"
    and "recovery_finish user settings valid
      (if valid then findMatchingUnusedRecoveryCodeHash (listAuthRecoveryCodes db) matches else None) now db = (Inl e, db')"
  shows "check_budget h db' + 1 \<le> check_budget h db"
proof -
  let ?found = "if valid then findMatchingUnusedRecoveryCodeHash (listAuthRecoveryCodes db) matches else None"
  have "fst (markAuthRecoveryCodeUsed (the ?found) now db)" if "truthy ?found"
  proof -
    from that obtain code where "?found = Some code" by (auto simp: truthy_iff)
    then show ?thesis
      using found_code_unused [of "listAuthRecoveryCodes db" matches code]
      by (auto simp: markAuthRecoveryCodeUsed_def listAuthRecoveryCodes_def list_ex_iff split: if_splits)
  qed
  then have "\<not> (valid \<and> truthy ?found)"
    using assms(5) by (auto simp: recovery_finish_def split: prod.splits bool.splits)
  then have "db' = snd (incrementFailedAttempts now db)"
    using assms(5) unfolding recovery_finish_def by (simp split: prod.splits sum.splits option.splits if_split_asm)
  then have "db' = snd (throw_failure now db)"
    by (simp add: throw_failure_def split: prod.split sum.split option.split)
  then show ?thesis using failure_budget [OF assms(1-4)] by simp
qed

lemma check_budget_spent:
  assumes "now \<le> h" and "h < now + LOGIN_LOCKOUT_WINDOW_MS"
    and "db_settings db = Some s" and "se_lockedUntil s = None"
    and "check_login user settings valid given now db = (Inl e, db')"
  shows "check_budget h db' + (if asks_for_setup given e then 0 else 1) \<le> check_budget h db"
proof (cases given)
  case (TotpProof m)
  then show ?thesis using finish_budget [OF assms(1-4), of user settings valid m e db'] assms(5) by (simp add: check_login_def)
next
  case (RecoveryProof matches)
  then show ?thesis using recovery_budget [OF assms(1-4), of user settings valid matches e db'] assms(5)
    by (simp add: check_login_def)
qed

lemma wrong_le_budget:
  assumes "\<forall>(now, attempt) \<in> set ts. now \<le> h \<and> h < now + LOGIN_LOCKOUT_WINDOW_MS"
  shows "int (wrong_checks username ts db) \<le> check_budget h db"
  using assms
proof (induction ts arbitrary: db)
  case Nil
  then show ?case by (simp add: budget_nonneg)
next
  case (Cons a ts)
  obtain now valid given where a: "a = (now, valid, given)" by (cases a)
  obtain r db1 where start: "login_start username now db = (r, db1)" by (cases "login_start username now db")
  have time: "now \<le> h" "h < now + LOGIN_LOCKOUT_WINDOW_MS" using Cons.prems a by auto
  have IH: "int (wrong_checks username ts db') \<le> check_budget h db'" for db' using Cons by simp
  show ?case
  proof (cases r)
    case (Inl err)
    then show ?thesis using IH [of db1] start_budget [OF time(1) start] by (simp add: a start)
  next
    case (Inr us)
    obtain user settings where us: "us = (user, settings)" by (cases us)
    then have unlocked: "db_settings db1 = Some settings" "se_lockedUntil settings = None"
      using start_budget [OF time(1) start] Inr by simp_all
    obtain c db2 where check: "check_login user settings valid given now db1 = (c, db2)"
      by (cases "check_login user settings valid given now db1")
    show ?thesis
    proof (cases c)
      case c: (Inl e)
      show ?thesis
        using check_budget_spent [OF time unlocked, of user settings valid given e db2] IH [of db2]
          start_budget [OF time(1) start] check c
        by (simp add: a start Inr us split: if_split_asm)
    qed (use check in \<open>simp add: a start Inr us budget_nonneg\<close>)
  qed
qed

section \<open>Properties\<close>

text \<open>
  C6. Guessing one login after another, with a TOTP or a recovery code and with a right or a wrong primary factor: of the
  attempts within any ten minutes, however many, at most three are checked and found wrong before one succeeds, whatever is
  stored at first. The others are refused before anything is checked. A right primary factor without an
  enrolled authenticator, which is answered with the request to enrol, is not a wrong attempt.
\<close>

theorem login_guess_bound:
  assumes "list_all (\<lambda>(now, attempt). start \<le> now \<and> now < start + 600000) attempts"
    and "list_all (\<lambda>s. se_failedAttempts s \<ge> 0) (case db_settings db of None \<Rightarrow> [] | Some s \<Rightarrow> [s])"
  shows "wrong_checks username attempts db \<le> 3"
proof -
  have "\<forall>(now, attempt) \<in> set attempts. now \<le> start + 599999 \<and> start + 599999 < now + LOGIN_LOCKOUT_WINDOW_MS"
    using assms(1) by (auto simp: list_all_iff LOGIN_LOCKOUT_WINDOW_MS_def)
  then have "int (wrong_checks username attempts db) \<le> check_budget (start + 599999) db"
    by (rule wrong_le_budget)
  moreover have "check_budget (start + 599999) db \<le> 3"
    using assms(2) by (auto simp: check_budget_def split: option.split)
  ultimately show ?thesis by linarith
qed

definition demo_settings :: auth_settings where
  "demo_settings = \<lparr> se_primaryFactorType = Pin, se_primaryFactorHash = ''h'', se_totpSecretCiphertext = ''c'',
     se_totpLastUsedCounter = None, se_sessionLifetimeDays = 7, se_failedAttempts = 0, se_lockedUntil = None \<rparr>"

definition demo_db :: auth_db where
  "demo_db = \<lparr> db_users = [\<lparr> us_id = 1, us_username = ''ada'', us_isAdmin = True, us_enabled = True \<rparr>],
     db_settings = Some demo_settings, db_recoveryCodes = [], db_sessions = [], db_tickets = [], db_foreignKeys = True \<rparr>"

text \<open>A right PIN with a wrong code, a wrong PIN with a right code, a wrong recovery code; the other two are locked out.\<close>

definition demo_attempts :: "(int \<times> bool \<times> login_proof) list" where
  "demo_attempts = [(0, True, TotpProof None), (1, False, TotpProof (Some 4)), (2, True, RecoveryProof (\<lambda>h. False)),
     (3, True, TotpProof (Some 9)), (4, False, TotpProof None)]"

lemma login_guess_bound_witness:
  "wrong_checks (Some ''ada'') demo_attempts demo_db \<le> 3 \<and> wrong_checks (Some ''ada'') demo_attempts demo_db = 3"
proof
  show "wrong_checks (Some ''ada'') demo_attempts demo_db \<le> 3"
    by (rule login_guess_bound [of 0]) (simp_all add: demo_attempts_def demo_db_def demo_settings_def)
  show "wrong_checks (Some ''ada'') demo_attempts demo_db = 3" by code_simp
qed

text \<open>
  C7. The lock does not survive a login that was already past its check: after three failures the settings are locked for
  ten minutes, and a fourth failure at the same time stores one attempt and no lock.
\<close>

theorem failure_in_flight_unlocks:
  assumes "db_settings db = Some s" and "se_failedAttempts s = 0" and "se_lockedUntil s = None"
  shows "let fail = (\<lambda>d. snd (throw_failure now d)) in
    map_option se_lockedUntil (db_settings (fail (fail (fail db)))) = Some (Some (now + 600000)) \<and>
    map_option (\<lambda>s. (se_failedAttempts s, se_lockedUntil s)) (db_settings (fail (fail (fail (fail db))))) = Some (1, None)"
  using assms
  by (simp add: Let_def throw_failure_def incrementFailedAttempts_def readCurrentAuthSettings_def getAuthSettings_def
      setAuthFailureState_def LOGIN_LOCKOUT_AFTER_FAILURES_def LOGIN_LOCKOUT_WINDOW_MS_def)

lemma failure_in_flight_unlocks_witness:
  "let fail = (\<lambda>d. snd (throw_failure 5 d)) in
    map_option se_lockedUntil (db_settings (fail (fail (fail demo_db)))) = Some (Some 600005) \<and>
    map_option (\<lambda>s. (se_failedAttempts s, se_lockedUntil s)) (db_settings (fail (fail (fail (fail demo_db))))) = Some (1, None)"
  using failure_in_flight_unlocks [of demo_db demo_settings 5] by (simp add: demo_db_def demo_settings_def)

end
