(* ===== verification/Auth_Runs.thy ===== *)
theory Auth_Runs
  imports Auth_Lockout
begin

text \<open>
  The authentication service as a transition system: every operation of the session and login flows, and every part of
  one that waits, is a step, at any time of the clock, in any order and for any caller. A log, newest event first,
  records what was granted. An identifier of a new session is one that was not used before: it is random, with 256 bits; so
  are the salts of the hashes of new recovery codes.
\<close>

datatype auth_event =
    SessionCreated string
  | SessionRevoked string
  | TicketIssued string string int
  | TicketConsumed string string int
  | TotpAccepted int
  | CodeStored string
  | CodeUsed string

type_synonym auth_run = "auth_service \<times> auth_event list"

definition revoked_all :: "auth_service \<Rightarrow> auth_service" where
  "revoked_all st = clearAuthSessionTouchCache (st\<lparr> sv_db := snd (deleteAllAuthSessions (sv_db st)) \<rparr>)"

inductive auth_step :: "auth_run \<Rightarrow> auth_run \<Rightarrow> bool" where
  resolved: "auth_step (st, es) (snd (resolveSession sid touch now st), es)"
| status: "auth_step (st, es) (snd (getAuthStatus sid now st), es)"
| logged_out: "auth_step (st, es) (auth_logout sid st,
    if jm_has (db_sessions (sv_db st)) (the sid) \<and> truthy sid then SessionRevoked (the sid) # es else es)"
| all_revoked: "auth_step (st, es) (revoked_all st, map (\<lambda>(k, row). SessionRevoked k) (db_sessions (sv_db st)) @ es)"
| issued: "issueWebSocketTicket tid sid now st = (Inr r, st') \<Longrightarrow> auth_step (st, es) (st', TicketIssued tid sid now # es)"
| not_issued: "issueWebSocketTicket tid sid now st = (Inl e, st') \<Longrightarrow> auth_step (st, es) (st', es)"
| consumed: "validateAndConsumeWebSocketTicket tid sid now st = (Inr u, st') \<Longrightarrow>
    auth_step (st, es) (st', TicketConsumed tid sid now # es)"
| not_consumed: "validateAndConsumeWebSocketTicket tid sid now st = (Inl e, st') \<Longrightarrow> auth_step (st, es) (st', es)"
| step_up_started: "auth_step (st, es) (snd (stepUp_start sid now st), es)"
| step_up_refused: "auth_step (st, es) (snd (stepUp_wrong_factor now st), es)"
| step_up_done: "stepUp_finish session matched now st = (Inr r, st') \<Longrightarrow> auth_step (st, es) (st', TotpAccepted (the matched) # es)"
| step_up_failed: "stepUp_finish session matched now st = (Inl e, st') \<Longrightarrow> auth_step (st, es) (st', es)"
| login_started: "auth_step (st, es) (st\<lparr> sv_db := snd (login_start username now (sv_db st)) \<rparr>, es)"
| login_done: "login_finish user settings valid matched now (sv_db st) = (Inr u, db) \<Longrightarrow>
    auth_step (st, es) (st\<lparr> sv_db := db \<rparr>, TotpAccepted (the matched) # es)"
| login_failed: "login_finish user settings valid matched now (sv_db st) = (Inl e, db) \<Longrightarrow>
    auth_step (st, es) (st\<lparr> sv_db := db \<rparr>, es)"
| recovery_done: "recovery_finish user settings valid matching now (sv_db st) = (Inr u, db) \<Longrightarrow>
    auth_step (st, es) (st\<lparr> sv_db := db \<rparr>, CodeUsed (the matching) # es)"
| recovery_failed: "recovery_finish user settings valid matching now (sv_db st) = (Inl e, db) \<Longrightarrow>
    auth_step (st, es) (st\<lparr> sv_db := db \<rparr>, es)"
| session_made: "login_session newId user settings now (sv_db st) = (Inr s, db) \<Longrightarrow> SessionCreated newId \<notin> set es \<Longrightarrow>
    auth_step (st, es) (st\<lparr> sv_db := db \<rparr>, SessionCreated newId # es)"
| setup_started: "auth_step (st, es) (st\<lparr> sv_db := snd (setup_start username now (sv_db st)) \<rparr>, es)"
| setup_refused: "auth_step (st, es) (st\<lparr> sv_db := snd (throw_failure now (sv_db st)) \<rparr>, es)"
| set_up: "setup_commit name existing kind factorHash cipher days hashes newUser newId now (sv_db st) = (Inr s, db) \<Longrightarrow>
    SessionCreated newId \<notin> set es \<Longrightarrow> CodeStored ` set hashes \<inter> set es = {} \<Longrightarrow>
    auth_step (st, es) (st\<lparr> sv_db := db \<rparr>, SessionCreated newId # map CodeStored hashes @ es)"

inductive auth_reachable :: "auth_run \<Rightarrow> bool" where
  start: "db_sessions db = [] \<Longrightarrow> db_tickets db = [] \<Longrightarrow> db_recoveryCodes db = [] \<Longrightarrow>
    auth_reachable (\<lparr> sv_db = db, sv_touched = [], sv_resolved = [], sv_lastSweepAt = 0 \<rparr>, [])"
| step: "auth_reachable s \<Longrightarrow> auth_step s s' \<Longrightarrow> auth_reachable s'"

section \<open>What an operation does to the database\<close>

text \<open>
  \<open>less\<close>: sessions and tickets may go and a session's step-up and last use may change, but nothing is added, neither a
  code nor a counter is set back, and no code is used up.
\<close>

definition counter_of :: "auth_db \<Rightarrow> int" where
  "counter_of db = (case db_settings db of None \<Rightarrow> - 1 | Some s \<Rightarrow> nullish (se_totpLastUsedCounter s) (- 1))"

definition unused_codes :: "auth_db \<Rightarrow> string set" where
  "unused_codes db = {rc_codeHash r | r. r \<in> set (db_recoveryCodes db) \<and> rc_usedAt r = None}"

definition less_db :: "auth_db \<Rightarrow> auth_db \<Rightarrow> bool" where
  "less_db db db' =
     (set (db_tickets db') \<subseteq> set (db_tickets db) \<and> set (map fst (db_sessions db')) \<subseteq> set (map fst (db_sessions db)) \<and>
      db_recoveryCodes db' = db_recoveryCodes db \<and> counter_of db \<le> counter_of db')"

lemma less_refl [simp]: "less_db db db"
  by (simp add: less_db_def)

lemma less_trans [trans]: "less_db a b \<Longrightarrow> less_db b c \<Longrightarrow> less_db a c"
  unfolding less_db_def by (metis order.trans)

lemma shrinks_less: "shrinks db db' \<Longrightarrow> less_db db db'"
proof -
  assume a: "shrinks db db'"
  have "k \<in> set (map fst (db_sessions db))" if "k \<in> set (map fst (db_sessions db'))" for k
  proof -
    have "jm_get (db_sessions db') k \<noteq> None" using that by (simp add: map_of_eq_None_iff)
    then obtain row' where "jm_get (db_sessions db') k = Some row'" by blast
    then have "jm_get (db_sessions db) k \<noteq> None" using a unfolding shrinks_def by blast
    then show ?thesis by (simp add: map_of_eq_None_iff)
  qed
  then show ?thesis using a by (auto simp: less_db_def shrinks_def counter_of_def)
qed

lemma less_failure: "less_db db (setAuthFailureState n l db)" "less_db db (resetAuthFailureState db)"
  by (simp_all add: less_db_def setAuthFailureState_def resetAuthFailureState_def counter_of_def option.case_eq_if
      option.map_sel)

lemma failure_fields:
  "db_sessions (setAuthFailureState n l db) = db_sessions db" "db_sessions (resetAuthFailureState db) = db_sessions db"
  "db_sessions (snd (tryAdvanceTotpLastUsedCounter k db)) = db_sessions db"
  "db_sessions (snd (markAuthRecoveryCodeUsed h now db)) = db_sessions db"
  "db_tickets (snd (tryAdvanceTotpLastUsedCounter k db)) = db_tickets db"
  "db_tickets (snd (markAuthRecoveryCodeUsed h now db)) = db_tickets db"
  "db_recoveryCodes (snd (tryAdvanceTotpLastUsedCounter k db)) = db_recoveryCodes db"
  "db_tickets (resetAuthFailureState db) = db_tickets db"
  "db_recoveryCodes (resetAuthFailureState db) = db_recoveryCodes db"
  "counter_of (resetAuthFailureState db) = counter_of db"
  "counter_of (snd (markAuthRecoveryCodeUsed h now db)) = counter_of db"
  by (simp_all add: setAuthFailureState_def resetAuthFailureState_def tryAdvanceTotpLastUsedCounter_def counter_of_def
      markAuthRecoveryCodeUsed_def split: option.split)

lemma read_settings_kept:
  assumes "db_ok db"
  shows "db_ok (snd (readCurrentAuthSettings now db)) \<and> less_db db (snd (readCurrentAuthSettings now db)) \<and>
    db_sessions (snd (readCurrentAuthSettings now db)) = db_sessions db"
  using assms by (simp add: readCurrentAuthSettings_def db_ok_statements less_failure failure_fields split: option.split)

lemma increment_kept:
  assumes "db_ok db"
  shows "db_ok (snd (incrementFailedAttempts now db)) \<and> less_db db (snd (incrementFailedAttempts now db)) \<and>
    db_sessions (snd (incrementFailedAttempts now db)) = db_sessions db"
proof -
  obtain settings db1 where read: "readCurrentAuthSettings now db = (settings, db1)" by (cases "readCurrentAuthSettings now db")
  then have "db_ok db1" "less_db db db1" "db_sessions db1 = db_sessions db"
    using read_settings_kept [OF assms, of now] by simp_all
  then show ?thesis using assms less_trans less_failure(1)
    by (auto simp: incrementFailedAttempts_def read Let_def db_ok_statements failure_fields split: option.split)
qed

lemma throw_kept:
  assumes "db_ok db"
  shows "db_ok (snd (throw_failure now db)) \<and> less_db db (snd (throw_failure now db)) \<and>
    db_sessions (snd (throw_failure now db)) = db_sessions db"
  using increment_kept [OF assms, of now]
  by (auto simp: throw_failure_def split: prod.split sum.split option.split)

lemma enforce_kept:
  assumes "db_ok db"
  shows "db_ok (snd (enforceConfiguredUserById n now db)) \<and> less_db db (snd (enforceConfiguredUserById n now db)) \<and>
      db_sessions (snd (enforceConfiguredUserById n now db)) = db_sessions db"
    and "db_ok (snd (login_start username now db)) \<and> less_db db (snd (login_start username now db)) \<and>
      db_sessions (snd (login_start username now db)) = db_sessions db"
  using read_settings_kept [OF assms, of now] assms
  by (auto simp: enforceConfiguredUserById_def login_start_def enforceConfiguredUserByUsername_def
      findConfiguredAuthUserByUsername_def split: prod.split sum.split option.split)

lemma less_advance: "less_db db (snd (tryAdvanceTotpLastUsedCounter k db))"
  by (simp add: less_db_def tryAdvanceTotpLastUsedCounter_def counter_of_def nullish_def split: option.split)

lemma less_tickets: "less_db db (deleteExpiredAuthWebSocketTickets now db)"
  by (auto simp: less_db_def deleteExpiredAuthWebSocketTickets_def counter_of_def)

lemma less_revoke: "less_db db (deleteAuthSession sid db)" "less_db db (snd (deleteAllAuthSessions db))"
  by (auto simp: less_db_def deleteAuthSession_def deleteAllAuthSessions_def counter_of_def jm_delete_filter)

lemma less_expired: "less_db db (deleteExpiredAuthSessions now db)"
  by (auto simp: less_db_def deleteExpiredAuthSessions_def Let_def counter_of_def)

section \<open>What an operation does to the service\<close>

definition session_keys :: "auth_service \<Rightarrow> string set" where
  "session_keys st = set (map fst (db_sessions (sv_db st)))"

definition touched_keys :: "auth_service \<Rightarrow> string set" where
  "touched_keys st = set (map fst (sv_touched st))"

definition keeps :: "auth_service \<Rightarrow> auth_service \<Rightarrow> bool" where
  "keeps st st' =
     (svc_ok st' \<and> less_db (sv_db st) (sv_db st') \<and> touched_keys st' \<subseteq> touched_keys st \<union> session_keys st)"

lemma keeps_refl: "svc_ok st \<Longrightarrow> keeps st st"
  by (simp add: keeps_def)

lemma keeps_trans:
  assumes "keeps a b" and "keeps b c" shows "keeps a c"
proof -
  have "session_keys b \<subseteq> session_keys a" using assms(1) by (simp add: keeps_def less_db_def session_keys_def)
  then show ?thesis using assms less_trans unfolding keeps_def by blast
qed

text \<open>A step that leaves the sessions and the touched times alone.\<close>

lemma keeps_db:
  assumes "svc_ok st" and "db_ok db" and "less_db (sv_db st) db" and "db_sessions db = db_sessions (sv_db st)"
  shows "keeps st (st\<lparr> sv_db := db \<rparr>)"
  using assms by (simp add: keeps_def svc_ok_def touched_ok_def touched_keys_def)

lemma touched_keys_simps:
  "touched_keys (recordResolvedAuthSession s now st) = touched_keys st"
  "touched_keys (st\<lparr> sv_db := db \<rparr>) = touched_keys st"
  "touched_keys (forget_session sid st) = touched_keys st - {sid}"
  "touched_keys (drop_cached sid st) = touched_keys st - {sid}"
  by (auto simp: touched_keys_def forget_session_def drop_cached_def jm_delete_filter)

lemma touched_keys_read:
  "jm_wf (sv_touched st) \<Longrightarrow> touched_keys (snd (readAuthSessionLastTouchedAt sid st)) = touched_keys st"
  using set_readLru [of "sv_touched st" sid]
  by (simp add: touched_keys_def readAuthSessionLastTouchedAt_def case_prod_unfold)

lemma touched_keys_touch:
  assumes "jm_wf (sv_touched st)"
  shows "touched_keys (pruneAuthSessionTouchCache now (recordAuthSessionTouchedAt sid now st)) \<subseteq> insert sid (touched_keys st)"
proof -
  have "set (pruneLruMapToMaxEntries (filter P (writeLruMapValue (sv_touched st) sid v)) n) \<subseteq>
      insert (sid, v) (set (sv_touched st))" for P v n
    using set_pruneLru [OF jm_wf_filter [OF wf_writeLru [OF assms]], of P sid v n] by (auto simp: set_writeLru)
  then show ?thesis
    by (simp add: touched_keys_def pruneAuthSessionTouchCache_def recordAuthSessionTouchedAt_def Let_def)
      (metis (no_types, lifting) fst_conv image_insert image_mono)
qed

lemma touched_resolve_row:
  assumes "svc_ok st" and "as_id s = sid"
  shows "touched_keys (snd (resolve_row s touch now st)) \<subseteq> insert sid (touched_keys st)"
proof -
  let ?st0 = "recordResolvedAuthSession s now st"
  obtain touched st1 where read: "readAuthSessionLastTouchedAt sid ?st0 = (touched, st1)"
    by (cases "readAuthSessionLastTouchedAt sid ?st0")
  have ok: "svc_ok ?st0" using assms(1) by (simp add: svc_ok_def)
  then have one: "touched_keys st1 = touched_keys st" and wf: "jm_wf (sv_touched st1)"
    using touched_keys_read [of ?st0 sid] read_touched_ok [OF ok, of sid] read
    by (simp_all add: touched_keys_simps svc_ok_def)
  have touch: "touched_keys (pruneAuthSessionTouchCache now (recordAuthSessionTouchedAt sid now (st1\<lparr> sv_db := db \<rparr>))) \<subseteq>
      insert sid (touched_keys st)" for db
    using touched_keys_touch [of "st1\<lparr> sv_db := db \<rparr>" now sid] wf one by (simp add: touched_keys_simps)
  show ?thesis
    unfolding resolve_row_def Let_def assms(2) read
    by (auto simp: touched_keys_simps one split: prod.split bool.split dest: touch [THEN subsetD])
qed

lemma sweep_keys:
  assumes "svc_ok st" shows "touched_keys (maybeDeleteExpiredAuthSessions now st) \<subseteq> touched_keys st"
proof -
  have wf: "jm_wf (filter P (sv_touched st))" for P using assms by (simp add: svc_ok_def jm_wf_filter)
  have "set (pruneLruMapToMaxEntries (filter P (sv_touched st)) n) \<subseteq> set (sv_touched st)" for P n
    using set_pruneLru [OF wf, of P n] by auto
  then show ?thesis
    by (simp add: maybeDeleteExpiredAuthSessions_def pruneAuthSessionTouchCache_def Let_def touched_keys_def image_mono)
qed

lemma keeps_resolve:
  assumes "svc_ok st" shows "keeps st (snd (resolveSession sid touch now st))"
proof (cases "truthy sid")
  case False
  then show ?thesis using keeps_refl [OF assms] by (simp add: resolveSession_def)
next
  case True
  then obtain k where k: "sid = Some k" "k \<noteq> []" by (auto simp: truthy_iff)
  let ?swept = "maybeDeleteExpiredAuthSessions now st"
  obtain cached st1 where read: "readCachedResolvedAuthSession k now ?swept = (cached, st1)"
    by (cases "readCachedResolvedAuthSession k now ?swept")
  have st1: "sv_db st1 = sv_db ?swept" "sv_touched st1 = sv_touched ?swept"
    using read_cached_other [of k now ?swept] read by simp_all
  have ok1: "svc_ok st1" and keys1: "touched_keys st1 \<subseteq> touched_keys st"
    using sweep_ok [OF assms, of now] sweep_keys [OF assms, of now] st1 by (simp_all add: svc_ok_def touched_keys_def)
  have sessions1: "session_keys st1 \<subseteq> session_keys st"
    using sweep_db [of now st] st1 less_expired [of "sv_db st" now]
    by (elim disjE) (simp_all add: session_keys_def less_db_def)
  have "touched_keys (snd (resolveSession sid touch now st)) \<subseteq> touched_keys st \<union> session_keys st"
  proof (cases "getAuthSession (sv_db st1) k")
    case None
    then show ?thesis using keys1 by (auto simp: resolveSession_def k truthy_iff Let_def read touched_keys_simps)
  next
    case (Some s)
    obtain row where "jm_get (db_sessions (sv_db st1)) k = Some row" "as_id s = k" by (rule session_row [OF Some])
    then have "k \<in> session_keys st1" by (metis session_keys_def fst_conv image_eqI map_of_SomeD set_map)
    moreover have "resolveSession sid touch now st = resolve_row s touch now st1"
      using Some k by (simp add: resolveSession_def truthy_iff Let_def read)
    ultimately show ?thesis using touched_resolve_row [OF ok1 \<open>as_id s = k\<close>] keys1 sessions1 by fastforce
  qed
  then show ?thesis using resolve_exact [OF assms k(2), of touch now] k(1) shrinks_less by (simp add: keeps_def)
qed

lemma keeps_resolved:
  "svc_ok st \<Longrightarrow> resolveSession sid touch now st = (r, st1) \<Longrightarrow> keeps st st1"
  using keeps_resolve [of st sid touch now] by simp

lemma resolve_some:
  assumes "svc_ok st" and "resolveSession (Some sid) touch now st = (Some s, st1)"
  shows "as_id s = sid \<and> live_session (sv_db st) sid now \<noteq> None"
proof -
  have "sid \<noteq> []" using assms(2) by (auto simp: resolveSession_def truthy_def)
  then have r: "Some s = map_option (\<lambda>s. if touch \<and> now - as_lastUsedAt s \<ge> AUTH_SESSION_TOUCH_INTERVAL_MS
      then s\<lparr> as_lastUsedAt := now \<rparr> else s) (live_session (sv_db st) sid now)"
    using resolve_exact [OF assms(1), of sid touch now] assms(2) by simp
  then obtain s0 where s0: "live_session (sv_db st) sid now = Some s0" by (cases "live_session (sv_db st) sid now") auto
  then have "getAuthSession (sv_db st) sid = Some s0" by (auto simp: live_session_def split: option.splits if_split_asm)
  then obtain row where "as_id s0 = sid" by (rule session_row)
  then show ?thesis using r s0 by (auto split: if_split_asm)
qed

lemma keeps_status:
  assumes "svc_ok st" shows "keeps st (snd (getAuthStatus sid now st))"
proof (cases "if truthy sid then resolveSession sid False now st else (None, st)")
  case (Pair r st1)
  have one: "keeps st st1" using Pair keeps_resolved [OF assms] keeps_refl [OF assms] by (auto split: if_split_asm)
  then have ok: "svc_ok st1" by (simp add: keeps_def)
  then have "keeps st1 (st1\<lparr> sv_db := snd (readCurrentAuthSettings now (sv_db st1)) \<rparr>)"
    using read_settings_kept [of "sv_db st1" now] by (intro keeps_db) (simp_all add: svc_ok_def)
  then show ?thesis using one keeps_trans [OF one] Pair
    by (auto simp: getAuthStatus_def Let_def case_prod_unfold split: option.split)
qed

lemma keeps_logout: "svc_ok st \<Longrightarrow> keeps st (auth_logout sid st)"
  using forget_ok [of st "the sid"] less_revoke(1) [of "sv_db st" "the sid"]
  by (auto simp: auth_logout_def keeps_refl) (simp add: keeps_def forget_session_def touched_keys_def jm_delete_filter, auto)

lemma keeps_revoked: "svc_ok st \<Longrightarrow> keeps st (revoked_all st)"
  using less_revoke(2) [of "sv_db st"]
  by (simp add: keeps_def revoked_all_def clearAuthSessionTouchCache_def svc_ok_def db_ok_statements jm_wf_def
      touched_ok_def touched_keys_def)

lemma keeps_step_up_start:
  assumes "svc_ok st" shows "keeps st (snd (stepUp_start sid now st))"
proof -
  obtain r st1 where res: "resolveSession (Some sid) True now st = (r, st1)" by (cases "resolveSession (Some sid) True now st")
  then have one: "keeps st st1" by (rule keeps_resolved [OF assms])
  then have ok: "svc_ok st1" by (simp add: keeps_def)
  have "keeps st1 (st1\<lparr> sv_db := snd (enforceConfiguredUserById n now (sv_db st1)) \<rparr>)" for n
    using enforce_kept(1) [of "sv_db st1" n now] ok by (intro keeps_db) (simp_all add: svc_ok_def)
  then have two: "keeps st (st1\<lparr> sv_db := snd (enforceConfiguredUserById n now (sv_db st1)) \<rparr>)" for n
    using keeps_trans [OF one] by blast
  show ?thesis
  proof (cases r)
    case None
    then show ?thesis using one by (simp add: stepUp_start_def res)
  next
    case (Some session)
    obtain r' db where enforce: "enforceConfiguredUserById (as_userId session) now (sv_db st1) = (r', db)"
      by (cases "enforceConfiguredUserById (as_userId session) now (sv_db st1)")
    then show ?thesis using two [of "as_userId session"] Some
      by (cases r') (auto simp: stepUp_start_def res split: prod.split)
  qed
qed

lemma keeps_wrong_factor:
  assumes "svc_ok st" shows "keeps st (snd (stepUp_wrong_factor now st))"
proof -
  obtain e db where throw: "throw_failure now (sv_db st) = (e, db)" by (cases "throw_failure now (sv_db st)")
  then show ?thesis using throw_kept [of "sv_db st" now] assms
    by (simp add: stepUp_wrong_factor_def keeps_db svc_ok_def)
qed

lemma keeps_login_start: "svc_ok st \<Longrightarrow> keeps st (st\<lparr> sv_db := snd (login_start username now (sv_db st)) \<rparr>)"
  using enforce_kept(2) [of "sv_db st" username now] by (intro keeps_db) (simp_all add: svc_ok_def)

lemma keeps_setup:
  assumes "svc_ok st"
  shows "keeps st (st\<lparr> sv_db := snd (setup_start username now (sv_db st)) \<rparr>)"
    and "keeps st (st\<lparr> sv_db := snd (throw_failure now (sv_db st)) \<rparr>)"
proof -
  have "db_ok (sv_db st)" using assms by (simp add: svc_ok_def)
  then have "db_ok (snd (setup_start username now (sv_db st))) \<and> less_db (sv_db st) (snd (setup_start username now (sv_db st))) \<and>
      db_sessions (snd (setup_start username now (sv_db st))) = db_sessions (sv_db st)"
    using read_settings_kept [of "sv_db st" now]
    by (auto simp: setup_start_def split: sum.split option.split prod.split)
  then show "keeps st (st\<lparr> sv_db := snd (setup_start username now (sv_db st)) \<rparr>)" using assms by (intro keeps_db) simp_all
  show "keeps st (st\<lparr> sv_db := snd (throw_failure now (sv_db st)) \<rparr>)"
    using throw_kept [OF \<open>db_ok (sv_db st)\<close>, of now] assms by (intro keeps_db) simp_all
qed

text \<open>The last used counter moves on exactly where a code is accepted.\<close>

definition advance :: "int option \<Rightarrow> auth_db \<Rightarrow> bool \<times> auth_db" where
  "advance matched db = (case matched of None \<Rightarrow> (False, db) | Some k \<Rightarrow> tryAdvanceTotpLastUsedCounter k db)"

lemma advance_kept:
  assumes "advance matched db = (ok, db')" and "db_ok db"
  shows "db_ok db' \<and> less_db db db' \<and> db_sessions db' = db_sessions db \<and> db_tickets db' = db_tickets db \<and>
    db_recoveryCodes db' = db_recoveryCodes db \<and>
    (if ok then \<exists>k. matched = Some k \<and> counter_of db < k \<and> counter_of db' = k else db' = db)"
proof (cases matched)
  case None
  then show ?thesis using assms by (simp add: advance_def)
next
  case (Some k)
  have "db_ok (snd (tryAdvanceTotpLastUsedCounter k db))" using assms(2) by (rule db_ok_statements)
  then show ?thesis using assms less_advance [of db k]
    by (auto simp: advance_def Some tryAdvanceTotpLastUsedCounter_def counter_of_def nullish_def
        split: option.splits if_split_asm)
qed

lemma after_advance:
  assumes "advance matched db = (ok, db1)" and "db_ok db"
  shows "db_ok (snd (throw_failure now db1)) \<and> less_db db (snd (throw_failure now db1)) \<and>
    db_sessions (snd (throw_failure now db1)) = db_sessions db"
  using advance_kept [OF assms] throw_kept [of db1 now] less_trans by auto

lemma login_failed_kept:
  assumes "login_finish user settings valid matched now db = (Inl e, db')" and "db_ok db"
  shows "db_ok db' \<and> less_db db db' \<and> db_sessions db' = db_sessions db"
proof -
  let ?matched = "if hasTotpEnrollment settings then matched else None"
  obtain ok db1 where adv: "advance ?matched db = (ok, db1)" by (cases "advance ?matched db")
  have "db' = db \<or> db' = snd (throw_failure now db1)"
    using assms(1) adv by (auto simp: login_finish_def advance_def split: if_split_asm prod.splits option.splits)
  then show ?thesis using after_advance [OF adv assms(2)] assms(2) by auto
qed

lemma login_done_kept:
  assumes "login_finish user settings valid matched now db = (Inr u, db')" and "db_ok db"
  shows "\<exists>k. matched = Some k \<and> counter_of db < k \<and> counter_of db' = k \<and> valid \<and> db_ok db' \<and> less_db db db' \<and>
    db_sessions db' = db_sessions db"
proof -
  obtain k db1 where adv: "matched = Some k" "advance matched db = (True, db1)" and db': "db' = resetAuthFailureState db1"
    and "valid"
    using assms(1) by (auto simp: login_finish_def advance_def split: if_split_asm prod.splits option.splits)
  then show ?thesis using advance_kept [OF adv(2) assms(2)] less_trans [OF _ less_failure(2)]
    by (auto simp: failure_fields db_ok_statements)
qed

lemma step_up_failed_kept:
  assumes "stepUp_finish session matched now st = (Inl e, st')" and "svc_ok st"
  shows "keeps st st'"
proof -
  obtain ok db1 where adv: "advance matched (sv_db st) = (ok, db1)" by (cases "advance matched (sv_db st)")
  have "st' = st\<lparr> sv_db := snd (throw_failure now db1) \<rparr>"
    using assms(1) adv by (auto simp: stepUp_finish_def advance_def Let_def split: prod.splits bool.splits option.splits)
  then show ?thesis using after_advance [OF adv] assms(2) by (simp add: keeps_db svc_ok_def)
qed

lemma keeps_step_up:
  assumes "svc_ok st" and "db_ok db" and "less_db (sv_db st) db" and "db_sessions db = db_sessions (sv_db st)"
  shows "keeps st (updateCachedResolvedAuthSession sid f (st\<lparr> sv_db := setAuthSessionStepUpValidUntil sid v db \<rparr>))"
proof -
  let ?db = "setAuthSessionStepUpValidUntil sid v db"
  have get: "jm_get (db_sessions ?db) k = (if k = sid
      then map_option (\<lambda>row. row\<lparr> sr_stepUpValidUntil := v \<rparr>) (jm_get (db_sessions db) k) else jm_get (db_sessions db) k)" for k
    by (auto simp: setAuthSessionStepUpValidUntil_def jm_lookup_update split: option.split)
  have "k \<in> set (map fst (db_sessions ?db)) \<longleftrightarrow> k \<in> set (map fst (db_sessions db))" for k
  proof -
    have "jm_get (db_sessions ?db) k = None \<longleftrightarrow> jm_get (db_sessions db) k = None" by (simp add: get)
    then show ?thesis by (simp add: map_of_eq_None_iff)
  qed
  then have keys: "set (map fst (db_sessions ?db)) = set (map fst (db_sessions db))" by blast
  have "less_db db ?db"
    using keys by (simp add: less_db_def) (simp add: setAuthSessionStepUpValidUntil_def counter_of_def split: option.split)
  then have "less_db (sv_db st) ?db" using assms(3) less_trans by blast
  moreover have "touched_ok ?db (sv_touched st)"
    using assms(1,4) unfolding svc_ok_def touched_ok_def by (auto simp: get split: if_split_asm)
  moreover have "db_ok ?db" using assms(2) by (rule db_ok_statements)
  ultimately show ?thesis using assms(1) by (simp add: keeps_def svc_ok_def touched_keys_def)
qed

lemma step_up_done_kept:
  assumes "stepUp_finish session matched now st = (Inr r, st')" and "svc_ok st"
  shows "\<exists>k. matched = Some k \<and> counter_of (sv_db st) < k \<and> counter_of (sv_db st') = k \<and> keeps st st'"
proof -
  obtain db1 where adv: "advance matched (sv_db st) = (True, db1)" and
    st': "st' = updateCachedResolvedAuthSession (as_id session)
      (\<lambda>cached. cached\<lparr> as_stepUpValidUntil := Some (now + DEFAULT_STEP_UP_LIFETIME_MS) \<rparr>)
      (st\<lparr> sv_db := setAuthSessionStepUpValidUntil (as_id session) (Some (now + DEFAULT_STEP_UP_LIFETIME_MS))
        (resetAuthFailureState db1) \<rparr>)"
    using assms(1) by (auto simp: stepUp_finish_def advance_def Let_def split: prod.splits bool.splits option.splits)
  have ok: "db_ok (sv_db st)" using assms(2) by (simp add: svc_ok_def)
  note kept = advance_kept [OF adv ok]
  have "keeps st st'" unfolding st'
    using kept less_trans [OF _ less_failure(2)] by (intro keeps_step_up [OF assms(2)]) (simp_all add: db_ok_statements failure_fields)
  moreover have "counter_of (setAuthSessionStepUpValidUntil sid v db) = counter_of db" for sid v db
    by (simp add: setAuthSessionStepUpValidUntil_def counter_of_def split: option.split)
  then have "counter_of (sv_db st') = counter_of db1" by (simp add: st' failure_fields)
  ultimately show ?thesis using kept by auto
qed

lemma mark_none:
  assumes "\<not> list_ex (\<lambda>r. rc_codeHash r = h \<and> rc_usedAt r = None) (db_recoveryCodes db)"
  shows "snd (markAuthRecoveryCodeUsed h now db) = db"
proof -
  have "map (\<lambda>r. if rc_codeHash r = h \<and> rc_usedAt r = None then r\<lparr> rc_usedAt := Some now \<rparr> else r) (db_recoveryCodes db) =
      db_recoveryCodes db"
    using assms by (intro map_idI) (auto simp: list_ex_iff)
  then show ?thesis by (simp add: markAuthRecoveryCodeUsed_def)
qed

lemma recovery_failed_kept:
  assumes "recovery_finish user settings valid matching now db = (Inl e, db')" and "db_ok db"
  shows "db_ok db' \<and> less_db db db' \<and> db_sessions db' = db_sessions db"
proof -
  have "db' = snd (incrementFailedAttempts now db) \<or>
      (\<exists>h. db' = snd (markAuthRecoveryCodeUsed h now db) \<and>
        \<not> list_ex (\<lambda>r. rc_codeHash r = h \<and> rc_usedAt r = None) (db_recoveryCodes db))"
    using assms(1) by (auto simp: recovery_finish_def markAuthRecoveryCodeUsed_def
        split: if_split_asm prod.splits sum.splits option.splits bool.splits)
  then show ?thesis
  proof
    assume "db' = snd (incrementFailedAttempts now db)"
    then show ?thesis using increment_kept [OF assms(2), of now] by simp
  next
    assume "\<exists>h. db' = snd (markAuthRecoveryCodeUsed h now db) \<and>
      \<not> list_ex (\<lambda>r. rc_codeHash r = h \<and> rc_usedAt r = None) (db_recoveryCodes db)"
    then have "db' = db" using mark_none by blast
    then show ?thesis using assms(2) by simp
  qed
qed

lemma recovery_done_kept:
  assumes "recovery_finish user settings valid matching now db = (Inr u, db')" and "db_ok db"
  shows "\<exists>h. matching = Some h \<and> valid \<and> h \<in> unused_codes db \<and> unused_codes db' = unused_codes db - {h} \<and>
    map rc_codeHash (db_recoveryCodes db') = map rc_codeHash (db_recoveryCodes db) \<and> db_ok db' \<and>
    db_sessions db' = db_sessions db \<and> db_tickets db' = db_tickets db \<and> counter_of db' = counter_of db"
proof -
  obtain h where h: "matching = Some h" "valid"
    and used: "list_ex (\<lambda>r. rc_codeHash r = h \<and> rc_usedAt r = None) (db_recoveryCodes db)"
    and db': "db' = resetAuthFailureState (snd (markAuthRecoveryCodeUsed h now db))"
    using assms(1) by (auto simp: recovery_finish_def markAuthRecoveryCodeUsed_def truthy_def
        split: if_split_asm prod.splits sum.splits option.splits bool.splits)
  have codes: "db_recoveryCodes db' = map (\<lambda>r. if rc_codeHash r = h \<and> rc_usedAt r = None
      then r\<lparr> rc_usedAt := Some now \<rparr> else r) (db_recoveryCodes db)"
    by (simp add: db' failure_fields) (simp add: markAuthRecoveryCodeUsed_def)
  let ?f = "\<lambda>r. if rc_codeHash r = h \<and> rc_usedAt r = None then r\<lparr> rc_usedAt := Some now \<rparr> else r :: recovery_code"
  have f: "rc_codeHash (?f r) = rc_codeHash r" "rc_usedAt (?f r) = None \<longleftrightarrow> rc_usedAt r = None \<and> rc_codeHash r \<noteq> h" for r
    by auto
  have hashes: "map rc_codeHash (map ?f rs) = map rc_codeHash rs" for rs by (induction rs) (simp_all add: f(1))
  have "x \<in> unused_codes db' \<longleftrightarrow> (\<exists>r \<in> set (db_recoveryCodes db). x = rc_codeHash (?f r) \<and> rc_usedAt (?f r) = None)" for x
    unfolding unused_codes_def codes set_map by blast
  then have "unused_codes db' = unused_codes db - {h}" unfolding f by (auto simp: unused_codes_def)
  moreover have "map rc_codeHash (db_recoveryCodes db') = map rc_codeHash (db_recoveryCodes db)"
    unfolding codes by (rule hashes)
  moreover have "h \<in> unused_codes db" using used by (force simp: unused_codes_def list_ex_iff)
  moreover have "db_ok db'" unfolding db' using assms(2) by (intro db_ok_statements)
  ultimately show ?thesis using h by (simp add: db' failure_fields)
qed

text \<open>A new session's row; the rest is kept.\<close>

definition adds_session :: "string \<Rightarrow> auth_db \<Rightarrow> auth_db \<Rightarrow> bool" where
  "adds_session newId db db' =
     (set (db_tickets db') \<subseteq> set (db_tickets db) \<and> db_ok db' \<and> counter_of db' = counter_of db \<and>
      (\<forall>sid row. sid \<noteq> newId \<and> jm_get (db_sessions db') sid = Some row \<longrightarrow> jm_get (db_sessions db) sid = Some row))"

lemma created_kept:
  assumes "createSessionRecord newId userId days now db = (Inr s, db')" and "db_ok db"
  shows "adds_session newId db db' \<and> db_recoveryCodes db' = db_recoveryCodes db"
proof -
  let ?db0 = "deleteExpiredAuthWebSocketTickets now (deleteExpiredAuthSessions now db)"
  obtain row where row: "createAuthSession newId row ?db0 = Some (s, db')"
    using assms(1) by (auto simp: createSessionRecord_def split: option.splits)
  then have db': "db' = ?db0\<lparr> db_sessions := jm_set newId row (db_sessions ?db0) \<rparr>"
    by (auto simp: createAuthSession_def Let_def split: if_split_asm option.splits)
  have ok: "db_ok db'" by (rule db_ok_create(1) [OF row]) (intro db_ok_statements assms(2))
  have "set (db_tickets ?db0) \<subseteq> set (db_tickets db)"
    using less_trans [OF less_expired [of db now] less_tickets [of _ now]] by (simp add: less_db_def)
  moreover have "db_sessions ?db0 = db_sessions (deleteExpiredAuthSessions now db)"
    by (simp add: deleteExpiredAuthWebSocketTickets_def)
  then have "jm_get (db_sessions ?db0) sid = Some r \<Longrightarrow> jm_get (db_sessions db) sid = Some r" for sid r
    by (simp add: expired_get [OF assms(2)] split: option.splits if_split_asm)
  moreover have "counter_of ?db0 = counter_of db" "db_recoveryCodes ?db0 = db_recoveryCodes db"
    by (simp_all add: deleteExpiredAuthWebSocketTickets_def deleteExpiredAuthSessions_def Let_def counter_of_def)
  moreover have "counter_of db' = counter_of ?db0" by (simp add: db' counter_of_def)
  ultimately show ?thesis using ok by (simp add: adds_session_def) (simp add: db' jm_lookup_update)
qed

lemma set_up_kept:
  assumes "setup_commit name existing kind factorHash cipher days hashes newUser newId now db = (Inr s, db')" and "db_ok db"
  shows "adds_session newId db db' \<and> (\<forall>r \<in> set (db_recoveryCodes db'). rc_codeHash r \<in> set hashes)"
proof -
  obtain user :: user_row and db1 db2 :: auth_db and days' :: int where
    one: "db_ok db1" "db_sessions db1 = db_sessions db" "db_tickets db1 = db_tickets db" "counter_of db1 = counter_of db"
    and two: "replaceAuthRecoveryCodeHashes hashes (upsertAuthSettings kind factorHash cipher days db1) = Some db2"
    and three: "createSessionRecord newId (us_id user) days' now db2 = (Inr s, db')"
  proof (cases existing)
    case None
    let ?user = "\<lparr> us_id = newUser, us_username = js_trim name, us_isAdmin = True, us_enabled = True \<rparr>"
    let ?db1 = "db\<lparr> db_users := db_users db @ [?user] \<rparr>"
    obtain x where x: "replaceAuthRecoveryCodeHashes hashes (upsertAuthSettings kind factorHash cipher days ?db1) = Some x"
      "createSessionRecord newId (us_id ?user) days now x = (Inr s, db')"
      using assms(1) None by (auto simp: setup_commit_def Let_def split: if_split_asm option.splits prod.splits sum.splits)
    have "db_ok ?db1" "counter_of ?db1 = counter_of db" using assms(2) by (simp_all add: db_ok_def counter_of_def)
    then show thesis using x by (intro that [of ?db1 x ?user days]) simp_all
  next
    case (Some user)
    have read: "db_ok (snd (readCurrentAuthSettings now db))" "db_sessions (snd (readCurrentAuthSettings now db)) = db_sessions db"
      "db_tickets (snd (readCurrentAuthSettings now db)) = db_tickets db"
      "counter_of (snd (readCurrentAuthSettings now db)) = counter_of db"
      using read_settings_kept [OF assms(2), of now]
      by (auto simp: readCurrentAuthSettings_def failure_fields split: option.split)
    let ?db1 = "resetAuthFailureState (snd (readCurrentAuthSettings now db))"
    obtain x where x: "replaceAuthRecoveryCodeHashes hashes (upsertAuthSettings kind factorHash cipher days ?db1) = Some x"
      "createSessionRecord newId (us_id user) days now x = (Inr s, db')"
      using assms(1) Some by (auto simp: setup_commit_def Let_def split: if_split_asm option.splits prod.splits sum.splits)
    show thesis using read x by (intro that [of ?db1 x user days]) (simp_all add: db_ok_statements failure_fields)
  qed
  have db2: "db2 = (upsertAuthSettings kind factorHash cipher days db1)\<lparr> db_recoveryCodes :=
      map (\<lambda>h. \<lparr> rc_codeHash = h, rc_usedAt = None \<rparr>) hashes \<rparr>" "distinct hashes"
    using two by (auto simp: replaceAuthRecoveryCodeHashes_def split: if_split_asm)
  have "db_ok db2" "db_sessions db2 = db_sessions db" "db_tickets db2 = db_tickets db" "counter_of db2 = counter_of db"
    using one db2(2) unfolding db2(1)
    by (auto simp: upsertAuthSettings_def db_ok_def counter_of_def comp_def nullish_def split: option.splits)
  moreover have "\<forall>r \<in> set (db_recoveryCodes db2). rc_codeHash r \<in> set hashes" unfolding db2(1) by auto
  ultimately show ?thesis using created_kept [OF three] by (auto simp: adds_session_def)
qed

section \<open>Tickets\<close>

lemma issued_effect:
  assumes "issueWebSocketTicket tid sid now st = (Inr r, st')" and "svc_ok st"
  shows "\<exists>st1 db. keeps st st1 \<and> less_db (sv_db st1) db \<and> db_ok db \<and> db_sessions db = db_sessions (sv_db st1) \<and>
    jm_get (db_tickets db) tid = None \<and> live_session (sv_db st) sid now \<noteq> None \<and>
    st' = st1\<lparr> sv_db := db\<lparr> db_tickets := jm_set tid \<lparr> tk_sessionId = sid, tk_issuedAt = now,
      tk_expiresAt = now + WEBSOCKET_TICKET_LIFETIME_MS, tk_consumedAt = None \<rparr> (db_tickets db) \<rparr> \<rparr>"
proof -
  obtain s st1 where res: "resolveSession (Some sid) True now st = (Some s, st1)"
    using assms(1) by (auto simp: issueWebSocketTicket_def split: prod.splits option.splits)
  have one: "keeps st st1" using keeps_resolved [OF assms(2) res] .
  let ?db = "deleteExpiredAuthWebSocketTickets now (sv_db st1)"
  have ok: "db_ok ?db" using one by (simp add: keeps_def svc_ok_def db_ok_statements)
  have s: "as_id s = sid" "live_session (sv_db st) sid now \<noteq> None" using resolve_some [OF assms(2) res] by simp_all
  have st': "st' = st1\<lparr> sv_db := ?db\<lparr> db_tickets := jm_set tid \<lparr> tk_sessionId = sid, tk_issuedAt = now,
      tk_expiresAt = now + WEBSOCKET_TICKET_LIFETIME_MS, tk_consumedAt = None \<rparr> (db_tickets ?db) \<rparr> \<rparr>"
    and fresh: "\<not> jm_has (db_tickets ?db) tid"
    using assms(1) s(1) by (auto simp: issueWebSocketTicket_def res Let_def createAuthWebSocketTicket_def
        split: option.splits if_split_asm)
  have "jm_get (db_tickets ?db) tid = None" using fresh by (simp add: jm_has_def map_of_eq_None_iff)
  moreover have "db_sessions ?db = db_sessions (sv_db st1)" by (simp add: deleteExpiredAuthWebSocketTickets_def)
  ultimately show ?thesis using one ok s(2) st' less_tickets by blast
qed

lemma not_issued_kept:
  assumes "issueWebSocketTicket tid sid now st = (Inl e, st')" and "svc_ok st"
  shows "keeps st st'"
proof -
  obtain r st1 where res: "resolveSession (Some sid) True now st = (r, st1)" by (cases "resolveSession (Some sid) True now st")
  have one: "keeps st st1" using keeps_resolved [OF assms(2) res] .
  let ?db = "deleteExpiredAuthWebSocketTickets now (sv_db st1)"
  have "keeps st1 (st1\<lparr> sv_db := ?db \<rparr>)"
    using one by (intro keeps_db) (simp_all add: keeps_def svc_ok_def db_ok_statements less_tickets,
      simp add: deleteExpiredAuthWebSocketTickets_def)
  then have two: "keeps st (st1\<lparr> sv_db := ?db \<rparr>)" by (rule keeps_trans [OF one])
  have "st' = st1 \<or> st' = st1\<lparr> sv_db := ?db \<rparr>"
    using assms(1) by (auto simp: issueWebSocketTicket_def res Let_def split: option.splits)
  then show ?thesis using one two by blast
qed

lemma consumed_effect:
  assumes "validateAndConsumeWebSocketTicket tid sid now st = (Inr u, st')" and "svc_ok st"
  shows "\<exists>st1 t. keeps st st1 \<and> jm_get (db_tickets (sv_db st1)) tid = Some t \<and> tk_sessionId t = sid \<and>
    tk_consumedAt t = None \<and> now < tk_expiresAt t \<and> live_session (sv_db st) sid now \<noteq> None \<and>
    st' = st1\<lparr> sv_db := (sv_db st1)\<lparr> db_tickets := jm_set tid (t\<lparr> tk_consumedAt := Some now \<rparr>) (db_tickets (sv_db st1)) \<rparr> \<rparr>"
proof -
  obtain s st1 where res: "resolveSession (Some sid) False now st = (Some s, st1)"
    using assms(1) by (auto simp: validateAndConsumeWebSocketTicket_def split: prod.splits option.splits)
  have one: "keeps st st1" using keeps_resolved [OF assms(2) res] .
  have s: "as_id s = sid" "live_session (sv_db st) sid now \<noteq> None" using resolve_some [OF assms(2) res] by simp_all
  obtain t where t: "jm_get (db_tickets (sv_db st1)) tid = Some t" "tk_sessionId t = sid" "tk_consumedAt t = None"
    "now < tk_expiresAt t"
    using assms(1) s(1) by (auto simp: validateAndConsumeWebSocketTicket_def res getAuthWebSocketTicket_def
        split: option.splits if_split_asm)
  then have "st' = st1\<lparr> sv_db := (sv_db st1)\<lparr> db_tickets :=
      jm_set tid (t\<lparr> tk_consumedAt := Some now \<rparr>) (db_tickets (sv_db st1)) \<rparr> \<rparr>"
    using assms(1) s(1) by (simp add: validateAndConsumeWebSocketTicket_def res getAuthWebSocketTicket_def
        consumeAuthWebSocketTicket_def Let_def)
  then show ?thesis using one t s(2) by blast
qed

lemma not_consumed_kept:
  assumes "validateAndConsumeWebSocketTicket tid sid now st = (Inl e, st')" and "svc_ok st"
  shows "keeps st st'"
proof -
  obtain r st1 where res: "resolveSession (Some sid) False now st = (r, st1)" by (cases "resolveSession (Some sid) False now st")
  have one: "keeps st st1" using keeps_resolved [OF assms(2) res] .
  show ?thesis
  proof (cases r)
    case None
    then show ?thesis using assms(1) one by (simp add: validateAndConsumeWebSocketTicket_def res)
  next
    case (Some s)
    have "as_id s = sid" using resolve_some [OF assms(2)] res Some by blast
    then have "st' = st1"
      using assms(1) by (auto simp: validateAndConsumeWebSocketTicket_def res Some getAuthWebSocketTicket_def
          consumeAuthWebSocketTicket_def Let_def split: option.splits if_split_asm)
    then show ?thesis using one by simp
  qed
qed

section \<open>The invariant of the runs\<close>

definition issues :: "string \<Rightarrow> auth_event list \<Rightarrow> nat" where
  "issues tid es = length (filter (\<lambda>e. case e of TicketIssued t _ _ \<Rightarrow> t = tid | _ \<Rightarrow> False) es)"

definition uses :: "string \<Rightarrow> auth_event list \<Rightarrow> nat" where
  "uses tid es = length (filter (\<lambda>e. case e of TicketConsumed t _ _ \<Rightarrow> t = tid | _ \<Rightarrow> False) es)"

definition accepted_counters :: "auth_event list \<Rightarrow> int list" where
  "accepted_counters es = List.map_filter (\<lambda>e. case e of TotpAccepted k \<Rightarrow> Some k | _ \<Rightarrow> None) es"

definition used_codes :: "auth_event list \<Rightarrow> string list" where
  "used_codes es = List.map_filter (\<lambda>e. case e of CodeUsed h \<Rightarrow> Some h | _ \<Rightarrow> None) es"

definition open_ticket :: "auth_db \<Rightarrow> string \<Rightarrow> nat" where
  "open_ticket db tid = (case jm_get (db_tickets db) tid of None \<Rightarrow> 0 | Some t \<Rightarrow> if tk_consumedAt t = None then 1 else 0)"

definition key_inv :: "auth_run \<Rightarrow> bool" where
  "key_inv = (\<lambda>(st, es). (\<forall>sid \<in> session_keys st \<union> touched_keys st. SessionCreated sid \<in> set es) \<and>
     (\<forall>sid. SessionRevoked sid \<in> set es \<longrightarrow> SessionCreated sid \<in> set es \<and> sid \<notin> session_keys st))"

definition ticket_inv :: "auth_run \<Rightarrow> bool" where
  "ticket_inv = (\<lambda>(st, es).
     (\<forall>(tid, t) \<in> set (db_tickets (sv_db st)). TicketIssued tid (tk_sessionId t) (tk_issuedAt t) \<in> set es \<and>
       tk_expiresAt t = tk_issuedAt t + WEBSOCKET_TICKET_LIFETIME_MS) \<and>
     (\<forall>tid. uses tid es + open_ticket (sv_db st) tid \<le> issues tid es) \<and>
     (\<forall>tid sid now. TicketConsumed tid sid now \<in> set es \<longrightarrow>
       (\<exists>t0. TicketIssued tid sid t0 \<in> set es \<and> now < t0 + WEBSOCKET_TICKET_LIFETIME_MS)))"

definition totp_inv :: "auth_run \<Rightarrow> bool" where
  "totp_inv = (\<lambda>(st, es). sorted_wrt (>) (accepted_counters es) \<and>
     (\<forall>k \<in> set (accepted_counters es). k \<le> counter_of (sv_db st)))"

definition code_inv :: "auth_run \<Rightarrow> bool" where
  "code_inv = (\<lambda>(st, es). distinct (used_codes es) \<and>
     (\<forall>h \<in> set (used_codes es). CodeStored h \<in> set es \<and> h \<notin> unused_codes (sv_db st)) \<and>
     (\<forall>r \<in> set (db_recoveryCodes (sv_db st)). CodeStored (rc_codeHash r) \<in> set es))"

definition auth_inv :: "auth_run \<Rightarrow> bool" where
  "auth_inv s = (svc_ok (fst s) \<and> key_inv s \<and> ticket_inv s \<and> totp_inv s \<and> code_inv s)"

lemma open_ticket_less:
  assumes "db_ok db" and "db_ok db'" and "set (db_tickets db') \<subseteq> set (db_tickets db)"
  shows "open_ticket db' tid \<le> open_ticket db tid"
proof (cases "jm_get (db_tickets db') tid")
  case (Some t)
  then have "(tid, t) \<in> set (db_tickets db)" using assms(3) by (auto dest: map_of_SomeD)
  then have "jm_get (db_tickets db) tid = Some t" using assms(1) by (simp add: db_ok_def wf_keyed [symmetric])
  then show ?thesis using Some by (simp add: open_ticket_def)
qed (simp add: open_ticket_def)

text \<open>Events the parts of the invariant do not read.\<close>

lemma log_skip:
  "issues tid (SessionCreated s # es) = issues tid es" "issues tid (SessionRevoked s # es) = issues tid es"
  "issues tid (TotpAccepted k # es) = issues tid es" "issues tid (CodeUsed h # es) = issues tid es"
  "issues tid (TicketConsumed t s n # es) = issues tid es" "issues tid (CodeStored h # es) = issues tid es"
  "issues tid (TicketIssued t s n # es) = (if t = tid then Suc (issues tid es) else issues tid es)"
  "uses tid (SessionCreated s # es) = uses tid es" "uses tid (SessionRevoked s # es) = uses tid es"
  "uses tid (TotpAccepted k # es) = uses tid es" "uses tid (CodeUsed h # es) = uses tid es"
  "uses tid (TicketIssued t s n # es) = uses tid es" "uses tid (CodeStored h # es) = uses tid es"
  "uses tid (TicketConsumed t s n # es) = (if t = tid then Suc (uses tid es) else uses tid es)"
  "accepted_counters (SessionCreated s # es) = accepted_counters es"
  "accepted_counters (SessionRevoked s # es) = accepted_counters es"
  "accepted_counters (TicketIssued t s n # es) = accepted_counters es"
  "accepted_counters (TicketConsumed t s n # es) = accepted_counters es"
  "accepted_counters (CodeUsed h # es) = accepted_counters es"
  "accepted_counters (CodeStored h # es) = accepted_counters es"
  "accepted_counters (TotpAccepted k # es) = k # accepted_counters es"
  "used_codes (SessionCreated s # es) = used_codes es" "used_codes (SessionRevoked s # es) = used_codes es"
  "used_codes (TicketIssued t s n # es) = used_codes es" "used_codes (TicketConsumed t s n # es) = used_codes es"
  "used_codes (TotpAccepted k # es) = used_codes es" "used_codes (CodeStored h # es) = used_codes es"
  "used_codes (CodeUsed h # es) = h # used_codes es"
  by (simp_all add: issues_def uses_def accepted_counters_def used_codes_def map_filter_simps)

lemma log_skip_many:
  "issues tid (map SessionRevoked ks @ es) = issues tid es" "uses tid (map SessionRevoked ks @ es) = uses tid es"
  "accepted_counters (map SessionRevoked ks @ es) = accepted_counters es"
  "used_codes (map SessionRevoked ks @ es) = used_codes es"
  "issues tid (map CodeStored hs @ es) = issues tid es" "uses tid (map CodeStored hs @ es) = uses tid es"
  "accepted_counters (map CodeStored hs @ es) = accepted_counters es"
  "used_codes (map CodeStored hs @ es) = used_codes es"
  by (induction ks, simp_all add: log_skip) (induction hs, simp_all add: log_skip)+

lemma used_code_mem: "h \<in> set (used_codes es) \<longleftrightarrow> CodeUsed h \<in> set es"
  by (induction es) (auto simp: used_codes_def map_filter_simps split: auth_event.splits)

text \<open>A step that grants nothing keeps the invariant; so does what is logged beside it, part by part.\<close>

lemma keeps_keys:
  assumes "keeps st st'" and "key_inv (st, es)" shows "key_inv (st', es)"
proof -
  have "session_keys st' \<subseteq> session_keys st" "touched_keys st' \<subseteq> touched_keys st \<union> session_keys st"
    using assms(1) by (simp_all add: keeps_def less_db_def session_keys_def)
  then show ?thesis using assms(2) unfolding key_inv_def by blast
qed

lemma keeps_tickets:
  assumes "keeps st st'" and "svc_ok st" and "ticket_inv (st, es)" shows "ticket_inv (st', es)"
proof -
  have sub: "set (db_tickets (sv_db st')) \<subseteq> set (db_tickets (sv_db st))" and "db_ok (sv_db st)" "db_ok (sv_db st')"
    using assms(1,2) by (simp_all add: keeps_def less_db_def svc_ok_def)
  then have "open_ticket (sv_db st') tid \<le> open_ticket (sv_db st) tid" for tid using open_ticket_less by blast
  then have "uses tid es + open_ticket (sv_db st') tid \<le> issues tid es" for tid
    using assms(3) by (simp add: ticket_inv_def) (meson add_left_mono order.trans)
  then show ?thesis using assms(3) sub by (auto simp: ticket_inv_def)
qed

lemma keeps_totp: "keeps st st' \<Longrightarrow> totp_inv (st, es) \<Longrightarrow> totp_inv (st', es)"
  by (auto simp: keeps_def less_db_def totp_inv_def)

lemma keeps_codes: "keeps st st' \<Longrightarrow> code_inv (st, es) \<Longrightarrow> code_inv (st', es)"
  by (auto simp: keeps_def less_db_def code_inv_def unused_codes_def)

lemma inv_keeps:
  assumes "keeps st st'" and "auth_inv (st, es)" shows "auth_inv (st', es)"
proof -
  have "svc_ok st'" using assms(1) by (simp add: keeps_def)
  then show ?thesis
    using assms keeps_keys [OF assms(1)] keeps_tickets [OF assms(1)] keeps_totp [OF assms(1)] keeps_codes [OF assms(1)]
    by (simp add: auth_inv_def)
qed

lemma inv_db:
  assumes "db_ok db \<and> less_db (sv_db st) db \<and> db_sessions db = db_sessions (sv_db st)" and "auth_inv (st, es)"
  shows "auth_inv (st\<lparr> sv_db := db \<rparr>, es)"
  using assms by (intro inv_keeps [OF keeps_db]) (simp_all add: auth_inv_def)

lemma inv_totp:
  assumes "auth_inv (st, es)" and "counter_of (sv_db st0) < k" and "counter_of (sv_db st) = k"
    and "auth_inv (st0, es)"
  shows "auth_inv (st, TotpAccepted k # es)"
proof -
  have "\<forall>j \<in> set (accepted_counters es). j < k" using assms(2,4) by (auto simp: auth_inv_def totp_inv_def)
  then show ?thesis using assms(1,3)
    by (auto simp: auth_inv_def key_inv_def ticket_inv_def totp_inv_def code_inv_def log_skip)
qed

lemma inv_revoked:
  assumes "auth_inv (st, es)" and "\<And>k. k \<in> set ks \<Longrightarrow> SessionCreated k \<in> set es \<and> k \<notin> session_keys st"
  shows "auth_inv (st, map SessionRevoked ks @ es)"
  using assms
proof (induction ks)
  case (Cons k ks)
  then have "auth_inv (st, map SessionRevoked ks @ es)" "SessionCreated k \<in> set (map SessionRevoked ks @ es)"
    "k \<notin> session_keys st"
    by auto
  then show ?case
    by (simp add: auth_inv_def key_inv_def ticket_inv_def totp_inv_def code_inv_def log_skip)
qed simp

lemma inv_code:
  assumes "auth_inv (st, es)" and "db_ok db" and "db_sessions db = db_sessions (sv_db st)" "db_tickets db = db_tickets (sv_db st)"
    "counter_of db = counter_of (sv_db st)" and "h \<in> unused_codes (sv_db st)"
    and "unused_codes db = unused_codes (sv_db st) - {h}"
    and "map rc_codeHash (db_recoveryCodes db) = map rc_codeHash (db_recoveryCodes (sv_db st))"
  shows "auth_inv (st\<lparr> sv_db := db \<rparr>, CodeUsed h # es)"
proof -
  have "rc_codeHash ` set (db_recoveryCodes db) = rc_codeHash ` set (db_recoveryCodes (sv_db st))"
    using assms(8) by (metis set_map)
  moreover have "\<forall>r \<in> set (db_recoveryCodes (sv_db st)). CodeStored (rc_codeHash r) \<in> set es"
    using assms(1) by (simp add: auth_inv_def code_inv_def)
  ultimately have stored: "\<forall>r \<in> set (db_recoveryCodes db). CodeStored (rc_codeHash r) \<in> set es"
    by (metis (no_types, lifting) image_iff)
  have "h \<in> rc_codeHash ` set (db_recoveryCodes (sv_db st))" using assms(6) by (auto simp: unused_codes_def)
  then have "CodeStored h \<in> set es" using assms(1) by (auto simp: auth_inv_def code_inv_def)
  moreover have "h \<notin> set (used_codes es)" using assms(1,6) by (auto simp: auth_inv_def code_inv_def)
  ultimately have "code_inv (st\<lparr> sv_db := db \<rparr>, CodeUsed h # es)"
    using assms(1,7) stored by (simp add: auth_inv_def code_inv_def log_skip)
  moreover have "ticket_inv (st\<lparr> sv_db := db \<rparr>, CodeUsed h # es)" "totp_inv (st\<lparr> sv_db := db \<rparr>, CodeUsed h # es)"
    using assms(1,4,5) by (simp_all add: auth_inv_def ticket_inv_def totp_inv_def open_ticket_def log_skip)
  moreover have "key_inv (st\<lparr> sv_db := db \<rparr>, CodeUsed h # es)" "svc_ok (st\<lparr> sv_db := db \<rparr>)"
    using assms(1-3) by (simp_all add: auth_inv_def key_inv_def session_keys_def touched_keys_def svc_ok_def touched_ok_def)
  ultimately show ?thesis by (simp add: auth_inv_def)
qed

lemma inv_created:
  assumes "auth_inv (st, es)" and "adds_session newId (sv_db st) db" and "SessionCreated newId \<notin> set es"
    and "db_recoveryCodes db = db_recoveryCodes (sv_db st) \<or>
      (\<forall>r \<in> set (db_recoveryCodes db). rc_codeHash r \<in> set hs) \<and> CodeStored ` set hs \<inter> set es = {}"
  shows "auth_inv (st\<lparr> sv_db := db \<rparr>, SessionCreated newId # map CodeStored hs @ es)"
proof -
  have new: "newId \<notin> touched_keys st" and unrevoked: "SessionRevoked newId \<notin> set es"
    using assms(1,3) by (auto simp: auth_inv_def key_inv_def)
  have keys: "session_keys (st\<lparr> sv_db := db \<rparr>) \<subseteq> insert newId (session_keys st)"
  proof
    fix k assume "k \<in> session_keys (st\<lparr> sv_db := db \<rparr>)"
    then have "jm_get (db_sessions db) k \<noteq> None" by (simp add: session_keys_def map_of_eq_None_iff)
    then have "k = newId \<or> jm_get (db_sessions (sv_db st)) k \<noteq> None" using assms(2) unfolding adds_session_def by blast
    then show "k \<in> insert newId (session_keys st)" by (auto simp: session_keys_def map_of_eq_None_iff)
  qed
  have "touched_ok db (sv_touched st)"
    unfolding touched_ok_def
  proof (intro allI impI, elim conjE)
    fix sid v row assume "(sid, v) \<in> set (sv_touched st)" "jm_get (db_sessions db) sid = Some row"
    moreover have "sid \<noteq> newId" using calculation(1) new by (force simp: touched_keys_def)
    ultimately have "jm_get (db_sessions (sv_db st)) sid = Some row" "(sid, v) \<in> set (sv_touched st)"
      using assms(2) unfolding adds_session_def by blast+
    moreover have "touched_ok (sv_db st) (sv_touched st)" using assms(1) by (simp add: auth_inv_def svc_ok_def)
    ultimately show "v = Some (sr_lastUsedAt row)" unfolding touched_ok_def by blast
  qed
  then have svc: "svc_ok (st\<lparr> sv_db := db \<rparr>)" using assms(1,2) by (simp add: auth_inv_def svc_ok_def adds_session_def)
  have "open_ticket db tid \<le> open_ticket (sv_db st) tid" for tid
    using assms(1,2) by (intro open_ticket_less) (simp_all add: auth_inv_def svc_ok_def adds_session_def)
  then have "uses tid es + open_ticket db tid \<le> issues tid es" for tid
    using assms(1) by (simp add: auth_inv_def ticket_inv_def) (meson add_left_mono order.trans)
  then have tickets: "ticket_inv (st\<lparr> sv_db := db \<rparr>, SessionCreated newId # map CodeStored hs @ es)"
    using assms(1,2) by (fastforce simp: auth_inv_def ticket_inv_def log_skip log_skip_many adds_session_def)
  have codes: "code_inv (st\<lparr> sv_db := db \<rparr>, SessionCreated newId # map CodeStored hs @ es)"
  proof -
    have "h \<notin> unused_codes db" if "h \<in> set (used_codes es)" for h
    proof -
      have "CodeStored h \<in> set es" "h \<notin> unused_codes (sv_db st)" using assms(1) that by (auto simp: auth_inv_def code_inv_def)
      show ?thesis
      proof (cases "db_recoveryCodes db = db_recoveryCodes (sv_db st)")
        case True
        then show ?thesis using \<open>h \<notin> unused_codes (sv_db st)\<close> by (simp add: unused_codes_def)
      next
        case False
        then have "h \<notin> set hs" "\<forall>r \<in> set (db_recoveryCodes db). rc_codeHash r \<in> set hs"
          using assms(4) \<open>CodeStored h \<in> set es\<close> by blast+
        then show ?thesis by (auto simp: unused_codes_def)
      qed
    qed
    moreover have "\<forall>r \<in> set (db_recoveryCodes db). CodeStored (rc_codeHash r) \<in> set es \<or> rc_codeHash r \<in> set hs"
      using assms(1,4) by (auto simp: auth_inv_def code_inv_def)
    ultimately show ?thesis using assms(1) by (auto simp: auth_inv_def code_inv_def log_skip log_skip_many)
  qed
  show ?thesis
    using svc tickets codes keys new unrevoked assms(1,2)
    by (auto simp: auth_inv_def key_inv_def totp_inv_def log_skip log_skip_many adds_session_def touched_keys_def)
qed

lemma inv_issued:
  assumes "issueWebSocketTicket tid sid now st = (Inr r, st')" and "auth_inv (st, es)"
  shows "auth_inv (st', TicketIssued tid sid now # es)"
proof -
  have "svc_ok st" using assms(2) by (simp add: auth_inv_def)
  then obtain st1 db where one: "keeps st st1" and db: "less_db (sv_db st1) db" "db_ok db" "db_sessions db = db_sessions (sv_db st1)"
    and fresh: "jm_get (db_tickets db) tid = None"
    and st': "st' = st1\<lparr> sv_db := db\<lparr> db_tickets := jm_set tid \<lparr> tk_sessionId = sid, tk_issuedAt = now,
      tk_expiresAt = now + WEBSOCKET_TICKET_LIFETIME_MS, tk_consumedAt = None \<rparr> (db_tickets db) \<rparr> \<rparr>"
    using issued_effect [OF assms(1)] by blast
  have inv: "auth_inv (st1\<lparr> sv_db := db \<rparr>, es)" using inv_db [OF _ inv_keeps [OF one assms(2)]] db by blast
  have added: "set (db_tickets (sv_db st')) \<subseteq> insert (tid, \<lparr> tk_sessionId = sid, tk_issuedAt = now,
      tk_expiresAt = now + WEBSOCKET_TICKET_LIFETIME_MS, tk_consumedAt = None \<rparr>) (set (db_tickets db))"
    using fresh by (simp add: st' jm_set_fresh map_of_eq_None_iff)
  have "open_ticket (sv_db st') k = (if k = tid then 1 else open_ticket db k)" for k
    by (simp add: st' open_ticket_def jm_lookup_update)
  moreover have "uses tid es \<le> issues tid es" using inv by (auto simp: auth_inv_def ticket_inv_def dest: spec [of _ tid])
  moreover have "\<forall>k. uses k es + open_ticket db k \<le> issues k es" using inv by (simp add: auth_inv_def ticket_inv_def)
  ultimately have "\<forall>k. uses k (TicketIssued tid sid now # es) + open_ticket (sv_db st') k \<le> issues k (TicketIssued tid sid now # es)"
    by (simp add: log_skip)
  moreover have "\<exists>t0. TicketIssued k s t0 \<in> set (TicketIssued tid sid now # es) \<and> n < t0 + WEBSOCKET_TICKET_LIFETIME_MS"
    if "TicketConsumed k s n \<in> set (TicketIssued tid sid now # es)" for k s n
  proof -
    have "TicketConsumed k s n \<in> set es" using that by simp
    then obtain t0 where "TicketIssued k s t0 \<in> set es" "n < t0 + WEBSOCKET_TICKET_LIFETIME_MS"
      using inv unfolding auth_inv_def ticket_inv_def by blast
    then show ?thesis by auto
  qed
  moreover have "\<forall>(k, t) \<in> set (db_tickets (sv_db st')). TicketIssued k (tk_sessionId t) (tk_issuedAt t) \<in>
      set (TicketIssued tid sid now # es) \<and> tk_expiresAt t = tk_issuedAt t + WEBSOCKET_TICKET_LIFETIME_MS"
    using inv added by (auto simp: auth_inv_def ticket_inv_def)
  ultimately have "ticket_inv (st', TicketIssued tid sid now # es)"
    unfolding ticket_inv_def by blast
  moreover have "db_ok (sv_db st')" using db(2) by (simp add: st' db_ok_def jm.wf_put)
  ultimately show ?thesis using inv
    by (simp add: auth_inv_def key_inv_def totp_inv_def code_inv_def log_skip st' session_keys_def touched_keys_def
        counter_of_def unused_codes_def svc_ok_def touched_ok_def)
qed

lemma inv_consumed:
  assumes "validateAndConsumeWebSocketTicket tid sid now st = (Inr u, st')" and "auth_inv (st, es)"
  shows "auth_inv (st', TicketConsumed tid sid now # es)"
proof -
  have "svc_ok st" using assms(2) by (simp add: auth_inv_def)
  then obtain st1 t where one: "keeps st st1" and t: "jm_get (db_tickets (sv_db st1)) tid = Some t" "tk_sessionId t = sid"
      "tk_consumedAt t = None" "now < tk_expiresAt t"
    and st': "st' = st1\<lparr> sv_db := (sv_db st1)\<lparr> db_tickets :=
      jm_set tid (t\<lparr> tk_consumedAt := Some now \<rparr>) (db_tickets (sv_db st1)) \<rparr> \<rparr>"
    using consumed_effect [OF assms(1)] by blast
  have inv: "auth_inv (st1, es)" using inv_keeps [OF one assms(2)] .
  have mem: "(tid, t) \<in> set (db_tickets (sv_db st1))" using t(1) by (rule map_of_SomeD)
  have wf: "jm_wf (db_tickets (sv_db st1))" using inv by (simp add: auth_inv_def svc_ok_def db_ok_def)
  have "e \<in> set (db_tickets (sv_db st1)) \<or> e = (tid, t\<lparr> tk_consumedAt := Some now \<rparr>)"
    if "e \<in> set (db_tickets (sv_db st'))" for e
    using that wf_keyed [OF wf, of "fst e" "snd e"]
      wf_keyed [OF jm.wf_put [OF wf], of "fst e" "snd e" tid "t\<lparr> tk_consumedAt := Some now \<rparr>"]
    by (cases e) (auto simp: st' jm_lookup_update split: if_split_asm)
  then have rows: "\<forall>(k, x) \<in> set (db_tickets (sv_db st')). TicketIssued k (tk_sessionId x) (tk_issuedAt x) \<in> set es \<and>
      tk_expiresAt x = tk_issuedAt x + WEBSOCKET_TICKET_LIFETIME_MS"
    using inv mem by (fastforce simp: auth_inv_def ticket_inv_def)
  have issued: "TicketIssued tid sid (tk_issuedAt t) \<in> set es" "tk_expiresAt t = tk_issuedAt t + WEBSOCKET_TICKET_LIFETIME_MS"
    using inv mem t(2) by (auto simp: auth_inv_def ticket_inv_def)
  have opened: "open_ticket (sv_db st') k = (if k = tid then 0 else open_ticket (sv_db st1) k)" for k
    by (simp add: st' open_ticket_def jm_lookup_update)
  have counts: "uses k es + open_ticket (sv_db st1) k \<le> issues k es" for k
    using inv by (simp add: auth_inv_def ticket_inv_def)
  have "open_ticket (sv_db st1) tid = 1" using t by (simp add: open_ticket_def)
  then have "uses k (TicketConsumed tid sid now # es) + open_ticket (sv_db st') k \<le> issues k (TicketConsumed tid sid now # es)" for k
    using counts [of k] by (cases "k = tid") (simp_all add: opened log_skip)
  moreover have "\<exists>t0. TicketIssued tid sid t0 \<in> set es \<and> now < t0 + WEBSOCKET_TICKET_LIFETIME_MS"
    using issued t(4) by auto
  ultimately have "ticket_inv (st', TicketConsumed tid sid now # es)"
    using inv rows by (auto simp: auth_inv_def ticket_inv_def)
  moreover have "db_ok (sv_db st')" using inv wf by (simp add: st' auth_inv_def svc_ok_def db_ok_def jm.wf_put)
  ultimately show ?thesis using inv
    by (simp add: auth_inv_def key_inv_def totp_inv_def code_inv_def log_skip st' session_keys_def touched_keys_def
        counter_of_def unused_codes_def svc_ok_def touched_ok_def)
qed

lemma inv_logout:
  assumes "auth_inv (st, es)" and "truthy sid" and "jm_has (db_sessions (sv_db st)) (the sid)"
  shows "auth_inv (auth_logout sid st, SessionRevoked (the sid) # es)"
proof -
  have ok: "svc_ok st" using assms(1) by (simp add: auth_inv_def)
  have "auth_inv (auth_logout sid st, es)" using inv_keeps [OF keeps_logout [OF ok] assms(1)] .
  moreover have "the sid \<notin> session_keys (auth_logout sid st)"
    using assms(2) by (auto simp: auth_logout_def forget_session_def deleteAuthSession_def session_keys_def jm_delete_filter)
  moreover have "SessionCreated (the sid) \<in> set es"
    using assms(1,3) by (auto simp: auth_inv_def key_inv_def session_keys_def jm_has_def)
  ultimately show ?thesis using inv_revoked [of "auth_logout sid st" es "[the sid]"] by simp
qed

lemma inv_revoked_all:
  assumes "auth_inv (st, es)"
  shows "auth_inv (revoked_all st, map (\<lambda>(k, row). SessionRevoked k) (db_sessions (sv_db st)) @ es)"
proof -
  have ok: "svc_ok st" using assms by (simp add: auth_inv_def)
  have "auth_inv (revoked_all st, es)" using inv_keeps [OF keeps_revoked [OF ok] assms] .
  moreover have "session_keys (revoked_all st) = {}"
    by (simp add: revoked_all_def clearAuthSessionTouchCache_def deleteAllAuthSessions_def session_keys_def)
  moreover have "(\<lambda>(k, row). SessionRevoked k) = SessionRevoked \<circ> (fst :: string \<times> session_row \<Rightarrow> string)" by auto
  moreover have "SessionCreated k \<in> set es" if "k \<in> set (map fst (db_sessions (sv_db st)))" for k
    using assms that by (auto simp: auth_inv_def key_inv_def session_keys_def)
  ultimately show ?thesis using inv_revoked [of "revoked_all st" es "map fst (db_sessions (sv_db st))"] by simp
qed

theorem auth_inv_step:
  assumes "auth_step s s'" and "auth_inv s" shows "auth_inv s'"
  using assms
proof (induction rule: auth_step.induct)
  case resolved
  then show ?case using inv_keeps keeps_resolve by (simp add: auth_inv_def) blast
next
  case status
  then show ?case using inv_keeps keeps_status by (simp add: auth_inv_def) blast
next
  case (logged_out st es sid)
  then have "svc_ok st" by (simp add: auth_inv_def)
  then show ?case using inv_keeps [OF keeps_logout logged_out] inv_logout [OF logged_out] by simp
next
  case all_revoked
  then show ?case by (rule inv_revoked_all)
next
  case issued
  then show ?case using inv_issued by blast
next
  case not_issued
  then show ?case using inv_keeps not_issued_kept by (simp add: auth_inv_def) blast
next
  case consumed
  then show ?case using inv_consumed by blast
next
  case not_consumed
  then show ?case using inv_keeps not_consumed_kept by (simp add: auth_inv_def) blast
next
  case step_up_started
  then show ?case using inv_keeps keeps_step_up_start by (simp add: auth_inv_def) blast
next
  case step_up_refused
  then show ?case using inv_keeps keeps_wrong_factor by (simp add: auth_inv_def) blast
next
  case (step_up_done session matched now st r st' es)
  then have "svc_ok st" by (simp add: auth_inv_def)
  then obtain k where "matched = Some k" "counter_of (sv_db st) < k" "counter_of (sv_db st') = k" "keeps st st'"
    using step_up_done_kept [OF step_up_done(1)] by blast
  then show ?case using inv_totp [OF inv_keeps] step_up_done(2) by simp
next
  case step_up_failed
  then show ?case using inv_keeps step_up_failed_kept by (simp add: auth_inv_def) blast
next
  case login_started
  then show ?case using inv_keeps keeps_login_start by (simp add: auth_inv_def) blast
next
  case (login_done user settings valid matched now st u db es)
  then have "db_ok (sv_db st)" by (simp add: auth_inv_def svc_ok_def)
  then obtain k where k: "matched = Some k" "counter_of (sv_db st) < k" "counter_of db = k"
    and kept: "db_ok db \<and> less_db (sv_db st) db \<and> db_sessions db = db_sessions (sv_db st)"
    using login_done_kept [OF login_done(1)] by blast
  then show ?case using inv_totp [OF inv_db [OF kept login_done(2)] k(2)] login_done(2) by simp
next
  case (login_failed user settings valid matched now st e db es)
  then have "db_ok (sv_db st)" by (simp add: auth_inv_def svc_ok_def)
  then show ?case using inv_db [OF login_failed_kept [OF login_failed(1)]] login_failed(2) by blast
next
  case (recovery_done user settings valid matching now st u db es)
  then have "db_ok (sv_db st)" by (simp add: auth_inv_def svc_ok_def)
  then show ?case using recovery_done_kept [OF recovery_done(1)] inv_code [OF recovery_done(2)] by auto
next
  case (recovery_failed user settings valid matching now st e db es)
  then have "db_ok (sv_db st)" by (simp add: auth_inv_def svc_ok_def)
  then show ?case using inv_db [OF recovery_failed_kept [OF recovery_failed(1)]] recovery_failed(2) by blast
next
  case (session_made newId user settings now st s db es)
  then have "db_ok (sv_db st)" by (simp add: auth_inv_def svc_ok_def)
  then show ?case
    using created_kept [OF session_made(1) [unfolded login_session_def]] inv_created [OF session_made(3) _ session_made(2), of db "[]"]
    by auto
next
  case setup_started
  then show ?case using inv_keeps keeps_setup(1) by (simp add: auth_inv_def) blast
next
  case setup_refused
  then show ?case using inv_keeps keeps_setup(2) by (simp add: auth_inv_def) blast
next
  case (set_up name existing kind factorHash cipher days hashes newUser newId now st s db es)
  then have "db_ok (sv_db st)" by (simp add: auth_inv_def svc_ok_def)
  then show ?case using set_up_kept [OF set_up(1)] inv_created [OF set_up(4) _ set_up(2), of db hashes] set_up(3) by auto
qed

lemma reachable_inv: "auth_reachable s \<Longrightarrow> auth_inv s"
proof (induction rule: auth_reachable.induct)
  case (start db)
  then show ?case
    by (simp add: auth_inv_def svc_ok_def db_ok_def jm_wf_def touched_ok_def key_inv_def session_keys_def touched_keys_def
        ticket_inv_def totp_inv_def code_inv_def uses_def issues_def open_ticket_def accepted_counters_def used_codes_def
        map_filter_simps)
qed (rule auth_inv_step)

text \<open>A run for the witnesses: the only user logs in, takes a ticket, opens a connection with it and logs out.\<close>

definition demo_login :: auth_service where
  "demo_login = \<lparr> sv_db = snd (login_session ''s1'' (hd (db_users demo_db)) demo_settings 1000
     (snd (login_finish (hd (db_users demo_db)) demo_settings True (Some 7) 1000 demo_db))),
     sv_touched = [], sv_resolved = [], sv_lastSweepAt = 0 \<rparr>"

definition demo_ticket :: auth_service where "demo_ticket = snd (issueWebSocketTicket ''t1'' ''s1'' 2000 demo_login)"

definition demo_connected :: auth_service where
  "demo_connected = snd (validateAndConsumeWebSocketTicket ''t1'' ''s1'' 3000 demo_ticket)"

definition demo_log :: "auth_event list" where
  "demo_log = [TicketConsumed ''t1'' ''s1'' 3000, TicketIssued ''t1'' ''s1'' 2000, SessionCreated ''s1'', TotpAccepted 7]"

lemma prune_small:
  "length m \<le> 1024 \<Longrightarrow> pruneLruMapToMaxEntries m (of_nat MAX_AUTH_SESSION_TOUCH_CACHE_ENTRIES) = m"
  "length m \<le> 1024 \<Longrightarrow> pruneLruMapToMaxEntries m (of_nat MAX_AUTH_SESSION_RESOLVE_CACHE_ENTRIES) = m"
  by (simp_all add: pruneLruMapToMaxEntries_def js_trunc_def evict_oldest.simps MAX_AUTH_SESSION_TOUCH_CACHE_ENTRIES_def
      MAX_AUTH_SESSION_RESOLVE_CACHE_ENTRIES_def)

lemmas evaluation = demo_db_def demo_settings_def getAuthSession_def getUserById_def
  deleteExpiredAuthWebSocketTickets_def deleteExpiredAuthSessions_def Let_def nullish_def truthy_def resolveSession_def
  maybeDeleteExpiredAuthSessions_def pruneAuthSessionTouchCache_def readCachedResolvedAuthSession_def resolve_row_def
  recordResolvedAuthSession_def readAuthSessionLastTouchedAt_def isSessionIdleExpired_def recordAuthSessionTouchedAt_def
  readLruMapValue_def writeLruMapValue_def EXPIRED_AUTH_SESSION_SWEEP_INTERVAL_MS_def
  DEFAULT_SESSION_IDLE_TIMEOUT_MS_def AUTH_SESSION_TOUCH_INTERVAL_MS_def AUTH_SESSION_RESOLVE_CACHE_TTL_MS_def
  prune_small issueWebSocketTicket_def createAuthWebSocketTicket_def validateAndConsumeWebSocketTicket_def
  getAuthWebSocketTicket_def consumeAuthWebSocketTicket_def WEBSOCKET_TICKET_LIFETIME_MS_def jm_has_def

lemma demo_login:
  "demo_login = \<lparr> sv_db = demo_db\<lparr> db_settings := Some (demo_settings\<lparr> se_totpLastUsedCounter := Some 7 \<rparr>),
     db_sessions := [(''s1'', \<lparr> sr_userId = 1, sr_issuedAt = 1000, sr_expiresAt = 604801000, sr_lastUsedAt = 1000,
       sr_stepUpValidUntil = None \<rparr>)] \<rparr>, sv_touched = [], sv_resolved = [], sv_lastSweepAt = 0 \<rparr>"
  by code_simp

lemma demo_steps:
  "fst (login_finish (hd (db_users demo_db)) demo_settings True (Some 7) 1000 demo_db) = Inr ()"
  "fst (login_session ''s1'' (hd (db_users demo_db)) demo_settings 1000
     (snd (login_finish (hd (db_users demo_db)) demo_settings True (Some 7) 1000 demo_db))) =
   Inr \<lparr> as_id = ''s1'', as_userId = 1, as_username = ''ada'', as_isAdmin = True, as_issuedAt = 1000,
     as_expiresAt = 604801000, as_lastUsedAt = 1000, as_stepUpValidUntil = None \<rparr>"
  by code_simp+

lemma demo_tickets:
  "fst (issueWebSocketTicket ''t1'' ''s1'' 2000 demo_login) = Inr (62000, ''t1'')"
  "fst (validateAndConsumeWebSocketTicket ''t1'' ''s1'' 3000 demo_ticket) = Inr ()"
  "db_sessions (sv_db demo_connected) = db_sessions (sv_db demo_login)"
  "db_users (sv_db demo_connected) = db_users demo_db"
  by (simp_all add: demo_connected_def demo_ticket_def demo_login evaluation)

lemma demo_reachable:
  "auth_reachable (demo_connected, demo_log)"
  "auth_reachable (auth_logout (Some ''s1'') demo_connected, SessionRevoked ''s1'' # demo_log)"
proof -
  let ?st = "\<lparr> sv_db = demo_db, sv_touched = [], sv_resolved = [], sv_lastSweepAt = 0 \<rparr>"
  have "auth_reachable (?st, [])" by (rule start) (simp_all add: demo_db_def)
  moreover have "auth_step (?st, [])
      (?st\<lparr> sv_db := snd (login_finish (hd (db_users demo_db)) demo_settings True (Some 7) 1000 (sv_db ?st)) \<rparr>,
       [TotpAccepted (the (Some 7))])"
    using demo_steps(1) by (intro login_done) (simp add: prod_eq_iff)
  ultimately have one: "auth_reachable
      (?st\<lparr> sv_db := snd (login_finish (hd (db_users demo_db)) demo_settings True (Some 7) 1000 demo_db) \<rparr>, [TotpAccepted 7])"
    using step by simp
  let ?db = "snd (login_finish (hd (db_users demo_db)) demo_settings True (Some 7) 1000 demo_db)"
  have "auth_step (?st\<lparr> sv_db := ?db \<rparr>, [TotpAccepted 7])
      ((?st\<lparr> sv_db := ?db \<rparr>)\<lparr> sv_db := snd (login_session ''s1'' (hd (db_users demo_db)) demo_settings 1000 ?db) \<rparr>,
       [SessionCreated ''s1'', TotpAccepted 7])"
    using demo_steps(2) by (intro session_made [where user = "hd (db_users demo_db)" and settings = demo_settings])
      (simp_all add: prod_eq_iff)
  then have "auth_step (?st\<lparr> sv_db := ?db \<rparr>, [TotpAccepted 7]) (demo_login, [SessionCreated ''s1'', TotpAccepted 7])"
    by (simp add: demo_login_def)
  then have two: "auth_reachable (demo_login, [SessionCreated ''s1'', TotpAccepted 7])" by (rule step [OF one])
  have "auth_step (demo_login, [SessionCreated ''s1'', TotpAccepted 7])
      (demo_ticket, [TicketIssued ''t1'' ''s1'' 2000, SessionCreated ''s1'', TotpAccepted 7])"
    using demo_tickets(1) by (intro issued [where r = "(62000, ''t1'')"]) (simp add: demo_ticket_def prod_eq_iff)
  then have "auth_reachable (demo_ticket, [TicketIssued ''t1'' ''s1'' 2000, SessionCreated ''s1'', TotpAccepted 7])"
    by (rule step [OF two])
  moreover have "auth_step (demo_ticket, [TicketIssued ''t1'' ''s1'' 2000, SessionCreated ''s1'', TotpAccepted 7])
      (demo_connected, demo_log)"
    unfolding demo_log_def using demo_tickets(2) by (intro consumed) (simp add: demo_connected_def prod_eq_iff)
  ultimately show three: "auth_reachable (demo_connected, demo_log)" by (rule step)
  have "jm_has (db_sessions (sv_db demo_connected)) ''s1''" by (simp add: demo_tickets demo_login jm_has_def)
  then have "auth_step (demo_connected, demo_log) (auth_logout (Some ''s1'') demo_connected, SessionRevoked ''s1'' # demo_log)"
    using logged_out [of demo_connected demo_log "Some ''s1''"] by (simp add: truthy_def)
  then show "auth_reachable (auth_logout (Some ''s1'') demo_connected, SessionRevoked ''s1'' # demo_log)"
    by (rule step [OF three])
qed

section \<open>Properties\<close>

text \<open>
  C5. Which sessions are live, in any state the service can reach: \<open>resolveSession\<close> answers with the session of the row
  exactly while its user is enabled, the row has not expired and its last recorded use is less than 24 hours ago; a
  touching call moves that use to now when it is a minute old. The caches never change the answer.
\<close>

theorem session_resolve_exact:
  assumes "auth_reachable (st, es)" and "sid \<noteq> []"
  shows "fst (resolveSession (Some sid) touch now st) =
    (case getAuthSession (sv_db st) sid of
       None \<Rightarrow> None
     | Some s \<Rightarrow>
         (if as_expiresAt s \<le> now \<or> as_lastUsedAt s + 24 * 60 * 60 * 1000 \<le> now then None
          else Some (if touch \<and> now - as_lastUsedAt s \<ge> 60000 then s\<lparr> as_lastUsedAt := now \<rparr> else s)))"
proof -
  have "svc_ok st" using reachable_inv [OF assms(1)] by (simp add: auth_inv_def)
  then show ?thesis using resolve_exact [OF _ assms(2), of st touch now]
    by (auto simp: live_session_def DEFAULT_SESSION_IDLE_TIMEOUT_MS_def AUTH_SESSION_TOUCH_INTERVAL_MS_def split: option.split)
qed

lemma session_resolve_exact_witness:
  "fst (resolveSession (Some ''s1'') True 90000 demo_connected) =
    map_option (\<lambda>s. s\<lparr> as_lastUsedAt := 90000 \<rparr>) (getAuthSession (sv_db demo_connected) ''s1'') \<and>
   getAuthSession (sv_db demo_connected) ''s1'' \<noteq> None"
proof -
  have "map_option (\<lambda>s. (as_expiresAt s, as_lastUsedAt s)) (getAuthSession (sv_db demo_connected) ''s1'') =
      Some (604801000, 1000)"
    by (simp add: getAuthSession_def demo_tickets demo_login getUserById_def demo_db_def)
  then show ?thesis using session_resolve_exact [OF demo_reachable(1), of "''s1''" True 90000] by auto
qed

text \<open>
  C2. Revocation is final: once a session was logged out or all were revoked, no call at any later time resolves it, no
  ticket is issued for it and none of its tickets opens a connection.
\<close>

theorem session_revocation_final:
  assumes "auth_reachable (st, es)" and "SessionRevoked sid \<in> set es"
  shows "fst (resolveSession (Some sid) touch now st) = None \<and>
    fst (issueWebSocketTicket tid sid now st) = Inl SessionRequired \<and>
    fst (validateAndConsumeWebSocketTicket tid sid now st) = Inl SessionRequired"
proof -
  have "svc_ok st" and "sid \<notin> session_keys st"
    using reachable_inv [OF assms(1)] assms(2) by (auto simp: auth_inv_def key_inv_def)
  then have "jm_get (db_sessions (sv_db st)) sid = None" by (simp add: session_keys_def map_of_eq_None_iff)
  then have gone: "live_session (sv_db st) sid n = None" for n by (simp add: live_session_def getAuthSession_def)
  have none: "fst (resolveSession (Some sid) touch now st) = None" for touch
  proof (cases "sid = []")
    case False
    then show ?thesis using resolve_exact [OF \<open>svc_ok st\<close>, of sid touch now] gone by simp
  qed (simp add: resolveSession_def truthy_def)
  obtain st1 st2 where "resolveSession (Some sid) True now st = (None, st1)" "resolveSession (Some sid) False now st = (None, st2)"
    using none by (metis prod.collapse)
  then show ?thesis using none by (simp add: issueWebSocketTicket_def validateAndConsumeWebSocketTicket_def)
qed

lemma session_revocation_final_witness:
  "fst (resolveSession (Some ''s1'') True 4000 (auth_logout (Some ''s1'') demo_connected)) = None"
  using session_revocation_final [OF demo_reachable(2), of "''s1''" True 4000] by simp

text \<open>
  C3. A websocket ticket opens one connection: over any run, a ticket is consumed at most as often as it was issued, each
  time for the session it was issued to and less than a minute after.
\<close>

theorem ws_ticket_single_use:
  assumes "auth_reachable (st, es)"
  shows "uses tid es \<le> issues tid es \<and>
    list_all (\<lambda>e. case e of
        TicketConsumed k sid now \<Rightarrow>
          list_ex (\<lambda>i. case i of TicketIssued k' sid' t0 \<Rightarrow> k' = k \<and> sid' = sid \<and> now < t0 + 60000 | _ \<Rightarrow> False) es
      | _ \<Rightarrow> True) es"
proof -
  have inv: "ticket_inv (st, es)" using reachable_inv [OF assms] by (simp add: auth_inv_def)
  then have count: "uses tid es + open_ticket (sv_db st) tid \<le> issues tid es" by (simp add: ticket_inv_def)
  have "list_ex (\<lambda>i. case i of TicketIssued k' sid' t0 \<Rightarrow> k' = k \<and> sid' = sid \<and> now < t0 + 60000 | _ \<Rightarrow> False) es"
    if "TicketConsumed k sid now \<in> set es" for k sid now
  proof -
    have "\<exists>t0. TicketIssued k sid t0 \<in> set es \<and> now < t0 + WEBSOCKET_TICKET_LIFETIME_MS"
      using inv that by (simp add: ticket_inv_def)
    then obtain t0 where "TicketIssued k sid t0 \<in> set es" "now < t0 + WEBSOCKET_TICKET_LIFETIME_MS" by blast
    then show ?thesis by (force simp: list_ex_iff WEBSOCKET_TICKET_LIFETIME_MS_def)
  qed
  then show ?thesis using count by (auto simp: list_all_iff split: auth_event.split)
qed

lemma ws_ticket_single_use_witness: "uses ''t1'' demo_log \<le> issues ''t1'' demo_log \<and> uses ''t1'' demo_log = 1"
  using ws_ticket_single_use [OF demo_reachable(1), of "''t1''"] by (simp add: uses_def demo_log_def)

text \<open>
  C4. No one-time code works twice, however logins and step-ups overlap: the counters of the TOTP codes that were accepted
  grow strictly from one to the next, and each recovery code was used at most once.
\<close>

theorem one_time_codes_single_use:
  assumes "auth_reachable (st, es)"
  shows "sorted_wrt (>) (accepted_counters es) \<and> distinct (used_codes es)"
  using reachable_inv [OF assms] by (simp add: auth_inv_def totp_inv_def code_inv_def)

lemma one_time_codes_single_use_witness:
  "sorted_wrt (>) (accepted_counters demo_log) \<and> accepted_counters demo_log = [7]"
  using one_time_codes_single_use [OF demo_reachable(1)]
  by (simp add: accepted_counters_def demo_log_def map_filter_simps)

end
