(* ===== verification/Spec2Isabelle.thy ===== *)
theory Spec2Isabelle
  imports Js_Sort Lru_Cache Parse_Budget Status_Coalescer Auth_Attempt Network_Allowlist Outbound_Url Sqlite_Guard Cron_Utc Rpc_Codec Tool_Access Http_Security Rpc_Params Rpc_Transport Auth_Runs
begin

text \<open>
  Metidos: the decisions of the server, modelled from its TypeScript source and proved.

  Metidos is a web server (\<^verbatim>\<open>src/src/bun\<close>) for one local operator. It authenticates the operator, serves a user
  interface over HTTP and a WebSocket, runs agent threads with tools, plugins with declared permissions, and cron jobs.
  This library models the parts that decide something: who is let in, what a request or a plugin may do, what goes over
  the wire, when a schedule fires. What only moves data to a database, a process, a model provider or the screen is left
  out (last section).

  The way of a request through the program, and the theories on that way:

  \<^item> A request reaches \<^verbatim>\<open>index.ts\<close>. Its peer address and origin come from the connection or, behind a trusted
    proxy, from headers (\<^verbatim>\<open>Http_Forwarded\<close>: \<^verbatim>\<open>http-forwarded.ts\<close>). Origin, CSRF and header policy are in
    \<^verbatim>\<open>Http_Security\<close> (\<^verbatim>\<open>auth/http-security.ts\<close>, \<^verbatim>\<open>server-security.ts\<close>), cookies in \<^verbatim>\<open>Auth_Cookies\<close>
    (\<^verbatim>\<open>auth/service-cookies.ts\<close>).
  \<^item> An authentication route runs under a persistent rate limit per peer and subject: \<^verbatim>\<open>Auth_Rate_Limit\<close>
    (\<^verbatim>\<open>auth/rate-limit.ts\<close>) is the bucket table, \<^verbatim>\<open>Auth_Attempt\<close> the guard of \<^verbatim>\<open>index.ts\<close> around the operation.
  \<^item> The operation itself is the authentication service: \<^verbatim>\<open>Auth_Totp\<close> (\<^verbatim>\<open>auth/index.ts\<close>) has codes and secrets,
    \<^verbatim>\<open>Auth_Store\<close> the tables of \<^verbatim>\<open>db.ts\<close> it uses, \<^verbatim>\<open>Auth_Session\<close> sessions, tickets, step-up and the lockout
    (\<^verbatim>\<open>auth/service-session.ts\<close>, \<^verbatim>\<open>auth/service-core.ts\<close>), \<^verbatim>\<open>Auth_Login\<close> setup, login and recovery
    (\<^verbatim>\<open>auth/service-login.ts\<close>, \<^verbatim>\<open>auth/usernames.ts\<close>), \<^verbatim>\<open>Auth_Lockout\<close> what the lockout achieves, and \<^verbatim>\<open>Auth_Runs\<close>
    all of it as a transition system.
  \<^item> A WebSocket client is handled by \<^verbatim>\<open>Rpc_Transport\<close> (\<^verbatim>\<open>rpc-transport.ts\<close>). A message is charged to a budget before
    it is parsed (\<^verbatim>\<open>Parse_Budget\<close>: \<^verbatim>\<open>rpc-websocket-abuse-control.ts\<close>), decoded by \<^verbatim>\<open>Rpc_Codec\<close>
    (\<^verbatim>\<open>shared/rpc-binary-codec.ts\<close>, over \<^verbatim>\<open>Utf8\<close>) and checked by \<^verbatim>\<open>Rpc_Params\<close> (the validation in \<^verbatim>\<open>index.ts\<close>).
    \<^verbatim>\<open>Status_Coalescer\<close> (\<^verbatim>\<open>thread-status-coalescer.ts\<close>) is one of the senders.
  \<^item> What a thread may use is decided in \<^verbatim>\<open>Thread_Access\<close> (\<^verbatim>\<open>shared/thread-access-projection.ts\<close>),
    \<^verbatim>\<open>Thread_Permissions\<close> (\<^verbatim>\<open>thread-permissions.ts\<close>) and \<^verbatim>\<open>Tool_Access\<close> (\<^verbatim>\<open>plugin/tool-access.ts\<close>,
    \<^verbatim>\<open>project-procedures/local-operator.ts\<close>, the access part of \<^verbatim>\<open>project-procedures.ts\<close>).
  \<^item> What a plugin may do is decided in \<^verbatim>\<open>Capability_Gate\<close> (\<^verbatim>\<open>plugin/capability-gate.ts\<close> and the evaluators it calls),
    over \<^verbatim>\<open>Fs_Path\<close> (\<^verbatim>\<open>plugin/fs-path.ts\<close>, on \<^verbatim>\<open>Posix_Path\<close>) and \<^verbatim>\<open>Network_Allowlist\<close>
    (\<^verbatim>\<open>plugin/network-allowlist.ts\<close>, on \<^verbatim>\<open>Glob_Match\<close>: \<^verbatim>\<open>plugin/glob-match.ts\<close>).
  \<^item> An outbound request passes \<^verbatim>\<open>Outbound_Url\<close> (\<^verbatim>\<open>outbound-url-security.ts\<close>, on \<^verbatim>\<open>Ip_Address\<close>), a query
    \<^verbatim>\<open>Sqlite_Guard\<close> (\<^verbatim>\<open>pi/sqlite-tools.ts\<close>, \<^verbatim>\<open>plugin/sqlite.ts\<close>, on \<^verbatim>\<open>Sql_Split\<close> and \<^verbatim>\<open>Sql_Ident\<close>), a schedule
    \<^verbatim>\<open>Cron_Parse\<close> and \<^verbatim>\<open>Cron_Utc\<close> (\<^verbatim>\<open>shared/cron-utc.ts\<close>).
  \<^item> \<^verbatim>\<open>Lru_Cache\<close> (\<^verbatim>\<open>lru-map.ts\<close>) and \<^verbatim>\<open>Rate_Limiters\<close> (\<^verbatim>\<open>token-bucket-rate-limit.ts\<close>,
    \<^verbatim>\<open>fixed-window-rate-limit.ts\<close>) serve several of these.
\<close>

section \<open>How the model corresponds to the code\<close>

text \<open>
  The prelude has the parts of JavaScript the sources use: \<^verbatim>\<open>Js_Base\<close> (strings, numerals, character classes),
  \<^verbatim>\<open>Js_Result\<close> (code that throws: a sum, the error on the left), \<^verbatim>\<open>Js_Map\<close> (\<open>Map\<close> and \<open>Set\<close> in insertion order),
  \<^verbatim>\<open>Js_Sort\<close> (stable sorting by a comparison), \<^verbatim>\<open>Js_Url\<close> (the parts of a parsed URL), \<^verbatim>\<open>Utf8\<close>.

  A definition has the name of the function, type or constant it translates; a helper without a name in the source stands
  for the lines the manifest gives. A class or a module with variables is a record of its fields, passed and returned;
  \<^verbatim>\<open>Rpc_Transport\<close> keeps an explicit store of the pending objects and maps because the code compares their identity. An
  error is a constructor with the values its text is built from, or the text itself where the code relies on it.
  Strings are lists of code units below 256; the codec and the parameter gate use 16-bit code units, since lengths in bytes
  matter there. Numbers are integers or naturals where the code keeps them integral and below $2^{53}$, rationals where
  it divides, 64-bit patterns in the codec and the parameter gate; bit operations are on words of 32 or 8 bits.

  An asynchronous function is cut where it waits. Each part is one definition, what the wait answered is an argument, and
  the interleavings (the transaction that commits a setup is one step, although it waits for the encryption) are a step
  relation: \<^verbatim>\<open>auth_step\<close> for the authentication service (any operation of any caller at any
  time of the clock), \<^verbatim>\<open>rpc_step\<close> for the transport (messages, sends, closes, timeouts and finishing requests in any order).
  Properties of these two hold in every reachable state; the invariants are proved by rule induction.

  Parameters, with what is assumed of them stated where it is used: the URL parser and \<open>isIP\<close>; DNS answers; \<open>lstat\<close>,
  \<open>realpath\<close> and the other file system reads; environment variables; the order \<open>localeCompare\<close>; gzip (that
  decompressing undoes compressing); SHA-256; HMAC; the answers of Argon2 and of decryption; \<open>Date.parse\<close>; the clock;
  random identifiers (that a new one was not used before). Every property with such an assumption has a witness at a concrete
  instance.
\<close>

section \<open>What the lemmas show\<close>

text \<open>
  \<^item> Authentication. Invariants of the service over all interleavings give: revocation is final, a ticket opens one
    connection of its own session within its minute, no TOTP counter or recovery code works twice, and the caches in
    front of the session table never change an answer. The three things that work once share the contract
    \<^verbatim>\<open>one_time\<close>. The accepted TOTP codes are exactly the HOTP values of the window; base 32 and the stored secrets round
    trip. Sequential guessing gets three checks in ten minutes past the lockout and twelve past the route limit; the lemmas
    also show what concurrency does to both (see the findings in the manifest).
  \<^item> HTTP. Exactly which authentication posts, browser origins and peers are accepted; a session cookie that was set is read
    back among any others; the key of a public route is not the client's choice unless a proxy is trusted.
  \<^item> RPC. The codec's round trip for values within its limits, the exact language of frames, termination; the iterative
    bounds of the parameter gate are the structural ones; pending requests are counted exactly, none outlives its request unless
    its method has no handler, and closing a session closes exactly its clients.
  \<^item> Plugins and threads. The gate's decisions are the conjunction of permissions and constraints; a resolved path lies in
    its real root and an allowed URL matches a pattern of the manifest; a granted permission exists; unsafe mode is
    guarded.
  \<^item> Outbound and SQL. The exact set of URLs that pass and that every request sent is pinned to an address that is not
    blocked; the two SQL guards decide exactly their token policies, for the statements the splitter yields.
  \<^item> Schedules. A converted expression fires at exactly the minutes of the local one, over the Gregorian calendar.
  \<^item> Prelude. Laws of ordered maps, recency lists and stable sorting, proved once in locales (\<^verbatim>\<open>ordered_map\<close>,
    \<^verbatim>\<open>comparator\<close>, \<^verbatim>\<open>rate_limiter\<close>, \<^verbatim>\<open>token_search\<close>, \<^verbatim>\<open>cookie_family\<close>, \<^verbatim>\<open>close_stable\<close>, \<^verbatim>\<open>one_time\<close>) and interpreted at
    the code's own definitions.
\<close>

section \<open>Bounds and termination\<close>

text \<open>
  Recursion is structural or has a measure: the length of what is left to read, the entries left to evict, the nodes left
  to visit, a limit minus a counter. One definition has fuel: the reader of RPC values gets the number of bytes plus one.
  Each of its calls consumes at least one byte, and \<^verbatim>\<open>rpc_decode_terminates\<close> shows that the answer for lack of fuel is
  never given.
\<close>

section \<open>Not modelled\<close>

text \<open>
  \<^item> Programs of their own: the user interface (\<^verbatim>\<open>src/mainview\<close>, React components and their state), the plugins shipped with
    the program (\<^verbatim>\<open>core_plugins\<close>), the native code (\<^verbatim>\<open>native\<close>, an XML parser in Rust and an SQLite extension), the web site, build and
    deployment scripts.
  \<^item> Glue to other systems, whose behaviour is not in the repository: the agent runtime and its tools (\<^verbatim>\<open>pi\<close>), git, model
    providers, the terminal, the QuickJS and Python hosts and the process side of plugin sidecars, LanceDB,
    web search.
  \<^item> SQL over many tables: most of \<^verbatim>\<open>db.ts\<close>, the stores of threads, projects, cron jobs, calendars and ingress, the
    migrations. The calendar's recurrences and ICS files come from libraries.
  \<^item> The procedures behind the RPC methods (\<^verbatim>\<open>project-procedures\<close>), which mostly call those two groups.
  \<^item> Inside the modelled files: log lines, measurements, audit events, error texts that nothing reads, types without
    behaviour. The manifest says what is left out of each component.
\<close>

end
